(* ===== verification/Prelude.thy ===== *)
theory Prelude
  imports Complex_Main "HOL-Library.Word"
begin

text \<open>
  Shared vocabulary of the development: the result of a Python call, the exceptions the
  sources raise, bytes and the \<^verbatim>\<open>struct\<close> integer codecs, ordered dictionaries, and the generic
  lemmas the component theories rest on.

  A Python call either returns, raises, or (where the model is given a finite supply of
  environment inputs such as random draws) asks for more input than it was given.
\<close>

section \<open>Results of Python calls\<close>

datatype exn =
    ValueError string
  | RuntimeError string
  | KeyError string
  | TypeError string
  | AttributeError string
  | IndexError string
  | StructError string
  | OSError int string
  | PermissionError string
  | TimeoutError string
  | BlockingIOError
  | EOFError string
  | RecursionError string
  | OverflowError string
  | GLibError string
  | CalledProcessError int
  | TimeoutExpired
  | StopIteration
  | SystemExit int

text \<open>The parts of Python's exception hierarchy that \<^verbatim>\<open>except\<close> clauses of the sources name.\<close>

fun is_OSError :: "exn \<Rightarrow> bool" where
  "is_OSError (OSError _ _) = True"
| "is_OSError (PermissionError _) = True"
| "is_OSError (TimeoutError _) = True"
| "is_OSError BlockingIOError = True"
| "is_OSError _ = False"

fun is_ValueError :: "exn \<Rightarrow> bool" where
  "is_ValueError (ValueError _) = True"
| "is_ValueError _ = False"

fun is_RuntimeError :: "exn \<Rightarrow> bool" where
  "is_RuntimeError (RuntimeError _) = True"
| "is_RuntimeError (RecursionError _) = True"
| "is_RuntimeError _ = False"

text \<open>\<^verbatim>\<open>except Exception\<close> catches everything but the request to exit.\<close>

fun is_Exception :: "exn \<Rightarrow> bool" where
  "is_Exception (SystemExit _) = False"
| "is_Exception _ = True"

fun is_KeyError :: "exn \<Rightarrow> bool" where
  "is_KeyError (KeyError _) = True"
| "is_KeyError _ = False"

fun is_TypeError :: "exn \<Rightarrow> bool" where
  "is_TypeError (TypeError _) = True"
| "is_TypeError _ = False"

fun is_AttributeError :: "exn \<Rightarrow> bool" where
  "is_AttributeError (AttributeError _) = True"
| "is_AttributeError _ = False"

fun is_EOFError :: "exn \<Rightarrow> bool" where
  "is_EOFError (EOFError _) = True"
| "is_EOFError _ = False"

fun is_GLibError :: "exn \<Rightarrow> bool" where
  "is_GLibError (GLibError _) = True"
| "is_GLibError _ = False"

fun is_SubprocessError :: "exn \<Rightarrow> bool" where
  "is_SubprocessError (CalledProcessError _) = True"
| "is_SubprocessError TimeoutExpired = True"
| "is_SubprocessError _ = False"

text \<open>\<^verbatim>\<open>type(error).__name__\<close>.\<close>

fun exn_name :: "exn \<Rightarrow> string" where
  "exn_name (OSError _ _) = ''OSError''"
| "exn_name (PermissionError _) = ''PermissionError''"
| "exn_name (TimeoutError _) = ''TimeoutError''"
| "exn_name BlockingIOError = ''BlockingIOError''"
| "exn_name (ValueError _) = ''ValueError''"
| "exn_name (RuntimeError _) = ''RuntimeError''"
| "exn_name (RecursionError _) = ''RecursionError''"
| "exn_name (KeyError _) = ''KeyError''"
| "exn_name (TypeError _) = ''TypeError''"
| "exn_name (AttributeError _) = ''AttributeError''"
| "exn_name (IndexError _) = ''IndexError''"
| "exn_name (StructError _) = ''error''"
| "exn_name (EOFError _) = ''EOFError''"
| "exn_name (OverflowError _) = ''OverflowError''"
| "exn_name (GLibError _) = ''Error''"
| "exn_name (CalledProcessError _) = ''CalledProcessError''"
| "exn_name TimeoutExpired = ''TimeoutExpired''"
| "exn_name StopIteration = ''StopIteration''"
| "exn_name (SystemExit _) = ''SystemExit''"

datatype 'a outcome = Ret 'a | Exc exn | NoRet

fun bindO :: "'a outcome \<Rightarrow> ('a \<Rightarrow> 'b outcome) \<Rightarrow> 'b outcome" where
  "bindO (Ret x) f = f x"
| "bindO (Exc e) f = Exc e"
| "bindO NoRet f = NoRet"

text \<open>\<^verbatim>\<open>try: m except <classes>: handler\<close>, with the classes as a predicate.\<close>

fun catchO :: "'a outcome \<Rightarrow> (exn \<Rightarrow> bool) \<Rightarrow> (exn \<Rightarrow> 'a outcome) \<Rightarrow> 'a outcome" where
  "catchO (Ret x) p h = Ret x"
| "catchO (Exc e) p h = (if p e then h e else Exc e)"
| "catchO NoRet p h = NoRet"

abbreviation raise_if :: "bool \<Rightarrow> exn \<Rightarrow> 'a outcome \<Rightarrow> 'a outcome" where
  "raise_if c e m \<equiv> (if c then Exc e else m)"

lemma bindO_eq_Ret [simp]: "bindO m f = Ret y \<longleftrightarrow> (\<exists>x. m = Ret x \<and> f x = Ret y)"
  by (cases m) auto

lemma bindO_Ret [simp]: "bindO m Ret = m"
  by (cases m) auto

lemma bindO_assoc: "bindO (bindO m f) g = bindO m (\<lambda>x. bindO (f x) g)"
  by (cases m) auto

lemma bindO_eq_Exc: "bindO m f = Exc e \<longleftrightarrow> m = Exc e \<or> (\<exists>x. m = Ret x \<and> f x = Exc e)"
  by (cases m) auto

lemma bindO_eq_NoRet: "bindO m f = NoRet \<longleftrightarrow> m = NoRet \<or> (\<exists>x. m = Ret x \<and> f x = NoRet)"
  by (cases m) auto

lemma catchO_eq_Ret: "catchO m p h = Ret y \<longleftrightarrow> m = Ret y \<or> (\<exists>e. m = Exc e \<and> p e \<and> h e = Ret y)"
  by (cases m) auto

fun mapO :: "('a \<Rightarrow> 'b outcome) \<Rightarrow> 'a list \<Rightarrow> 'b list outcome" where
  "mapO f [] = Ret []"
| "mapO f (x # xs) = bindO (f x) (\<lambda>y. bindO (mapO f xs) (\<lambda>ys. Ret (y # ys)))"

lemma mapO_length: "mapO f xs = Ret ys \<Longrightarrow> length ys = length xs"
  by (induction xs arbitrary: ys) auto

lemma mapO_set: "mapO f xs = Ret ys \<Longrightarrow> y \<in> set ys \<Longrightarrow> \<exists>x \<in> set xs. f x = Ret y"
  by (induction xs arbitrary: ys) auto

lemma mapO_append:
  "mapO f (xs @ ys) = bindO (mapO f xs) (\<lambda>us. bindO (mapO f ys) (\<lambda>vs. Ret (us @ vs)))"
proof (induction xs)
  case Nil
  show ?case by (cases "mapO f ys") auto
next
  case (Cons x xs)
  then show ?case by (cases "f x"; cases "mapO f xs"; cases "mapO f ys") auto
qed

text \<open>A call that returns or raises an exception of a given class.\<close>

fun may_raise :: "(exn \<Rightarrow> bool) \<Rightarrow> 'a outcome \<Rightarrow> bool" where
  "may_raise p (Ret x) = True"
| "may_raise p (Exc e) = p e"
| "may_raise p NoRet = False"

lemma may_raise_bind:
  "may_raise p m \<Longrightarrow> (\<And>x. m = Ret x \<Longrightarrow> may_raise p (f x)) \<Longrightarrow> may_raise p (bindO m f)"
  by (cases m) auto

lemma may_raise_mono: "may_raise p m \<Longrightarrow> (\<And>e. p e \<Longrightarrow> q e) \<Longrightarrow> may_raise q m"
  by (cases m) auto

lemma may_raise_catch: "may_raise p m \<Longrightarrow> (\<And>e. p e \<Longrightarrow> \<exists>x. h e = Ret x) \<Longrightarrow> \<exists>x. catchO m p h = Ret x"
  by (cases m) auto

section \<open>Bytes and fixed-width integers\<close>

type_synonym byte = "8 word"
type_synonym bytes = "byte list"
type_synonym time = rat

text \<open>
  Big- and little-endian encodings of a natural number in a given number of bytes, as
  \<^verbatim>\<open>struct.pack\<close> lays them out, and their inverses. The value is reduced modulo the width; a
  caller for which \<^verbatim>\<open>struct\<close> would raise on a larger value says so itself.
\<close>

fun to_le :: "nat \<Rightarrow> nat \<Rightarrow> bytes" where
  "to_le 0 n = []"
| "to_le (Suc w) n = word_of_nat n # to_le w (n div 256)"

fun from_le :: "bytes \<Rightarrow> nat" where
  "from_le [] = 0"
| "from_le (b # bs) = unat b + 256 * from_le bs"

definition to_be :: "nat \<Rightarrow> nat \<Rightarrow> bytes" where
  "to_be w n = rev (to_le w n)"

definition from_be :: "bytes \<Rightarrow> nat" where
  "from_be bs = from_le (rev bs)"

lemma unat_byte_lt [simp]: "unat (b :: byte) < 256"
  using unsigned_less [of b, where 'a = nat] by simp

lemma unat_of_nat_byte: "unat (word_of_nat n :: byte) = n mod 256"
  by (simp add: unat_of_nat)

lemma length_to_le [simp]: "length (to_le w n) = w"
  by (induction w arbitrary: n) auto

lemma length_to_be [simp]: "length (to_be w n) = w"
  by (simp add: to_be_def)

lemma mod_256_pow_Suc: "(n :: nat) mod 256 + 256 * (n div 256 mod 256 ^ w) = n mod 256 ^ Suc w"
  by (simp add: mod_mult2_eq add.commute)

lemma from_le_to_le: "from_le (to_le w n) = n mod 256 ^ w"
  by (induction w arbitrary: n) (simp_all add: unat_of_nat_byte mod_256_pow_Suc del: power_Suc)

lemma to_le_from_le: "to_le (length bs) (from_le bs) = bs"
proof (induction bs)
  case (Cons b bs)
  have "(256 :: byte) = 0"
    by (rule word_unat_eq_iff [THEN iffD2]) simp
  then have "word_of_nat (256 * from_le bs) = (0 :: byte)"
    by (simp only: of_nat_mult of_nat_numeral mult_zero_left)
  then have "word_of_nat (unat b + 256 * from_le bs) = b"
    by (simp only: of_nat_add) simp
  moreover have "(unat b + 256 * from_le bs) div 256 = from_le bs"
    using unat_byte_lt [of b] by simp
  ultimately show ?case using Cons by simp
qed simp

lemma from_le_less: "from_le bs < 256 ^ length bs"
proof (induction bs)
  case (Cons b bs)
  then have "from_le bs + 1 \<le> 256 ^ length bs" by simp
  then have "256 * from_le bs + 256 \<le> 256 ^ length (b # bs)" by simp
  moreover have "unat b < 256" by (rule unat_byte_lt)
  ultimately show ?case unfolding from_le.simps by linarith
qed simp

lemma from_be_to_be: "from_be (to_be w n) = n mod 256 ^ w"
  by (simp add: from_be_def to_be_def from_le_to_le)

lemma to_be_from_be: "to_be (length bs) (from_be bs) = bs"
  using to_le_from_le [of "rev bs"] by (simp add: from_be_def to_be_def)

lemma from_be_less: "from_be bs < 256 ^ length bs"
  using from_le_less [of "rev bs"] by (simp add: from_be_def)

text \<open>\<^verbatim>\<open>bytes.ljust\<close>, \<^verbatim>\<open>bytes[a:b]\<close> and \<^verbatim>\<open>range(a, b, s)\<close> of the language.\<close>

definition ljust :: "nat \<Rightarrow> 'a \<Rightarrow> 'a list \<Rightarrow> 'a list" where
  "ljust n fill xs = xs @ replicate (n - length xs) fill"

definition py_slice :: "nat \<Rightarrow> nat \<Rightarrow> 'a list \<Rightarrow> 'a list" where
  "py_slice a b xs = take (b - a) (drop a xs)"

function range_step :: "nat \<Rightarrow> nat \<Rightarrow> nat \<Rightarrow> nat list" where
  "range_step a b s = (if s = 0 \<or> b \<le> a then [] else a # range_step (a + s) b s)"
  by pat_completeness auto
termination
  by (relation "measure (\<lambda>(a, b, s). b - a)") auto

declare range_step.simps [simp del]

lemma length_ljust [simp]: "length (ljust n fill xs) = max n (length xs)"
  by (simp add: ljust_def max_def)

lemma take_ljust: "k \<le> length xs \<Longrightarrow> take k (ljust n fill xs) = take k xs"
  by (simp add: ljust_def)

lemma nth_ljust: "i < length xs \<Longrightarrow> ljust n fill xs ! i = xs ! i"
  by (simp add: ljust_def nth_append)

lemma py_slice_append_left: "b \<le> length xs \<Longrightarrow> py_slice a b (xs @ ys) = py_slice a b xs"
  by (simp add: py_slice_def)

lemma length_py_slice [simp]: "length (py_slice a b xs) = min (b - a) (length xs - a)"
  by (simp add: py_slice_def min.commute)

text \<open>\<^verbatim>\<open>while sep in buf: line, buf = buf.split(sep, 1)\<close>: the complete lines and what is left.\<close>

fun cut_lines :: "'a \<Rightarrow> 'a list \<Rightarrow> 'a list list \<times> 'a list" where
  "cut_lines sep [] = ([], [])"
| "cut_lines sep (x # xs) =
     (case cut_lines sep xs of (ls, rest) \<Rightarrow>
        if x = sep then ([] # ls, rest) else (case ls of [] \<Rightarrow> ([], x # rest) | l # ls' \<Rightarrow> ((x # l) # ls', rest)))"

lemma cut_lines_concat: "cut_lines sep xs = (ls, rest) \<Longrightarrow> concat (map (\<lambda>l. l @ [sep]) ls) @ rest = xs"
  by (induction xs arbitrary: ls rest) (auto split: prod.splits if_splits list.splits)

lemma cut_lines_sep: "cut_lines sep xs = (ls, rest) \<Longrightarrow> sep \<notin> set rest \<and> (\<forall>l \<in> set ls. sep \<notin> set l)"
  by (induction xs arbitrary: ls rest) (auto split: prod.splits if_splits list.splits)

text \<open>Python's \<^verbatim>\<open>round\<close> of a number: the nearest integer, the even one of two.\<close>

definition round_even :: "real \<Rightarrow> int" where
  "round_even x = (let n = \<lfloor>x\<rfloor>; r = x - of_int n in
     if r < 1 / 2 then n else if 1 / 2 < r then n + 1 else if even n then n else n + 1)"

lemma round_even_le: "x \<le> of_int k \<Longrightarrow> round_even x \<le> k"
proof -
  assume x: "x \<le> of_int k"
  have "\<lfloor>x\<rfloor> \<le> k" using x by linarith
  moreover have "\<lfloor>x\<rfloor> = k \<Longrightarrow> x - of_int \<lfloor>x\<rfloor> < 1 / 2" using x by linarith
  ultimately show ?thesis by (cases "\<lfloor>x\<rfloor> = k") (auto simp: round_even_def Let_def)
qed

lemma round_even_ge: "of_int k \<le> x \<Longrightarrow> k \<le> round_even x"
proof -
  assume "of_int k \<le> x"
  then have "k \<le> \<lfloor>x\<rfloor>" by linarith
  then show ?thesis by (auto simp: round_even_def Let_def)
qed

lemma round_even_int [simp]: "round_even (of_int k) = k"
  by (simp add: round_even_def)

text \<open>What the rounding of an exact result to a double keeps: the order, and the integers a double holds.\<close>

definition float_rounding :: "(real \<Rightarrow> real) \<Rightarrow> bool" where
  "float_rounding fl \<longleftrightarrow> (\<forall>a b. a \<le> b \<longrightarrow> fl a \<le> fl b) \<and> (\<forall>k :: int. \<bar>k\<bar> \<le> 2 ^ 53 \<longrightarrow> fl (of_int k) = of_int k)"

lemma round_rounded:
  assumes "float_rounding fl" "of_int a \<le> x" "x \<le> of_int b" "\<bar>a\<bar> \<le> 2 ^ 53" "\<bar>b\<bar> \<le> 2 ^ 53"
  shows "a \<le> round_even (fl x) \<and> round_even (fl x) \<le> b"
proof -
  have "fl (of_int a) = of_int a" "fl (of_int b) = of_int b" "fl (of_int a) \<le> fl x" "fl x \<le> fl (of_int b)"
    using assms unfolding float_rounding_def by blast+
  then show ?thesis using round_even_ge round_even_le by metis
qed

lemma float_rounding_id [simp]: "float_rounding id"
  by (simp add: float_rounding_def)

section \<open>A codec interface\<close>

text \<open>
  Every integer field of the wire formats goes through a fixed-width codec; the laws are what
  the formats rely on, the lemmas what they use of them.
\<close>

locale fixed_codec =
  fixes width :: nat
    and enc :: "nat \<Rightarrow> bytes"
    and dec :: "bytes \<Rightarrow> nat"
  assumes enc_length: "length (enc n) = width"
    and dec_enc_mod: "dec (enc n) = n mod 256 ^ width"
    and enc_dec: "length bs = width \<Longrightarrow> enc (dec bs) = bs"
begin

lemma dec_enc: "n < 256 ^ width \<Longrightarrow> dec (enc n) = n"
  by (simp add: dec_enc_mod)

lemma dec_take_enc: "n < 256 ^ width \<Longrightarrow> dec (take width (enc n @ rest)) = n"
  by (simp add: enc_length dec_enc)

lemma enc_inj: "m < 256 ^ width \<Longrightarrow> n < 256 ^ width \<Longrightarrow> enc m = enc n \<longleftrightarrow> m = n"
  by (metis dec_enc)

lemma dec_inj: "length as = width \<Longrightarrow> length bs = width \<Longrightarrow> dec as = dec bs \<longleftrightarrow> as = bs"
  by (metis enc_dec)

end

interpretation be16: fixed_codec 2 "to_be 2" from_be
  by unfold_locales (simp_all add: from_be_to_be, metis to_be_from_be)

interpretation be32: fixed_codec 4 "to_be 4" from_be
  by unfold_locales (simp_all add: from_be_to_be, metis to_be_from_be)

interpretation le16: fixed_codec 2 "to_le 2" from_le
  by unfold_locales (simp_all add: from_le_to_le, metis to_le_from_le)

interpretation le32: fixed_codec 4 "to_le 4" from_le
  by unfold_locales (simp_all add: from_le_to_le, metis to_le_from_le)

section \<open>Ordered dictionaries\<close>

text \<open>
  A Python \<^verbatim>\<open>dict\<close> iterates in insertion order; where the order or the size matters it is an
  association list with distinct keys. Assigning to a present key keeps its position.
\<close>

fun dset :: "'k \<Rightarrow> 'v \<Rightarrow> ('k \<times> 'v) list \<Rightarrow> ('k \<times> 'v) list" where
  "dset k v [] = [(k, v)]"
| "dset k v ((k', v') # d) = (if k' = k then (k, v) # d else (k', v') # dset k v d)"

definition dpop :: "'k \<Rightarrow> ('k \<times> 'v) list \<Rightarrow> ('k \<times> 'v) list" where
  "dpop k d = filter (\<lambda>(k', _). k' \<noteq> k) d"

definition dkeys :: "('k \<times> 'v) list \<Rightarrow> 'k list" where
  "dkeys d = map fst d"

definition wf_dict :: "('k \<times> 'v) list \<Rightarrow> bool" where
  "wf_dict d \<longleftrightarrow> distinct (map fst d)"

lemma map_of_dset [simp]: "map_of (dset k v d) = (map_of d)(k \<mapsto> v)"
  by (induction d) (auto simp: fun_eq_iff)

lemma map_of_dpop [simp]: "map_of (dpop k d) = (map_of d)(k := None)"
  by (induction d) (auto simp: fun_eq_iff dpop_def)

lemma set_keys_dset [simp]: "fst ` set (dset k v d) = insert k (fst ` set d)"
proof (induction d)
  case (Cons p d)
  then show ?case by (cases p) (simp add: insert_commute)
qed simp

lemma set_keys_dpop [simp]: "fst ` set (dpop k d) = fst ` set d - {k}"
  by (auto simp: dpop_def image_iff)

lemma wf_dict_Nil [simp]: "wf_dict []"
  by (simp add: wf_dict_def)

lemma wf_dict_dset [simp]: "wf_dict d \<Longrightarrow> wf_dict (dset k v d)"
  unfolding wf_dict_def
proof (induction d)
  case (Cons p d)
  have "fst ` set (dset k v d) = insert k (fst ` set d)" by simp
  with Cons show ?case by (cases p) auto
qed simp

lemma wf_dict_dpop [simp]: "wf_dict d \<Longrightarrow> wf_dict (dpop k d)"
  unfolding wf_dict_def dpop_def by (simp add: distinct_map_filter)

lemma length_dset: "length (dset k v d) = (if k \<in> fst ` set d then length d else Suc (length d))"
proof (induction d)
  case (Cons p d)
  then show ?case by (cases p) simp
qed simp

lemma length_dpop_le: "length (dpop k d) \<le> length d"
  by (simp add: dpop_def)

lemma dset_fresh: "k \<notin> fst ` set d \<Longrightarrow> dset k v d = d @ [(k, v)]"
proof (induction d)
  case (Cons p d)
  then show ?case by (cases p) auto
qed simp

lemma set_dpop: "set (dpop k d) = {p \<in> set d. fst p \<noteq> k}"
  by (auto simp: dpop_def)

lemma map_dset_present: "map_of d k = Some c \<Longrightarrow> g (k, v) = g (k, c) \<Longrightarrow> map g (dset k v d) = map g d"
proof (induction d)
  case (Cons p d)
  then show ?case by (cases p) (auto split: if_splits)
qed simp

lemma list_ex_dset_present:
  assumes "map_of d k = Some c" "P (k, v) = P (k, c)"
  shows "list_ex P (dset k v d) = list_ex P d"
proof -
  have e: "list_ex P xs = (True \<in> set (map P xs))" for xs by (auto simp: list_ex_iff)
  show ?thesis by (simp only: e map_dset_present [of d k c P v, OF assms])
qed

lemma list_all_dset_present:
  assumes "map_of d k = Some c" "P (k, v) = P (k, c)"
  shows "list_all P (dset k v d) = list_all P d"
proof -
  have e: "list_all P xs = (False \<notin> set (map P xs))" for xs by (auto simp: list_all_iff)
  show ?thesis by (simp only: e map_dset_present [of d k c P v, OF assms])
qed

lemma length_dset_present: "map_of d k = Some c \<Longrightarrow> length (dset k v d) = length d"
  using map_dset_present [of d k c "\<lambda>_. ()" v] by (metis length_map)

lemma dpop_dset [simp]: "dpop k (dset k v d) = dpop k d"
proof (induction d)
  case (Cons p d)
  then show ?case by (cases p) (auto simp: dpop_def)
qed (simp add: dpop_def)

section \<open>Stateful calls\<close>

text \<open>
  A method that may raise after it has changed its object: the state at the end of the call,
  and the value, exception or lack of input it ended with.
\<close>

type_synonym ('s, 'a) act = "'s \<Rightarrow> 's \<times> 'a outcome"

definition retA :: "'a \<Rightarrow> ('s, 'a) act" where
  "retA x = (\<lambda>s. (s, Ret x))"

definition excA :: "exn \<Rightarrow> ('s, 'a) act" where
  "excA e = (\<lambda>s. (s, Exc e))"

definition bindA :: "('s, 'a) act \<Rightarrow> ('a \<Rightarrow> ('s, 'b) act) \<Rightarrow> ('s, 'b) act" where
  "bindA m f = (\<lambda>s. case m s of (t, r) \<Rightarrow>
     (case r of Ret x \<Rightarrow> f x t | Exc e \<Rightarrow> (t, Exc e) | NoRet \<Rightarrow> (t, NoRet)))"

definition thenA :: "('s, 'a) act \<Rightarrow> ('s, 'b) act \<Rightarrow> ('s, 'b) act" where
  "thenA m k = bindA m (\<lambda>_. k)"

definition getA :: "('s \<Rightarrow> 'a) \<Rightarrow> ('s, 'a) act" where
  "getA f = (\<lambda>s. (s, Ret (f s)))"

definition updA :: "('s \<Rightarrow> 's) \<Rightarrow> ('s, unit) act" where
  "updA f = (\<lambda>s. (f s, Ret ()))"

definition liftA :: "'a outcome \<Rightarrow> ('s, 'a) act" where
  "liftA r = (\<lambda>s. (s, r))"

definition catchA :: "('s, 'a) act \<Rightarrow> (exn \<Rightarrow> bool) \<Rightarrow> (exn \<Rightarrow> ('s, 'a) act) \<Rightarrow> ('s, 'a) act" where
  "catchA m p h = (\<lambda>s. case m s of (t, r) \<Rightarrow>
     (case r of Exc e \<Rightarrow> if p e then h e t else (t, Exc e) | _ \<Rightarrow> (t, r)))"

primrec forA :: "('x \<Rightarrow> ('s, unit) act) \<Rightarrow> 'x list \<Rightarrow> ('s, unit) act" where
  "forA f [] = retA ()"
| "forA f (x # xs) = thenA (f x) (forA f xs)"

named_theorems act_defs \<open>unfolding a stateful call into a function on states\<close>

declare retA_def [act_defs] excA_def [act_defs] bindA_def [act_defs] thenA_def [act_defs]
  getA_def [act_defs] updA_def [act_defs] liftA_def [act_defs] catchA_def [act_defs]

text \<open>
  A property of the state that a call keeps however it ends, with one rule per construct: the
  invariants of the services are proved by following the text of their methods.
\<close>

definition keeps :: "('s \<Rightarrow> bool) \<Rightarrow> ('s, 'a) act \<Rightarrow> bool" where
  "keeps P m \<longleftrightarrow> (\<forall>s. P s \<longrightarrow> P (fst (m s)))"

named_theorems keeps_intros \<open>rules for showing that a call keeps an invariant\<close>

lemma keepsI: "(\<And>s. P s \<Longrightarrow> P (fst (m s))) \<Longrightarrow> keeps P m"
  by (simp add: keeps_def)

lemma keepsD: "keeps P m \<Longrightarrow> P s \<Longrightarrow> P (fst (m s))"
  by (simp add: keeps_def)

lemma keeps_ret [keeps_intros]: "keeps P (retA x)"
  by (simp add: keeps_def retA_def)

lemma keeps_exc [keeps_intros]: "keeps P (excA e)"
  by (simp add: keeps_def excA_def)

lemma keeps_get [keeps_intros]: "keeps P (getA f)"
  by (simp add: keeps_def getA_def)

lemma keeps_lift [keeps_intros]: "keeps P (liftA r)"
  by (simp add: keeps_def liftA_def)

lemma keeps_upd: "(\<And>s. P s \<Longrightarrow> P (f s)) \<Longrightarrow> keeps P (updA f)"
  by (simp add: keeps_def updA_def)

lemma keeps_bind [keeps_intros]: "keeps P m \<Longrightarrow> (\<And>x. keeps P (f x)) \<Longrightarrow> keeps P (bindA m f)"
  unfolding keeps_def bindA_def by (auto split: prod.splits outcome.splits)

lemma keeps_then [keeps_intros]: "keeps P m \<Longrightarrow> keeps P k \<Longrightarrow> keeps P (thenA m k)"
  by (simp add: thenA_def keeps_bind)

lemma keeps_catch [keeps_intros]: "keeps P m \<Longrightarrow> (\<And>e. keeps P (h e)) \<Longrightarrow> keeps P (catchA m p h)"
  unfolding keeps_def catchA_def by (auto split: prod.splits outcome.splits)

lemma keeps_for [keeps_intros]: "(\<And>x. x \<in> set xs \<Longrightarrow> keeps P (f x)) \<Longrightarrow> keeps P (forA f xs)"
  by (induction xs) (auto intro!: keeps_intros)

lemma keeps_if [keeps_intros]: "keeps P m \<Longrightarrow> keeps P k \<Longrightarrow> keeps P (if c then m else k)"
  by simp

lemma act_at [simp]:
  "bindA (getA g) f s = f (g s) s"
  "bindA (liftA r) h s = (case r of Ret x \<Rightarrow> h x s | Exc e \<Rightarrow> (s, Exc e) | NoRet \<Rightarrow> (s, NoRet))"
  "thenA (updA u) m s = m (u s)"
  "updA u s = (u s, Ret ())"
  "retA x s = (s, Ret x)"
  "excA e s = (s, Exc e)"
  "thenA (retA x) m s = m s"
  by (simp_all add: act_defs)

lemma bindA_eq_Ret: "bindA m f s = (t, Ret y) \<longleftrightarrow> (\<exists>u x. m s = (u, Ret x) \<and> f x u = (t, Ret y))"
  by (auto simp: bindA_def split: prod.splits outcome.splits)

lemma thenA_eq_Ret: "thenA m k s = (t, Ret y) \<longleftrightarrow> (\<exists>u x. m s = (u, Ret x) \<and> k u = (t, Ret y))"
  by (simp add: thenA_def bindA_eq_Ret)

lemma liftA_eq_Ret [simp]: "liftA r s = (t, Ret x) \<longleftrightarrow> r = Ret x \<and> t = s"
  by (auto simp: liftA_def)

lemma keeps_at: "P (fst (m s)) \<Longrightarrow> keeps P k \<Longrightarrow> P (fst (thenA m k s))"
  by (auto simp: keeps_def thenA_def bindA_def split: prod.splits outcome.splits)

lemma keeps_lift_bind: "(\<And>x. r = Ret x \<Longrightarrow> keeps P (f x)) \<Longrightarrow> keeps P (bindA (liftA r) f)"
  by (cases r) (auto simp: keeps_def bindA_def liftA_def)

lemma keeps_get_bind: "(\<And>s. P s \<Longrightarrow> keeps P (f (g s))) \<Longrightarrow> keeps P (bindA (getA g) f)"
  by (auto simp: keeps_def)

lemma thenA_assoc: "thenA (thenA a b) c = thenA a (thenA b c)"
  by (rule ext) (auto simp: thenA_def bindA_def split: prod.splits outcome.splits)

lemma thenA_at: "m s = (u, Ret x) \<Longrightarrow> thenA m k s = k u"
  by (simp add: thenA_def bindA_def)

text \<open>A sequence either stops in its first part or ends in the second.\<close>

lemma seqA_cases:
  assumes "thenA m k s = (t, r)"
  obtains (first) "m s = (t, r)" "\<And>x. r \<noteq> Ret x" | (second) u x where "m s = (u, Ret x)" "k u = (t, r)"
proof -
  obtain u q where u: "m s = (u, q)" by (cases "m s")
  show thesis
    using assms u by (cases q) (auto simp: thenA_def bindA_def intro: first second)
qed

text \<open>\<^verbatim>\<open>try: m finally: k\<close>.\<close>

definition finallyA :: "('s, 'a) act \<Rightarrow> ('s, unit) act \<Rightarrow> ('s, 'a) act" where
  "finallyA m k = (\<lambda>s. case m s of (t, r) \<Rightarrow> (case k t of (u, Ret _) \<Rightarrow> (u, r) | (u, Exc e) \<Rightarrow> (u, Exc e) | (u, NoRet) \<Rightarrow> (u, NoRet)))"

lemma keeps_finally: "keeps P m \<Longrightarrow> keeps P k \<Longrightarrow> keeps P (finallyA m k)"
  unfolding keeps_def finallyA_def by (auto split: prod.splits outcome.splits)

section \<open>Every call ends\<close>

named_theorems ends_intros \<open>calls that return or raise an ordinary exception\<close>

abbreviation ends :: "'a outcome \<Rightarrow> bool" where
  "ends m \<equiv> may_raise is_Exception m"

definition endsA :: "('s, 'a) act \<Rightarrow> bool" where
  "endsA m \<longleftrightarrow> (\<forall>s. ends (snd (m s)))"

lemma ends_basic [ends_intros]: "ends (Ret x)" "is_Exception e \<Longrightarrow> ends (Exc e)"
  by simp_all

lemma ends_bind [ends_intros]: "ends m \<Longrightarrow> (\<And>x. ends (f x)) \<Longrightarrow> ends (bindO m f)"
  by (rule may_raise_bind) auto

lemma ends_if [ends_intros]: "ends m \<Longrightarrow> ends k \<Longrightarrow> ends (if c then m else k)"
  by simp

lemma ends_mapO [ends_intros]: "(\<And>x. x \<in> set xs \<Longrightarrow> ends (f x)) \<Longrightarrow> ends (mapO f xs)"
  by (induction xs) (simp_all add: ends_bind)

lemma endsA_intros [ends_intros]:
  "endsA (retA x)" "is_Exception e \<Longrightarrow> endsA (excA e)" "ends r \<Longrightarrow> endsA (liftA r)" "endsA (getA f)" "endsA (updA u)"
  by (simp_all add: endsA_def act_defs)

lemma endsA_bind [ends_intros]: "endsA m \<Longrightarrow> (\<And>x. endsA (f x)) \<Longrightarrow> endsA (bindA m f)"
  unfolding endsA_def bindA_def by (auto split: prod.splits outcome.splits) (metis snd_conv may_raise.simps)+

lemma endsA_then [ends_intros]: "endsA m \<Longrightarrow> endsA k \<Longrightarrow> endsA (thenA m k)"
  by (simp add: thenA_def endsA_bind)

lemma endsA_if [ends_intros]: "endsA m \<Longrightarrow> endsA k \<Longrightarrow> endsA (if c then m else k)"
  by simp

lemma endsA_for [ends_intros]: "(\<And>x. x \<in> set xs \<Longrightarrow> endsA (f x)) \<Longrightarrow> endsA (forA f xs)"
  by (induction xs) (simp_all add: ends_intros)

lemma catch_all_Ret:
  assumes "endsA m" "\<And>e s. \<exists>t y. h e s = (t, Ret y)"
  shows "\<exists>t y. catchA m is_Exception h s = (t, Ret y)"
proof -
  obtain t r where m: "m s = (t, r)" by (cases "m s")
  then have "ends r" using assms(1) by (metis endsA_def snd_conv)
  then show ?thesis using m assms(2) by (cases r) (simp_all add: catchA_def)
qed

section \<open>Reachability and invariants\<close>

text \<open>
  A stateful service is an initial state and a step relation over its events. The invariant
  rule is stated once, as the interface every service's model is interpreted on.
\<close>

inductive reach :: "('s \<Rightarrow> bool) \<Rightarrow> ('s \<Rightarrow> 's \<Rightarrow> bool) \<Rightarrow> 's \<Rightarrow> bool"
  for init step where
  reach_init: "init s \<Longrightarrow> reach init step s"
| reach_step: "reach init step s \<Longrightarrow> step s t \<Longrightarrow> reach init step t"

locale service =
  fixes init :: "'s \<Rightarrow> bool"
    and step :: "'s \<Rightarrow> 's \<Rightarrow> bool"
    and inv :: "'s \<Rightarrow> bool"
  assumes inv_init: "init s \<Longrightarrow> inv s"
    and inv_step: "inv s \<Longrightarrow> step s t \<Longrightarrow> inv t"
begin

lemma reach_inv: "reach init step s \<Longrightarrow> inv s"
  by (induction rule: reach.induct) (auto intro: inv_init inv_step)

lemma reach_property: "(\<And>s. inv s \<Longrightarrow> P s) \<Longrightarrow> reach init step s \<Longrightarrow> P s"
  using reach_inv by blast

end

end
