(* ===== verification/Pyvalue.thy ===== *)
theory Pyvalue
  imports Prelude
begin

text \<open>
  The Python values the services exchange: decoded JSON, and the standard-library functions the
  sources call on strings (\<^verbatim>\<open>bytes.fromhex\<close>, \<^verbatim>\<open>base64\<close>, \<^verbatim>\<open>uuid.UUID\<close>).

  A Python \<^verbatim>\<open>str\<close> is represented by its UTF-8 encoding, so equality, concatenation and the ASCII
  patterns of the sources carry over, \<^verbatim>\<open>s.encode()\<close> is the identity, and \<^verbatim>\<open>len(s)\<close> counts the bytes
  that start a code point. A \<^verbatim>\<open>dict\<close> is an association list in insertion order. Floats are exact
  reals with the three non-finite values.
\<close>

section \<open>Values\<close>

datatype pyfloat = Fin real | PosInf | NegInf | NaN

datatype json =
    JNull
  | JBool bool
  | JInt int
  | JFloat pyfloat
  | JStr string
  | JList "json list"
  | JDict "(string \<times> json) list"

type_synonym dict = "(string \<times> json) list"

definition dict_get :: "dict \<Rightarrow> string \<Rightarrow> json" where
  "dict_get d k = (case map_of d k of None \<Rightarrow> JNull | Some v \<Rightarrow> v)"

definition has_key :: "dict \<Rightarrow> string \<Rightarrow> bool" where
  "has_key d k \<longleftrightarrow> map_of d k \<noteq> None"

definition dict_keys :: "dict \<Rightarrow> string set" where
  "dict_keys d = set (map fst d)"

text \<open>\<^verbatim>\<open>value.get(k)\<close> and \<^verbatim>\<open>value[k]\<close> on a value that may not be a dict.\<close>

fun jget :: "json \<Rightarrow> string \<Rightarrow> json outcome" where
  "jget (JDict d) k = Ret (dict_get d k)"
| "jget _ k = Exc (AttributeError ''get'')"

fun jget_or :: "json \<Rightarrow> string \<Rightarrow> json \<Rightarrow> json outcome" where
  "jget_or (JDict d) k v = Ret (case map_of d k of None \<Rightarrow> v | Some w \<Rightarrow> w)"
| "jget_or _ k v = Exc (AttributeError ''get'')"

fun jitem :: "json \<Rightarrow> string \<Rightarrow> json outcome" where
  "jitem (JDict d) k = (case map_of d k of None \<Rightarrow> Exc (KeyError k) | Some v \<Rightarrow> Ret v)"
| "jitem _ k = Exc (TypeError ''not subscriptable by str'')"

fun truthy :: "json \<Rightarrow> bool" where
  "truthy JNull = False"
| "truthy (JBool b) = b"
| "truthy (JInt i) = (i \<noteq> 0)"
| "truthy (JFloat f) = (f \<noteq> Fin 0)"
| "truthy (JStr s) = (s \<noteq> [])"
| "truthy (JList xs) = (xs \<noteq> [])"
| "truthy (JDict d) = (d \<noteq> [])"

text \<open>Python's \<^verbatim>\<open>==\<close>: numbers compare across bool, int and float, dicts without order.\<close>

fun numeric :: "json \<Rightarrow> pyfloat option" where
  "numeric (JBool b) = Some (Fin (if b then 1 else 0))"
| "numeric (JInt i) = Some (Fin (of_int i))"
| "numeric (JFloat f) = Some f"
| "numeric _ = None"

definition num_eq :: "pyfloat \<Rightarrow> pyfloat \<Rightarrow> bool" where
  "num_eq x y \<longleftrightarrow> x = y \<and> x \<noteq> NaN"

fun py_eq :: "json \<Rightarrow> json \<Rightarrow> bool"
  and py_eq_list :: "json list \<Rightarrow> json list \<Rightarrow> bool"
  and py_eq_items :: "(string \<times> json) list \<Rightarrow> dict \<Rightarrow> bool" where
  "py_eq JNull v = (v = JNull)"
| "py_eq (JStr s) v = (v = JStr s)"
| "py_eq (JList xs) v = (case v of JList ys \<Rightarrow> py_eq_list xs ys | _ \<Rightarrow> False)"
| "py_eq (JDict d) v = (case v of JDict e \<Rightarrow> length d = length e \<and> py_eq_items d e | _ \<Rightarrow> False)"
| "py_eq (JBool b) v = (case numeric v of None \<Rightarrow> False | Some y \<Rightarrow> num_eq (Fin (if b then 1 else 0)) y)"
| "py_eq (JInt i) v = (case numeric v of None \<Rightarrow> False | Some y \<Rightarrow> num_eq (Fin (of_int i)) y)"
| "py_eq (JFloat f) v = (case numeric v of None \<Rightarrow> False | Some y \<Rightarrow> num_eq f y)"
| "py_eq_list [] ys = (ys = [])"
| "py_eq_list (x # xs) ys = (case ys of [] \<Rightarrow> False | y # ys' \<Rightarrow> py_eq x y \<and> py_eq_list xs ys')"
| "py_eq_items [] e = True"
| "py_eq_items ((k, v) # d) e =
     (case map_of e k of None \<Rightarrow> False | Some w \<Rightarrow> py_eq v w \<and> py_eq_items d e)"

fun is_str :: "json \<Rightarrow> bool" where
  "is_str (JStr _) = True"
| "is_str _ = False"

fun is_dict :: "json \<Rightarrow> bool" where
  "is_dict (JDict _) = True"
| "is_dict _ = False"

fun is_list :: "json \<Rightarrow> bool" where
  "is_list (JList _) = True"
| "is_list _ = False"

fun is_bool :: "json \<Rightarrow> bool" where
  "is_bool (JBool _) = True"
| "is_bool _ = False"

text \<open>\<^verbatim>\<open>len\<close> of a \<^verbatim>\<open>str\<close> given by its UTF-8 bytes: continuation bytes are 10xxxxxx.\<close>

definition utf8_continuation :: "char \<Rightarrow> bool" where
  "utf8_continuation c \<longleftrightarrow> 128 \<le> (of_char c :: nat) \<and> (of_char c :: nat) < 192"

definition str_len :: "string \<Rightarrow> nat" where
  "str_len s = length (filter (\<lambda>c. \<not> utf8_continuation c) s)"

section \<open>Iteration over JSON values\<close>

function code_points :: "string \<Rightarrow> string list" where
  "code_points [] = []"
| "code_points (c # s) = (c # takeWhile utf8_continuation s) # code_points (dropWhile utf8_continuation s)"
  by pat_completeness auto
termination
  by (relation "measure length") (auto simp: length_dropWhile_le less_Suc_eq_le)

fun iter_items :: "json \<Rightarrow> json list outcome" where
  "iter_items (JList xs) = Ret xs"
| "iter_items (JDict d) = Ret (map (JStr \<circ> fst) d)"
| "iter_items (JStr s) = Ret (map JStr (code_points s))"
| "iter_items _ = Exc (TypeError ''object is not iterable'')"

section \<open>Decimal numerals\<close>

text \<open>\<^verbatim>\<open>str\<close> of a natural number.\<close>

fun dec :: "nat \<Rightarrow> string" where
  "dec n = (if n < 10 then [char_of (48 + n)] else dec (n div 10) @ [char_of (48 + n mod 10)])"

declare dec.simps [simp del]

fun dec_int :: "int \<Rightarrow> string" where
  "dec_int i = (if i < 0 then ''-'' @ dec (nat (- i)) else dec (nat i))"

definition digit :: "char \<Rightarrow> bool" where
  "digit c \<longleftrightarrow> 48 \<le> (of_char c :: nat) \<and> (of_char c :: nat) \<le> 57"

definition digits_val :: "string \<Rightarrow> nat" where
  "digits_val ds = foldl (\<lambda>n c. 10 * n + (of_char c - 48)) 0 ds"

lemma digit_char: "d < 10 \<Longrightarrow> digit (char_of (48 + d))" "d < 10 \<Longrightarrow> (of_char (char_of (48 + d) :: char) :: nat) = 48 + d"
  by (simp_all add: digit_def)

lemma digits_val_snoc: "digits_val (ds @ [c]) = 10 * digits_val ds + (of_char c - 48)"
  by (simp add: digits_val_def)

lemma dec_digits: "list_all digit (dec n) \<and> digits_val (dec n) = n \<and> dec n \<noteq> []"
proof (induction n rule: dec.induct)
  case (1 n)
  show ?case
  proof (cases "n < 10")
    case True
    then show ?thesis by (subst (1 2 3) dec.simps) (simp add: digit_char digits_val_def)
  next
    case False
    then have "dec n = dec (n div 10) @ [char_of (48 + n mod 10)]" by (subst dec.simps) simp
    then show ?thesis using 1 [OF False] digit_char [of "n mod 10"] by (simp add: digits_val_snoc)
  qed
qed

section \<open>Hexadecimal\<close>

definition hex_digit :: "char \<Rightarrow> nat option" where
  "hex_digit c = (let n = of_char c in
     if 48 \<le> n \<and> n \<le> 57 then Some (n - 48)
     else if 97 \<le> n \<and> n \<le> 102 then Some (n - 87)
     else if 65 \<le> n \<and> n \<le> 70 then Some (n - 55)
     else None)"

definition is_hex :: "char \<Rightarrow> bool" where
  "is_hex c \<longleftrightarrow> hex_digit c \<noteq> None"

definition ascii_space :: "char \<Rightarrow> bool" where
  "ascii_space c \<longleftrightarrow> (of_char c :: nat) \<in> {9, 10, 11, 12, 13, 32}"

fun fromhex :: "string \<Rightarrow> bytes outcome" where
  "fromhex [] = Ret []"
| "fromhex (c # cs) =
     (if ascii_space c then fromhex cs else
      case cs of
        [] \<Rightarrow> Exc (ValueError ''non-hexadecimal number found in fromhex() arg'')
      | d # ds \<Rightarrow>
          (case (hex_digit c, hex_digit d) of
             (Some h, Some l) \<Rightarrow> bindO (fromhex ds) (\<lambda>bs. Ret (word_of_nat (16 * h + l) # bs))
           | _ \<Rightarrow> Exc (ValueError ''non-hexadecimal number found in fromhex() arg'')))"

definition hex_char :: "nat \<Rightarrow> char" where
  "hex_char n = ''0123456789abcdef'' ! (n mod 16)"

definition to_hex :: "bytes \<Rightarrow> string" where
  "to_hex bs = concat (map (\<lambda>b. [hex_char (unat b div 16), hex_char (unat b)]) bs)"

definition str_remove :: "char \<Rightarrow> string \<Rightarrow> string" where
  "str_remove c s = filter (\<lambda>x. x \<noteq> c) s"

text \<open>\<^verbatim>\<open>(?:[0-9a-fA-F]{2}:){5}[0-9a-fA-F]{2}\<close>, with the separators as a parameter.\<close>

fun hex_pairs :: "(char \<Rightarrow> bool) \<Rightarrow> nat \<Rightarrow> string \<Rightarrow> bool" where
  "hex_pairs sep 0 s = (case s of [a, b] \<Rightarrow> is_hex a \<and> is_hex b | _ \<Rightarrow> False)"
| "hex_pairs sep (Suc n) s =
     (case s of a # b # p # r \<Rightarrow> is_hex a \<and> is_hex b \<and> sep p \<and> hex_pairs sep n r | _ \<Rightarrow> False)"

definition six_octets :: "(char \<Rightarrow> bool) \<Rightarrow> string \<Rightarrow> bool" where
  "six_octets sep s \<longleftrightarrow> hex_pairs sep 5 s"

section \<open>Base64\<close>

text \<open>The alphabet A--Z, a--z, 0--9, +, / by character code.\<close>

definition b64_char :: "nat \<Rightarrow> char" where
  "b64_char n =
     (if n < 26 then char_of (n + 65)
      else if n < 52 then char_of (n + 71)
      else if n < 62 then char_of (n - 4)
      else if n = 62 then CHR ''+'' else CHR ''/'')"

definition b64_val :: "char \<Rightarrow> nat option" where
  "b64_val c = (let n = of_char c in
     if 65 \<le> n \<and> n \<le> 90 then Some (n - 65)
     else if 97 \<le> n \<and> n \<le> 122 then Some (n - 71)
     else if 48 \<le> n \<and> n \<le> 57 then Some (n + 4)
     else if n = 43 then Some 62
     else if n = 47 then Some 63
     else None)"

fun b64encode :: "bytes \<Rightarrow> string" where
  "b64encode (a # b # c # bs) =
     (let n = unat a * 65536 + unat b * 256 + unat c in
      [b64_char (n div 262144), b64_char (n div 4096 mod 64), b64_char (n div 64 mod 64), b64_char (n mod 64)]
      @ b64encode bs)"
| "b64encode [a, b] =
     (let n = unat a * 1024 + unat b * 4 in
      [b64_char (n div 4096), b64_char (n div 64 mod 64), b64_char (n mod 64), CHR ''=''])"
| "b64encode [a] =
     (let n = unat a * 16 in [b64_char (n div 64), b64_char (n mod 64), CHR ''='', CHR ''=''])"
| "b64encode [] = []"

definition b64_error :: "'a outcome" where
  "b64_error = Exc (ValueError ''Invalid base64-encoded string'')"

text \<open>\<^verbatim>\<open>base64.b64decode(s, validate=True)\<close>: whole quads, padding only in the last one.\<close>

fun b64decode :: "string \<Rightarrow> bytes outcome" where
  "b64decode [] = Ret []"
| "b64decode (a # b # c # d # rest) =
     (case (b64_val a, b64_val b, b64_val c, b64_val d) of
        (Some x, Some y, Some z, Some w) \<Rightarrow>
          (let n = x * 262144 + y * 4096 + z * 64 + w in
           bindO (b64decode rest) (\<lambda>bs.
             Ret (word_of_nat (n div 65536) # word_of_nat (n div 256) # word_of_nat n # bs)))
      | (Some x, Some y, Some z, None) \<Rightarrow>
          if d = CHR ''='' \<and> rest = [] then
            (let n = x * 4096 + y * 64 + z in Ret [word_of_nat (n div 1024), word_of_nat (n div 4)])
          else b64_error
      | (Some x, Some y, None, None) \<Rightarrow>
          if c = CHR ''='' \<and> d = CHR ''='' \<and> rest = [] then
            (let n = x * 64 + y in Ret [word_of_nat (n div 16)])
          else b64_error
      | _ \<Rightarrow> b64_error)"
| "b64decode _ = b64_error"

fun jb64decode :: "json \<Rightarrow> bytes outcome" where
  "jb64decode (JStr s) = b64decode s"
| "jb64decode _ = Exc (TypeError ''argument should be a bytes-like object or ASCII string'')"

section \<open>JSON text\<close>

text \<open>
  \<^verbatim>\<open>json.dumps\<close> of a dict of ASCII strings, with its item and key separators. The services only
  write identifiers, hexadecimal and base64 text this way.
\<close>

definition ascii_bytes :: "string \<Rightarrow> bytes" where
  "ascii_bytes s = map (\<lambda>c. word_of_nat (of_char c)) s"

definition json_char :: "char \<Rightarrow> string" where
  "json_char c = (let n = of_char c :: nat in
     if n = 34 then [CHR 0x5C, c] else if n = 92 then [c, c]
     else if n = 10 then [CHR 0x5C, CHR ''n''] else if n = 13 then [CHR 0x5C, CHR ''r'']
     else if n = 9 then [CHR 0x5C, CHR ''t''] else if n = 8 then [CHR 0x5C, CHR ''b'']
     else if n = 12 then [CHR 0x5C, CHR ''f'']
     else if n < 32 then [CHR 0x5C] @ ''u00'' @ [hex_char (n div 16), hex_char n]
     else [c])"

definition json_str :: "string \<Rightarrow> string" where
  "json_str s = [CHR 0x22] @ concat (map json_char s) @ [CHR 0x22]"

fun join :: "string \<Rightarrow> string list \<Rightarrow> string" where
  "join sep [] = []"
| "join sep [x] = x"
| "join sep (x # y # xs) = x @ sep @ join sep (y # xs)"

definition dumps_strings :: "string \<Rightarrow> string \<Rightarrow> (string \<times> string) list \<Rightarrow> string" where
  "dumps_strings comma colon kvs =
     ''{'' @ join comma (map (\<lambda>(k, v). json_str k @ colon @ json_str v) kvs) @ ''}''"

section \<open>Text\<close>

fun split_on :: "char \<Rightarrow> string \<Rightarrow> string list" where
  "split_on sep [] = [[]]"
| "split_on sep (c # s) =
     (if c = sep then [] # split_on sep s
      else (case split_on sep s of [] \<Rightarrow> [[c]] | f # fs \<Rightarrow> (c # f) # fs))"

definition ascii_lower :: "char \<Rightarrow> char" where
  "ascii_lower c = (let n = of_char c :: nat in if 65 \<le> n \<and> n \<le> 90 then char_of (n + 32) else c)"

text \<open>\<^verbatim>\<open>re.fullmatch\<close> of a pattern on a value, with the pattern as a predicate on ASCII text.\<close>

fun matches :: "(string \<Rightarrow> bool) \<Rightarrow> json \<Rightarrow> bool outcome" where
  "matches p (JStr s) = Ret (p s)"
| "matches p _ = Exc (TypeError ''expected string or bytes-like object'')"

section \<open>UUIDs\<close>

text \<open>\<^verbatim>\<open>int(s, 16)\<close> as \<^verbatim>\<open>uuid.UUID\<close> calls it, as an acceptance test for a non-negative value.\<close>

fun digits16 :: "bool \<Rightarrow> string \<Rightarrow> bool" where
  "digits16 after_digit [] = after_digit"
| "digits16 after_digit (c # cs) =
     (if is_hex c then digits16 True cs
      else c = CHR ''_'' \<and> after_digit \<and> cs \<noteq> [] \<and> digits16 False cs)"

text \<open>White space of text within ASCII: the control characters 28 to 31 count, unlike for bytes.\<close>

definition re_space :: "char \<Rightarrow> bool" where
  "re_space c \<longleftrightarrow> ascii_space c \<or> (28 \<le> (of_char c :: nat) \<and> (of_char c :: nat) \<le> 31)"

definition strip_spaces :: "string \<Rightarrow> string" where
  "strip_spaces s = rev (dropWhile re_space (rev (dropWhile re_space s)))"

fun drop_plus :: "string \<Rightarrow> string" where
  "drop_plus (c # cs) = (if c = CHR ''+'' then cs else c # cs)"
| "drop_plus [] = []"

fun drop_0x :: "string \<Rightarrow> string" where
  "drop_0x (a # b # cs) =
     (if a = CHR ''0'' \<and> (b = CHR ''x'' \<or> b = CHR ''X'')
      then (case cs of [] \<Rightarrow> [] | c # cs' \<Rightarrow> if c = CHR ''_'' then cs' else c # cs')
      else a # b # cs)"
| "drop_0x cs = cs"

definition int16_nonneg :: "string \<Rightarrow> bool" where
  "int16_nonneg s = digits16 False (drop_0x (drop_plus (strip_spaces s)))"

fun remove_substring_fuel :: "nat \<Rightarrow> string \<Rightarrow> string \<Rightarrow> string" where
  "remove_substring_fuel 0 p s = s"
| "remove_substring_fuel (Suc n) p s =
     (if p \<noteq> [] \<and> take (length p) s = p then remove_substring_fuel n p (drop (length p) s)
      else case s of [] \<Rightarrow> [] | c # cs \<Rightarrow> c # remove_substring_fuel n p cs)"

definition remove_substring :: "string \<Rightarrow> string \<Rightarrow> string" where
  "remove_substring p s = remove_substring_fuel (Suc (length s)) p s"

definition strip_braces :: "string \<Rightarrow> string" where
  "strip_braces s =
     (let brace = (\<lambda>c. c = CHR ''{'' \<or> c = CHR ''}'') in
      rev (dropWhile brace (rev (dropWhile brace s))))"

definition uuid_hex :: "string \<Rightarrow> string" where
  "uuid_hex s = str_remove (CHR ''-'')
     (strip_braces (remove_substring ''uuid:'' (remove_substring ''urn:'' s)))"

definition uuid_valid :: "string \<Rightarrow> bool" where
  "uuid_valid s \<longleftrightarrow> length (uuid_hex s) = 32 \<and> int16_nonneg (uuid_hex s)"

fun check_uuid :: "json \<Rightarrow> unit outcome" where
  "check_uuid (JStr s) = (if uuid_valid s then Ret ()
     else Exc (ValueError ''badly formed hexadecimal UUID string''))"
| "check_uuid JNull = Exc (TypeError ''one of the arguments must be given'')"
| "check_uuid _ = Exc (AttributeError ''replace'')"

definition hex_value :: "string \<Rightarrow> nat" where
  "hex_value s = fold (\<lambda>c n. case hex_digit c of None \<Rightarrow> n | Some d \<Rightarrow> 16 * n + d) s 0"

definition uuid_value :: "string \<Rightarrow> nat" where
  "uuid_value s = hex_value (drop_0x (drop_plus (strip_spaces (uuid_hex s))))"

text \<open>\<^verbatim>\<open>str(uuid)\<close>: 32 digits in groups of 8, 4, 4, 4 and 12.\<close>

definition uuid_digits :: "nat \<Rightarrow> string" where
  "uuid_digits n = map (\<lambda>i. hex_char (n div 16 ^ (31 - i))) [0..<32]"

definition uuid_str :: "nat \<Rightarrow> string" where
  "uuid_str n =
     (let h = uuid_digits n in
      py_slice 0 8 h @ ''-'' @ py_slice 8 12 h @ ''-'' @ py_slice 12 16 h @ ''-'' @ py_slice 16 20 h @ ''-'' @ py_slice 20 32 h)"

section \<open>Lemmas\<close>

lemma split_on_nonempty [simp]: "split_on sep s \<noteq> []"
  by (induction s) (auto split: list.splits)

lemma split_on_plain: "sep \<notin> set s \<Longrightarrow> split_on sep s = [s]"
  by (induction s) auto

lemma split_on_append: "sep \<notin> set s \<Longrightarrow> split_on sep (s @ sep # t) = s # split_on sep t"
proof (induction s)
  case (Cons c s)
  then show ?case by auto
qed simp

lemma dict_get_eqs [simp]:
  "dict_get [] k = JNull"
  "dict_get ((k', v) # d) k = (if k' = k then v else dict_get d k)"
  by (simp_all add: dict_get_def)

lemma has_key_eqs [simp]:
  "has_key [] k = False"
  "has_key ((k', v) # d) k = (k' = k \<or> has_key d k)"
  by (auto simp: has_key_def)

lemma hex_digit_less: "hex_digit c = Some n \<Longrightarrow> n < 16"
  by (auto simp: hex_digit_def Let_def split: if_splits)

lemma hex_digit_hex_char: "hex_digit (hex_char n) = Some (n mod 16)"
proof -
  have "\<forall>n \<in> set [0..<16]. hex_digit (''0123456789abcdef'' ! n) = Some n" by code_simp
  moreover have "n mod 16 \<in> set [0..<16]" by simp
  ultimately show ?thesis unfolding hex_char_def by blast
qed

lemma hex_char_not_space: "\<not> ascii_space (hex_char n)"
proof -
  have "\<forall>n \<in> set [0..<16]. \<not> ascii_space (''0123456789abcdef'' ! n)" by code_simp
  moreover have "n mod 16 \<in> set [0..<16]" by simp
  ultimately show ?thesis unfolding hex_char_def by blast
qed

lemma nibbles: "n < 256 \<Longrightarrow> 16 * (n div 16 mod 16) + n mod 16 = (n :: nat)"
  by (simp add: less_mult_imp_div_less)

lemma fromhex_to_hex: "fromhex (to_hex bs) = Ret bs"
proof (induction bs)
  case (Cons b bs)
  then show ?case
    using nibbles [OF unat_byte_lt [of b]]
    by (simp add: to_hex_def hex_char_not_space hex_digit_hex_char)
qed (simp add: to_hex_def)

lemma b64_val_char: "n < 64 \<Longrightarrow> b64_val (b64_char n) = Some n"
  by (auto simp: b64_val_def b64_char_def Let_def)

lemma b64_val_pad [simp]: "b64_val (CHR ''='') = None"
  by (simp add: b64_val_def)

lemma word_of_nat_unat_mod: "n mod 256 = unat b \<Longrightarrow> word_of_nat n = (b :: byte)"
  by (rule word_unat_eq_iff [THEN iffD2]) (simp add: unat_of_nat)

lemma digits64:
  fixes n p q r u v w :: nat
  assumes "64 * p + u = n" "64 * q + v = p" "64 * r + w = q"
  shows "r * 262144 + w * 4096 + v * 64 + u = n" "q * 4096 + v * 64 + u = n"
  using assms by simp_all

lemma sextet_split:
  "(n :: nat) div 262144 * 262144 + n div 4096 mod 64 * 4096 + n div 64 mod 64 * 64 + n mod 64 = n"
  "(n :: nat) div 4096 * 4096 + n div 64 mod 64 * 64 + n mod 64 = n"
proof -
  have e: "n div 4096 = n div 64 div 64" "n div 262144 = n div 64 div 64 div 64"
    by (simp_all add: div_mult2_eq [symmetric])
  note d = digits64 [OF mult_div_mod_eq mult_div_mod_eq mult_div_mod_eq, of n]
  show "n div 262144 * 262144 + n div 4096 mod 64 * 4096 + n div 64 mod 64 * 64 + n mod 64 = n"
    unfolding e by (rule d(1))
  show "n div 4096 * 4096 + n div 64 mod 64 * 64 + n mod 64 = n"
    unfolding e by (rule d(2))
qed

lemma sextets3:
  fixes a b c :: nat
  assumes "a < 256" "b < 256" "c < 256" "n = a * 65536 + b * 256 + c"
  shows "n div 262144 < 64" "n div 65536 mod 256 = a" "n div 256 mod 256 = b" "n mod 256 = c"
proof -
  show "n div 262144 < 64" using assms by (intro less_mult_imp_div_less) simp
  have "n div 65536 = a" using assms by (intro div_nat_eqI) simp_all
  then show "n div 65536 mod 256 = a" using assms by simp
  have "n div 256 = a * 256 + b" using assms by (intro div_nat_eqI) simp_all
  then show "n div 256 mod 256 = b" using assms by simp
  have "n = (a * 256 + b) * 256 + c" using assms by simp
  then show "n mod 256 = c" using assms(3) by (simp only: mod_mult_self3) simp
qed

lemma sextets2:
  fixes a b :: nat
  assumes "a < 256" "b < 256" "n = a * 1024 + b * 4"
  shows "n div 4096 < 64" "n div 1024 mod 256 = a" "n div 4 mod 256 = b"
proof -
  show "n div 4096 < 64" using assms by (intro less_mult_imp_div_less) simp
  have "n div 1024 = a" using assms by (intro div_nat_eqI) simp_all
  then show "n div 1024 mod 256 = a" using assms by simp
  have "n div 4 = a * 256 + b" using assms by (intro div_nat_eqI) simp_all
  then show "n div 4 mod 256 = b" using assms by simp
qed

lemma sextets1:
  fixes a :: nat
  assumes "a < 256" "n = a * 16"
  shows "n div 64 < 64" "n div 16 mod 256 = a"
  using assms by (auto intro: less_mult_imp_div_less)

lemma b64_roundtrip: "b64decode (b64encode bs) = Ret bs"
proof (induction bs rule: b64encode.induct)
  case (1 a b c bs)
  define n where "n = unat a * 65536 + unat b * 256 + unat c"
  note n = sextets3 [OF unat_byte_lt unat_byte_lt unat_byte_lt n_def]
  show ?case
    using 1 by (simp add: Let_def n_def [symmetric] b64_val_char n sextet_split word_of_nat_unat_mod [OF n(2)]
        word_of_nat_unat_mod [OF n(3)] word_of_nat_unat_mod [OF n(4)])
next
  case (2 a b)
  define n where "n = unat a * 1024 + unat b * 4"
  note n = sextets2 [OF unat_byte_lt unat_byte_lt n_def]
  show ?case
    by (simp add: Let_def n_def [symmetric] b64_val_char n sextet_split word_of_nat_unat_mod [OF n(2)]
        word_of_nat_unat_mod [OF n(3)])
next
  case (3 a)
  define n where "n = unat a * 16"
  note n = sextets1 [OF unat_byte_lt n_def]
  show ?case
    by (simp add: Let_def n_def [symmetric] b64_val_char n sextet_split word_of_nat_unat_mod [OF n(2)])
qed simp

lemma b64decode_raises: "may_raise is_ValueError (b64decode s)"
  by (induction s rule: b64decode.induct)
    (auto simp: b64_error_def Let_def split: option.splits intro!: may_raise_bind)

lemma jb64decode_raises: "may_raise (\<lambda>e. is_KeyError e \<or> is_TypeError e \<or> is_ValueError e) (jb64decode v)"
  by (cases v) (auto intro: may_raise_mono [OF b64decode_raises])

lemma jitem_raises: "may_raise (\<lambda>e. is_KeyError e \<or> is_TypeError e \<or> is_ValueError e) (jitem v k)"
  by (cases v) (auto split: option.splits)

lemma is_hex_not_space: "is_hex c \<Longrightarrow> \<not> ascii_space c"
  by (auto simp: is_hex_def hex_digit_def ascii_space_def Let_def split: if_splits)

lemma is_hex_not_sep: "is_hex c \<Longrightarrow> c \<noteq> CHR '':'' \<and> c \<noteq> CHR ''-''"
  by (auto simp: is_hex_def hex_digit_def Let_def)

lemma fromhex_pair:
  "is_hex a \<Longrightarrow> is_hex b \<Longrightarrow> fromhex r = Ret bs \<Longrightarrow> \<exists>x. fromhex (a # b # r) = Ret (x # bs)"
  by (auto simp: is_hex_not_space is_hex_def [of a] is_hex_def [of b])

lemma hex_pairs_fromhex:
  assumes "\<And>c. sep c \<Longrightarrow> c = x" "x = CHR '':'' \<or> x = CHR ''-''"
  shows "hex_pairs sep n s \<Longrightarrow> \<exists>bs. fromhex (str_remove x s) = Ret bs \<and> length bs = Suc n"
proof (induction n arbitrary: s)
  case 0
  then obtain a b where s: "s = [a, b]" "is_hex a" "is_hex b" by (auto split: list.splits)
  then have "str_remove x s = [a, b]" using assms(2) is_hex_not_sep by (auto simp: str_remove_def)
  then show ?case using fromhex_pair [OF s(2,3) fromhex.simps(1)] by (auto simp del: fromhex.simps)
next
  case (Suc n)
  then obtain a b p r where s: "s = a # b # p # r" "is_hex a" "is_hex b" "sep p" "hex_pairs sep n r"
    by (auto split: list.splits)
  then have "str_remove x s = a # b # str_remove x r"
    using assms is_hex_not_sep by (auto simp: str_remove_def)
  moreover obtain bs where "fromhex (str_remove x r) = Ret bs" "length bs = Suc n" using Suc.IH s(5) by blast
  ultimately show ?case using fromhex_pair [OF s(2,3), of "str_remove x r" bs] by (auto simp del: fromhex.simps)
qed

lemma ends_json [ends_intros]: "ends (jget v k)" "ends (jitem v k)" "ends (check_uuid v)" "ends (iter_items v)"
  by (cases v; auto split: option.splits)+

lemma ends_fromhex [ends_intros]: "ends (fromhex s)"
proof -
  have "may_raise is_ValueError (fromhex s)"
    by (induction s rule: fromhex.induct) (auto split: list.splits option.splits intro!: may_raise_bind)
  then show ?thesis by (rule may_raise_mono) (auto elim: is_ValueError.elims)
qed

lemma ends_jb64 [ends_intros]: "ends (jb64decode v)"
  using jb64decode_raises by (rule may_raise_mono) (auto elim: is_ValueError.elims is_TypeError.elims is_KeyError.elims)

section \<open>UUID text is read back\<close>

lemma is_hex_char: "is_hex (hex_char n)"
  by (simp add: is_hex_def hex_digit_hex_char)

lemma uuid_digits_hex: "list_all is_hex (uuid_digits n)"
  by (simp add: uuid_digits_def list_all_iff is_hex_char)

lemma length_uuid_digits [simp]: "length (uuid_digits n) = 32"
  by (simp add: uuid_digits_def)

lemma remove_substring_absent: "c \<notin> set s \<Longrightarrow> remove_substring (c # p) s = s"
proof -
  have "c \<notin> set s \<Longrightarrow> length s < k \<Longrightarrow> remove_substring_fuel k (c # p) s = s" for k
  proof (induction k arbitrary: s)
    case (Suc k)
    then show ?case by (cases s) auto
  qed simp
  then show "c \<notin> set s \<Longrightarrow> remove_substring (c # p) s = s" unfolding remove_substring_def by blast
qed

lemma dropWhile_hd: "s \<noteq> [] \<Longrightarrow> \<not> P (hd s) \<Longrightarrow> dropWhile P s = s"
  by (cases s) auto

lemma strip_end: "s \<noteq> [] \<Longrightarrow> \<not> P (hd s) \<Longrightarrow> \<not> P (last s) \<Longrightarrow> rev (dropWhile P (rev (dropWhile P s))) = s"
  by (simp add: dropWhile_hd hd_rev)

lemma strip_none: "\<forall>c \<in> set s. \<not> P c \<Longrightarrow> rev (dropWhile P (rev (dropWhile P s))) = s"
  by (metis dropWhile_eq_self_iff hd_in_set rev_rev_ident set_rev)

lemma uuid_str_parts:
  "\<exists>a b c d e. uuid_digits n = a @ b @ c @ d @ e \<and> uuid_str n = a @ ''-'' @ b @ ''-'' @ c @ ''-'' @ d @ ''-'' @ e \<and> a \<noteq> [] \<and> e \<noteq> []"
proof -
  let ?h = "uuid_digits n"
  have "?h = take 8 ?h @ take 4 (drop 8 ?h) @ take 4 (drop 12 ?h) @ take 4 (drop 16 ?h) @ drop 20 ?h"
    using append_take_drop_id [of 8 ?h] append_take_drop_id [of 4 "drop 8 ?h"] append_take_drop_id [of 4 "drop 12 ?h"]
      append_take_drop_id [of 4 "drop 16 ?h"] by simp
  moreover have "take 12 (drop 20 ?h) = drop 20 ?h" by simp
  moreover have "uuid_str n = take 8 ?h @ ''-'' @ take 4 (drop 8 ?h) @ ''-'' @ take 4 (drop 12 ?h) @ ''-'' @ take 4 (drop 16 ?h) @ ''-'' @ drop 20 ?h"
    unfolding uuid_str_def Let_def py_slice_def by simp
  moreover have "take 8 ?h \<noteq> []" "drop 20 ?h \<noteq> []" by (simp_all flip: length_greater_0_conv)
  ultimately show ?thesis by blast
qed

lemma str_remove_append [simp]: "str_remove c (s @ t) = str_remove c s @ str_remove c t"
  by (simp add: str_remove_def)

lemma str_remove_hex: "list_all is_hex s \<Longrightarrow> str_remove (CHR ''-'') s = s"
  unfolding str_remove_def by (auto simp: filter_id_conv list_all_iff dest: is_hex_not_sep)

lemma not_in_all: "list_all P s \<Longrightarrow> \<not> P c \<Longrightarrow> c \<notin> set s"
  by (auto simp: list_all_iff)

lemma uuid_hex_str: "uuid_hex (uuid_str n) = uuid_digits n"
proof -
  obtain a b c d e where q: "uuid_digits n = a @ b @ c @ d @ e \<and> uuid_str n = a @ ''-'' @ b @ ''-'' @ c @ ''-'' @ d @ ''-'' @ e \<and> a \<noteq> [] \<and> e \<noteq> []"
    using uuid_str_parts [of n] by (elim exE)
  note p = conjunct1 [OF q] conjunct1 [OF conjunct2 [OF q]] conjunct2 [OF conjunct2 [OF q]]
  have h: "list_all is_hex a" "list_all is_hex b" "list_all is_hex c" "list_all is_hex d" "list_all is_hex e"
    using uuid_digits_hex [of n] p(1) by auto
  have t: "list_all (\<lambda>c. is_hex c \<or> c = CHR ''-'') (uuid_str n)" using h unfolding p(2) by (auto simp: list_all_iff)
  have u: "\<not> (is_hex (CHR ''u'') \<or> CHR ''u'' = CHR ''-'')" by (simp add: is_hex_def hex_digit_def)
  have br: "\<not> (is_hex (CHR ''{'') \<or> CHR ''{'' = CHR ''-'')" "\<not> (is_hex (CHR ''}'') \<or> CHR ''}'' = CHR ''-'')"
    by (simp_all add: is_hex_def hex_digit_def)
  have x: "CHR ''u'' \<notin> set (uuid_str n)" "CHR ''{'' \<notin> set (uuid_str n)" "CHR ''}'' \<notin> set (uuid_str n)"
    using not_in_all [OF t u] not_in_all [OF t br(1)] not_in_all [OF t br(2)] by simp_all
  have "strip_braces (uuid_str n) = uuid_str n"
    unfolding strip_braces_def Let_def using x(2,3) by (intro strip_none) auto
  then show ?thesis
    unfolding uuid_hex_def remove_substring_absent [OF x(1)] p(1) unfolding p(2)
    using h str_remove_hex [of a] str_remove_hex [of b] str_remove_hex [of c] str_remove_hex [of d] str_remove_hex [of e] by (simp add: str_remove_def)
qed

lemma digits16_hex: "list_all is_hex s \<Longrightarrow> digits16 b s = (b \<or> s \<noteq> [])"
  by (induction s arbitrary: b) auto

lemma hex_not_special: "is_hex c \<Longrightarrow> \<not> re_space c \<and> c \<noteq> CHR ''+'' \<and> c \<noteq> CHR ''x'' \<and> c \<noteq> CHR ''X''"
  by (auto simp: is_hex_def hex_digit_def re_space_def ascii_space_def Let_def split: if_splits)

lemma int16_plain: "list_all is_hex s \<Longrightarrow> s \<noteq> [] \<Longrightarrow> drop_0x (drop_plus (strip_spaces s)) = s"
proof -
  assume s: "list_all is_hex s" "s \<noteq> []"
  then have "\<not> re_space (hd s)" "\<not> re_space (last s)" using hex_not_special by (auto simp: list_all_iff)
  then have "strip_spaces s = s" unfolding strip_spaces_def using s(2) by (intro strip_end)
  moreover have "drop_plus s = s" using s hex_not_special by (cases s) auto
  moreover have "drop_0x s = s" using s hex_not_special by (cases s rule: drop_0x.cases) auto
  ultimately show ?thesis by simp
qed

lemma uuid_str_valid: "uuid_valid (uuid_str n)"
proof -
  have "uuid_digits n \<noteq> []" by (simp flip: length_greater_0_conv)
  then show ?thesis
    by (simp add: uuid_valid_def uuid_hex_str int16_nonneg_def int16_plain uuid_digits_hex digits16_hex)
qed

lemma hex_value_snoc: "is_hex c \<Longrightarrow> hex_value (s @ [c]) = 16 * hex_value s + the (hex_digit c)"
  by (auto simp: hex_value_def is_hex_def split: option.splits)

lemma hex_value_digits: "k \<le> 32 \<Longrightarrow> hex_value (map (\<lambda>i. hex_char (n div 16 ^ (31 - i))) [0..<k]) = n div 16 ^ (32 - k) mod 16 ^ k"
proof (induction k)
  case (Suc k)
  let ?m = "n div 16 ^ (31 - k)"
  have "32 - k = Suc (31 - k)" using Suc.prems by simp
  then have "n div 16 ^ (32 - k) = ?m div 16" by (simp only: power_Suc2 div_mult2_eq)
  then have "hex_value (map (\<lambda>i. hex_char (n div 16 ^ (31 - i))) [0..<Suc k]) = 16 * (?m div 16 mod 16 ^ k) + ?m mod 16"
    using Suc by (simp add: hex_value_snoc is_hex_char hex_digit_hex_char)
  also have "\<dots> = ?m mod 16 ^ Suc k" by (simp add: mod_mult2_eq add.commute)
  finally show ?case using Suc.prems by simp
qed (simp add: hex_value_def)

lemma uuid_value_str: "n < 2 ^ 128 \<Longrightarrow> uuid_value (uuid_str n) = n"
proof -
  assume n: "n < 2 ^ 128"
  have "uuid_digits n \<noteq> []" by (simp flip: length_greater_0_conv)
  then have "uuid_value (uuid_str n) = n mod 16 ^ 32"
    using hex_value_digits [of 32 n] by (simp add: uuid_value_def uuid_hex_str int16_plain uuid_digits_hex) (simp add: uuid_digits_def)
  moreover have "(16 :: nat) ^ 32 = 2 ^ 128" by simp
  ultimately show ?thesis using n by (simp only: mod_less)
qed

lemma hex_char_lower: "ascii_lower (hex_char k) = hex_char k"
proof -
  have "list_all (\<lambda>c. ascii_lower c = c) ''0123456789abcdef''" by (simp add: ascii_lower_def)
  then show ?thesis unfolding hex_char_def list_all_length by simp
qed

lemma uuid_str_plain: "strip_spaces (uuid_str n) = uuid_str n" "map ascii_lower (uuid_str n) = uuid_str n"
proof -
  obtain a b c d e where q: "uuid_digits n = a @ b @ c @ d @ e \<and> uuid_str n = a @ ''-'' @ b @ ''-'' @ c @ ''-'' @ d @ ''-'' @ e \<and> a \<noteq> [] \<and> e \<noteq> []"
    using uuid_str_parts [of n] by (elim exE)
  have d: "list_all (\<lambda>x. ascii_lower x = x \<and> \<not> re_space x) (uuid_digits n)"
    using uuid_digits_hex [of n] hex_not_special by (auto simp: list_all_iff uuid_digits_def hex_char_lower)
  have m: "ascii_lower (CHR ''-'') = CHR ''-'' \<and> \<not> re_space (CHR ''-'')" by (simp add: ascii_lower_def re_space_def ascii_space_def)
  have "list_all (\<lambda>x. ascii_lower x = x \<and> \<not> re_space x) (uuid_str n)"
    using d m unfolding conjunct1 [OF q] conjunct1 [OF conjunct2 [OF q]] by (simp only: list_all_append list.pred_inject simp_thms)
  then have l: "map ascii_lower (uuid_str n) = uuid_str n" and s: "\<forall>x \<in> set (uuid_str n). \<not> re_space x"
    by (auto simp: list_all_iff map_idI)
  show "strip_spaces (uuid_str n) = uuid_str n" unfolding strip_spaces_def using s by (intro strip_none) auto
  show "map ascii_lower (uuid_str n) = uuid_str n" by (rule l)
qed

end
