(* ===== verification/Ctaphid.thy ===== *)
theory Ctaphid
  imports Prelude
begin

unbundle bit_operations_syntax

text \<open>
  The CTAPHID transaction layer of \<^verbatim>\<open>guest/auth/fido2.py\<close>: the packet generator \<^verbatim>\<open>packets\<close> and
  the class \<^verbatim>\<open>HID\<close> (channel table, fragment reassembly, one busy transaction, timeouts).

  The callbacks \<^verbatim>\<open>emit\<close>, \<^verbatim>\<open>request\<close> and \<^verbatim>\<open>cancel\<close> are an ordered log of effects; clock readings,
  random draws and fresh UUIDs are inputs of a step. Times are exact rationals in seconds.
\<close>

section \<open>Data\<close>

type_synonym cid = "32 word"

definition MAX_MESSAGE :: nat where "MAX_MESSAGE = 1024"
definition BROADCAST :: cid where "BROADCAST = 0xffffffff"
definition PING :: byte where "PING = 0x81"
definition INIT :: byte where "INIT = 0x86"
definition CBOR :: byte where "CBOR = 0x90"
definition CANCEL :: byte where "CANCEL = 0x91"
definition KEEPALIVE :: byte where "KEEPALIVE = 0xbb"
definition ERROR :: byte where "ERROR = 0xbf"

lemmas command_defs = PING_def INIT_def CBOR_def CANCEL_def KEEPALIVE_def ERROR_def

datatype hid_effect =
    Emit bytes
  | Request string cid bytes
  | Cancel string

record fragment =
  frag_cid :: cid
  frag_cmd :: byte
  frag_length :: nat
  frag_data :: bytes
  frag_sequence :: nat
  frag_deadline :: time

text \<open>\<^verbatim>\<open>busy\<close> is the tuple (channel, request id, deadline, next keepalive).\<close>

type_synonym transaction = "cid \<times> string \<times> time \<times> time"

record hid =
  hid_channels :: "cid list"
  hid_fragment :: "fragment option"
  hid_busy :: "transaction option"

text \<open>
  What one call reads from its environment: two consecutive clock readings, the values
  \<^verbatim>\<open>secrets.randbits(32)\<close> returns, and the next \<^verbatim>\<open>uuid4\<close>.
\<close>

record hid_env =
  env_clock :: time
  env_clock2 :: time
  env_draws :: "cid list"
  env_uuid :: string

section \<open>Operations\<close>

definition hid_new :: hid where
  "hid_new = \<lparr>hid_channels = [], hid_fragment = None, hid_busy = None\<rparr>"

definition initial_packet :: "cid \<Rightarrow> byte \<Rightarrow> bytes \<Rightarrow> bytes" where
  "initial_packet channel command payload =
     ljust 64 0 (to_be 4 (unat channel) @ [command] @ to_be 2 (length payload) @ take 57 payload)"

definition continuation_packet :: "cid \<Rightarrow> bytes \<Rightarrow> nat \<times> nat \<Rightarrow> bytes" where
  "continuation_packet channel payload = (\<lambda>(sequence, offset).
     ljust 64 0 (to_be 4 (unat channel) @ [word_of_nat sequence] @ py_slice offset (offset + 59) payload))"

definition packets :: "cid \<Rightarrow> byte \<Rightarrow> bytes \<Rightarrow> bytes list outcome" where
  "packets channel command payload =
     (if length payload > MAX_MESSAGE
      then Exc (ValueError ''CTAPHID payload exceeds transport limit'')
      else Ret (initial_packet channel command payload
        # map (continuation_packet channel payload)
            (enumerate 0 (range_step 57 (length payload) 59))))"

definition hid_send :: "cid \<Rightarrow> byte \<Rightarrow> bytes \<Rightarrow> hid_effect list outcome" where
  "hid_send cid cmd payload = bindO (packets cid cmd payload) (\<lambda>ps. Ret (map Emit ps))"

definition hid_error :: "cid \<Rightarrow> byte \<Rightarrow> hid_effect list outcome" where
  "hid_error cid code = hid_send cid ERROR [code]"

text \<open>A send followed by the end of the method, with the state as it is then.\<close>

definition then_state :: "'e list outcome \<Rightarrow> 's \<Rightarrow> ('e list \<times> 's) outcome" where
  "then_state m h = bindO m (\<lambda>es. Ret (es, h))"

definition hid_abort :: "bool \<Rightarrow> hid \<Rightarrow> (hid_effect list \<times> hid) outcome" where
  "hid_abort respond h =
     (let h1 = h\<lparr>hid_fragment := None\<rparr> in
      case hid_busy h1 of
        None \<Rightarrow> Ret ([], h1)
      | Some (cid, request_id, _, _) \<Rightarrow>
          (let h2 = h1\<lparr>hid_busy := None\<rparr> in
           if respond
           then bindO (hid_send cid CBOR [0x2d]) (\<lambda>es. Ret (Cancel request_id # es, h2))
           else Ret ([Cancel request_id], h2)))"

text \<open>\<^verbatim>\<open>while assigned in (0, BROADCAST) or assigned in self.channels\<close>: draw again.\<close>

definition channel_taken :: "cid list \<Rightarrow> cid \<Rightarrow> bool" where
  "channel_taken chans a \<longleftrightarrow> a = 0 \<or> a = BROADCAST \<or> a \<in> set chans"

fun draw_channel :: "cid list \<Rightarrow> cid \<Rightarrow> cid list \<Rightarrow> cid option" where
  "draw_channel chans a [] = (if channel_taken chans a then None else Some a)"
| "draw_channel chans a (r # rs) = (if channel_taken chans a then draw_channel chans r rs else Some a)"

definition protected_channels :: "hid \<Rightarrow> cid set" where
  "protected_channels h =
     (case hid_busy h of None \<Rightarrow> {} | Some (c, _) \<Rightarrow> {c}) \<union>
     (case hid_fragment h of None \<Rightarrow> {} | Some f \<Rightarrow> {frag_cid f})"

definition evict_channel :: "hid \<Rightarrow> cid list" where
  "evict_channel h =
     (if length (hid_channels h) \<ge> 64
      then (case find (\<lambda>c. c \<notin> protected_channels h) (hid_channels h) of
              None \<Rightarrow> hid_channels h
            | Some victim \<Rightarrow> remove1 victim (hid_channels h))
      else hid_channels h)"

definition init_reply :: "bytes \<Rightarrow> cid \<Rightarrow> bytes" where
  "init_reply packet assigned = py_slice 7 15 packet @ to_be 4 (unat assigned) @ [2, 0, 1, 0, 0x0c]"

definition busy_on :: "hid \<Rightarrow> cid \<Rightarrow> bool" where
  "busy_on h cid \<longleftrightarrow> (case hid_busy h of None \<Rightarrow> False | Some (c, _) \<Rightarrow> c = cid)"

definition fragment_on :: "hid \<Rightarrow> cid \<Rightarrow> bool" where
  "fragment_on h cid \<longleftrightarrow> (case hid_fragment h of None \<Rightarrow> False | Some f \<Rightarrow> frag_cid f = cid)"

definition hid_init :: "hid_env \<Rightarrow> bytes \<Rightarrow> cid \<Rightarrow> hid \<Rightarrow> (hid_effect list \<times> hid) outcome" where
  "hid_init env packet cid h =
     (if from_be (py_slice 5 7 packet) \<noteq> 8 then then_state (hid_error cid 0x03) h
      else if cid \<noteq> BROADCAST \<and> cid \<notin> set (hid_channels h) then then_state (hid_error cid 0x0b) h
      else if cid = BROADCAST then
        (case draw_channel (hid_channels h) cid (env_draws env) of
           None \<Rightarrow> NoRet
         | Some assigned \<Rightarrow>
             then_state (hid_send cid INIT (init_reply packet assigned))
               (h\<lparr>hid_channels := evict_channel h @ [assigned]\<rparr>))
      else
        bindO (if busy_on h cid then hid_abort False h else Ret ([], h)) (\<lambda>(es, h1).
          (let h2 = (if fragment_on h1 cid then h1\<lparr>hid_fragment := None\<rparr> else h1) in
           bindO (hid_send cid INIT (init_reply packet cid)) (\<lambda>es'. Ret (es @ es', h2)))))"

definition move_to_end :: "'a \<Rightarrow> 'a list \<Rightarrow> 'a list" where
  "move_to_end x xs = remove1 x xs @ [x]"

text \<open>Lines 133--144: deliver the fragment once all its bytes have arrived.\<close>

definition hid_dispatch :: "hid_env \<Rightarrow> cid \<Rightarrow> hid \<Rightarrow> (hid_effect list \<times> hid) outcome" where
  "hid_dispatch env cid h =
     (case hid_fragment h of
        None \<Rightarrow> Ret ([], h)
      | Some part \<Rightarrow>
          if length (frag_data part) = frag_length part then
            (let h1 = h\<lparr>hid_fragment := None\<rparr>; payload = frag_data part in
             if frag_cmd part = PING then then_state (hid_send cid PING payload) h1
             else if payload = [] then then_state (hid_error cid 0x03) h1
             else Ret ([Request (env_uuid env) cid payload],
                   h1\<lparr>hid_busy := Some (cid, env_uuid env, env_clock env + 65, env_clock2 env + 1 / 5)\<rparr>))
          else Ret ([], h))"

definition hid_begin :: "hid_env \<Rightarrow> bytes \<Rightarrow> cid \<Rightarrow> byte \<Rightarrow> hid \<Rightarrow> (hid_effect list \<times> hid) outcome" where
  "hid_begin env packet cid cmd h =
     (case hid_fragment h of
        Some part \<Rightarrow>
          if frag_cid part \<noteq> cid then then_state (hid_error cid 0x06) h
          else then_state (hid_error cid 0x04) (h\<lparr>hid_fragment := None\<rparr>)
      | None \<Rightarrow>
          (let len = from_be (py_slice 5 7 packet) in
           if len > MAX_MESSAGE then then_state (hid_error cid 0x03) h
           else if cmd \<noteq> PING \<and> cmd \<noteq> CBOR then then_state (hid_error cid 0x01) h
           else hid_dispatch env cid (h\<lparr>hid_fragment := Some
                  \<lparr>frag_cid = cid, frag_cmd = cmd, frag_length = len,
                   frag_data = py_slice 7 (7 + min len 57) packet,
                   frag_sequence = 0, frag_deadline = env_clock env + 3\<rparr>\<rparr>)))"

definition hid_continue :: "hid_env \<Rightarrow> bytes \<Rightarrow> cid \<Rightarrow> byte \<Rightarrow> hid \<Rightarrow> (hid_effect list \<times> hid) outcome" where
  "hid_continue env packet cid cmd h =
     (case hid_fragment h of
        None \<Rightarrow> Ret ([], h)
      | Some part \<Rightarrow>
          if frag_cid part \<noteq> cid then then_state (hid_error cid 0x06) h
          else if unat cmd \<noteq> frag_sequence part
          then then_state (hid_error cid 0x04) (h\<lparr>hid_fragment := None\<rparr>)
          else hid_dispatch env cid (h\<lparr>hid_fragment := Some
                 (part\<lparr>frag_sequence := frag_sequence part + 1,
                       frag_data := frag_data part
                         @ py_slice 5 (5 + min 59 (frag_length part - length (frag_data part))) packet\<rparr>)\<rparr>))"

definition packet_cid :: "bytes \<Rightarrow> cid" where
  "packet_cid packet = word_of_nat (from_be (take 4 packet))"

definition hid_receive :: "hid_env \<Rightarrow> bytes \<Rightarrow> hid \<Rightarrow> (hid_effect list \<times> hid) outcome" where
  "hid_receive env packet h =
     (if length packet \<noteq> 64 then Ret ([], h) else
      let cid = packet_cid packet; cmd = packet ! 4 in
      if cid = 0 then then_state (hid_error cid 0x0b) h
      else if cmd = INIT then hid_init env packet cid h
      else if cid = BROADCAST \<or> cid \<notin> set (hid_channels h) then then_state (hid_error cid 0x0b) h
      else let h1 = h\<lparr>hid_channels := move_to_end cid (hid_channels h)\<rparr> in
        if cmd = CANCEL then
          (if py_slice 5 7 packet \<noteq> [0, 0] then then_state (hid_error cid 0x03) h1
           else if busy_on h1 cid then hid_abort True h1
           else Ret ([], h1))
        else if hid_busy h1 \<noteq> None then then_state (hid_error cid 0x06) h1
        else if cmd AND 0x80 \<noteq> 0 then hid_begin env packet cid cmd h1
        else hid_continue env packet cid cmd h1)"

definition hid_complete :: "string \<Rightarrow> bytes \<Rightarrow> hid \<Rightarrow> (hid_effect list \<times> hid) outcome" where
  "hid_complete request_id payload h =
     (case hid_busy h of
        None \<Rightarrow> Ret ([], h)
      | Some (cid, rid, _, _) \<Rightarrow>
          if rid = request_id
          then then_state (hid_send cid CBOR
                 (if 1 \<le> length payload \<and> length payload \<le> MAX_MESSAGE then payload else [0x7f]))
                 (h\<lparr>hid_busy := None\<rparr>)
          else Ret ([], h))"

definition hid_timeout_fragment :: "time \<Rightarrow> hid \<Rightarrow> (hid_effect list \<times> hid) outcome" where
  "hid_timeout_fragment now h =
     (case hid_fragment h of
        None \<Rightarrow> Ret ([], h)
      | Some f \<Rightarrow>
          if now \<ge> frag_deadline f
          then then_state (hid_error (frag_cid f) 0x05) (h\<lparr>hid_fragment := None\<rparr>)
          else Ret ([], h))"

definition hid_timeout_busy :: "time \<Rightarrow> hid \<Rightarrow> (hid_effect list \<times> hid) outcome" where
  "hid_timeout_busy now h =
     (case hid_busy h of
        None \<Rightarrow> Ret ([], h)
      | Some (cid, request_id, deadline, keepalive) \<Rightarrow>
          if now \<ge> deadline
          then bindO (hid_send cid CBOR [0x2f]) (\<lambda>es. Ret (Cancel request_id # es, h\<lparr>hid_busy := None\<rparr>))
          else if now \<ge> keepalive
          then then_state (hid_send cid KEEPALIVE [0x02])
                 (h\<lparr>hid_busy := Some (cid, request_id, deadline, now + 1 / 5)\<rparr>)
          else Ret ([], h))"

definition hid_timeout :: "time \<Rightarrow> hid \<Rightarrow> (hid_effect list \<times> hid) outcome" where
  "hid_timeout now h =
     bindO (hid_timeout_fragment now h) (\<lambda>(es, h1).
       bindO (hid_timeout_busy now h1) (\<lambda>(es', h2). Ret (es @ es', h2)))"

definition hid_times :: "hid \<Rightarrow> time list" where
  "hid_times h =
     (case hid_fragment h of None \<Rightarrow> [] | Some f \<Rightarrow> [frag_deadline f]) @
     (case hid_busy h of None \<Rightarrow> [] | Some (_, _, deadline, keepalive) \<Rightarrow> [deadline, keepalive])"

definition hid_deadline :: "time \<Rightarrow> hid \<Rightarrow> time option" where
  "hid_deadline now h =
     (case hid_times h of [] \<Rightarrow> None | t # ts \<Rightarrow> Some (max 0 (fold min ts t - now)))"

section \<open>Sending\<close>

lemma range_step_empty [simp]: "b \<le> a \<Longrightarrow> range_step a b s = []"
  by (simp add: range_step.simps)

lemma hid_send_short [simp]:
  "length payload \<le> 57 \<Longrightarrow> hid_send cid cmd payload = Ret [Emit (initial_packet cid cmd payload)]"
  by (simp add: hid_send_def packets_def MAX_MESSAGE_def)

lemma hid_error_eq [simp]: "hid_error cid code = Ret [Emit (initial_packet cid ERROR [code])]"
  by (simp add: hid_error_def)

lemma hid_send_Ret:
  "length payload \<le> MAX_MESSAGE \<Longrightarrow> \<exists>ps. packets cid cmd payload = Ret ps \<and> hid_send cid cmd payload = Ret (map Emit ps)"
  by (simp add: hid_send_def packets_def)

lemma then_state_Ret [simp]: "then_state (Ret es) h = Ret (es, h)"
  by (simp add: then_state_def)

lemma length_init_reply [simp]: "length packet = 64 \<Longrightarrow> length (init_reply packet a) = 17"
  by (simp add: init_reply_def)

section \<open>Channels\<close>

lemma set_move_to_end [simp]: "x \<in> set xs \<Longrightarrow> set (move_to_end x xs) = set xs"
  by (induction xs) (auto simp: move_to_end_def)

lemma distinct_move_to_end [simp]: "distinct xs \<Longrightarrow> distinct (move_to_end x xs)"
  by (auto simp: move_to_end_def)

lemma length_move_to_end [simp]: "x \<in> set xs \<Longrightarrow> length (move_to_end x xs) = length xs"
  using length_pos_if_in_set [of x xs] by (simp add: move_to_end_def length_remove1)

lemma draw_channel_fresh: "draw_channel chans a rs = Some b \<Longrightarrow> \<not> channel_taken chans b"
  by (induction rs arbitrary: a) (auto split: if_splits)

lemma draw_channel_None:
  "draw_channel chans a rs = None \<longleftrightarrow> channel_taken chans a \<and> (\<forall>r \<in> set rs. channel_taken chans r)"
  by (induction rs arbitrary: a) auto

lemma finite_protected [simp]: "finite (protected_channels h)"
  by (simp add: protected_channels_def split: option.splits)

lemma card_protected: "card (protected_channels h) \<le> 2"
  by (auto simp: protected_channels_def card_insert_if split: option.splits)

definition hid_frag_ok :: "fragment \<Rightarrow> bool" where
  "hid_frag_ok f \<longleftrightarrow> frag_cmd f \<in> {PING, CBOR} \<and> frag_length f \<le> MAX_MESSAGE \<and>
     length (frag_data f) = 57 + 59 * frag_sequence f \<and> length (frag_data f) < frag_length f"

definition hid_channels_ok :: "cid list \<Rightarrow> bool" where
  "hid_channels_ok chans \<longleftrightarrow> distinct chans \<and> 0 \<notin> set chans \<and> BROADCAST \<notin> set chans \<and> length chans \<le> 64"

definition hid_inv :: "hid \<Rightarrow> bool" where
  "hid_inv h \<longleftrightarrow> hid_channels_ok (hid_channels h) \<and>
     (\<forall>f. hid_fragment h = Some f \<longrightarrow> hid_frag_ok f \<and> frag_cid f \<in> set (hid_channels h)) \<and>
     (\<forall>t. hid_busy h = Some t \<longrightarrow> fst t \<in> set (hid_channels h) \<and> hid_fragment h = None)"

lemma evict_channel_props:
  assumes "hid_inv h"
  shows "distinct (evict_channel h)" "set (evict_channel h) \<subseteq> set (hid_channels h)"
    "length (evict_channel h) < 64" "protected_channels h \<subseteq> set (evict_channel h)"
proof -
  let ?chans = "hid_channels h" and ?P = "\<lambda>c. c \<notin> protected_channels h"
  have d: "distinct ?chans" and len: "length ?chans \<le> 64"
    using assms by (auto simp: hid_inv_def hid_channels_ok_def)
  have prot: "protected_channels h \<subseteq> set ?chans"
    using assms by (auto simp: hid_inv_def protected_channels_def split: option.splits)
  have "distinct (evict_channel h) \<and> set (evict_channel h) \<subseteq> set ?chans \<and>
      length (evict_channel h) < 64 \<and> protected_channels h \<subseteq> set (evict_channel h)"
  proof (cases "length ?chans \<ge> 64")
    case False
    then show ?thesis using d prot by (simp add: evict_channel_def)
  next
    case True
    have "card (protected_channels h) < card (set ?chans)"
      using card_protected [of h] True d by (simp add: distinct_card)
    then have "\<exists>c \<in> set ?chans. ?P c"
      using card_mono [OF finite_protected, of "set ?chans" h] by force
    then obtain v where v: "find ?P ?chans = Some v"
      by (metis find_None_iff not_Some_eq)
    then have "v \<in> set ?chans" and "?P v"
      by (auto simp: find_Some_iff)
    then show ?thesis
      using True v d prot len by (auto simp: evict_channel_def length_remove1)
  qed
  then show "distinct (evict_channel h)" "set (evict_channel h) \<subseteq> set ?chans"
    "length (evict_channel h) < 64" "protected_channels h \<subseteq> set (evict_channel h)" by auto
qed


section \<open>The ledger of transactions\<close>

lemma nth4_to_be [simp]: "(to_be 4 n @ [c] @ rest) ! 4 = c"
  by (simp add: nth_append)

lemma initial_packet_nth4 [simp]: "initial_packet cid cmd payload ! 4 = cmd"
  unfolding initial_packet_def by (subst nth_ljust) (simp_all add: nth_append)

lemma continuation_packet_nth4 [simp]: "continuation_packet cid payload (k, off) ! 4 = word_of_nat k"
  unfolding continuation_packet_def prod.case by (subst nth_ljust) (simp_all add: nth_append)

lemma enumerate_range_step:
  "(k, off) \<in> set (enumerate n (range_step a b s)) \<Longrightarrow> \<exists>i. k = n + i \<and> off = a + s * i \<and> off < b"
proof (induction a b s arbitrary: n rule: range_step.induct)
  case (1 a b s)
  show ?case
  proof (cases "s = 0 \<or> b \<le> a")
    case True
    then show ?thesis using "1.prems" by (simp add: range_step.simps [of a b s])
  next
    case False
    then have "range_step a b s = a # range_step (a + s) b s"
      by (simp add: range_step.simps [of a b s])
    with "1.prems" consider "k = n" "off = a" | "(k, off) \<in> set (enumerate (Suc n) (range_step (a + s) b s))"
      by auto
    then show ?thesis
    proof cases
      case 1
      then show ?thesis using False by (intro exI [of _ 0]) simp
    next
      case 2
      from "1.IH" [OF False this] obtain i where "k = Suc n + i" "off = a + s + s * i" "off < b" by auto
      then show ?thesis by (intro exI [of _ "Suc i"]) simp
    qed
  qed
qed

fun is_reply :: "hid_effect \<Rightarrow> bool" where
  "is_reply (Emit p) = (p ! 4 = CBOR)"
| "is_reply _ = False"

fun is_request :: "hid_effect \<Rightarrow> bool" where
  "is_request (Request _ _ _) = True"
| "is_request _ = False"

fun is_cancel :: "hid_effect \<Rightarrow> bool" where
  "is_cancel (Cancel _) = True"
| "is_cancel _ = False"

definition replies :: "hid_effect list \<Rightarrow> nat" where "replies es = length (filter is_reply es)"
definition requests :: "hid_effect list \<Rightarrow> nat" where "requests es = length (filter is_request es)"
definition cancels :: "hid_effect list \<Rightarrow> nat" where "cancels es = length (filter is_cancel es)"

lemmas count_defs = replies_def requests_def cancels_def

lemma continuation_not_reply:
  assumes "(k, off) \<in> set (enumerate 0 (range_step 57 n 59))" "n \<le> MAX_MESSAGE"
  shows "(word_of_nat k :: byte) \<noteq> CBOR"
proof -
  obtain i where "k = i" "57 + 59 * i < n" using enumerate_range_step [OF assms(1)] by auto
  then have "k < 17" using assms(2) by (simp add: MAX_MESSAGE_def)
  then have "unat (word_of_nat k :: byte) < 17" by (simp add: unat_of_nat)
  then show ?thesis by (auto simp: CBOR_def)
qed

lemma hid_send_counts:
  assumes "hid_send cid cmd payload = Ret es"
  shows "replies es = (if cmd = CBOR then 1 else 0) \<and> requests es = 0 \<and> cancels es = 0"
proof -
  let ?ks = "enumerate 0 (range_step 57 (length payload) 59)"
  have len: "length payload \<le> MAX_MESSAGE"
    and es: "es = map Emit (initial_packet cid cmd payload # map (continuation_packet cid payload) ?ks)"
    using assms by (auto simp: hid_send_def packets_def split: if_splits)
  have "filter is_reply (map Emit (map (continuation_packet cid payload) ?ks)) = []"
    using continuation_not_reply [OF _ len] by (auto simp: filter_empty_conv)
  moreover have "filter is_request (map Emit ps) = []" "filter is_cancel (map Emit ps) = []" for ps
    by (auto simp: filter_empty_conv)
  ultimately show ?thesis by (simp add: es count_defs)
qed

definition in_flight :: "hid \<Rightarrow> nat" where
  "in_flight h = (if hid_busy h = None then 0 else 1)"

text \<open>A batch of effects closes the transaction when it answers it or cancels it at the host.\<close>

definition closing :: "hid_effect list \<Rightarrow> nat" where
  "closing es = max (replies es) (cancels es)"

definition balanced :: "hid \<Rightarrow> hid_effect list \<Rightarrow> hid \<Rightarrow> bool" where
  "balanced h es h' \<longleftrightarrow> in_flight h + requests es = in_flight h' + closing es"

lemma closing_simps [simp]:
  "closing [] = 0" "requests [] = 0"
  "closing [Cancel r] = 1" "requests [Cancel r] = 0"
  "closing [Request r c p] = 0" "requests [Request r c p] = 1"
  "closing [Emit p] = (if p ! 4 = CBOR then 1 else 0)" "requests [Emit p] = 0"
  "closing [Cancel r, Emit p] = 1" "requests [Cancel r, Emit p] = 0"
  by (auto simp: closing_def count_defs)

lemma ERROR_not_CBOR [simp]: "ERROR \<noteq> CBOR" "INIT \<noteq> CBOR" "KEEPALIVE \<noteq> CBOR" "PING \<noteq> CBOR"
  by (simp_all add: command_defs)

section \<open>Every operation keeps the invariant and never raises\<close>

text \<open>What every step of the machine guarantees: it never raises, it keeps the invariant and
  the ledger of transactions balances.\<close>

fun hid_ok :: "hid \<Rightarrow> (hid_effect list \<times> hid) outcome \<Rightarrow> bool" where
  "hid_ok h (Ret (es, h')) \<longleftrightarrow> hid_inv h' \<and> balanced h es h'"
| "hid_ok h (Exc e) \<longleftrightarrow> False"
| "hid_ok h NoRet \<longleftrightarrow> True"

lemma hid_inv_new: "hid_inv hid_new"
  by (simp add: hid_inv_def hid_new_def hid_channels_ok_def)

lemma hid_ok_same_busy:
  "hid_inv h' \<Longrightarrow> in_flight h' = in_flight h \<Longrightarrow> p ! 4 \<noteq> CBOR \<Longrightarrow> hid_ok h (Ret ([Emit p], h'))"
  "hid_inv h' \<Longrightarrow> in_flight h' = in_flight h \<Longrightarrow> hid_ok h (Ret ([], h'))"
  by (simp_all add: balanced_def)

lemma hid_inv_no_fragment: "hid_inv h \<Longrightarrow> hid_inv (h\<lparr>hid_fragment := None\<rparr>)"
  by (simp add: hid_inv_def)

lemma hid_inv_no_busy: "hid_inv h \<Longrightarrow> hid_inv (h\<lparr>hid_busy := None\<rparr>)"
  by (simp add: hid_inv_def)

lemma hid_inv_move:
  "hid_inv h \<Longrightarrow> cid \<in> set (hid_channels h) \<Longrightarrow> hid_inv (h\<lparr>hid_channels := move_to_end cid (hid_channels h)\<rparr>)"
  by (simp add: hid_inv_def hid_channels_ok_def)

lemma in_flight_simps [simp]:
  "in_flight (h\<lparr>hid_fragment := f\<rparr>) = in_flight h"
  "in_flight (h\<lparr>hid_channels := c\<rparr>) = in_flight h"
  "in_flight (h\<lparr>hid_busy := None\<rparr>) = 0"
  "in_flight (h\<lparr>hid_busy := Some t\<rparr>) = 1"
  by (simp_all add: in_flight_def)

lemma hid_abort_eq:
  "hid_abort respond h =
    Ret (case hid_busy h of None \<Rightarrow> []
         | Some (c, r, _) \<Rightarrow> if respond then [Cancel r, Emit (initial_packet c CBOR [0x2d])] else [Cancel r],
         h\<lparr>hid_fragment := None, hid_busy := None\<rparr>)"
  by (cases h) (auto simp: hid_abort_def Let_def split: option.splits)

lemma hid_abort_ok: "hid_inv h \<Longrightarrow> hid_ok h (hid_abort respond h)"
  by (simp add: hid_abort_eq hid_inv_no_fragment hid_inv_no_busy balanced_def)
    (auto simp: in_flight_def split: option.splits)

lemma hid_init_broadcast_inv:
  assumes "hid_inv h" "draw_channel (hid_channels h) cid rs = Some a"
  shows "hid_inv (h\<lparr>hid_channels := evict_channel h @ [a]\<rparr>)"
proof -
  note ev = evict_channel_props [OF assms(1)]
  have "\<not> channel_taken (hid_channels h) a" using assms(2) by (rule draw_channel_fresh)
  then have "hid_channels_ok (evict_channel h @ [a])"
    using ev(1-3) assms(1) by (auto simp: hid_channels_ok_def channel_taken_def hid_inv_def)
  then show ?thesis
    using assms(1) ev(4) by (auto simp: hid_inv_def protected_channels_def split: option.splits)
qed

lemma hid_init_ok:
  assumes "hid_inv h" "length packet = 64"
  shows "hid_ok h (hid_init env packet cid h)"
  using assms
  by (auto simp: hid_init_def Let_def balanced_def hid_init_broadcast_inv hid_inv_no_fragment hid_inv_no_busy
      hid_abort_eq busy_on_def in_flight_def count_defs closing_def split: option.splits)

definition hid_pre_dispatch :: "cid \<Rightarrow> hid \<Rightarrow> bool" where
  "hid_pre_dispatch cid h \<longleftrightarrow> hid_channels_ok (hid_channels h) \<and> hid_busy h = None \<and>
     cid \<in> set (hid_channels h) \<and>
     (\<forall>f. hid_fragment h = Some f \<longrightarrow> frag_cid f = cid \<and> frag_length f \<le> MAX_MESSAGE \<and>
        (length (frag_data f) = frag_length f \<or> hid_frag_ok f))"

lemma hid_send_ok:
  assumes "length payload \<le> MAX_MESSAGE" "hid_inv h'" "in_flight h' + (if cmd = CBOR then 1 else 0) = in_flight h"
  shows "hid_ok h (then_state (hid_send cid cmd payload) h')"
proof -
  from hid_send_Ret [OF assms(1), of cid cmd] obtain es where es: "hid_send cid cmd payload = Ret es" by blast
  with hid_send_counts [OF es] assms show ?thesis
    by (simp add: balanced_def closing_def)
qed

lemma hid_dispatch_ok:
  assumes "hid_pre_dispatch cid h"
  shows "hid_ok h (hid_dispatch env cid h)"
proof -
  have inv: "hid_inv (h\<lparr>hid_fragment := None\<rparr>)" and idle: "hid_busy h = None"
    using assms by (auto simp: hid_pre_dispatch_def hid_inv_def)
  show ?thesis
  proof (cases "hid_fragment h")
    case None
    with inv show ?thesis by (simp add: hid_dispatch_def balanced_def) (cases h; simp)
  next
    case (Some f)
    have "hid_ok h (then_state (hid_send cid PING (frag_data f)) (h\<lparr>hid_fragment := None\<rparr>))"
      if "length (frag_data f) = frag_length f"
      using that Some assms inv by (intro hid_send_ok) (auto simp: hid_pre_dispatch_def)
    with Some assms inv idle show ?thesis
      by (auto simp: hid_dispatch_def Let_def balanced_def in_flight_def hid_pre_dispatch_def hid_inv_def)
  qed
qed

lemma hid_begin_ok:
  assumes "hid_inv h" "length packet = 64" "cid \<in> set (hid_channels h)" "hid_busy h = None"
  shows "hid_ok h (hid_begin env packet cid cmd h)"
proof -
  let ?len = "from_be (py_slice 5 7 packet)"
  define h1 where "h1 = h\<lparr>hid_fragment := Some \<lparr>frag_cid = cid, frag_cmd = cmd, frag_length = ?len,
    frag_data = py_slice 7 (7 + min ?len 57) packet, frag_sequence = 0, frag_deadline = env_clock env + 3\<rparr>\<rparr>"
  have "hid_ok h1 (hid_dispatch env cid h1)" if "?len \<le> MAX_MESSAGE" "cmd = PING \<or> cmd = CBOR"
    using that assms by (intro hid_dispatch_ok) (auto simp: h1_def hid_pre_dispatch_def hid_inv_def hid_frag_ok_def)
  then have "hid_ok h (hid_dispatch env cid h1)" if "?len \<le> MAX_MESSAGE" "cmd = PING \<or> cmd = CBOR"
    using that by (cases "hid_dispatch env cid h1") (auto simp: balanced_def h1_def)
  then show ?thesis
    using assms(1) by (auto simp: hid_begin_def Let_def h1_def [symmetric] balanced_def hid_inv_no_fragment split: option.splits)
qed

lemma hid_continue_ok:
  assumes "hid_inv h" "length packet = 64" "cid \<in> set (hid_channels h)" "hid_busy h = None"
  shows "hid_ok h (hid_continue env packet cid cmd h)"
proof (cases "hid_fragment h")
  case None
  then show ?thesis using assms by (simp add: hid_continue_def balanced_def)
next
  case (Some f)
  define h1 where "h1 = h\<lparr>hid_fragment := Some (f\<lparr>frag_sequence := Suc (frag_sequence f),
    frag_data := frag_data f @ py_slice 5 (5 + min 59 (frag_length f - length (frag_data f))) packet\<rparr>)\<rparr>"
  have "hid_frag_ok f" using assms(1) Some by (simp add: hid_inv_def)
  then have "hid_ok h1 (hid_dispatch env cid h1)" if "frag_cid f = cid"
    using that assms by (intro hid_dispatch_ok) (auto simp: h1_def hid_pre_dispatch_def hid_inv_def hid_frag_ok_def)
  then have "hid_ok h (hid_dispatch env cid h1)" if "frag_cid f = cid"
    using that by (cases "hid_dispatch env cid h1") (auto simp: balanced_def h1_def)
  then show ?thesis
    using assms(1) Some by (auto simp: hid_continue_def h1_def [symmetric] balanced_def hid_inv_no_fragment)
qed

lemma hid_ok_move:
  "hid_ok (h\<lparr>hid_channels := c\<rparr>) m \<longleftrightarrow> hid_ok h m"
  by (cases m) (auto simp: balanced_def)

lemma hid_receive_ok: "hid_inv h \<Longrightarrow> hid_ok h (hid_receive env packet h)"
proof -
  assume inv: "hid_inv h"
  define cid where "cid = packet_cid packet"
  define h1 where "h1 = h\<lparr>hid_channels := move_to_end cid (hid_channels h)\<rparr>"
  have "hid_inv h1" "cid \<in> set (hid_channels h1)" if "cid \<in> set (hid_channels h)"
    using that inv by (auto simp: h1_def hid_inv_move)
  then have "hid_ok h (hid_begin env packet cid cmd h1)" "hid_ok h (hid_continue env packet cid cmd h1)"
    "hid_ok h (hid_abort True h1)" "hid_inv h1"
    if "cid \<in> set (hid_channels h)" "length packet = 64" "hid_busy h1 = None" for cmd
    using that hid_begin_ok hid_continue_ok hid_abort_ok hid_ok_move unfolding h1_def by blast+
  moreover have "hid_ok h (hid_abort True h1)" "hid_inv h1" if "cid \<in> set (hid_channels h)"
    using that inv hid_inv_move hid_abort_ok hid_ok_move unfolding h1_def by blast+
  moreover have "in_flight h1 = in_flight h" by (simp add: h1_def)
  ultimately show ?thesis
    using inv by (auto simp: hid_receive_def Let_def cid_def [symmetric] h1_def [symmetric] balanced_def hid_init_ok
        simp del: not_None_eq)
qed

lemma hid_complete_ok: "hid_inv h \<Longrightarrow> hid_ok h (hid_complete rid payload h)"
  unfolding hid_complete_def
  by (auto split: option.splits simp: balanced_def MAX_MESSAGE_def in_flight_def
      intro!: hid_send_ok hid_inv_no_busy)

lemma hid_timeout_ok: "hid_inv h \<Longrightarrow> hid_ok h (hid_timeout now h)"
  by (auto simp: hid_timeout_def hid_timeout_fragment_def hid_timeout_busy_def balanced_def in_flight_def
      hid_inv_no_busy hid_inv_no_fragment hid_inv_def closing_def count_defs split: option.splits)

section \<open>Events and runs\<close>

datatype hid_event =
    Receive hid_env bytes
  | Complete string bytes
  | Timeout time
  | Abort

fun hid_handle :: "hid_event \<Rightarrow> hid \<Rightarrow> (hid_effect list \<times> hid) outcome" where
  "hid_handle (Receive env packet) h = hid_receive env packet h"
| "hid_handle (Complete request_id payload) h = hid_complete request_id payload h"
| "hid_handle (Timeout now) h = hid_timeout now h"
| "hid_handle Abort h = hid_abort False h"

fun hid_run :: "hid_event list \<Rightarrow> hid \<Rightarrow> (hid_effect list \<times> hid) outcome" where
  "hid_run [] h = Ret ([], h)"
| "hid_run (ev # evs) h =
     bindO (hid_handle ev h) (\<lambda>(es, h1). bindO (hid_run evs h1) (\<lambda>(es', h2). Ret (es @ es', h2)))"

inductive hid_step :: "hid \<Rightarrow> hid \<Rightarrow> bool" where
  hid_stepI: "hid_handle ev h = Ret (es, h') \<Longrightarrow> hid_step h h'"

inductive_cases hid_stepE [elim]: "hid_step h h'"

lemma hid_handle_ok: "hid_inv h \<Longrightarrow> hid_ok h (hid_handle ev h)"
  by (cases ev) (simp_all add: hid_receive_ok hid_complete_ok hid_timeout_ok hid_abort_ok)

interpretation hid_service: service "\<lambda>h. h = hid_new" hid_step hid_inv
proof
  show "h = hid_new \<Longrightarrow> hid_inv h" for h by (simp add: hid_inv_new)
  show "hid_inv h \<Longrightarrow> hid_step h h' \<Longrightarrow> hid_inv h'" for h h'
    by (metis hid_handle_ok hid_ok.simps(1) hid_stepE)
qed

lemma counts_append [simp]:
  "replies (es @ es') = replies es + replies es'"
  "requests (es @ es') = requests es + requests es'"
  "cancels (es @ es') = cancels es + cancels es'"
  by (simp_all add: count_defs)

lemma hid_run_no_exception: "hid_inv h \<Longrightarrow> hid_run evs h \<noteq> Exc e"
proof (induction evs arbitrary: h)
  case (Cons ev evs)
  show ?case
  proof (cases "hid_handle ev h")
    case (Ret r)
    then have "hid_inv (snd r)" using hid_handle_ok [OF Cons.prems, of ev] by (cases r) auto
    then have "hid_run evs (snd r) \<noteq> Exc e" by (rule Cons.IH)
    then show ?thesis using Ret by (auto simp: bindO_eq_Exc split: prod.splits)
  next
    case (Exc e')
    then show ?thesis using hid_handle_ok [OF Cons.prems, of ev] by simp
  qed simp
qed simp

lemma hid_run_ledger:
  "hid_inv h \<Longrightarrow> hid_run evs h = Ret (es, h') \<Longrightarrow>
     replies es + in_flight h' \<le> in_flight h + requests es \<and>
     in_flight h + requests es \<le> in_flight h' + replies es + cancels es"
proof (induction evs arbitrary: h es)
  case (Cons ev evs)
  then obtain es1 h1 es2 where 1: "hid_handle ev h = Ret (es1, h1)"
    and 2: "hid_run evs h1 = Ret (es2, h')" and es: "es = es1 @ es2"
    by (auto split: prod.splits)
  then have "hid_inv h1" and "balanced h es1 h1"
    using hid_handle_ok [OF Cons.prems(1), of ev] by auto
  with Cons.IH [OF this(1) 2] show ?case
    by (auto simp: es balanced_def closing_def)
qed (simp add: count_defs)

section \<open>Reassembly\<close>

lemma of_nat_unat_be [simp]: "word_of_nat (from_be (to_be 4 (unat (c :: cid)))) = c"
proof -
  have "unat c < 256 ^ 4" using unsigned_less [of c, where 'a = nat] by simp
  then show ?thesis by (simp add: be32.dec_enc)
qed

lemma packet_cid_initial [simp]: "packet_cid (initial_packet c cmd p) = c"
  by (simp add: packet_cid_def initial_packet_def take_ljust)

lemma packet_cid_continuation [simp]: "packet_cid (continuation_packet c p (k, off)) = c"
  by (simp add: packet_cid_def continuation_packet_def take_ljust)

lemma length_initial [simp]: "length (initial_packet c cmd p) = 64"
  by (simp add: initial_packet_def)

lemma length_continuation [simp]: "length (continuation_packet c p (k, off)) = 64"
  by (simp add: continuation_packet_def)

lemma py_slice_ljust: "b \<le> length xs \<Longrightarrow> py_slice a b (ljust n f xs) = py_slice a b xs"
  by (simp add: ljust_def py_slice_append_left)

lemma initial_packet_length_field:
  "length p \<le> MAX_MESSAGE \<Longrightarrow> from_be (py_slice 5 7 (initial_packet c cmd p)) = length p"
  unfolding initial_packet_def
  by (subst py_slice_ljust) (simp_all add: py_slice_def be16.dec_enc MAX_MESSAGE_def)

lemma initial_packet_data:
  "py_slice 7 (7 + min (length p) 57) (initial_packet c cmd p) = take 57 p"
  unfolding initial_packet_def
  by (subst py_slice_ljust) (simp_all add: py_slice_def min_def)

lemma continuation_packet_data:
  assumes "off < length p"
  shows "py_slice 5 (5 + min 59 (length p - off)) (continuation_packet c p (k, off)) = py_slice off (off + 59) p"
  using assms unfolding continuation_packet_def prod.case
  by (subst py_slice_ljust) (simp_all add: py_slice_def min_def)

text \<open>The state after the first \<open>off\<close> bytes of a message have arrived.\<close>

definition partial :: "cid \<Rightarrow> byte \<Rightarrow> bytes \<Rightarrow> nat \<Rightarrow> nat \<Rightarrow> time \<Rightarrow> fragment" where
  "partial cid cmd p k off dl = \<lparr>frag_cid = cid, frag_cmd = cmd, frag_length = length p,
     frag_data = take off p, frag_sequence = k, frag_deadline = dl\<rparr>"

lemma move_to_end_idem [simp]: "distinct xs \<Longrightarrow> move_to_end x (move_to_end x xs) = move_to_end x xs"
  by (auto simp: move_to_end_def remove1_append)

lemma move_to_end_last: "distinct (xs @ [x]) \<Longrightarrow> move_to_end x (xs @ [x]) = xs @ [x]"
  by (simp add: move_to_end_def remove1_append)

lemma continuation_command:
  assumes "k < 128"
  shows "unat (word_of_nat k :: byte) = k" "(word_of_nat k :: byte) AND 0x80 = 0"
    "(word_of_nat k :: byte) \<noteq> INIT" "(word_of_nat k :: byte) \<noteq> CANCEL"
proof -
  show u: "unat (word_of_nat k :: byte) = k" using assms by (simp add: unat_of_nat)
  then show "(word_of_nat k :: byte) \<noteq> INIT" "(word_of_nat k :: byte) \<noteq> CANCEL"
    using assms by (auto simp: command_defs)
  have "\<forall>k \<in> set [0..<128]. (word_of_nat k :: byte) AND 0x80 = 0" by code_simp
  with assms show "(word_of_nat k :: byte) AND 0x80 = 0" by simp
qed

lemma start_command:
  "cmd = PING \<or> cmd = CBOR \<Longrightarrow> cmd AND 0x80 \<noteq> 0 \<and> cmd \<noteq> INIT \<and> cmd \<noteq> CANCEL"
  by (auto simp: command_defs)

lemma hid_receive_initial:
  assumes "hid_inv h" "hid_busy h = None" "hid_fragment h = None" "cid \<in> set (hid_channels h)"
    and "cmd = PING \<or> cmd = CBOR" "length p \<le> MAX_MESSAGE"
  shows "hid_receive env (initial_packet cid cmd p) h =
    hid_dispatch env cid (h\<lparr>hid_channels := move_to_end cid (hid_channels h),
      hid_fragment := Some (partial cid cmd p 0 57 (env_clock env + 3))\<rparr>)"
proof -
  have "cid \<noteq> 0" "cid \<noteq> BROADCAST"
    using assms by (auto simp: hid_inv_def hid_channels_ok_def)
  with assms start_command [OF assms(5)] show ?thesis
    by (auto simp: hid_receive_def Let_def hid_begin_def initial_packet_length_field initial_packet_data partial_def)
qed

lemma hid_receive_continuation:
  assumes "hid_inv h" "hid_busy h = None" "hid_fragment h = Some (partial cid cmd p k off dl)"
    and "k < 128" "off < length p"
  shows "hid_receive env (continuation_packet cid p (k, off)) h =
    hid_dispatch env cid (h\<lparr>hid_channels := move_to_end cid (hid_channels h),
      hid_fragment := Some (partial cid cmd p (Suc k) (off + 59) dl)\<rparr>)"
proof -
  have "cid \<in> set (hid_channels h)" "cid \<noteq> 0" "cid \<noteq> BROADCAST"
    using assms by (auto simp: hid_inv_def hid_channels_ok_def partial_def)
  moreover have "take off p @ py_slice off (off + 59) p = take (off + 59) p"
    by (simp add: py_slice_def take_add)
  ultimately show ?thesis
    using assms continuation_command [OF assms(4)] continuation_packet_data [OF assms(5), of cid k]
    by (auto simp: hid_receive_def Let_def hid_continue_def partial_def min_absorb2)
qed

text \<open>Feeding a sequence of packets, each with its own environment reading.\<close>

definition feed :: "(nat \<Rightarrow> hid_env) \<Rightarrow> nat \<Rightarrow> bytes list \<Rightarrow> hid_event list" where
  "feed env n ps = map (\<lambda>(i, p). Receive (env i) p) (enumerate n ps)"

lemma feed_simps [simp]: "feed env n [] = []" "feed env n (p # ps) = Receive (env n) p # feed env (Suc n) ps"
  by (simp_all add: feed_def)

definition delivered :: "hid_env \<Rightarrow> cid \<Rightarrow> byte \<Rightarrow> bytes \<Rightarrow> hid \<Rightarrow> (hid_effect list \<times> hid) outcome" where
  "delivered env cid cmd p h =
     (if cmd = PING then then_state (hid_send cid PING p) h
      else if p = [] then then_state (hid_error cid 0x03) h
      else Ret ([Request (env_uuid env) cid p],
             h\<lparr>hid_busy := Some (cid, env_uuid env, env_clock env + 65, env_clock2 env + 1 / 5)\<rparr>))"

lemma hid_dispatch_partial:
  assumes "hid_fragment h = Some (partial cid cmd p k off dl)"
  shows "hid_dispatch env cid h =
    (if off \<ge> length p then delivered env cid cmd p (h\<lparr>hid_fragment := None\<rparr>) else Ret ([], h))"
  using assms by (auto simp: hid_dispatch_def partial_def delivered_def Let_def)

lemma bindO_Ret_pair [simp]: "bindO m (\<lambda>(es, h). Ret (es, h)) = m"
  by (cases m) auto

lemma feed_continuations:
  assumes "hid_inv h" "hid_busy h = None" "hid_fragment h = Some (partial cid cmd p k off dl)"
    and "off = 57 + 59 * k" "off < length p" "length p \<le> MAX_MESSAGE" "last (hid_channels h) = cid"
  shows "hid_run (feed env n (map (continuation_packet cid p) (enumerate k (range_step off (length p) 59)))) h =
     delivered (env (n + length (range_step off (length p) 59) - 1)) cid cmd p (h\<lparr>hid_fragment := None\<rparr>)"
  using assms
proof (induction off "length p" "59 :: nat" arbitrary: h k n rule: range_step.induct)
  case (1 off)
  define h1 where "h1 = h\<lparr>hid_fragment := Some (partial cid cmd p (Suc k) (off + 59) dl)\<rparr>"
  have chans: "move_to_end cid (hid_channels h) = hid_channels h"
  proof -
    have ne: "hid_channels h \<noteq> []" and d: "distinct (hid_channels h)"
      using "1.prems" by (auto simp: hid_inv_def hid_channels_ok_def)
    then obtain cs where cs: "hid_channels h = cs @ [cid]"
      using "1.prems"(7) by (metis append_butlast_last_id)
    then show ?thesis using d by (simp add: move_to_end_last)
  qed
  have k: "k < 128" using "1.prems" by (simp add: MAX_MESSAGE_def)
  have unfold: "range_step off (length p) 59 = off # range_step (off + 59) (length p) 59"
    using "1.prems"(5) by (simp add: range_step.simps [of off])
  have step: "hid_receive (env n) (continuation_packet cid p (k, off)) h = hid_dispatch (env n) cid h1"
    using hid_receive_continuation [OF "1.prems"(1-3) k "1.prems"(5), of "env n"] chans by (simp add: h1_def)
  have disp: "hid_dispatch (env n) cid h1 =
      (if off + 59 \<ge> length p then delivered (env n) cid cmd p (h1\<lparr>hid_fragment := None\<rparr>) else Ret ([], h1))"
    by (rule hid_dispatch_partial) (simp add: h1_def)
  show ?case
  proof (cases "off + 59 \<ge> length p")
    case True
    then show ?thesis
      using unfold step disp by (simp add: h1_def split_def)
  next
    case False
    have inv1: "hid_inv h1"
      using hid_receive_ok [OF "1.prems"(1), of "env n" "continuation_packet cid p (k, off)"] step disp False
      by simp
    have "hid_run (feed env (Suc n) (map (continuation_packet cid p)
        (enumerate (Suc k) (range_step (off + 59) (length p) 59)))) h1 =
      delivered (env (Suc n + length (range_step (off + 59) (length p) 59) - 1)) cid cmd p (h1\<lparr>hid_fragment := None\<rparr>)"
      using "1.prems" False inv1 by (intro "1.hyps") (simp_all add: h1_def)
    then show ?thesis
      using unfold step disp False by (simp add: h1_def)
  qed
qed


lemma feed_message:
  assumes "hid_inv h" "hid_busy h = None" "hid_fragment h = None" "cid \<in> set (hid_channels h)"
    and "cmd = PING \<or> cmd = CBOR" "packets cid cmd p = Ret ps"
  shows "hid_run (feed env 0 ps) h =
    delivered (env (length ps - 1)) cid cmd p (h\<lparr>hid_channels := move_to_end cid (hid_channels h)\<rparr>)"
proof -
  let ?c = "h\<lparr>hid_channels := move_to_end cid (hid_channels h)\<rparr>"
  let ?ks = "range_step 57 (length p) 59"
  define h1 where "h1 = ?c\<lparr>hid_fragment := Some (partial cid cmd p 0 57 (env_clock (env 0) + 3))\<rparr>"
  have len: "length p \<le> MAX_MESSAGE"
    and ps: "ps = initial_packet cid cmd p # map (continuation_packet cid p) (enumerate 0 ?ks)"
    using assms(6) by (auto simp: packets_def split: if_splits)
  have restore: "h1\<lparr>hid_fragment := None\<rparr> = ?c" using assms(3) by (simp add: h1_def)
  have first: "hid_receive (env 0) (initial_packet cid cmd p) h =
      (if 57 \<ge> length p then delivered (env 0) cid cmd p ?c else Ret ([], h1))"
    using hid_receive_initial [OF assms(1-5) len, of "env 0"]
      hid_dispatch_partial [of h1 cid cmd p 0 57 "env_clock (env 0) + 3" "env 0"] restore
    by (simp add: h1_def)
  show ?thesis
  proof (cases "length p \<le> 57")
    case True
    then show ?thesis using first by (simp add: ps split_def)
  next
    case False
    have "hid_inv h1"
      using hid_receive_ok [OF assms(1), of "env 0" "initial_packet cid cmd p"] first False by simp
    moreover have "last (hid_channels h1) = cid" by (simp add: h1_def move_to_end_def)
    moreover have "hid_busy h1 = None" using assms(2) by (simp add: h1_def)
    ultimately have "hid_run (feed env 1 (map (continuation_packet cid p) (enumerate 0 ?ks))) h1 =
        delivered (env (1 + length ?ks - 1)) cid cmd p ?c"
      using feed_continuations [of h1 cid cmd p 0 57 "env_clock (env 0) + 3" env 1] False len restore
      by (simp add: h1_def)
    then show ?thesis using first False by (simp add: ps)
  qed
qed

section \<open>Channel isolation\<close>

lemma hid_dispatch_other:
  assumes "hid_dispatch env cid h = Ret (es, h')"
  shows "hid_busy h' \<noteq> hid_busy h \<Longrightarrow> \<exists>t. hid_busy h' = Some (cid, t)"
    "hid_fragment h' = hid_fragment h \<or> hid_fragment h' = None"
  using assms by (auto simp: hid_dispatch_def Let_def then_state_def split: option.splits if_splits)

text \<open>A packet of one channel leaves the transaction and the fragment of every other channel alone.\<close>

lemma hid_receive_isolation:
  assumes "hid_receive env packet h = Ret (es, h')" "hid_inv h"
  shows "hid_busy h = Some (c, t) \<Longrightarrow> c \<noteq> packet_cid packet \<Longrightarrow> hid_busy h' = Some (c, t)"
    and "hid_fragment h = Some f \<Longrightarrow> frag_cid f \<noteq> packet_cid packet \<Longrightarrow> hid_fragment h' = Some f"
  using assms
  by (auto simp: hid_receive_def Let_def hid_init_def then_state_def hid_begin_def hid_continue_def hid_abort_eq
      busy_on_def fragment_on_def hid_inv_def split: option.splits if_splits)

section \<open>Timers and channel allocation\<close>

lemma fold_min_gt: "(\<And>x. x \<in> set (t # ts) \<Longrightarrow> (now :: rat) < x) \<Longrightarrow> now < fold min ts t"
proof (induction ts arbitrary: t)
  case (Cons a ts)
  have "now < x" if "x \<in> set (min a t # ts)" for x
    using that Cons.prems [of x] Cons.prems [of a] Cons.prems [of t] by (auto simp: min_def split: if_splits)
  then have "now < fold min ts (min a t)" by (rule Cons.IH)
  then show ?case by simp
qed simp

lemma hid_timeout_fragment_progress:
  "hid_timeout_fragment now h = Ret (es, h') \<Longrightarrow>
     hid_busy h' = hid_busy h \<and> (\<forall>f. hid_fragment h' = Some f \<longrightarrow> now < frag_deadline f)"
  by (auto simp: hid_timeout_fragment_def then_state_def not_le split: option.splits if_splits)

lemma hid_timeout_busy_progress:
  "hid_timeout_busy now h = Ret (es, h') \<Longrightarrow>
     hid_fragment h' = hid_fragment h \<and> (\<forall>c r d k. hid_busy h' = Some (c, r, d, k) \<longrightarrow> now < d \<and> now < k)"
  by (auto simp: hid_timeout_busy_def then_state_def not_le split: option.splits if_splits)

lemma hid_timeout_progress:
  assumes "hid_timeout now h = Ret (es, h')"
  shows "\<forall>x \<in> set (hid_times h'). now < x"
proof -
  obtain es1 h1 es2 where 1: "hid_timeout_fragment now h = Ret (es1, h1)"
    and 2: "hid_timeout_busy now h1 = Ret (es2, h')"
    using assms by (auto simp: hid_timeout_def split: prod.splits)
  show ?thesis
    using hid_timeout_fragment_progress [OF 1] hid_timeout_busy_progress [OF 2]
    by (cases "hid_busy h'"; cases "hid_fragment h'") (auto simp: hid_times_def)
qed

lemma channel_taken_card:
  assumes "hid_inv h"
  shows "finite {c. channel_taken (hid_channels h) c}" "card {c. channel_taken (hid_channels h) c} \<le> 66"
proof -
  have eq: "{c. channel_taken (hid_channels h) c} = insert 0 (insert BROADCAST (set (hid_channels h)))"
    by (auto simp: channel_taken_def)
  then show "finite {c. channel_taken (hid_channels h) c}" by simp
  have "card (set (hid_channels h)) \<le> 64"
    using assms card_length [of "hid_channels h"] by (simp add: hid_inv_def hid_channels_ok_def)
  then show "card {c. channel_taken (hid_channels h) c} \<le> 66"
    unfolding eq by (simp add: card_insert_if)
qed

lemma hid_receive_NoRet:
  assumes "hid_receive env packet h = NoRet"
  shows "set (env_draws env) \<subseteq> {c. channel_taken (hid_channels h) c}"
  using assms
  by (auto simp: hid_receive_def Let_def hid_init_def then_state_def hid_begin_def hid_continue_def hid_abort_eq
      hid_dispatch_def bindO_eq_NoRet hid_send_def packets_def draw_channel_None
      split: option.splits if_splits)

section \<open>Properties\<close>

text \<open>C1: a CBOR message of 1 to 1024 bytes, cut into CTAPHID packets by \<^verbatim>\<open>packets\<close> and received
  packet by packet on an open channel of an idle authenticator, is reassembled exactly: the only
  effect is one host request with the original payload, and the channel becomes busy with deadlines
  counted from the last packet.\<close>

theorem hid_cbor_roundtrip:
  assumes "hid_inv h" "hid_busy h = None" "hid_fragment h = None" "cid \<in> set (hid_channels h)"
    and "1 \<le> length p" "length p \<le> MAX_MESSAGE"
  shows "\<exists>ps. packets cid CBOR p = Ret ps \<and>
    hid_run (feed env 0 ps) h =
      Ret ([Request (env_uuid (env (length ps - 1))) cid p],
        h\<lparr>hid_channels := move_to_end cid (hid_channels h),
          hid_busy := Some (cid, env_uuid (env (length ps - 1)),
            env_clock (env (length ps - 1)) + 65, env_clock2 (env (length ps - 1)) + 1 / 5)\<rparr>)"
proof -
  obtain ps where ps: "packets cid CBOR p = Ret ps" using hid_send_Ret [OF assms(6)] by blast
  moreover have "p \<noteq> []" using assms(5) by auto
  ultimately show ?thesis
    using feed_message [OF assms(1-4) _ ps, of env] by (auto simp: delivered_def command_defs)
qed

theorem hid_cbor_roundtrip_witness:
  "\<exists>ps. packets 5 CBOR (replicate 100 7) = Ret ps \<and>
    hid_run (feed (\<lambda>_. \<lparr>env_clock = 1, env_clock2 = 1, env_draws = [], env_uuid = ''id''\<rparr>) 0 ps)
      (hid_new\<lparr>hid_channels := [9, 5]\<rparr>) =
      Ret ([Request ''id'' 5 (replicate 100 7)],
        hid_new\<lparr>hid_channels := [9, 5], hid_busy := Some (5, ''id'', 66, 6 / 5)\<rparr>)"
  using hid_cbor_roundtrip [of "hid_new\<lparr>hid_channels := [9, 5]\<rparr>" 5 "replicate 100 7"
      "\<lambda>_. \<lparr>env_clock = 1, env_clock2 = 1, env_draws = [], env_uuid = ''id''\<rparr>"]
  by (simp add: hid_inv_def hid_channels_ok_def hid_new_def BROADCAST_def MAX_MESSAGE_def move_to_end_def)

text \<open>A PING message of at most 1024 bytes received on an open channel of an idle authenticator
  is answered with exactly the packets that carried it, and nothing stays pending.\<close>

theorem hid_ping_echo:
  assumes "hid_inv h" "hid_busy h = None" "hid_fragment h = None" "cid \<in> set (hid_channels h)"
    and "length p \<le> MAX_MESSAGE"
  shows "\<exists>ps. packets cid PING p = Ret ps \<and>
    hid_run (feed env 0 ps) h = Ret (map Emit ps, h\<lparr>hid_channels := move_to_end cid (hid_channels h)\<rparr>)"
proof -
  obtain ps where ps: "packets cid PING p = Ret ps" "hid_send cid PING p = Ret (map Emit ps)"
    using hid_send_Ret [OF assms(5)] by blast
  then show ?thesis
    using feed_message [OF assms(1-4) _ ps(1), of env] by (auto simp: delivered_def)
qed

theorem hid_ping_echo_witness:
  "\<exists>ps. packets 5 PING (replicate 1024 7) = Ret ps \<and>
    hid_run (feed (\<lambda>_. \<lparr>env_clock = 1, env_clock2 = 1, env_draws = [], env_uuid = ''id''\<rparr>) 0 ps)
      (hid_new\<lparr>hid_channels := [9, 5]\<rparr>) = Ret (map Emit ps, hid_new\<lparr>hid_channels := [9, 5]\<rparr>)"
  using hid_ping_echo [of "hid_new\<lparr>hid_channels := [9, 5]\<rparr>" 5 "replicate 1024 7"
      "\<lambda>_. \<lparr>env_clock = 1, env_clock2 = 1, env_draws = [], env_uuid = ''id''\<rparr>"]
  by (simp add: hid_inv_def hid_channels_ok_def hid_new_def BROADCAST_def MAX_MESSAGE_def move_to_end_def)

text \<open>C2: in every state the authenticator can reach, at most 64 distinct, non-reserved channels are
  open; a pending fragment belongs to an open channel, is no longer than 1024 bytes and holds
  exactly the bytes of the packets counted so far, fewer than announced; a busy transaction belongs
  to an open channel and excludes a pending fragment.\<close>

theorem hid_reachable_inv:
  assumes "reach (\<lambda>h. h = hid_new) hid_step h"
  shows "distinct (hid_channels h) \<and> length (hid_channels h) \<le> 64 \<and>
    0 \<notin> set (hid_channels h) \<and> BROADCAST \<notin> set (hid_channels h) \<and>
    (case hid_fragment h of None \<Rightarrow> True
     | Some f \<Rightarrow> frag_cid f \<in> set (hid_channels h) \<and> frag_length f \<le> MAX_MESSAGE \<and>
         length (frag_data f) = 57 + 59 * frag_sequence f \<and> length (frag_data f) < frag_length f) \<and>
    (case hid_busy h of None \<Rightarrow> True
     | Some (c, _) \<Rightarrow> c \<in> set (hid_channels h) \<and> hid_fragment h = None)"
  using hid_service.reach_inv [OF assms]
  by (auto simp: hid_inv_def hid_channels_ok_def hid_frag_ok_def split: option.splits)

theorem hid_reachable_inv_witness:
  "reach (\<lambda>h. h = hid_new) hid_step (hid_new\<lparr>hid_channels := [5]\<rparr>) \<and>
   length (hid_channels (hid_new\<lparr>hid_channels := [5]\<rparr>)) \<le> 64"
proof -
  let ?p = "initial_packet BROADCAST INIT [1, 2, 3, 4, 5, 6, 7, 8]"
  have "hid_handle (Receive \<lparr>env_clock = 1, env_clock2 = 1, env_draws = [5], env_uuid = ''id''\<rparr> ?p) hid_new =
    Ret ([Emit (initial_packet BROADCAST INIT (init_reply ?p 5))], hid_new\<lparr>hid_channels := [5]\<rparr>)"
    using initial_packet_length_field [of "[1, 2, 3, 4, 5, 6, 7, 8]" BROADCAST INIT]
    by (simp add: hid_receive_def hid_init_def channel_taken_def evict_channel_def hid_new_def
        BROADCAST_def MAX_MESSAGE_def)
  then have "hid_step hid_new (hid_new\<lparr>hid_channels := [5]\<rparr>)" by (rule hid_stepI)
  moreover have "reach (\<lambda>h. h = hid_new) hid_step hid_new" by (rule reach_init) simp
  ultimately have "reach (\<lambda>h. h = hid_new) hid_step (hid_new\<lparr>hid_channels := [5]\<rparr>)"
    by (rule reach_step [rotated])
  then show ?thesis using hid_reachable_inv [of "hid_new\<lparr>hid_channels := [5]\<rparr>"] by blast
qed


text \<open>A packet received on one channel changes neither the transaction nor the partly received
  message of another channel.\<close>

theorem hid_channel_isolation:
  assumes "hid_inv h" "hid_receive env packet h = Ret (es, h')"
  shows "(\<forall>c r. hid_busy h = Some (c, r) \<and> c \<noteq> packet_cid packet \<longrightarrow> hid_busy h' = hid_busy h) \<and>
    (\<forall>f. hid_fragment h = Some f \<and> frag_cid f \<noteq> packet_cid packet \<longrightarrow> hid_fragment h' = hid_fragment h)"
  using hid_receive_isolation [OF assms(2,1)] by auto

theorem hid_channel_isolation_witness:
  "hid_receive \<lparr>env_clock = 1, env_clock2 = 1, env_draws = [], env_uuid = ''id''\<rparr> (initial_packet 5 PING [])
     \<lparr>hid_channels = [5, 9], hid_fragment = None, hid_busy = Some (9, ''r'', 66, 2)\<rparr> =
   Ret ([Emit (initial_packet 5 ERROR [6])],
     \<lparr>hid_channels = [9, 5], hid_fragment = None, hid_busy = Some (9, ''r'', 66, 2)\<rparr>) \<and>
   (9 :: cid) \<noteq> packet_cid (initial_packet 5 PING [])"
  (is "hid_receive ?env ?p ?h = Ret (?es, ?h') \<and> _")
proof -
  have r: "hid_receive ?env ?p ?h = Ret (?es, ?h')" by code_simp
  have "hid_inv ?h" by (simp add: hid_inv_def hid_channels_ok_def BROADCAST_def)
  from hid_channel_isolation [OF this r] show ?thesis using r by simp
qed

text \<open>CX: Receiving a packet always returns when the random source yields at least 67 different
  values: at most 64 open channels and the two reserved ids can be rejected by the loop that
  allocates a channel.\<close>

theorem hid_receive_returns:
  assumes "hid_inv h" "67 \<le> card (set (env_draws env))"
  shows "\<exists>es h'. hid_receive env packet h = Ret (es, h')"
proof (cases "hid_receive env packet h")
  case NoRet
  have "card (set (env_draws env)) \<le> 66"
    using card_mono [OF channel_taken_card(1) [OF assms(1)] hid_receive_NoRet [OF NoRet]]
      channel_taken_card(2) [OF assms(1)] by simp
  then show ?thesis using assms(2) by simp
next
  case (Exc e)
  then show ?thesis using hid_receive_ok [OF assms(1), of env packet] by simp
qed auto

theorem hid_receive_returns_witness:
  "\<exists>es h'. hid_receive \<lparr>env_clock = 1, env_clock2 = 1, env_draws = map word_of_nat [0..<67], env_uuid = ''id''\<rparr>
     (initial_packet BROADCAST INIT (replicate 8 1)) hid_new = Ret (es, h')"
proof (rule hid_receive_returns [OF hid_inv_new])
  have "inj_on (word_of_nat :: nat \<Rightarrow> cid) {0..<67}"
    by (rule inj_on_inverseI [where g = unat]) (simp add: unat_of_nat)
  then have "card ((word_of_nat :: nat \<Rightarrow> cid) ` {0..<67}) = 67" by (simp add: card_image)
  then show "67 \<le> card (set (env_draws \<lparr>env_clock = 1, env_clock2 = 1,
      env_draws = map word_of_nat [0..<67], env_uuid = ''id''\<rparr>))"
    by simp
qed

text \<open>After the timer handler has run at time \<open>now\<close>, the next wait it asks for is strictly
  positive: expired fragments, expired transactions and due keepalives are all consumed, so the
  service never spins on a passed deadline.\<close>

theorem hid_timeout_waits:
  assumes "hid_timeout now h = Ret (es, h')" "hid_deadline now h' = Some d"
  shows "0 < d"
proof -
  obtain t ts where ts: "hid_times h' = t # ts" and d: "d = max 0 (fold min ts t - now)"
    using assms(2) by (auto simp: hid_deadline_def split: list.splits)
  have "now < fold min ts t"
    using hid_timeout_progress [OF assms(1)] by (intro fold_min_gt) (auto simp: ts)
  then show ?thesis by (simp add: d)
qed

theorem hid_timeout_waits_witness:
  "hid_timeout 2 \<lparr>hid_channels = [5], hid_fragment = None, hid_busy = Some (5, ''r'', 66, 6 / 5)\<rparr> =
     Ret ([Emit (initial_packet 5 KEEPALIVE [2])],
       \<lparr>hid_channels = [5], hid_fragment = None, hid_busy = Some (5, ''r'', 66, 11 / 5)\<rparr>) \<and>
   hid_deadline 2 \<lparr>hid_channels = [5], hid_fragment = None, hid_busy = Some (5, ''r'', 66, 11 / 5)\<rparr> = Some (1 / 5) \<and>
   (0 :: rat) < 1 / 5"
  (is "?t \<and> ?d \<and> _")
proof -
  have t: ?t by (simp add: hid_timeout_def hid_timeout_fragment_def hid_timeout_busy_def)
  have d: ?d by (simp add: hid_deadline_def hid_times_def)
  show ?thesis using t d hid_timeout_waits [OF t d] by blast
qed

end
