(* ===== verification/Fido_Relay.thy ===== *)
theory Fido_Relay
  imports Pyvalue Ctaphid
begin

text \<open>
  The rest of \<^verbatim>\<open>guest/auth/fido2.py\<close>: the UHID device (\<^verbatim>\<open>Device\<close>), the relay that forwards
  transactions to the host over short-lived control-socket clients (\<^verbatim>\<open>Relay\<close>) and the start-up
  check (\<^verbatim>\<open>check_host\<close>).

  The callbacks of the HID layer are performed in the order of its effect log. A socket is a
  number; what the kernel answers (\<^verbatim>\<open>connect_ex\<close>, \<^verbatim>\<open>send\<close>, \<^verbatim>\<open>recv\<close>, UHID reads and writes), the clock
  and \<^verbatim>\<open>json.loads\<close> are inputs.
\<close>

section \<open>Data\<close>

definition REPORT :: bytes where
  "REPORT = (case fromhex ''06d0f10901a1010920150026ff007508954081020921150026ff00750895409102c0'' of
     Ret bs \<Rightarrow> bs | _ \<Rightarrow> [])"

datatype completion = CompleteRequest string | CompleteCancel

record rpc_client =
  rc_output :: bytes
  rc_input :: bytes
  rc_completion :: completion
  rc_deadline :: time
  rc_reading :: bool

text \<open>\<open>rl_uhid\<close> is the log of complete UHID events written to the device.\<close>

record relay =
  rl_hid :: hid
  rl_clients :: "(nat \<times> rpc_client) list"
  rl_next :: nat
  rl_uhid :: "bytes list"
  rl_open :: bool

record relay_env =
  re_connect :: "nat \<Rightarrow> int"
  re_clock :: time
  re_uhid :: "bytes \<Rightarrow> nat outcome"
  re_loads :: "bytes \<Rightarrow> json outcome"

section \<open>The UHID device\<close>

definition device_create :: "bytes \<Rightarrow> bytes" where
  "device_create unique =
     to_le 4 11 @ take 128 (ljust 128 0 (ascii_bytes ''Ashacky FIDO2''))
     @ take 64 (ljust 64 0 (ascii_bytes ''ashacky/fido2'')) @ take 64 (ljust 64 0 unique)
     @ to_le 2 (length REPORT) @ to_le 2 3 @ to_le 4 0xffff @ to_le 4 0xa5c2 @ to_le 4 1 @ to_le 4 0
     @ REPORT"

definition device_write :: "relay_env \<Rightarrow> bytes \<Rightarrow> (relay, unit) act" where
  "device_write env event =
     bindA (liftA (re_uhid env event)) (\<lambda>count.
       if count \<noteq> length event then excA (OSError 0 ''Incomplete UHID event'')
       else updA (\<lambda>r. r\<lparr>rl_uhid := rl_uhid r @ [event]\<rparr>))"

definition uhid_input :: "bytes \<Rightarrow> bytes" where
  "uhid_input packet = to_le 4 12 @ to_le 2 (length packet) @ packet"

definition device_emit :: "relay_env \<Rightarrow> bytes \<Rightarrow> (relay, unit) act" where
  "device_emit env packet = device_write env (uhid_input packet)"

section \<open>Remote calls\<close>

text \<open>The reply of the host, or \<^verbatim>\<open>None\<close>, as the payload handed to \<^verbatim>\<open>HID.complete\<close>.\<close>

definition reply_payload :: "json \<Rightarrow> bytes outcome" where
  "reply_payload result =
     catchO
       (case result of
          JDict d \<Rightarrow>
            raise_if (dict_get d ''ok'' \<noteq> JBool True) (ValueError ''Host unavailable'')
              (bindO (jitem result ''data'') jb64decode)
        | _ \<Rightarrow> Exc (ValueError ''Host unavailable''))
       (\<lambda>e. is_KeyError e \<or> is_TypeError e \<or> is_ValueError e) (\<lambda>_. Ret [0x7f])"

text \<open>The effects of \<^verbatim>\<open>HID.complete\<close>, which only emits packets.\<close>

fun relay_emission :: "relay_env \<Rightarrow> hid_effect \<Rightarrow> (relay, unit) act" where
  "relay_emission env (Emit packet) = device_emit env packet"
| "relay_emission env _ = retA ()"

definition relay_complete :: "relay_env \<Rightarrow> string \<Rightarrow> json \<Rightarrow> (relay, unit) act" where
  "relay_complete env request_id result =
     bindA (liftA (reply_payload result)) (\<lambda>raw.
     bindA (getA rl_hid) (\<lambda>h.
     bindA (liftA (hid_complete request_id raw h)) (\<lambda>(es, h').
       thenA (updA (\<lambda>r. r\<lparr>rl_hid := h'\<rparr>)) (forA (relay_emission env) es))))"

fun relay_completion :: "relay_env \<Rightarrow> completion \<Rightarrow> json \<Rightarrow> (relay, unit) act" where
  "relay_completion env (CompleteRequest request_id) result = relay_complete env request_id result"
| "relay_completion env CompleteCancel result = retA ()"

text \<open>\<^verbatim>\<open>0\<close>, \<^verbatim>\<open>EINPROGRESS\<close> and \<^verbatim>\<open>EAGAIN\<close> are the results of \<^verbatim>\<open>connect_ex\<close> that go on.\<close>

definition relay_rpc :: "relay_env \<Rightarrow> (string \<times> string) list \<Rightarrow> completion \<Rightarrow> (relay, unit) act" where
  "relay_rpc env value completion =
     bindA (getA (\<lambda>r. (length (rl_clients r), rl_next r))) (\<lambda>(n, client).
       if n \<ge> 8 then relay_completion env completion JNull
       else thenA (updA (\<lambda>r. r\<lparr>rl_next := Suc client\<rparr>))
         (if re_connect env client \<notin> {0, 115, 11} then relay_completion env completion JNull
          else updA (\<lambda>r. r\<lparr>rl_clients := dset client
             \<lparr>rc_output = ascii_bytes (dumps_strings '','' '':'' value) @ [10], rc_input = [],
              rc_completion = completion, rc_deadline = re_clock env + 70, rc_reading = False\<rparr>
             (rl_clients r)\<rparr>)))"

definition relay_finish :: "relay_env \<Rightarrow> nat \<Rightarrow> json \<Rightarrow> (relay, unit) act" where
  "relay_finish env client result =
     bindA (getA (\<lambda>r. map_of (rl_clients r) client)) (\<lambda>found.
       case found of
         None \<Rightarrow> excA (KeyError ''client'')
       | Some record \<Rightarrow>
           thenA (updA (\<lambda>r. r\<lparr>rl_clients := dpop client (rl_clients r)\<rparr>))
             (relay_completion env (rc_completion record) result))"

definition relay_request :: "relay_env \<Rightarrow> string \<Rightarrow> cid \<Rightarrow> bytes \<Rightarrow> (relay, unit) act" where
  "relay_request env request_id channel payload =
     relay_rpc env [(''action'', ''request''), (''id'', request_id),
         (''channel'', to_hex (to_be 4 (unat channel))), (''data'', b64encode payload)]
       (CompleteRequest request_id)"

definition relay_cancel :: "relay_env \<Rightarrow> string \<Rightarrow> (relay, unit) act" where
  "relay_cancel env request_id =
     relay_rpc env [(''action'', ''cancel''), (''id'', request_id)] CompleteCancel"

fun relay_effect :: "relay_env \<Rightarrow> hid_effect \<Rightarrow> (relay, unit) act" where
  "relay_effect env (Emit packet) = device_emit env packet"
| "relay_effect env (Request request_id channel payload) = relay_request env request_id channel payload"
| "relay_effect env (Cancel request_id) = relay_cancel env request_id"

text \<open>Call a method of the HID object: its state is updated, then its callbacks run.\<close>

definition relay_hid :: "relay_env \<Rightarrow> (hid \<Rightarrow> (hid_effect list \<times> hid) outcome) \<Rightarrow> (relay, unit) act" where
  "relay_hid env call =
     bindA (getA rl_hid) (\<lambda>h.
     bindA (liftA (call h)) (\<lambda>(es, h').
       thenA (updA (\<lambda>r. r\<lparr>rl_hid := h'\<rparr>)) (forA (relay_effect env) es)))"

section \<open>Device events\<close>

definition le_field :: "nat \<Rightarrow> nat \<Rightarrow> bytes \<Rightarrow> nat" where
  "le_field offset width event = from_le (py_slice offset (offset + width) event)"

text \<open>\<^verbatim>\<open>EOPNOTSUPP\<close> is 95 on Linux.\<close>

definition device_receive :: "relay_env \<Rightarrow> hid_env \<Rightarrow> bytes outcome \<Rightarrow> (relay, unit) act" where
  "device_receive env henv read =
     bindA (liftA read) (\<lambda>raw.
       if length raw < 4 then excA (EOFError ''UHID closed'') else
       let event = ljust 4380 0 raw; kind = le_field 0 4 event in
       if kind = 6 then
         (let len = le_field 4100 2 event; report_type = event ! 4102 in
          if report_type = 1 then
            (if len = 64 then relay_hid env (hid_receive henv (py_slice 4 68 event))
             else if len = 65 \<and> event ! 4 = 0 then relay_hid env (hid_receive henv (py_slice 5 69 event))
             else retA ())
          else retA ())
       else if kind = 3 \<or> kind = 5 then relay_hid env (hid_abort False)
       else if kind = 9 then
         device_write env (to_le 4 10 @ to_le 4 (le_field 4 4 event) @ to_le 2 95 @ to_le 2 0)
       else if kind = 13 then
         device_write env (to_le 4 14 @ to_le 4 (le_field 4 4 event) @ to_le 2 95)
       else retA ())"

section \<open>The event loop\<close>

definition relay_new :: relay where
  "relay_new = \<lparr>rl_hid = hid_new, rl_clients = [], rl_next = 0, rl_uhid = [], rl_open = True\<rparr>"

definition relay_set_client :: "nat \<Rightarrow> (rpc_client \<Rightarrow> rpc_client) \<Rightarrow> (relay, unit) act" where
  "relay_set_client client f =
     updA (\<lambda>r. case map_of (rl_clients r) client of
         None \<Rightarrow> r
       | Some c \<Rightarrow> r\<lparr>rl_clients := dset client (f c) (rl_clients r)\<rparr>)"

text \<open>\<^verbatim>\<open>count = client.send(record['output']); del record['output'][:count]\<close>, then wait to read.\<close>

definition relay_write :: "nat \<Rightarrow> nat outcome \<Rightarrow> (relay, unit) act" where
  "relay_write client sent =
     bindA (liftA sent) (\<lambda>count. relay_set_client client (\<lambda>c.
       (let out = drop count (rc_output c) in
        c\<lparr>rc_output := out, rc_reading := (if out = [] then True else rc_reading c)\<rparr>)))"

definition client_input :: "nat \<Rightarrow> relay \<Rightarrow> bytes" where
  "client_input client r = (case map_of (rl_clients r) client of None \<Rightarrow> [] | Some c \<Rightarrow> rc_input c)"

definition relay_read :: "relay_env \<Rightarrow> nat \<Rightarrow> bytes outcome \<Rightarrow> (relay, unit) act" where
  "relay_read env client received =
     bindA (liftA received) (\<lambda>data.
       if data = [] then excA (EOFError ''Host closed'')
       else thenA (relay_set_client client (\<lambda>c. c\<lparr>rc_input := rc_input c @ data\<rparr>))
         (bindA (getA (client_input client)) (\<lambda>buffer.
            if length buffer > 16384 then excA (ValueError ''Oversized reply'')
            else if 10 \<in> set buffer
            then bindA (liftA (re_loads env buffer)) (\<lambda>v. relay_finish env client v)
            else retA ())))"

definition relay_client :: "relay_env \<Rightarrow> nat \<Rightarrow> nat outcome option \<Rightarrow> bytes outcome option \<Rightarrow> (relay, unit) act" where
  "relay_client env client writable readable =
     bindA (getA (\<lambda>r. map_of (rl_clients r) client)) (\<lambda>found.
       case found of
         None \<Rightarrow> excA (KeyError ''client'')
       | Some _ \<Rightarrow>
           catchA
             (thenA (case writable of None \<Rightarrow> retA () | Some sent \<Rightarrow> relay_write client sent)
                    (case readable of None \<Rightarrow> retA () | Some received \<Rightarrow> relay_read env client received))
             (\<lambda>e. is_OSError e \<or> is_ValueError e \<or> is_EOFError e)
             (\<lambda>_. bindA (getA (\<lambda>r. map_of (rl_clients r) client)) (\<lambda>still.
                if still \<noteq> None then relay_finish env client JNull else retA ())))"

text \<open>
  What \<^verbatim>\<open>select\<close> reports: the device with the event read from it, or a client with what its
  \<^verbatim>\<open>send\<close> (when writable) and \<^verbatim>\<open>recv\<close> (when readable) will return.
\<close>

datatype ready =
    DeviceReady hid_env "bytes outcome"
  | ClientReady nat "nat outcome option" "bytes outcome option"

fun relay_ready :: "relay_env \<times> ready \<Rightarrow> (relay, unit) act" where
  "relay_ready (env, DeviceReady henv event) = device_receive env henv event"
| "relay_ready (env, ClientReady client writable readable) = relay_client env client writable readable"

definition relay_expire_item :: "relay_env \<Rightarrow> time \<Rightarrow> nat \<times> rpc_client \<Rightarrow> (relay, unit) act" where
  "relay_expire_item env now = (\<lambda>(client, record).
     if now \<ge> rc_deadline record then relay_finish env client JNull else retA ())"

definition relay_expire :: "relay_env \<Rightarrow> time \<Rightarrow> (relay, unit) act" where
  "relay_expire env now = bindA (getA rl_clients) (forA (relay_expire_item env now))"

definition relay_wait :: "time \<Rightarrow> relay \<Rightarrow> time option" where
  "relay_wait now r =
     (let timeout = hid_deadline now (rl_hid r) in
      case map (\<lambda>(_, c). rc_deadline c) (rl_clients r) of
        [] \<Rightarrow> timeout
      | t # ts \<Rightarrow>
          (let next_rpc = max 0 (fold min ts t - now) in
           case timeout of None \<Rightarrow> Some next_rpc | Some w \<Rightarrow> Some (min w next_rpc)))"

definition relay_step :: "(relay_env \<times> ready) list \<Rightarrow> relay_env \<Rightarrow> time \<Rightarrow> time \<Rightarrow> (relay, unit) act" where
  "relay_step selected env now_hid now =
     thenA (forA relay_ready selected)
     (thenA (relay_hid env (hid_timeout_fragment now_hid))
     (thenA (relay_hid env (hid_timeout_busy now_hid))
            (relay_expire env now)))"

text \<open>The value is the cancellation flushed over a fresh connection after everything is closed.\<close>

definition relay_close :: "relay_env \<Rightarrow> (relay, bytes option) act" where
  "relay_close env =
     bindA (getA (\<lambda>r. hid_busy (rl_hid r))) (\<lambda>busy.
     thenA (relay_hid env (hid_abort False))
     (thenA (updA (\<lambda>r. r\<lparr>rl_clients := [], rl_open := False\<rparr>))
       (retA (case busy of
          None \<Rightarrow> None
        | Some (_, pending, _, _) \<Rightarrow>
            if pending = [] then None
            else Some (ascii_bytes (dumps_strings '', '' '': '' [(''action'', ''cancel''), (''id'', pending)]) @ [10])))))"

section \<open>Start-up check\<close>

text \<open>\<^verbatim>\<open>while b'\n' not in data\<close> over what successive \<^verbatim>\<open>recv\<close> calls return.\<close>

fun check_host_read :: "bytes \<Rightarrow> bytes outcome list \<Rightarrow> bytes outcome" where
  "check_host_read data parts =
     (if 10 \<in> set data then Ret data else
      case parts of
        [] \<Rightarrow> NoRet
      | p # ps \<Rightarrow>
          bindO p (\<lambda>part.
            if part = [] \<or> length data + length part > 16384
            then Exc (OSError 0 ''Invalid FIDO2 host response'')
            else check_host_read (data @ part) ps))"

definition check_host_reply :: "json \<Rightarrow> unit outcome" where
  "check_host_reply result =
     bindO (jget result ''ok'') (\<lambda>ok.
       if ok \<noteq> JBool True then
         bindO (jget result ''error'') (\<lambda>err.
           if err = JStr ''FIDO2 disabled'' then Exc (SystemExit 78)
           else Exc (OSError 0 ''FIDO2 host is unavailable''))
       else
         bindO (jitem result ''data'') (\<lambda>data.
         bindO (jb64decode data) (\<lambda>raw.
           if length raw < 2 \<or> raw ! 0 \<noteq> 0 then Exc (OSError 0 ''FIDO2 host is not ready'')
           else Ret ())))"

definition check_host :: "(bytes \<Rightarrow> json outcome) \<Rightarrow> unit outcome \<Rightarrow> bytes outcome list \<Rightarrow> unit outcome" where
  "check_host loads conn parts =
     bindO conn (\<lambda>_.
     bindO (check_host_read [] parts) (\<lambda>data.
     bindO (loads data) check_host_reply))"

section \<open>The invariant of the relay\<close>

text \<open>
  A transaction in flight is awaited by a client whose completion will answer it, except for the
  request identifiers in \<open>X\<close>, which are about to be answered or sent.
\<close>

definition awaited :: "string \<Rightarrow> relay \<Rightarrow> bool" where
  "awaited rid r \<longleftrightarrow> list_ex (\<lambda>(_, c). rc_completion c = CompleteRequest rid) (rl_clients r)"

definition busy_rid :: "hid \<Rightarrow> string option" where
  "busy_rid h = map_option (\<lambda>(_, rid, _). rid) (hid_busy h)"

definition relay_inv_except :: "string set \<Rightarrow> relay \<Rightarrow> bool" where
  "relay_inv_except X r \<longleftrightarrow> hid_inv (rl_hid r) \<and> wf_dict (rl_clients r) \<and> length (rl_clients r) \<le> 8 \<and>
     list_all (\<lambda>(k, _). k < rl_next r) (rl_clients r) \<and>
     (\<forall>rid \<in> set_option (busy_rid (rl_hid r)). rid \<in> X \<or> awaited rid r)"

abbreviation relay_inv :: "relay \<Rightarrow> bool" where
  "relay_inv \<equiv> relay_inv_except {}"

fun pending_of :: "completion \<Rightarrow> string set" where
  "pending_of (CompleteRequest rid) = {rid}"
| "pending_of CompleteCancel = {}"

lemma relay_inv_weaken: "relay_inv r \<Longrightarrow> relay_inv_except X r"
  by (auto simp: relay_inv_except_def split: option.splits)

lemma relay_inv_uhid [simp]: "relay_inv_except X (r\<lparr>rl_uhid := l\<rparr>) = relay_inv_except X r"
  by (simp add: relay_inv_except_def awaited_def)

lemma device_write_keeps [keeps_intros]: "keeps (relay_inv_except X) (device_write env event)"
  unfolding device_write_def by (intro keeps_intros keeps_upd) simp_all

lemma device_emit_keeps [keeps_intros]: "keeps (relay_inv_except X) (device_emit env packet)"
  unfolding device_emit_def by (rule device_write_keeps)

lemma relay_emission_keeps [keeps_intros]: "keeps (relay_inv_except X) (relay_emission env e)"
  by (cases e) (simp_all add: keeps_intros)

lemma reply_payload_Ret: "\<exists>raw. reply_payload v = Ret raw"
  unfolding reply_payload_def
  by (rule may_raise_catch) (auto split: json.splits intro!: may_raise_bind jb64decode_raises jitem_raises
    simp del: jitem.simps)

lemma hid_complete_cases:
  assumes "hid_inv h"
  obtains es h' where "hid_complete rid raw h = Ret (es, h')" "hid_inv h'" "\<And>e. e \<in> set es \<Longrightarrow> \<exists>p. e = Emit p"
    "busy_rid h' = (if busy_rid h = Some rid then None else busy_rid h)"
proof -
  have ok: "hid_ok h (hid_complete rid raw h)" using assms by (rule hid_complete_ok)
  show ?thesis
  proof (cases "hid_complete rid raw h")
    case (Ret x)
    then obtain es h' where x: "hid_complete rid raw h = Ret (es, h')" by (cases x) auto
    have "\<forall>e \<in> set es. \<exists>p. e = Emit p" "busy_rid h' = (if busy_rid h = Some rid then None else busy_rid h)"
      using x by (auto simp: hid_complete_def then_state_def hid_send_def busy_rid_def split: option.splits if_splits)
    then show ?thesis using that x ok by auto
  next
    case NoRet
    then show ?thesis
      by (auto simp: hid_complete_def then_state_def hid_send_def packets_def bindO_eq_NoRet split: option.splits if_splits)
  qed (use ok in auto)
qed

lemma relay_complete_inv:
  assumes "relay_inv_except {rid} r"
  shows "relay_inv (fst (relay_complete env rid v r))"
proof -
  obtain raw where raw: "reply_payload v = Ret raw" using reply_payload_Ret by blast
  obtain es h' where h': "hid_complete rid raw (rl_hid r) = Ret (es, h')" "hid_inv h'"
    "busy_rid h' = (if busy_rid (rl_hid r) = Some rid then None else busy_rid (rl_hid r))"
    using hid_complete_cases [of "rl_hid r" rid raw] assms unfolding relay_inv_except_def by metis
  have "relay_inv (r\<lparr>rl_hid := h'\<rparr>)"
    using assms h'(2,3) by (auto simp: relay_inv_except_def awaited_def split: if_splits)
  moreover have "keeps relay_inv (forA (relay_emission env) es)" by (intro keeps_intros)
  ultimately show ?thesis by (simp add: relay_complete_def raw h' keepsD)
qed

lemma relay_completion_inv:
  "relay_inv_except (pending_of c) r \<Longrightarrow> relay_inv (fst (relay_completion env c v r))"
  by (cases c) (simp_all add: relay_complete_inv)

lemma relay_add_inv:
  assumes "relay_inv_except (pending_of (rc_completion rec)) r" "length (rl_clients r) < 8"
  shows "relay_inv (r\<lparr>rl_next := Suc (rl_next r), rl_clients := dset (rl_next r) rec (rl_clients r)\<rparr>)"
proof -
  have "rl_next r \<notin> fst ` set (rl_clients r)"
    using assms by (auto simp: relay_inv_except_def list_all_iff)
  then show ?thesis
    using assms by (cases "rc_completion rec")
      (auto simp: relay_inv_except_def awaited_def dset_fresh list_all_iff wf_dict_def list_ex_iff)
qed

lemma relay_rpc_inv:
  assumes "relay_inv_except (pending_of c) r"
  shows "relay_inv (fst (relay_rpc env value c r))"
proof -
  have "relay_inv_except (pending_of c) (r\<lparr>rl_next := Suc (rl_next r)\<rparr>)"
    using assms by (auto simp: relay_inv_except_def awaited_def list_all_iff)
  then show ?thesis
    using assms by (simp add: relay_rpc_def relay_completion_inv relay_add_inv)
qed

lemma awaited_dpop:
  assumes "awaited rid r" "wf_dict (rl_clients r)" "map_of (rl_clients r) client = Some c"
  shows "rid \<in> pending_of (rc_completion c) \<or> awaited rid (r\<lparr>rl_clients := dpop client (rl_clients r)\<rparr>)"
proof -
  obtain k d where kd: "(k, d) \<in> set (rl_clients r)" "rc_completion d = CompleteRequest rid"
    using assms(1) by (auto simp: awaited_def list_ex_iff)
  show ?thesis
  proof (cases "k = client")
    case True
    then have "c = d" using kd assms(2,3) by (auto simp: wf_dict_def)
    then show ?thesis using kd by simp
  qed (use kd in \<open>auto simp: awaited_def list_ex_iff set_dpop\<close>)
qed

lemma relay_finish_inv: "keeps relay_inv (relay_finish env client v)"
proof (rule keepsI)
  fix r assume inv: "relay_inv r"
  show "relay_inv (fst (relay_finish env client v r))"
  proof (cases "map_of (rl_clients r) client")
    case (Some c)
    have "relay_inv_except (pending_of (rc_completion c)) (r\<lparr>rl_clients := dpop client (rl_clients r)\<rparr>)"
      using inv Some
      by (auto simp: relay_inv_except_def list_all_iff set_dpop intro: order_trans [OF length_dpop_le] dest: awaited_dpop)
    then show ?thesis using Some by (simp add: relay_finish_def relay_completion_inv)
  qed (simp add: relay_finish_def inv)
qed

lemma relay_cancel_keeps [keeps_intros]: "keeps relay_inv (relay_cancel env rid)"
  by (rule keepsI) (simp add: relay_cancel_def relay_rpc_inv)

lemma relay_request_inv: "relay_inv_except {rid} r \<Longrightarrow> relay_inv (fst (relay_request env rid c p r))"
  by (simp add: relay_request_def relay_rpc_inv)

text \<open>
  What a method of the HID object hands over: either the transaction in flight is at most the one
  it had, or the method's only effect is the request of the new one.
\<close>

definition handover :: "hid \<Rightarrow> hid_effect list \<Rightarrow> hid \<Rightarrow> bool" where
  "handover h es h' \<longleftrightarrow>
     (busy_rid h' = None \<or> busy_rid h' = busy_rid h) \<and> (\<forall>e \<in> set es. \<not> is_request e)
     \<or> (\<exists>rid c p. es = [Request rid c p] \<and> busy_rid h' = Some rid)"

definition hands_over :: "(hid \<Rightarrow> (hid_effect list \<times> hid) outcome) \<Rightarrow> bool" where
  "hands_over call \<longleftrightarrow> (\<forall>h es h'. hid_inv h \<longrightarrow> call h = Ret (es, h') \<longrightarrow> hid_inv h' \<and> handover h es h')"

lemma relay_effect_keeps: "\<not> is_request e \<Longrightarrow> keeps relay_inv (relay_effect env e)"
  by (cases e) (auto intro: keeps_intros)

lemma relay_hid_keeps:
  assumes "hands_over call"
  shows "keeps relay_inv (relay_hid env call)"
proof (rule keepsI)
  fix r assume inv: "relay_inv r"
  show "relay_inv (fst (relay_hid env call r))"
  proof (cases "call (rl_hid r)")
    case (Ret x)
    then obtain es h' where x: "call (rl_hid r) = Ret (es, h')" by (cases x) auto
    then have h': "hid_inv h'" "handover (rl_hid r) es h'"
      using assms inv by (auto simp: hands_over_def relay_inv_except_def)
    let ?r = "r\<lparr>rl_hid := h'\<rparr>"
    have "relay_inv (fst (forA (relay_effect env) es ?r))"
    proof (cases "\<forall>e \<in> set es. \<not> is_request e")
      case True
      then have "busy_rid h' = None \<or> busy_rid h' = busy_rid (rl_hid r)" using h' by (auto simp: handover_def)
      then have "relay_inv ?r" using inv h' by (auto simp: relay_inv_except_def awaited_def)
      moreover have "keeps relay_inv (forA (relay_effect env) es)"
        using True by (auto intro: keeps_for relay_effect_keeps)
      ultimately show ?thesis by (rule keepsD [rotated])
    next
      case False
      then obtain rid c p where es: "es = [Request rid c p]" "busy_rid h' = Some rid"
        using h'(2) by (auto simp: handover_def)
      then have "relay_inv_except {rid} ?r" using inv h' by (auto simp: relay_inv_except_def)
      then show ?thesis using es by (auto intro!: keeps_at relay_request_inv keeps_ret)
    qed
    then show ?thesis by (simp add: relay_hid_def x)
  qed (simp_all add: relay_hid_def inv)
qed

lemma hands_overI:
  assumes "\<And>h. hid_inv h \<Longrightarrow> hid_ok h (call h)"
    and "\<And>h es h'. call h = Ret (es, h') \<Longrightarrow> handover h es h'"
  shows "hands_over call"
  unfolding hands_over_def using assms by (metis hid_ok.simps(1))

lemma emits_not_request: "hid_send c cmd p = Ret es \<Longrightarrow> \<forall>e \<in> set es. \<not> is_request e"
  by (auto simp: hid_send_def)

lemma handover_send:
  "then_state (hid_send c cmd p) h' = Ret (es, h'') \<Longrightarrow> busy_rid h' = None \<or> busy_rid h' = busy_rid h \<Longrightarrow> handover h es h''"
  by (auto simp: then_state_def handover_def dest: emits_not_request)

lemma hid_abort_hands_over: "hands_over (hid_abort respond)"
  by (rule hands_overI [OF hid_abort_ok])
    (auto simp: hid_abort_eq handover_def busy_rid_def split: option.splits)

lemma hid_timeout_fragment_hands_over: "hands_over (hid_timeout_fragment now)"
  by (rule hands_overI)
    (auto simp: hid_timeout_fragment_def handover_def busy_rid_def hid_inv_no_fragment balanced_def
      split: option.splits if_splits)

lemma hid_timeout_busy_hands_over: "hands_over (hid_timeout_busy now)"
  by (rule hands_overI)
    (auto simp: hid_timeout_busy_def handover_def busy_rid_def balanced_def in_flight_def
      hid_inv_no_busy hid_inv_def closing_def count_defs split: option.splits if_splits)

lemma busy_rid_simps [simp]:
  "busy_rid (h\<lparr>hid_fragment := f\<rparr>) = busy_rid h"
  "busy_rid (h\<lparr>hid_channels := c\<rparr>) = busy_rid h"
  "busy_rid (h\<lparr>hid_busy := None\<rparr>) = None"
  "busy_rid (h\<lparr>hid_busy := Some (c', rid, d)\<rparr>) = Some rid"
  by (simp_all add: busy_rid_def)

lemma handover_simps [simp]:
  "handover (h\<lparr>hid_fragment := f\<rparr>) es h' = handover h es h'"
  "handover (h\<lparr>hid_channels := c\<rparr>) es h' = handover h es h'"
  "handover h [Emit p] h' = (busy_rid h' = None \<or> busy_rid h' = busy_rid h)"
  "handover h [] h' = (busy_rid h' = None \<or> busy_rid h' = busy_rid h)"
  "handover h [Request rid c' p] h' = (busy_rid h' = Some rid)"
  by (auto simp: handover_def)

lemma hid_dispatch_handover:
  assumes "hid_dispatch env cid h = Ret (es, h')" "busy_rid h = None"
  shows "handover h es h'"
  using assms handover_send [of cid PING _ "h\<lparr>hid_fragment := None\<rparr>" es h']
  by (auto simp: hid_dispatch_def Let_def split: option.splits if_splits)

lemma hid_init_handover:
  assumes "hid_init env packet cid h = Ret (es, h')" "length packet = 64"
  shows "handover h es h'"
  using assms
  by (auto simp: hid_init_def Let_def handover_def busy_rid_def hid_abort_eq busy_on_def
      split: option.splits if_splits)

lemma hid_begin_handover:
  "hid_begin env packet cid cmd h = Ret (es, h') \<Longrightarrow> busy_rid h = None \<Longrightarrow> handover h es h'"
  by (auto simp: hid_begin_def Let_def split: option.splits if_splits dest!: hid_dispatch_handover)

lemma hid_continue_handover:
  "hid_continue env packet cid cmd h = Ret (es, h') \<Longrightarrow> busy_rid h = None \<Longrightarrow> handover h es h'"
  by (auto simp: hid_continue_def split: option.splits if_splits dest!: hid_dispatch_handover)

lemma hid_abort_handover: "hid_abort respond h = Ret (es, h') \<Longrightarrow> handover h es h'"
  by (auto simp: hid_abort_eq handover_def busy_rid_def split: option.splits if_splits)

lemma busy_rid_None: "hid_busy h = None \<Longrightarrow> busy_rid h = None"
  by (simp add: busy_rid_def)

lemma hid_receive_handover: "hid_receive env packet h = Ret (es, h') \<Longrightarrow> handover h es h'"
  by (auto simp: hid_receive_def Let_def busy_rid_None simp del: not_None_eq split: if_splits
      dest!: hid_begin_handover hid_continue_handover hid_abort_handover intro: hid_init_handover)

lemma hid_receive_hands_over: "hands_over (hid_receive env packet)"
  by (rule hands_overI [OF hid_receive_ok hid_receive_handover])

lemmas hands_overs = hid_receive_hands_over hid_abort_hands_over
  hid_timeout_fragment_hands_over hid_timeout_busy_hands_over

lemma device_receive_keeps: "keeps relay_inv (device_receive env henv event)"
  unfolding device_receive_def Let_def
  by (intro keeps_intros relay_hid_keeps hands_overs)

lemma relay_set_client_keeps:
  assumes "\<And>c. rc_completion (f c) = rc_completion c"
  shows "keeps relay_inv (relay_set_client client f)"
proof (rule keepsI)
  fix r assume inv: "relay_inv r"
  show "relay_inv (fst (relay_set_client client f r))"
  proof (cases "map_of (rl_clients r) client")
    case (Some c)
    then show ?thesis
      using inv assms unfolding relay_set_client_def relay_inv_except_def awaited_def
      by (simp add: list_ex_dset_present list_all_dset_present length_dset_present)
  qed (simp add: relay_set_client_def inv)
qed

lemma relay_write_keeps [keeps_intros]: "keeps relay_inv (relay_write client sent)"
  unfolding relay_write_def Let_def by (intro keeps_intros relay_set_client_keeps) simp

lemma relay_read_keeps [keeps_intros]: "keeps relay_inv (relay_read env client received)"
  unfolding relay_read_def by (intro keeps_intros relay_set_client_keeps relay_finish_inv) simp

lemma relay_client_keeps: "keeps relay_inv (relay_client env client writable readable)"
  unfolding relay_client_def
  by (intro keeps_intros relay_finish_inv; auto split: option.splits intro!: keeps_intros relay_finish_inv)

lemma relay_ready_keeps: "keeps relay_inv (relay_ready e)"
  by (cases e rule: relay_ready.cases) (simp_all add: device_receive_keeps relay_client_keeps)

lemma relay_expire_keeps: "keeps relay_inv (relay_expire env now)"
  unfolding relay_expire_def relay_expire_item_def by (auto intro!: keeps_intros relay_finish_inv split: prod.splits)

lemma relay_step_keeps: "keeps relay_inv (relay_step selected env now_hid now)"
  unfolding relay_step_def
  by (intro keeps_intros relay_hid_keeps hands_overs relay_expire_keeps relay_ready_keeps)

inductive relay_runs :: "relay \<Rightarrow> relay \<Rightarrow> bool" where
  relay_runsI: "relay_step selected env now_hid now r = (r', Ret ()) \<Longrightarrow> relay_runs r r'"

inductive_cases relay_runsE [elim]: "relay_runs r r'"

interpretation relay_service: service "\<lambda>r. r = relay_new" relay_runs relay_inv
proof
  show "r = relay_new \<Longrightarrow> relay_inv r" for r
    by (simp add: relay_inv_except_def relay_new_def hid_inv_new busy_rid_def hid_new_def hid_inv_def hid_channels_ok_def)
  show "relay_inv r \<Longrightarrow> relay_runs r r' \<Longrightarrow> relay_inv r'" for r r'
    by (metis fst_conv keepsD relay_runsE relay_step_keeps)
qed


section \<open>Answers\<close>

lemma emit_all:
  assumes "\<forall>ev. re_uhid env ev = Ret (length ev)"
  shows "forA (relay_emission env) (map Emit ps) r = (r\<lparr>rl_uhid := rl_uhid r @ map uhid_input ps\<rparr>, Ret ())"
proof (induction ps arbitrary: r)
  case (Cons p ps)
  show ?case
    using assms by (simp add: thenA_def bindA_def device_emit_def device_write_def Cons.IH liftA_def)
qed simp

lemma relay_finish_eq:
  assumes "map_of (rl_clients r) s = Some c"
  shows "relay_finish env s v r = relay_completion env (rc_completion c) v (r\<lparr>rl_clients := dpop s (rl_clients r)\<rparr>)"
  using assms by (simp add: relay_finish_def)

lemma relay_complete_eq:
  assumes "hid_busy (rl_hid r) = Some (cid, rid, d, k)" "\<forall>ev. re_uhid env ev = Ret (length ev)"
    "reply_payload v = Ret raw" "packets cid CBOR (if 1 \<le> length raw \<and> length raw \<le> MAX_MESSAGE then raw else [0x7f]) = Ret ps"
  shows "relay_complete env rid v r =
    (r\<lparr>rl_hid := (rl_hid r)\<lparr>hid_busy := None\<rparr>, rl_uhid := rl_uhid r @ map uhid_input ps\<rparr>, Ret ())"
  using assms by (simp add: relay_complete_def hid_complete_def hid_send_def then_state_def emit_all)

text \<open>Answering the request \<open>rid\<close> of client \<open>s\<close> with the CTAP message \<open>raw\<close>.\<close>

definition answered :: "nat \<Rightarrow> cid \<Rightarrow> bytes \<Rightarrow> relay \<Rightarrow> relay" where
  "answered s cid raw r =
     (case packets cid CBOR raw of
        Ret ps \<Rightarrow> r\<lparr>rl_hid := (rl_hid r)\<lparr>hid_busy := None\<rparr>, rl_clients := dpop s (rl_clients r),
                    rl_uhid := rl_uhid r @ map uhid_input ps\<rparr>
      | _ \<Rightarrow> r)"

lemma relay_finish_answers:
  assumes "map_of (rl_clients r) s = Some c" "rc_completion c = CompleteRequest rid"
    "hid_busy (rl_hid r) = Some (cid, rid, d, k)" "\<forall>ev. re_uhid env ev = Ret (length ev)"
    "reply_payload v = Ret raw"
  shows "relay_finish env s v r =
    (answered s cid (if 1 \<le> length raw \<and> length raw \<le> MAX_MESSAGE then raw else [0x7f]) r, Ret ())"
proof -
  let ?p = "if 1 \<le> length raw \<and> length raw \<le> MAX_MESSAGE then raw else [0x7f]"
  have "length ?p \<le> MAX_MESSAGE" by (simp add: MAX_MESSAGE_def)
  then obtain ps where "packets cid CBOR ?p = Ret ps" by (simp add: packets_def)
  then show ?thesis
    using assms relay_complete_eq [of "r\<lparr>rl_clients := dpop s (rl_clients r)\<rparr>" cid rid d k env v raw ps]
    by (simp add: relay_finish_eq answered_def)
qed

text \<open>What the last \<^verbatim>\<open>recv\<close> of a call that cannot succeed returns.\<close>

definition broken_reply :: "relay_env \<Rightarrow> rpc_client \<Rightarrow> bytes outcome \<Rightarrow> bool" where
  "broken_reply env c received \<longleftrightarrow>
     (case received of
        Ret data \<Rightarrow> data = [] \<or> length (rc_input c @ data) > 16384 \<or>
          10 \<in> set (rc_input c @ data) \<and>
          (case re_loads env (rc_input c @ data) of
             Ret v \<Rightarrow> reply_payload v = Ret [0x7f]
           | Exc e \<Rightarrow> is_OSError e \<or> is_ValueError e \<or> is_EOFError e
           | NoRet \<Rightarrow> False)
      | Exc e \<Rightarrow> is_OSError e
      | NoRet \<Rightarrow> False)"

lemma answered_set_client:
  "length raw \<le> 1024 \<Longrightarrow> answered s cid raw (r\<lparr>rl_clients := dset s c (rl_clients r)\<rparr>) = answered s cid raw r"
  by (simp add: answered_def packets_def MAX_MESSAGE_def)

section \<open>Expiry\<close>

lemma relay_completion_clients:
  assumes "\<forall>ev. re_uhid env ev = Ret (length ev)" "hid_inv (rl_hid r)"
  shows "rl_clients (fst (relay_completion env c v r)) = rl_clients r \<and> snd (relay_completion env c v r) = Ret ()
    \<and> hid_inv (rl_hid (fst (relay_completion env c v r)))"
proof (cases c)
  case (CompleteRequest rid)
  obtain raw where raw: "reply_payload v = Ret raw" using reply_payload_Ret by blast
  obtain es h' where h': "hid_complete rid raw (rl_hid r) = Ret (es, h')" "hid_inv h'" "\<And>e. e \<in> set es \<Longrightarrow> \<exists>p. e = Emit p"
    using hid_complete_cases [OF assms(2), of rid raw] by metis
  then obtain ps where "es = map Emit ps" by (metis ex_map_conv)
  then show ?thesis
    using CompleteRequest raw h' by (simp add: relay_complete_def emit_all [OF assms(1)])
qed (simp add: assms)

lemma relay_expire_items:
  assumes "\<forall>ev. re_uhid env ev = Ret (length ev)"
  shows "hid_inv (rl_hid r) \<Longrightarrow> distinct (map fst items) \<Longrightarrow> \<forall>(k, c) \<in> set items. map_of (rl_clients r) k = Some c \<Longrightarrow>
    \<exists>r'. forA (relay_expire_item env now) items r = (r', Ret ())
      \<and> rl_clients r' = filter (\<lambda>(k, _). \<forall>c. (k, c) \<in> set items \<longrightarrow> now < rc_deadline c) (rl_clients r)"
proof (induction items arbitrary: r)
  case (Cons item items)
  obtain k c where item: "item = (k, c)" by (cases item)
  define q where "q = (if now \<ge> rc_deadline c then fst (relay_finish env k JNull r) else r)"
  have found: "map_of (rl_clients r) k = Some c" using Cons.prems item by auto
  let ?pop = "r\<lparr>rl_clients := dpop k (rl_clients r)\<rparr>"
  have fin: "relay_finish env k JNull r = (q, Ret ())" "rl_clients q = dpop k (rl_clients r)" "hid_inv (rl_hid q)"
    if "now \<ge> rc_deadline c"
    using relay_completion_clients [OF assms, of ?pop "rc_completion c" JNull] relay_finish_eq [OF found, of env JNull]
      Cons.prems(1) that by (auto simp: q_def prod_eq_iff)
  have "hid_inv (rl_hid q)" using Cons.prems(1) fin by (auto simp: q_def split: if_splits)
  moreover have "map_of (rl_clients q) k' = Some c'" if "(k', c') \<in> set items" for k' c'
  proof -
    have "k' \<noteq> k" using that Cons.prems(2) item by force
    moreover have "map_of (rl_clients r) k' = Some c'" using that Cons.prems(3) by auto
    ultimately show ?thesis using fin(2) by (cases "now \<ge> rc_deadline c") (simp_all add: q_def)
  qed
  ultimately obtain r' where r': "forA (relay_expire_item env now) items q = (r', Ret ())"
    "rl_clients r' = filter (\<lambda>(k, _). \<forall>c. (k, c) \<in> set items \<longrightarrow> now < rc_deadline c) (rl_clients q)"
    using Cons.IH [of q] Cons.prems(2) by auto
  have "rl_clients r' = filter (\<lambda>(k', _). \<forall>c'. (k', c') \<in> set (item # items) \<longrightarrow> now < rc_deadline c') (rl_clients r)"
    using r'(2) fin(2) Cons.prems(2) item
    by (auto simp: q_def dpop_def intro!: filter_cong split: if_splits)
  moreover have "forA (relay_expire_item env now) (item # items) r = (r', Ret ())"
  proof (cases "now \<ge> rc_deadline c")
    case True
    then have "relay_expire_item env now item r = (q, Ret ())" using fin(1) item by (simp add: relay_expire_item_def)
    then show ?thesis using r'(1) by (simp add: thenA_def bindA_def)
  next
    case False
    then have "relay_expire_item env now item r = (q, Ret ())" using item by (simp add: relay_expire_item_def q_def)
    then show ?thesis using r'(1) by (simp add: thenA_def bindA_def)
  qed
  ultimately show ?case by blast
qed simp

lemma relay_expire_clients:
  assumes "\<forall>ev. re_uhid env ev = Ret (length ev)" "relay_inv r"
  obtains r' where "relay_expire env now r = (r', Ret ())"
    "rl_clients r' = filter (\<lambda>(_, c). now < rc_deadline c) (rl_clients r)"
proof -
  have wf: "distinct (map fst (rl_clients r))" "hid_inv (rl_hid r)"
    using assms(2) by (auto simp: relay_inv_except_def wf_dict_def)
  then obtain r' where "forA (relay_expire_item env now) (rl_clients r) r = (r', Ret ())"
    "rl_clients r' = filter (\<lambda>(k, _). \<forall>c. (k, c) \<in> set (rl_clients r) \<longrightarrow> now < rc_deadline c) (rl_clients r)"
    using relay_expire_items [OF assms(1), of r "rl_clients r" now] by auto
  moreover have "filter (\<lambda>(k, _). \<forall>c. (k, c) \<in> set (rl_clients r) \<longrightarrow> now < rc_deadline c) (rl_clients r) =
      filter (\<lambda>(_, c). now < rc_deadline c) (rl_clients r)"
    using wf(1) by (auto intro!: filter_cong dest: eq_key_imp_eq_value)
  ultimately show thesis using that by (simp add: relay_expire_def)
qed

text \<open>A UHID output event as the kernel delivers it: type, 4096 bytes of data, size, report type.\<close>

definition uhid_output :: "bytes \<Rightarrow> bytes" where
  "uhid_output report = to_le 4 6 @ ljust 4096 0 report @ to_le 2 (length report) @ [1]"

lemma le_field_append:
  "length xs = offset \<Longrightarrow> length ys = width \<Longrightarrow> le_field offset width (xs @ ys @ zs) = from_le ys"
  by (simp add: le_field_def py_slice_def)

lemma uhid_output_fields:
  assumes "length report \<le> 4096" "length report < 65536"
  shows "length (uhid_output report) = 4103"
    "le_field 0 4 (ljust 4380 0 (uhid_output report)) = 6"
    "le_field 4100 2 (ljust 4380 0 (uhid_output report)) = length report"
    "ljust 4380 0 (uhid_output report) ! 4102 = 1"
    "n \<le> length report \<Longrightarrow> py_slice (4 + m) (4 + n) (ljust 4380 0 (uhid_output report)) = py_slice m n report"
proof -
  show "length (uhid_output report) = 4103" using assms(1) by (simp add: uhid_output_def)
  let ?tail = "replicate (4380 - length (uhid_output report)) 0"
  have e: "ljust 4380 0 (uhid_output report) =
      to_le 4 6 @ ljust 4096 0 report @ to_le 2 (length report) @ [1] @ ?tail"
    by (simp add: ljust_def uhid_output_def)
  show "le_field 0 4 (ljust 4380 0 (uhid_output report)) = 6"
    using le_field_append [of "[]" 0 "to_le 4 6"] le32.dec_enc [of 6] by (simp add: e)
  show "le_field 4100 2 (ljust 4380 0 (uhid_output report)) = length report"
    using le_field_append [of "to_le 4 6 @ ljust 4096 0 report" 4100 "to_le 2 (length report)" 2] le16.dec_enc [of "length report"] assms
    by (simp add: e)
  show "ljust 4380 0 (uhid_output report) ! 4102 = 1"
    using nth_append_length [of "to_le 4 6 @ ljust 4096 0 report @ to_le 2 (length report)" 1 ?tail] assms
    by (simp add: e)
  show "py_slice (4 + m) (4 + n) (ljust 4380 0 (uhid_output report)) = py_slice m n report" if "n \<le> length report"
    using that by (simp only: e) (simp add: py_slice_def ljust_def)
qed

section \<open>Properties\<close>

text \<open>A relay waiting for the host's answer to request \<open>r\<close> of channel 5, for the witnesses.\<close>

definition sample_client :: rpc_client where
  "sample_client = \<lparr>rc_output = [], rc_input = [], rc_completion = CompleteRequest ''r'',
     rc_deadline = 70, rc_reading = True\<rparr>"

definition sample_relay :: relay where
  "sample_relay =
     \<lparr>rl_hid = \<lparr>hid_channels = [5], hid_fragment = None, hid_busy = Some (5, ''r'', 65, 1)\<rparr>,
      rl_clients = [(3, sample_client)], rl_next = 4, rl_uhid = [], rl_open = True\<rparr>"

definition sample_env :: "(bytes \<Rightarrow> json outcome) \<Rightarrow> relay_env" where
  "sample_env loads =
     \<lparr>re_connect = \<lambda>_. 0, re_clock = 0, re_uhid = \<lambda>ev. Ret (length ev), re_loads = loads\<rparr>"

text \<open>C4: when the host's reply to the transaction in flight is complete (a JSON object with \<^verbatim>\<open>ok\<close> true
  and base64 \<^verbatim>\<open>data\<close> of 1 to 1024 bytes), the relay answers the channel with exactly the CTAPHID
  packets of that message, each written as one UHID event, drops the client and ends the transaction.\<close>

theorem relay_reply_delivered:
  assumes "map_of (rl_clients r) s = Some c" and "rc_completion c = CompleteRequest rid"
    and "hid_busy (rl_hid r) = Some (cid, rid, d, k)"
    and "\<forall>ev. re_uhid env ev = Ret (length ev)"
    and "data \<noteq> []" and "length (rc_input c @ data) \<le> 16384" and "10 \<in> set (rc_input c @ data)"
    and "re_loads env (rc_input c @ data) = Ret (JDict reply)"
    and "map_of reply ''ok'' = Some (JBool True)" and "map_of reply ''data'' = Some (JStr (b64encode raw))"
    and "1 \<le> length raw" and "length raw \<le> 1024"
  shows "relay_client env s None (Some (Ret data)) r = (answered s cid raw r, Ret ())"
proof -
  let ?c = "c\<lparr>rc_input := rc_input c @ data\<rparr>"
  let ?r = "r\<lparr>rl_clients := dset s ?c (rl_clients r)\<rparr>"
  have p: "reply_payload (JDict reply) = Ret raw"
    using assms by (simp add: reply_payload_def dict_get_def b64_roundtrip)
  have "relay_finish env s (JDict reply) ?r = (answered s cid raw ?r, Ret ())"
    using relay_finish_answers [of ?r s ?c rid cid d k env, OF _ _ _ _ p] assms by (simp add: MAX_MESSAGE_def)
  moreover have "answered s cid raw ?r = answered s cid raw r"
    using assms by (simp add: answered_def packets_def MAX_MESSAGE_def)
  ultimately show ?thesis
    using assms by (simp add: relay_client_def relay_read_def relay_set_client_def catchA_def client_input_def)
qed

theorem relay_reply_delivered_witness:
  "relay_client (sample_env (\<lambda>_. Ret (JDict [(''ok'', JBool True), (''data'', JStr (b64encode [0, 1]))])))
     3 None (Some (Ret [123, 125, 10])) sample_relay = (answered 3 5 [0, 1] sample_relay, Ret ())
   \<and> rl_uhid (answered 3 5 [0, 1] sample_relay) = [uhid_input (initial_packet 5 CBOR [0, 1])]"
proof
  show "relay_client (sample_env (\<lambda>_. Ret (JDict [(''ok'', JBool True), (''data'', JStr (b64encode [0, 1]))])))
     3 None (Some (Ret [123, 125, 10])) sample_relay = (answered 3 5 [0, 1] sample_relay, Ret ())"
    by (rule relay_reply_delivered [where c = sample_client and rid = "''r''" and d = 65 and k = 1
          and reply = "[(''ok'', JBool True), (''data'', JStr (b64encode [0, 1]))]"])
       (simp_all add: sample_relay_def sample_env_def sample_client_def)
  show "rl_uhid (answered 3 5 [0, 1] sample_relay) = [uhid_input (initial_packet 5 CBOR [0, 1])]"
    by (simp add: sample_relay_def answered_def packets_def MAX_MESSAGE_def)
qed



text \<open>In every state the relay's event loop reaches, at most 8 host clients are open, and a
  transaction in flight is awaited by a client whose completion answers it.\<close>

theorem relay_reachable_inv:
  assumes "reach (\<lambda>r. r = relay_new) relay_runs r"
  shows "length (rl_clients r) \<le> 8 \<and> hid_inv (rl_hid r) \<and>
    (\<forall>c rid d k. hid_busy (rl_hid r) = Some (c, rid, d, k) \<longrightarrow>
       (\<exists>s cl. map_of (rl_clients r) s = Some cl \<and> rc_completion cl = CompleteRequest rid))"
proof -
  have inv: "relay_inv r" using assms by (rule relay_service.reach_inv)
  have "\<exists>s cl. map_of (rl_clients r) s = Some cl \<and> rc_completion cl = CompleteRequest rid" if "awaited rid r" for rid
    using that inv by (fastforce simp: awaited_def list_ex_iff relay_inv_except_def wf_dict_def)
  then show ?thesis using inv by (auto simp: relay_inv_except_def busy_rid_def)
qed

theorem relay_reachable_inv_witness:
  "length (rl_clients relay_new) \<le> 8 \<and> hid_inv (rl_hid relay_new)"
  using relay_reachable_inv [OF reach_init [of "\<lambda>r. r = relay_new", OF refl]] by blast

text \<open>Once a step of the event loop has returned, every open host client still has time left:
  no request outlives its 70 seconds, whatever the host does.\<close>

theorem relay_step_deadlines:
  assumes "reach (\<lambda>r. r = relay_new) relay_runs r"
    and "\<forall>ev. re_uhid env ev = Ret (length ev)"
    and "relay_step selected env now_hid now r = (r', Ret ())"
  shows "list_all (\<lambda>(_, c). now < rc_deadline c) (rl_clients r')"
proof -
  obtain q where q: "thenA (forA relay_ready selected) (thenA (relay_hid env (hid_timeout_fragment now_hid))
      (relay_hid env (hid_timeout_busy now_hid))) r = (q, Ret ())" "relay_expire env now q = (r', Ret ())"
    using assms(3) unfolding relay_step_def by (auto simp: thenA_def bindA_def split: prod.splits outcome.splits)
  have "relay_inv r" using assms(1) by (rule relay_service.reach_inv)
  moreover have "keeps relay_inv (thenA (forA relay_ready selected) (thenA (relay_hid env (hid_timeout_fragment now_hid))
      (relay_hid env (hid_timeout_busy now_hid))))"
    by (intro keeps_intros relay_hid_keeps hands_overs relay_ready_keeps)
  ultimately have "relay_inv q" using q(1) by (metis fst_conv keepsD)
  then obtain r'' where "relay_expire env now q = (r'', Ret ())"
    "rl_clients r'' = filter (\<lambda>(_, c). now < rc_deadline c) (rl_clients q)"
    using relay_expire_clients [OF assms(2)] by blast
  then show ?thesis using q(2) by (simp add: list_all_iff)
qed

theorem relay_step_deadlines_witness:
  "list_all (\<lambda>(_, c). (1 :: rat) < rc_deadline c)
     (rl_clients (fst (relay_step [] (sample_env (\<lambda>_. Ret JNull)) 1 1 relay_new)))"
proof (rule relay_step_deadlines)
  show "reach (\<lambda>r. r = relay_new) relay_runs relay_new" by (rule reach_init) (rule refl)
  show "\<forall>ev. re_uhid (sample_env (\<lambda>_. Ret JNull)) ev = Ret (length ev)" by (simp add: sample_env_def)
  show "relay_step [] (sample_env (\<lambda>_. Ret JNull)) 1 1 relay_new =
      (fst (relay_step [] (sample_env (\<lambda>_. Ret JNull)) 1 1 relay_new), Ret ())"
    by (simp add: relay_step_def relay_hid_def relay_expire_def relay_new_def hid_new_def
        hid_timeout_fragment_def hid_timeout_busy_def thenA_def bindA_def getA_def liftA_def updA_def retA_def)
qed

text \<open>A 64-byte report the kernel delivers through UHID reaches the transaction layer unchanged, also
  when hidraw has kept the leading report-id byte.\<close>

theorem uhid_output_delivered:
  assumes "length packet = 64"
  shows "device_receive env henv (Ret (uhid_output packet)) = relay_hid env (hid_receive henv packet) \<and>
    device_receive env henv (Ret (uhid_output (0 # packet))) = relay_hid env (hid_receive henv packet)"
proof -
  note f = uhid_output_fields [of packet] and f0 = uhid_output_fields [of "0 # packet"]
  have "py_slice 4 68 (ljust 4380 0 (uhid_output packet)) = packet"
    using f(5) [of 64 0] assms by (simp add: py_slice_def)
  moreover have "py_slice 5 69 (ljust 4380 0 (uhid_output (0 # packet))) = packet"
    using f0(5) [of 65 1] assms by (simp add: py_slice_def)
  moreover have "ljust 4380 0 (uhid_output (0 # packet)) ! 4 = 0"
    by (simp add: uhid_output_def ljust_def nth_append)
  ultimately show ?thesis
    using assms f f0 by (simp add: device_receive_def fun_eq_iff)
qed

theorem uhid_output_delivered_witness:
  "device_receive (sample_env (\<lambda>_. Ret JNull)) \<lparr>env_clock = 0, env_clock2 = 0, env_draws = [], env_uuid = ''u''\<rparr>
     (Ret (uhid_output (0 # replicate 64 7))) =
   relay_hid (sample_env (\<lambda>_. Ret JNull))
     (hid_receive \<lparr>env_clock = 0, env_clock2 = 0, env_draws = [], env_uuid = ''u''\<rparr> (replicate 64 7))"
  using uhid_output_delivered [of "replicate 64 7"] by simp

end
