(* ===== verification/Wifi_Scan.thy ===== *)
theory Wifi_Scan
  imports Pyvalue
begin

unbundle bit_operations_syntax

text \<open>
  \<^verbatim>\<open>guest/devices/wifi_scan.py\<close>: validation of the host's scan records (\<^verbatim>\<open>frequency\<close>, \<^verbatim>\<open>parse_bss\<close>), the
  agent call (\<^verbatim>\<open>agent_rpc\<close>) and the paginated \<^verbatim>\<open>scan\<close>.

  The n-th call of \<^verbatim>\<open>rpc\<close> with its request is a function parameter, so the pagination loop is a
  total function and its termination proof is that of the source loop. A loop over a byte string
  by offset is a recursion over the bytes not yet read.
\<close>

section \<open>Data\<close>

record bss =
  bss_network_id :: string
  bss_ssid :: bytes
  bss_bssid :: bytes
  bss_frequency_mhz :: int
  bss_signal_mbm :: int
  bss_information_elements :: bytes
  bss_open :: bool

section \<open>Frequencies\<close>

fun frequency :: "json \<Rightarrow> json \<Rightarrow> int outcome" where
  "frequency (JInt band) (JInt channel) =
     (if band = 1 \<and> 1 \<le> channel \<and> channel \<le> 13 then Ret (2407 + 5 * channel)
      else if band = 1 \<and> channel = 14 then Ret 2484
      else if band = 2 \<and> 1 \<le> channel \<and> channel \<le> 177 then Ret (5000 + 5 * channel)
      else if band = 3 \<and> channel = 2 then Ret 5935
      else if band = 3 \<and> 1 \<le> channel \<and> channel \<le> 233 then Ret (5950 + 5 * channel)
      else Exc (ValueError ''Unsupported channel/band''))"
| "frequency _ _ = Exc (ValueError ''Non-integer channel'')"

section \<open>Information elements\<close>

text \<open>
  The tag-length-value walk that \<^verbatim>\<open>parse_bss\<close> and \<^verbatim>\<open>wifi_link.compatible\<close> share:
  \<^verbatim>\<open>while offset < len(ies)\<close>, fail on a truncated element, else visit its tag and value.
\<close>

function tlv_walk :: "'a \<Rightarrow> (byte \<Rightarrow> bytes \<Rightarrow> 's \<Rightarrow> ('a, 's) sum) \<Rightarrow> bytes \<Rightarrow> 's \<Rightarrow> ('a, 's) sum" where
  "tlv_walk truncated visit ies s =
     (if ies = [] then Inr s
      else if length ies < 2 \<or> length ies < 2 + unat (ies ! 1) then Inl truncated
      else case visit (ies ! 0) (py_slice 2 (2 + unat (ies ! 1)) ies) s of
             Inl x \<Rightarrow> Inl x
           | Inr s' \<Rightarrow> tlv_walk truncated visit (drop (2 + unat (ies ! 1)) ies) s')"
  by pat_completeness auto
termination
  by (relation "measure (\<lambda>(_, _, ies, _). length ies)") auto

declare tlv_walk.simps [simp del]

text \<open>The body of the loop in \<^verbatim>\<open>parse_bss\<close>, with \<^verbatim>\<open>ssid_seen\<close> as its state.\<close>

definition visit_ssid :: "bytes \<Rightarrow> byte \<Rightarrow> bytes \<Rightarrow> bool \<Rightarrow> (exn, bool) sum" where
  "visit_ssid ssid tag value seen =
     (if tag = 0 then
        (if seen \<or> value \<noteq> ssid then Inl (ValueError ''Conflicting SSID information'') else Inr True)
      else Inr seen)"

definition check_elements :: "bytes \<Rightarrow> bytes \<Rightarrow> bytes outcome" where
  "check_elements ssid ies =
     (case tlv_walk (ValueError ''Truncated information element'') (visit_ssid ssid) ies False of
        Inl e \<Rightarrow> Exc e
      | Inr seen \<Rightarrow> Ret (if seen then ies else [0, word_of_nat (length ssid)] @ ssid @ ies))"

section \<open>Scan records\<close>

fun parse_address :: "json \<Rightarrow> bytes outcome" where
  "parse_address (JStr address) =
     (if \<not> six_octets (\<lambda>c. c = CHR '':'') address then Exc (ValueError ''Invalid BSSID'')
      else bindO (fromhex (str_remove (CHR '':'') address)) (\<lambda>bssid.
        if bssid ! 0 AND 1 \<noteq> 0 \<or> list_all (\<lambda>b. b = 0) bssid
        then Exc (ValueError ''BSSID is not a unicast address'') else Ret bssid))"
| "parse_address _ = Exc (ValueError ''Invalid BSSID'')"

fun parse_signal :: "json \<Rightarrow> int outcome" where
  "parse_signal (JInt signal) =
     (if - 127 \<le> signal \<and> signal \<le> 0 then Ret signal else Exc (ValueError ''Invalid signal strength''))"
| "parse_signal _ = Exc (ValueError ''Invalid signal strength'')"

fun json_str_value :: "json \<Rightarrow> string" where
  "json_str_value (JStr s) = s"
| "json_str_value _ = []"

definition parse_bss :: "json \<Rightarrow> bss outcome" where
  "parse_bss entry =
     bindO (jget entry ''open'') (\<lambda>op.
     if \<not> is_bool op then Exc (ValueError ''Host omitted network security classification'') else
     bindO (jitem entry ''networkID'') (\<lambda>network_id.
     bindO (check_uuid network_id) (\<lambda>_.
     bindO (jitem entry ''ssidBase64'') (\<lambda>ssid64.
     bindO (jb64decode ssid64) (\<lambda>ssid.
     if length ssid > 32 then Exc (ValueError ''SSID exceeds IEEE 802.11 limit'') else
     bindO (jitem entry ''bssid'') (\<lambda>address.
     bindO (parse_address address) (\<lambda>bssid.
     bindO (jitem entry ''signalDBm'') (\<lambda>dbm.
     bindO (parse_signal dbm) (\<lambda>signal.
     bindO (jitem entry ''informationElementsBase64'') (\<lambda>ies64.
     bindO (jb64decode ies64) (\<lambda>raw.
     if length raw > 4096 then Exc (ValueError ''Oversized information elements'') else
     bindO (check_elements ssid raw) (\<lambda>ies.
     bindO (jitem entry ''channelBand'') (\<lambda>band.
     bindO (jitem entry ''channel'') (\<lambda>channel.
     bindO (frequency band channel) (\<lambda>mhz.
       Ret \<lparr>bss_network_id = json_str_value network_id, bss_ssid = ssid, bss_bssid = bssid,
            bss_frequency_mhz = mhz, bss_signal_mbm = signal * 100, bss_information_elements = ies, bss_open = (op = JBool True)\<rparr>)))))))))))))))"

section \<open>The agent call\<close>

text \<open>\<^verbatim>\<open>line\<close> is what \<^verbatim>\<open>readline(16384)\<close> returned after the request was sent.\<close>

definition agent_rpc :: "(bytes \<Rightarrow> json outcome) \<Rightarrow> bytes outcome \<Rightarrow> json outcome" where
  "agent_rpc loads line =
     bindO line (\<lambda>data.
     if data = [] \<or> last data \<noteq> 10 then Exc (ValueError ''Truncated host reply'') else
     bindO (loads data) (\<lambda>result.
     bindO (jget result ''ok'') (\<lambda>ok.
       if \<not> truthy ok
       then bindO (jget result ''error'') (\<lambda>err.
              Exc (RuntimeError (case err of JStr s \<Rightarrow> s | _ \<Rightarrow> ''Host scan failed'')))
       else Ret result)))"

section \<open>Pagination\<close>

datatype scan_request = WifiScan | WifiScanPage json int

definition scan_total :: "json \<Rightarrow> json \<Rightarrow> int outcome" where
  "scan_total tot truncated =
     (case tot of
        JInt n \<Rightarrow> if 0 \<le> n \<and> n \<le> 256 \<and> \<not> truthy truncated then Ret n
                 else Exc (ValueError ''Incomplete or invalid scan size'')
      | _ \<Rightarrow> Exc (ValueError ''Incomplete or invalid scan size''))"

fun page_entries :: "json \<Rightarrow> json list outcome" where
  "page_entries (JList entries) = (if length entries > 2 then Exc (ValueError ''Invalid scan page'') else Ret entries)"
| "page_entries _ = Exc (ValueError ''Invalid scan page'')"

text \<open>One page: its records and the value of \<^verbatim>\<open>nextOffset\<close>.\<close>

definition scan_page :: "json \<Rightarrow> int \<Rightarrow> json \<Rightarrow> (bss list \<times> json) outcome" where
  "scan_page scan_id tot page =
     bindO (jitem page ''scanID'') (\<lambda>sid.
     if \<not> py_eq sid scan_id then Exc (ValueError ''Scan changed during pagination'') else
     bindO (jitem page ''total'') (\<lambda>val.
     if \<not> py_eq val (JInt tot) then Exc (ValueError ''Scan changed during pagination'') else
     bindO (jitem page ''networks'') (\<lambda>networks.
     bindO (page_entries networks) (\<lambda>entries.
     bindO (mapO parse_bss entries) (\<lambda>bs.
     bindO (jget page ''nextOffset'') (\<lambda>next_offset. Ret (bs, next_offset)))))))"

text \<open>The loop from the n-th call on, with the records so far. Each round advances the offset.\<close>

function scan_loop :: "(nat \<Rightarrow> scan_request \<Rightarrow> json outcome) \<Rightarrow> nat \<Rightarrow> json \<Rightarrow> int \<Rightarrow> bss list \<Rightarrow> json \<Rightarrow> bss list outcome" where
  "scan_loop rpc n scan_id tot records page =
     (case scan_page scan_id tot page of
        Ret (bs, next_offset) \<Rightarrow>
          (let records' = records @ bs; expected_offset = int (length records') in
           case next_offset of
             JNull \<Rightarrow> if expected_offset \<noteq> tot then Exc (ValueError ''Incomplete scan'') else Ret records'
           | JInt off \<Rightarrow>
               if off \<noteq> expected_offset \<or> bs = [] \<or> off \<ge> tot then Exc (ValueError ''Invalid scan cursor'')
               else (case rpc n (WifiScanPage scan_id off) of
                       Ret page' \<Rightarrow> scan_loop rpc (Suc n) scan_id tot records' page'
                     | Exc e \<Rightarrow> Exc e
                     | NoRet \<Rightarrow> NoRet)
           | _ \<Rightarrow> Exc (ValueError ''Invalid scan cursor''))
      | Exc e \<Rightarrow> Exc e
      | NoRet \<Rightarrow> NoRet)"
  by pat_completeness auto
termination
  by (relation "measure (\<lambda>(_, _, _, tot, records, _). nat tot - length records)")
    (simp, auto simp: neq_Nil_conv)

declare scan_loop.simps [simp del]

definition scan :: "(nat \<Rightarrow> scan_request \<Rightarrow> json outcome) \<Rightarrow> bss list outcome" where
  "scan rpc =
     bindO (rpc 0 WifiScan) (\<lambda>page.
     bindO (jitem page ''scanID'') (\<lambda>scan_id.
     bindO (check_uuid scan_id) (\<lambda>_.
     bindO (jitem page ''total'') (\<lambda>val.
     bindO (jget page ''truncated'') (\<lambda>truncated.
     bindO (scan_total val truncated) (\<lambda>tot.
       scan_loop rpc 1 scan_id tot [] page))))))"

section \<open>Information elements as a list\<close>

definition tlv_encode :: "(byte \<times> bytes) list \<Rightarrow> bytes" where
  "tlv_encode els = concat (map (\<lambda>(tag, value). [tag, word_of_nat (length value)] @ value) els)"

definition tlv_ok :: "(byte \<times> bytes) list \<Rightarrow> bool" where
  "tlv_ok els \<longleftrightarrow> list_all (\<lambda>(_, value). length value < 256) els"

fun foldE :: "('x \<Rightarrow> 's \<Rightarrow> ('a, 's) sum) \<Rightarrow> 'x list \<Rightarrow> 's \<Rightarrow> ('a, 's) sum" where
  "foldE f [] s = Inr s"
| "foldE f (x # xs) s = (case f x s of Inl a \<Rightarrow> Inl a | Inr s' \<Rightarrow> foldE f xs s')"

lemma tlv_encode_simps [simp]:
  "tlv_encode [] = []"
  "tlv_encode ((tag, value) # els) = tag # word_of_nat (length value) # value @ tlv_encode els"
  by (simp_all add: tlv_encode_def)

lemma tlv_ok_simps [simp]:
  "tlv_ok []" "tlv_ok ((tag, value) # els) \<longleftrightarrow> length value < 256 \<and> tlv_ok els"
  by (simp_all add: tlv_ok_def)

lemma tlv_walk_encode:
  "tlv_ok els \<Longrightarrow> tlv_walk t visit (tlv_encode els) s = foldE (\<lambda>(tag, value). visit tag value) els s"
proof (induction els arbitrary: s)
  case Nil
  show ?case by (simp add: tlv_walk.simps)
next
  case (Cons e els)
  obtain tag val where e: "e = (tag, val)" by (cases e)
  then have "unat (word_of_nat (length val) :: byte) = length val" "tlv_ok els"
    using Cons.prems by (simp_all add: unat_of_nat_byte)
  then show ?case
    using Cons.IH by (subst tlv_walk.simps) (simp add: e py_slice_def split: sum.splits)
qed

lemma tlv_walk_Inr:
  "tlv_walk t visit ies s = Inr s' \<Longrightarrow>
     \<exists>els. ies = tlv_encode els \<and> tlv_ok els \<and> foldE (\<lambda>(tag, value). visit tag value) els s = Inr s'"
proof (induction t visit ies s rule: tlv_walk.induct)
  case (1 t visit ies s)
  show ?case
  proof (cases "ies = []")
    case True
    then show ?thesis using 1(2) by (intro exI [of _ "[]"]) (simp add: tlv_walk.simps)
  next
    case False
    let ?n = "unat (ies ! 1)"
    let ?v = "py_slice 2 (2 + ?n) ies"
    have len: "\<not> (length ies < 2 \<or> length ies < 2 + ?n)"
      using 1(2) False by (subst (asm) tlv_walk.simps) (auto split: if_splits)
    then obtain s1 where s1: "visit (ies ! 0) ?v s = Inr s1" "tlv_walk t visit (drop (2 + ?n) ies) s1 = Inr s'"
      using 1(2) False by (subst (asm) tlv_walk.simps) (auto split: sum.splits)
    then obtain els where els: "drop (2 + ?n) ies = tlv_encode els" "tlv_ok els"
      "foldE (\<lambda>(tag, value). visit tag value) els s1 = Inr s'"
      using 1(1) [OF False len s1(1)] by blast
    obtain a b rest where ies: "ies = a # b # rest" using len False by (cases ies; cases "tl ies") auto
    have v: "length ?v = ?n" using len by (simp add: ies)
    have split: "rest = ?v @ drop ?n rest" by (simp add: ies py_slice_def)
    have "ies = tlv_encode ((ies ! 0, ?v) # els)"
      using els(1) v split by (simp add: ies)
    moreover have "tlv_ok ((ies ! 0, ?v) # els)" using els(2) v by simp
    ultimately show ?thesis using els(3) s1(1) by (intro exI [of _ "(ies ! 0, ?v) # els"]) simp
  qed
qed

lemma visit_ssid_fold:
  "foldE (\<lambda>(tag, value). visit_ssid ssid tag value) els seen = Inr seen' \<Longrightarrow>
     filter (\<lambda>e. fst e = 0) els = (if seen' \<and> \<not> seen then [(0, ssid)] else []) \<and> (seen \<longrightarrow> seen')"
proof (induction els arbitrary: seen)
  case (Cons e els)
  then obtain s1 where s1: "visit_ssid ssid (fst e) (snd e) seen = Inr s1"
    "foldE (\<lambda>(tag, value). visit_ssid ssid tag value) els s1 = Inr seen'"
    by (cases e) (auto split: sum.splits)
  show ?case using Cons.IH [OF s1(2)] s1(1) by (cases e) (auto simp: visit_ssid_def split: if_splits)
qed simp

text \<open>The one SSID element of a record's information elements is its SSID.\<close>

definition elements_ok :: "bytes \<Rightarrow> bytes \<Rightarrow> bool" where
  "elements_ok ssid ies \<longleftrightarrow>
     (\<exists>els. ies = tlv_encode els \<and> tlv_ok els \<and> filter (\<lambda>e. fst e = 0) els = [(0, ssid)])"

lemma check_elements_ok:
  assumes "check_elements ssid raw = Ret ies" "length ssid \<le> 32"
  shows "elements_ok ssid ies" "length ies \<le> length raw + 34"
proof -
  obtain seen where seen: "tlv_walk (ValueError ''Truncated information element'') (visit_ssid ssid) raw False = Inr seen"
    "ies = (if seen then raw else [0, word_of_nat (length ssid)] @ ssid @ raw)"
    using assms(1) by (auto simp: check_elements_def split: sum.splits)
  obtain els where els: "raw = tlv_encode els" "tlv_ok els" "foldE (\<lambda>(tag, value). visit_ssid ssid tag value) els False = Inr seen"
    using tlv_walk_Inr [OF seen(1)] by blast
  have "ies = tlv_encode (if seen then els else (0, ssid) # els)" using seen(2) els(1) by simp
  then show "elements_ok ssid ies"
    using els(2) visit_ssid_fold [OF els(3)] assms(2) unfolding elements_ok_def
    by (intro exI [of _ "if seen then els else (0, ssid) # els"]) simp
  show "length ies \<le> length raw + 34" using seen(2) assms(2) by simp
qed

lemma frequency_range:
  "frequency band channel = Ret f \<Longrightarrow> 2412 \<le> f \<and> f \<le> 7115"
  by (induction band channel rule: frequency.induct) (auto split: if_splits)

lemma parse_address_ok:
  "parse_address v = Ret bs \<Longrightarrow> length bs = 6 \<and> bs ! 0 AND 1 = 0 \<and> \<not> list_all (\<lambda>b. b = 0) bs"
  using hex_pairs_fromhex [of "\<lambda>c. c = CHR '':''" "CHR '':''" 5]
  by (cases v) (force simp: six_octets_def split: if_splits)+

lemma parse_signal_ok: "parse_signal v = Ret n \<Longrightarrow> - 127 \<le> n \<and> n \<le> 0"
  by (cases v) (auto split: if_splits)

definition wf_bss :: "bss \<Rightarrow> bool" where
  "wf_bss b \<longleftrightarrow> length (bss_ssid b) \<le> 32 \<and> length (bss_bssid b) = 6 \<and> bss_bssid b ! 0 AND 1 = 0 \<and>
     \<not> list_all (\<lambda>x. x = 0) (bss_bssid b) \<and> 2412 \<le> bss_frequency_mhz b \<and> bss_frequency_mhz b \<le> 7115 \<and>
     - 12700 \<le> bss_signal_mbm b \<and> bss_signal_mbm b \<le> 0 \<and> length (bss_information_elements b) \<le> 4130 \<and>
     elements_ok (bss_ssid b) (bss_information_elements b)"

lemma parse_bss_wf: "parse_bss entry = Ret b \<Longrightarrow> wf_bss b"
  unfolding parse_bss_def
  by (auto split: if_splits simp: wf_bss_def simp del: jitem.simps jget.simps
      dest!: parse_address_ok parse_signal_ok frequency_range)
     (auto dest: check_elements_ok)


section \<open>Pagination\<close>

lemma scan_page_Ret:
  "scan_page scan_id tot page = Ret (bs, next_offset) \<Longrightarrow> list_all wf_bss bs"
  by (auto simp: scan_page_def list_all_iff simp del: jitem.simps jget.simps split: if_splits
      dest!: mapO_set intro: parse_bss_wf)

lemma scan_loop_wf:
  "scan_loop rpc n scan_id tot records page = Ret rs \<Longrightarrow> list_all wf_bss records \<Longrightarrow>
     list_all wf_bss rs \<and> int (length rs) = tot"
proof (induction rpc n scan_id tot records page rule: scan_loop.induct)
  case (1 rpc n scan_id tot records page)
  obtain bs nxt where p: "scan_page scan_id tot page = Ret (bs, nxt)"
    using 1(2) by (subst (asm) scan_loop.simps) (auto split: outcome.splits)
  then have wf: "list_all wf_bss (records @ bs)" using scan_page_Ret 1(3) by auto
  show ?case
  proof (cases nxt)
    case JNull
    then show ?thesis using 1(2) p wf by (subst (asm) scan_loop.simps) (auto split: if_splits)
  next
    case (JInt off)
    have step: "\<not> (off \<noteq> int (length (records @ bs)) \<or> bs = [] \<or> off \<ge> tot)"
      using 1(2) p JInt by (subst (asm) scan_loop.simps) (auto simp: Let_def split: if_splits)
    then obtain page' where "rpc n (WifiScanPage scan_id off) = Ret page'"
      "scan_loop rpc (Suc n) scan_id tot (records @ bs) page' = Ret rs"
      using 1(2) p JInt by (subst (asm) scan_loop.simps) (auto simp: Let_def split: outcome.splits)
    then show ?thesis using 1(1) [OF p refl refl refl JInt step] wf by blast
  qed (use 1(2) p in \<open>subst (asm) scan_loop.simps, simp\<close>)+
qed

text \<open>
  A host that serves a list of entries in pages of \<open>k\<close>, with the cursor \<^verbatim>\<open>nextOffset\<close> until the list
  is exhausted.
\<close>

definition host_page :: "string \<Rightarrow> nat \<Rightarrow> json list \<Rightarrow> nat \<Rightarrow> json" where
  "host_page sid k entries off =
     JDict [(''scanID'', JStr sid), (''total'', JInt (int (length entries))),
            (''networks'', JList (take k (drop off entries))),
            (''nextOffset'', if off + k < length entries then JInt (int (off + k)) else JNull)]"

fun paged_host :: "string \<Rightarrow> nat \<Rightarrow> json list \<Rightarrow> nat \<Rightarrow> scan_request \<Rightarrow> json outcome" where
  "paged_host sid k entries n WifiScan = Ret (host_page sid k entries 0)"
| "paged_host sid k entries n (WifiScanPage _ off) = Ret (host_page sid k entries (nat off))"

lemma scan_page_host:
  "1 \<le> k \<Longrightarrow> k \<le> 2 \<Longrightarrow> scan_page (JStr sid) (int (length entries)) (host_page sid k entries off) =
     bindO (mapO parse_bss (take k (drop off entries))) (\<lambda>bs.
       Ret (bs, if off + k < length entries then JInt (int (off + k)) else JNull))"
  by (simp add: scan_page_def host_page_def num_eq_def)

lemma scan_loop_host:
  assumes k: "1 \<le> k" "k \<le> 2"
  shows "length records = off \<Longrightarrow> off \<le> length entries \<Longrightarrow>
    scan_loop (paged_host sid k entries) n (JStr sid) (int (length entries)) records (host_page sid k entries off) =
    bindO (mapO parse_bss (drop off entries)) (\<lambda>bs. Ret (records @ bs))"
proof (induction "length entries - off" arbitrary: off records n rule: less_induct)
  case less
  let ?tot = "int (length entries)"
  have split: "drop off entries = take k (drop off entries) @ drop (off + k) entries"
    by (metis append_take_drop_id drop_drop add.commute)
  show ?case
  proof (cases "mapO parse_bss (take k (drop off entries))")
    case (Ret bs)
    then have len: "length bs = min k (length entries - off)" using mapO_length by fastforce
    show ?thesis
    proof (cases "off + k < length entries")
      case True
      then have "length (records @ bs) = off + k" "bs \<noteq> []" using len less.prems k by auto
      moreover have "scan_loop (paged_host sid k entries) (Suc n) (JStr sid) ?tot (records @ bs) (host_page sid k entries (off + k)) =
          bindO (mapO parse_bss (drop (off + k) entries)) (\<lambda>cs. Ret ((records @ bs) @ cs))"
        using less.hyps [of "off + k" "records @ bs" "Suc n"] True calculation k by simp
      ultimately show ?thesis
        using True Ret k
        by (subst scan_loop.simps, subst split)
          (simp add: scan_page_host mapO_append bindO_assoc nat_int_add)
    next
      case False
      then have "length (records @ bs) = length entries" using len less.prems by auto
      then show ?thesis
        using False Ret k by (subst scan_loop.simps, subst split) (simp add: scan_page_host mapO_append)
    qed
  next
    case (Exc e)
    then show ?thesis using k by (subst scan_loop.simps, subst split) (simp add: scan_page_host mapO_append)
  next
    case NoRet
    then show ?thesis using k by (subst scan_loop.simps, subst split) (simp add: scan_page_host mapO_append)
  qed
qed

lemma scan_host_complete:
  assumes "1 \<le> k" "k \<le> 2" "length entries \<le> 256" "uuid_valid sid"
  shows "scan (paged_host sid k entries) = mapO parse_bss entries"
  using assms scan_loop_host [of k "[]" 0 entries sid 1]
  by (simp add: scan_def scan_total_def) (simp add: host_page_def)

lemma frequency_inj:
  assumes "frequency b c = Ret f" "frequency b' c' = Ret f"
  shows "b = b' \<and> c = c'"
proof -
  have ints: "\<exists>i j. x = JInt i \<and> y = JInt j" if "frequency x y = Ret f" for x y
    using that by (cases x; cases y) auto
  show ?thesis using ints [OF assms(1)] ints [OF assms(2)] assms by (auto split: if_splits)
qed

section \<open>Every call ends\<close>

lemma tlv_walk_Inl:
  "tlv_walk t visit ies s = Inl x \<Longrightarrow> x = t \<or> (\<exists>tag value s'. visit tag value s' = Inl x)"
proof (induction t visit ies s rule: tlv_walk.induct)
  case (1 t visit ies s)
  from 1(2) 1(1) show ?case
    by (subst (asm) tlv_walk.simps) (auto split: if_splits sum.splits)
qed

lemma ends_scan_parts [ends_intros]:
  "ends (parse_address v)" "ends (parse_signal v)" "ends (frequency v w)" "ends (check_elements ssid ies)"
  "ends (page_entries v)" "ends (scan_total v w)"
proof -
  show "ends (parse_address v)" by (cases v) (auto intro!: ends_intros)
  show "ends (parse_signal v)" "ends (page_entries v)" by (cases v; simp)+
  show "ends (frequency v w)" by (cases v; cases w; simp)
  show "ends (scan_total v w)" by (cases v; simp add: scan_total_def)
  show "ends (check_elements ssid ies)"
    by (auto simp: check_elements_def visit_ssid_def split: sum.splits if_splits dest!: tlv_walk_Inl)
qed

lemma ends_parse_bss [ends_intros]: "ends (parse_bss v)"
  unfolding parse_bss_def by (intro ends_intros) simp_all

lemma ends_scan_page: "ends (scan_page scan_id tot page)"
  unfolding scan_page_def by (intro ends_intros) simp_all

lemma ends_scan_loop:
  "(\<And>n req. ends (rpc n req)) \<Longrightarrow> ends (scan_loop rpc n scan_id tot records page)"
proof (induction rpc n scan_id tot records page rule: scan_loop.induct [case_names loop])
  case (loop rpc n scan_id tot records page)
  show ?case
  proof (cases "scan_page scan_id tot page")
    case (Ret x)
    obtain bs nxt where x: "x = (bs, nxt)" by (cases x)
    show ?thesis
    proof (cases nxt)
      case (JInt off)
      show ?thesis
      proof (cases "off \<noteq> int (length (records @ bs)) \<or> bs = [] \<or> off \<ge> tot")
        case True
        then show ?thesis using Ret x JInt by (subst scan_loop.simps) (auto simp: Let_def)
      next
        case False
        show ?thesis
        proof (cases "rpc n (WifiScanPage scan_id off)")
          case R: (Ret page')
          have "ends (scan_loop rpc (Suc n) scan_id tot (records @ bs) page')"
            using loop.IH [of x bs nxt "records @ bs" "int (length (records @ bs))" off page'] loop.prems Ret x JInt False R by simp
          then show ?thesis using Ret x JInt False R by (subst scan_loop.simps) (simp add: Let_def)
        qed (use Ret x JInt False loop.prems [of n "WifiScanPage scan_id off"] in \<open>subst scan_loop.simps, simp add: Let_def\<close>)+
      qed
    qed (use Ret x in \<open>subst scan_loop.simps, simp add: Let_def\<close>)+
  qed (use ends_scan_page [of scan_id tot page] in \<open>subst scan_loop.simps, simp\<close>)+
qed

lemma ends_scan [ends_intros]: "(\<And>n req. ends (rpc n req)) \<Longrightarrow> ends (scan rpc)"
  unfolding scan_def by (intro ends_intros ends_scan_loop)

section \<open>Properties\<close>

definition sample_entry :: json where
  "sample_entry = JDict [(''open'', JBool True), (''networkID'', JStr ''12345678-1234-1234-1234-123456789abc''),
     (''ssidBase64'', JStr (b64encode [97])), (''bssid'', JStr ''02:00:00:00:00:0a''), (''signalDBm'', JInt (- 40)),
     (''informationElementsBase64'', JStr (b64encode [0, 1, 97])), (''channelBand'', JInt 1), (''channel'', JInt 6)]"

definition sample_bss :: bss where
  "sample_bss = \<lparr>bss_network_id = ''12345678-1234-1234-1234-123456789abc'', bss_ssid = [97], bss_bssid = [2, 0, 0, 0, 0, 10],
     bss_frequency_mhz = 2437, bss_signal_mbm = - 4000, bss_information_elements = [0, 1, 97], bss_open = True\<rparr>"


lemma sample_checks:
  "uuid_valid ''12345678-1234-1234-1234-123456789abc''"
  "parse_address (JStr ''02:00:00:00:00:0a'') = Ret [2, 0, 0, 0, 0, 10]"
  "check_elements [97] [0, 1, 97] = Ret [0, 1, 97]"
  by code_simp+

lemma parse_sample: "parse_bss sample_entry = Ret sample_bss"
  by (simp add: parse_bss_def sample_entry_def sample_bss_def sample_checks b64_roundtrip
      del: parse_address.simps b64encode.simps b64decode.simps)

text \<open>C6: a host that serves at most 256 entries page by page (one or two per page) is read completely: \<^verbatim>\<open>scan\<close>
  returns the records of all entries in order, or the error of the first entry that is invalid.\<close>

theorem scan_paged:
  assumes "1 \<le> k" "k \<le> 2" "length entries \<le> 256" "uuid_valid sid"
  shows "scan (paged_host sid k entries) = mapO parse_bss entries"
  using assms by (rule scan_host_complete)

theorem scan_paged_witness:
  "scan (paged_host ''12345678-1234-1234-1234-123456789abc'' 2 [sample_entry, sample_entry, sample_entry])
     = Ret [sample_bss, sample_bss, sample_bss]"
  by (simp add: scan_paged sample_checks parse_sample)

text \<open>Whatever the host answers, the records \<^verbatim>\<open>scan\<close> returns are valid BSS descriptions (SSID of at most 32
  bytes, unicast address, supported frequency, bounded signal, well-formed information elements with exactly
  one SSID element, which is the SSID) and there are at most 256 of them.\<close>

theorem scan_valid:
  assumes "scan rpc = Ret rs"
  shows "list_all wf_bss rs \<and> length rs \<le> 256"
proof -
  obtain page scan_id tot val trunc where "scan_total val trunc = Ret tot" "scan_loop rpc 1 scan_id tot [] page = Ret rs"
    using assms by (auto simp: scan_def simp del: jitem.simps jget.simps)
  then show ?thesis
    using scan_loop_wf [of rpc 1 scan_id tot "[]" page rs] by (auto simp: scan_total_def split: json.splits if_splits)
qed

theorem scan_valid_witness:
  "\<exists>rs. scan (paged_host ''12345678-1234-1234-1234-123456789abc'' 2 [sample_entry, sample_entry, sample_entry]) = Ret rs
     \<and> list_all wf_bss rs \<and> length rs \<le> 256"
proof (intro exI conjI)
  let ?rpc = "paged_host ''12345678-1234-1234-1234-123456789abc'' 2 [sample_entry, sample_entry, sample_entry]"
  show eq: "scan ?rpc = Ret [sample_bss, sample_bss, sample_bss]"
    by (simp add: scan_host_complete sample_checks parse_sample)
  show "list_all wf_bss [sample_bss, sample_bss, sample_bss]" "length [sample_bss, sample_bss, sample_bss] \<le> 256"
    using scan_valid [OF eq] by simp_all
qed

end
