(* ===== verification/Timers.thy ===== *)
theory Timers
  imports Pyvalue
begin

text \<open>
  The named timeouts that \<^verbatim>\<open>WiFiEvents\<close>, \<^verbatim>\<open>BluetoothEvents\<close> and \<^verbatim>\<open>AudioEvents\<close> keep in their \<^verbatim>\<open>sources\<close>
  dictionary, with the same code in each class, and the host revision they all read from
  \<^verbatim>\<open>/run/linuxhost/status.json\<close>.

  The classes extend the record \<open>timers\<close>: \<open>tm_sources\<close> is the dictionary of the object,
  \<open>tm_glib\<close> the main loop's own table of live sources. A callback is a constructor of the class's
  callback datatype, run by the class when the main loop fires it.
\<close>

section \<open>Timers\<close>

record 'cb timers =
  tm_sources :: "(string \<times> nat) list"
  tm_glib :: "(nat \<times> string \<times> nat \<times> 'cb) list"
  tm_next :: nat
  tm_closed :: bool

text \<open>\<^verbatim>\<open>GLib.timeout_add\<close> and the other calls that install a source return a fresh positive id.\<close>

definition glib_add :: "string \<Rightarrow> nat \<Rightarrow> 'cb \<Rightarrow> (('cb, 'z) timers_scheme, unit) act" where
  "glib_add name ms cb = updA (\<lambda>s.
     s\<lparr>tm_sources := dset name (tm_next s) (tm_sources s),
       tm_glib := tm_glib s @ [(tm_next s, name, ms, cb)],
       tm_next := Suc (tm_next s)\<rparr>)"

definition later :: "string \<Rightarrow> nat \<Rightarrow> 'cb \<Rightarrow> (('cb, 'z) timers_scheme, unit) act" where
  "later name ms cb =
     bindA (getA (\<lambda>s. tm_closed s \<or> map_of (tm_sources s) name \<noteq> None)) (\<lambda>skip.
       if skip then retA () else glib_add name ms cb)"

definition remove_source :: "string \<Rightarrow> (('cb, 'z) timers_scheme, unit) act" where
  "remove_source name =
     bindA (getA (\<lambda>s. map_of (tm_sources s) name)) (\<lambda>found.
       case found of
         None \<Rightarrow> retA ()
       | Some ident \<Rightarrow> updA (\<lambda>s. s\<lparr>tm_sources := dpop name (tm_sources s), tm_glib := dpop ident (tm_glib s)\<rparr>))"

text \<open>
  The main loop fires a live source: \<^verbatim>\<open>invoke\<close> forgets the name, runs the callback unless the object
  is closed, and returns False, which removes the source from the loop.
\<close>

definition fire :: "('cb \<Rightarrow> (('cb, 'z) timers_scheme, unit) act) \<Rightarrow> nat \<Rightarrow> (('cb, 'z) timers_scheme, unit) act" where
  "fire run ident =
     bindA (getA (\<lambda>s. map_of (tm_glib s) ident)) (\<lambda>found.
       case found of
         None \<Rightarrow> retA ()
       | Some (name, _, cb) \<Rightarrow>
           thenA (updA (\<lambda>s. s\<lparr>tm_sources := dpop name (tm_sources s), tm_glib := dpop ident (tm_glib s)\<rparr>))
             (bindA (getA tm_closed) (\<lambda>closed. if closed then retA () else run cb)))"

definition close_sources :: "(('cb, 'z) timers_scheme, unit) act" where
  "close_sources =
     thenA (updA (\<lambda>s. s\<lparr>tm_closed := True\<rparr>))
       (bindA (getA tm_sources) (\<lambda>items. forA (\<lambda>(name, _). remove_source name) items))"

text \<open>The dictionary lists exactly the live sources of the loop; a closed object has none.\<close>

definition timers_ok :: "('cb, 'z) timers_scheme \<Rightarrow> bool" where
  "timers_ok s \<longleftrightarrow> tm_sources s = map (\<lambda>(ident, name, _). (name, ident)) (tm_glib s) \<and>
     wf_dict (tm_sources s) \<and> wf_dict (tm_glib s) \<and>
     list_all (\<lambda>(ident, _). 0 < ident \<and> ident < tm_next s) (tm_glib s) \<and> 0 < tm_next s"

definition pending :: "string \<Rightarrow> ('cb, 'z) timers_scheme \<Rightarrow> bool" where
  "pending name s \<longleftrightarrow> map_of (tm_sources s) name \<noteq> None"

section \<open>Lemmas\<close>

lemma glib_fresh: "timers_ok s \<Longrightarrow> tm_next s \<notin> fst ` set (tm_glib s)"
  by (auto simp: timers_ok_def list_all_iff)

lemma pending_iff: "pending name s \<longleftrightarrow> name \<in> fst ` set (tm_sources s)"
  by (auto simp: pending_def map_of_eq_None_iff)

lemma glib_add_ok:
  assumes "timers_ok s" "\<not> pending name s"
  shows "timers_ok (fst (glib_add name ms cb s))"
proof -
  have fresh: "name \<notin> fst ` set (tm_sources s)" using assms(2) by (simp add: pending_iff)
  then have "(i, name, q) \<notin> set (tm_glib s)" for i q using assms(1) by (force simp: timers_ok_def)
  then show ?thesis
    using assms(1) glib_fresh [OF assms(1)] fresh
    by (auto simp: timers_ok_def glib_add_def dset_fresh wf_dict_def list_all_iff)
qed

lemma later_ok [keeps_intros]: "keeps timers_ok (later name ms cb)"
  by (rule keepsI) (auto simp: later_def glib_add_ok pending_def)

lemma dpop_map_pair:
  assumes "wf_dict d" "wf_dict (map (\<lambda>(i, n, r). (n, i)) d)" "(i, n, r) \<in> set d"
  shows "map (\<lambda>(i, n, r). (n, i)) (dpop i d) = dpop n (map (\<lambda>(i, n, r). (n, i)) d)"
proof -
  have eq: "(j \<noteq> i) = (m \<noteq> n)" if "(j, m, q) \<in> set d" for j m q
  proof
    have "(n, i) \<in> set (map (\<lambda>(i, n, r). (n, i)) d)" "(m, j) \<in> set (map (\<lambda>(i, n, r). (n, i)) d)"
      using that assms(3) by force+
    then show "j \<noteq> i \<Longrightarrow> m \<noteq> n" using assms(2) unfolding wf_dict_def by (metis eq_key_imp_eq_value)
    show "m \<noteq> n \<Longrightarrow> j \<noteq> i"
      using that assms(1,3) unfolding wf_dict_def by (metis eq_key_imp_eq_value prod.inject)
  qed
  have "filter (\<lambda>(j, _). j \<noteq> i) d = filter (\<lambda>x. fst (snd x) \<noteq> n) d"
  proof (rule filter_cong [OF refl])
    fix x assume x: "x \<in> set d"
    obtain j m q where "x = (j, m, q)" by (rule prod_cases3)
    then show "(case x of (j, _) \<Rightarrow> j \<noteq> i) = (fst (snd x) \<noteq> n)" using eq [of j m q] x by simp
  qed
  then show ?thesis by (simp add: dpop_def filter_map comp_def case_prod_beta)
qed

lemma drop_source_ok:
  assumes "timers_ok s" "(ident, name, r) \<in> set (tm_glib s)"
  shows "timers_ok (s\<lparr>tm_sources := dpop name (tm_sources s), tm_glib := dpop ident (tm_glib s)\<rparr>)"
proof -
  have "map (\<lambda>(i, n, r). (n, i)) (dpop ident (tm_glib s)) = dpop name (tm_sources s)"
    using assms dpop_map_pair [of "tm_glib s" ident name r] by (auto simp: timers_ok_def)
  then show ?thesis using assms by (auto simp: timers_ok_def list_all_iff set_dpop)
qed

lemma source_in_glib:
  "timers_ok s \<Longrightarrow> map_of (tm_sources s) name = Some ident \<Longrightarrow> \<exists>r. (ident, name, r) \<in> set (tm_glib s)"
  by (force simp: timers_ok_def dest!: map_of_SomeD)

lemma remove_source_ok [keeps_intros]: "keeps timers_ok (remove_source name)"
  by (rule keepsI) (auto simp: remove_source_def split: option.splits dest: source_in_glib intro: drop_source_ok)

lemma fire_ok:
  assumes "\<And>cb. keeps timers_ok (run cb)"
  shows "keeps timers_ok (fire run ident)"
proof (rule keepsI)
  fix s :: "('a, 'b) timers_scheme" assume ok: "timers_ok s"
  show "timers_ok (fst (fire run ident s))"
  proof (cases "map_of (tm_glib s) ident")
    case (Some x)
    obtain name ms cb where x: "x = (name, ms, cb)" by (cases x)
    then have "timers_ok (s\<lparr>tm_sources := dpop name (tm_sources s), tm_glib := dpop ident (tm_glib s)\<rparr>)"
      using ok Some by (intro drop_source_ok) (auto dest: map_of_SomeD)
    then show ?thesis using Some x assms by (simp add: fire_def keepsD)
  qed (simp add: fire_def ok)
qed

lemma later_simps [simp]:
  "pending n (fst (later name ms cb s)) \<longleftrightarrow> pending n s \<or> n = name \<and> \<not> tm_closed s"
  "tm_closed (fst (later name ms cb s)) = tm_closed s"
  "snd (later name ms cb s) = Ret ()"
  "timers.more (fst (later name ms cb s)) = timers.more s"
  by (auto simp: later_def glib_add_def pending_def)

lemma remove_source_simps [simp]:
  "pending n (fst (remove_source name s)) \<longleftrightarrow> pending n s \<and> n \<noteq> name"
  "tm_closed (fst (remove_source name s)) = tm_closed s"
  "snd (remove_source name s) = Ret ()"
  "timers.more (fst (remove_source name s)) = timers.more s"
  by (auto simp: remove_source_def pending_def split: option.splits)

lemma thenA_Ret [simp]: "snd (m s) = Ret () \<Longrightarrow> thenA m k s = k (fst (m s))"
  by (cases "m s") (simp add: thenA_def bindA_def)

lemma remove_all:
  "\<exists>s'. forA (\<lambda>(name, _). remove_source name) items s = (s', Ret ()) \<and> tm_closed s' = tm_closed s \<and>
     timers.more s' = timers.more s \<and> (\<forall>n. pending n s' \<longleftrightarrow> pending n s \<and> n \<notin> fst ` set items)"
proof (induction items arbitrary: s)
  case (Cons item items)
  obtain name i where item: "item = (name, i)" by (cases item)
  show ?case using Cons.IH [of "fst (remove_source name s)"] by (auto simp: item)
qed simp

lemma close_sources_spec:
  assumes "timers_ok s"
  obtains s' where "close_sources s = (s', Ret ())" "tm_closed s'" "tm_sources s' = []" "tm_glib s' = []"
    "timers.more s' = timers.more s" "timers_ok s'"
proof -
  let ?s = "s\<lparr>tm_closed := True\<rparr>"
  obtain s' where s': "forA (\<lambda>(name, _). remove_source name) (tm_sources s) ?s = (s', Ret ())" "tm_closed s'"
    "timers.more s' = timers.more s" "\<forall>n. pending n s' \<longleftrightarrow> pending n ?s \<and> n \<notin> fst ` set (tm_sources s)"
    using remove_all [of "tm_sources s" ?s] by auto
  have k: "keeps timers_ok (forA (\<lambda>(name, _). remove_source name) (tm_sources s))"
    by (auto simp: case_prod_beta intro!: keeps_intros)
  have "timers_ok ?s" using assms unfolding timers_ok_def by simp metis
  then have "timers_ok s'" using keepsD [OF k] s'(1) by (metis fst_conv)
  moreover have "tm_sources s' = []"
  proof (cases "tm_sources s'")
    case (Cons x xs)
    then have "pending (fst x) s'" by (simp add: pending_iff)
    then show ?thesis using s'(4) by (auto simp: pending_iff)
  qed
  ultimately show thesis using that [of s'] s' by (auto simp: close_sources_def timers_ok_def)
qed

section \<open>The contract of an event object\<close>

text \<open>Every live source carries the callback its name stands for, and a closed object has none.\<close>

definition sources_ok :: "('cb \<Rightarrow> string) \<Rightarrow> ('cb, 'z) timers_scheme \<Rightarrow> bool" where
  "sources_ok cb_name s \<longleftrightarrow> timers_ok s \<and> list_all (\<lambda>(_, name, _, cb). name = cb_name cb) (tm_glib s) \<and>
     (tm_closed s \<longrightarrow> tm_glib s = [])"

lemma later_sources_ok: "name = cb_name cb \<Longrightarrow> keeps (sources_ok cb_name) (later name ms cb)"
proof (rule keepsI)
  fix s :: "('a, 'b) timers_scheme" assume "name = cb_name cb" "sources_ok cb_name s"
  then show "sources_ok cb_name (fst (later name ms cb s))"
    using keepsD [OF later_ok, of s name ms cb] by (auto simp: sources_ok_def later_def glib_add_def)
qed

lemma remove_source_sources_ok: "keeps (sources_ok cb_name) (remove_source name)"
proof (rule keepsI)
  fix s :: "('a, 'b) timers_scheme" assume "sources_ok cb_name s"
  then show "sources_ok cb_name (fst (remove_source name s))"
    using keepsD [OF remove_source_ok, of s name]
    by (auto simp: sources_ok_def remove_source_def list_all_iff set_dpop dpop_def split: option.splits)
qed

definition without_source :: "string \<Rightarrow> nat \<Rightarrow> ('cb, 'z) timers_scheme \<Rightarrow> ('cb, 'z) timers_scheme" where
  "without_source name ident s = s\<lparr>tm_sources := dpop name (tm_sources s), tm_glib := dpop ident (tm_glib s)\<rparr>"

lemma without_source_simps [simp]:
  "pending n (without_source name ident s) \<longleftrightarrow> pending n s \<and> n \<noteq> name"
  "tm_closed (without_source name ident s) = tm_closed s"
  "timers.more (without_source name ident s) = timers.more s"
  by (auto simp: without_source_def pending_def)

lemma without_source_ok:
  assumes "sources_ok cb_name s" "map_of (tm_glib s) ident = Some (name, ms, cb)"
  shows "sources_ok cb_name (without_source name ident s)" "name = cb_name cb"
proof -
  have m: "(ident, name, ms, cb) \<in> set (tm_glib s)" using assms(2) by (rule map_of_SomeD)
  then show "name = cb_name cb" using assms(1) by (auto simp: sources_ok_def list_all_iff)
  show "sources_ok cb_name (without_source name ident s)"
    using assms(1) drop_source_ok [OF _ m]
    by (auto simp: sources_ok_def without_source_def list_all_iff set_dpop) (auto simp: dpop_def)
qed

text \<open>
  What the three event classes promise: their callbacks keep the source table consistent, and after a
  callback has run, the object is again \<open>awake\<close>, that is, some source is pending that will make it look
  at the host again.
\<close>

locale event_object =
  fixes cb_name :: "'cb \<Rightarrow> string"
    and run :: "'e \<Rightarrow> 'cb \<Rightarrow> (('cb, 'z) timers_scheme, unit) act"
    and env_ok :: "'e \<Rightarrow> bool"
    and awake :: "('cb, 'z) timers_scheme \<Rightarrow> bool"
  assumes run_sources: "env_ok e \<Longrightarrow> keeps (sources_ok cb_name) (run e cb)"
    and run_awake: "env_ok e \<Longrightarrow> sources_ok cb_name s \<Longrightarrow> \<not> tm_closed s \<Longrightarrow> awake s \<Longrightarrow>
      awake (fst (run e cb (without_source (cb_name cb) ident s)))"
begin

definition inv :: "('cb, 'z) timers_scheme \<Rightarrow> bool" where
  "inv s \<longleftrightarrow> sources_ok cb_name s \<and> (tm_closed s \<or> awake s)"

lemma fire_inv:
  assumes "env_ok e"
  shows "keeps inv (fire (run e) ident)"
proof (rule keepsI)
  fix s assume s: "inv s"
  show "inv (fst (fire (run e) ident s))"
  proof (cases "map_of (tm_glib s) ident")
    case None
    then show ?thesis using s by (simp add: fire_def)
  next
    case (Some x)
    obtain name ms cb where x: "x = (name, ms, cb)" by (cases x)
    have open_s: "\<not> tm_closed s" using s Some by (auto simp: inv_def sources_ok_def)
    have w: "sources_ok cb_name (without_source name ident s)" "name = cb_name cb"
      using without_source_ok s Some x by (auto simp: inv_def)
    have "fst (fire (run e) ident s) = fst (run e cb (without_source name ident s))"
      using Some x open_s by (simp add: fire_def without_source_def)
    then show ?thesis
      using w s open_s keepsD [OF run_sources [OF assms] w(1)] run_awake [OF assms] by (simp add: inv_def)
  qed
qed

lemma call_inv:
  assumes "keeps (sources_ok cb_name) m" "\<And>s. tm_closed s \<Longrightarrow> tm_closed (fst (m s))"
    "\<And>s. \<not> tm_closed s \<Longrightarrow> awake s \<Longrightarrow> awake (fst (m s))"
  shows "keeps inv m"
  using assms by (auto simp: keeps_def inv_def)

lemma close_inv: "keeps inv close_sources"
proof (rule keepsI)
  fix s assume "inv s"
  then have "timers_ok s" by (simp add: inv_def sources_ok_def)
  then obtain s' where "close_sources s = (s', Ret ())" "tm_closed s'" "tm_sources s' = []" "tm_glib s' = []"
    "timers_ok s'"
    by (rule close_sources_spec)
  then show "inv (fst (close_sources s))" by (simp add: inv_def sources_ok_def timers_ok_def)
qed

end

section \<open>The host revision\<close>

type_synonym revision_key = "string \<times> json \<times> json"

text \<open>
  \<^verbatim>\<open>path.stat().st_mtime\<close>, \<^verbatim>\<open>time.time()\<close> and \<^verbatim>\<open>json.loads(path.read_text())\<close> are inputs; the value is
  the key and the seconds it is still valid for.
\<close>

record status_reading =
  st_mtime :: "time outcome"
  st_now :: time
  st_json :: "json outcome"

fun revision_result :: "json \<Rightarrow> json \<Rightarrow> json \<Rightarrow> json \<Rightarrow> json \<Rightarrow> time \<Rightarrow> revision_key option \<times> time" where
  "revision_result (JStr r) ok transport active wake age =
     (if ok = JBool True \<and> transport = JStr ''virtio-serial'' \<and> 0 < str_len r \<and> str_len r \<le> 128 \<and> age < 25
      then (Some (r, active, wake), max 1 (25 - age)) else (None, 0))"
| "revision_result _ ok transport active wake age = (None, 0)"

definition host_revision_of :: "string \<Rightarrow> status_reading \<Rightarrow> (revision_key option \<times> time) outcome" where
  "host_revision_of name st =
     catchO
       (bindO (st_mtime st) (\<lambda>mtime.
        bindO (st_json st) (\<lambda>value.
        bindO (jget value name) (\<lambda>revision.
        bindO (jget value ''ok'') (\<lambda>ok.
        bindO (jget value ''statusTransport'') (\<lambda>transport.
        bindO (jget value ''active'') (\<lambda>active.
        bindO (jget value ''wakeGeneration'') (\<lambda>wake.
          Ret (revision_result revision ok transport active wake (max 0 (st_now st - mtime)))))))))))
       (\<lambda>e. is_OSError e \<or> is_ValueError e \<or> is_AttributeError e) (\<lambda>_. Ret (None, 0))"

text \<open>Comparison of keys with \<^verbatim>\<open>==\<close>, and the session-active flag they carry.\<close>

fun key_eq :: "revision_key option \<Rightarrow> revision_key option \<Rightarrow> bool" where
  "key_eq None None = True"
| "key_eq (Some (r, a, w)) (Some (r', a', w')) = (r = r' \<and> py_eq a a' \<and> py_eq w w')"
| "key_eq _ _ = False"

fun key_active :: "revision_key option \<Rightarrow> bool" where
  "key_active None = True"
| "key_active (Some (_, a, _)) = (a \<noteq> JBool False)"

definition expiry_ms :: "time \<Rightarrow> nat" where
  "expiry_ms remaining = nat \<lfloor>remaining * 1000\<rfloor>"

lemma revision_result_key:
  "0 \<le> age \<Longrightarrow> revision_result r ok transport active wake age = (Some k, remaining) \<Longrightarrow> 1 \<le> remaining \<and> remaining \<le> 25"
  by (cases r) (auto split: if_splits)

lemma host_revision_key:
  assumes "host_revision_of name st = Ret (Some k, remaining)"
  shows "1 \<le> remaining \<and> remaining \<le> 25"
  using assms
  by (auto simp: host_revision_of_def catchO_eq_Ret simp del: revision_result.simps jget.simps
      dest!: revision_result_key [rotated])

text \<open>Reading the status file never fails when stat, read and decoding raise what the code expects.\<close>

lemma host_revision_Ret:
  assumes "may_raise (\<lambda>e. is_OSError e \<or> is_ValueError e \<or> is_AttributeError e) (st_mtime st)"
    "may_raise (\<lambda>e. is_OSError e \<or> is_ValueError e \<or> is_AttributeError e) (st_json st)"
  shows "\<exists>key remaining. host_revision_of name st = Ret (key, remaining)"
proof -
  have get: "may_raise (\<lambda>e. is_OSError e \<or> is_ValueError e \<or> is_AttributeError e) (jget v k)" for v k
    by (cases v) auto
  have "\<exists>x. host_revision_of name st = Ret x"
    unfolding host_revision_of_def by (rule may_raise_catch) (auto intro!: may_raise_bind assms get simp del: jget.simps)
  then show ?thesis by auto
qed

lemma expiry_bounds: "1 \<le> r \<Longrightarrow> r \<le> 25 \<Longrightarrow> 1000 \<le> expiry_ms r \<and> expiry_ms r \<le> 25000"
proof -
  assume r: "1 \<le> r" "r \<le> 25"
  have "1000 \<le> \<lfloor>r * 1000\<rfloor>" using r by (simp add: le_floor_iff)
  moreover have "\<lfloor>r * 1000\<rfloor> \<le> 25000" using r by (simp add: floor_le_iff)
  ultimately show ?thesis unfolding expiry_ms_def by linarith
qed

end
