(* ===== verification/Host_Events.thy ===== *)
theory Host_Events
  imports Timers
begin

text \<open>
  The invalidation sources of the Wi-Fi and Bluetooth bridges: \<^verbatim>\<open>guest/devices/wifi_events.py\<close>
  (\<^verbatim>\<open>WiFiEvents\<close>) and \<^verbatim>\<open>guest/devices/bluetooth_events.py\<close> (\<^verbatim>\<open>BluetoothEvents\<close>).

  The callbacks a class hands to the main loop are the constructors of its callback datatype; the
  client callbacks \<^verbatim>\<open>changed\<close> and \<^verbatim>\<open>heartbeat\<close> are counted. Whether the directory monitor could be
  installed and what the status file holds are inputs of a step. Log lines are not modelled.
\<close>

record host_env =
  ev_status :: status_reading
  ev_monitor :: bool

section \<open>Wi-Fi events\<close>

definition wifi_host_revision :: "status_reading \<Rightarrow> (revision_key option \<times> time) outcome" where
  "wifi_host_revision = host_revision_of ''wifiRevision''"

datatype wifi_cb = WifiFallback | WifiReadHost | WifiWatch

record wifi_events = "wifi_cb timers" +
  we_key :: "revision_key option"
  we_mode :: "string option"
  we_watching :: bool
  we_changed :: nat

definition wifi_new :: wifi_events where
  "wifi_new = \<lparr>tm_sources = [], tm_glib = [], tm_next = 1, tm_closed = False,
     we_key = None, we_mode = None, we_watching = False, we_changed = 0\<rparr>"

definition wifi_active :: "wifi_events \<Rightarrow> bool" where
  "wifi_active s = key_active (we_key s)"

definition wifi_remove :: "string \<Rightarrow> (wifi_events, unit) act" where
  "wifi_remove = remove_source"

definition wifi_later :: "string \<Rightarrow> nat \<Rightarrow> wifi_cb \<Rightarrow> (wifi_events, unit) act" where
  "wifi_later = later"

definition wifi_notify :: "(wifi_events, unit) act" where
  "wifi_notify = updA (\<lambda>s. s\<lparr>we_changed := Suc (we_changed s)\<rparr>)"

definition wifi_fallback :: "(wifi_events, unit) act" where
  "wifi_fallback = thenA wifi_notify (wifi_later ''fallback'' 1000 WifiFallback)"

definition wifi_mode :: "revision_key option \<Rightarrow> string" where
  "wifi_mode key = (if key \<noteq> None then ''events'' else ''compatibility polling'')"

definition wifi_read_host :: "host_env \<Rightarrow> (wifi_events, unit) act" where
  "wifi_read_host env =
     thenA (wifi_remove ''expiry'')
     (bindA (liftA (wifi_host_revision (ev_status env))) (\<lambda>(key, remaining).
      bindA (getA (\<lambda>s. \<not> key_eq key (we_key s) \<or> we_mode s \<noteq> Some (wifi_mode key))) (\<lambda>transition.
      thenA (updA (\<lambda>s. s\<lparr>we_key := key, we_mode := Some (wifi_mode key)\<rparr>))
      (thenA (if key \<noteq> None
              then thenA (wifi_remove ''fallback'') (wifi_later ''expiry'' (expiry_ms remaining) WifiReadHost)
              else wifi_later ''fallback'' 1000 WifiFallback)
      (if transition then wifi_notify else retA ())))))"

definition wifi_watch :: "host_env \<Rightarrow> (wifi_events, unit) act" where
  "wifi_watch env =
     thenA (updA (\<lambda>s. s\<lparr>we_watching := False\<rparr>))
     (thenA (if ev_monitor env then updA (\<lambda>s. s\<lparr>we_watching := True\<rparr>) else wifi_later ''watch'' 1000 WifiWatch)
            (wifi_read_host env))"

text \<open>Whether the changed paths include the status directory and the status file.\<close>

definition wifi_status_changed :: "host_env \<Rightarrow> bool \<Rightarrow> bool \<Rightarrow> (wifi_events, unit) act" where
  "wifi_status_changed env parent file =
     thenA (if parent then wifi_later ''watch'' 1000 WifiWatch else retA ())
           (if file \<or> parent then wifi_read_host env else retA ())"

definition wifi_close :: "(wifi_events, unit) act" where
  "wifi_close = thenA close_sources (updA (\<lambda>s. s\<lparr>we_watching := False\<rparr>))"

fun wifi_run :: "host_env \<Rightarrow> wifi_cb \<Rightarrow> (wifi_events, unit) act" where
  "wifi_run env WifiFallback = wifi_fallback"
| "wifi_run env WifiReadHost = wifi_read_host env"
| "wifi_run env WifiWatch = wifi_watch env"

section \<open>Bluetooth events\<close>

definition bluetooth_host_revision :: "status_reading \<Rightarrow> (revision_key option \<times> time) outcome" where
  "bluetooth_host_revision = host_revision_of ''bluetoothRevision''"

datatype bt_cb = BtChanged | BtNotify | BtReconcile | BtReadHost | BtWatch

record bt_events = "bt_cb timers" +
  be_key :: "revision_key option"
  be_mode :: "string option"
  be_watching :: bool
  be_heartbeat :: bool
  be_changed :: nat
  be_heartbeats :: nat

definition bt_new :: "bool \<Rightarrow> bt_events" where
  "bt_new heartbeat = \<lparr>tm_sources = [], tm_glib = [], tm_next = 1, tm_closed = False,
     be_key = None, be_mode = None, be_watching = False, be_heartbeat = heartbeat, be_changed = 0, be_heartbeats = 0\<rparr>"

definition bt_active :: "bt_events \<Rightarrow> bool" where
  "bt_active s = key_active (be_key s)"

definition bt_remove_source :: "string \<Rightarrow> (bt_events, unit) act" where
  "bt_remove_source = remove_source"

definition bt_later :: "string \<Rightarrow> nat \<Rightarrow> bt_cb \<Rightarrow> (bt_events, unit) act" where
  "bt_later = later"

definition bt_notify :: "(bt_events, unit) act" where
  "bt_notify = bt_later ''refresh'' 40 BtChanged"

definition bt_retry :: "(bt_events, unit) act" where
  "bt_retry = bindA (getA bt_active) (\<lambda>active. if active then bt_later ''retry'' 2000 BtNotify else retA ())"

definition bt_reconcile :: "(bt_events, unit) act" where
  "bt_reconcile =
     thenA (bindA (getA bt_active) (\<lambda>active. if active then bt_notify else retA ()))
     (bindA (getA be_key) (\<lambda>key. bt_later ''reconcile'' (if key \<noteq> None then 60000 else 2000) BtReconcile))"

definition bt_mode :: "revision_key option \<Rightarrow> string" where
  "bt_mode key = (if key \<noteq> None then ''events (60-second reconciliation)'' else ''compatibility polling'')"

text \<open>The change of mode, the change of key and the heartbeat of \<^verbatim>\<open>read_host\<close>.\<close>

definition bt_set_mode :: "revision_key option \<Rightarrow> (bt_events, unit) act" where
  "bt_set_mode key =
     bindA (getA be_mode) (\<lambda>mode.
       if mode \<noteq> Some (bt_mode key) then
         thenA (updA (\<lambda>s. s\<lparr>be_mode := Some (bt_mode key)\<rparr>))
         (thenA (bt_remove_source ''reconcile'')
         (thenA (bt_later ''reconcile'' (if key \<noteq> None then 60000 else 2000) BtReconcile)
                bt_notify))
       else retA ())"

definition bt_set_key :: "revision_key option \<Rightarrow> (bt_events, unit) act" where
  "bt_set_key key =
     bindA (getA be_key) (\<lambda>old.
       if \<not> key_eq key old then thenA (updA (\<lambda>s. s\<lparr>be_key := key\<rparr>)) bt_notify else retA ())"

definition bt_beat :: "(bt_events, unit) act" where
  "bt_beat = updA (\<lambda>s. if be_heartbeat s then s\<lparr>be_heartbeats := Suc (be_heartbeats s)\<rparr> else s)"

definition bt_read_host :: "host_env \<Rightarrow> (bt_events, unit) act" where
  "bt_read_host env =
     thenA (bt_remove_source ''expiry'')
     (bindA (liftA (bluetooth_host_revision (ev_status env))) (\<lambda>(key, remaining).
      thenA (bt_set_mode key)
      (thenA (bt_set_key key)
      (if key \<noteq> None then thenA (bt_later ''expiry'' (expiry_ms remaining) BtReadHost) bt_beat
       else retA ()))))"

definition bt_watch_status :: "host_env \<Rightarrow> (bt_events, unit) act" where
  "bt_watch_status env =
     thenA (updA (\<lambda>s. s\<lparr>be_watching := False\<rparr>))
     (thenA (if ev_monitor env then updA (\<lambda>s. s\<lparr>be_watching := True\<rparr>) else bt_later ''watch'' 1000 BtWatch)
            (bt_read_host env))"

definition bt_status_changed :: "host_env \<Rightarrow> bool \<Rightarrow> bool \<Rightarrow> (bt_events, unit) act" where
  "bt_status_changed env parent file =
     thenA (if parent then bt_later ''watch'' 1000 BtWatch else retA ())
           (if file \<or> parent then bt_read_host env else retA ())"

definition bt_close :: "(bt_events, unit) act" where
  "bt_close = thenA close_sources (updA (\<lambda>s. s\<lparr>be_watching := False\<rparr>))"

fun bt_run :: "host_env \<Rightarrow> bt_cb \<Rightarrow> (bt_events, unit) act" where
  "bt_run env BtChanged = updA (\<lambda>s. s\<lparr>be_changed := Suc (be_changed s)\<rparr>)"
| "bt_run env BtNotify = bt_notify"
| "bt_run env BtReconcile = bt_reconcile"
| "bt_run env BtReadHost = bt_read_host env"
| "bt_run env BtWatch = bt_watch_status env"

section \<open>The event objects never fall asleep\<close>

definition env_ok :: "host_env \<Rightarrow> bool" where
  "env_ok env \<longleftrightarrow>
     may_raise (\<lambda>e. is_OSError e \<or> is_ValueError e \<or> is_AttributeError e) (st_mtime (ev_status env)) \<and>
     may_raise (\<lambda>e. is_OSError e \<or> is_ValueError e \<or> is_AttributeError e) (st_json (ev_status env))"

lemma env_ok_revision: "env_ok env \<Longrightarrow> \<exists>key remaining. host_revision_of name (ev_status env) = Ret (key, remaining)"
  by (simp add: env_ok_def host_revision_Ret)

lemma sources_ok_fields [simp]:
  fixes s :: wifi_events
  shows "sources_ok n (s\<lparr>we_key := k\<rparr>) = sources_ok n s" "sources_ok n (s\<lparr>we_mode := m\<rparr>) = sources_ok n s"
    "sources_ok n (s\<lparr>we_watching := w\<rparr>) = sources_ok n s" "sources_ok n (s\<lparr>we_changed := c\<rparr>) = sources_ok n s"
    "pending p (s\<lparr>we_key := k\<rparr>) = pending p s" "pending p (s\<lparr>we_mode := m\<rparr>) = pending p s"
    "pending p (s\<lparr>we_watching := w\<rparr>) = pending p s" "pending p (s\<lparr>we_changed := c\<rparr>) = pending p s"
  by (simp_all add: sources_ok_def timers_ok_def pending_def)

fun wifi_cb_name :: "wifi_cb \<Rightarrow> string" where
  "wifi_cb_name WifiFallback = ''fallback''"
| "wifi_cb_name WifiReadHost = ''expiry''"
| "wifi_cb_name WifiWatch = ''watch''"

text \<open>Once the host state has been read, a timer is pending that will read it again or poll.\<close>

definition wifi_awake :: "wifi_events \<Rightarrow> bool" where
  "wifi_awake s \<longleftrightarrow> (we_mode s \<noteq> None \<longrightarrow> pending (if we_key s \<noteq> None then ''expiry'' else ''fallback'') s)"

lemma wifi_field_later [simp]:
  fixes s :: wifi_events
  shows "we_key (fst (later n ms cb s)) = we_key s" "we_mode (fst (later n ms cb s)) = we_mode s"
    "we_key (fst (remove_source n s)) = we_key s" "we_mode (fst (remove_source n s)) = we_mode s"
    "we_key (without_source n i s) = we_key s" "we_mode (without_source n i s) = we_mode s"
  by (simp_all add: later_def glib_add_def remove_source_def without_source_def split: option.splits)

lemmas wifi_ops = wifi_remove_def wifi_later_def wifi_notify_def

lemma wifi_read_host_sources [keeps_intros]: "keeps (sources_ok wifi_cb_name) (wifi_read_host env)"
  unfolding wifi_read_host_def wifi_ops
  by (auto intro!: keeps_intros remove_source_sources_ok later_sources_ok keeps_upd split: prod.splits)

lemma wifi_read_host_awake:
  assumes "env_ok env" "\<not> tm_closed s"
  shows "wifi_awake (fst (wifi_read_host env s))"
proof -
  obtain key remaining where "wifi_host_revision (ev_status env) = Ret (key, remaining)"
    using env_ok_revision [OF assms(1)] unfolding wifi_host_revision_def by blast
  then show ?thesis
    using assms(2) by (auto simp: wifi_read_host_def wifi_ops wifi_awake_def)
qed

lemma wifi_watch_awake: "env_ok env \<Longrightarrow> \<not> tm_closed s \<Longrightarrow> wifi_awake (fst (wifi_watch env s))"
  by (simp add: wifi_watch_def wifi_ops wifi_read_host_awake)

lemma wifi_fallback_awake:
  "\<not> tm_closed s \<Longrightarrow> wifi_awake s \<Longrightarrow> wifi_awake (fst (wifi_fallback (without_source ''fallback'' ident s)))"
  by (auto simp: wifi_fallback_def wifi_ops wifi_awake_def)

interpretation wifi_object: event_object wifi_cb_name wifi_run env_ok wifi_awake
proof
  fix e cb
  assume ok: "env_ok e"
  show "keeps (sources_ok wifi_cb_name) (wifi_run e cb)"
    by (cases cb) (auto simp: wifi_fallback_def wifi_watch_def wifi_ops
        intro!: keeps_intros remove_source_sources_ok later_sources_ok keeps_upd)
  fix s :: wifi_events and ident
  assume "sources_ok wifi_cb_name s" "\<not> tm_closed s" "wifi_awake s"
  then show "wifi_awake (fst (wifi_run e cb (without_source (wifi_cb_name cb) ident s)))"
    using ok by (cases cb) (simp_all add: wifi_read_host_awake wifi_watch_awake wifi_fallback_awake)
qed

section \<open>Bluetooth\<close>

lemma bt_fields [simp]:
  fixes s :: bt_events
  shows "sources_ok n (s\<lparr>be_key := k\<rparr>) = sources_ok n s" "sources_ok n (s\<lparr>be_mode := m\<rparr>) = sources_ok n s"
    "sources_ok n (s\<lparr>be_watching := w\<rparr>) = sources_ok n s" "sources_ok n (s\<lparr>be_changed := c\<rparr>) = sources_ok n s"
    "sources_ok n (s\<lparr>be_heartbeats := c\<rparr>) = sources_ok n s"
    "pending p (s\<lparr>be_key := k\<rparr>) = pending p s" "pending p (s\<lparr>be_mode := m\<rparr>) = pending p s"
    "pending p (s\<lparr>be_watching := w\<rparr>) = pending p s" "pending p (s\<lparr>be_changed := c\<rparr>) = pending p s"
    "pending p (s\<lparr>be_heartbeats := c\<rparr>) = pending p s"
    "be_key (fst (later x ms cb s)) = be_key s" "be_mode (fst (later x ms cb s)) = be_mode s"
    "be_key (fst (remove_source x s)) = be_key s" "be_mode (fst (remove_source x s)) = be_mode s"
    "be_key (without_source x i s) = be_key s" "be_mode (without_source x i s) = be_mode s"
  by (simp_all add: sources_ok_def timers_ok_def pending_def later_def glib_add_def remove_source_def without_source_def
      split: option.splits)

fun bt_cb_name :: "bt_cb \<Rightarrow> string" where
  "bt_cb_name BtChanged = ''refresh''"
| "bt_cb_name BtNotify = ''retry''"
| "bt_cb_name BtReconcile = ''reconcile''"
| "bt_cb_name BtReadHost = ''expiry''"
| "bt_cb_name BtWatch = ''watch''"

definition bt_awake :: "bt_events \<Rightarrow> bool" where
  "bt_awake s \<longleftrightarrow> (be_mode s \<noteq> None \<longrightarrow> pending ''reconcile'' s) \<and> (be_key s \<noteq> None \<longrightarrow> pending ''expiry'' s)"

lemmas bt_ops = bt_remove_source_def bt_later_def bt_notify_def

lemma bt_set_mode_effect:
  assumes "\<not> tm_closed s" "be_mode s \<noteq> None \<longrightarrow> pending ''reconcile'' s"
  shows "snd (bt_set_mode key s) = Ret ()" "pending ''reconcile'' (fst (bt_set_mode key s))"
    "\<not> tm_closed (fst (bt_set_mode key s))" "be_mode (fst (bt_set_mode key s)) \<noteq> None"
    "be_key (fst (bt_set_mode key s)) = be_key s"
  using assms by (auto simp: bt_set_mode_def bt_ops)

lemma key_eq_None: "key_eq k k' \<Longrightarrow> (k = None) = (k' = None)"
  by (cases k; cases k') auto

lemma bt_set_key_effect:
  assumes "\<not> tm_closed s"
  shows "snd (bt_set_key key s) = Ret ()" "pending ''reconcile'' s \<Longrightarrow> pending ''reconcile'' (fst (bt_set_key key s))"
    "\<not> tm_closed (fst (bt_set_key key s))" "be_mode (fst (bt_set_key key s)) = be_mode s"
    "(be_key (fst (bt_set_key key s)) = None) = (key = None)"
  using assms key_eq_None [of key "be_key s"] by (auto simp: bt_set_key_def bt_ops)

lemma bt_read_host_awake:
  assumes "env_ok env" "\<not> tm_closed s" "be_mode s \<noteq> None \<longrightarrow> pending ''reconcile'' s"
  shows "bt_awake (fst (bt_read_host env s))"
proof -
  obtain key remaining where kr: "bluetooth_host_revision (ev_status env) = Ret (key, remaining)"
    using env_ok_revision [OF assms(1)] unfolding bluetooth_host_revision_def by blast
  define s1 where "s1 = fst (remove_source ''expiry'' s)"
  have s1: "\<not> tm_closed s1" "be_mode s1 \<noteq> None \<longrightarrow> pending ''reconcile'' s1"
    using assms(2,3) by (auto simp: s1_def)
  note m = bt_set_mode_effect [OF s1, of key]
  note k = bt_set_key_effect [OF m(3), of key]
  have "fst (bt_read_host env s) =
      (if key \<noteq> None then fst (bt_beat (fst (later ''expiry'' (expiry_ms remaining) BtReadHost (fst (bt_set_key key (fst (bt_set_mode key s1)))))))
       else fst (bt_set_key key (fst (bt_set_mode key s1))))"
    using kr m(1) k(1) by (simp add: bt_read_host_def bt_ops s1_def)
  then show ?thesis
    using k(2) [OF m(2)] k(3,5) by (auto simp: bt_awake_def bt_beat_def)
qed

lemma bt_read_host_sources [keeps_intros]: "keeps (sources_ok bt_cb_name) (bt_read_host env)"
  unfolding bt_read_host_def bt_set_mode_def bt_set_key_def bt_beat_def bt_ops
  by (auto intro!: keeps_intros remove_source_sources_ok later_sources_ok keeps_upd split: prod.splits)

lemma bt_watch_awake:
  assumes "env_ok env" "\<not> tm_closed s" "be_mode s \<noteq> None \<longrightarrow> pending ''reconcile'' s"
  shows "bt_awake (fst (bt_watch_status env s))"
  using assms by (simp add: bt_watch_status_def bt_ops bt_read_host_awake)

lemma bt_reconcile_awake:
  "\<not> tm_closed s \<Longrightarrow> bt_awake s \<Longrightarrow> bt_awake (fst (bt_reconcile (without_source ''reconcile'' ident s)))"
  by (auto simp: bt_reconcile_def bt_ops bt_awake_def)

interpretation bt_object: event_object bt_cb_name bt_run env_ok bt_awake
proof
  fix e cb
  assume ok: "env_ok e"
  show "keeps (sources_ok bt_cb_name) (bt_run e cb)"
    by (cases cb) (auto simp: bt_reconcile_def bt_watch_status_def bt_ops
        intro!: keeps_intros remove_source_sources_ok later_sources_ok keeps_upd)
  fix s :: bt_events and ident
  assume s: "sources_ok bt_cb_name s" "\<not> tm_closed s" "bt_awake s"
  show "bt_awake (fst (bt_run e cb (without_source (bt_cb_name cb) ident s)))"
  proof (cases cb)
    case BtChanged
    then show ?thesis using s by (simp add: bt_awake_def)
  next
    case BtNotify
    then show ?thesis using s by (simp add: bt_awake_def bt_ops)
  qed (use s ok in \<open>simp_all add: bt_read_host_awake bt_watch_awake bt_reconcile_awake bt_awake_def [of s]\<close>)
qed

section \<open>Steps\<close>

text \<open>What the main loop does with an event object: start its watch, fire a source, deliver a change of the
  status directory, close it.\<close>

datatype loop_event = Watch host_env | Fire host_env nat | StatusChanged host_env bool bool | Close

fun loop_env :: "loop_event \<Rightarrow> host_env option" where
  "loop_env (Watch env) = Some env"
| "loop_env (Fire env _) = Some env"
| "loop_env (StatusChanged env _ _) = Some env"
| "loop_env Close = None"

definition loop_event_ok :: "loop_event \<Rightarrow> bool" where
  "loop_event_ok ev \<longleftrightarrow> (\<forall>env \<in> set_option (loop_env ev). env_ok env)"

fun wifi_handle :: "loop_event \<Rightarrow> (wifi_events, unit) act" where
  "wifi_handle (Watch env) = wifi_watch env"
| "wifi_handle (Fire env ident) = fire (wifi_run env) ident"
| "wifi_handle (StatusChanged env parent file) = wifi_status_changed env parent file"
| "wifi_handle Close = wifi_close"

fun bt_handle :: "loop_event \<Rightarrow> (bt_events, unit) act" where
  "bt_handle (Watch env) = bt_watch_status env"
| "bt_handle (Fire env ident) = fire (bt_run env) ident"
| "bt_handle (StatusChanged env parent file) = bt_status_changed env parent file"
| "bt_handle Close = bt_close"

inductive wifi_step :: "wifi_events \<Rightarrow> wifi_events \<Rightarrow> bool" where
  wifi_stepI: "loop_event_ok ev \<Longrightarrow> wifi_step s (fst (wifi_handle ev s))"

inductive bt_step :: "bt_events \<Rightarrow> bt_events \<Rightarrow> bool" where
  bt_stepI: "loop_event_ok ev \<Longrightarrow> bt_step s (fst (bt_handle ev s))"

inductive_cases wifi_stepE: "wifi_step s t"
inductive_cases bt_stepE: "bt_step s t"

lemma closed_later: "tm_closed s \<Longrightarrow> later n ms cb s = (s, Ret ())"
  by (simp add: later_def)

lemma wifi_watch_sources: "keeps (sources_ok wifi_cb_name) (wifi_watch env)"
  unfolding wifi_watch_def wifi_ops by (auto intro!: keeps_intros later_sources_ok keeps_upd)

lemma wifi_status_changed_sources: "keeps (sources_ok wifi_cb_name) (wifi_status_changed env parent file)"
  unfolding wifi_status_changed_def wifi_ops by (auto intro!: keeps_intros later_sources_ok keeps_upd)

lemma wifi_closed_mono: "tm_closed s \<Longrightarrow> tm_closed (fst (wifi_read_host env s))"
  by (simp add: wifi_read_host_def wifi_ops split: outcome.splits prod.splits)

lemma wifi_status_changed_awake:
  "env_ok env \<Longrightarrow> \<not> tm_closed s \<Longrightarrow> wifi_awake s \<Longrightarrow> wifi_awake (fst (wifi_status_changed env parent file s))"
  by (cases "file \<or> parent") (auto simp: wifi_status_changed_def wifi_ops wifi_read_host_awake)

lemma wifi_close_inv: "keeps wifi_object.inv wifi_close"
proof -
  have "keeps wifi_object.inv (updA (\<lambda>s. s\<lparr>we_watching := False\<rparr>))"
    by (rule keeps_upd) (simp add: wifi_object.inv_def wifi_awake_def)
  then show ?thesis unfolding wifi_close_def by (intro keeps_then wifi_object.close_inv)
qed

lemma wifi_handle_inv: "loop_event_ok ev \<Longrightarrow> keeps wifi_object.inv (wifi_handle ev)"
proof (cases ev)
  case (Watch env)
  assume "loop_event_ok ev"
  then show ?thesis using Watch unfolding wifi_handle.simps Watch
    by (intro wifi_object.call_inv wifi_watch_sources wifi_watch_awake)
      (simp_all add: loop_event_ok_def wifi_watch_def wifi_ops wifi_closed_mono)
next
  case (StatusChanged env parent f)
  assume "loop_event_ok ev"
  then show ?thesis using StatusChanged unfolding wifi_handle.simps StatusChanged
    by (intro wifi_object.call_inv wifi_status_changed_sources wifi_status_changed_awake)
      (simp_all add: loop_event_ok_def wifi_status_changed_def wifi_ops wifi_closed_mono)
qed (simp_all add: loop_event_ok_def wifi_object.fire_inv wifi_close_inv)

lemma bt_watch_sources: "keeps (sources_ok bt_cb_name) (bt_watch_status env)"
  unfolding bt_watch_status_def bt_ops by (auto intro!: keeps_intros later_sources_ok keeps_upd)

lemma bt_status_changed_sources: "keeps (sources_ok bt_cb_name) (bt_status_changed env parent file)"
  unfolding bt_status_changed_def bt_ops by (auto intro!: keeps_intros later_sources_ok keeps_upd)

lemma bt_closed_mono: "tm_closed s \<Longrightarrow> tm_closed (fst (bt_read_host env s))"
  by (simp add: bt_read_host_def bt_ops bt_set_mode_def bt_set_key_def bt_beat_def closed_later
      split: outcome.splits prod.splits)

lemma bt_status_changed_awake:
  "env_ok env \<Longrightarrow> \<not> tm_closed s \<Longrightarrow> bt_awake s \<Longrightarrow> bt_awake (fst (bt_status_changed env parent file s))"
  by (cases "file \<or> parent")
    (simp_all add: bt_status_changed_def bt_ops bt_read_host_awake bt_awake_def [of s])

lemma bt_close_inv: "keeps bt_object.inv bt_close"
proof -
  have "keeps bt_object.inv (updA (\<lambda>s. s\<lparr>be_watching := False\<rparr>))"
    by (rule keeps_upd) (simp add: bt_object.inv_def bt_awake_def)
  then show ?thesis unfolding bt_close_def by (intro keeps_then bt_object.close_inv)
qed

lemma bt_handle_inv: "loop_event_ok ev \<Longrightarrow> keeps bt_object.inv (bt_handle ev)"
proof (cases ev)
  case (Watch env)
  assume "loop_event_ok ev"
  then show ?thesis using Watch unfolding bt_handle.simps Watch
    by (intro bt_object.call_inv bt_watch_sources bt_watch_awake)
      (simp_all add: loop_event_ok_def bt_watch_status_def bt_ops bt_closed_mono bt_awake_def)
next
  case (StatusChanged env parent f)
  assume "loop_event_ok ev"
  then show ?thesis using StatusChanged unfolding bt_handle.simps StatusChanged
    by (intro bt_object.call_inv bt_status_changed_sources bt_status_changed_awake)
      (simp_all add: loop_event_ok_def bt_status_changed_def bt_ops bt_closed_mono)
qed (simp_all add: loop_event_ok_def bt_object.fire_inv bt_close_inv)

interpretation wifi_loop: service "\<lambda>s. s = wifi_new" wifi_step wifi_object.inv
proof
  show "s = wifi_new \<Longrightarrow> wifi_object.inv s" for s
    by (simp add: wifi_new_def wifi_object.inv_def sources_ok_def timers_ok_def wifi_awake_def)
  show "wifi_object.inv s \<Longrightarrow> wifi_step s t \<Longrightarrow> wifi_object.inv t" for s t
    by (erule wifi_stepE) (simp add: keepsD [OF wifi_handle_inv])
qed

interpretation bt_loop: service "\<lambda>s. s = bt_new hb" bt_step bt_object.inv
proof
  show "s = bt_new hb \<Longrightarrow> bt_object.inv s" for s
    by (simp add: bt_new_def bt_object.inv_def sources_ok_def timers_ok_def bt_awake_def)
  show "bt_object.inv s \<Longrightarrow> bt_step s t \<Longrightarrow> bt_object.inv t" for s t
    by (erule bt_stepE) (simp add: keepsD [OF bt_handle_inv])
qed

section \<open>Properties\<close>

lemma sources_distinct: "timers_ok s \<Longrightarrow> distinct (map fst (tm_sources s)) \<and> distinct (map fst (tm_glib s))"
  by (auto simp: timers_ok_def wf_dict_def)

text \<open>Whatever the status file holds and whatever order the main loop calls it in, the Wi-Fi event object
  never falls asleep: once it has read the host, and until it is closed, the timer that reads the host again
  (or polls it) is pending; the source dictionary lists exactly the live sources of the main loop; and a closed
  object has no live source left.\<close>

theorem wifi_events_awake:
  assumes "reach (\<lambda>s. s = wifi_new) wifi_step s"
  shows "tm_sources s = map (\<lambda>(ident, name, _). (name, ident)) (tm_glib s) \<and>
    (tm_closed s \<longrightarrow> tm_glib s = []) \<and>
    (\<not> tm_closed s \<and> we_mode s \<noteq> None \<longrightarrow> pending (if we_key s \<noteq> None then ''expiry'' else ''fallback'') s)"
proof -
  have "wifi_object.inv s" using assms by (rule wifi_loop.reach_inv)
  then show ?thesis unfolding wifi_object.inv_def sources_ok_def timers_ok_def wifi_awake_def by blast
qed

definition sample_host :: host_env where
  "sample_host = \<lparr>ev_status = \<lparr>st_mtime = Ret 100, st_now = 101,
       st_json = Ret (JDict [(''ok'', JBool True), (''statusTransport'', JStr ''virtio-serial''),
         (''wifiRevision'', JStr ''r1''), (''bluetoothRevision'', JStr ''b1''), (''active'', JBool True)])\<rparr>,
     ev_monitor = True\<rparr>"

theorem wifi_events_awake_witness:
  "we_mode (fst (wifi_handle (Watch sample_host) wifi_new)) = Some ''events'' \<and>
   pending ''expiry'' (fst (wifi_handle (Watch sample_host) wifi_new))"
proof -
  let ?s = "fst (wifi_handle (Watch sample_host) wifi_new)"
  have "wifi_step wifi_new ?s" by (rule wifi_stepI) (simp add: loop_event_ok_def env_ok_def sample_host_def)
  then have r: "reach (\<lambda>s. s = wifi_new) wifi_step ?s" by (rule reach_step [OF reach_init [of "\<lambda>s. s = wifi_new", OF refl]])
  have "we_mode ?s = Some ''events'' \<and> we_key ?s \<noteq> None \<and> \<not> tm_closed ?s"
    by (simp add: sample_host_def wifi_new_def wifi_watch_def wifi_read_host_def wifi_ops wifi_host_revision_def
        host_revision_of_def wifi_mode_def str_len_def utf8_continuation_def)
  then show ?thesis using wifi_events_awake [OF r] by simp
qed

text \<open>Likewise the Bluetooth event object: once it has read the host, and until it is closed, the periodic
  reconciliation is pending, and while the host key is valid so is its expiry.\<close>

theorem bt_events_awake:
  assumes "reach (\<lambda>s. s = bt_new hb) bt_step s"
  shows "tm_sources s = map (\<lambda>(ident, name, _). (name, ident)) (tm_glib s) \<and>
    (tm_closed s \<longrightarrow> tm_glib s = []) \<and>
    (\<not> tm_closed s \<and> be_mode s \<noteq> None \<longrightarrow> pending ''reconcile'' s) \<and>
    (\<not> tm_closed s \<and> be_key s \<noteq> None \<longrightarrow> pending ''expiry'' s)"
proof -
  have "bt_object.inv s" using assms by (rule bt_loop.reach_inv)
  then show ?thesis unfolding bt_object.inv_def sources_ok_def timers_ok_def bt_awake_def by blast
qed

theorem bt_events_awake_witness:
  "be_mode (fst (bt_handle (Watch sample_host) (bt_new True))) \<noteq> None \<and>
   pending ''reconcile'' (fst (bt_handle (Watch sample_host) (bt_new True)))"
proof -
  let ?s = "fst (bt_handle (Watch sample_host) (bt_new True))"
  have "bt_step (bt_new True) ?s" by (rule bt_stepI) (simp add: loop_event_ok_def env_ok_def sample_host_def)
  then have r: "reach (\<lambda>s. s = bt_new True) bt_step ?s"
    by (rule reach_step [OF reach_init [of "\<lambda>s. s = bt_new True", OF refl]])
  have "be_mode ?s \<noteq> None \<and> \<not> tm_closed ?s"
    by (simp add: sample_host_def bt_new_def bt_watch_status_def bt_read_host_def bt_ops bluetooth_host_revision_def
        host_revision_of_def bt_set_mode_def bt_set_key_def bt_beat_def bt_mode_def str_len_def utf8_continuation_def)
  then show ?thesis using bt_events_awake [OF r] by simp
qed

end
