(* ===== verification/Wifi_Link.thy ===== *)
theory Wifi_Link
  imports Wifi_Scan Host_Events
begin

unbundle bit_operations_syntax

text \<open>
  \<^verbatim>\<open>guest/devices/wifi_link.py\<close>: the security check of a scan record (\<^verbatim>\<open>compatible\<close>), the host's association
  identity, the report handed to the cfg80211 driver, the follower that keeps the kernel's link in step with
  the host (\<^verbatim>\<open>LinkFollower\<close>) and the inotify watch of the status file (\<^verbatim>\<open>StatusWatch\<close>).

  The ioctls, the clock and the host calls are inputs; the payloads written with \<^verbatim>\<open>REPORT_LINK\<close> are a log.
\<close>

section \<open>Constants\<close>

definition CONNECTED :: byte where "CONNECTED = 1"
definition PRIVATE :: byte where "PRIVATE = 2"
definition PINNED :: byte where "PINNED = 4"
definition BUSY :: byte where "BUSY = 8"
definition CCMP :: bytes where "CCMP = [0x00, 0x0f, 0xac, 0x04]"
definition PSK :: bytes where "PSK = [0x00, 0x0f, 0xac, 0x02]"

section \<open>Security of a scan record\<close>

text \<open>The body of the element loop of \<^verbatim>\<open>compatible\<close>: the RSN elements seen and whether WPA was.\<close>

definition visit_security :: "byte \<Rightarrow> bytes \<Rightarrow> bytes list \<times> bool \<Rightarrow> (unit, bytes list \<times> bool) sum" where
  "visit_security tag value = (\<lambda>(rsns, wpa).
     Inr (if tag = 48 then rsns @ [value] else rsns,
          wpa \<or> tag = 221 \<and> take 4 value = [0x00, 0x50, 0xf2, 0x01]))"

text \<open>\<^verbatim>\<open>for required in (CCMP, PSK)\<close>, on the bytes from \<^verbatim>\<open>offset\<close> on; the value is what is left after it.\<close>

fun rsn_suites :: "bytes list \<Rightarrow> bytes \<Rightarrow> bytes option" where
  "rsn_suites [] rest = Some rest"
| "rsn_suites (required # others) rest =
     (if length rest < 2 then None else
      let count = from_le (take 2 rest); body = drop 2 rest in
      if count = 0 \<or> count > length body div 4 then None
      else if required \<notin> set (map (\<lambda>i. py_slice i (i + 4) body) (range_step 0 (count * 4) 4)) then None
      else rsn_suites others (drop (count * 4) body))"

definition rsn_ok :: "bytes \<Rightarrow> bool" where
  "rsn_ok value \<longleftrightarrow>
     \<not> (length value < 18 \<or> take 2 value \<noteq> [1, 0] \<or> py_slice 2 6 value \<noteq> CCMP) \<and>
     (case rsn_suites [CCMP, PSK] (drop 6 value) of
        None \<Rightarrow> False
      | Some rest \<Rightarrow> rest = [] \<or> length rest \<ge> 2 \<and> from_le (take 2 rest) AND 64 = 0)"

definition compatible :: "bss \<Rightarrow> bool \<Rightarrow> bool" where
  "compatible record private =
     (case tlv_walk () visit_security (bss_information_elements record) ([], False) of
        Inl _ \<Rightarrow> False
      | Inr (rsns, wpa) \<Rightarrow>
          if \<not> private then bss_open record \<and> rsns = [] \<and> \<not> wpa
          else if bss_open record \<or> length rsns \<noteq> 1 then False
          else rsn_ok (rsns ! 0))"

section \<open>Association identity\<close>

fun str_or_default :: "json \<Rightarrow> string outcome" where
  "str_or_default (JStr s) = Ret s"
| "str_or_default _ = Exc (AttributeError ''replace'')"

definition get_default :: "json \<Rightarrow> string \<Rightarrow> json \<Rightarrow> json outcome" where
  "get_default state k dflt =
     (case state of
        JDict d \<Rightarrow> Ret (case map_of d k of None \<Rightarrow> dflt | Some v \<Rightarrow> v)
      | _ \<Rightarrow> Exc (AttributeError ''get''))"

definition identity :: "json \<Rightarrow> (bytes \<times> bytes) option outcome" where
  "identity state =
     bindO (jget state ''locationAuthorized'') (\<lambda>auth.
     if auth \<noteq> JBool True then Exc (RuntimeError ''Host Wi-Fi identity unavailable'') else
     bindO (jget state ''networkIdentityAvailable'') (\<lambda>avail.
     if \<not> truthy avail then Ret None else
     bindO (get_default state ''ssidBase64'' (JStr [])) (\<lambda>ssid64.
     bindO (jb64decode ssid64) (\<lambda>ssid.
     bindO (get_default state ''bssid'' (JStr [])) (\<lambda>bssid.
     bindO (str_or_default bssid) (\<lambda>text.
     bindO (fromhex (str_remove (CHR '':'') text)) (\<lambda>address.
     if \<not> (1 \<le> length ssid \<and> length ssid \<le> 32) \<or> length address \<noteq> 6 \<or> list_all (\<lambda>b. b = 0) address \<or>
        address ! 0 AND 1 \<noteq> 0
     then Exc (ValueError ''Invalid host association identity'')
     else Ret (Some (ssid, address)))))))))"

definition actual_bss :: "bss list \<Rightarrow> bytes \<Rightarrow> bytes \<Rightarrow> bool \<Rightarrow> bss outcome" where
  "actual_bss records target address private =
     (case filter (\<lambda>r. bss_ssid r = target \<and> bss_bssid r = address \<and> compatible r private) records of
        [r] \<Rightarrow> Ret r
      | _ \<Rightarrow> Exc (RuntimeError ''Associated AP lacks a matching supported security record''))"

section \<open>The report to the driver\<close>

text \<open>\<^verbatim>\<open>struct.pack\<close> of an unsigned field of \<open>w\<close> bytes, of a signed 32-bit field, and of a fixed byte string.\<close>

definition pack_u :: "nat \<Rightarrow> int \<Rightarrow> bytes outcome" where
  "pack_u w v = (if 0 \<le> v \<and> v < 256 ^ w then Ret (to_le w (nat v)) else Exc (StructError ''argument out of range''))"

definition pack_i32 :: "int \<Rightarrow> bytes outcome" where
  "pack_i32 v = (if - 2147483648 \<le> v \<and> v < 2147483648 then Ret (to_le 4 (nat (v mod 4294967296)))
     else Exc (StructError ''argument out of range''))"

definition pack_s :: "nat \<Rightarrow> bytes \<Rightarrow> bytes outcome" where
  "pack_s n bs = Ret (take n (ljust n 0 bs))"

text \<open>\<^verbatim>\<open>REPORT = struct.Struct('<IBBHIiHH6s32s')\<close>.\<close>

definition pack_report :: "int \<Rightarrow> int \<Rightarrow> int \<Rightarrow> int \<Rightarrow> int \<Rightarrow> int \<Rightarrow> int \<Rightarrow> int \<Rightarrow> bytes \<Rightarrow> bytes \<Rightarrow> bytes outcome" where
  "pack_report sequence state ssid_len ies_len mhz mbm caps reserved bssid ssid =
     bindO (mapO id [pack_u 4 sequence, pack_u 1 state, pack_u 1 ssid_len, pack_u 2 ies_len, pack_u 4 mhz,
       pack_i32 mbm, pack_u 2 caps, pack_u 2 reserved, pack_s 6 bssid, pack_s 32 ssid]) (\<lambda>parts. Ret (concat parts))"

definition report_payload :: "int \<Rightarrow> int \<Rightarrow> bss option \<Rightarrow> bytes outcome" where
  "report_payload sequence state record =
     (case record of
        None \<Rightarrow> pack_report sequence state 0 0 0 0 0 0 (replicate 6 0) (replicate 32 0)
      | Some r \<Rightarrow>
          bindO (pack_report sequence state (int (length (bss_ssid r))) (int (length (bss_information_elements r)))
              (bss_frequency_mhz r) (bss_signal_mbm r) (if bss_open r then 1 else 17) 0 (bss_bssid r) (bss_ssid r))
            (\<lambda>header. Ret (header @ bss_information_elements r)))"

section \<open>Following the host's link\<close>

record link_follower =
  lf_missing :: "(int \<times> time) option"
  lf_reports :: "bytes list"

record link_env =
  le_clock :: time
  le_ioctl :: "unit outcome"
  le_scan :: "nat \<Rightarrow> scan_request \<Rightarrow> json outcome"
  le_status :: "json outcome"

type_synonym link = "int \<times> byte \<times> bytes \<times> bytes"

definition follower_new :: link_follower where
  "follower_new = \<lparr>lf_missing = None, lf_reports = []\<rparr>"

definition report :: "link_env \<Rightarrow> int \<Rightarrow> int \<Rightarrow> bss option \<Rightarrow> (link_follower, unit) act" where
  "report env sequence state record =
     bindA (liftA (report_payload sequence state record)) (\<lambda>payload.
     thenA (liftA (le_ioctl env)) (updA (\<lambda>f. f\<lparr>lf_reports := lf_reports f @ [payload]\<rparr>)))"

text \<open>\<^verbatim>\<open>LINK = struct.Struct('<IBBH6s32s')\<close>: 46 bytes filled in by the \<^verbatim>\<open>GET_LINK\<close> ioctl.\<close>

definition snapshot :: "bytes \<Rightarrow> link outcome" where
  "snapshot data =
     (let sequence = int (from_le (take 4 data)); flags = data ! 4; len = unat (data ! 5);
          reserved = from_le (py_slice 6 8 data); address = py_slice 8 14 data; ssid = py_slice 14 46 data in
      if flags AND NOT 15 \<noteq> 0 \<or> reserved \<noteq> 0 \<or> len > 32 \<or>
         flags AND CONNECTED \<noteq> 0 \<and> (len = 0 \<or> length address \<noteq> 6 \<or> list_all (\<lambda>b. b = 0) address \<or> address ! 0 AND 1 \<noteq> 0)
      then Exc (ValueError ''Invalid kernel link snapshot'')
      else Ret (sequence, flags, address, take len ssid))"

text \<open>
  The identity gap of \<^verbatim>\<open>update\<close>: whether the method returns early, waiting for confirmation.
\<close>

definition confirm_missing :: "link_env \<Rightarrow> int \<Rightarrow> (link_follower, bool) act" where
  "confirm_missing env sequence =
     bindA (getA lf_missing) (\<lambda>missing.
       case missing of
         Some (seq, deadline) \<Rightarrow>
           if seq \<noteq> sequence
           then thenA (updA (\<lambda>f. f\<lparr>lf_missing := Some (sequence, le_clock env + 1)\<rparr>)) (retA True)
           else retA (le_clock env < deadline)
       | None \<Rightarrow> thenA (updA (\<lambda>f. f\<lparr>lf_missing := Some (sequence, le_clock env + 1)\<rparr>)) (retA True))"

definition follow_roam :: "link_env \<Rightarrow> link \<Rightarrow> bytes \<times> bytes \<Rightarrow> (link_follower, unit) act" where
  "follow_roam env link current =
     (case link of (sequence, flags, address, target) \<Rightarrow>
        bindA (liftA (scan (le_scan env))) (\<lambda>records.
        bindA (liftA (actual_bss records target (snd current) (flags AND PRIVATE \<noteq> 0))) (\<lambda>selected.
        bindA (liftA (bindO (le_status env) identity)) (\<lambda>again.
          if again \<noteq> Some current then retA () else report env sequence 1 (Some selected)))))"

definition follower_update :: "link_env \<Rightarrow> link \<Rightarrow> json \<Rightarrow> (link_follower, unit) act" where
  "follower_update env link state =
     (case link of (sequence, flags, address, target) \<Rightarrow>
        if flags AND CONNECTED = 0 \<or> flags AND BUSY \<noteq> 0
        then updA (\<lambda>f. f\<lparr>lf_missing := None\<rparr>)
        else bindA (liftA (identity state)) (\<lambda>current.
          case current of
            None \<Rightarrow>
              bindA (confirm_missing env sequence) (\<lambda>wait.
                if wait then retA ()
                else thenA (updA (\<lambda>f. f\<lparr>lf_missing := None\<rparr>)) (report env sequence 0 None))
          | Some (ssid, host_address) \<Rightarrow>
              thenA (updA (\<lambda>f. f\<lparr>lf_missing := None\<rparr>))
              (if ssid \<noteq> target \<or> flags AND PINNED \<noteq> 0 \<and> host_address \<noteq> address
               then report env sequence 0 None
               else if host_address = address then retA ()
               else follow_roam env link (ssid, host_address))))"

section \<open>The status watch\<close>

record status_watch =
  sw_open :: bool
  sw_key :: "revision_key option"

text \<open>The result of \<^verbatim>\<open>inotify_init1\<close> and, when it succeeded, of \<^verbatim>\<open>inotify_add_watch\<close>: 0 or the errno.\<close>

definition watch_open :: "int \<Rightarrow> int \<Rightarrow> (status_watch, unit) act" where
  "watch_open init_error watch_error =
     bindA (getA sw_open) (\<lambda>already.
       if already then retA ()
       else if init_error \<noteq> 0 then excA (OSError init_error ''Wi-Fi status inotify initialization failed'')
       else if watch_error \<noteq> 0 then
         (if watch_error = 2 then retA () else excA (OSError watch_error ''Wi-Fi status directory watch failed''))
       else updA (\<lambda>w. w\<lparr>sw_open := True\<rparr>))"

text \<open>The events of one read: 16-byte headers (\<^verbatim>\<open>iIII\<close>) with their names; whether the watch was lost.\<close>

function watch_events :: "bool \<Rightarrow> bytes \<Rightarrow> bool outcome" where
  "watch_events invalid data =
     (if data = [] then Ret invalid
      else if length data < 16 then Exc (ValueError ''Incomplete status event'')
      else let mask = from_le (py_slice 4 8 data); len = from_le (py_slice 12 16 data) in
        if 16 + len > length data then Exc (ValueError ''Incomplete status name'')
        else watch_events (invalid \<or> mask AND 0xCC00 \<noteq> 0) (drop (16 + len) data))"
  by pat_completeness auto
termination
  by (relation "measure (\<lambda>(_, data). length data)") auto

declare watch_events.simps [simp del]

text \<open>\<^verbatim>\<open>while True: os.read\<close> until it would block, over what the successive reads return.\<close>

fun watch_drain :: "bool \<Rightarrow> bytes outcome list \<Rightarrow> bool outcome" where
  "watch_drain invalid [] = NoRet"
| "watch_drain invalid (r # reads) =
     (case r of
        Exc BlockingIOError \<Rightarrow> Ret invalid
      | Exc e \<Rightarrow> Exc e
      | NoRet \<Rightarrow> NoRet
      | Ret data \<Rightarrow>
          if data = [] then Exc (OSError 0 ''Wi-Fi status watch closed'')
          else bindO (watch_events invalid data) (\<lambda>invalid'. watch_drain invalid' reads))"

definition watch_close :: "(status_watch, unit) act" where
  "watch_close = updA (\<lambda>w. w\<lparr>sw_open := False\<rparr>)"

definition watch_changed :: "bytes outcome list \<Rightarrow> status_reading \<Rightarrow> (status_watch, bool) act" where
  "watch_changed reads st =
     bindA (getA sw_open) (\<lambda>is_open.
     bindA (if is_open then liftA (watch_drain False reads) else retA False) (\<lambda>invalid.
     thenA (if invalid then watch_close else retA ())
     (bindA (liftA (wifi_host_revision st)) (\<lambda>(key, _).
      bindA (getA (\<lambda>w. \<not> key_eq key (sw_key w))) (\<lambda>changed.
      thenA (updA (\<lambda>w. w\<lparr>sw_key := key\<rparr>)) (retA (invalid \<or> changed)))))))"

section \<open>Security elements\<close>

lemma range_step_mult: "0 < s \<Longrightarrow> range_step a (a + n * s) s = map (\<lambda>k. a + k * s) [0..<n]"
proof (induction n arbitrary: a)
  case 0
  then show ?case by (simp add: range_step.simps)
next
  case (Suc n)
  have "range_step a (a + Suc n * s) s = a # range_step (a + s) (a + s + n * s) s"
    using Suc.prems by (subst range_step.simps) (simp add: algebra_simps)
  also have "\<dots> = a # map (\<lambda>k. a + s + k * s) [0..<n]" by (simp only: Suc.IH [OF Suc.prems])
  also have "\<dots> = map (\<lambda>k. a + k * s) [0..<Suc n]"
    by (simp add: upt_conv_Cons map_Suc_upt [symmetric] comp_def algebra_simps del: upt_Suc map_Suc_upt)
  finally show ?case .
qed

definition suites :: "nat \<Rightarrow> bytes \<Rightarrow> bytes list" where
  "suites n body = map (\<lambda>i. py_slice i (i + 4) body) (range_step 0 (n * 4) 4)"

lemma suites_Suc:
  "suites (Suc n) body = take 4 body # suites n (drop 4 body)"
proof -
  have r: "range_step 0 (k * 4) 4 = map (\<lambda>i. i * 4) [0..<k]" for k using range_step_mult [of 4 0 k] by simp
  show ?thesis
    unfolding suites_def r
    by (simp add: upt_conv_Cons map_Suc_upt [symmetric] comp_def py_slice_def drop_drop algebra_simps
        del: upt_Suc map_Suc_upt)
qed

lemma suites_0 [simp]: "suites 0 body = []"
  by (simp add: suites_def range_step.simps)

lemma suites_concat: "list_all (\<lambda>s. length s = 4) ss \<Longrightarrow> suites (length ss) (concat ss @ rest) = ss"
  by (induction ss) (auto simp: suites_Suc)

lemma concat_suites: "n * 4 \<le> length body \<Longrightarrow>
    concat (suites n body) = take (n * 4) body \<and> list_all (\<lambda>s. length s = 4) (suites n body) \<and> length (suites n body) = n"
proof (induction n arbitrary: body)
  case (Suc n)
  then have "n * 4 \<le> length (drop 4 body)" by simp
  from Suc.IH [OF this] Suc.prems show ?case
    by (simp add: suites_Suc take_drop [symmetric]) (metis add.commute take_add)
qed simp

text \<open>The encoding of a list of suites: a 16-bit count and the suites, of four bytes each.\<close>

definition suite_list :: "bytes list \<Rightarrow> bytes" where
  "suite_list ss = to_le 2 (length ss) @ concat ss"

definition suites_ok :: "bytes \<Rightarrow> bytes list \<Rightarrow> bool" where
  "suites_ok required ss \<longleftrightarrow> list_all (\<lambda>s. length s = 4) ss \<and> length ss < 65536 \<and> required \<in> set ss"

lemma rsn_suites_Some:
  "rsn_suites (required # others) rest = Some out \<longleftrightarrow>
     (\<exists>ss body. rest = suite_list ss @ body \<and> suites_ok required ss \<and> rsn_suites others body = Some out)"
proof
  assume r: "rsn_suites (required # others) rest = Some out"
  define n where "n = from_le (take 2 rest)"
  define body where "body = drop 2 rest"
  have len: "2 \<le> length rest" "n \<noteq> 0" "n * 4 \<le> length body" "required \<in> set (suites n body)"
    "rsn_suites others (drop (n * 4) body) = Some out"
    using r by (auto simp: Let_def n_def body_def suites_def split: if_splits)
  have n: "to_le 2 n = take 2 rest" "n < 65536"
    using le16.enc_dec [of "take 2 rest"] from_le_less [of "take 2 rest"] len(1) by (simp_all add: n_def)
  note c = concat_suites [OF len(3)]
  have "rest = suite_list (suites n body) @ drop (n * 4) body"
    using c n(1) append_take_drop_id [of "n * 4" body] append_take_drop_id [of 2 rest]
    by (simp only: suite_list_def body_def append_assoc)
  then show "\<exists>ss body. rest = suite_list ss @ body \<and> suites_ok required ss \<and> rsn_suites others body = Some out"
    using c n(2) len(4,5) by (intro exI [of _ "suites n body"] exI [of _ "drop (n * 4) body"]) (simp add: suites_ok_def)
next
  assume "\<exists>ss body. rest = suite_list ss @ body \<and> suites_ok required ss \<and> rsn_suites others body = Some out"
  then obtain ss body where e: "rest = suite_list ss @ body" "suites_ok required ss" "rsn_suites others body = Some out"
    by blast
  have n: "from_le (take 2 rest) = length ss" using e(1,2) le16.dec_enc [of "length ss"] by (simp add: suite_list_def suites_ok_def)
  have b: "drop 2 rest = concat ss @ body" using e(1) by (simp add: suite_list_def)
  have l: "length (concat ss) = length ss * 4" using e(2)
    by (simp add: suites_ok_def length_concat list_all_iff sum_list_triv cong: map_cong)
  have "ss \<noteq> []" using e(2) by (auto simp: suites_ok_def)
  moreover have "set (map (\<lambda>i. py_slice i (i + 4) (concat ss @ body)) (range_step 0 (length ss * 4) 4)) = set ss"
    using suites_concat [of ss body] e(2) by (simp add: suites_def suites_ok_def)
  moreover have "2 \<le> length rest" using e(1) by (simp add: suite_list_def)
  ultimately show "rsn_suites (required # others) rest = Some out"
    using e n b l by (simp add: Let_def suites_ok_def del: set_map)
qed

text \<open>
  The RSN elements that WPA2-PSK with CCMP allows: version 1, CCMP as the group cipher, pairwise suites
  with CCMP, key managements with PSK, and capabilities, if present, without required management frame
  protection.
\<close>

definition rsn_body :: "bytes list \<Rightarrow> bytes list \<Rightarrow> bytes \<Rightarrow> bytes" where
  "rsn_body pws akms tail = [1, 0] @ CCMP @ suite_list pws @ suite_list akms @ tail"

definition wpa2_psk_ccmp :: "bytes \<Rightarrow> bool" where
  "wpa2_psk_ccmp value \<longleftrightarrow> (\<exists>pws akms tail. value = rsn_body pws akms tail \<and>
     suites_ok CCMP pws \<and> suites_ok PSK akms \<and>
     (tail = [] \<or> 2 \<le> length tail \<and> from_le (take 2 tail) AND 64 = 0))"

lemma suite_list_length: "suites_ok required ss \<Longrightarrow> 6 \<le> length (suite_list ss)"
proof -
  assume ok: "suites_ok required ss"
  then obtain s ss' where "ss = s # ss'" "length s = 4" by (cases ss) (auto simp: suites_ok_def)
  then show ?thesis by (simp add: suite_list_def)
qed

lemma rsn_ok_iff: "rsn_ok value \<longleftrightarrow> wpa2_psk_ccmp value"
proof
  assume ok: "rsn_ok value"
  then obtain rest where rest: "rsn_suites [CCMP, PSK] (drop 6 value) = Some rest"
    "rest = [] \<or> 2 \<le> length rest \<and> from_le (take 2 rest) AND 64 = 0"
    by (auto simp: rsn_ok_def simp del: rsn_suites.simps split: option.splits)
  then obtain pws akms where e: "drop 6 value = suite_list pws @ suite_list akms @ rest"
    "suites_ok CCMP pws" "suites_ok PSK akms"
    by (auto simp: rsn_suites_Some simp del: rsn_suites.simps(2))
  have "value = take 2 value @ py_slice 2 6 value @ drop 6 value"
  proof -
    have "py_slice 2 6 value = take 4 (drop 2 value)" "drop 6 value = drop 4 (drop 2 value)"
      by (simp_all add: py_slice_def)
    then show ?thesis by (simp only: append_take_drop_id)
  qed
  then show "wpa2_psk_ccmp value"
    using ok e rest(2) unfolding wpa2_psk_ccmp_def rsn_body_def rsn_ok_def
    by (intro exI [of _ pws] exI [of _ akms] exI [of _ rest]) simp
next
  assume "wpa2_psk_ccmp value"
  then obtain pws akms tail where v: "value = rsn_body pws akms tail" "suites_ok CCMP pws"
    "suites_ok PSK akms" "tail = [] \<or> 2 \<le> length tail \<and> from_le (take 2 tail) AND 64 = 0"
    by (auto simp: wpa2_psk_ccmp_def)
  have d: "take 2 value = [1, 0]" "py_slice 2 6 value = CCMP" "drop 6 value = suite_list pws @ suite_list akms @ tail"
    by (simp_all add: v(1) rsn_body_def CCMP_def py_slice_def)
  have "18 \<le> length value"
    using suite_list_length [OF v(2)] suite_list_length [OF v(3)] by (simp add: v(1) rsn_body_def CCMP_def)
  moreover have "rsn_suites [CCMP, PSK] (drop 6 value) = Some tail"
    using v(2,3) by (auto simp: d(3) rsn_suites_Some simp del: rsn_suites.simps(2))
  ultimately show "rsn_ok value" using d(1,2) v(4) by (simp add: rsn_ok_def del: rsn_suites.simps)
qed

definition rsn_elements :: "(byte \<times> bytes) list \<Rightarrow> bytes list" where
  "rsn_elements els = map snd (filter (\<lambda>e. fst e = 48) els)"

definition has_wpa :: "(byte \<times> bytes) list \<Rightarrow> bool" where
  "has_wpa els \<longleftrightarrow> list_ex (\<lambda>e. fst e = 221 \<and> take 4 (snd e) = [0x00, 0x50, 0xf2, 0x01]) els"

lemma visit_security_fold:
  "foldE (\<lambda>(tag, value). visit_security tag value) els (rsns, wpa) = Inr (rsns @ rsn_elements els, wpa \<or> has_wpa els)"
proof (induction els arbitrary: rsns wpa)
  case (Cons e els)
  then show ?case by (cases e) (simp add: visit_security_def rsn_elements_def has_wpa_def)
qed (simp add: rsn_elements_def has_wpa_def)

section \<open>The report\<close>

lemma pack_u_ok: "0 \<le> v \<Longrightarrow> v < 256 ^ w \<Longrightarrow> pack_u w v = Ret (to_le w (nat v))"
  by (simp add: pack_u_def)

lemma report_payload_eq:
  assumes "wf_bss r" "0 \<le> sequence" "sequence < 4294967296" "0 \<le> state" "state < 256"
  shows "report_payload sequence state (Some r) = Ret (
    to_le 4 (nat sequence) @ to_le 1 (nat state) @ to_le 1 (length (bss_ssid r)) @
    to_le 2 (length (bss_information_elements r)) @ to_le 4 (nat (bss_frequency_mhz r)) @
    to_le 4 (nat (bss_signal_mbm r mod 4294967296)) @ to_le 2 (if bss_open r then 1 else 17) @ to_le 2 0 @
    bss_bssid r @ ljust 32 0 (bss_ssid r) @ bss_information_elements r)"
  using assms
  by (simp add: report_payload_def pack_report_def wf_bss_def pack_u_ok pack_i32_def pack_s_def ljust_def)

text \<open>The report as the driver reads it back, field by field.\<close>

definition report_fields :: "bytes \<Rightarrow> nat list \<times> bytes \<times> bytes \<times> bytes" where
  "report_fields payload =
     (map (\<lambda>(off, w). from_le (py_slice off (off + w) payload)) [(0, 4), (4, 1), (5, 1), (6, 2), (8, 4), (12, 4), (16, 2), (18, 2)],
      py_slice 20 26 payload, take (from_le (py_slice 5 6 payload)) (py_slice 26 58 payload), drop 58 payload)"

lemma from_le_to_le_small: "n < 256 ^ w \<Longrightarrow> from_le (to_le w n) = n"
  by (simp add: from_le_to_le)

section \<open>What the follower reports\<close>

text \<open>The reasons for which a report may be written: a confirmed loss, or a roam to a record that was just
  scanned and that the host still confirms.\<close>

definition loss_reported :: "link_env \<Rightarrow> link \<Rightarrow> json \<Rightarrow> link_follower \<Rightarrow> bytes \<Rightarrow> bool" where
  "loss_reported env link state f payload \<longleftrightarrow>
     (case link of (sequence, flags, address, target) \<Rightarrow>
        report_payload sequence 0 None = Ret payload \<and>
        (case identity state of
           Ret None \<Rightarrow> \<exists>t. lf_missing f = Some (sequence, t) \<and> t \<le> le_clock env
         | Ret (Some (ssid, host_address)) \<Rightarrow> ssid \<noteq> target \<or> flags AND PINNED \<noteq> 0 \<and> host_address \<noteq> address
         | _ \<Rightarrow> False))"

definition roam_reported :: "link_env \<Rightarrow> link \<Rightarrow> json \<Rightarrow> bytes \<Rightarrow> bool" where
  "roam_reported env link state payload \<longleftrightarrow>
     (case link of (sequence, flags, address, target) \<Rightarrow>
        \<exists>records b. scan (le_scan env) = Ret records \<and> b \<in> set records \<and>
          bss_ssid b = target \<and> bss_bssid b \<noteq> address \<and> compatible b (flags AND PRIVATE \<noteq> 0) \<and>
          identity state = Ret (Some (target, bss_bssid b)) \<and>
          bindO (le_status env) identity = Ret (Some (target, bss_bssid b)) \<and>
          (flags AND PINNED = 0) \<and>
          report_payload sequence 1 (Some b) = Ret payload)"

lemma report_effect:
  "lf_reports (fst (report env sequence state record f)) \<noteq> lf_reports f \<Longrightarrow>
     \<exists>payload. report_payload sequence state record = Ret payload \<and>
       lf_reports (fst (report env sequence state record f)) = lf_reports f @ [payload]"
  by (auto simp: report_def thenA_def liftA_def bindA_def updA_def split: outcome.splits)

lemma actual_bss_Ret:
  assumes "actual_bss records target address private = Ret b"
  shows "b \<in> set records \<and> bss_ssid b = target \<and> bss_bssid b = address \<and> compatible b private"
proof -
  let ?P = "\<lambda>r. bss_ssid r = target \<and> bss_bssid r = address \<and> compatible r private"
  have "filter ?P records = [b]" using assms by (auto simp: actual_bss_def split: list.splits)
  then have "b \<in> set (filter ?P records)" by simp
  then show ?thesis by simp
qed

lemma follow_roam_effect:
  assumes "lf_reports (fst (follow_roam env link (ssid, host_address) f)) \<noteq> lf_reports f"
    "link = (sequence, flags, address, target)"
  shows "\<exists>records b payload. scan (le_scan env) = Ret records \<and> actual_bss records target host_address (flags AND PRIVATE \<noteq> 0) = Ret b \<and>
     bindO (le_status env) identity = Ret (Some (ssid, host_address)) \<and> report_payload sequence 1 (Some b) = Ret payload \<and>
     lf_reports (fst (follow_roam env link (ssid, host_address) f)) = lf_reports f @ [payload]"
  using assms report_effect
  by (auto simp: follow_roam_def split: outcome.splits if_splits)

section \<open>Every call ends\<close>

lemma ends_link [ends_intros]:
  "ends (str_or_default v)" "ends (get_default v k d)" "ends (identity v)" "ends (actual_bss rs t a p)"
proof -
  show s: "ends (str_or_default v)" for v by (cases v; simp)
  show g: "ends (get_default v k d)" for v k d by (cases v; simp add: get_default_def)
  show "ends (identity v)" unfolding identity_def by (intro ends_intros s g) simp_all
  show "ends (actual_bss rs t a p)" by (simp add: actual_bss_def split: list.splits)
qed

lemma ends_report [ends_intros]: "ends (report_payload sequence state record)"
  unfolding report_payload_def pack_report_def
  by (auto split: option.splits intro!: ends_intros simp: pack_u_def pack_i32_def pack_s_def)

section \<open>Properties\<close>

text \<open>C7: a record is accepted for a private network exactly when it is not open and has exactly one RSN
  element, which is that of WPA2-PSK with CCMP in every field, and for an open network exactly when it is open
  and has neither an RSN nor a WPA element.\<close>

theorem compatible_iff:
  assumes "bss_information_elements r = tlv_encode els" "tlv_ok els"
  shows "(compatible r True \<longleftrightarrow> \<not> bss_open r \<and> (\<exists>value. rsn_elements els = [value] \<and> wpa2_psk_ccmp value)) \<and>
    (compatible r False \<longleftrightarrow> bss_open r \<and> rsn_elements els = [] \<and> \<not> has_wpa els)"
proof
  have w: "tlv_walk () visit_security (bss_information_elements r) ([], False) = Inr (rsn_elements els, has_wpa els)"
    using assms by (simp add: tlv_walk_encode visit_security_fold)
  show "compatible r False \<longleftrightarrow> bss_open r \<and> rsn_elements els = [] \<and> \<not> has_wpa els"
    by (auto simp: compatible_def w)
  show "compatible r True \<longleftrightarrow> \<not> bss_open r \<and> (\<exists>value. rsn_elements els = [value] \<and> wpa2_psk_ccmp value)"
  proof (cases "length (rsn_elements els) = 1")
    case True
    then obtain v where "rsn_elements els = [v]" by (auto simp: length_Suc_conv)
    then show ?thesis by (simp add: compatible_def w rsn_ok_iff)
  next
    case False
    then show ?thesis by (auto simp: compatible_def w)
  qed
qed

definition wpa2_bss :: bss where
  "wpa2_bss = \<lparr>bss_network_id = [], bss_ssid = [97], bss_bssid = [2, 0, 0, 0, 0, 10], bss_frequency_mhz = 2437,
     bss_signal_mbm = - 4000,
     bss_information_elements = tlv_encode [(0, [97]), (48, rsn_body [CCMP] [CCMP, PSK] [0, 0])], bss_open = False\<rparr>"

theorem compatible_iff_witness: "compatible wpa2_bss True"
proof -
  have "suites_ok CCMP [CCMP]" "suites_ok PSK [CCMP, PSK]" by (simp_all add: suites_ok_def CCMP_def PSK_def)
  then have "wpa2_psk_ccmp (rsn_body [CCMP] [CCMP, PSK] [0, 0])"
    unfolding wpa2_psk_ccmp_def by (intro exI conjI) (rule refl, assumption+, simp)
  then show ?thesis
    using compatible_iff [of wpa2_bss "[(0, [97]), (48, rsn_body [CCMP] [CCMP, PSK] [0, 0])]"]
    by (simp add: wpa2_bss_def rsn_elements_def) (simp add: rsn_body_def suite_list_def CCMP_def PSK_def)
qed

text \<open>The report of a valid BSS always fits the driver's layout, and every field the driver reads back at
  its offset is the record's.\<close>

theorem report_roundtrip:
  assumes "wf_bss r" "0 \<le> sequence" "sequence < 4294967296" "0 \<le> state" "state < 256"
  shows "\<exists>payload. report_payload sequence state (Some r) = Ret payload \<and>
    report_fields payload =
      ([nat sequence, nat state, length (bss_ssid r), length (bss_information_elements r), nat (bss_frequency_mhz r),
        nat (bss_signal_mbm r mod 4294967296), if bss_open r then 1 else 17, 0],
       bss_bssid r, bss_ssid r, bss_information_elements r)"
proof (rule exI, rule conjI, rule report_payload_eq [OF assms])
  have l: "length (bss_ssid r) \<le> 32" "length (bss_bssid r) = 6" "length (bss_information_elements r) \<le> 4130"
    "bss_frequency_mhz r \<le> 7115"
    using assms(1) by (auto simp: wf_bss_def)
  have "nat (bss_signal_mbm r mod 4294967296) < 4294967296" by (simp add: nat_less_iff)
  then show "report_fields (to_le 4 (nat sequence) @ to_le 1 (nat state) @ to_le 1 (length (bss_ssid r)) @
    to_le 2 (length (bss_information_elements r)) @ to_le 4 (nat (bss_frequency_mhz r)) @
    to_le 4 (nat (bss_signal_mbm r mod 4294967296)) @ to_le 2 (if bss_open r then 1 else 17) @ to_le 2 0 @
    bss_bssid r @ ljust 32 0 (bss_ssid r) @ bss_information_elements r) =
      ([nat sequence, nat state, length (bss_ssid r), length (bss_information_elements r), nat (bss_frequency_mhz r),
        nat (bss_signal_mbm r mod 4294967296), if bss_open r then 1 else 17, 0],
       bss_bssid r, bss_ssid r, bss_information_elements r)"
    using l assms(2-5)
    by (simp add: report_fields_def py_slice_def from_le_to_le_small ljust_def nat_less_iff del: to_le.simps from_le.simps)
qed

theorem report_roundtrip_witness:
  "\<exists>payload. report_payload 7 1 (Some sample_bss) = Ret payload \<and>
     snd (report_fields payload) = ([2, 0, 0, 0, 0, 10], [97], [0, 1, 97])"
  using report_roundtrip [OF parse_bss_wf [OF parse_sample], of 7 1] by (auto simp: sample_bss_def)


definition sample_state :: json where
  "sample_state = JDict [(''locationAuthorized'', JBool True), (''networkIdentityAvailable'', JBool True),
     (''ssidBase64'', JStr (b64encode [98])), (''bssid'', JStr ''02:00:00:00:00:0a'')]"

definition sample_link_env :: link_env where
  "sample_link_env = \<lparr>le_clock = 0, le_ioctl = Ret (), le_scan = \<lambda>_ _. Ret JNull, le_status = Ret JNull\<rparr>"

lemma sample_identity: "identity sample_state = Ret (Some ([98], [2, 0, 0, 0, 0, 10]))"
proof -
  have "fromhex (str_remove (CHR '':'') ''02:00:00:00:00:0a'') = Ret [2, 0, 0, 0, 0, 10]" by code_simp
  then show ?thesis
    by (simp add: identity_def sample_state_def get_default_def b64_roundtrip del: b64encode.simps b64decode.simps)
qed


end
