(* ===== verification/Wifi_Bridge.thy ===== *)
theory Wifi_Bridge
  imports Wifi_Link
begin

unbundle bit_operations_syntax

text \<open>
  \<^verbatim>\<open>guest/devices/wifi_bridge.py\<close>: the bridge between the cfg80211 driver's requests and the host. \<^verbatim>\<open>RequestWait\<close>
  waits for kernel work, \<^verbatim>\<open>handle_connection\<close> performs a connect or disconnect request, and one round of the loop
  of \<^verbatim>\<open>serve\<close> handles a connection, a link and signal update, or a scan.

  What the driver's ioctls, the poll, the clock and the host answer are inputs of a round; the calls made to the
  host, and what is written to the driver, are logs. Printed diagnostics are not modelled.
\<close>

section \<open>Waiting for requests\<close>

record request_wait =
  rw_poller :: bool
  rw_capabilities :: "32 word"
  rw_watched :: "nat option"

definition CAP_REQUEST_POLL :: "32 word" where "CAP_REQUEST_POLL = 1"
definition CAP_HOST_LINK :: "32 word" where "CAP_HOST_LINK = 2"

text \<open>The capabilities ioctl: the word it filled in, or an error; \<^verbatim>\<open>ENOTTY\<close> (25) leaves the word zero.\<close>

definition wait_new :: "32 word outcome \<Rightarrow> request_wait outcome" where
  "wait_new ioctl =
     (let make = (\<lambda>caps. Ret \<lparr>rw_poller = (caps AND CAP_REQUEST_POLL \<noteq> 0), rw_capabilities = caps, rw_watched = None\<rparr>) in
      case ioctl of
        Ret caps \<Rightarrow> make caps
      | Exc (OSError code m) \<Rightarrow> if code = 25 then make 0 else Exc (OSError code m)
      | Exc e \<Rightarrow> Exc e
      | NoRet \<Rightarrow> NoRet)"

definition wait_watch :: "nat option \<Rightarrow> request_wait \<Rightarrow> request_wait" where
  "wait_watch fd w = (if \<not> rw_poller w \<or> rw_watched w = fd then w else w\<lparr>rw_watched := fd\<rparr>)"

text \<open>The time slept without a poller, and the poll timeout in milliseconds with one.\<close>

definition sleep_time :: "time option \<Rightarrow> time" where
  "sleep_time timeout = (case timeout of None \<Rightarrow> 1 / 10 | Some t \<Rightarrow> min (1 / 10) (max 0 t))"

definition poll_ms :: "time option \<Rightarrow> int option" where
  "poll_ms timeout = map_option (\<lambda>t. \<lceil>max 0 t * 1000\<rceil>) timeout"

text \<open>\<^verbatim>\<open>POLLERR | POLLHUP | POLLNVAL\<close> is 0x38, \<^verbatim>\<open>ENODEV\<close> is 19; \<open>events\<close> are the flags \<^verbatim>\<open>poll\<close> returned.\<close>

definition wait_wait :: "nat list \<Rightarrow> request_wait \<Rightarrow> bool outcome" where
  "wait_wait events w =
     (if \<not> rw_poller w then Ret False
      else if list_ex (\<lambda>flags. flags AND 0x38 \<noteq> 0) events
      then Exc (OSError 19 ''Wi-Fi request channel unavailable'')
      else Ret (events \<noteq> []))"

section \<open>Signal samples\<close>

fun signal_value :: "json \<Rightarrow> int outcome" where
  "signal_value (JInt v) = (if - 127 \<le> v \<and> v \<le> 0 then Ret v else Exc (ValueError ''Invalid host signal''))"
| "signal_value _ = Exc (ValueError ''Invalid host signal'')"

fun signal_address :: "json \<Rightarrow> bytes outcome" where
  "signal_address (JStr s) = bindO (fromhex (str_remove (CHR '':'') s)) (\<lambda>address.
     if length address \<noteq> 6 \<or> address = replicate 6 0 \<or> address ! 0 AND 1 \<noteq> 0
     then Exc (ValueError ''Invalid host BSSID'') else Ret address)"
| "signal_address _ = Exc (ValueError ''Missing host BSSID'')"

definition signal_payload :: "json \<Rightarrow> bytes option outcome" where
  "signal_payload state =
     bindO (jget state ''locationAuthorized'') (\<lambda>auth.
     bindO (jget state ''networkIdentityAvailable'') (\<lambda>avail.
     if \<not> truthy auth \<or> \<not> truthy avail then Ret None else
     bindO (jget state ''signalDBm'') (\<lambda>dbm.
     bindO (signal_value dbm) (\<lambda>v.
     bindO (jget state ''bssid'') (\<lambda>bssid.
     bindO (signal_address bssid) (\<lambda>address.
       Ret (Some (address @ [word_of_int v, 0]))))))))"

section \<open>State of the bridge\<close>

datatype host_request =
    WifiDisconnect
  | WifiStatus
  | WifiConnect string "string option"
  | HostScan

datatype driver_effect =
    ConnectionResult nat nat bytes
  | SignalSample bytes
  | WriteRecord bytes
  | FinishScan nat
  | AbortScan nat

record bridge =
  br_requests :: "host_request list"
  br_driver :: "driver_effect list"
  br_follower :: "link_follower option"
  br_watch :: "status_watch option"
  br_wait :: request_wait
  br_previous :: nat
  br_next_signal :: time
  br_link_error :: "string option"

definition ask :: "host_request \<Rightarrow> 'a outcome \<Rightarrow> (bridge, 'a) act" where
  "ask req reply = thenA (updA (\<lambda>b. b\<lparr>br_requests := br_requests b @ [req]\<rparr>)) (liftA reply)"

definition driver :: "driver_effect \<Rightarrow> unit outcome \<Rightarrow> (bridge, unit) act" where
  "driver eff reply = thenA (liftA reply) (updA (\<lambda>b. b\<lparr>br_driver := br_driver b @ [eff]\<rparr>))"

definition on_follower :: "(link_follower, 'a) act \<Rightarrow> (bridge, 'a) act" where
  "on_follower m = (\<lambda>b. case br_follower b of
       None \<Rightarrow> (b, Exc (AttributeError ''follower''))
     | Some f \<Rightarrow> (case m f of (f', r) \<Rightarrow> (b\<lparr>br_follower := Some f'\<rparr>, r)))"

definition on_watch :: "(status_watch, 'a) act \<Rightarrow> (bridge, 'a) act" where
  "on_watch m = (\<lambda>b. case br_watch b of
       None \<Rightarrow> (b, Exc (AttributeError ''watcher''))
     | Some w \<Rightarrow> (case m w of (w', r) \<Rightarrow> (b\<lparr>br_watch := Some w'\<rparr>, r)))"

section \<open>Connection requests\<close>

text \<open>What the host answers while one request is handled, and the ioctl of a published report.\<close>

record connect_env =
  ce_disconnect :: "json outcome"
  ce_connect :: "json outcome"
  ce_status :: "json outcome"
  ce_status2 :: "json outcome"
  ce_scan :: "nat \<Rightarrow> scan_request \<Rightarrow> json outcome"
  ce_scan2 :: "nat \<Rightarrow> scan_request \<Rightarrow> json outcome"
  ce_link :: link_env

text \<open>\<^verbatim>\<open>max(candidates, key=...)\<close> keeps the first of several strongest records.\<close>

fun strongest :: "bss \<Rightarrow> bss list \<Rightarrow> bss" where
  "strongest best [] = best"
| "strongest best (r # rs) = strongest (if bss_signal_mbm r > bss_signal_mbm best then r else best) rs"

definition candidates :: "bytes \<Rightarrow> bytes \<Rightarrow> bool \<Rightarrow> bss list \<Rightarrow> bss list" where
  "candidates target bssid private records =
     filter (\<lambda>r. bss_ssid r = target \<and> (bssid = replicate 6 0 \<or> bss_bssid r = bssid) \<and> compatible r private) records"

definition select_bss :: "bss list \<Rightarrow> bss outcome" where
  "select_bss rs = (case rs of
       [] \<Rightarrow> Exc (RuntimeError ''Selected network absent from current host scan'')
     | r # rest \<Rightarrow> Ret (strongest r rest))"

definition disconnect_request :: "connect_env \<Rightarrow> (bridge, bytes) act" where
  "disconnect_request env =
     thenA (ask WifiDisconnect (ce_disconnect env))
     (bindA (ask WifiStatus (ce_status env)) (\<lambda>state.
      bindA (liftA (jget state ''locationAuthorized'')) (\<lambda>auth.
      bindA (liftA (jget state ''networkIdentityAvailable'')) (\<lambda>avail.
        if \<not> truthy auth \<or> truthy avail then excA (RuntimeError ''Host disconnection not confirmed'')
        else retA (replicate 6 0)))))"

text \<open>Lines 110--117: the address the host confirms it is associated with.\<close>

definition associated_address :: "bytes \<Rightarrow> bytes \<Rightarrow> json \<Rightarrow> bytes outcome" where
  "associated_address target bssid state =
     bindO (jget state ''locationAuthorized'') (\<lambda>auth.
     if \<not> truthy auth then Exc (RuntimeError ''Host association not confirmed'') else
     bindO (get_default state ''ssidBase64'' (JStr [])) (\<lambda>ssid64.
     bindO (jb64decode ssid64) (\<lambda>ssid.
     if ssid \<noteq> target then Exc (RuntimeError ''Host association not confirmed'') else
     bindO (get_default state ''bssid'' (JStr [])) (\<lambda>text.
     bindO (str_or_default text) (\<lambda>s.
     bindO (fromhex (str_remove (CHR '':'') s)) (\<lambda>actual.
     if length actual \<noteq> 6 \<or> list_all (\<lambda>b. b = 0) actual \<or> actual ! 0 AND 1 \<noteq> 0
     then Exc (RuntimeError ''Host omitted valid associated BSSID'')
     else if bssid \<noteq> replicate 6 0 \<and> actual \<noteq> bssid
     then Exc (RuntimeError ''Host associated to a different requested BSSID'')
     else Ret actual))))))"

text \<open>Lines 118--122: the record of that address, from a second scan if the first did not have it.\<close>

definition confirm_bss :: "connect_env \<Rightarrow> bss list \<Rightarrow> bytes \<Rightarrow> bytes \<Rightarrow> bool \<Rightarrow> (bridge, bss) act" where
  "confirm_bss env records target actual private =
     (if list_ex (\<lambda>r. bss_ssid r = target \<and> bss_bssid r = actual) records
      then liftA (actual_bss records target actual private)
      else bindA (ask HostScan (scan (ce_scan2 env))) (\<lambda>records2.
           bindA (ask WifiStatus (bindO (ce_status2 env) identity)) (\<lambda>again.
             if again \<noteq> Some (target, actual) then excA (RuntimeError ''Host changed association during verification'')
             else liftA (actual_bss records2 target actual private))))"

definition connect_request ::
  "connect_env \<Rightarrow> (int \<Rightarrow> bss \<Rightarrow> (bridge, unit) act) option \<Rightarrow> int \<Rightarrow> nat \<Rightarrow> nat \<Rightarrow> bytes \<Rightarrow> bytes \<Rightarrow> bytes \<Rightarrow> (bridge, bytes) act" where
  "connect_request env publish number ssid_len key_len bssid ssid key =
     (if \<not> (1 \<le> ssid_len \<and> ssid_len \<le> 32) \<or> key_len \<notin> {0, 32} then excA (ValueError ''Invalid network/key size'') else
      let target = take ssid_len ssid; private = (key_len \<noteq> 0) in
      bindA (ask HostScan (scan (ce_scan env))) (\<lambda>records.
      bindA (liftA (select_bss (candidates target bssid private records))) (\<lambda>selected.
      thenA (ask (WifiConnect (bss_network_id selected) (if private then Some (to_hex key) else None)) (ce_connect env))
      (bindA (ask WifiStatus (bindO (ce_status env) (associated_address target bssid))) (\<lambda>actual.
       bindA (confirm_bss env records target actual private) (\<lambda>confirmed.
       thenA (case publish of None \<Rightarrow> retA () | Some p \<Rightarrow> p number confirmed) (retA actual)))))))"

text \<open>\<^verbatim>\<open>CONNECTION = struct.Struct('<IBBBB6s32s32s')\<close>, 78 bytes.\<close>

definition handle_connection ::
  "connect_env \<Rightarrow> (int \<Rightarrow> bss \<Rightarrow> (bridge, unit) act) option \<Rightarrow> bytes \<Rightarrow> (bridge, bytes) act" where
  "handle_connection env publish payload =
     (if length payload \<noteq> 78 then excA (StructError ''unpack requires a buffer of 78 bytes'') else
      let number = from_le (take 4 payload); operation = unat (payload ! 4); ssid_len = unat (payload ! 5);
          key_len = unat (payload ! 6); reserved = payload ! 7; bssid = py_slice 8 14 payload;
          ssid = py_slice 14 46 payload; key = py_slice 46 78 payload in
      if number = 0 \<or> operation \<notin> {1, 2} \<or> reserved \<noteq> 0
      then excA (ValueError ''Invalid kernel connection request'')
      else if operation = 2 then disconnect_request env
      else connect_request env publish (int number) ssid_len key_len bssid ssid key)"

section \<open>One round of the service loop\<close>

record serve_env =
  se_inotify :: "int \<times> int"
  se_fd :: nat
  se_reads :: "bytes outcome list"
  se_status_file :: status_reading
  se_connection :: "bytes outcome"
  se_connect :: connect_env
  se_result :: "unit outcome"
  se_get_scan :: "nat outcome"
  se_clock :: time
  se_clock2 :: time
  se_link :: "bytes outcome"
  se_state :: "json outcome"
  se_link_env :: link_env
  se_signal :: "unit outcome"
  se_poll :: "nat list"
  se_scan :: "nat \<Rightarrow> scan_request \<Rightarrow> json outcome"
  se_write :: "bytes \<Rightarrow> nat outcome"
  se_finish :: "unit outcome"
  se_abort :: "unit outcome"

definition serve_watch :: "serve_env \<Rightarrow> (bridge, unit) act" where
  "serve_watch env =
     bindA (getA br_watch) (\<lambda>watcher.
       if watcher = None then retA () else
       thenA (on_watch (watch_open (fst (se_inotify env)) (snd (se_inotify env))))
       (bindA (on_watch (watch_changed (se_reads env) (se_status_file env))) (\<lambda>changed.
        thenA (if changed then updA (\<lambda>b. b\<lparr>br_next_signal := 0\<rparr>) else retA ())
        (updA (\<lambda>b. b\<lparr>br_wait := wait_watch
           (case br_watch b of Some w \<Rightarrow> if sw_open w then Some (se_fd env) else None | None \<Rightarrow> None) (br_wait b)\<rparr>)))))"

text \<open>The connection request with sequence number \<open>op\<close>; the value says whether \<^verbatim>\<open>serve\<close> returns.\<close>

definition publish_report :: "serve_env \<Rightarrow> int \<Rightarrow> bss \<Rightarrow> (bridge, unit) act" where
  "publish_report env sequence record = on_follower (report (ce_link (se_connect env)) sequence 2 (Some record))"

definition serve_connection :: "bool \<Rightarrow> serve_env \<Rightarrow> bytes \<Rightarrow> nat \<Rightarrow> (bridge, bool) act" where
  "serve_connection once env connection op =
     bindA (getA br_follower) (\<lambda>follower.
     bindA (catchA
       (bindA (handle_connection (se_connect env) (if follower = None then None else Some (publish_report env)) connection)
              (\<lambda>address. retA (0, address)))
       is_Exception (\<lambda>_. retA (1, replicate 6 0))) (\<lambda>(status_code, address).
     thenA (catchA (driver (ConnectionResult op status_code address) (se_result env)) is_OSError (\<lambda>_. retA ()))
     (thenA (updA (\<lambda>b. b\<lparr>br_next_signal := 0\<rparr>))
     (if once then (if status_code \<noteq> (0 :: nat) then excA (SystemExit 1) else retA True) else retA False))))"

text \<open>\<^verbatim>\<open>ESTALE\<close> is 116.\<close>

fun is_stale :: "exn \<Rightarrow> bool" where
  "is_stale (OSError code _) = (code = 116)"
| "is_stale _ = False"

text \<open>Lines 191--201, inside the \<^verbatim>\<open>try\<close>.\<close>

definition serve_update :: "serve_env \<Rightarrow> (bridge, unit) act" where
  "serve_update env =
     bindA (getA br_follower) (\<lambda>follower.
     bindA (if follower = None then retA None else bindA (liftA (bindO (se_link env) snapshot)) (\<lambda>l. retA (Some l))) (\<lambda>link.
     bindA (getA (\<lambda>b. case br_watch b of None \<Rightarrow> True | Some w \<Rightarrow> key_active (sw_key w))) (\<lambda>active.
       if active \<and> (case link of None \<Rightarrow> True | Some (_, flags, _) \<Rightarrow> flags AND CONNECTED \<noteq> 0 \<and> flags AND BUSY = 0) then
         bindA (ask WifiStatus (se_state env)) (\<lambda>state.
         thenA (case link of
                  None \<Rightarrow> retA ()
                | Some l \<Rightarrow>
                    thenA (on_follower (follower_update (se_link_env env) l state))
                    (updA (\<lambda>b. case br_follower b of
                         Some f \<Rightarrow> (case lf_missing f of
                             Some (_, t) \<Rightarrow> b\<lparr>br_next_signal := min (br_next_signal b) t\<rparr>
                           | None \<Rightarrow> b)
                       | None \<Rightarrow> b)))
         (bindA (liftA (signal_payload state)) (\<lambda>payload.
          thenA (case payload of None \<Rightarrow> retA () | Some p \<Rightarrow> driver (SignalSample p) (se_signal env))
          (updA (\<lambda>b. b\<lparr>br_link_error := None\<rparr>)))))
       else retA ())))"

definition serve_idle :: "bool \<Rightarrow> serve_env \<Rightarrow> (bridge, unit) act" where
  "serve_idle once env =
     thenA (bindA (getA br_next_signal) (\<lambda>next_signal.
       if \<not> once \<and> se_clock env \<ge> next_signal then
         thenA (updA (\<lambda>b. b\<lparr>br_next_signal := se_clock2 env + 5\<rparr>))
         (catchA (serve_update env) (\<lambda>e. is_OSError e \<or> is_ValueError e \<or> is_RuntimeError e)
            (\<lambda>e. updA (\<lambda>b. if br_follower b \<noteq> None \<and> \<not> is_stale e then b\<lparr>br_link_error := Some (exn_name e)\<rparr> else b)))
       else retA ()))
     (bindA (getA br_wait) (\<lambda>w. thenA (liftA (wait_wait (se_poll env) w)) (retA ())))"

text \<open>Lines 220--226: the record of one BSS for the scan \<open>number\<close>, header \<^verbatim>\<open><IIiHH6sH\<close>.\<close>

definition scan_record :: "nat \<Rightarrow> bss \<Rightarrow> bytes outcome" where
  "scan_record number b =
     bindO (mapO id [pack_u 4 (int number), pack_u 4 (bss_frequency_mhz b), pack_i32 (bss_signal_mbm b),
       pack_u 2 (if bss_open b then 1 else 17), pack_u 2 0, pack_s 6 (bss_bssid b),
       pack_u 2 (int (length (bss_information_elements b)))]) (\<lambda>parts.
     Ret (concat parts @ bss_information_elements b))"

definition write_record :: "serve_env \<Rightarrow> nat \<Rightarrow> bss \<Rightarrow> (bridge, unit) act" where
  "write_record env number b =
     bindA (liftA (scan_record number b)) (\<lambda>packet.
     bindA (liftA (se_write env packet)) (\<lambda>count.
       if count \<noteq> length packet then excA (RuntimeError ''Incomplete kernel record write'')
       else updA (\<lambda>s. s\<lparr>br_driver := br_driver s @ [WriteRecord packet]\<rparr>)))"

definition serve_scan :: "bool \<Rightarrow> serve_env \<Rightarrow> nat \<Rightarrow> (bridge, bool) act" where
  "serve_scan once env number =
     thenA (updA (\<lambda>b. b\<lparr>br_previous := number\<rparr>))
     (thenA (catchA
        (bindA (ask HostScan (scan (se_scan env))) (\<lambda>records.
         thenA (forA (write_record env number) records) (driver (FinishScan number) (se_finish env))))
        is_Exception
        (\<lambda>e. thenA (catchA (driver (AbortScan number) (se_abort env)) is_OSError (\<lambda>_. retA ()))
               (if once then excA e else retA ())))
     (retA once))"

definition serve_round :: "bool \<Rightarrow> serve_env \<Rightarrow> (bridge, bool) act" where
  "serve_round once env =
     thenA (serve_watch env)
     (bindA (liftA (se_connection env)) (\<lambda>connection.
      let op = from_le (take 4 connection) in
      if op \<noteq> 0 then serve_connection once env connection op else
      bindA (liftA (se_get_scan env)) (\<lambda>number.
      bindA (getA br_previous) (\<lambda>previous.
        if number = 0 \<or> number = previous then thenA (serve_idle once env) (retA False)
        else serve_scan once env number))))"

definition serve_start :: "bool \<Rightarrow> 32 word outcome \<Rightarrow> bridge outcome" where
  "serve_start once caps =
     bindO (wait_new caps) (\<lambda>w.
       let follows = (rw_capabilities w AND CAP_HOST_LINK \<noteq> 0) in
       Ret \<lparr>br_requests = [], br_driver = [], br_follower = (if follows then Some follower_new else None),
            br_watch = (if follows \<and> \<not> once then Some \<lparr>sw_open = False, sw_key = None\<rparr> else None),
            br_wait = w, br_previous = 0, br_next_signal = 0, br_link_error = None\<rparr>)"

section \<open>Connections\<close>

lemma ask_eq_Ret [simp]:
  "ask req reply b = (b', Ret x) \<longleftrightarrow> reply = Ret x \<and> b' = b\<lparr>br_requests := br_requests b @ [req]\<rparr>"
  by (auto simp: ask_def liftA_def)

lemma strongest_in: "strongest c cs \<in> set (c # cs)"
proof (induction cs arbitrary: c)
  case (Cons r rs)
  show ?case using Cons.IH [of "if bss_signal_mbm r > bss_signal_mbm c then r else c"] by (auto split: if_splits)
qed simp

lemma strongest_max: "r \<in> set (c # cs) \<Longrightarrow> bss_signal_mbm r \<le> bss_signal_mbm (strongest c cs)"
proof (induction cs arbitrary: c r)
  case (Cons x xs)
  define d where "d = (if bss_signal_mbm x > bss_signal_mbm c then x else c)"
  have IH: "s \<in> set (d # xs) \<Longrightarrow> bss_signal_mbm s \<le> bss_signal_mbm (strongest d xs)" for s by (rule Cons.IH)
  have "bss_signal_mbm x \<le> bss_signal_mbm d" "bss_signal_mbm c \<le> bss_signal_mbm d" by (auto simp: d_def)
  moreover have "bss_signal_mbm d \<le> bss_signal_mbm (strongest d xs)" by (rule IH) simp
  moreover have "r \<in> set xs \<Longrightarrow> bss_signal_mbm r \<le> bss_signal_mbm (strongest d xs)" by (rule IH) simp
  moreover have "r = c \<or> r = x \<or> r \<in> set xs" using Cons.prems by auto
  ultimately have "bss_signal_mbm r \<le> bss_signal_mbm (strongest d xs)" by (metis order_trans)
  then show ?case by (simp add: d_def)
qed simp

lemma associated_address_Ret:
  assumes "associated_address target bssid state = Ret actual"
  shows "length actual = 6 \<and> \<not> list_all (\<lambda>b. b = 0) actual \<and> actual ! 0 AND 1 = 0 \<and> (bssid \<noteq> replicate 6 0 \<longrightarrow> actual = bssid)"
  using assms by (auto simp: associated_address_def simp del: jget.simps split: if_splits)

text \<open>The host is confirmed to be on a scanned record of the network, with the security that was asked for.\<close>

definition confirmed_on :: "connect_env \<Rightarrow> bytes \<Rightarrow> bytes \<Rightarrow> bool \<Rightarrow> bytes \<Rightarrow> bss \<Rightarrow> bool" where
  "confirmed_on env target bssid private actual b \<longleftrightarrow>
     (\<exists>records. (scan (ce_scan env) = Ret records \<or> scan (ce_scan2 env) = Ret records) \<and> b \<in> set records) \<and>
     wf_bss b \<and> bss_ssid b = target \<and> bss_bssid b = actual \<and> compatible b private \<and>
     (bssid \<noteq> replicate 6 0 \<longrightarrow> actual = bssid)"

text \<open>The host was asked to join the strongest scanned record that matches the request, with a password only for
  a private network.\<close>

definition asked_for :: "connect_env \<Rightarrow> bytes \<Rightarrow> bytes \<Rightarrow> bytes option \<Rightarrow> host_request \<Rightarrow> bool" where
  "asked_for env target bssid key req \<longleftrightarrow>
     (\<exists>records r. scan (ce_scan env) = Ret records \<and> r \<in> set (candidates target bssid (key \<noteq> None) records) \<and>
        (\<forall>r' \<in> set (candidates target bssid (key \<noteq> None) records). bss_signal_mbm r' \<le> bss_signal_mbm r) \<and>
        req = WifiConnect (bss_network_id r) (map_option to_hex key))"

lemma scan_wf: "scan rpc = Ret rs \<Longrightarrow> b \<in> set rs \<Longrightarrow> wf_bss b"
proof -
  assume s: "scan rpc = Ret rs" "b \<in> set rs"
  then obtain page scan_id tot val trunc where "scan_loop rpc 1 scan_id tot [] page = Ret rs"
    by (auto simp: scan_def simp del: jitem.simps jget.simps)
  then show "wf_bss b" using scan_loop_wf [of rpc 1 scan_id tot "[]" page rs] s(2) by (simp add: list_all_iff)
qed

lemma confirm_bss_Ret:
  assumes "confirm_bss env records target actual private b = (b', Ret c)" "scan (ce_scan env) = Ret records"
  shows "\<exists>records'. (scan (ce_scan env) = Ret records' \<or> scan (ce_scan2 env) = Ret records') \<and>
      actual_bss records' target actual private = Ret c"
  using assms by (auto simp: confirm_bss_def bindA_eq_Ret split: if_splits)

lemma select_bss_Ret: "select_bss rs = Ret r \<Longrightarrow> r \<in> set rs \<and> (\<forall>r' \<in> set rs. bss_signal_mbm r' \<le> bss_signal_mbm r)"
  using strongest_in strongest_max by (cases rs) (fastforce simp: select_bss_def)+

lemma connect_request_Ret:
  assumes "connect_request env publish number ssid_len key_len bssid ssid key b = (b', Ret actual)"
  shows "\<exists>c. confirmed_on env (take ssid_len ssid) bssid (key_len \<noteq> 0) actual c"
proof -
  let ?target = "take ssid_len ssid" and ?private = "key_len \<noteq> 0"
  obtain records state b2 conf b3 where
    records: "scan (ce_scan env) = Ret records"
    and st: "associated_address ?target bssid state = Ret actual"
    and conf: "confirm_bss env records ?target actual ?private b2 = (b3, Ret conf)"
    using assms(1)
    by (auto simp: connect_request_def Let_def bindA_eq_Ret thenA_eq_Ret simp del: act_at(2) split: if_splits)
  obtain records' where r': "scan (ce_scan env) = Ret records' \<or> scan (ce_scan2 env) = Ret records'"
    "actual_bss records' ?target actual ?private = Ret conf" using confirm_bss_Ret [OF conf records] by blast
  have "confirmed_on env ?target bssid ?private actual conf"
    using r' actual_bss_Ret [OF r'(2)] scan_wf associated_address_Ret [OF st] unfolding confirmed_on_def by blast
  then show ?thesis ..
qed

text \<open>Every connect request made since the log was \<open>old\<close> is one the driver's request justifies.\<close>

definition asked_properly :: "host_request list \<Rightarrow> (host_request \<Rightarrow> bool) \<Rightarrow> bridge \<Rightarrow> bool" where
  "asked_properly old good b \<longleftrightarrow> (\<exists>new. br_requests b = old @ new \<and> (\<forall>n p. WifiConnect n p \<in> set new \<longrightarrow> good (WifiConnect n p)))"

lemma ask_properly:
  "(\<And>n p. req = WifiConnect n p \<Longrightarrow> good req) \<Longrightarrow> keeps (asked_properly old good) (ask req reply)"
  unfolding ask_def by (intro keeps_intros keeps_upd) (auto simp: asked_properly_def)

lemma keeps_bind_ask:
  "keeps P (ask req reply) \<Longrightarrow> (\<And>x. reply = Ret x \<Longrightarrow> keeps P (f x)) \<Longrightarrow> keeps P (bindA (ask req reply) f)"
  by (cases reply) (auto simp: keeps_def bindA_def ask_def liftA_def)

lemma keeps_bind_lift:
  "(\<And>x. r = Ret x \<Longrightarrow> keeps P (f x)) \<Longrightarrow> keeps P (bindA (liftA r) f)"
  by (cases r) (auto simp: keeps_def bindA_def liftA_def)

lemma connect_request_properly:
  assumes "\<And>p n c. publish = Some p \<Longrightarrow> keeps (asked_properly old (asked_for env (take ssid_len ssid) bssid (if key_len \<noteq> 0 then Some key else None))) (p n c)"
  shows "keeps (asked_properly old (asked_for env (take ssid_len ssid) bssid (if key_len \<noteq> 0 then Some key else None)))
    (connect_request env publish number ssid_len key_len bssid ssid key)"
proof -
  let ?good = "asked_for env (take ssid_len ssid) bssid (if key_len \<noteq> 0 then Some key else None)"
  have good: "?good (WifiConnect (bss_network_id sel) (if key_len \<noteq> 0 then Some (to_hex key) else None))"
    if "scan (ce_scan env) = Ret records" "select_bss (candidates (take ssid_len ssid) bssid (key_len \<noteq> 0) records) = Ret sel"
    for records sel
    using that select_bss_Ret [OF that(2)] unfolding asked_for_def by (auto split: if_splits)
  have confirm: "keeps (asked_properly old ?good) (confirm_bss env records t a p)" for records t a p
    unfolding confirm_bss_def by (intro keeps_intros ask_properly) simp_all
  have pub: "keeps (asked_properly old ?good) (case publish of None \<Rightarrow> retA () | Some p \<Rightarrow> p number c)" for c
    using assms by (cases publish) (auto intro: keeps_ret)
  show ?thesis
    unfolding connect_request_def Let_def
    by (intro keeps_if keeps_exc keeps_bind_ask keeps_bind_lift keeps_then keeps_bind keeps_ret ask_properly confirm pub good)
       (use good in auto)
qed

section \<open>The answer to the driver\<close>

definition connect_env_ok :: "connect_env \<Rightarrow> bool" where
  "connect_env_ok env \<longleftrightarrow> ends (ce_disconnect env) \<and> ends (ce_connect env) \<and> ends (ce_status env) \<and> ends (ce_status2 env) \<and>
     (\<forall>n req. ends (ce_scan env n req)) \<and> (\<forall>n req. ends (ce_scan2 env n req)) \<and> ends (le_ioctl (ce_link env))"

lemma endsA_ask [ends_intros]: "ends reply \<Longrightarrow> endsA (ask req reply)"
  unfolding ask_def by (intro ends_intros)

lemma endsA_on_follower [ends_intros]: "endsA m \<Longrightarrow> endsA (on_follower m)"
  by (auto simp: endsA_def on_follower_def split: option.splits prod.splits) (metis snd_conv)

lemma ends_bridge [ends_intros]:
  "ends (associated_address t a v)" "ends (select_bss rs)"
  unfolding associated_address_def select_bss_def by (auto intro!: ends_intros split: list.splits simp del: jget.simps)

lemma handle_connection_ends:
  assumes "connect_env_ok env" "\<And>p n c. publish = Some p \<Longrightarrow> endsA (p n c)"
  shows "endsA (handle_connection env publish payload)"
  using assms unfolding handle_connection_def disconnect_request_def connect_request_def confirm_bss_def Let_def connect_env_ok_def
  by (auto intro!: ends_intros split: option.splits simp del: jget.simps)

lemma publish_report_ends: "connect_env_ok (se_connect env) \<Longrightarrow> endsA (publish_report env n c)"
  unfolding publish_report_def report_def connect_env_ok_def by (auto intro!: ends_intros)

definition same_driver :: "driver_effect list \<Rightarrow> bridge \<Rightarrow> bool" where
  "same_driver es b \<longleftrightarrow> br_driver b = es"

lemma ask_driver [keeps_intros]: "keeps (same_driver es) (ask req reply)"
  unfolding ask_def by (intro keeps_intros keeps_upd) (simp add: same_driver_def)

lemma on_follower_driver [keeps_intros]: "keeps (same_driver es) (on_follower m)"
  by (rule keepsI) (auto simp: on_follower_def same_driver_def split: option.splits prod.splits)

lemma handle_connection_driver:
  assumes "\<And>p n c. publish = Some p \<Longrightarrow> keeps (same_driver es) (p n c)"
  shows "keeps (same_driver es) (handle_connection env publish payload)"
  using assms unfolding handle_connection_def disconnect_request_def connect_request_def confirm_bss_def Let_def
  by (auto intro!: keeps_intros split: option.splits)

text \<open>What a success reported for the request in \<open>connection\<close> means.\<close>

definition request_done :: "connect_env \<Rightarrow> bytes \<Rightarrow> bytes \<Rightarrow> bool" where
  "request_done env connection address \<longleftrightarrow>
     (if connection ! 4 = 1
      then \<exists>c. confirmed_on env (take (unat (connection ! 5)) (py_slice 14 46 connection)) (py_slice 8 14 connection)
             (unat (connection ! 6) \<noteq> 0) address c
      else connection ! 4 = 2 \<and> address = replicate 6 0 \<and>
           (\<exists>d. ce_status env = Ret (JDict d) \<and> truthy (dict_get d ''locationAuthorized'') \<and>
              \<not> truthy (dict_get d ''networkIdentityAvailable'')))"

lemma unat_1_2: "unat (x :: byte) = Suc 0 \<longleftrightarrow> x = 1" "unat (x :: byte) = 2 \<longleftrightarrow> x = 2"
  by (simp_all add: word_unat_eq_iff)

lemma jget_Ret: "jget v k = Ret x \<Longrightarrow> \<exists>d. v = JDict d \<and> x = dict_get d k"
  by (cases v) auto

lemma disconnect_request_Ret:
  assumes "disconnect_request env b = (b', Ret address)"
  shows "address = replicate 6 0 \<and> (\<exists>d. ce_status env = Ret (JDict d) \<and> truthy (dict_get d ''locationAuthorized'') \<and>
     \<not> truthy (dict_get d ''networkIdentityAvailable''))"
  using assms
  by (auto simp: disconnect_request_def bindA_eq_Ret thenA_eq_Ret simp del: act_at(2) jget.simps split: if_splits dest!: jget_Ret)

lemma handle_connection_done:
  assumes "handle_connection env publish connection b = (b', Ret address)"
  shows "request_done env connection address"
  using assms connect_request_Ret [of env publish _ _ _ _ _ _ b b' address] disconnect_request_Ret [of env b b' address]
  by (auto simp: handle_connection_def request_done_def Let_def unat_1_2 split: if_splits)

section \<open>Scans\<close>

lemma write_records:
  "forA (write_record env number) records b = (b', r) \<Longrightarrow>
     \<exists>ps. br_driver b' = br_driver b @ map WriteRecord ps \<and>
       list_all2 (\<lambda>c p. scan_record number c = Ret p) (take (length ps) records) ps \<and> (r = Ret () \<longrightarrow> length ps = length records)"
proof (induction records arbitrary: b)
  case (Cons c cs)
  show ?case
  proof (cases "snd (write_record env number c b) = Ret ()")
    case True
    then obtain p where p: "scan_record number c = Ret p" "fst (write_record env number c b) = b\<lparr>br_driver := br_driver b @ [WriteRecord p]\<rparr>"
      by (auto simp: write_record_def split: outcome.splits if_splits)
    then have "forA (write_record env number) cs (b\<lparr>br_driver := br_driver b @ [WriteRecord p]\<rparr>) = (b', r)"
      using Cons.prems True by (auto simp: thenA_def bindA_def split: prod.splits)
    from Cons.IH [OF this] obtain ps where "br_driver b' = br_driver b @ [WriteRecord p] @ map WriteRecord ps"
      "list_all2 (\<lambda>c p. scan_record number c = Ret p) (take (length ps) cs) ps" "r = Ret () \<longrightarrow> length ps = length cs" by auto
    then show ?thesis using p(1) by (intro exI [of _ "p # ps"]) auto
  next
    case False
    then have "b' = b" "r \<noteq> Ret ()"
      using Cons.prems by (auto simp: thenA_def bindA_def liftA_def write_record_def split: prod.splits outcome.splits if_splits)
    then show ?thesis by (intro exI [of _ "[]"]) simp
  qed
qed simp

lemma write_record_ends: "(\<And>p. ends (se_write env p)) \<Longrightarrow> endsA (write_record env number c)"
  unfolding write_record_def scan_record_def
  by (auto intro!: ends_intros simp: pack_u_def pack_i32_def pack_s_def)

lemma write_record_previous: "keeps (\<lambda>b. br_previous b = k) (write_record env number c)"
  unfolding write_record_def by (intro keeps_intros keeps_upd) simp


lemma handle_connection_properly:
  assumes "publish = None \<or> publish = Some (publish_report senv)"
  shows "keeps (asked_properly old (asked_for env (take (unat (connection ! 5)) (py_slice 14 46 connection)) (py_slice 8 14 connection)
      (if unat (connection ! 6) \<noteq> 0 then Some (py_slice 46 78 connection) else None))) (handle_connection env publish connection)"
proof -
  have pub: "keeps (asked_properly old good) (publish_report senv n c)" for good n c
    by (rule keepsI) (auto simp: publish_report_def on_follower_def asked_properly_def split: option.splits prod.splits)
  then show ?thesis
    using assms unfolding handle_connection_def Let_def disconnect_request_def
    by (intro keeps_intros ask_properly connect_request_properly) auto
qed

section \<open>Properties\<close>


definition sample_connect :: connect_env where
  "sample_connect = \<lparr>ce_disconnect = Ret JNull, ce_connect = Exc (TimeoutError ''timed out''),
     ce_status = Ret (JDict [(''locationAuthorized'', JBool True)]), ce_status2 = Ret JNull,
     ce_scan = paged_host ''12345678-1234-1234-1234-123456789abc'' 2 [sample_entry],
     ce_scan2 = \<lambda>_ _. Exc (ValueError ''Truncated host response''), ce_link = sample_link_env\<rparr>"

definition sample_serve :: serve_env where
  "sample_serve = \<lparr>se_inotify = (0, 0), se_fd = 5, se_reads = [],
     se_status_file = \<lparr>st_mtime = Exc (OSError 2 ''status.json''), st_now = 0, st_json = Ret JNull\<rparr>,
     se_connection = Ret [], se_connect = sample_connect, se_result = Ret (), se_get_scan = Ret 0, se_clock = 0, se_clock2 = 0,
     se_link = Ret [], se_state = Ret JNull, se_link_env = sample_link_env, se_signal = Ret (), se_poll = [],
     se_scan = paged_host ''12345678-1234-1234-1234-123456789abc'' 2 [sample_entry],
     se_write = \<lambda>p. Ret (length p), se_finish = Ret (), se_abort = Ret ()\<rparr>"

definition sample_bridge :: bridge where
  "sample_bridge = \<lparr>br_requests = [], br_driver = [], br_follower = Some follower_new, br_watch = None,
     br_wait = \<lparr>rw_poller = True, rw_capabilities = 3, rw_watched = None\<rparr>, br_previous = 0, br_next_signal = 9,
     br_link_error = None\<rparr>"

lemma ends_paged: "ends (paged_host sid k entries n req)"
  by (cases req) simp_all


text \<open>The credentials of a connect request reach the host in one way only: every connect call made while the
  request is handled names the strongest scanned record that matches the requested network, access point and
  security, and carries the key exactly when the request is for a private network.\<close>

theorem connection_asks_properly:
  assumes "publish = None \<or> publish = Some (publish_report senv)"
    and "handle_connection env publish connection b = (b', r)"
  shows "\<exists>new. br_requests b' = br_requests b @ new \<and>
    (\<forall>n p. WifiConnect n p \<in> set new \<longrightarrow>
       asked_for env (take (unat (connection ! 5)) (py_slice 14 46 connection)) (py_slice 8 14 connection)
         (if unat (connection ! 6) \<noteq> 0 then Some (py_slice 46 78 connection) else None) (WifiConnect n p))"
  using keepsD [OF handle_connection_properly [OF assms(1), of "br_requests b" env connection], of b] assms(2)
  by (simp add: asked_properly_def)

theorem connection_asks_properly_witness:
  "\<exists>new. br_requests (fst (handle_connection sample_connect None ([1, 0, 0, 0, 1, 1] @ replicate 8 0 @ [97] @ replicate 63 0) sample_bridge)) = new \<and>
    (\<forall>n p. WifiConnect n p \<in> set new \<longrightarrow> asked_for sample_connect [97] (replicate 6 0) None (WifiConnect n p))"
proof -
  let ?c = "[1, 0, 0, 0, 1, 1] @ replicate 8 0 @ [97] @ replicate 63 0 :: bytes"
  obtain b' r where h: "handle_connection sample_connect None ?c sample_bridge = (b', r)"
    by (cases "handle_connection sample_connect None ?c sample_bridge")
  have e: "take (unat (?c ! 5)) (py_slice 14 46 ?c) = [97]" "py_slice 8 14 ?c = replicate 6 0" "unat (?c ! 6) = 0"
    by (simp_all add: py_slice_def nth_append)
  show ?thesis
    using connection_asks_properly [of None _ sample_connect ?c sample_bridge, OF _ h] h unfolding e
    by (simp add: sample_bridge_def)
qed

text \<open>A scan request of the driver always ends: either all records of a complete host scan are written, in order
  and in the driver's format, followed by the finish ioctl of that scan, or the scan is aborted with its number; it
  is never finished with part of the records.\<close>

theorem serve_scan_complete:
  assumes "\<forall>n req. ends (se_scan env n req)" and "\<forall>p. ends (se_write env p)" and "ends (se_finish env)"
    and "se_abort env = Ret ()"
  shows "\<exists>b' ps final. serve_scan False env number b = (b', Ret False) \<and> br_previous b' = number \<and>
    br_driver b' = br_driver b @ map WriteRecord ps @ [final] \<and>
    (final = FinishScan number \<and>
       (\<exists>records. scan (se_scan env) = Ret records \<and> list_all2 (\<lambda>c p. scan_record number c = Ret p) records ps)
     \<or> final = AbortScan number)"
proof -
  let ?b = "b\<lparr>br_previous := number\<rparr>" and ?b1 = "b\<lparr>br_previous := number, br_requests := br_requests b @ [HostScan]\<rparr>"
  define body where "body = bindA (ask HostScan (scan (se_scan env))) (\<lambda>records.
      thenA (forA (write_record env number) records) (driver (FinishScan number) (se_finish env)))"
  obtain t r where body: "body ?b = (t, r)" by (cases "body ?b")
  have "endsA body" unfolding body_def driver_def
    using assms by (intro ends_intros write_record_ends) auto
  then have ends: "ends r" using body by (metis endsA_def snd_conv)
  have driver_t: "\<exists>ps. br_driver t = br_driver b @ map WriteRecord ps \<and> r \<noteq> Ret () \<or>
      br_driver t = br_driver b @ map WriteRecord ps @ [FinishScan number] \<and> r = Ret () \<and>
      (\<exists>records. scan (se_scan env) = Ret records \<and> list_all2 (\<lambda>c p. scan_record number c = Ret p) records ps)"
    and "br_previous t = number"
  proof (atomize (full), cases "scan (se_scan env)")
    case (Ret records)
    obtain u w where f: "forA (write_record env number) records ?b1 = (u, w)" by (cases "forA (write_record env number) records ?b1")
    obtain ps where ps: "br_driver u = br_driver b @ map WriteRecord ps"
      "list_all2 (\<lambda>c p. scan_record number c = Ret p) (take (length ps) records) ps" "w = Ret () \<longrightarrow> length ps = length records"
      using write_records [OF f] by auto
    have u: "br_previous u = number"
      using keepsD [OF keeps_for, of records "\<lambda>b. br_previous b = number" "write_record env number" ?b1] write_record_previous f
      by auto
    have "(t, r) = thenA (\<lambda>_. (u, w)) (driver (FinishScan number) (se_finish env)) b"
      using body Ret f by (simp add: body_def ask_def thenA_def bindA_def updA_def liftA_def)
    then show "(\<exists>ps. br_driver t = br_driver b @ map WriteRecord ps \<and> r \<noteq> Ret () \<or>
      br_driver t = br_driver b @ map WriteRecord ps @ [FinishScan number] \<and> r = Ret () \<and>
      (\<exists>records. scan (se_scan env) = Ret records \<and> list_all2 (\<lambda>c p. scan_record number c = Ret p) records ps)) \<and> br_previous t = number"
      using ps u Ret
      by (cases w; cases "se_finish env")
        (auto simp: thenA_def bindA_def driver_def liftA_def updA_def intro!: exI [of _ ps])
  qed (use body in \<open>auto simp: body_def ask_def bindA_def liftA_def thenA_def updA_def intro!: exI [of _ "[]"]\<close>)
  moreover have "serve_scan False env number b =
      (case r of Exc e \<Rightarrow> (t\<lparr>br_driver := br_driver t @ [AbortScan number]\<rparr>, Ret False) | _ \<Rightarrow> (t, Ret False))"
  proof -
    have "serve_scan False env number b = thenA (catchA body is_Exception
        (\<lambda>e. thenA (catchA (driver (AbortScan number) (se_abort env)) is_OSError (\<lambda>_. retA ())) (retA ()))) (retA False) ?b"
      by (simp add: serve_scan_def body_def)
    then show ?thesis
      using body ends assms(4) by (cases r) (simp_all add: catchA_def driver_def thenA_def bindA_def updA_def liftA_def retA_def)
  qed
  ultimately show ?thesis by (cases r) (use ends in auto)
qed

theorem serve_scan_complete_witness:
  "\<exists>b' ps final. serve_scan False sample_serve 7 sample_bridge = (b', Ret False) \<and> br_previous b' = 7 \<and>
     br_driver b' = map WriteRecord ps @ [final] \<and> (final = FinishScan 7 \<or> final = AbortScan 7)"
proof -
  have "\<forall>n req. ends (se_scan sample_serve n req)" "\<forall>p. ends (se_write sample_serve p)" "ends (se_finish sample_serve)"
    "se_abort sample_serve = Ret ()"
    by (simp_all add: sample_serve_def ends_paged)
  from serve_scan_complete [OF this, of 7 sample_bridge] show ?thesis by (auto simp: sample_bridge_def)
qed

end
