(* ===== verification/Bt_Management.thy ===== *)
theory Bt_Management
  imports Pyvalue
begin

text \<open>
  \<^verbatim>\<open>guest/devices/bluetooth_management.py\<close>: the host control request (\<^verbatim>\<open>request\<close>) and the supervised device
  operation (\<^verbatim>\<open>device_operation\<close>) with its confirmation and passkey dialogue.

  One round of the polling loop has as inputs the clock, the host's state, and what the user's callback and the
  confirmation request return; the requests sent and the codes shown are a log.
\<close>

section \<open>Host requests\<close>

text \<open>\<^verbatim>\<open>line\<close> is what \<^verbatim>\<open>readline(16385)\<close> returned after the request was sent.\<close>

definition host_reply :: "(bytes \<Rightarrow> json outcome) \<Rightarrow> bytes outcome \<Rightarrow> json outcome" where
  "host_reply loads line =
     bindO line (\<lambda>data.
     if length data > 16384 \<or> data = [] \<or> last data \<noteq> 10
     then Exc (RuntimeError ''Invalid host response framing'') else
     bindO (loads data) (\<lambda>reply.
       case reply of
         JDict d \<Rightarrow>
           if dict_get d ''ok'' \<noteq> JBool True
           then Exc (RuntimeError (case dict_get d ''error'' of JStr s \<Rightarrow> s | _ \<Rightarrow> ''Host operation failed''))
           else Ret reply
       | _ \<Rightarrow> Exc (RuntimeError ''Invalid host response'')))"

section \<open>Device operations\<close>

datatype operation_effect =
    StartOperation string string
  | PollDevices
  | ConfirmOperation json bool
  | DisplayCode int

type_synonym 'a operation_act = "(operation_effect list, 'a) act"

text \<open>\<open>ro_confirm\<close> and \<open>ro_display\<close> are None when no such callback was given; the value of the first is
  \<^verbatim>\<open>confirm(code) is True\<close>. The text of the last error is cut before the host's own result.\<close>

record operation_round =
  ro_clock :: time
  ro_state :: "json outcome"
  ro_confirm :: "bool outcome option"
  ro_confirmed :: "unit outcome"
  ro_display :: "unit outcome option"

definition log_effect :: "operation_effect \<Rightarrow> unit operation_act" where
  "log_effect eff = updA (\<lambda>log. log @ [eff])"

fun pairing_code :: "string \<Rightarrow> json \<Rightarrow> int outcome" where
  "pairing_code msg (JInt code) = (if 0 \<le> code \<and> code \<le> 999999 then Ret code else Exc (RuntimeError msg))"
| "pairing_code msg _ = Exc (RuntimeError msg)"

text \<open>The \<^verbatim>\<open>try/finally\<close> around the user's decision: the host is always told, then an exception goes on.\<close>

definition confirm_pairing :: "operation_round \<Rightarrow> json \<Rightarrow> unit operation_act" where
  "confirm_pairing r operation_id =
     (case ro_confirm r of
        None \<Rightarrow> thenA (log_effect (ConfirmOperation operation_id False)) (liftA (ro_confirmed r))
      | Some (Ret accepted) \<Rightarrow> thenA (log_effect (ConfirmOperation operation_id accepted)) (liftA (ro_confirmed r))
      | Some (Exc e) \<Rightarrow> thenA (log_effect (ConfirmOperation operation_id False)) (thenA (liftA (ro_confirmed r)) (excA e))
      | Some NoRet \<Rightarrow> liftA NoRet)"

definition check_confirmation :: "operation_round \<Rightarrow> json \<Rightarrow> dict \<Rightarrow> unit operation_act" where
  "check_confirmation r operation_id operation =
     (case map_of operation ''confirmation'' of
        None \<Rightarrow> retA ()
      | Some code \<Rightarrow>
          bindA (liftA (pairing_code ''Invalid host pairing code'' code)) (\<lambda>_. confirm_pairing r operation_id))"

definition check_passkey :: "operation_round \<Rightarrow> dict \<Rightarrow> json \<Rightarrow> json operation_act" where
  "check_passkey r operation displayed =
     (case map_of operation ''passkey'' of
        None \<Rightarrow> retA displayed
      | Some passkey \<Rightarrow>
          if py_eq passkey displayed then retA displayed
          else bindA (liftA (pairing_code ''Invalid host passkey'' passkey)) (\<lambda>code.
                 thenA (case ro_display r of
                          None \<Rightarrow> retA ()
                        | Some shown \<Rightarrow> thenA (log_effect (DisplayCode code)) (liftA shown))
                   (retA (JInt code))))"

text \<open>The operation in the host's state, which must be the one that was started.\<close>

definition read_operation :: "json \<Rightarrow> json \<Rightarrow> dict outcome" where
  "read_operation operation_id state =
     (case state of
        JDict d \<Rightarrow>
          (case (case map_of d ''operation'' of None \<Rightarrow> JDict [] | Some v \<Rightarrow> v) of
             JDict operation \<Rightarrow>
               if py_eq (dict_get operation ''id'') operation_id then Ret operation
               else Exc (RuntimeError ''Operation was superseded; inspect current device state'')
           | _ \<Rightarrow> Exc (AttributeError ''get''))
      | _ \<Rightarrow> Exc (AttributeError ''get''))"

text \<open>The polling loop, over the rounds the environment provides.\<close>

fun operation_loop :: "json \<Rightarrow> time \<Rightarrow> json \<Rightarrow> operation_round list \<Rightarrow> dict operation_act" where
  "operation_loop operation_id deadline displayed [] = liftA NoRet"
| "operation_loop operation_id deadline displayed (r # rounds) =
     (if \<not> ro_clock r < deadline
      then excA (TimeoutError ''Host operation still pending; inspect current device state before retrying'') else
      thenA (log_effect PollDevices)
      (bindA (liftA (bindO (ro_state r) (read_operation operation_id))) (\<lambda>operation.
       thenA (check_confirmation r operation_id operation)
       (bindA (check_passkey r operation displayed) (\<lambda>displayed'.
        if dict_get operation ''state'' = JStr ''complete'' then
          (if dict_get operation ''success'' \<noteq> JBool True then excA (RuntimeError ''Host device operation failed'')
           else retA operation)
        else operation_loop operation_id deadline displayed' rounds)))))"

definition device_operation :: "string \<Rightarrow> string \<Rightarrow> json outcome \<Rightarrow> time \<Rightarrow> operation_round list \<Rightarrow> dict operation_act" where
  "device_operation address action reply now rounds =
     (if action \<notin> {''bluetooth-connect'', ''bluetooth-disconnect'', ''bluetooth-pair''}
      then excA (ValueError ''Unsupported device operation'') else
      thenA (log_effect (StartOperation action address))
      (bindA (liftA reply) (\<lambda>v.
       bindA (liftA (jitem v ''operation'')) (\<lambda>op.
       bindA (liftA (jitem op ''id'')) (\<lambda>operation_id.
         operation_loop operation_id (now + (if action = ''bluetooth-pair'' then 75 else 45)) JNull rounds)))))"

definition change_connection :: "string \<Rightarrow> bool \<Rightarrow> json outcome \<Rightarrow> time \<Rightarrow> operation_round list \<Rightarrow> dict operation_act" where
  "change_connection address conn reply now rounds =
     device_operation address (if conn then ''bluetooth-connect'' else ''bluetooth-disconnect'') reply now
       (map (\<lambda>r. r\<lparr>ro_confirm := None, ro_display := None\<rparr>) rounds)"

section \<open>What the log holds\<close>

text \<open>A call only adds to the log, and what it adds satisfies \<open>P\<close>.\<close>

definition logs :: "('e list \<Rightarrow> bool) \<Rightarrow> ('e list, 'a) act \<Rightarrow> bool" where
  "logs P m \<longleftrightarrow> (\<forall>lg. \<exists>new. fst (m lg) = lg @ new \<and> P new)"

definition confirms :: "operation_effect list \<Rightarrow> (json \<times> bool) list" where
  "confirms lg = concat (map (\<lambda>eff. case eff of ConfirmOperation i a \<Rightarrow> [(i, a)] | _ \<Rightarrow> []) lg)"

definition polls :: "operation_effect list \<Rightarrow> nat" where
  "polls lg = length (filter (\<lambda>eff. eff = PollDevices) lg)"

definition starts :: "operation_effect list \<Rightarrow> nat" where
  "starts lg = length (filter (\<lambda>eff. case eff of StartOperation _ _ \<Rightarrow> True | _ \<Rightarrow> False) lg)"

lemma confirms_simps [simp]: "confirms [] = []" "confirms (lg @ new) = confirms lg @ confirms new"
    "confirms [ConfirmOperation i a] = [(i, a)]" "confirms [PollDevices] = []" "confirms [DisplayCode c] = []"
    "confirms [StartOperation x y] = []"
  by (simp_all add: confirms_def)

lemma polls_simps [simp]: "polls [] = 0" "polls (lg @ new) = polls lg + polls new" "polls [PollDevices] = 1"
    "polls [ConfirmOperation i a] = 0" "polls [DisplayCode c] = 0" "polls [StartOperation x y] = 0"
  by (simp_all add: polls_def)

lemma starts_simps [simp]: "starts [] = 0" "starts (lg @ new) = starts lg + starts new" "starts [PollDevices] = 0"
    "starts [ConfirmOperation i a] = 0" "starts [DisplayCode c] = 0" "starts [StartOperation x y] = 1"
  by (simp_all add: starts_def)

text \<open>What \<open>n\<close> rounds may add for the operation \<open>i\<close>, when the user said yes only if \<open>yes\<close>.\<close>

definition dialogue :: "json \<Rightarrow> bool \<Rightarrow> nat \<Rightarrow> nat \<Rightarrow> operation_effect list \<Rightarrow> bool" where
  "dialogue i yes c n new \<longleftrightarrow> length (confirms new) \<le> c \<and> polls new \<le> n \<and> starts new = 0 \<and>
     (\<forall>(j, a) \<in> set (confirms new). j = i \<and> (a \<longrightarrow> yes))"

lemma dialogue_append:
  "dialogue i yes c n as \<Longrightarrow> dialogue i yes' c' n' bs \<Longrightarrow> (yes \<longrightarrow> y) \<Longrightarrow> (yes' \<longrightarrow> y) \<Longrightarrow> c + c' \<le> k \<Longrightarrow> n + n' \<le> m \<Longrightarrow>
     dialogue i y k m (as @ bs)"
  by (fastforce simp: dialogue_def)

lemma logs_ret: "P [] \<Longrightarrow> logs P (retA x)" and logs_exc: "P [] \<Longrightarrow> logs P (excA e)"
  and logs_lift: "P [] \<Longrightarrow> logs P (liftA r)" and logs_eff: "P [eff] \<Longrightarrow> logs P (log_effect eff)"
  by (auto simp: logs_def act_defs log_effect_def)

lemma logsD: "logs P m \<Longrightarrow> \<exists>new. fst (m lg) = lg @ new \<and> P new"
  by (simp add: logs_def)

lemma logs_bind:
  assumes "logs P m" "\<And>x. logs Q (f x)" "\<And>as. P as \<Longrightarrow> R as" "\<And>as bs. P as \<Longrightarrow> Q bs \<Longrightarrow> R (as @ bs)"
  shows "logs R (bindA m f)"
  unfolding logs_def
proof
  fix lg
  obtain new where new: "fst (m lg) = lg @ new" "P new" using assms(1) by (auto simp: logs_def)
  obtain t r where m: "m lg = (t, r)" by (cases "m lg")
  show "\<exists>new. fst (bindA m f lg) = lg @ new \<and> R new"
  proof (cases r)
    case (Ret x)
    obtain more where "fst (f x (lg @ new)) = (lg @ new) @ more" "Q more" using assms(2) unfolding logs_def by blast
    then show ?thesis using new m Ret assms(4) by (auto simp: bindA_def)
  qed (use new m assms(3) in \<open>auto simp: bindA_def\<close>)
qed

lemma logs_then: "logs P m \<Longrightarrow> logs Q k \<Longrightarrow> (\<And>as. P as \<Longrightarrow> R as) \<Longrightarrow> (\<And>as bs. P as \<Longrightarrow> Q bs \<Longrightarrow> R (as @ bs)) \<Longrightarrow> logs R (thenA m k)"
  unfolding thenA_def by (rule logs_bind)

text \<open>The same rules for a call that starts with an input or an entry of the log.\<close>

lemma logs_input: "P [] \<Longrightarrow> (\<And>x. logs P (f x)) \<Longrightarrow> logs P (bindA (liftA r) f)"
  by (cases r) (auto simp: logs_def act_defs)

lemma logs_entry:
  assumes "logs (\<lambda>new. P (eff # new)) k"
  shows "logs P (thenA (log_effect eff) k)"
  unfolding logs_def
proof
  fix lg
  obtain new where "fst (k (lg @ [eff])) = (lg @ [eff]) @ new" "P (eff # new)" using assms unfolding logs_def by blast
  then show "\<exists>new. fst (thenA (log_effect eff) k lg) = lg @ new \<and> P new" by (auto simp: log_effect_def)
qed

lemma logs_if: "logs P m \<Longrightarrow> logs P k \<Longrightarrow> logs P (if c then m else k)"
  by simp

lemma logs_lift_then: "P [] \<Longrightarrow> logs P k \<Longrightarrow> logs P (thenA (liftA r) k)"
  unfolding thenA_def by (rule logs_input)

lemma dialogue_weaken: "dialogue i y c n as \<Longrightarrow> (y \<longrightarrow> y') \<Longrightarrow> c \<le> c' \<Longrightarrow> n \<le> n' \<Longrightarrow> dialogue i y' c' n' as"
  by (fastforce simp: dialogue_def)

lemma dialogue_simps [simp]:
  "dialogue i y c n []"
  "dialogue i y c n (PollDevices # new) \<longleftrightarrow> 0 < n \<and> dialogue i y c (n - 1) new"
  "dialogue i y c n (DisplayCode d # new) \<longleftrightarrow> dialogue i y c n new"
  "dialogue i y c n (ConfirmOperation j a # new) \<longleftrightarrow> 0 < c \<and> j = i \<and> (a \<longrightarrow> y) \<and> dialogue i y (c - 1) n new"
  by (auto simp: dialogue_def confirms_def polls_def starts_def)

lemma confirmation_logs:
  "logs (dialogue i (ro_confirm r = Some (Ret True)) 1 0) (check_confirmation r i op)"
  unfolding check_confirmation_def confirm_pairing_def
  by (auto split: option.splits outcome.splits intro!: logs_ret logs_input logs_entry logs_lift_then logs_lift logs_exc)

lemma passkey_logs: "logs (dialogue i False 0 0) (check_passkey r op displayed)"
proof -
  have shown: "logs (dialogue i False 0 0) (case ro_display r of None \<Rightarrow> retA () | Some shown \<Rightarrow> thenA (log_effect (DisplayCode c)) (liftA shown))" for c
    by (auto split: option.splits intro!: logs_ret logs_entry logs_lift)
  have "logs (dialogue i False 0 0) (thenA (case ro_display r of None \<Rightarrow> retA () | Some shown \<Rightarrow> thenA (log_effect (DisplayCode c)) (liftA shown)) (retA x))" for c x
    by (rule logs_then [OF shown logs_ret [of "\<lambda>new. new = []"]]) simp_all
  then show ?thesis
    unfolding check_passkey_def by (auto split: option.splits intro!: logs_ret logs_input)
qed

abbreviation said_yes :: "operation_round list \<Rightarrow> bool" where
  "said_yes rounds \<equiv> \<exists>r \<in> set rounds. ro_confirm r = Some (Ret True)"

abbreviation rounds_log :: "json \<Rightarrow> operation_round list \<Rightarrow> operation_effect list \<Rightarrow> bool" where
  "rounds_log i rounds \<equiv> dialogue i (said_yes rounds) (length rounds) (length rounds)"

lemma round_logs:
  assumes "\<And>shown. logs (rounds_log i rounds) (k shown)"
  shows "logs (\<lambda>new. rounds_log i (r # rounds) (PollDevices # new))
    (thenA (check_confirmation r i op) (bindA (check_passkey r op displayed) k))"
proof (rule logs_then [OF confirmation_logs logs_bind [OF passkey_logs assms]])
  fix as bs assume "dialogue i False 0 0 as" "rounds_log i rounds bs"
  then show "rounds_log i rounds (as @ bs)" by (rule dialogue_append) auto
next
  fix as bs assume "dialogue i (ro_confirm r = Some (Ret True)) 1 0 as" "rounds_log i rounds bs"
  then have "dialogue i (said_yes (r # rounds)) (Suc (length rounds)) (length rounds) (as @ bs)"
    by (rule dialogue_append) auto
  then show "rounds_log i (r # rounds) (PollDevices # as @ bs)" by simp
qed (auto intro: dialogue_weaken)

lemma loop_logs: "logs (rounds_log i rounds) (operation_loop i deadline displayed rounds)"
proof (induction rounds arbitrary: displayed)
  case (Cons r rounds)
  then show ?case
    unfolding operation_loop.simps
    by (intro logs_if logs_exc logs_entry logs_input round_logs logs_ret) simp_all
qed (simp add: logs_lift)

section \<open>Outcomes of an operation\<close>

lemma read_operation_id: "read_operation i state = Ret op \<Longrightarrow> py_eq (dict_get op ''id'') i"
  by (auto simp: read_operation_def split: json.splits if_splits)

lemma loop_success:
  "operation_loop i deadline displayed rounds lg = (lg', Ret op) \<Longrightarrow>
     dict_get op ''state'' = JStr ''complete'' \<and> dict_get op ''success'' = JBool True \<and> py_eq (dict_get op ''id'') i"
proof (induction rounds arbitrary: displayed lg)
  case (Cons r rounds)
  show ?case
    using Cons.prems Cons.IH
    by (auto simp: bindA_eq_Ret thenA_eq_Ret bindO_eq_Ret simp del: act_at(2) split: if_splits dest: read_operation_id)
qed simp

definition started_as :: "json outcome \<Rightarrow> json outcome" where
  "started_as reply = bindO reply (\<lambda>v. bindO (jitem v ''operation'') (\<lambda>op. jitem op ''id''))"

lemma device_operation_cases:
  "device_operation address action reply now rounds lg =
     (if action \<notin> {''bluetooth-connect'', ''bluetooth-disconnect'', ''bluetooth-pair''}
      then (lg, Exc (ValueError ''Unsupported device operation''))
      else (case started_as reply of
          Ret i \<Rightarrow> operation_loop i (now + (if action = ''bluetooth-pair'' then 75 else 45)) JNull rounds (lg @ [StartOperation action address])
        | Exc e \<Rightarrow> (lg @ [StartOperation action address], Exc e)
        | NoRet \<Rightarrow> (lg @ [StartOperation action address], NoRet)))"
  by (auto simp: device_operation_def started_as_def log_effect_def split: outcome.splits)


section \<open>The operation ends\<close>

definition round_ends :: "operation_round \<Rightarrow> bool" where
  "round_ends r \<longleftrightarrow> ends (ro_state r) \<and> ends (ro_confirmed r) \<and>
     (case ro_confirm r of None \<Rightarrow> True | Some c \<Rightarrow> ends c) \<and> (case ro_display r of None \<Rightarrow> True | Some d \<Rightarrow> ends d)"

lemma pairing_code_ends [ends_intros]: "ends (pairing_code msg v)"
  by (cases v) simp_all

lemma confirmation_ends: "round_ends r \<Longrightarrow> endsA (check_confirmation r i op)"
  unfolding check_confirmation_def confirm_pairing_def log_effect_def
  by (auto simp: round_ends_def split: option.splits outcome.splits intro!: ends_intros)

lemma passkey_ends: "round_ends r \<Longrightarrow> endsA (check_passkey r op displayed)"
  unfolding check_passkey_def log_effect_def
  by (auto simp: round_ends_def split: option.splits intro!: ends_intros)

lemma read_operation_ends: "ends (read_operation i state)"
  by (auto simp: read_operation_def split: json.splits option.splits)

lemma loop_ends:
  assumes "\<And>k. k < length rounds \<Longrightarrow> start + of_nat k / 2 \<le> ro_clock (rounds ! k)" "\<And>r. r \<in> set rounds \<Longrightarrow> round_ends r"
    "deadline \<le> start + of_nat n / 2" "n < length rounds"
  shows "endsA (operation_loop i deadline displayed rounds)"
  using assms
proof (induction rounds arbitrary: displayed start n)
  case (Cons r rounds)
  show ?case
  proof (cases "ro_clock r < deadline")
    case False
    then show ?thesis by (simp add: endsA_def)
  next
    case True
    have "start \<le> ro_clock r" using Cons.prems(1) [of 0] by simp
    then have "start < start + of_nat n / 2" using True Cons.prems(3) by linarith
    then obtain m where m: "n = Suc m" by (cases n) auto
    have "endsA (operation_loop i deadline d rounds)" for d
    proof (rule Cons.IH [where start = "start + 1 / 2" and n = m])
      show "start + 1 / 2 + of_nat k / 2 \<le> ro_clock (rounds ! k)" if "k < length rounds" for k
        using Cons.prems(1) [of "Suc k"] that by (simp add: field_simps)
      show "deadline \<le> start + 1 / 2 + of_nat m / 2" using Cons.prems(3) m by (simp add: field_simps)
    qed (use Cons.prems m in auto)
    moreover have r: "round_ends r" "ends (ro_state r)" using Cons.prems(2) by (simp_all add: round_ends_def)
    ultimately show ?thesis
      unfolding operation_loop.simps log_effect_def
      by (intro ends_intros confirmation_ends passkey_ends read_operation_ends) simp_all
  qed
qed simp


text \<open>A device operation ends, one way or another, within 151 looks at the clock, when each round takes at least
  the half second the loop sleeps and every request and callback returns or raises.\<close>

theorem device_operation_ends:
  assumes "\<And>k. k < length rounds \<Longrightarrow> now + of_nat k / 2 \<le> ro_clock (rounds ! k)"
    "\<And>r. r \<in> set rounds \<Longrightarrow> round_ends r" "ends reply" "150 < length rounds"
  shows "ends (snd (device_operation address action reply now rounds lg))"
proof -
  have "ends (started_as reply)" unfolding started_as_def by (intro ends_intros assms(3))
  moreover have "endsA (operation_loop i (now + (if action = ''bluetooth-pair'' then 75 else 45)) JNull rounds)" for i
    by (rule loop_ends [where start = now and n = 150]) (use assms in auto)
  ultimately show ?thesis
    by (auto simp: device_operation_cases endsA_def split: outcome.splits)
qed

definition patient_rounds :: "operation_round list" where
  "patient_rounds = map (\<lambda>k. \<lparr>ro_clock = of_nat k, ro_state = Ret (JDict []), ro_confirm = None, ro_confirmed = Ret (),
     ro_display = None\<rparr>) [0..<200]"

theorem device_operation_ends_witness:
  "ends (snd (device_operation ''00:11:22:33:44:55'' ''bluetooth-pair'' (Ret JNull) 0 patient_rounds []))"
  by (rule device_operation_ends) (auto simp: patient_rounds_def round_ends_def)

definition pairing_rounds :: "operation_round list" where
  "pairing_rounds = (let state = (\<lambda>op. Ret (JDict [(''operation'', JDict ((''id'', JStr ''7'') # op))])) in
     [\<lparr>ro_clock = 1, ro_state = state [(''confirmation'', JInt 123456)], ro_confirm = Some (Ret True), ro_confirmed = Ret (),
        ro_display = None\<rparr>,
      \<lparr>ro_clock = 2, ro_state = state [(''state'', JStr ''complete''), (''success'', JBool True)], ro_confirm = Some (Ret True),
        ro_confirmed = Ret (), ro_display = None\<rparr>])"


end
