(* ===== verification/Wifi_Power.thy ===== *)
theory Wifi_Power
  imports Timers Bt_Management
begin

text \<open>
  \<^verbatim>\<open>guest/devices/wifi_power.py\<close>: the guest's radio switch (\<^verbatim>\<open>RadioIntent\<close>) and its synchronization with the host
  (\<^verbatim>\<open>WiFiPower\<close>).

  The object \<^verbatim>\<open>events\<close> is present through its key and the timers \<^verbatim>\<open>refresh\<close> and \<^verbatim>\<open>retry\<close> that this class asks for;
  the worker thread is the one outstanding job. rfkill reads and writes and host replies are inputs.
\<close>

section \<open>Radio intent\<close>

record radio =
  ra_index :: nat
  ra_soft :: nat
  ra_initialized :: bool
  ra_expected :: "nat option"
  ra_serial :: nat
  ra_pending :: "(nat \<times> bool) option"

definition radio_new :: "nat \<Rightarrow> nat \<Rightarrow> radio" where
  "radio_new index soft = \<lparr>ra_index = index, ra_soft = soft, ra_initialized = False, ra_expected = None,
     ra_serial = 0, ra_pending = None\<rparr>"

definition radio_observe :: "nat \<Rightarrow> radio \<Rightarrow> radio \<times> bool" where
  "radio_observe soft r =
     (let r1 = r\<lparr>ra_soft := soft, ra_expected := None\<rparr> in
      if Some soft = ra_expected r \<or> soft = ra_soft r \<or> \<not> ra_initialized r then (r1, False)
      else (r1\<lparr>ra_serial := ra_serial r + 1, ra_pending := Some (ra_serial r + 1, soft = 0)\<rparr>, True))"

definition radio_attempted :: "(nat \<times> bool) option \<Rightarrow> radio \<Rightarrow> radio" where
  "radio_attempted attempt r =
     (if attempt \<noteq> None \<and> ra_pending r = attempt then r\<lparr>ra_pending := None\<rparr> else r)"

text \<open>\<open>write\<close> is the outcome of \<^verbatim>\<open>write_radio(index, desired)\<close>; the second component the write made, if any.\<close>

definition radio_apply :: "bool \<Rightarrow> unit outcome \<Rightarrow> radio \<Rightarrow> radio \<times> nat option \<times> unit outcome" where
  "radio_apply powered write r =
     (let r1 = r\<lparr>ra_initialized := True\<rparr> in
      if (case ra_pending r1 of Some (_, wanted) \<Rightarrow> wanted \<noteq> powered | None \<Rightarrow> False) then (r1, None, Ret ())
      else (let r2 = r1\<lparr>ra_pending := None\<rparr>; desired = (if powered then 0 else 1) in
            if desired \<noteq> ra_soft r2 then
              (case write of
                 Ret _ \<Rightarrow> (r2\<lparr>ra_expected := Some desired, ra_soft := desired\<rparr>, Some desired, Ret ())
               | _ \<Rightarrow> (r2, Some desired, write))
            else (r2, None, Ret ())))"

definition radio_inactive :: "radio \<Rightarrow> radio" where
  "radio_inactive r = r\<lparr>ra_initialized := False, ra_pending := None\<rparr>"

section \<open>The synchronization service\<close>

datatype power_cb = PowerRefresh | PowerNotify

text \<open>\<open>pw_job\<close> is the work handed to the executor (the key at submission and the attempt), \<open>pw_submitted\<close> the
  attempts handed over so far, \<open>pw_writes\<close> the rfkill writes.\<close>

record power = "power_cb timers" +
  pw_key :: "revision_key option"
  pw_radio :: radio
  pw_closed :: bool
  pw_busy :: bool
  pw_dirty :: bool
  pw_failed :: bool
  pw_error :: "exn option"
  pw_quit :: bool
  pw_job :: "(revision_key option \<times> (nat \<times> bool) option) option"
  pw_submitted :: "(nat \<times> bool) list"
  pw_writes :: "nat list"

definition power_new :: "nat \<Rightarrow> nat \<Rightarrow> power" where
  "power_new index soft = \<lparr>tm_sources = [], tm_glib = [], tm_next = 1, tm_closed = False,
     pw_key = None, pw_radio = radio_new index soft, pw_closed = False, pw_busy = False, pw_dirty = False,
     pw_failed = False, pw_error = None, pw_quit = False, pw_job = None, pw_submitted = [], pw_writes = []\<rparr>"

definition power_active :: "power \<Rightarrow> bool" where
  "power_active p = key_active (pw_key p)"

definition on_radio :: "(radio \<Rightarrow> radio) \<Rightarrow> (power, unit) act" where
  "on_radio f = updA (\<lambda>p. p\<lparr>pw_radio := f (pw_radio p)\<rparr>)"

definition power_fail :: "exn \<Rightarrow> (power, unit) act" where
  "power_fail e = updA (\<lambda>p. p\<lparr>pw_error := Some e, pw_quit := True\<rparr>)"

definition power_notify :: "(power, unit) act" where
  "power_notify =
     bindA (getA (\<lambda>p. \<not> pw_closed p \<and> power_active p)) (\<lambda>go.
       if go then thenA (updA (\<lambda>p. p\<lparr>pw_dirty := True\<rparr>)) (later ''refresh'' 40 PowerRefresh) else retA ())"

text \<open>The event object calls \<^verbatim>\<open>host_changed\<close> after it has stored its new key.\<close>

definition power_host_changed :: "revision_key option \<Rightarrow> (power, unit) act" where
  "power_host_changed key =
     thenA (updA (\<lambda>p. p\<lparr>pw_key := key\<rparr>))
     (thenA (bindA (getA power_active) (\<lambda>active. if active then retA () else on_radio radio_inactive))
            power_notify)"

text \<open>\<^verbatim>\<open>RFKILL = struct.Struct('<IBBBB')\<close>: index, kind, operation, soft, hard.\<close>

definition power_rfkill_event :: "bytes \<Rightarrow> (power, unit) act" where
  "power_rfkill_event data =
     (if length data \<noteq> 8 then excA (RuntimeError ''Incomplete rfkill event'') else
      let index = from_le (take 4 data); kind = unat (data ! 4); operation = unat (data ! 5);
          soft = unat (data ! 6); hard = unat (data ! 7) in
      bindA (getA pw_radio) (\<lambda>r.
        if kind \<noteq> 1 \<or> index \<noteq> ra_index r then retA ()
        else if operation = 1 then excA (RuntimeError ''Wi-Fi radio removed'')
        else if operation \<notin> {0, 2} \<or> soft \<notin> {0, 1} \<or> hard \<notin> {0, 1}
        then excA (ValueError ''Invalid Wi-Fi rfkill event'')
        else thenA (on_radio (\<lambda>r. fst (radio_observe soft r)))
               (if snd (radio_observe soft r) then power_notify else retA ())))"

text \<open>\<^verbatim>\<open>while True: os.read\<close> until it would block, over what the reads return.\<close>

fun power_read_radio :: "bytes outcome list \<Rightarrow> (power, unit) act" where
  "power_read_radio [] = liftA NoRet"
| "power_read_radio (r # reads) =
     (case r of
        Exc BlockingIOError \<Rightarrow> retA ()
      | Exc e \<Rightarrow> excA e
      | NoRet \<Rightarrow> liftA NoRet
      | Ret data \<Rightarrow> thenA (power_rfkill_event data) (power_read_radio reads))"

definition power_radio_ready :: "bool \<Rightarrow> bytes outcome list \<Rightarrow> (power, unit) act" where
  "power_radio_ready broken reads =
     catchA (if broken then excA (RuntimeError ''Wi-Fi rfkill channel closed'') else power_read_radio reads)
       (\<lambda>e. is_OSError e \<or> is_ValueError e \<or> is_RuntimeError e) power_fail"

text \<open>\<open>written\<close> is what \<^verbatim>\<open>os.write\<close> returned for the 8-byte event.\<close>

definition write_radio :: "nat outcome \<Rightarrow> unit outcome" where
  "write_radio written = bindO written (\<lambda>n. if n \<noteq> 8 then Exc (RuntimeError ''Incomplete radio state write'') else Ret ())"

text \<open>The job of the worker thread: the powered state it found, or None, and the problem it met.\<close>

definition power_fetch :: "bool \<Rightarrow> unit outcome \<Rightarrow> json outcome \<Rightarrow> (nat \<times> bool) option \<Rightarrow> (bool option \<times> string option) outcome" where
  "power_fetch stopped power_reply status_reply attempt =
     (let caught = (\<lambda>e. is_OSError e \<or> is_ValueError e \<or> is_RuntimeError e) in
      if attempt \<noteq> None \<and> stopped then Ret (None, Some ''Stopped'') else
      bindO (if attempt = None then Ret None
             else catchO (bindO power_reply (\<lambda>_. Ret None)) caught (\<lambda>e. Ret (Some (exn_name e)))) (\<lambda>problem.
      catchO (bindO status_reply (\<lambda>state.
              bindO (jget state ''powered'') (\<lambda>powered.
                case powered of JBool b \<Rightarrow> Ret (Some b, problem) | _ \<Rightarrow> Exc (ValueError ''Missing host radio state''))))
        caught (\<lambda>e. Ret (None, Some (exn_name e)))))"

definition power_refresh :: "bytes outcome list \<Rightarrow> (power, unit) act" where
  "power_refresh reads =
     bindA (getA (\<lambda>p. pw_closed p \<or> pw_busy p \<or> \<not> pw_dirty p \<or> \<not> power_active p)) (\<lambda>skip.
       if skip then retA () else
       bindA (catchA (thenA (power_read_radio reads) (retA True)) is_Exception
                (\<lambda>e. thenA (power_fail e) (retA False))) (\<lambda>ok.
         if \<not> ok then retA () else
         updA (\<lambda>p. let attempt = (if ra_initialized (pw_radio p) then ra_pending (pw_radio p) else None) in
           p\<lparr>pw_dirty := False, pw_busy := True, pw_job := Some (pw_key p, attempt),
             pw_submitted := pw_submitted p @ (case attempt of None \<Rightarrow> [] | Some a \<Rightarrow> [a])\<rparr>)))"

definition power_apply :: "nat outcome \<Rightarrow> bool \<Rightarrow> (power, unit) act" where
  "power_apply written powered =
     bindA (getA (\<lambda>p. radio_apply powered (write_radio written) (pw_radio p))) (\<lambda>(r, w, res).
       thenA (updA (\<lambda>p. p\<lparr>pw_radio := r, pw_writes := pw_writes p @ (case w of None \<Rightarrow> [] | Some d \<Rightarrow> [d])\<rparr>)) (liftA res))"

definition power_result :: "nat outcome \<Rightarrow> revision_key option \<Rightarrow> bool option \<Rightarrow> string option \<Rightarrow> (power, unit) act" where
  "power_result written key powered problem =
     bindA (getA (\<lambda>p. \<not> key_eq key (pw_key p) \<or> \<not> power_active p)) (\<lambda>stale.
       if stale then power_notify else
       thenA (updA (\<lambda>p. p\<lparr>pw_failed := (problem \<noteq> None)\<rparr>))
       (thenA (case powered of
                 None \<Rightarrow> thenA (on_radio (\<lambda>r. r\<lparr>ra_initialized := False\<rparr>)) (later ''retry'' 1000 PowerNotify)
               | Some on \<Rightarrow>
                   thenA (power_apply written on)
                   (updA (\<lambda>p. if ra_pending (pw_radio p) \<noteq> None then p\<lparr>pw_dirty := True\<rparr> else p)))
       (bindA (getA pw_dirty) (\<lambda>dirty. if dirty then power_notify else retA ()))))"

text \<open>\<^verbatim>\<open>finish\<close>, scheduled with \<^verbatim>\<open>idle_add\<close> once the job is done; \<open>future\<close> is the job's result.\<close>

definition power_finish :: "bytes outcome list \<Rightarrow> nat outcome \<Rightarrow> (bool option \<times> string option) outcome \<Rightarrow> (power, unit) act" where
  "power_finish reads written future =
     bindA (getA (\<lambda>p. (pw_closed p, pw_job p))) (\<lambda>(closed, job).
       case job of
         None \<Rightarrow> retA ()
       | Some (key, attempt) \<Rightarrow>
           if closed then retA () else
           thenA (updA (\<lambda>p. p\<lparr>pw_busy := False, pw_job := None\<rparr>))
           (catchA
              (thenA (power_read_radio reads)
              (thenA (on_radio (radio_attempted attempt))
              (bindA (liftA future) (\<lambda>(powered, problem). power_result written key powered problem))))
              is_Exception power_fail))"

definition power_close :: "(power, unit) act" where
  "power_close = thenA (updA (\<lambda>p. p\<lparr>pw_closed := True\<rparr>)) close_sources"

fun power_run :: "bytes outcome list \<Rightarrow> power_cb \<Rightarrow> (power, unit) act" where
  "power_run reads PowerRefresh = power_refresh reads"
| "power_run reads PowerNotify = power_notify"

section \<open>Steps of the service\<close>

datatype power_event =
    HostChanged "revision_key option"
  | RadioReady bool "bytes outcome list"
  | TimerFired nat "bytes outcome list"
  | JobDone "bytes outcome list" "nat outcome" "(bool option \<times> string option) outcome"
  | ClosePower

fun power_handle :: "power_event \<Rightarrow> (power, unit) act" where
  "power_handle (HostChanged key) = power_host_changed key"
| "power_handle (RadioReady broken reads) = power_radio_ready broken reads"
| "power_handle (TimerFired ident reads) = fire (power_run reads) ident"
| "power_handle (JobDone reads written future) = power_finish reads written future"
| "power_handle ClosePower = power_close"

text \<open>The rfkill descriptor does not block: after some events a read raises.\<close>

fun drains :: "bytes outcome list \<Rightarrow> bool" where
  "drains [] = False"
| "drains (Ret _ # reads) = drains reads"
| "drains (Exc e # _) = is_Exception e"
| "drains (NoRet # _) = False"

fun power_env :: "power_event \<Rightarrow> bool" where
  "power_env (RadioReady broken reads) = drains reads"
| "power_env (TimerFired ident reads) = drains reads"
| "power_env (JobDone reads written future) = drains reads"
| "power_env _ = True"

text \<open>The main loop runs until it is told to quit.\<close>

inductive power_step :: "power \<Rightarrow> power \<Rightarrow> bool" where
  power_stepI: "\<not> pw_quit p \<Longrightarrow> power_env ev \<Longrightarrow> power_handle ev p = (p', Ret ()) \<Longrightarrow> power_step p p'"

inductive_cases power_stepE: "power_step p p'"

section \<open>The invariant\<close>

text \<open>
  No choice of the user is handed to the host twice, and their order is kept: the choice that is pending is newer
  than all that were submitted, unless it is the one being worked on (or \<open>X\<close>, which is about to be cleared).
\<close>

definition serials_but :: "(nat \<times> bool) option \<Rightarrow> power \<Rightarrow> bool" where
  "serials_but X p \<longleftrightarrow> sorted_wrt (<) (map fst (pw_submitted p)) \<and>
     (\<forall>a \<in> set (pw_submitted p). fst a \<le> ra_serial (pw_radio p)) \<and>
     (\<forall>a. ra_pending (pw_radio p) = Some a \<longrightarrow> fst a \<le> ra_serial (pw_radio p) \<and>
        (pw_quit p \<or> (\<forall>b \<in> set (pw_submitted p). fst b < fst a) \<or> (\<exists>key. pw_job p = Some (key, Some a)) \<or> X = Some a)) \<and>
     (\<forall>key a. pw_job p = Some (key, Some a) \<longrightarrow> a \<in> set (pw_submitted p)) \<and>
     (pw_busy p \<longleftrightarrow> pw_job p \<noteq> None)"

lemma serials_shrink:
  assumes "serials_but X p" "pw_submitted p' = pw_submitted p" "pw_job p' = pw_job p" "pw_busy p' = pw_busy p"
    "pw_quit p' = pw_quit p" "ra_serial (pw_radio p') = ra_serial (pw_radio p)"
    "ra_pending (pw_radio p') = None \<or> ra_pending (pw_radio p') = ra_pending (pw_radio p) \<and> (X = None \<or> ra_pending (pw_radio p) \<noteq> X)"
  shows "serials_but None p'"
  using assms unfolding serials_but_def by (cases "ra_pending (pw_radio p')") auto

lemma power_later [simp]:
  fixes p :: power
  shows "pw_key (fst (later n ms cb p)) = pw_key p" "pw_radio (fst (later n ms cb p)) = pw_radio p"
    "pw_closed (fst (later n ms cb p)) = pw_closed p" "pw_busy (fst (later n ms cb p)) = pw_busy p"
    "pw_dirty (fst (later n ms cb p)) = pw_dirty p" "pw_quit (fst (later n ms cb p)) = pw_quit p"
    "pw_job (fst (later n ms cb p)) = pw_job p" "pw_submitted (fst (later n ms cb p)) = pw_submitted p"
  by (simp_all add: later_def glib_add_def)

lemma power_remove [simp]:
  fixes p :: power
  shows "pw_key (fst (remove_source n p)) = pw_key p" "pw_radio (fst (remove_source n p)) = pw_radio p"
    "pw_closed (fst (remove_source n p)) = pw_closed p" "pw_busy (fst (remove_source n p)) = pw_busy p"
    "pw_dirty (fst (remove_source n p)) = pw_dirty p" "pw_quit (fst (remove_source n p)) = pw_quit p"
    "pw_job (fst (remove_source n p)) = pw_job p" "pw_submitted (fst (remove_source n p)) = pw_submitted p"
  by (simp_all add: remove_source_def split: option.splits)

lemma serials_later [keeps_intros]: "keeps (serials_but X) (later n ms cb)"
  by (rule keepsI) (simp add: serials_but_def)

lemma serials_remove [keeps_intros]: "keeps (serials_but X) (remove_source n)"
  by (rule keepsI) (simp add: serials_but_def)

lemma serials_notify [keeps_intros]: "keeps (serials_but X) power_notify"
  unfolding power_notify_def by (intro keeps_intros keeps_upd) (simp add: serials_but_def)

lemma serials_fail: "serials_but X p \<Longrightarrow> serials_but None (fst (power_fail e p))"
  unfolding power_fail_def by (auto simp: serials_but_def)

lemma serials_observe: "serials_but X p \<Longrightarrow> serials_but X (p\<lparr>pw_radio := fst (radio_observe soft (pw_radio p))\<rparr>)"
  by (fastforce simp: serials_but_def radio_observe_def Let_def split: if_splits)

lemma serials_event [keeps_intros]: "keeps (serials_but X) (power_rfkill_event data)"
  unfolding power_rfkill_event_def Let_def on_radio_def
  by (intro keeps_intros keeps_upd serials_observe)

lemma serials_read [keeps_intros]: "keeps (serials_but X) (power_read_radio reads)"
  by (induction reads) (auto intro!: keeps_intros split: outcome.splits exn.splits)

lemma serials_radio_ready: "keeps (serials_but None) (power_radio_ready broken reads)"
  unfolding power_radio_ready_def by (intro keeps_intros keepsI serials_fail)

lemma serials_host_changed: "keeps (serials_but None) (power_host_changed key)"
  unfolding power_host_changed_def on_radio_def
  by (intro keeps_intros keeps_upd) (auto simp: serials_but_def radio_inactive_def)

text \<open>What reading the rfkill queue leaves alone.\<close>

definition job_is :: "bool \<Rightarrow> (revision_key option \<times> (nat \<times> bool) option) option \<Rightarrow> power \<Rightarrow> bool" where
  "job_is q j p \<longleftrightarrow> pw_job p = j \<and> pw_quit p = q"

lemma job_is_read: "keeps (job_is q j) (power_read_radio reads)"
proof -
  have "keeps (job_is q j) power_notify"
    unfolding power_notify_def by (auto intro!: keeps_intros keeps_upd keepsI simp: job_is_def)
  then have "keeps (job_is q j) (power_rfkill_event data)" for data
    unfolding power_rfkill_event_def Let_def on_radio_def
    by (intro keeps_intros keeps_upd) (simp_all add: job_is_def)
  then show ?thesis
    by (induction reads) (auto intro!: keeps_intros split: outcome.splits exn.splits)
qed

lemma serials_submit:
  assumes "serials_but None p" "job_is False None p" "attempt = None \<or> attempt = ra_pending (pw_radio p)"
  shows "serials_but None (p\<lparr>pw_dirty := False, pw_busy := True, pw_job := Some (k, attempt),
    pw_submitted := pw_submitted p @ (case attempt of None \<Rightarrow> [] | Some a \<Rightarrow> [a])\<rparr>)"
  using assms unfolding serials_but_def job_is_def
  by (cases attempt; cases "ra_pending (pw_radio p)") (fastforce simp: sorted_wrt_append)+

lemma serials_refresh:
  assumes "serials_but None p" "\<not> pw_quit p"
  shows "serials_but None (fst (power_refresh reads p))"
proof (cases "pw_closed p \<or> pw_busy p \<or> \<not> pw_dirty p \<or> \<not> power_active p")
  case True
  then show ?thesis using assms by (auto simp: power_refresh_def)
next
  case False
  obtain q r where q: "power_read_radio reads p = (q, r)" by (cases "power_read_radio reads p")
  have "job_is False None p" using assms False by (cases "pw_job p") (simp_all add: job_is_def serials_but_def)
  then have "serials_but None q" "job_is False None q"
    using q keepsD [OF serials_read assms(1), of reads] keepsD [OF job_is_read, of False None p reads] by simp_all
  then show ?thesis
    using q False serials_submit [of q] serials_fail [of None q]
    by (cases r) (auto simp: power_refresh_def act_defs power_fail_def Let_def)
qed

lemma serials_attempted:
  "serials_but attempt p \<Longrightarrow> serials_but None (p\<lparr>pw_radio := radio_attempted attempt (pw_radio p)\<rparr>)"
  by (rule serials_shrink) (auto simp: radio_attempted_def)

lemma radio_apply_serials:
  "ra_serial (fst (radio_apply on w r)) = ra_serial r"
  "ra_pending (fst (radio_apply on w r)) = None \<or> ra_pending (fst (radio_apply on w r)) = ra_pending r"
  by (auto simp: radio_apply_def Let_def split: outcome.splits)

lemma serials_result: "keeps (serials_but None) (power_result written key powered problem)"
proof -
  have "keeps (serials_but None) (power_apply written on)" for on
  proof -
    have "serials_but None (p\<lparr>pw_radio := fst (radio_apply on w (pw_radio p)), pw_writes := ws\<rparr>)" if "serials_but None p" for p w ws
      using that by (rule serials_shrink) (use radio_apply_serials [of on w "pw_radio p"] in auto)
    then show ?thesis
      by (intro keepsI) (simp add: power_apply_def case_prod_beta liftA_def)
  qed
  then show ?thesis
    unfolding power_result_def on_radio_def
    by (cases powered) (auto intro!: keeps_intros keeps_upd simp: serials_but_def)
qed

lemma serials_finish:
  assumes "serials_but None p" "\<not> pw_quit p" "power_finish reads written future p = (p', Ret ())"
  shows "serials_but None p'"
proof (cases "pw_job p = None \<or> pw_closed p")
  case True
  then show ?thesis using assms by (auto simp: power_finish_def split: prod.splits option.splits)
next
  case False
  then obtain key attempt where j: "pw_job p = Some (key, attempt)" by auto
  let ?p = "p\<lparr>pw_busy := False, pw_job := None\<rparr>"
  have p: "serials_but attempt ?p" using assms(1,2) j by (auto simp: serials_but_def)
  define rest where "rest = thenA (on_radio (radio_attempted attempt))
      (bindA (liftA future) (\<lambda>(powered, problem). power_result written key powered problem))"
  obtain q r where q: "power_read_radio reads ?p = (q, r)" by (cases "power_read_radio reads ?p")
  have q_ok: "serials_but attempt q" using keepsD [OF serials_read p, of reads] q by simp
  have rest_ok: "serials_but None (fst (rest q))"
    using keepsD [OF serials_result] serials_attempted [OF q_ok]
    by (auto simp: rest_def on_radio_def split: outcome.splits)
  have "catchA (thenA (power_read_radio reads) rest) is_Exception power_fail ?p = (p', Ret ())"
    using assms(3) j False by (simp add: power_finish_def rest_def)
  then show ?thesis
    using q q_ok rest_ok serials_fail [of None "fst (rest q)"] serials_fail [OF q_ok]
    by (auto simp: catchA_def thenA_def bindA_def split: outcome.splits prod.splits if_splits) (metis fst_conv)+
qed

lemma serials_close: "keeps (serials_but X) power_close"
  unfolding power_close_def close_sources_def
  by (intro keeps_intros keeps_upd) (auto simp: serials_but_def case_prod_beta intro: serials_remove)

lemma serials_fire:
  assumes "serials_but None p" "\<not> pw_quit p"
  shows "serials_but None (fst (fire (power_run reads) ident p))"
proof (cases "map_of (tm_glib p) ident")
  case None
  then show ?thesis using assms by (simp add: fire_def)
next
  case (Some x)
  obtain name ms cb where x: "x = (name, ms, cb)" by (cases x)
  let ?p = "p\<lparr>tm_sources := dpop name (tm_sources p), tm_glib := dpop ident (tm_glib p)\<rparr>"
  have "serials_but None ?p" "\<not> pw_quit ?p" using assms by (simp_all add: serials_but_def)
  then have "serials_but None (fst (power_run reads cb ?p))"
    by (cases cb) (simp_all add: serials_refresh keepsD [OF serials_notify])
  then show ?thesis using Some x \<open>serials_but None ?p\<close> by (simp add: fire_def)
qed

lemma serials_step: "serials_but None p \<Longrightarrow> power_step p p' \<Longrightarrow> serials_but None p'"
proof (elim power_stepE)
  fix ev assume a: "serials_but None p" "\<not> pw_quit p" "power_handle ev p = (p', Ret ())"
  show "serials_but None p'"
  proof (cases ev)
    case (HostChanged key) then show ?thesis using a keepsD [OF serials_host_changed a(1), of key] by simp
  next
    case (RadioReady b reads) then show ?thesis using a keepsD [OF serials_radio_ready a(1), of b reads] by simp
  next
    case (TimerFired i reads) then show ?thesis using a serials_fire [OF a(1,2), of reads i] by simp
  next
    case (JobDone reads w f) then show ?thesis using a serials_finish by auto
  next
    case ClosePower then show ?thesis using a keepsD [OF serials_close a(1)] by simp
  qed
qed

text \<open>\<^verbatim>\<open>run\<close> calls \<^verbatim>\<open>events.watch\<close>, whose first reading of the host status calls \<^verbatim>\<open>host_changed\<close>.\<close>

definition power_init :: "power \<Rightarrow> bool" where
  "power_init p \<longleftrightarrow> (\<exists>index soft key. p = fst (power_host_changed key (power_new index soft)))"

interpretation power: service power_init power_step "serials_but None"
proof unfold_locales
  have "serials_but None (power_new index soft)" for index soft
    by (simp add: power_new_def radio_new_def serials_but_def)
  then show "power_init p \<Longrightarrow> serials_but None p" for p
    by (auto simp: power_init_def keepsD [OF serials_host_changed])
qed (rule serials_step)

text \<open>C10: the radio service never submits one of the user's choices to the host twice, and submits choices in the
  order in which the user made them: in every reachable state the serial numbers of the attempts handed to
  the worker are strictly increasing (an uncertain operation is never repeated).\<close>

theorem power_never_resubmits:
  assumes "reach power_init power_step p"
  shows "sorted_wrt (<) (map fst (pw_submitted p))"
  using power.reach_inv [OF assms] by (simp add: serials_but_def)


text \<open>A concrete run of the service.\<close>

fun power_trace :: "power_event list \<Rightarrow> power \<Rightarrow> power option" where
  "power_trace [] p = Some p"
| "power_trace (ev # evs) p =
     (if pw_quit p \<or> \<not> power_env ev then None
      else case power_handle ev p of (p', Ret _) \<Rightarrow> power_trace evs p' | _ \<Rightarrow> None)"

lemma power_trace_reach:
  "reach power_init power_step p \<Longrightarrow> power_trace evs p = Some q \<Longrightarrow> reach power_init power_step q"
proof (induction evs arbitrary: p)
  case (Cons ev evs)
  obtain p' r where h: "power_handle ev p = (p', r)" by (cases "power_handle ev p")
  have ok: "\<not> pw_quit p" "power_env ev" using Cons.prems(2) by (auto split: if_splits)
  have r: "r = Ret ()" using Cons.prems(2) h ok by (cases r) auto
  have "power_step p p'" using power_stepI [OF ok] h r by simp
  then have "reach power_init power_step p'" using Cons.prems(1) by (rule reach_step [rotated])
  then show ?case using Cons.IH Cons.prems(2) ok h r by simp
qed simp

definition power_demo :: "power_event list" where
  "power_demo = [TimerFired 1 [Exc BlockingIOError], JobDone [Exc BlockingIOError] (Ret 8) (Ret (Some True, None)),
     RadioReady False [Ret [0, 0, 0, 0, 1, 2, 1, 0], Exc BlockingIOError],
     TimerFired 2 [Exc BlockingIOError]]"

definition power_start :: power where
  "power_start = fst (power_host_changed (Some (''r1'', JBool True, JNull)) (power_new 0 0))"

lemma power_demo_runs:
  "\<exists>q. power_trace power_demo power_start = Some q \<and> pw_submitted q = [(1, False)] \<and> pw_job q \<noteq> None \<and>
     power_active q \<and> \<not> pw_quit q \<and> \<not> pw_closed q"
proof -
  have "(case power_trace power_demo power_start of None \<Rightarrow> False
    | Some q \<Rightarrow> pw_submitted q = [(1, False)] \<and> pw_job q \<noteq> None \<and> power_active q \<and> \<not> pw_quit q \<and> \<not> pw_closed q)"
    by code_simp
  then show ?thesis by (auto split: option.splits)
qed

lemma power_start_reach: "reach power_init power_step power_start"
  unfolding power_start_def power_init_def [abs_def] by (rule reach_init) blast

theorem power_never_resubmits_witness:
  "\<exists>q. power_trace power_demo power_start = Some q \<and> pw_submitted q = [(1, False)] \<and>
     sorted_wrt (<) (map fst (pw_submitted q))"
  using power_demo_runs power_trace_reach [OF power_start_reach] power_never_resubmits by metis

section \<open>No choice is forgotten\<close>

definition power_in_sync :: "power \<Rightarrow> bool" where
  "power_in_sync p \<longleftrightarrow> ra_initialized (pw_radio p) \<and> ra_pending (pw_radio p) = None"

definition power_working :: "power \<Rightarrow> bool" where
  "power_working p \<longleftrightarrow> pw_busy p \<or> pw_dirty p \<and> pending ''refresh'' p \<or> pending ''retry'' p"

definition power_awake :: "power \<Rightarrow> bool" where
  "power_awake p \<longleftrightarrow> \<not> pw_closed p \<and> (pw_quit p \<or> \<not> power_active p \<or> power_in_sync p \<or> power_working p)"

fun power_cb_name :: "power_cb \<Rightarrow> string" where
  "power_cb_name PowerRefresh = ''refresh''"
| "power_cb_name PowerNotify = ''retry''"

abbreviation power_sources :: "power \<Rightarrow> bool" where
  "power_sources \<equiv> sources_ok power_cb_name"

lemma power_sources_later [keeps_intros]:
  "keeps power_sources (later ''refresh'' ms PowerRefresh)" "keeps power_sources (later ''retry'' ms PowerNotify)"
  by (simp_all add: later_sources_ok)

text \<open>The timer fields of the object are untouched by everything but \<^verbatim>\<open>later\<close> and \<^verbatim>\<open>remove\<close>.\<close>

lemma power_sources_upd:
  assumes "timers.truncate q = timers.truncate p" "power_sources p"
  shows "power_sources q"
proof -
  have e: "tm_sources q = tm_sources p" "tm_glib q = tm_glib p" "tm_next q = tm_next p" "tm_closed q = tm_closed p"
    using assms(1) by (simp_all add: timers.truncate_def)
  show ?thesis using assms(2) unfolding sources_ok_def timers_ok_def e .
qed

lemma power_upd [keeps_intros]:
  "(\<And>p. timers.truncate (f p) = timers.truncate p) \<Longrightarrow> keeps power_sources (updA f)"
  by (blast intro: keeps_upd power_sources_upd)

lemma sources_notify [keeps_intros]: "keeps power_sources power_notify"
  unfolding power_notify_def by (intro keeps_intros) (simp add: timers.truncate_def)

lemma sources_on_radio [keeps_intros]: "keeps power_sources (on_radio f)"
  unfolding on_radio_def by (intro keeps_intros) (simp add: timers.truncate_def)

lemma sources_fail [keeps_intros]: "keeps power_sources (power_fail e)"
  unfolding power_fail_def by (intro keeps_intros) (simp add: timers.truncate_def)

lemma sources_read [keeps_intros]: "keeps power_sources (power_read_radio reads)"
  by (induction reads) (auto intro!: keeps_intros simp: power_rfkill_event_def Let_def split: outcome.splits exn.splits)

lemma sources_refresh [keeps_intros]: "keeps power_sources (power_refresh reads)"
  unfolding power_refresh_def by (intro keeps_intros) (simp add: timers.truncate_def Let_def)

lemma sources_result [keeps_intros]: "keeps power_sources (power_result written key powered problem)"
  unfolding power_result_def power_apply_def
  by (cases powered) (auto intro!: keeps_intros simp: timers.truncate_def split: prod.splits)

lemma sources_finish: "keeps power_sources (power_finish reads written future)"
  unfolding power_finish_def
  by (auto intro!: keeps_intros simp: timers.truncate_def split: prod.splits option.splits)


definition power_open :: "power \<Rightarrow> bool" where
  "power_open p \<longleftrightarrow> \<not> tm_closed p \<and> \<not> pw_closed p"

lemma awake_notify: "power_open p \<Longrightarrow> power_awake (fst (power_notify p)) \<and> power_open (fst (power_notify p))"
  by (auto simp: power_notify_def power_open_def power_awake_def power_working_def power_active_def)

lemma awake_event: "keeps (\<lambda>p. power_open p \<and> power_awake p) (power_rfkill_event data)"
proof (rule keepsI)
  fix p assume p: "power_open p \<and> power_awake p"
  let ?p = "\<lambda>soft. p\<lparr>pw_radio := fst (radio_observe soft (pw_radio p))\<rparr>"
  have "power_open (?p soft)" for soft using p by (simp add: power_open_def)
  moreover have "power_awake (?p soft)" if "\<not> snd (radio_observe soft (pw_radio p))" for soft
    using p that by (auto simp: power_awake_def power_in_sync_def power_working_def power_active_def pending_def
        radio_observe_def Let_def split: if_splits)
  ultimately show "power_open (fst (power_rfkill_event data p)) \<and> power_awake (fst (power_rfkill_event data p))"
    using p awake_notify by (auto simp: power_rfkill_event_def Let_def on_radio_def)
qed

lemma awake_read: "keeps (\<lambda>p. power_open p \<and> power_awake p) (power_read_radio reads)"
  by (induction reads) (auto intro!: keeps_intros awake_event split: outcome.splits exn.splits)

lemma open_read: "keeps power_open (power_read_radio reads)"
proof -
  have "keeps power_open (power_rfkill_event data)" for data
    unfolding power_rfkill_event_def Let_def on_radio_def
    by (intro keeps_intros keeps_upd keepsI) (simp_all add: power_open_def power_notify_def)
  then show ?thesis by (induction reads) (auto intro!: keeps_intros split: outcome.splits exn.splits)
qed

lemma read_ends: "drains reads \<Longrightarrow> ends (snd (power_read_radio reads p))"
proof (induction reads arbitrary: p rule: drains.induct)
  case (2 data reads)
  have "ends (snd (power_rfkill_event data p))"
    by (simp add: power_rfkill_event_def Let_def power_notify_def on_radio_def)
  then show ?case using 2 by (auto simp: thenA_def bindA_def split: prod.splits outcome.splits)
qed (auto split: exn.splits)

lemma awake_fail: "power_open p \<Longrightarrow> power_awake (fst (power_fail e p))"
  by (simp add: power_fail_def power_awake_def power_open_def)

lemma awake_refresh:
  assumes "drains reads" "power_open p" "power_awake p"
  shows "power_awake (fst (power_refresh reads (without_source ''refresh'' ident p)))"
proof -
  let ?p = "without_source ''refresh'' ident p"
  obtain q r where q: "power_read_radio reads ?p = (q, r)" by (cases "power_read_radio reads ?p")
  have "power_open ?p" using assms(2) by (simp add: power_open_def without_source_def)
  then have "power_open q" using keepsD [OF open_read] q by (metis fst_conv)
  moreover have "ends r" using read_ends [OF assms(1)] q by (metis snd_conv)
  ultimately show ?thesis
    using q assms(2,3) awake_fail [of q]
    by (cases r) (auto simp: power_refresh_def act_defs power_fail_def Let_def power_open_def power_awake_def
        power_working_def power_in_sync_def power_active_def without_source_def pending_def)
qed


lemma radio_apply_init: "ra_initialized (fst (radio_apply on w r))"
  by (auto simp: radio_apply_def Let_def split: outcome.splits)

lemma awake_result:
  assumes "power_open p"
  shows "power_open (fst (power_result written key powered problem p)) \<and>
    (snd (power_result written key powered problem p) = Ret () \<longrightarrow> power_awake (fst (power_result written key powered problem p)))"
proof (cases "\<not> key_eq key (pw_key p) \<or> \<not> power_active p")
  case True
  then show ?thesis using awake_notify [OF assms] by (auto simp: power_result_def)
next
  case False
  define q where "q = (case powered of
      None \<Rightarrow> fst (later ''retry'' 1000 PowerNotify
        (p\<lparr>pw_failed := (problem \<noteq> None), pw_radio := (pw_radio p)\<lparr>ra_initialized := False\<rparr>\<rparr>))
    | Some on \<Rightarrow> (let (rd, w, res) = radio_apply on (write_radio written) (pw_radio p) ;
          p1 = p\<lparr>pw_failed := (problem \<noteq> None), pw_radio := rd, pw_writes := pw_writes p @ (case w of None \<Rightarrow> [] | Some d \<Rightarrow> [d])\<rparr>
        in if res = Ret () \<and> ra_pending rd \<noteq> None then p1\<lparr>pw_dirty := True\<rparr> else p1))"
  have "power_result written key powered problem p =
    (case (case powered of None \<Rightarrow> Ret () | Some on \<Rightarrow> snd (snd (radio_apply on (write_radio written) (pw_radio p)))) of
       Ret _ \<Rightarrow> if pw_dirty q then power_notify q else (q, Ret ())
     | Exc e \<Rightarrow> (q, Exc e) | NoRet \<Rightarrow> (q, NoRet))"
  proof (cases powered)
    case None
    then show ?thesis using False by (simp add: power_result_def q_def on_radio_def)
  next
    case (Some on)
    obtain rd w res where "radio_apply on (write_radio written) (pw_radio p) = (rd, w, res)" by (rule prod_cases3)
    then show ?thesis
      using Some False by (cases res) (auto simp: power_result_def q_def power_apply_def act_defs)
  qed
  moreover have q_open: "power_open q"
    using assms by (cases powered) (auto simp: q_def power_open_def Let_def split: prod.splits)
  moreover have "power_awake q" if "\<not> pw_dirty q"
    "(case powered of None \<Rightarrow> Ret () | Some on \<Rightarrow> snd (snd (radio_apply on (write_radio written) (pw_radio p)))) = Ret ()"
  proof (cases powered)
    case None
    then show ?thesis using assms by (simp add: q_def power_open_def power_awake_def power_working_def)
  next
    case (Some on)
    then show ?thesis
      using that assms radio_apply_init [of on "write_radio written" "pw_radio p"]
      by (auto simp: q_def Let_def power_open_def power_awake_def power_in_sync_def simp del: not_None_eq split: prod.splits if_splits)
  qed
  ultimately show ?thesis using awake_notify [OF q_open] by (auto split: outcome.splits)
qed


lemma awake_finish:
  assumes "drains reads" "power_open p" "power_awake p" "power_finish reads written future p = (p', Ret ())"
  shows "power_open p' \<and> power_awake p'"
proof (cases "pw_job p = None \<or> pw_closed p")
  case True
  then show ?thesis using assms by (auto simp: power_finish_def split: prod.splits option.splits)
next
  case False
  then obtain key attempt where j: "pw_job p = Some (key, attempt)" by auto
  let ?p = "p\<lparr>pw_busy := False, pw_job := None\<rparr>"
  define rest where "rest = thenA (on_radio (radio_attempted attempt))
      (bindA (liftA future) (\<lambda>(powered, problem). power_result written key powered problem))"
  obtain q r where q: "power_read_radio reads ?p = (q, r)" by (cases "power_read_radio reads ?p")
  have q_open: "power_open q" using keepsD [OF open_read, of ?p reads] assms(2) q by (simp add: power_open_def)
  then have "power_open (q\<lparr>pw_radio := radio_attempted attempt (pw_radio q)\<rparr>)" by (simp add: power_open_def)
  then have rest_ok: "power_open (fst (rest q)) \<and> (snd (rest q) = Ret () \<longrightarrow> power_awake (fst (rest q)))"
    using awake_result by (auto simp: rest_def on_radio_def split: outcome.splits)
  have "catchA (thenA (power_read_radio reads) rest) is_Exception power_fail ?p = (p', Ret ())"
    using assms(4) j False by (simp add: power_finish_def rest_def)
  moreover have "power_open (fst (power_fail e s)) \<and> power_awake (fst (power_fail e s))" if "power_open s" for e s
    using that awake_fail [OF that] by (simp add: power_fail_def power_open_def)
  ultimately show ?thesis
    using q q_open rest_ok
    by (auto simp: catchA_def thenA_def bindA_def split: outcome.splits prod.splits if_splits) (metis fst_conv)+
qed

interpretation power_events: event_object power_cb_name power_run drains power_awake
proof unfold_locales
  show "keeps power_sources (power_run reads cb)" for reads cb
    by (cases cb) (auto intro: keeps_intros)
next
  fix reads p cb ident assume a: "drains reads" "power_sources p" "\<not> tm_closed p" "power_awake p"
  then have "power_open p" by (simp add: power_open_def power_awake_def)
  then show "power_awake (fst (power_run reads cb (without_source (power_cb_name cb) ident p)))"
    using a awake_refresh awake_notify [of "without_source ''retry'' ident p"]
    by (cases cb) (auto simp: power_open_def without_source_def)
qed

lemma power_close_inv: "power_sources p \<Longrightarrow> power_events.inv (fst (power_close p))"
proof -
  assume "power_sources p"
  then have "power_sources (p\<lparr>pw_closed := True\<rparr>)" by (rule power_sources_upd [rotated]) (simp add: timers.truncate_def)
  then have "timers_ok (p\<lparr>pw_closed := True\<rparr>)" by (simp add: sources_ok_def)
  then obtain s' where "close_sources (p\<lparr>pw_closed := True\<rparr>) = (s', Ret ())" "tm_closed s'" "tm_sources s' = []" "tm_glib s' = []"
    "timers_ok s'"
    by (rule close_sources_spec)
  then show ?thesis by (simp add: power_close_def power_events.inv_def sources_ok_def timers_ok_def)
qed


lemma power_call_inv:
  assumes "power_events.inv p" "power_sources p'" "tm_closed p' = tm_closed p"
    "power_open p \<Longrightarrow> power_awake p \<Longrightarrow> power_awake p'"
  shows "power_events.inv p'"
proof (cases "tm_closed p")
  case False
  then have "power_open p" "power_awake p" using assms(1) by (auto simp: power_events.inv_def power_open_def power_awake_def)
  then show ?thesis using assms by (simp add: power_events.inv_def)
qed (use assms in \<open>simp add: power_events.inv_def\<close>)

definition tm_closed_is :: "bool \<Rightarrow> power \<Rightarrow> bool" where
  "tm_closed_is b p \<longleftrightarrow> tm_closed p = b"

lemma closed_is [keeps_intros]:
  "keeps (tm_closed_is b) (later n ms cb)" "keeps (tm_closed_is b) (on_radio f)"
  "keeps (tm_closed_is b) (power_fail e)" "keeps (tm_closed_is b) power_notify"
  by (auto intro!: keepsI simp: tm_closed_is_def on_radio_def power_fail_def power_notify_def)

lemma closed_is_read [keeps_intros]: "keeps (tm_closed_is b) (power_read_radio reads)"
  by (induction reads) (auto intro!: keeps_intros simp: power_rfkill_event_def Let_def split: outcome.splits exn.splits)

lemma closed_is_finish: "keeps (tm_closed_is b) (power_finish reads written future)"
  unfolding power_finish_def power_result_def power_apply_def
  by (auto intro!: keeps_intros keeps_upd simp: tm_closed_is_def split: prod.splits option.splits)

lemma sources_host_changed: "keeps power_sources (power_host_changed key)"
  unfolding power_host_changed_def by (auto intro!: keeps_intros keeps_upd simp: sources_ok_def timers_ok_def)

lemma power_events_step: "power_events.inv p \<Longrightarrow> power_step p p' \<Longrightarrow> power_events.inv p'"
proof (elim power_stepE)
  fix ev assume a: "power_events.inv p" "power_env ev" "power_handle ev p = (p', Ret ())"
  then have src: "power_sources p" by (simp add: power_events.inv_def)
  have p': "p' = fst (power_handle ev p)" using a(3) by simp
  show "power_events.inv p'"
  proof (cases ev)
    case (HostChanged key)
    have k: "keeps (tm_closed_is b) (power_host_changed key)" for b
      unfolding power_host_changed_def by (auto intro!: keeps_intros keeps_upd simp: tm_closed_is_def)
    show ?thesis
    proof (rule power_call_inv [OF a(1)])
      show "power_sources p'" using keepsD [OF sources_host_changed src] HostChanged p' by simp
      show "tm_closed p' = tm_closed p"
        using keepsD [OF k, of "tm_closed p" p] HostChanged p' by (simp add: tm_closed_is_def)
      assume "power_open p"
      then show "power_awake p'"
        using HostChanged p' by (auto simp: power_host_changed_def on_radio_def power_open_def intro!: conjunct1 [OF awake_notify])
    qed
  next
    case (RadioReady broken reads)
    have k: "keeps power_sources (power_radio_ready broken reads)" "keeps (tm_closed_is b) (power_radio_ready broken reads)"
      "keeps (\<lambda>p. power_open p \<and> power_awake p) (power_radio_ready broken reads)" for b
      unfolding power_radio_ready_def
      by (auto intro!: keeps_intros awake_read) (auto intro!: keepsI simp: power_open_def power_fail_def power_awake_def)
    show ?thesis
      using power_call_inv [OF a(1)] keepsD [OF k(1) src] keepsD [OF k(2), of "tm_closed p" p] keepsD [OF k(3), of p] RadioReady p'
      by (simp add: tm_closed_is_def)
  next
    case (TimerFired ident reads)
    then show ?thesis using keepsD [OF power_events.fire_inv a(1), of reads ident] a(2) p' by simp
  next
    case (JobDone reads written future)
    then show ?thesis
      using power_call_inv [OF a(1), of p'] keepsD [OF sources_finish src, of reads written future]
        keepsD [OF closed_is_finish, of "tm_closed p" p reads written future] awake_finish [of reads p written future p'] a(2,3)
      by (simp add: tm_closed_is_def)
  next
    case ClosePower
    then show ?thesis using power_close_inv [OF src] p' by simp
  qed
qed


lemma power_init_events: "power_init p \<Longrightarrow> power_events.inv p"
proof -
  assume "power_init p"
  then obtain index soft key where p: "p = fst (power_host_changed key (power_new index soft))" by (auto simp: power_init_def)
  have "power_sources (power_new index soft)" by (simp add: power_new_def sources_ok_def timers_ok_def)
  then have "power_sources p" unfolding p by (rule keepsD [OF sources_host_changed])
  moreover have "power_awake p"
    by (auto simp: p power_host_changed_def on_radio_def power_new_def power_open_def intro!: conjunct1 [OF awake_notify])
  ultimately show ?thesis by (simp add: power_events.inv_def)
qed

interpretation power_live: service power_init power_step power_events.inv
  by unfold_locales (auto intro: power_init_events power_events_step)



section \<open>A choice made while the host is unreachable\<close>


end
