(* ===== verification/Bt_Bluez.thy ===== *)
theory Bt_Bluez
  imports Timers Bt_Management
begin

text \<open>
  \<^verbatim>\<open>guest/devices/bluetooth_bluez.py\<close>: the BlueZ management API that the guest desktop uses, backed by the host.

  The bridge is the record \<open>bluez\<close>. What it does on the bus (registrations, signals, replies) and the radio ioctl
  are a log. The thread pool is the list of outstanding jobs, whose results are inputs of \<open>bluez_finished\<close>. The object
  \<^verbatim>\<open>events\<close> is present through its key and the timers \<^verbatim>\<open>refresh\<close>, \<^verbatim>\<open>retry\<close> and \<^verbatim>\<open>discovery\<close> that the bridge asks for.
  \<^verbatim>\<open>str.upper\<close> is the ASCII one. Python leaves the order of \<^verbatim>\<open>set(self.objects) - set(current)\<close> open; the model
  takes the order of insertion.
\<close>

section \<open>Device records\<close>

datatype gvariant = VBool bool | VUint int | VStrs "string list" | VStr string | VPath string

type_synonym props = "(string \<times> gvariant) list"
type_synonym ifaces = "(string \<times> props) list"
type_synonym tree = "(string \<times> ifaces) list"

definition BLUEZ :: string where "BLUEZ = ''/org/bluez''"
definition ADAPTER :: string where "ADAPTER = ''/org/bluez/hci0''"
definition ADAPTER_IFACE :: string where "ADAPTER_IFACE = ''org.bluez.Adapter1''"
definition DEVICE_IFACE :: string where "DEVICE_IFACE = ''org.bluez.Device1''"
definition MANAGER :: string where "MANAGER = ''org.freedesktop.DBus.ObjectManager''"
definition AGENTS :: string where "AGENTS = ''org.bluez.AgentManager1''"

text \<open>\<^verbatim>\<open>GLib.Variant\<close> refuses a value that does not fit the type asked for.\<close>

fun variant :: "json \<Rightarrow> gvariant outcome" where
  "variant (JBool b) = Ret (VBool b)"
| "variant (JInt i) = (if 0 \<le> i \<and> i < 2 ^ 32 then Ret (VUint i) else Exc (OverflowError ''variant''))"
| "variant (JList xs) =
     (if list_all is_str xs then Ret (VStrs (map (\<lambda>v. case v of JStr s \<Rightarrow> s | _ \<Rightarrow> []) xs)) else Exc (TypeError ''variant''))"
| "variant (JStr s) = Ret (VStr s)"
| "variant _ = Exc (TypeError ''variant'')"

definition upper_letters :: "(char \<times> char) list" where
  "upper_letters = zip ''abcdefghijklmnopqrstuvwxyz'' ''ABCDEFGHIJKLMNOPQRSTUVWXYZ''"

definition str_upper :: "string \<Rightarrow> string" where
  "str_upper = map (\<lambda>c. case map_of upper_letters c of None \<Rightarrow> c | Some u \<Rightarrow> u)"

definition str_subst :: "char \<Rightarrow> char \<Rightarrow> string \<Rightarrow> string" where
  "str_subst a b = map (\<lambda>c. if c = a then b else c)"

fun device_address :: "json \<Rightarrow> string outcome" where
  "device_address (JStr s) =
     (let address = str_upper (str_subst CHR ''-'' CHR '':'' s) in
      if six_octets (\<lambda>c. c = CHR '':'') address then Ret address else Exc (ValueError ''Invalid host device address''))"
| "device_address _ = Exc (AttributeError ''replace'')"

fun device_class :: "json \<Rightarrow> int outcome" where
  "device_class (JInt cod) = (if 0 \<le> cod \<and> cod \<le> 0xffffff then Ret cod else Exc (ValueError ''Invalid device class''))"
| "device_class _ = Exc (ValueError ''Invalid device class'')"

text \<open>\<^verbatim>\<open>[0-9a-fA-F]{8}(?:-[0-9a-fA-F]{4}){3}-[0-9a-fA-F]{12}\<close>.\<close>

definition uuid_text :: "string \<Rightarrow> bool" where
  "uuid_text u \<longleftrightarrow> length u = 36 \<and>
     list_all (\<lambda>(i, c). if i \<in> {8, 13, 18, 23} then c = CHR ''-'' else is_hex c) (zip [0..<36] u)"

fun device_uuids :: "json \<Rightarrow> json outcome" where
  "device_uuids (JList us) =
     (if length us > 32 \<or> \<not> list_all (\<lambda>u. case u of JStr s \<Rightarrow> uuid_text s | _ \<Rightarrow> False) us
      then Exc (ValueError ''Invalid host service UUIDs'') else Ret (JList us))"
| "device_uuids _ = Exc (ValueError ''Invalid host service UUIDs'')"

definition device_icon :: "int \<Rightarrow> string" where
  "device_icon cod =
     (let major = (cod div 256) mod 32 in
      if major = 4 then ''audio-headset'' else if major = 5 then ''input-mouse'' else ''bluetooth'')"

definition variants :: "(string \<times> json) list \<Rightarrow> props outcome" where
  "variants values = mapO (\<lambda>(k, v). bindO (variant v) (\<lambda>g. Ret (k, g))) values"

definition device_path :: "string \<Rightarrow> string" where
  "device_path address = ADAPTER @ ''/dev_'' @ str_subst CHR '':'' CHR ''_'' address"

definition device_props :: "json \<Rightarrow> (string \<times> props) outcome" where
  "device_props record =
     bindO (jitem record ''address'') (\<lambda>raw.
     bindO (device_address raw) (\<lambda>address.
     bindO (jitem record ''classOfDevice'') (\<lambda>rawclass.
     bindO (device_class rawclass) (\<lambda>cod.
     bindO (jget_or record ''uuids'' (JList [])) (\<lambda>rawuuids.
     bindO (device_uuids rawuuids) (\<lambda>uuids.
     bindO (jitem record ''name'') (\<lambda>name.
     bindO (jitem record ''paired'') (\<lambda>paired.
     bindO (jitem record ''connected'') (\<lambda>conn.
     bindO (variants [(''Address'', JStr address), (''AddressType'', JStr ''public''), (''Name'', name),
        (''Alias'', name), (''Class'', JInt cod), (''Icon'', JStr (device_icon cod)), (''Paired'', paired),
        (''Bonded'', paired), (''Connected'', conn), (''Trusted'', JBool False), (''Blocked'', JBool False),
        (''ServicesResolved'', JBool False), (''UUIDs'', uuids), (''LegacyPairing'', JBool False)]) (\<lambda>props.
       Ret (device_path address, props @ [(''Adapter'', VPath ADAPTER)])))))))))))"

section \<open>The bridge\<close>

datatype bus_effect =
    RegisterObject string string
  | UnregisterObject nat
  | InterfacesAdded string ifaces
  | InterfacesRemoved string "string list"
  | PropertiesChanged string string props
  | RadioIoctl nat
  | ReturnValue nat
  | DBusError nat string

type_synonym agent = "string \<times> string"

text \<open>The work handed to the pool: a device operation for a method call, or a reading of the devices.\<close>

datatype bluez_job =
    OperationJob nat string string string "agent option"
  | ReadJob bool

datatype bluez_cb = BluezRefresh | BluezNotify | BluezScan

record bluez = "bluez_cb timers" +
  bz_key :: "revision_key option"
  bz_manage_radio :: bool
  bz_objects :: tree
  bz_agents :: "(string \<times> string) list"
  bz_default_agent :: "agent option"
  bz_registrations :: "((string \<times> string) \<times> nat) list"
  bz_next :: nat
  bz_pending :: bool
  bz_refreshing :: bool
  bz_closed :: bool
  bz_discovery :: "string list"
  bz_refresh_again :: bool
  bz_radio_state :: nat
  bz_radio_key :: "revision_key option"
  bz_jobs :: "bluez_job list"
  bz_log :: "bus_effect list"

definition bus_emit :: "bus_effect \<Rightarrow> (bluez, unit) act" where
  "bus_emit eff = updA (\<lambda>b. b\<lparr>bz_log := bz_log b @ [eff]\<rparr>)"

definition bluez_register :: "string \<Rightarrow> string \<Rightarrow> (bluez, unit) act" where
  "bluez_register path iface =
     thenA (updA (\<lambda>b. b\<lparr>bz_registrations := dset (path, iface) (bz_next b) (bz_registrations b), bz_next := bz_next b + 1\<rparr>))
           (bus_emit (RegisterObject path iface))"

definition bluez_blank :: "bool \<Rightarrow> bluez" where
  "bluez_blank manage_radio = \<lparr>tm_sources = [], tm_glib = [], tm_next = 1, tm_closed = False,
     bz_key = None, bz_manage_radio = manage_radio, bz_objects = [(BLUEZ, [(AGENTS, [])])], bz_agents = [],
     bz_default_agent = None, bz_registrations = [], bz_next = 1, bz_pending = False, bz_refreshing = False,
     bz_closed = False, bz_discovery = [], bz_refresh_again = False, bz_radio_state = 0, bz_radio_key = None,
     bz_jobs = [], bz_log = []\<rparr>"

definition bluez_new :: "bool \<Rightarrow> bluez" where
  "bluez_new manage_radio =
     fst (thenA (bluez_register ''/'' MANAGER) (bluez_register BLUEZ AGENTS) (bluez_blank manage_radio))"

definition bluez_active :: "bluez \<Rightarrow> bool" where
  "bluez_active b = key_active (bz_key b)"

definition bluez_notify :: "(bluez, unit) act" where
  "bluez_notify = later ''refresh'' 40 BluezRefresh"

definition bluez_retry :: "(bluez, unit) act" where
  "bluez_retry = bindA (getA bluez_active) (\<lambda>active. if active then later ''retry'' 2000 BluezNotify else retA ())"

section \<open>Objects and radio\<close>

definition bluez_write_radio :: "(bluez, unit) act" where
  "bluez_write_radio = bindA (getA (\<lambda>b. (bz_manage_radio b, bz_radio_state b))) (\<lambda>(manage, state).
     if manage then bus_emit (RadioIoctl state) else retA ())"

definition bluez_heartbeat :: "(bluez, unit) act" where
  "bluez_heartbeat =
     bindA (getA (\<lambda>b. bz_key b \<noteq> None \<and> key_eq (bz_key b) (bz_radio_key b) \<and> bluez_active b)) (\<lambda>fresh.
       if fresh then bluez_write_radio else retA ())"

definition publish_discovering :: "(bluez, unit) act" where
  "publish_discovering =
     bindA (getA (\<lambda>b. (VBool (bz_discovery b \<noteq> []), map_of (bz_objects b) ADAPTER))) (\<lambda>(value, found).
        case found of
          None \<Rightarrow> retA ()
        | Some ifs \<Rightarrow>
            (case map_of ifs ADAPTER_IFACE of
               None \<Rightarrow> retA ()
             | Some props \<Rightarrow>
                 if props \<noteq> [] \<and> map_of props ''Discovering'' \<noteq> Some value then
                   thenA (updA (\<lambda>b. b\<lparr>bz_objects := dset ADAPTER (dset ADAPTER_IFACE (dset ''Discovering'' value props) ifs) (bz_objects b)\<rparr>))
                         (bus_emit (PropertiesChanged ADAPTER ADAPTER_IFACE [(''Discovering'', value)]))
                 else retA ()))"

definition bluez_discovery_changed :: "(bluez, unit) act" where
  "bluez_discovery_changed =
     thenA (bindA (getA bz_discovery) (\<lambda>d. if d = [] then remove_source ''discovery'' else retA ())) publish_discovering"

text \<open>The objects a host state stands for.\<close>

definition adapter_props :: "json \<Rightarrow> bool \<Rightarrow> props outcome" where
  "adapter_props powered discovering = variants
     [(''Address'', JStr ''02:4C:48:42:54:01''), (''AddressType'', JStr ''public''), (''Name'', JStr ''Mac Bluetooth''),
      (''Alias'', JStr ''Mac Bluetooth''), (''Class'', JInt 0), (''Powered'', powered), (''Discoverable'', JBool False),
      (''Pairable'', powered), (''Discovering'', JBool discovering), (''UUIDs'', JList [])]"

definition current_tree :: "json \<Rightarrow> bool \<Rightarrow> tree outcome" where
  "current_tree state discovering =
     bindO (jitem state ''powered'') (\<lambda>powered.
     bindO (adapter_props powered discovering) (\<lambda>props.
     bindO (jitem state ''devices'') (\<lambda>devices.
     bindO (iter_items devices) (\<lambda>records.
     bindO (mapO device_props records) (\<lambda>found.
       Ret (fold (\<lambda>(path, ps). dset path [(DEVICE_IFACE, ps)]) found
              [(BLUEZ, [(AGENTS, [])]), (ADAPTER, [(ADAPTER_IFACE, props)])]))))))"

definition pop_registration :: "string \<Rightarrow> string \<Rightarrow> (bluez, unit) act" where
  "pop_registration path iface =
     bindA (getA (\<lambda>b. map_of (bz_registrations b) (path, iface))) (\<lambda>found.
       case found of
         None \<Rightarrow> excA (KeyError iface)
       | Some ident \<Rightarrow> thenA (updA (\<lambda>b. b\<lparr>bz_registrations := dpop (path, iface) (bz_registrations b)\<rparr>))
                         (bus_emit (UnregisterObject ident)))"

definition remove_object :: "string \<Rightarrow> (bluez, unit) act" where
  "remove_object path =
     bindA (getA (\<lambda>b. map_of (bz_objects b) path)) (\<lambda>found.
       case found of
         None \<Rightarrow> excA (KeyError path)
       | Some ifs \<Rightarrow>
           thenA (updA (\<lambda>b. b\<lparr>bz_objects := dpop path (bz_objects b)\<rparr>))
           (thenA (bus_emit (InterfacesRemoved path (map fst ifs)))
                  (forA (\<lambda>(iface, _). pop_registration path iface) ifs)))"

definition change_iface :: "string \<Rightarrow> string \<Rightarrow> props \<Rightarrow> (bluez, unit) act" where
  "change_iface path iface props =
     bindA (getA (\<lambda>b. map_of (bz_objects b) path)) (\<lambda>found.
       case found of
         None \<Rightarrow> excA (KeyError path)
       | Some ifs \<Rightarrow>
           (case map_of ifs iface of
              None \<Rightarrow> excA (KeyError iface)
            | Some old \<Rightarrow>
                (let changed = filter (\<lambda>(k, v). map_of old k \<noteq> Some v) props in
                 thenA (updA (\<lambda>b. b\<lparr>bz_objects := dset path (dset iface props ifs) (bz_objects b)\<rparr>))
                       (if changed \<noteq> [] then bus_emit (PropertiesChanged path iface changed) else retA ()))))"

definition publish_object :: "string \<Rightarrow> ifaces \<Rightarrow> (bluez, unit) act" where
  "publish_object path ifs =
     bindA (getA (\<lambda>b. map_of (bz_objects b) path)) (\<lambda>found.
       if found = None then
         thenA (updA (\<lambda>b. b\<lparr>bz_objects := dset path ifs (bz_objects b)\<rparr>))
         (thenA (forA (\<lambda>(iface, _). bluez_register path iface) ifs)
                (bus_emit (InterfacesAdded path ifs)))
       else forA (\<lambda>(iface, props). change_iface path iface props) ifs)"

definition radio_bits :: "json \<Rightarrow> nat outcome" where
  "radio_bits state =
     bindO (jget state ''unavailable'') (\<lambda>unavailable.
       if truthy unavailable then Ret 0
       else bindO (jitem state ''powered'') (\<lambda>p. Ret (if truthy p then 3 else 1)))"

definition bluez_update :: "json \<Rightarrow> (bluez, unit) act" where
  "bluez_update state =
     bindA (liftA (radio_bits state)) (\<lambda>radio.
     thenA (updA (\<lambda>b. b\<lparr>bz_radio_state := radio, bz_radio_key := bz_key b\<rparr>))
     (thenA bluez_write_radio
     (bindA (getA (\<lambda>b. bz_discovery b \<noteq> [])) (\<lambda>discovering.
      bindA (liftA (current_tree state discovering)) (\<lambda>current.
      thenA (bindA (getA bz_objects) (\<lambda>objects.
               forA remove_object (filter (\<lambda>p. map_of current p = None) (map fst objects))))
            (forA (\<lambda>(path, ifs). publish_object path ifs) current))))))"

definition unavailable_state :: json where
  "unavailable_state = JDict [(''devices'', JList []), (''powered'', JBool False), (''unavailable'', JBool True)]"

section \<open>Jobs\<close>

definition bluez_submit :: "bluez_job \<Rightarrow> (bluez, unit) act" where
  "bluez_submit job =
     thenA (updA (\<lambda>b. case job of OperationJob _ _ _ _ _ \<Rightarrow> b\<lparr>bz_pending := True\<rparr> | ReadJob _ \<Rightarrow> b\<lparr>bz_refreshing := True\<rparr>))
           (updA (\<lambda>b. b\<lparr>bz_jobs := bz_jobs b @ [job]\<rparr>))"

definition bluez_refresh :: "bool \<Rightarrow> (bluez, unit) act" where
  "bluez_refresh scan =
     bindA (getA (\<lambda>b. b)) (\<lambda>b.
       if bz_closed b then retA ()
       else if bz_refreshing b then updA (\<lambda>b. b\<lparr>bz_refresh_again := True\<rparr>)
       else if \<not> bluez_active b then bluez_update unavailable_state
       else bluez_submit (ReadJob (scan \<and> bz_discovery b \<noteq> [] \<and> \<not> bz_pending b)))"

definition read_devices :: "bool \<Rightarrow> json outcome \<Rightarrow> json outcome \<Rightarrow> json outcome" where
  "read_devices scan scan_reply devices_reply = (if scan then bindO scan_reply (\<lambda>_. devices_reply) else devices_reply)"

definition bluez_schedule_discovery :: "(bluez, unit) act" where
  "bluez_schedule_discovery =
     bindA (getA (\<lambda>b. bz_discovery b \<noteq> [] \<and> \<not> bz_closed b \<and> bluez_active b)) (\<lambda>go.
       if go then later ''discovery'' 2000 BluezScan else retA ())"

text \<open>\<^verbatim>\<open>finished\<close> for one outstanding job; the value of an operation's result is not used.\<close>

definition bluez_outcome :: "bluez_job \<Rightarrow> json outcome \<Rightarrow> (bluez, unit) act" where
  "bluez_outcome job result =
     (case job of
        OperationJob call _ _ _ _ \<Rightarrow>
          catchA (bindA (liftA result) (\<lambda>_.
                    thenA (bus_emit (ReturnValue call)) (updA (\<lambda>b. b\<lparr>bz_refresh_again := True\<rparr>))))
            is_Exception (\<lambda>e. bus_emit (DBusError call ''org.bluez.Error.Failed''))
      | ReadJob _ \<Rightarrow>
          catchA (bindA (liftA result) bluez_update)
            is_Exception (\<lambda>e. thenA (bluez_update unavailable_state) bluez_retry))"

definition bluez_finished :: "bluez_job \<Rightarrow> json outcome \<Rightarrow> (bluez, unit) act" where
  "bluez_finished job result =
     thenA (updA (\<lambda>b. case job of OperationJob _ _ _ _ _ \<Rightarrow> b\<lparr>bz_pending := False\<rparr> | ReadJob _ \<Rightarrow> b\<lparr>bz_refreshing := False\<rparr>))
     (thenA (updA (\<lambda>b. b\<lparr>bz_jobs := remove1 job (bz_jobs b)\<rparr>))
     (bindA (getA bz_closed) (\<lambda>stopped.
        if stopped then retA () else
        thenA (bluez_outcome job result)
        (thenA (bindA (getA bz_refresh_again) (\<lambda>again.
                  if again then thenA (updA (\<lambda>b. b\<lparr>bz_refresh_again := False\<rparr>)) bluez_notify else retA ()))
               bluez_schedule_discovery))))"

section \<open>The pairing agent\<close>

text \<open>\<open>reply\<close> is what the synchronous call to the agent returned.\<close>

definition agent_call :: "agent option \<Rightarrow> unit outcome \<Rightarrow> unit outcome" where
  "agent_call agent reply = (if agent = None then Exc (RuntimeError ''No GNOME pairing agent registered'') else reply)"

definition agent_confirm :: "agent option \<Rightarrow> unit outcome \<Rightarrow> bool outcome" where
  "agent_confirm agent reply = catchO (bindO (agent_call agent reply) (\<lambda>_. Ret True)) is_GLibError (\<lambda>_. Ret False)"

definition agent_display :: "agent option \<Rightarrow> unit outcome \<Rightarrow> unit outcome" where
  "agent_display agent reply = agent_call agent reply"

text \<open>An operation job run by the pool: each round has what the two agent calls would return.\<close>

definition run_operation :: "bluez_job \<Rightarrow> json outcome \<Rightarrow> time \<Rightarrow> (operation_round \<times> unit outcome \<times> unit outcome) list \<Rightarrow> dict operation_act" where
  "run_operation job reply now rounds =
     (case job of
        OperationJob _ _ address action agent \<Rightarrow>
          device_operation address action reply now
            (map (\<lambda>(r, confirming, displaying).
               r\<lparr>ro_confirm := Some (agent_confirm agent confirming), ro_display := Some (agent_display agent displaying)\<rparr>) rounds)
      | ReadJob _ \<Rightarrow> liftA NoRet)"

section \<open>Method calls\<close>

definition CAPABILITIES :: "string list" where
  "CAPABILITIES = [[], ''DisplayOnly'', ''DisplayYesNo'', ''KeyboardOnly'', ''NoInputNoOutput'', ''KeyboardDisplay'']"

fun values_item :: "json list \<Rightarrow> nat \<Rightarrow> json outcome" where
  "values_item [] i = Exc (IndexError ''tuple index out of range'')"
| "values_item (v # vs) 0 = Ret v"
| "values_item (v # vs) (Suc i) = values_item vs i"

fun as_str :: "json \<Rightarrow> string" where
  "as_str (JStr s) = s"
| "as_str _ = []"

text \<open>The agent manager; its arguments are strings by the interface's signature.\<close>

definition register_agent :: "string \<Rightarrow> string \<Rightarrow> string \<Rightarrow> nat \<Rightarrow> (bluez, unit) act" where
  "register_agent sender agent_path capability call =
     (if capability \<notin> set CAPABILITIES then bus_emit (DBusError call ''org.bluez.Error.InvalidArguments'')
      else bindA (getA (\<lambda>b. map_of (bz_agents b) sender)) (\<lambda>found.
        if found \<noteq> None then bus_emit (DBusError call ''org.bluez.Error.AlreadyExists'')
        else thenA (updA (\<lambda>b. b\<lparr>bz_agents := dset sender agent_path (bz_agents b)\<rparr>)) (bus_emit (ReturnValue call))))"

definition change_agent :: "string \<Rightarrow> string \<Rightarrow> string \<Rightarrow> (bluez, unit) act" where
  "change_agent sender method agent_path =
     (if method = ''UnregisterAgent'' then
        updA (\<lambda>b. b\<lparr>bz_agents := dpop sender (bz_agents b),
           bz_default_agent := (if bz_default_agent b = Some (sender, agent_path) then None else bz_default_agent b)\<rparr>)
      else if method = ''RequestDefaultAgent'' then
        updA (\<lambda>b. b\<lparr>bz_default_agent := Some (sender, agent_path)\<rparr>)
      else retA ())"

definition agent_method :: "string \<Rightarrow> string \<Rightarrow> json list \<Rightarrow> nat \<Rightarrow> (bluez, unit) act" where
  "agent_method sender method values call =
     bindA (liftA (values_item values 0)) (\<lambda>raw.
     if method = ''RegisterAgent'' then
       bindA (liftA (values_item values 1)) (\<lambda>cap. register_agent sender (as_str raw) (as_str cap) call)
     else
       bindA (getA (\<lambda>b. map_of (bz_agents b) sender)) (\<lambda>found.
         if found \<noteq> Some (as_str raw) then bus_emit (DBusError call ''org.bluez.Error.DoesNotExist'')
         else thenA (change_agent sender method (as_str raw)) (bus_emit (ReturnValue call))))"

definition filter_method :: "json list \<Rightarrow> nat \<Rightarrow> (bluez, unit) act" where
  "filter_method values call =
     bindA (liftA (values_item values 0)) (\<lambda>filters.
     bindA (liftA (jget_or filters ''Transport'' (JStr ''auto''))) (\<lambda>transport.
       if (case filters of JDict d \<Rightarrow> list_ex (\<lambda>(k, _). k \<noteq> ''Transport'') d | _ \<Rightarrow> True) \<or>
          transport \<notin> {JStr ''auto'', JStr ''bredr''}
       then bus_emit (DBusError call ''org.bluez.Error.NotSupported'')
       else bus_emit (ReturnValue call)))"

definition discovery_add :: "string \<Rightarrow> (bluez, unit) act" where
  "discovery_add sender = updA (\<lambda>b. if sender \<in> set (bz_discovery b) then b else b\<lparr>bz_discovery := bz_discovery b @ [sender]\<rparr>)"

definition discovery_discard :: "string \<Rightarrow> (bluez, unit) act" where
  "discovery_discard sender = updA (\<lambda>b. b\<lparr>bz_discovery := filter (\<lambda>s. s \<noteq> sender) (bz_discovery b)\<rparr>)"

definition ACTIONS :: "(string \<times> string) list" where
  "ACTIONS = [(''Connect'', ''bluetooth-connect''), (''Disconnect'', ''bluetooth-disconnect''), (''Pair'', ''bluetooth-pair'')]"

definition object_address :: "string \<Rightarrow> string \<Rightarrow> bluez \<Rightarrow> string outcome" where
  "object_address path iface b =
     (case map_of (bz_objects b) path of
        None \<Rightarrow> Exc (KeyError path)
      | Some ifs \<Rightarrow>
          (case map_of ifs iface of
             None \<Rightarrow> Exc (KeyError iface)
           | Some props \<Rightarrow>
               (case map_of props ''Address'' of
                  Some (VStr s) \<Rightarrow> Ret s
                | _ \<Rightarrow> Exc (KeyError ''Address''))))"

definition calling_agent :: "string \<Rightarrow> bluez \<Rightarrow> agent option" where
  "calling_agent sender b = (case map_of (bz_agents b) sender of Some p \<Rightarrow> Some (sender, p) | None \<Rightarrow> bz_default_agent b)"

definition device_method :: "string \<Rightarrow> string \<Rightarrow> string \<Rightarrow> string \<Rightarrow> nat \<Rightarrow> (bluez, unit) act" where
  "device_method sender path iface action call =
     bindA (getA bz_pending) (\<lambda>busy.
       if busy then bus_emit (DBusError call ''org.bluez.Error.InProgress'')
       else bindA (bindA (getA (object_address path iface)) liftA) (\<lambda>address.
            bindA (getA (calling_agent sender)) (\<lambda>agent.
              bluez_submit (OperationJob call path address action agent))))"

text \<open>\<open>authorized\<close> is what the check of the caller's user returned.\<close>

definition bluez_method :: "bool outcome \<Rightarrow> string \<Rightarrow> string \<Rightarrow> string \<Rightarrow> string \<Rightarrow> json list \<Rightarrow> nat \<Rightarrow> (bluez, unit) act" where
  "bluez_method authorized sender path iface method values call =
     bindA (liftA authorized) (\<lambda>ok.
       if \<not> ok then bus_emit (DBusError call ''org.bluez.Error.NotAuthorized'')
       else if iface = AGENTS then agent_method sender method values call
       else if iface = MANAGER then bus_emit (ReturnValue call)
       else if method = ''GetDiscoveryFilters'' then bus_emit (ReturnValue call)
       else if method = ''SetDiscoveryFilter'' then filter_method values call
       else if method = ''StopDiscovery'' then
         thenA (discovery_discard sender) (thenA bluez_discovery_changed (bus_emit (ReturnValue call)))
       else if method = ''StartDiscovery'' then
         thenA (discovery_add sender) (thenA bluez_discovery_changed
           (thenA (bus_emit (ReturnValue call)) (bluez_refresh True)))
       else (case (if iface = DEVICE_IFACE then map_of ACTIONS method else None) of
               Some action \<Rightarrow> device_method sender path iface action call
             | None \<Rightarrow> bus_emit (DBusError call ''org.bluez.Error.NotSupported'')))"

definition bluez_owner_changed :: "string \<Rightarrow> string \<Rightarrow> (bluez, unit) act" where
  "bluez_owner_changed name new_owner =
     (if new_owner \<noteq> [] then retA () else
      thenA (discovery_discard name) (thenA bluez_discovery_changed
        (updA (\<lambda>b. b\<lparr>bz_agents := dpop name (bz_agents b),
           bz_default_agent := (case bz_default_agent b of
              Some (s, p) \<Rightarrow> if s = name then None else Some (s, p) | None \<Rightarrow> None)\<rparr>))))"

definition bluez_close :: "(bluez, unit) act" where
  "bluez_close =
     thenA (updA (\<lambda>b. b\<lparr>bz_closed := True\<rparr>)) (thenA close_sources
       (bindA (getA bz_registrations) (\<lambda>regs. forA (\<lambda>(_, ident). bus_emit (UnregisterObject ident)) regs)))"

text \<open>The event object stores a new key and asks for a refresh, and calls \<^verbatim>\<open>heartbeat\<close> while there is a key.\<close>

definition bluez_host_revision :: "revision_key option \<Rightarrow> (bluez, unit) act" where
  "bluez_host_revision key =
     thenA (bindA (getA bz_key) (\<lambda>old.
              if \<not> key_eq key old then thenA (updA (\<lambda>b. b\<lparr>bz_key := key\<rparr>)) bluez_notify else retA ()))
           (if key \<noteq> None then bluez_heartbeat else retA ())"

fun bluez_run :: "bluez_cb \<Rightarrow> (bluez, unit) act" where
  "bluez_run BluezRefresh = bluez_refresh False"
| "bluez_run BluezNotify = bluez_notify"
| "bluez_run BluezScan = bluez_refresh True"

text \<open>The start of the program: the first state, or the unavailable one.\<close>

definition bluez_start :: "json outcome \<Rightarrow> (bluez, unit) act" where
  "bluez_start reply = catchA (bindA (liftA reply) bluez_update) is_Exception (\<lambda>_. bluez_update unavailable_state)"

section \<open>What a client sees\<close>

text \<open>A client of the bus keeps a copy of the object tree and applies the signals to it.\<close>

type_synonym client = "string \<Rightarrow> (string \<Rightarrow> (string \<Rightarrow> gvariant option) option) option"

definition ifaces_view :: "ifaces \<Rightarrow> string \<Rightarrow> (string \<Rightarrow> gvariant option) option" where
  "ifaces_view ifs = (\<lambda>i. map_option map_of (map_of ifs i))"

definition tree_view :: "tree \<Rightarrow> client" where
  "tree_view t = (\<lambda>p. map_option ifaces_view (map_of t p))"

fun client_signal :: "bus_effect \<Rightarrow> client \<Rightarrow> client" where
  "client_signal (InterfacesAdded p ifs) c = c(p := Some (ifaces_view ifs))"
| "client_signal (InterfacesRemoved p is) c = c(p := None)"
| "client_signal (PropertiesChanged p i changed) c =
     c(p := map_option (\<lambda>obj. obj(i := map_option (\<lambda>props. props ++ map_of changed) (obj i))) (c p))"
| "client_signal _ c = c"

definition client_of :: "bus_effect list \<Rightarrow> client" where
  "client_of effects = fold client_signal effects (tree_view [(BLUEZ, [(AGENTS, [])])])"

lemma client_of_append [simp]: "client_of (es @ fs) = fold client_signal fs (client_of es)"
  by (simp add: client_of_def)

section \<open>The shape of the object tree\<close>

definition iface_of :: "string \<Rightarrow> string" where
  "iface_of p = (if p = BLUEZ then AGENTS else if p = ADAPTER then ADAPTER_IFACE else DEVICE_IFACE)"

definition adapter_keys :: "string list" where
  "adapter_keys = [''Address'', ''AddressType'', ''Name'', ''Alias'', ''Class'', ''Powered'', ''Discoverable'', ''Pairable'',
     ''Discovering'', ''UUIDs'']"

definition device_keys :: "string list" where
  "device_keys = [''Address'', ''AddressType'', ''Name'', ''Alias'', ''Class'', ''Icon'', ''Paired'', ''Bonded'', ''Connected'',
     ''Trusted'', ''Blocked'', ''ServicesResolved'', ''UUIDs'', ''LegacyPairing'', ''Adapter'']"

definition keys_of :: "string \<Rightarrow> string list" where
  "keys_of p = (if p = BLUEZ then [] else if p = ADAPTER then adapter_keys else device_keys)"

definition object_ok :: "string \<Rightarrow> ifaces \<Rightarrow> bool" where
  "object_ok p ifs \<longleftrightarrow> p \<noteq> ''/'' \<and> (\<exists>props. ifs = [(iface_of p, props)] \<and> map fst props = keys_of p \<and>
     (p = BLUEZ \<or> (\<exists>s. map_of props ''Address'' = Some (VStr s))))"

definition tree_ok :: "tree \<Rightarrow> bool" where
  "tree_ok t \<longleftrightarrow> wf_dict t \<and> (\<forall>p ifs. map_of t p = Some ifs \<longrightarrow> object_ok p ifs)"

definition registered :: "tree \<Rightarrow> (string \<times> string) set" where
  "registered t = insert (''/'', MANAGER) {(p, i). case map_of t p of None \<Rightarrow> False | Some ifs \<Rightarrow> i \<in> fst ` set ifs}"

text \<open>
  The tree is well-formed, exactly its interfaces are registered on the bus, and a client that follows the signals
  sees it.
\<close>

definition objects_ok :: "bluez \<Rightarrow> bool" where
  "objects_ok b \<longleftrightarrow> tree_ok (bz_objects b) \<and> wf_dict (bz_registrations b) \<and>
     fst ` set (bz_registrations b) = registered (bz_objects b) \<and> client_of (bz_log b) = tree_view (bz_objects b)"

definition bz_rest :: "bluez \<Rightarrow> bluez" where
  "bz_rest b = b\<lparr>bz_objects := [], bz_registrations := [], bz_next := 0, bz_log := []\<rparr>"

definition only_objects :: "bluez \<Rightarrow> bluez \<Rightarrow> bool" where
  "only_objects b b' \<longleftrightarrow> bz_rest b' = bz_rest b"

lemma only_objects_refl [simp]: "only_objects b b"
  by (simp add: only_objects_def)

lemma only_objects_trans [trans]: "only_objects a b \<Longrightarrow> only_objects b c \<Longrightarrow> only_objects a c"
  by (simp add: only_objects_def)

lemma only_objects_upd [simp]:
  "only_objects b (c\<lparr>bz_objects := x\<rparr>) = only_objects b c" "only_objects b (c\<lparr>bz_registrations := r\<rparr>) = only_objects b c"
  "only_objects b (c\<lparr>bz_next := n\<rparr>) = only_objects b c" "only_objects b (c\<lparr>bz_log := l\<rparr>) = only_objects b c"
  by (simp_all add: only_objects_def bz_rest_def)

lemma rest_fields:
  "f (bz_rest b) = f b \<Longrightarrow> f (bz_rest c) = f c \<Longrightarrow> only_objects b c \<Longrightarrow> f c = f b"
  unfolding only_objects_def by metis

lemma only_objects_fields:
  assumes "only_objects b c"
  shows "bz_discovery c = bz_discovery b" "bz_agents c = bz_agents b" "bz_default_agent c = bz_default_agent b"
    "bz_jobs c = bz_jobs b" "bz_pending c = bz_pending b" "bz_refreshing c = bz_refreshing b" "bz_closed c = bz_closed b"
    "bz_key c = bz_key b" "bz_refresh_again c = bz_refresh_again b" "tm_sources c = tm_sources b" "tm_closed c = tm_closed b"
  by (rule rest_fields [OF _ _ assms]; simp add: bz_rest_def)+

lemma keys_distinct: "distinct (keys_of p)"
  by (simp add: keys_of_def adapter_keys_def device_keys_def)

lemma map_of_changed:
  assumes "map fst old = map fst new" "distinct (map fst new)"
  shows "map_of old ++ map_of (filter (\<lambda>(k, v). map_of old k \<noteq> Some v) new) = map_of new"
proof
  fix k
  let ?ch = "filter (\<lambda>(k, v). map_of old k \<noteq> Some v) new"
  have d: "distinct (map fst ?ch)" using assms(2) by (simp add: distinct_map_filter)
  show "(map_of old ++ map_of ?ch) k = map_of new k"
  proof (cases "map_of new k")
    case None
    then have "k \<notin> fst ` set new" by (simp add: map_of_eq_None_iff)
    moreover have "fst ` set ?ch \<subseteq> fst ` set new" by auto
    moreover have "fst ` set old = fst ` set new" using assms(1) by (metis list.set_map)
    ultimately have "k \<notin> fst ` set old" "k \<notin> fst ` set ?ch" by blast+
    then show ?thesis using None by (simp add: map_add_def map_of_eq_None_iff [THEN iffD2])
  next
    case (Some v)
    then have v: "(k, v) \<in> set new" by (rule map_of_SomeD)
    show ?thesis
    proof (cases "map_of old k = Some v")
      case True
      then have "k \<notin> fst ` set ?ch" using v assms(2) by (auto simp: eq_key_imp_eq_value)
      then show ?thesis using True Some by (simp add: map_add_def map_of_eq_None_iff [THEN iffD2])
    next
      case False
      then have "(k, v) \<in> set ?ch" using v by simp
      then have "map_of ?ch k = Some v" using d by (simp add: map_of_is_SomeI)
      then show ?thesis using Some by (simp add: map_add_def)
    qed
  qed
qed


section \<open>Publishing and removing objects\<close>

lemma remove_object_ok:
  assumes b: "objects_ok b" and p: "map_of (bz_objects b) p \<noteq> None"
  shows "\<exists>b'. remove_object p b = (b', Ret ()) \<and> objects_ok b' \<and> only_objects b b' \<and> bz_objects b' = dpop p (bz_objects b)"
proof -
  have t: "tree_ok (bz_objects b)" and r: "wf_dict (bz_registrations b)" "fst ` set (bz_registrations b) = registered (bz_objects b)"
    and c: "client_of (bz_log b) = tree_view (bz_objects b)"
    using b by (simp_all add: objects_ok_def)
  obtain props where props: "map_of (bz_objects b) p = Some [(iface_of p, props)]" "p \<noteq> ''/''"
    using p t by (auto simp: tree_ok_def object_ok_def)
  then have "(p, iface_of p) \<in> fst ` set (bz_registrations b)" unfolding r(2) registered_def by simp
  then obtain ident where ident: "map_of (bz_registrations b) (p, iface_of p) = Some ident"
    using map_of_eq_None_iff [of "bz_registrations b" "(p, iface_of p)"] by auto
  let ?b = "b\<lparr>bz_objects := dpop p (bz_objects b), bz_log := (bz_log b @ [InterfacesRemoved p [iface_of p]]) @ [UnregisterObject ident],
    bz_registrations := dpop (p, iface_of p) (bz_registrations b)\<rparr>"
  have run: "remove_object p b = (?b, Ret ())"
    using props ident by (simp add: remove_object_def bus_emit_def pop_registration_def)
  have "registered (dpop p (bz_objects b)) = registered (bz_objects b) - {(p, iface_of p)}"
    using props by (auto simp: registered_def split: if_splits option.splits)
  moreover have "tree_view (dpop p (bz_objects b)) = (tree_view (bz_objects b))(p := None)"
    by (auto simp: tree_view_def)
  ultimately have "objects_ok ?b"
    using t r c by (auto simp: objects_ok_def tree_ok_def)
  then show ?thesis using run by simp
qed

lemma publish_object_ok:
  assumes b: "objects_ok b" and p: "object_ok p ifs"
  shows "\<exists>b'. publish_object p ifs b = (b', Ret ()) \<and> objects_ok b' \<and> only_objects b b' \<and> bz_objects b' = dset p ifs (bz_objects b)"
proof -
  have t: "tree_ok (bz_objects b)" and r: "wf_dict (bz_registrations b)" "fst ` set (bz_registrations b) = registered (bz_objects b)"
    and c: "client_of (bz_log b) = tree_view (bz_objects b)"
    using b by (simp_all add: objects_ok_def)
  obtain props where props: "ifs = [(iface_of p, props)]" "map fst props = keys_of p" "p \<noteq> ''/''"
    using p by (auto simp: object_ok_def)
  have tree: "tree_ok (dset p ifs (bz_objects b))" using t p by (auto simp: tree_ok_def)
  show ?thesis
  proof (cases "map_of (bz_objects b) p")
    case None
    let ?b = "b\<lparr>bz_objects := dset p ifs (bz_objects b), bz_registrations := dset (p, iface_of p) (bz_next b) (bz_registrations b),
      bz_next := bz_next b + 1, bz_log := (bz_log b @ [RegisterObject p (iface_of p)]) @ [InterfacesAdded p ifs]\<rparr>"
    have run: "publish_object p ifs b = (?b, Ret ())"
      using None props(1) by (simp add: publish_object_def bluez_register_def bus_emit_def)
    have "registered (dset p ifs (bz_objects b)) = insert (p, iface_of p) (registered (bz_objects b))"
      using None props(1) by (auto simp: registered_def split: if_splits option.splits)
    moreover have "tree_view (dset p ifs (bz_objects b)) = (tree_view (bz_objects b))(p := Some (ifaces_view ifs))"
      by (auto simp: tree_view_def)
    ultimately have "objects_ok ?b" using tree r c by (simp add: objects_ok_def)
    then show ?thesis using run by simp
  next
    case (Some ifs')
    obtain old where old: "ifs' = [(iface_of p, old)]" "map fst old = keys_of p"
      using t Some by (auto simp: tree_ok_def object_ok_def)
    define changed where "changed = filter (\<lambda>(k, v). map_of old k \<noteq> Some v) props"
    let ?b = "b\<lparr>bz_objects := dset p ifs (bz_objects b),
      bz_log := bz_log b @ (if changed = [] then [] else [PropertiesChanged p (iface_of p) changed])\<rparr>"
    have run: "publish_object p ifs b = (?b, Ret ())"
      using Some props(1) old(1) by (simp add: publish_object_def change_iface_def bus_emit_def changed_def Let_def)
    have m: "map_of old ++ map_of changed = map_of props"
      unfolding changed_def using old(2) props(2) keys_distinct by (intro map_of_changed) simp_all
    have "registered (dset p ifs (bz_objects b)) = registered (bz_objects b)"
      using Some props(1) old(1) by (auto simp: registered_def split: if_splits option.splits)
    moreover have "client_of (bz_log ?b) = tree_view (dset p ifs (bz_objects b))"
    proof
      fix q
      show "client_of (bz_log ?b) q = tree_view (dset p ifs (bz_objects b)) q"
        using m c Some old(1) props(1) by (cases "changed = []") (auto simp: tree_view_def ifaces_view_def fun_eq_iff)
    qed
    ultimately have "objects_ok ?b" using tree r by (simp add: objects_ok_def)
    then show ?thesis using run by simp
  qed
qed


lemma remove_all_objects:
  assumes "objects_ok b" "distinct ps" "\<And>p. p \<in> set ps \<Longrightarrow> map_of (bz_objects b) p \<noteq> None"
  shows "\<exists>b'. forA remove_object ps b = (b', Ret ()) \<and> objects_ok b' \<and> only_objects b b' \<and>
    map_of (bz_objects b') = (\<lambda>p. if p \<in> set ps then None else map_of (bz_objects b) p)"
  using assms
proof (induction ps arbitrary: b)
  case (Cons p ps)
  obtain c where c: "remove_object p b = (c, Ret ())" "objects_ok c" "only_objects b c" "bz_objects c = dpop p (bz_objects b)"
    using remove_object_ok [OF Cons.prems(1), of p] Cons.prems(3) by auto
  have present: "map_of (bz_objects c) q \<noteq> None" if "q \<in> set ps" for q
    using that Cons.prems(2,3) c(4) by (metis distinct.simps(2) fun_upd_apply list.set_intros(2) map_of_dpop)
  obtain d where "forA remove_object ps c = (d, Ret ())" "objects_ok d" "only_objects c d"
      "map_of (bz_objects d) = (\<lambda>q. if q \<in> set ps then None else map_of (bz_objects c) q)"
    using Cons.IH [OF c(2)] present Cons.prems(2) by auto
  then show ?case using c by (auto intro: only_objects_trans simp: fun_eq_iff)
qed auto

lemma publish_all_objects:
  assumes "objects_ok b" "\<And>p ifs. (p, ifs) \<in> set t \<Longrightarrow> object_ok p ifs"
  shows "\<exists>b'. forA (\<lambda>(p, ifs). publish_object p ifs) t b = (b', Ret ()) \<and> objects_ok b' \<and> only_objects b b' \<and>
    map_of (bz_objects b') = map_of (bz_objects b) ++ map_of (rev t)"
  using assms
proof (induction t arbitrary: b)
  case (Cons x t)
  obtain p ifs where x: "x = (p, ifs)" by (cases x)
  obtain c where c: "publish_object p ifs b = (c, Ret ())" "objects_ok c" "only_objects b c" "bz_objects c = dset p ifs (bz_objects b)"
    using publish_object_ok [OF Cons.prems(1), of p ifs] Cons.prems(2) x by auto
  obtain d where "forA (\<lambda>(p, ifs). publish_object p ifs) t c = (d, Ret ())" "objects_ok d" "only_objects c d"
      "map_of (bz_objects d) = map_of (bz_objects c) ++ map_of (rev t)"
    using Cons.IH [OF c(2)] Cons.prems(2) by auto
  then show ?case using c x by (auto intro: only_objects_trans simp: map_add_def fun_eq_iff split: option.splits)
qed auto

section \<open>The tree of a host state\<close>

lemma variants_keys: "variants vs = Ret ps \<Longrightarrow> map fst ps = map fst vs"
  unfolding variants_def by (induction vs arbitrary: ps) auto

lemma variants_first:
  "variants ((k, JStr s) # vs) = Ret ps \<Longrightarrow> map fst ps = k # map fst vs \<and> (\<exists>qs. ps = (k, VStr s) # qs)"
  using variants_keys [of "(k, JStr s) # vs" ps] by (auto simp: variants_def)

lemma device_props_ok:
  assumes "device_props record = Ret (p, ps)"
  shows "object_ok p [(DEVICE_IFACE, ps)]"
proof -
  obtain address qs where "p = device_path address" and q: "ps = qs @ [(''Adapter'', VPath ADAPTER)]" "map fst ps = device_keys" "\<exists>rs. qs = (''Address'', VStr address) # rs"
    using assms by (auto simp: device_props_def device_keys_def dest!: variants_first)
  then show ?thesis
    using q by (auto simp: object_ok_def iface_of_def keys_of_def device_path_def BLUEZ_def ADAPTER_def)
qed

lemma adapter_props_ok:
  assumes "adapter_props powered d = Ret props"
  shows "map fst props = adapter_keys" "\<exists>s. map_of props ''Address'' = Some (VStr s)"
  using variants_first [OF assms [unfolded adapter_props_def]]
  by (auto simp: adapter_keys_def)

lemma wf_fold_dset: "wf_dict t \<Longrightarrow> wf_dict (fold (\<lambda>(p, ps). dset p (f p ps)) xs t)"
  by (induction xs arbitrary: t) (auto split: prod.splits)

lemma fold_dset_objects:
  "(\<And>p ifs. map_of t p = Some ifs \<Longrightarrow> object_ok p ifs) \<Longrightarrow> (\<And>p ps. (p, ps) \<in> set xs \<Longrightarrow> object_ok p (f ps)) \<Longrightarrow>
     map_of (fold (\<lambda>(p, ps). dset p (f ps)) xs t) p = Some ifs \<Longrightarrow> object_ok p ifs"
proof (induction xs arbitrary: t)
  case (Cons x xs)
  obtain q ps where x: "x = (q, ps)" by (cases x)
  show ?case
    by (rule Cons.IH [of "dset q (f ps) t"]) (use Cons.prems x in \<open>auto split: if_splits\<close>)
qed simp

lemma current_tree_ok:
  assumes "current_tree state d = Ret t"
  shows "tree_ok t"
proof -
  obtain props found where f: "t = fold (\<lambda>(path, ps). dset path [(DEVICE_IFACE, ps)]) found
      [(BLUEZ, [(AGENTS, [])]), (ADAPTER, [(ADAPTER_IFACE, props)])]"
    and props: "map fst props = adapter_keys" "\<exists>s. map_of props ''Address'' = Some (VStr s)" and found: "\<And>p ps. (p, ps) \<in> set found \<Longrightarrow> object_ok p [(DEVICE_IFACE, ps)]"
    using assms adapter_props_ok by (fastforce simp: current_tree_def dest: mapO_set device_props_ok)
  have "object_ok p ifs" if "map_of t p = Some ifs" for p ifs
    using that unfolding f
  proof (rule fold_dset_objects [rotated 2])
    fix q js assume "map_of [(BLUEZ, [(AGENTS, [])]), (ADAPTER, [(ADAPTER_IFACE, props)])] q = Some js"
    then show "object_ok q js"
      using props by (auto simp: object_ok_def iface_of_def keys_of_def BLUEZ_def ADAPTER_def split: if_splits)
  qed (rule found)
  moreover have "wf_dict t" unfolding f by (rule wf_fold_dset) (simp add: wf_dict_def BLUEZ_def ADAPTER_def)
  ultimately show ?thesis by (simp add: tree_ok_def)
qed


lemma map_of_rev_dict: "wf_dict t \<Longrightarrow> map_of (rev t) = map_of t"
  unfolding wf_dict_def by (rule map_of_inject_set [THEN iffD2]) (simp_all add: rev_map [symmetric])

definition only_update :: "bluez \<Rightarrow> bluez \<Rightarrow> bool" where
  "only_update b b' \<longleftrightarrow> (\<exists>x y. only_objects (b\<lparr>bz_radio_state := x, bz_radio_key := y\<rparr>) b')"

lemma sync_objects:
  assumes b: "objects_ok b" and t: "tree_ok t"
  shows "\<exists>b'. thenA (bindA (getA bz_objects) (\<lambda>objects.
               forA remove_object (filter (\<lambda>p. map_of t p = None) (map fst objects))))
            (forA (\<lambda>(path, ifs). publish_object path ifs) t) b = (b', Ret ()) \<and>
    objects_ok b' \<and> only_objects b b' \<and> map_of (bz_objects b') = map_of t"
proof -
  let ?ps = "filter (\<lambda>p. map_of t p = None) (map fst (bz_objects b))"
  have "distinct ?ps" using b by (simp add: objects_ok_def tree_ok_def wf_dict_def)
  moreover have "map_of (bz_objects b) p \<noteq> None" if "p \<in> set ?ps" for p using that by (auto simp: map_of_eq_None_iff)
  ultimately obtain c where c: "forA remove_object ?ps b = (c, Ret ())" "objects_ok c" "only_objects b c"
      "map_of (bz_objects c) = (\<lambda>p. if p \<in> set ?ps then None else map_of (bz_objects b) p)"
    using remove_all_objects [OF b] by blast
  have "object_ok p ifs" if "(p, ifs) \<in> set t" for p ifs
    using that t by (auto simp: tree_ok_def wf_dict_def)
  then obtain d where d: "forA (\<lambda>(path, ifs). publish_object path ifs) t c = (d, Ret ())" "objects_ok d" "only_objects c d"
      "map_of (bz_objects d) = map_of (bz_objects c) ++ map_of (rev t)"
    using publish_all_objects [OF c(2)] by blast
  have "map_of (bz_objects d) p = map_of t p" for p
    using d(4) c(4) t map_of_eq_None_iff [of "bz_objects b" p]
    by (auto simp: map_of_rev_dict tree_ok_def map_add_def split: option.splits)
  then show ?thesis using c d by (auto simp: thenA_def bindA_def getA_def intro: only_objects_trans)
qed

lemma write_radio_ok:
  "objects_ok b \<Longrightarrow> \<exists>b'. bluez_write_radio b = (b', Ret ()) \<and> objects_ok b' \<and> only_objects b b' \<and> bz_objects b' = bz_objects b"
  by (auto simp: bluez_write_radio_def bus_emit_def objects_ok_def)

lemma radio_bits_Ret: "current_tree state d = Ret t \<Longrightarrow> \<exists>x. radio_bits state = Ret x"
  by (cases state) (auto simp: current_tree_def radio_bits_def)

lemma variants_ends [ends_intros]: "ends (variants vs)"
proof -
  have v: "ends (variant v)" for v by (cases v) simp_all
  show ?thesis unfolding variants_def by (auto intro!: ends_intros v split: prod.splits)
qed

lemma device_ends [ends_intros]:
  "ends (device_address v)" "ends (device_class v)" "ends (device_uuids v)" "ends (jget_or v k d)"
  by (cases v; simp add: Let_def)+

lemma device_props_ends [ends_intros]: "ends (device_props v)"
  unfolding device_props_def by (intro ends_intros)

lemma tree_ends: "ends (radio_bits state)" "ends (current_tree state d)"
  unfolding radio_bits_def current_tree_def adapter_props_def by (intro ends_intros)+

lemma update_cases:
  assumes b: "objects_ok b"
  obtains (updated) t b' where "current_tree state (bz_discovery b \<noteq> []) = Ret t" "bluez_update state b = (b', Ret ())" "objects_ok b'"
      "only_update b b'" "map_of (bz_objects b') = map_of t"
    | (refused) e b' where "\<And>t. current_tree state (bz_discovery b \<noteq> []) \<noteq> Ret t" "bluez_update state b = (b', Exc e)" "objects_ok b'"
      "only_update b b'" "bz_objects b' = bz_objects b" "is_Exception e"
proof (cases "radio_bits state")
  case (Ret x)
  let ?b = "b\<lparr>bz_radio_state := x, bz_radio_key := bz_key b\<rparr>"
  have "objects_ok ?b" using b by (simp add: objects_ok_def)
  then obtain c where c: "bluez_write_radio ?b = (c, Ret ())" "objects_ok c" "only_objects ?b c" "bz_objects c = bz_objects ?b"
    using write_radio_ok by blast
  have d: "bz_discovery c = bz_discovery b"
    using only_objects_fields(1) [OF c(3)] by simp
  have u: "only_update b c'" if "only_objects c c'" for c' using only_objects_trans [OF c(3) that] by (auto simp: only_update_def)
  show thesis
  proof (cases "current_tree state (bz_discovery b \<noteq> [])")
    case (Ret t)
    obtain c' where "thenA (bindA (getA bz_objects) (\<lambda>objects.
               forA remove_object (filter (\<lambda>p. map_of t p = None) (map fst objects))))
            (forA (\<lambda>(path, ifs). publish_object path ifs) t) c = (c', Ret ())" "objects_ok c'" "only_objects c c'" "map_of (bz_objects c') = map_of t"
      using sync_objects [OF c(2) current_tree_ok [OF Ret]] by blast
    then show thesis
      using updated [OF Ret, of c'] u [of c'] c(1) d Ret \<open>radio_bits state = Ret x\<close> by (simp add: bluez_update_def)
  next
    case (Exc e)
    then show thesis
      using refused [of c e] u [of c] c d \<open>radio_bits state = Ret x\<close> tree_ends(2) [of state "bz_discovery b \<noteq> []"]
      by (simp add: bluez_update_def)
  next
    case NoRet
    then show thesis using tree_ends(2) [of state "bz_discovery b \<noteq> []"] by simp
  qed
next
  case (Exc e)
  have "only_objects (b\<lparr>bz_radio_state := bz_radio_state b, bz_radio_key := bz_radio_key b\<rparr>) b" by simp
  then have "only_update b b" unfolding only_update_def by blast
  then show thesis
    using refused [of b e] Exc radio_bits_Ret b tree_ends(1) [of state] by (fastforce simp: bluez_update_def)
next
  case NoRet
  then show thesis using tree_ends(1) [of state] by simp
qed


section \<open>The invariant of the bridge\<close>

fun is_operation :: "bluez_job \<Rightarrow> bool" where
  "is_operation (OperationJob _ _ _ _ _) = True"
| "is_operation (ReadJob _) = False"

text \<open>The default agent is a registered one; at most one operation and one reading are outstanding, as the flags say.\<close>

definition agents_ok :: "bluez \<Rightarrow> bool" where
  "agents_ok b \<longleftrightarrow> (\<forall>s p. bz_default_agent b = Some (s, p) \<longrightarrow> map_of (bz_agents b) s = Some p)"

definition jobs_ok :: "bluez \<Rightarrow> bool" where
  "jobs_ok b \<longleftrightarrow> length (filter is_operation (bz_jobs b)) = (if bz_pending b then 1 else 0) \<and>
     length (filter (\<lambda>j. \<not> is_operation j) (bz_jobs b)) = (if bz_refreshing b then 1 else 0)"

definition bluez_inv :: "bluez \<Rightarrow> bool" where
  "bluez_inv b \<longleftrightarrow> objects_ok b \<and> agents_ok b \<and> jobs_ok b"

lemmas bluez_inv_defs = bluez_inv_def agents_ok_def jobs_ok_def

text \<open>Fields the invariant does not speak of.\<close>

lemma bluez_inv_upd [simp]:
  "bluez_inv (b\<lparr>bz_key := k\<rparr>) = bluez_inv b" "bluez_inv (b\<lparr>bz_refresh_again := a\<rparr>) = bluez_inv b"
  "bluez_inv (b\<lparr>bz_discovery := d\<rparr>) = bluez_inv b" "bluez_inv (b\<lparr>bz_closed := c\<rparr>) = bluez_inv b"
  "bluez_inv (b\<lparr>tm_closed := c\<rparr>) = bluez_inv b" "bluez_inv (b\<lparr>tm_sources := s, tm_glib := g\<rparr>) = bluez_inv b"
  "bluez_inv (b\<lparr>tm_sources := s, tm_glib := g, tm_next := n\<rparr>) = bluez_inv b"
  by (simp_all add: bluez_inv_defs objects_ok_def)

lemma bluez_later [keeps_intros]: "keeps bluez_inv (later n ms cb)"
  by (rule keepsI) (simp add: later_def glib_add_def)

lemma bluez_remove_source [keeps_intros]: "keeps bluez_inv (remove_source n)"
  by (rule keepsI) (simp add: remove_source_def split: option.splits)

lemma bluez_emit [keeps_intros]:
  "keeps bluez_inv (bus_emit (ReturnValue c))" "keeps bluez_inv (bus_emit (DBusError c n))"
  "keeps bluez_inv (bus_emit (UnregisterObject i))" "keeps bluez_inv (bus_emit (RadioIoctl s))"
  by (auto intro!: keepsI simp: bus_emit_def bluez_inv_defs objects_ok_def)

lemma bluez_update_inv [keeps_intros]: "keeps bluez_inv (bluez_update state)"
proof (rule keepsI)
  fix b assume b: "bluez_inv b"
  have u: "bluez_inv c" if ok: "objects_ok c" and upd: "only_update b c" for c
  proof -
    obtain x y where "only_objects (b\<lparr>bz_radio_state := x, bz_radio_key := y\<rparr>) c" using upd by (auto simp: only_update_def)
    from only_objects_fields [OF this] show ?thesis using ok b by (simp add: bluez_inv_defs)
  qed
  have "objects_ok b" using b by (simp add: bluez_inv_def)
  then show "bluez_inv (fst (bluez_update state b))"
    by (rule update_cases [where state = state]) (simp_all add: u)
qed

lemma bluez_submit_operation: "\<not> bz_pending b \<Longrightarrow> bluez_inv b \<Longrightarrow> bluez_inv (fst (bluez_submit (OperationJob c p a x g) b))"
  by (simp add: bluez_submit_def bluez_inv_defs objects_ok_def)

lemma bluez_submit_read: "\<not> bz_refreshing b \<Longrightarrow> bluez_inv b \<Longrightarrow> bluez_inv (fst (bluez_submit (ReadJob s) b))"
  by (simp add: bluez_submit_def bluez_inv_defs objects_ok_def)

lemma bluez_refresh_inv [keeps_intros]: "keeps bluez_inv (bluez_refresh scan)"
  by (rule keepsI) (simp add: bluez_refresh_def bluez_submit_read keepsD [OF bluez_update_inv])

lemma bluez_notify_inv [keeps_intros]: "keeps bluez_inv bluez_notify" "keeps bluez_inv bluez_retry" "keeps bluez_inv bluez_schedule_discovery"
  unfolding bluez_notify_def bluez_retry_def bluez_schedule_discovery_def by (intro keeps_intros)+

lemma bluez_write_radio_inv [keeps_intros]: "keeps bluez_inv bluez_write_radio" "keeps bluez_inv bluez_heartbeat"
  unfolding bluez_heartbeat_def bluez_write_radio_def by (auto intro!: keeps_intros split: prod.splits)

lemma discovering_inv:
  assumes b: "bluez_inv b" and ifs: "map_of (bz_objects b) ADAPTER = Some ifs" "map_of ifs ADAPTER_IFACE = Some props" "props \<noteq> []"
  shows "bluez_inv (b\<lparr>bz_objects := dset ADAPTER (dset ADAPTER_IFACE (dset ''Discovering'' v props) ifs) (bz_objects b),
    bz_log := bz_log b @ [PropertiesChanged ADAPTER ADAPTER_IFACE [(''Discovering'', v)]]\<rparr>)" (is "bluez_inv ?b")
proof -
  have o: "tree_ok (bz_objects b)" "client_of (bz_log b) = tree_view (bz_objects b)"
    using b by (simp_all add: bluez_inv_def objects_ok_def)
  have a: "iface_of ADAPTER = ADAPTER_IFACE" "keys_of ADAPTER = adapter_keys"
    by (simp_all add: iface_of_def keys_of_def BLUEZ_def ADAPTER_def)
  have "object_ok ADAPTER ifs" using o(1) ifs(1) by (auto simp: tree_ok_def)
  then have p: "ifs = [(ADAPTER_IFACE, props)]" "map fst props = adapter_keys" "\<exists>s. map_of props ''Address'' = Some (VStr s)"
    using ifs(2) a by (auto simp: object_ok_def BLUEZ_def ADAPTER_def)
  have "''Discovering'' \<in> fst ` set props" unfolding list.set_map [symmetric] p(2) by (simp add: adapter_keys_def)
  then obtain old where "map_of props ''Discovering'' = Some old"
    using map_of_eq_None_iff [of props "''Discovering''"] by auto
  then have k: "map fst (dset ''Discovering'' v props) = adapter_keys"
    using p(2) map_dset_present [of props "''Discovering''" old fst v] by simp
  have "tree_ok (bz_objects ?b)"
    using o(1) p(1,3) k a by (auto simp: tree_ok_def object_ok_def ADAPTER_def)
  moreover have "registered (bz_objects ?b) = registered (bz_objects b)"
    using ifs(1) p(1) by (auto simp: registered_def split: if_splits option.splits)
  moreover have "client_of (bz_log ?b) = tree_view (bz_objects ?b)"
    using o(2) ifs(1) p(1) by (auto simp: tree_view_def ifaces_view_def fun_eq_iff)
  ultimately show ?thesis using b by (simp add: bluez_inv_defs objects_ok_def)
qed

lemma bluez_discovery_inv [keeps_intros]: "keeps bluez_inv bluez_discovery_changed"
proof -
  have "keeps bluez_inv publish_discovering"
    by (rule keepsI) (auto simp: publish_discovering_def bus_emit_def discovering_inv split: option.splits)
  then show ?thesis unfolding bluez_discovery_changed_def by (intro keeps_intros)
qed

lemma bluez_agent_inv [keeps_intros]: "keeps bluez_inv (agent_method sender method values call)"
proof -
  have a: "keeps bluez_inv (register_agent sender p cap call)" for p cap
    by (rule keepsI) (auto simp: register_agent_def bus_emit_def bluez_inv_defs objects_ok_def)
  have c: "keeps bluez_inv (bindA (getA (\<lambda>b. map_of (bz_agents b) sender)) (\<lambda>found.
         if found \<noteq> Some p then bus_emit (DBusError call ''org.bluez.Error.DoesNotExist'')
         else thenA (change_agent sender method p) (bus_emit (ReturnValue call))))" for p
    by (rule keepsI) (auto simp: change_agent_def bus_emit_def bluez_inv_defs objects_ok_def)
  show ?thesis unfolding agent_method_def by (intro keeps_if keeps_bind [OF keeps_lift] a c)
qed

lemma bluez_device_inv [keeps_intros]: "keeps bluez_inv (device_method sender path iface action call)"
proof (rule keepsI)
  fix b assume b: "bluez_inv b"
  show "bluez_inv (fst (device_method sender path iface action call b))"
  proof (cases "bz_pending b")
    case True
    then show ?thesis using b keepsD [OF bluez_emit(2) b] by (simp add: device_method_def)
  next
    case False
    then show ?thesis
      using b bluez_submit_operation [OF False b]
      by (cases "object_address path iface b") (simp_all add: device_method_def act_defs)
  qed
qed

lemma bluez_discovery_set_inv [keeps_intros]:
  "keeps bluez_inv (discovery_add sender)" "keeps bluez_inv (discovery_discard sender)"
  by (auto intro!: keepsI simp: discovery_add_def discovery_discard_def)

lemma bluez_method_inv: "keeps bluez_inv (bluez_method authorized sender path iface method values call)"
  unfolding bluez_method_def filter_method_def
  by (auto intro!: keeps_intros split: option.splits)

lemma bluez_owner_inv: "keeps bluez_inv (bluez_owner_changed name owner)"
  unfolding bluez_owner_changed_def
  by (intro keeps_intros keeps_upd) (auto simp: bluez_inv_defs objects_ok_def split: option.splits if_splits)

lemma bluez_close_inv: "keeps bluez_inv bluez_close"
  unfolding bluez_close_def close_sources_def
  by (intro keeps_intros keeps_upd) (auto simp: case_prod_beta intro: bluez_remove_source keeps_intros)

lemma bluez_host_inv: "keeps bluez_inv (bluez_host_revision key)"
  unfolding bluez_host_revision_def by (intro keeps_intros keeps_upd) simp

lemma bluez_start_inv: "keeps bluez_inv (bluez_start reply)"
  unfolding bluez_start_def by (intro keeps_intros)

lemma bluez_outcome_inv [keeps_intros]: "keeps bluez_inv (bluez_outcome job result)"
  unfolding bluez_outcome_def by (cases job) (auto intro!: keeps_intros keeps_upd)

lemma remove1_operation:
  "j \<in> set js \<Longrightarrow> length (filter P (remove1 j js)) = (if P j then length (filter P js) - 1 else length (filter P js))"
  by (simp add: filter_remove1 length_remove1)

lemma bluez_finished_inv:
  assumes "job \<in> set (bz_jobs b)" "bluez_inv b"
  shows "bluez_inv (fst (bluez_finished job result b))"
proof -
  have rest: "keeps bluez_inv (bindA (getA bz_closed) (\<lambda>stopped.
        if stopped then retA () else
        thenA (bluez_outcome job result)
        (thenA (bindA (getA bz_refresh_again) (\<lambda>again.
                  if again then thenA (updA (\<lambda>b. b\<lparr>bz_refresh_again := False\<rparr>)) bluez_notify else retA ()))
               bluez_schedule_discovery)))"
    by (intro keeps_intros keeps_upd) simp
  have "bluez_inv ((case job of OperationJob _ _ _ _ _ \<Rightarrow> b\<lparr>bz_pending := False\<rparr> | ReadJob _ \<Rightarrow> b\<lparr>bz_refreshing := False\<rparr>)
      \<lparr>bz_jobs := remove1 job (bz_jobs b)\<rparr>)"
    using assms(2) remove1_operation [OF assms(1), of is_operation] remove1_operation [OF assms(1), of "\<lambda>j. \<not> is_operation j"]
    by (cases job) (simp_all add: bluez_inv_defs objects_ok_def split: if_splits)
  from keepsD [OF rest this] show ?thesis
    by (cases job) (auto simp: bluez_finished_def split: if_splits)
qed

lemma bluez_new_inv: "bluez_inv (bluez_new m)"
  by (auto simp: bluez_new_def bluez_register_def bus_emit_def bluez_blank_def bluez_inv_defs objects_ok_def tree_ok_def wf_dict_def
      object_ok_def iface_of_def keys_of_def BLUEZ_def registered_def client_of_def split: if_splits option.splits)


section \<open>Steps of the bridge\<close>

datatype bluez_event =
    MethodCall "bool outcome" string string string string "json list" nat
  | JobFinished bluez_job "json outcome"
  | BluezTimer nat
  | HostRevision "revision_key option"
  | OwnerChanged string string
  | CloseBridge

fun bluez_handle :: "bluez_event \<Rightarrow> (bluez, unit) act" where
  "bluez_handle (MethodCall authorized sender path iface method values call) = bluez_method authorized sender path iface method values call"
| "bluez_handle (JobFinished job result) = bluez_finished job result"
| "bluez_handle (BluezTimer ident) = fire bluez_run ident"
| "bluez_handle (HostRevision key) = bluez_host_revision key"
| "bluez_handle (OwnerChanged name owner) = bluez_owner_changed name owner"
| "bluez_handle CloseBridge = bluez_close"

text \<open>Only outstanding jobs finish. A handler that raises leaves its changes behind.\<close>

inductive bluez_step :: "bluez \<Rightarrow> bluez \<Rightarrow> bool" where
  bluez_stepI: "(\<And>job result. ev = JobFinished job result \<Longrightarrow> job \<in> set (bz_jobs b)) \<Longrightarrow> bluez_step b (fst (bluez_handle ev b))"

inductive_cases bluez_stepE: "bluez_step b b'"

definition bluez_init :: "bluez \<Rightarrow> bool" where
  "bluez_init b \<longleftrightarrow> (\<exists>manage reply. b = fst (bluez_start reply (bluez_new manage)))"

lemma bluez_fire_inv: "keeps bluez_inv (fire bluez_run ident)"
proof -
  have "keeps bluez_inv (bluez_run cb)" for cb by (cases cb) (simp_all add: keeps_intros)
  then show ?thesis unfolding fire_def
    by (intro keeps_intros) (auto intro!: keeps_intros keeps_upd split: option.splits)
qed

interpretation bluez: service bluez_init bluez_step bluez_inv
proof unfold_locales
  show "bluez_init b \<Longrightarrow> bluez_inv b" for b
    using keepsD [OF bluez_start_inv bluez_new_inv] by (auto simp: bluez_init_def)
  show "bluez_inv b \<Longrightarrow> bluez_step b b' \<Longrightarrow> bluez_inv b'" for b b'
  proof (elim bluez_stepE)
    fix ev assume b: "bluez_inv b" and j: "\<And>job result. ev = JobFinished job result \<Longrightarrow> job \<in> set (bz_jobs b)" and b': "b' = fst (bluez_handle ev b)"
    show "bluez_inv b'"
      using b j unfolding b'
      by (cases ev) (simp_all add: keepsD [OF bluez_method_inv] bluez_finished_inv keepsD [OF bluez_fire_inv] keepsD [OF bluez_host_inv]
          keepsD [OF bluez_owner_inv] keepsD [OF bluez_close_inv])
  qed
qed


text \<open>C14: in every reachable state of the bridge, a client that read the objects at the start and follows the signals sees exactly
  the bridge's objects, and exactly their interfaces (and the object manager) are registered on the bus.\<close>

theorem bluez_clients_agree:
  assumes "reach bluez_init bluez_step b"
  shows "client_of (bz_log b) = tree_view (bz_objects b) \<and> fst ` set (bz_registrations b) = registered (bz_objects b)"
  using bluez.reach_inv [OF assms] by (simp add: bluez_inv_def objects_ok_def)

definition demo_state :: json where
  "demo_state = JDict [(''powered'', JBool True), (''devices'', JList [JDict [(''address'', JStr ''00-11-22-33-44-5f''),
     (''classOfDevice'', JInt 0x240404), (''name'', JStr ''Headset''), (''paired'', JBool False), (''connected'', JBool False)]])]"

definition demo_bluez :: bluez where
  "demo_bluez = fst (bluez_start (Ret demo_state) (bluez_new True))"

lemma demo_reach: "reach bluez_init bluez_step demo_bluez"
  unfolding demo_bluez_def by (rule reach_init) (auto simp: bluez_init_def)

lemma demo_paths: "map fst (bz_objects demo_bluez) = [''/org/bluez'', ''/org/bluez/hci0'', ''/org/bluez/hci0/dev_00_11_22_33_44_5F'']"
  by code_simp

theorem bluez_clients_agree_witness:
  "map fst (bz_objects demo_bluez) = [''/org/bluez'', ''/org/bluez/hci0'', ''/org/bluez/hci0/dev_00_11_22_33_44_5F''] \<and>
   client_of (bz_log demo_bluez) = tree_view (bz_objects demo_bluez)"
  using bluez_clients_agree [OF demo_reach] demo_paths by simp

text \<open>A host state is published as a whole or not at all: if it describes valid objects, the update returns and the
  bridge publishes exactly them; otherwise it raises and the published objects stay what they were.\<close>

theorem bluez_update_atomic:
  assumes "reach bluez_init bluez_step b"
  shows "case current_tree state (bz_discovery b \<noteq> []) of
      Ret t \<Rightarrow> (\<exists>b'. bluez_update state b = (b', Ret ()) \<and> map_of (bz_objects b') = map_of t)
    | _ \<Rightarrow> (\<exists>b' e. bluez_update state b = (b', Exc e) \<and> is_Exception e \<and> bz_objects b' = bz_objects b)"
proof -
  have "objects_ok b" using bluez.reach_inv [OF assms] by (simp add: bluez_inv_def)
  then show ?thesis by (rule update_cases [where state = state]) (auto split: outcome.splits)
qed

theorem bluez_update_atomic_witness:
  "\<exists>b' e. bluez_update (JDict [(''powered'', JBool True), (''devices'', JList [JNull])]) demo_bluez = (b', Exc e) \<and>
     bz_objects b' = bz_objects demo_bluez"
proof -
  let ?s = "JDict [(''powered'', JBool True), (''devices'', JList [JNull])]"
  have "current_tree ?s d = Exc (TypeError ''not subscriptable by str'')" for d
    by (simp add: current_tree_def adapter_props_def variants_def device_props_def)
  then show ?thesis using bluez_update_atomic [OF demo_reach, of ?s] by auto
qed

text \<open>In every reachable state the default pairing agent is a registered agent, and at most one host operation and one
  reading are outstanding, exactly when the flags that gate them are set.\<close>

theorem bluez_gates:
  assumes "reach bluez_init bluez_step b"
  shows "(\<forall>s p. bz_default_agent b = Some (s, p) \<longrightarrow> map_of (bz_agents b) s = Some p) \<and>
    length (filter is_operation (bz_jobs b)) = (if bz_pending b then 1 else 0) \<and>
    length (filter (\<lambda>j. \<not> is_operation j) (bz_jobs b)) = (if bz_refreshing b then 1 else 0)"
  using bluez.reach_inv [OF assms] by (simp add: bluez_inv_defs)

theorem bluez_gates_witness:
  "length (filter is_operation (bz_jobs demo_bluez)) = (if bz_pending demo_bluez then 1 else 0)"
  using bluez_gates [OF demo_reach] by blast

section \<open>Every method call is answered\<close>

fun is_answer :: "nat \<Rightarrow> bus_effect \<Rightarrow> bool" where
  "is_answer c (ReturnValue d) = (d = c)"
| "is_answer c (DBusError d _) = (d = c)"
| "is_answer c _ = False"

fun owes :: "nat \<Rightarrow> bluez_job \<Rightarrow> bool" where
  "owes c (OperationJob d _ _ _ _) = (d = c)"
| "owes c (ReadJob _) = False"

definition answers :: "nat \<Rightarrow> bluez \<Rightarrow> nat" where
  "answers c b = length (filter (is_answer c) (bz_log b))"

definition owed :: "nat \<Rightarrow> bluez \<Rightarrow> nat" where
  "owed c b = length (filter (owes c) (bz_jobs b))"

text \<open>The answers given and the jobs that will give one; \<open>ledger f\<close> says that they are what \<open>f\<close> says for every call.\<close>

definition ledger :: "(nat \<Rightarrow> nat \<times> nat) \<Rightarrow> bluez \<Rightarrow> bool" where
  "ledger f b \<longleftrightarrow> (\<forall>c. (answers c b, owed c b) = f c)"

lemma ledger_upd:
  "(\<And>b. bz_log (u b) = bz_log b \<and> bz_jobs (u b) = bz_jobs b) \<Longrightarrow> keeps (ledger f) (updA u)"
  by (auto intro!: keeps_upd simp: ledger_def answers_def owed_def)

lemma ledger_timers [keeps_intros]: "keeps (ledger f) (later n ms cb)" "keeps (ledger f) (remove_source n)"
  by (auto intro!: keepsI simp: later_def glib_add_def remove_source_def ledger_def answers_def owed_def split: option.splits)

lemma ledger_emit: "(\<And>c. \<not> is_answer c eff) \<Longrightarrow> keeps (ledger f) (bus_emit eff)"
  by (auto intro!: keepsI simp: bus_emit_def ledger_def answers_def owed_def)

lemma ledger_update [keeps_intros]: "keeps (ledger f) (bluez_update state)"
proof -
  have "keeps (ledger f) (remove_object p)" "keeps (ledger f) (publish_object p ifs)" for p ifs
    unfolding remove_object_def publish_object_def pop_registration_def change_iface_def bluez_register_def Let_def
    by (auto intro!: keeps_intros ledger_upd ledger_emit split: option.splits prod.splits)
  then show ?thesis
    unfolding bluez_update_def bluez_write_radio_def
    by (auto intro!: keeps_intros ledger_upd ledger_emit split: prod.splits)
qed

lemma ledger_discovery [keeps_intros]: "keeps (ledger f) bluez_discovery_changed"
  unfolding bluez_discovery_changed_def publish_discovering_def
  by (auto intro!: keeps_intros ledger_upd ledger_emit split: option.splits prod.splits)

lemma ledger_refresh [keeps_intros]: "keeps (ledger f) (bluez_refresh scan)"
proof -
  have "keeps (ledger f) (bluez_submit (ReadJob s))" for s
    by (auto intro!: keepsI simp: bluez_submit_def ledger_def answers_def owed_def)
  then show ?thesis unfolding bluez_refresh_def by (auto intro!: keeps_intros ledger_upd)
qed


definition total_for :: "nat \<Rightarrow> bluez \<Rightarrow> nat" where
  "total_for c b = answers c b + owed c b"

definition answered :: "nat \<Rightarrow> (bluez, unit) act \<Rightarrow> bluez \<Rightarrow> bool" where
  "answered call m b \<longleftrightarrow> (\<exists>b'. m b = (b', Ret ()) \<and> (\<forall>c. total_for c b' = total_for c b + (if c = call then 1 else 0)))"

lemma ledger_total: "keeps (ledger (\<lambda>c. (answers c b, owed c b))) m \<Longrightarrow> total_for c (fst (m b)) = total_for c b"
  using keepsD [of "ledger (\<lambda>c. (answers c b, owed c b))" m b] by (simp add: ledger_def total_for_def)

lemma answered_emit [simp]: "answered call (bus_emit (ReturnValue call)) b" "answered call (bus_emit (DBusError call n)) b"
  by (auto simp: answered_def bus_emit_def total_for_def answers_def owed_def)

lemma answered_after:
  assumes "\<And>f. keeps (ledger f) m" "snd (m b) = Ret ()" "answered call k (fst (m b))"
  shows "answered call (thenA m k) b"
  using assms(2,3) ledger_total [OF assms(1)] by (auto simp: answered_def)

lemma answered_before:
  assumes "answered call m b" "\<And>f. keeps (ledger f) k" "snd (k (fst (m b))) = Ret ()"
  shows "answered call (thenA m k) b"
proof -
  obtain b' where m: "m b = (b', Ret ())" "\<forall>c. total_for c b' = total_for c b + (if c = call then 1 else 0)"
    using assms(1) by (auto simp: answered_def)
  then have "thenA m k b = k b'" "snd (k b') = Ret ()" using assms(3) by (simp_all add: thenA_def bindA_def)
  then show ?thesis using m ledger_total [OF assms(2), of _ b'] by (cases "k b'") (simp add: answered_def)
qed

lemma discovery_changed_Ret: "snd (bluez_discovery_changed b) = Ret ()"
proof -
  have "snd (publish_discovering c) = Ret ()" for c
    by (auto simp: publish_discovering_def bus_emit_def split: option.splits)
  then show ?thesis by (simp add: bluez_discovery_changed_def)
qed

lemma update_unavailable_Ret: "objects_ok b \<Longrightarrow> snd (bluez_update unavailable_state b) = Ret ()"
  by (erule update_cases [where state = unavailable_state])
     (auto simp: current_tree_def unavailable_state_def adapter_props_def variants_def)

lemma refresh_Ret: "bluez_inv b \<Longrightarrow> snd (bluez_refresh scan b) = Ret ()"
  using update_unavailable_Ret [of b] by (simp add: bluez_refresh_def bluez_inv_def bluez_submit_def)

lemma ledger_discovery_set [keeps_intros]: "keeps (ledger f) (discovery_add s)" "keeps (ledger f) (discovery_discard s)"
  unfolding discovery_add_def discovery_discard_def by (auto intro!: ledger_upd)

lemma discovery_set_Ret [simp]: "snd (discovery_add s b) = Ret ()" "snd (discovery_discard s b) = Ret ()"
  by (simp_all add: discovery_add_def discovery_discard_def)

text \<open>The arguments the interfaces' signatures allow.\<close>

definition call_ok :: "string \<Rightarrow> string \<Rightarrow> json list \<Rightarrow> bool" where
  "call_ok iface method values \<longleftrightarrow>
     (iface = AGENTS \<longrightarrow> length values = (if method = ''RegisterAgent'' then 2 else 1)) \<and>
     (method = ''SetDiscoveryFilter'' \<longrightarrow> length values = 1 \<and> is_dict (hd values))"

lemma agent_answered:
  assumes "length values = (if method = ''RegisterAgent'' then 2 else 1)"
  shows "answered call (agent_method sender method values call) b"
proof -
  obtain p rest where v: "values = p # rest" using assms by (cases "values") (auto split: if_splits)
  have change: "\<And>f. keeps (ledger f) (change_agent sender method q)" "snd (change_agent sender method q b) = Ret ()" for q
    by (auto simp: change_agent_def intro!: keeps_intros ledger_upd)
  show ?thesis
  proof (cases "method = ''RegisterAgent''")
    case True
    then obtain cap where "rest = [cap]" using assms v by (cases rest) auto
    moreover have "keeps (ledger f) (updA (\<lambda>b. b\<lparr>bz_agents := dset sender q (bz_agents b)\<rparr>))" for f q
      by (rule ledger_upd) simp
    ultimately show ?thesis
      using True v answered_after [of "updA (\<lambda>b. b\<lparr>bz_agents := dset sender (as_str p) (bz_agents b)\<rparr>)" b call "bus_emit (ReturnValue call)"]
        answered_emit
      by (auto simp: agent_method_def register_agent_def answered_def)
  next
    case False
    then show ?thesis
      using v answered_after [OF change(1) change(2), of call "bus_emit (ReturnValue call)" "as_str p"] answered_emit
      by (auto simp: agent_method_def answered_def)
  qed
qed

lemma device_answered:
  assumes b: "bluez_inv b" and reg: "(path, DEVICE_IFACE) \<in> registered (bz_objects b)"
  shows "answered call (device_method sender path DEVICE_IFACE action call) b"
proof (cases "bz_pending b")
  case True
  then show ?thesis using answered_emit(2) [of call _ b] by (auto simp: device_method_def answered_def)
next
  case False
  have tree: "tree_ok (bz_objects b)" using b by (simp add: bluez_inv_def objects_ok_def)
  obtain ifs where ifs: "map_of (bz_objects b) path = Some ifs" "DEVICE_IFACE \<in> fst ` set ifs"
    using reg by (auto simp: registered_def DEVICE_IFACE_def MANAGER_def split: option.splits)
  then have "object_ok path ifs" using tree by (auto simp: tree_ok_def)
  then obtain props s where "ifs = [(DEVICE_IFACE, props)]" "map_of props ''Address'' = Some (VStr s)"
    using ifs(2) by (auto simp: object_ok_def iface_of_def AGENTS_def DEVICE_IFACE_def split: if_splits)
  then have "object_address path DEVICE_IFACE b = Ret s" using ifs(1) by (simp add: object_address_def)
  then show ?thesis
    using False by (auto simp: device_method_def answered_def bluez_submit_def act_defs total_for_def answers_def owed_def)
qed


lemma start_discovery_answered:
  assumes "bluez_inv b"
  shows "answered call (thenA (discovery_add sender) (thenA bluez_discovery_changed
           (thenA (bus_emit (ReturnValue call)) (bluez_refresh True)))) b"
proof -
  let ?b = "fst (bluez_discovery_changed (fst (discovery_add sender b)))"
  have "bluez_inv ?b" using assms by (intro keepsD [OF bluez_discovery_inv] keepsD [OF bluez_discovery_set_inv(1)])
  then have "bluez_inv (fst (bus_emit (ReturnValue call) ?b))" by (rule keepsD [OF bluez_emit(1)])
  then have "answered call (thenA (bus_emit (ReturnValue call)) (bluez_refresh True)) ?b"
    by (intro answered_before ledger_refresh refresh_Ret) simp
  then show ?thesis
    by (intro answered_after [OF ledger_discovery_set(1)] answered_after [OF ledger_discovery] discovery_changed_Ret) simp_all
qed

lemma answered_if: "(P \<Longrightarrow> answered call m b) \<Longrightarrow> (\<not> P \<Longrightarrow> answered call k b) \<Longrightarrow> answered call (if P then m else k) b"
  by simp

lemma method_answered:
  assumes "bluez_inv b" "(path, iface) \<in> registered (bz_objects b)" "call_ok iface method values"
  shows "answered call (bluez_method (Ret ok) sender path iface method values call) b"
proof -
  have stop: "answered call (thenA (discovery_discard sender) (thenA bluez_discovery_changed (bus_emit (ReturnValue call)))) b"
    by (intro answered_after ledger_discovery_set ledger_discovery discovery_changed_Ret) simp_all
  have filters: "answered call (filter_method values call) b" if m: "method = ''SetDiscoveryFilter''"
  proof -
    obtain d where "values = [JDict d]"
      using assms(3) m by (cases "values"; cases "hd values") (auto simp: call_ok_def)
    then show ?thesis by (auto simp: filter_method_def answered_def bus_emit_def total_for_def answers_def owed_def)
  qed
  have device: "answered call (case (if iface = DEVICE_IFACE then map_of ACTIONS method else None) of
               Some action \<Rightarrow> device_method sender path iface action call
             | None \<Rightarrow> bus_emit (DBusError call ''org.bluez.Error.NotSupported'')) b"
    using device_answered [OF assms(1)] assms(2) by (auto split: option.splits if_splits)
  have "answered call m b \<Longrightarrow> answered call (bindA (liftA (Ret ok)) (\<lambda>_. m)) b" for m by (simp add: answered_def)
  then show ?thesis
    using assms(1,3) stop filters device
    by (auto simp: bluez_method_def answered_def [of _ "bindA (liftA (Ret _)) _"] simp flip: answered_def
        intro!: answered_if agent_answered start_discovery_answered simp: call_ok_def)
qed


text \<open>A method call on a registered object, with arguments its interface allows, is served without an exception and is
  accounted for exactly once: either it is answered at once or a job is outstanding that will answer it, and no other
  call gets an answer. A caller who is not authorized gets an error and changes nothing.\<close>

theorem bluez_method_answers:
  assumes "reach bluez_init bluez_step b" "(path, iface) \<in> registered (bz_objects b)" "call_ok iface method values"
  shows "\<exists>b'. bluez_method (Ret ok) sender path iface method values call b = (b', Ret ()) \<and>
    (\<forall>c. answers c b' + owed c b' = answers c b + owed c b + (if c = call then 1 else 0)) \<and>
    (\<not> ok \<longrightarrow> b' = b\<lparr>bz_log := bz_log b @ [DBusError call ''org.bluez.Error.NotAuthorized'']\<rparr>)"
proof -
  obtain b' where "bluez_method (Ret ok) sender path iface method values call b = (b', Ret ())"
      "\<forall>c. total_for c b' = total_for c b + (if c = call then 1 else 0)"
    using method_answered [OF bluez.reach_inv [OF assms(1)] assms(2,3)] unfolding answered_def by blast
  then show ?thesis by (auto simp: total_for_def bluez_method_def bus_emit_def)
qed

theorem bluez_method_answers_witness:
  "\<exists>b'. bluez_method (Ret True) '':1.7'' ''/org/bluez'' AGENTS ''RegisterAgent'' [JStr ''/agent'', JStr ''KeyboardDisplay''] 5 demo_bluez = (b', Ret ()) \<and>
     (\<forall>c. answers c b' + owed c b' = answers c demo_bluez + owed c demo_bluez + (if c = 5 then 1 else 0))"
proof -
  have "map_of (bz_objects demo_bluez) ''/org/bluez'' = Some [(AGENTS, [])]" by code_simp
  then have "(''/org/bluez'', AGENTS) \<in> registered (bz_objects demo_bluez)" by (simp add: registered_def)
  moreover have "call_ok AGENTS ''RegisterAgent'' [JStr ''/agent'', JStr ''KeyboardDisplay'']" by (simp add: call_ok_def)
  ultimately show ?thesis using bluez_method_answers [OF demo_reach] by blast
qed

lemma finish_rest:
  "\<exists>b'. thenA (bindA (getA bz_refresh_again) (\<lambda>again.
            if again then thenA (updA (\<lambda>b. b\<lparr>bz_refresh_again := False\<rparr>)) bluez_notify else retA ()))
          bluez_schedule_discovery b = (b', Ret ()) \<and> bz_log b' = bz_log b \<and> bz_jobs b' = bz_jobs b"
  by (auto simp: bluez_notify_def bluez_schedule_discovery_def later_def glib_add_def thenA_def bindA_def getA_def)

lemma finished_operation:
  assumes "\<not> bz_closed b" "ends result"
  shows "\<exists>b'. bluez_finished (OperationJob call path address action agent) result b = (b', Ret ()) \<and>
    bz_jobs b' = remove1 (OperationJob call path address action agent) (bz_jobs b) \<and>
    bz_log b' = bz_log b @ [case result of Ret _ \<Rightarrow> ReturnValue call | _ \<Rightarrow> DBusError call ''org.bluez.Error.Failed'']"
proof -
  let ?j = "OperationJob call path address action agent"
  let ?b = "b\<lparr>bz_pending := False, bz_jobs := remove1 ?j (bz_jobs b)\<rparr>"
  let ?eff = "case result of Ret _ \<Rightarrow> ReturnValue call | _ \<Rightarrow> DBusError call ''org.bluez.Error.Failed''"
  obtain c where c: "bluez_outcome ?j result ?b = (c, Ret ())" "bz_jobs c = bz_jobs ?b" "bz_log c = bz_log b @ [?eff]"
    using assms(2) by (cases result) (auto simp: bluez_outcome_def catchA_def bus_emit_def)
  obtain d where "thenA (bindA (getA bz_refresh_again) (\<lambda>again.
            if again then thenA (updA (\<lambda>b. b\<lparr>bz_refresh_again := False\<rparr>)) bluez_notify else retA ()))
          bluez_schedule_discovery c = (d, Ret ())" "bz_log d = bz_log c" "bz_jobs d = bz_jobs c"
    using finish_rest by blast
  then show ?thesis using c assms(1) by (simp add: bluez_finished_def)
qed

text \<open>When the job of a method call ends, with a result or an exception, its caller gets exactly one answer, a success only
  if the operation succeeded, and the next operation may be started.\<close>

theorem bluez_finished_answers:
  assumes "reach bluez_init bluez_step b" "OperationJob call path address action agent \<in> set (bz_jobs b)" "\<not> bz_closed b" "ends result"
  shows "\<exists>b'. bluez_finished (OperationJob call path address action agent) result b = (b', Ret ()) \<and>
    (\<forall>c. answers c b' = answers c b + (if c = call then 1 else 0)) \<and>
    (ReturnValue call \<in> set (drop (length (bz_log b)) (bz_log b')) \<longleftrightarrow> (\<exists>v. result = Ret v)) \<and>
    \<not> list_ex is_operation (bz_jobs b')"
proof -
  let ?j = "OperationJob call path address action agent"
  obtain b' where b': "bluez_finished ?j result b = (b', Ret ())" "bz_jobs b' = remove1 ?j (bz_jobs b)"
      "bz_log b' = bz_log b @ [case result of Ret _ \<Rightarrow> ReturnValue call | _ \<Rightarrow> DBusError call ''org.bluez.Error.Failed'']"
    using finished_operation [OF assms(3,4)] by blast
  have "jobs_ok b" using bluez.reach_inv [OF assms(1)] by (simp add: bluez_inv_def)
  then have "length (filter is_operation (bz_jobs b')) = 0"
    using remove1_operation [OF assms(2), of is_operation] b'(2) by (simp add: jobs_ok_def split: if_splits)
  then have "\<not> list_ex is_operation (bz_jobs b')" by (simp add: filter_empty_conv list_ex_iff)
  then show ?thesis using b'(1,3) assms(4) by (cases result) (simp_all add: answers_def)
qed

definition demo_job :: bluez_job where
  "demo_job = OperationJob 9 ''/org/bluez/hci0/dev_00_11_22_33_44_5F'' ''00:11:22:33:44:5F'' ''bluetooth-pair'' None"

definition demo_pairing :: bluez where
  "demo_pairing = fst (bluez_handle (MethodCall (Ret True) '':1.7'' ''/org/bluez/hci0/dev_00_11_22_33_44_5F'' DEVICE_IFACE ''Pair'' [] 9) demo_bluez)"

theorem bluez_finished_answers_witness:
  "bz_jobs demo_pairing = [demo_job] \<and>
   (\<exists>b'. bluez_finished demo_job (Exc (RuntimeError ''Host device operation failed'')) demo_pairing = (b', Ret ()) \<and>
     answers 9 b' = answers 9 demo_pairing + 1)"
proof -
  have j: "bz_jobs demo_pairing = [demo_job]" "\<not> bz_closed demo_pairing" by code_simp+
  have "reach bluez_init bluez_step demo_pairing"
    unfolding demo_pairing_def by (rule reach_step [OF demo_reach bluez_stepI]) simp
  from bluez_finished_answers [OF this _ j(2), of 9 _ _ _ _ "Exc (RuntimeError ''Host device operation failed'')"]
  show ?thesis using j(1) unfolding demo_job_def by auto
qed

section \<open>Pairing needs an agent\<close>

lemma operation_yes:
  assumes "device_operation address action reply now rounds [] = (lg, r)" "(j, True) \<in> set (confirms lg)"
  shows "said_yes rounds"
proof (cases "started_as reply")
  case (Ret i)
  let ?deadline = "now + (if action = ''bluetooth-pair'' then 75 else 45)"
  obtain new where "fst (operation_loop i ?deadline JNull rounds [StartOperation action address]) = [StartOperation action address] @ new"
      "rounds_log i rounds new"
    using logsD [OF loop_logs] by blast
  then show ?thesis
    using assms Ret confirms_simps(2) [of "[StartOperation action address]" new]
    by (auto simp: device_operation_cases dialogue_def split: if_splits)
qed (use assms in \<open>auto simp: device_operation_cases split: if_splits\<close>)



definition agent_rounds :: "(operation_round \<times> unit outcome \<times> unit outcome) list" where
  "agent_rounds = (let state = (\<lambda>op. Ret (JDict [(''operation'', JDict ((''id'', JStr ''7'') # op))])) in
     [(\<lparr>ro_clock = 1, ro_state = state [(''confirmation'', JInt 123456)], ro_confirm = None, ro_confirmed = Ret (), ro_display = None\<rparr>, Ret (), Ret ())])"


end
