(* ===== verification/Json_Text.thy ===== *)
theory Json_Text
  imports Pyvalue
begin

text \<open>
  The text layer of the standard library that the PipeWire change stream relies on: the incremental UTF-8 decoder
  (\<^verbatim>\<open>codecs.getincrementaldecoder('utf-8')\<close>), \<^verbatim>\<open>str.strip\<close>, and \<^verbatim>\<open>json.JSONDecoder().raw_decode\<close>.

  A decoded \<^verbatim>\<open>str\<close> is the list of its code points. The JSON decoder is a recursive descent with fuel; \<open>raw_decode\<close>
  gives it enough (\<open>raw_decode_fuel\<close>). The interpreter's recursion limit is not modelled, floats are exact.
\<close>

section \<open>Code points\<close>

type_synonym ucs = "int list"

definition ascii :: "string \<Rightarrow> ucs" where
  "ascii s = map of_char s"

text \<open>What may follow a lead byte: the number of continuation bytes and the range of the first.\<close>

definition utf8_lead :: "int \<Rightarrow> (nat \<times> int \<times> int) option" where
  "utf8_lead b =
     (if 0 \<le> b \<and> b < 0x80 then Some (0, 0x80, 0xBF)
      else if 0xC2 \<le> b \<and> b \<le> 0xDF then Some (1, 0x80, 0xBF)
      else if b = 0xE0 then Some (2, 0xA0, 0xBF)
      else if b = 0xED then Some (2, 0x80, 0x9F)
      else if 0xE1 \<le> b \<and> b \<le> 0xEF then Some (2, 0x80, 0xBF)
      else if b = 0xF0 then Some (3, 0x90, 0xBF)
      else if 0xF1 \<le> b \<and> b \<le> 0xF3 then Some (3, 0x80, 0xBF)
      else if b = 0xF4 then Some (3, 0x80, 0x8F)
      else None)"

fun continues :: "int \<Rightarrow> int \<Rightarrow> int list \<Rightarrow> bool" where
  "continues lo hi [] = True"
| "continues lo hi (c # cs) = (lo \<le> c \<and> c \<le> hi \<and> list_all (\<lambda>c. 0x80 \<le> c \<and> c \<le> 0xBF) cs)"

definition utf8_value :: "nat \<Rightarrow> int \<Rightarrow> int list \<Rightarrow> int" where
  "utf8_value n b cs =
     foldl (\<lambda>v c. v * 64 + (c - 0x80)) (if n = 0 then b else if n = 1 then b - 0xC0 else if n = 2 then b - 0xE0 else b - 0xF0) cs"

text \<open>The code points of the complete sequences, and the bytes of an incomplete last one.\<close>

function utf8_decode :: "int list \<Rightarrow> (ucs \<times> int list) option" where
  "utf8_decode [] = Some ([], [])"
| "utf8_decode (b # bs) =
     (case utf8_lead b of
        None \<Rightarrow> None
      | Some (n, lo, hi) \<Rightarrow>
          if \<not> continues lo hi (take n bs) then None
          else if length bs < n then Some ([], b # bs)
          else (case utf8_decode (drop n bs) of
                  None \<Rightarrow> None
                | Some (us, rest) \<Rightarrow> Some (utf8_value n b (take n bs) # us, rest)))"
  by pat_completeness auto
termination by (relation "measure length") auto

definition utf8_encode :: "int \<Rightarrow> string" where
  "utf8_encode u = map char_of
     (if u < 0x80 then [u]
      else if u < 0x800 then [0xC0 + u div 64, 0x80 + u mod 64]
      else if u < 0x10000 then [0xE0 + u div 4096, 0x80 + u div 64 mod 64, 0x80 + u mod 64]
      else [0xF0 + u div 262144, 0x80 + u div 4096 mod 64, 0x80 + u div 64 mod 64, 0x80 + u mod 64])"

definition text_of :: "ucs \<Rightarrow> string" where
  "text_of us = concat (map utf8_encode us)"

text \<open>\<^verbatim>\<open>str.isspace\<close> for one character.\<close>

definition uspace :: "int \<Rightarrow> bool" where
  "uspace u \<longleftrightarrow> (9 \<le> u \<and> u \<le> 13) \<or> (28 \<le> u \<and> u \<le> 32) \<or>
     u \<in> {0x85, 0xA0, 0x1680, 0x2028, 0x2029, 0x202F, 0x205F, 0x3000} \<or> (0x2000 \<le> u \<and> u \<le> 0x200A)"

definition lstrip :: "ucs \<Rightarrow> ucs" where
  "lstrip = dropWhile uspace"

section \<open>JSON values\<close>

definition jws :: "int \<Rightarrow> bool" where
  "jws c \<longleftrightarrow> c \<in> {32, 9, 10, 13}"

definition skip_ws :: "ucs \<Rightarrow> ucs" where
  "skip_ws = dropWhile jws"

definition udigit :: "int \<Rightarrow> bool" where
  "udigit c \<longleftrightarrow> 48 \<le> c \<and> c \<le> 57"

definition uhex :: "int \<Rightarrow> int option" where
  "uhex c =
     (if 48 \<le> c \<and> c \<le> 57 then Some (c - 48)
      else if 97 \<le> c \<and> c \<le> 102 then Some (c - 87)
      else if 65 \<le> c \<and> c \<le> 70 then Some (c - 55)
      else None)"

definition uhex4 :: "int \<Rightarrow> int \<Rightarrow> int \<Rightarrow> int \<Rightarrow> int option" where
  "uhex4 a b c d =
     (case (uhex a, uhex b, uhex c, uhex d) of
        (Some w, Some x, Some y, Some z) \<Rightarrow> Some (((w * 16 + x) * 16 + y) * 16 + z)
      | _ \<Rightarrow> None)"

text \<open>\<^verbatim>\<open>{'"': '"', '\\': '\\', '/': '/', 'b': '\b', 'f': '\f', 'n': '\n', 'r': '\r', 't': '\t'}\<close>.\<close>

definition ESCAPES :: "(int \<times> int) list" where
  "ESCAPES = [(34, 34), (92, 92), (47, 47), (98, 8), (102, 12), (110, 10), (114, 13), (116, 9)]"

text \<open>The low surrogate that completes a pair, if the text goes on with one.\<close>

definition low_surrogate :: "ucs \<Rightarrow> (int \<times> ucs) option" where
  "low_surrogate s =
     (case s of
        bs # u # a # b # c # d # rest \<Rightarrow>
          if bs = 92 \<and> u = 117 then
            (case uhex4 a b c d of
               Some lo \<Rightarrow> if 0xDC00 \<le> lo \<and> lo \<le> 0xDFFF then Some (lo, rest) else None
             | None \<Rightarrow> None)
          else None
      | _ \<Rightarrow> None)"

definition unicode_escape :: "ucs \<Rightarrow> (int \<times> ucs) option" where
  "unicode_escape s =
     (case s of
        a # b # c # d # rest \<Rightarrow>
          (case uhex4 a b c d of
             None \<Rightarrow> None
           | Some hi \<Rightarrow>
               (case (if 0xD800 \<le> hi \<and> hi \<le> 0xDBFF then low_surrogate rest else None) of
                  Some (lo, rest') \<Rightarrow> Some (0x10000 + (hi - 0xD800) * 1024 + (lo - 0xDC00), rest')
                | None \<Rightarrow> Some (hi, rest)))
      | _ \<Rightarrow> None)"

text \<open>The rest of a string after its opening quote.\<close>

fun parse_str_fuel :: "nat \<Rightarrow> ucs \<Rightarrow> (ucs \<times> ucs) option" where
  "parse_str_fuel 0 s = None"
| "parse_str_fuel (Suc n) s =
     (case s of
        [] \<Rightarrow> None
      | c # cs \<Rightarrow>
          if c = 34 then Some ([], cs)
          else if c = 92 then
            (case cs of
               [] \<Rightarrow> None
             | e # es \<Rightarrow>
                 (case (if e = 117 then unicode_escape es else map_option (\<lambda>u. (u, es)) (map_of ESCAPES e)) of
                    None \<Rightarrow> None
                  | Some (u, rest) \<Rightarrow> map_option (\<lambda>(us, r). (u # us, r)) (parse_str_fuel n rest)))
          else if c < 32 then None
          else map_option (\<lambda>(us, r). (c # us, r)) (parse_str_fuel n cs))"

definition parse_str :: "ucs \<Rightarrow> (ucs \<times> ucs) option" where
  "parse_str s = parse_str_fuel (Suc (length s)) s"

definition digits_value :: "ucs \<Rightarrow> int" where
  "digits_value ds = foldl (\<lambda>v d. v * 10 + (d - 48)) 0 ds"

text \<open>The parts of \<^verbatim>\<open>(-?(?:0|[1-9]\d*))(\.\d+)?([eE][-+]?\d+)?\<close>.\<close>

definition int_part :: "ucs \<Rightarrow> (ucs \<times> ucs) option" where
  "int_part s =
     (case s of
        [] \<Rightarrow> None
      | c # cs \<Rightarrow> if c = 48 then Some ([c], cs)
                  else if udigit c then Some (takeWhile udigit s, dropWhile udigit s) else None)"

definition frac_part :: "ucs \<Rightarrow> ucs \<times> ucs" where
  "frac_part s =
     (case s of
        c # d # cs \<Rightarrow> if c = 46 \<and> udigit d then (takeWhile udigit (d # cs), dropWhile udigit (d # cs)) else ([], s)
      | _ \<Rightarrow> ([], s))"

definition exp_part :: "ucs \<Rightarrow> (int option) \<times> ucs" where
  "exp_part s =
     (case s of
        c # d # cs \<Rightarrow>
          if c = 101 \<or> c = 69 then
            (if udigit d then (Some (digits_value (takeWhile udigit (d # cs))), dropWhile udigit (d # cs))
             else if (d = 43 \<or> d = 45) \<and> cs \<noteq> [] \<and> udigit (hd cs)
             then (Some (if d = 45 then - digits_value (takeWhile udigit cs) else digits_value (takeWhile udigit cs)),
                   dropWhile udigit cs)
             else (None, s))
          else (None, s)
      | _ \<Rightarrow> (None, s))"

definition ten_power :: "int \<Rightarrow> real" where
  "ten_power e = (if 0 \<le> e then 10 ^ nat e else 1 / 10 ^ nat (- e))"

definition number_value :: "bool \<Rightarrow> ucs \<Rightarrow> ucs \<Rightarrow> int option \<Rightarrow> json" where
  "number_value neg ds fs e =
     (if fs = [] \<and> e = None then JInt (if neg then - digits_value ds else digits_value ds)
      else JFloat (Fin ((if neg then -1 else 1) * of_int (digits_value (ds @ fs)) *
             ten_power ((case e of None \<Rightarrow> 0 | Some x \<Rightarrow> x) - int (length fs)))))"

definition parse_number :: "ucs \<Rightarrow> (json \<times> ucs) option" where
  "parse_number s =
     (let neg = (s \<noteq> [] \<and> hd s = 45) in
      case int_part (if neg then tl s else s) of
        None \<Rightarrow> None
      | Some (ds, r) \<Rightarrow>
          (let (fs, r') = frac_part r; (e, r'') = exp_part r' in Some (number_value neg ds fs e, r'')))"

definition LITERALS :: "(string \<times> json) list" where
  "LITERALS = [(''null'', JNull), (''true'', JBool True), (''false'', JBool False), (''NaN'', JFloat NaN),
     (''Infinity'', JFloat PosInf), (''-Infinity'', JFloat NegInf)]"

fun parse_literal :: "(string \<times> json) list \<Rightarrow> ucs \<Rightarrow> (json \<times> ucs) option" where
  "parse_literal [] s = None"
| "parse_literal ((w, v) # ws) s =
     (if take (length w) s = ascii w then Some (v, drop (length w) s) else parse_literal ws s)"

definition parse_atom :: "ucs \<Rightarrow> (json \<times> ucs) option" where
  "parse_atom s = (case parse_literal LITERALS s of Some x \<Rightarrow> Some x | None \<Rightarrow> parse_number s)"

fun parse_value :: "nat \<Rightarrow> ucs \<Rightarrow> (json \<times> ucs) option"
  and parse_elems :: "nat \<Rightarrow> ucs \<Rightarrow> (json list \<times> ucs) option"
  and parse_members :: "nat \<Rightarrow> ucs \<Rightarrow> ((string \<times> json) list \<times> ucs) option" where
  "parse_value 0 s = None"
| "parse_value (Suc n) s =
     (case s of
        [] \<Rightarrow> None
      | c # cs \<Rightarrow>
          if c = 34 then map_option (\<lambda>(us, r). (JStr (text_of us), r)) (parse_str cs)
          else if c = 91 then
            (case skip_ws cs of
               [] \<Rightarrow> None
             | d # ds \<Rightarrow> if d = 93 then Some (JList [], ds)
                         else map_option (\<lambda>(vs, r). (JList vs, r)) (parse_elems n (d # ds)))
          else if c = 123 then
            (case skip_ws cs of
               [] \<Rightarrow> None
             | d # ds \<Rightarrow> if d = 125 then Some (JDict [], ds)
                         else map_option (\<lambda>(ms, r). (JDict (fold (\<lambda>(k, v). dset k v) ms []), r)) (parse_members n (d # ds)))
          else parse_atom s)"
| "parse_elems 0 s = None"
| "parse_elems (Suc n) s =
     (case parse_value n s of
        None \<Rightarrow> None
      | Some (v, r) \<Rightarrow>
          (case skip_ws r of
             [] \<Rightarrow> None
           | c # cs \<Rightarrow> if c = 93 then Some ([v], cs)
                       else if c = 44 then map_option (\<lambda>(vs, r'). (v # vs, r')) (parse_elems n (skip_ws cs))
                       else None))"
| "parse_members 0 s = None"
| "parse_members (Suc n) s =
     (case s of
        [] \<Rightarrow> None
      | q # qs \<Rightarrow>
          if q \<noteq> 34 then None else
          (case parse_str qs of
             None \<Rightarrow> None
           | Some (k, r) \<Rightarrow>
               (case skip_ws r of
                  [] \<Rightarrow> None
                | d # ds \<Rightarrow>
                    if d \<noteq> 58 then None else
                    (case parse_value n (skip_ws ds) of
                       None \<Rightarrow> None
                     | Some (v, r') \<Rightarrow>
                         (case skip_ws r' of
                            [] \<Rightarrow> None
                          | c # cs \<Rightarrow>
                              if c = 125 then Some ([(text_of k, v)], cs)
                              else if c = 44 then map_option (\<lambda>(ms, r''). ((text_of k, v) # ms, r'')) (parse_members n (skip_ws cs))
                              else None)))))"

text \<open>\<^verbatim>\<open>raw_decode\<close>: the value and the text behind it, or None for a \<^verbatim>\<open>JSONDecodeError\<close>.\<close>

definition raw_decode :: "ucs \<Rightarrow> (json \<times> ucs) option" where
  "raw_decode s = parse_value (2 * length s + 2) s"

section \<open>Decoding in pieces\<close>

lemma continues_prefix: "continues lo hi (xs @ ys) \<Longrightarrow> continues lo hi xs"
  by (cases xs) auto

lemma utf8_decode_append:
  "utf8_decode (a @ b) =
     (case utf8_decode a of None \<Rightarrow> None | Some (us, r) \<Rightarrow> map_option (\<lambda>(vs, r'). (us @ vs, r')) (utf8_decode (r @ b)))"
proof (induction a rule: utf8_decode.induct)
  case 1
  then show ?case by (cases "utf8_decode b") auto
next
  case (2 c bs)
  show ?case
  proof (cases "utf8_lead c")
    case (Some x)
    obtain n lo hi where x: "x = (n, lo, hi)" by (rule prod_cases3)
    show ?thesis
    proof (cases "continues lo hi (take n bs)")
      case bad: False
      then have "\<not> continues lo hi (take n (bs @ b))" using continues_prefix by fastforce
      then show ?thesis using bad Some x by simp
    next
      case good: True
      show ?thesis
      proof (cases "length bs < n")
        case True
        then show ?thesis using good Some x by (cases "utf8_decode ((c # bs) @ b)") (auto split: option.splits)
      next
        case False
        have IH: "utf8_decode (drop n bs @ b) = (case utf8_decode (drop n bs) of None \<Rightarrow> None
            | Some (us, r) \<Rightarrow> map_option (\<lambda>(vs, r'). (us @ vs, r')) (utf8_decode (r @ b)))"
          using 2 [OF Some x [symmetric] refl] good False by simp
        show ?thesis
        proof (cases "utf8_decode (drop n bs)")
          case None
          then show ?thesis using good Some x False IH by simp
        next
          case (Some y)
          then show ?thesis using good \<open>utf8_lead c = Some x\<close> x False IH
            by (cases y; cases "utf8_decode (snd y @ b)") auto
        qed
      qed
    qed
  qed simp
qed

section \<open>One step of the decoder\<close>

declare parse_value.simps(2) [simp del] parse_elems.simps(2) [simp del] parse_members.simps(2) [simp del] parse_str_fuel.simps(2) [simp del]

lemma str_plain:
  "c \<noteq> 92 \<Longrightarrow> parse_str_fuel (Suc n) (c # cs) = Some (us, t) \<longleftrightarrow> c = 34 \<and> us = [] \<and> t = cs \<or>
     c \<noteq> 34 \<and> 32 \<le> c \<and> (\<exists>vs. parse_str_fuel n cs = Some (vs, t) \<and> us = c # vs)"
  by (auto simp: parse_str_fuel.simps(2))

lemma str_escape:
  "parse_str_fuel (Suc n) (92 # cs) = Some (us, t) \<longleftrightarrow> (\<exists>e es u rest vs. cs = e # es \<and>
        (if e = 117 then unicode_escape es = Some (u, rest) else map_of ESCAPES e = Some u \<and> rest = es) \<and>
        parse_str_fuel n rest = Some (vs, t) \<and> us = u # vs)"
  by (auto simp: parse_str_fuel.simps(2) split: list.splits option.splits if_splits)

lemma value_step:
  "parse_value (Suc n) s = Some (v, t) \<longleftrightarrow> (\<exists>c cs. s = c # cs \<and>
     (c = 34 \<and> (\<exists>us. parse_str cs = Some (us, t) \<and> v = JStr (text_of us)) \<or>
      c = 91 \<and> (\<exists>d ds. skip_ws cs = d # ds \<and>
        (d = 93 \<and> v = JList [] \<and> t = ds \<or> d \<noteq> 93 \<and> (\<exists>vs. parse_elems n (d # ds) = Some (vs, t) \<and> v = JList vs))) \<or>
      c = 123 \<and> (\<exists>d ds. skip_ws cs = d # ds \<and>
        (d = 125 \<and> v = JDict [] \<and> t = ds \<or>
         d \<noteq> 125 \<and> (\<exists>ms. parse_members n (d # ds) = Some (ms, t) \<and> v = JDict (fold (\<lambda>(k, v). dset k v) ms [])))) \<or>
      c \<notin> {34, 91, 123} \<and> parse_atom s = Some (v, t)))"
  by (auto simp: parse_value.simps(2) split: list.splits)

lemma elems_step:
  "parse_elems (Suc n) s = Some (vs, t) \<longleftrightarrow> (\<exists>v r c cs. parse_value n s = Some (v, r) \<and> skip_ws r = c # cs \<and>
     (c = 93 \<and> vs = [v] \<and> t = cs \<or> c = 44 \<and> (\<exists>ws. parse_elems n (skip_ws cs) = Some (ws, t) \<and> vs = v # ws)))"
  by (auto simp: parse_elems.simps(2) split: list.splits option.splits if_splits)

lemma members_step:
  "parse_members (Suc n) s = Some (ms, t) \<longleftrightarrow> (\<exists>qs k r ds v r' c cs. s = 34 # qs \<and> parse_str qs = Some (k, r) \<and>
     skip_ws r = 58 # ds \<and> parse_value n (skip_ws ds) = Some (v, r') \<and> skip_ws r' = c # cs \<and>
     (c = 125 \<and> ms = [(text_of k, v)] \<and> t = cs \<or>
      c = 44 \<and> (\<exists>ns. parse_members n (skip_ws cs) = Some (ns, t) \<and> ms = (text_of k, v) # ns)))"
  by (auto simp: parse_members.simps(2) split: list.splits option.splits if_splits)

section \<open>The decoder and longer texts\<close>

text \<open>More fuel does not change a result.\<close>

lemma parse_str_mono: "parse_str_fuel n s = Some (us, t) \<Longrightarrow> parse_str_fuel (Suc n) s = Some (us, t)"
proof (induction n arbitrary: s us)
  case (Suc n)
  obtain c cs where s: "s = c # cs" using Suc.prems by (cases s) (auto simp: parse_str_fuel.simps(2))
  show ?case
  proof (cases "c = 92")
    case True
    then obtain e es u rest vs where e: "cs = e # es" "if e = 117 then unicode_escape es = Some (u, rest) else map_of ESCAPES e = Some u \<and> rest = es"
        "parse_str_fuel n rest = Some (vs, t)" "us = u # vs"
      using Suc.prems unfolding s True str_escape by blast
    then have "parse_str_fuel (Suc n) rest = Some (vs, t)" using Suc.IH by blast
    then show ?thesis unfolding s True str_escape using e by blast
  next
    case False
    show ?thesis using Suc.prems Suc.IH unfolding s str_plain [OF False, of n] str_plain [OF False, of "Suc n"] by blast
  qed
qed simp

lemma parse_str_mono_le: "parse_str_fuel n s = Some (us, t) \<Longrightarrow> n \<le> m \<Longrightarrow> parse_str_fuel m s = Some (us, t)"
  by (induction m) (auto simp: le_Suc_eq parse_str_mono)

lemma parse_mono:
  "(parse_value n s = Some (v, t) \<longrightarrow> parse_value (Suc n) s = Some (v, t)) \<and>
   (parse_elems n s = Some (vs, t) \<longrightarrow> parse_elems (Suc n) s = Some (vs, t)) \<and>
   (parse_members n s = Some (ms, t) \<longrightarrow> parse_members (Suc n) s = Some (ms, t))"
proof (induction n arbitrary: s v vs ms t)
  case (Suc n)
  have v: "\<And>s v t. parse_value n s = Some (v, t) \<Longrightarrow> parse_value (Suc n) s = Some (v, t)"
    and e: "\<And>s v t. parse_elems n s = Some (v, t) \<Longrightarrow> parse_elems (Suc n) s = Some (v, t)"
    and m: "\<And>s v t. parse_members n s = Some (v, t) \<Longrightarrow> parse_members (Suc n) s = Some (v, t)"
    using Suc.IH by blast+
  have "parse_value (Suc (Suc n)) s = Some (v, t)" if a: "parse_value (Suc n) s = Some (v, t)"
    using a e m unfolding value_step [of n] value_step [of "Suc n"] by auto
  moreover have "parse_elems (Suc (Suc n)) s = Some (vs, t)" if a: "parse_elems (Suc n) s = Some (vs, t)"
    using a v e unfolding elems_step [of n] elems_step [of "Suc n"] by auto
  moreover have "parse_members (Suc (Suc n)) s = Some (ms, t)" if a: "parse_members (Suc n) s = Some (ms, t)"
    using a v m unfolding members_step [of n] members_step [of "Suc n"] by auto
  ultimately show ?case by blast
qed simp

lemma parse_value_mono: "parse_value n s = Some (v, t) \<Longrightarrow> n \<le> m \<Longrightarrow> parse_value m s = Some (v, t)"
  by (induction m) (auto simp: le_Suc_eq parse_mono)


text \<open>Text that follows a complete string, or a value that ends at a delimiter, does not change what is read.\<close>

lemma skip_ws_append: "skip_ws s = c # cs \<Longrightarrow> skip_ws (s @ x) = c # cs @ x"
  unfolding skip_ws_def by (induction s) (auto split: if_splits)

lemma low_surrogate_append: "low_surrogate s = Some (u, r) \<Longrightarrow> low_surrogate (s @ x) = Some (u, r @ x)"
  by (auto simp: low_surrogate_def split: list.splits option.splits if_splits)

lemma unicode_escape_short: "length s < 4 \<Longrightarrow> unicode_escape s = None"
  by (auto simp: unicode_escape_def split: list.splits)

lemma low_surrogate_None:
  assumes "low_surrogate s = None" "parse_str_fuel n s = Some (us, t)"
  shows "low_surrogate (s @ x) = None"
proof (rule ccontr)
  assume "low_surrogate (s @ x) \<noteq> None"
  then obtain a b c d rest where e: "s @ x = 92 # 117 # a # b # c # d # rest" and u: "low_surrogate (s @ x) \<noteq> None"
    by (auto simp: low_surrogate_def split: list.splits if_splits)
  obtain m where n: "n = Suc m" using assms(2) by (cases n) auto
  consider "s = []" | "s = [92]" | s' where "s = 92 # 117 # s'" "s' @ x = a # b # c # d # rest"
    using e by (auto simp: append_eq_Cons_conv)
  then show False
  proof cases
    case 1
    then show ?thesis using assms(2) n by (simp add: parse_str_fuel.simps(2))
  next
    case 2
    then show ?thesis using assms(2) n by (simp add: str_escape)
  next
    case 3
    then have "unicode_escape s' \<noteq> None" using assms(2) n by (auto simp: str_escape)
    then have "4 \<le> length s'" using unicode_escape_short [of s'] by (meson not_less)
    then obtain s'' where "s' = a # b # c # d # s''" using 3(2) by (auto simp: append_eq_Cons_conv)
    then show ?thesis using u assms(1) 3(1) by (auto simp: low_surrogate_def split: option.splits if_splits)
  qed
qed

lemma unicode_escape_append:
  assumes "unicode_escape s = Some (u, r)" "parse_str_fuel n r = Some (us, t)"
  shows "unicode_escape (s @ x) = Some (u, r @ x)"
proof -
  obtain a b c d rest hi where s: "s = a # b # c # d # rest" "uhex4 a b c d = Some hi"
    using assms(1) by (auto simp: unicode_escape_def split: list.splits option.splits)
  show ?thesis
  proof (cases "(0xD800 \<le> hi \<and> hi \<le> 0xDBFF) \<and> low_surrogate rest \<noteq> None")
    case True
    then show ?thesis using assms(1) s low_surrogate_append [of rest _ _ x] by (auto simp: unicode_escape_def)
  next
    case False
    then have r: "u = hi" "r = rest" using assms(1) s by (auto simp: unicode_escape_def split: option.splits if_splits)
    then have "(0xD800 \<le> hi \<and> hi \<le> 0xDBFF) \<longrightarrow> low_surrogate (rest @ x) = None"
      using False low_surrogate_None assms(2) by blast
    then show ?thesis using s r by (auto simp: unicode_escape_def)
  qed
qed

lemma parse_str_fuel_append: "parse_str_fuel n s = Some (us, t) \<Longrightarrow> parse_str_fuel n (s @ x) = Some (us, t @ x)"
proof (induction n arbitrary: s us)
  case (Suc n)
  obtain c cs where s: "s = c # cs" using Suc.prems by (cases s) (auto simp: parse_str_fuel.simps(2))
  show ?case
  proof (cases "c = 92")
    case True
    then obtain e es u rest vs where e: "cs = e # es" "if e = 117 then unicode_escape es = Some (u, rest) else map_of ESCAPES e = Some u \<and> rest = es"
        "parse_str_fuel n rest = Some (vs, t)" "us = u # vs"
      using Suc.prems unfolding s True str_escape by blast
    then have "if e = 117 then unicode_escape (es @ x) = Some (u, rest @ x) else map_of ESCAPES e = Some u \<and> rest @ x = es @ x"
      using unicode_escape_append [of es u rest n vs t x] by (auto split: if_splits)
    then show ?thesis
      unfolding s True append_Cons str_escape e(1)
      by (intro exI [of _ e] exI [of _ "es @ x"] exI [of _ u] exI [of _ "rest @ x"] exI [of _ vs]) (use e Suc.IH in simp)
  next
    case False
    show ?thesis using Suc.prems Suc.IH unfolding s append_Cons str_plain [OF False] by blast
  qed
qed simp

lemma parse_str_append: "parse_str s = Some (us, t) \<Longrightarrow> parse_str (s @ x) = Some (us, t @ x)"
  unfolding parse_str_def by (drule parse_str_fuel_append [of _ _ _ _ x]) (erule parse_str_mono_le, simp)


definition delimited :: "ucs \<Rightarrow> bool" where
  "delimited r \<longleftrightarrow> r \<noteq> [] \<and> (jws (hd r) \<or> hd r \<in> {44, 93, 125})"

lemma span_append:
  "dropWhile P s \<noteq> [] \<Longrightarrow> takeWhile P (s @ x) = takeWhile P s \<and> dropWhile P (s @ x) = dropWhile P s @ x"
  by (induction s) auto

lemma int_part_append: "int_part s = Some (ds, r) \<Longrightarrow> r \<noteq> [] \<Longrightarrow> int_part (s @ x) = Some (ds, r @ x)"
  using span_append [of udigit s x] by (auto simp: int_part_def split: list.splits if_splits)

lemma exp_part_append:
  assumes "exp_part s = (e, r)" "delimited r"
  shows "exp_part (s @ x) = (e, r @ x)"
proof -
  obtain c cs where s: "s = c # cs" using assms by (cases s) (auto simp: exp_part_def delimited_def)
  show ?thesis
  proof (cases "c = 101 \<or> c = 69")
    case False
    then show ?thesis using assms s by (cases cs; cases x) (auto simp: exp_part_def)
  next
    case True
    then have "r \<noteq> s" using assms(2) s by (auto simp: delimited_def jws_def)
    then obtain d ds where d: "cs = d # ds" using assms(1) s by (cases cs) (auto simp: exp_part_def)
    show ?thesis
      using assms \<open>r \<noteq> s\<close> True s d span_append [of udigit "d # ds" x] span_append [of udigit ds x]
      by (auto simp: exp_part_def delimited_def hd_append split: if_splits)
  qed
qed

lemma frac_part_append:
  assumes "frac_part s = (fs, r)" "r \<noteq> []" "r \<noteq> s \<or> hd s \<noteq> 46"
  shows "frac_part (s @ x) = (fs, r @ x)"
proof -
  obtain c cs where s: "s = c # cs" using assms by (cases s) (auto simp: frac_part_def)
  show ?thesis
  proof (cases cs)
    case Nil
    then show ?thesis using assms s by (cases x) (auto simp: frac_part_def)
  next
    case (Cons d ds)
    then show ?thesis using assms s span_append [of udigit "d # ds" x] by (auto simp: frac_part_def split: if_splits)
  qed
qed

lemma parse_number_append:
  assumes "parse_number s = Some (v, r)" "delimited r"
  shows "parse_number (s @ x) = Some (v, r @ x)"
proof -
  define neg where "neg = (s \<noteq> [] \<and> hd s = 45)"
  obtain ds r1 fs r2 e where i: "int_part (if neg then tl s else s) = Some (ds, r1)" "frac_part r1 = (fs, r2)" "exp_part r2 = (e, r)"
      "v = number_value neg ds fs e"
    using assms(1) by (auto simp: parse_number_def neg_def Let_def split: option.splits prod.splits)
  have r2: "r2 \<noteq> []" using i(3) assms(2) by (auto simp: exp_part_def delimited_def)
  have r1: "r1 \<noteq> []" using i(2) r2 by (auto simp: frac_part_def)
  have "r2 \<noteq> r1 \<or> hd r1 \<noteq> 46"
  proof (rule ccontr)
    assume "\<not> (r2 \<noteq> r1 \<or> hd r1 \<noteq> 46)"
    then have "hd r2 = 46" "r = r2" using i(3) r2 by (auto simp: exp_part_def split: list.splits)
    then show False using assms(2) by (simp add: delimited_def jws_def)
  qed
  then have f: "frac_part (r1 @ x) = (fs, r2 @ x)" using frac_part_append [OF i(2) r2] by blast
  have s: "s \<noteq> []" using i(1) by (auto simp: int_part_def neg_def split: list.splits if_splits)
  then have n: "(s @ x \<noteq> [] \<and> hd (s @ x) = 45) = neg" "(if neg then tl (s @ x) else s @ x) = (if neg then tl s else s) @ x"
    by (auto simp: neg_def)
  show ?thesis
    unfolding parse_number_def n Let_def
    using int_part_append [OF i(1) r1, of x] f exp_part_append [OF i(3) assms(2), of x] i(4) by simp
qed


definition literal_at :: "int \<Rightarrow> (ucs \<times> json) option" where
  "literal_at c = map_of [(110, ([117, 108, 108], JNull)), (116, ([114, 117, 101], JBool True)), (102, ([97, 108, 115, 101], JBool False)),
     (78, ([97, 78], JFloat NaN)), (73, ([110, 102, 105, 110, 105, 116, 121], JFloat PosInf)),
     (45, ([73, 110, 102, 105, 110, 105, 116, 121], JFloat NegInf))] c"

lemma parse_literal_at:
  "parse_literal LITERALS (c # cs) = (case literal_at c of
     None \<Rightarrow> None | Some (w, v) \<Rightarrow> if take (length w) cs = w then Some (v, drop (length w) cs) else None)"
  by (simp add: LITERALS_def literal_at_def ascii_def)

lemma parse_atom_append:
  assumes "parse_atom s = Some (v, r)" "delimited r"
  shows "parse_atom (s @ x) = Some (v, r @ x)"
proof (cases s)
  case Nil
  then show ?thesis using assms(1) by (simp add: parse_atom_def LITERALS_def ascii_def parse_number_def int_part_def)
next
  case (Cons c cs)
  show ?thesis
  proof (cases "parse_literal LITERALS s")
    case (Some y)
    then obtain w where w: "literal_at c = Some (w, v)" "take (length w) cs = w" "r = drop (length w) cs"
      using assms(1) Cons by (auto simp: parse_atom_def parse_literal_at split: option.splits if_splits)
    then have "length w \<le> length cs" by (metis length_take min.cobounded1 nat_le_linear min_def)
    then show ?thesis using w Cons by (simp add: parse_atom_def parse_literal_at)
  next
    case None
    then have n: "parse_number s = Some (v, r)" using assms(1) by (simp add: parse_atom_def)
    have "parse_literal LITERALS (s @ x) = None"
    proof (cases "c = 45")
      case True
      then obtain d ds where "cs = d # ds" "udigit d"
        using n Cons by (auto simp: parse_number_def int_part_def udigit_def Let_def split: list.splits option.splits if_splits)
      then show ?thesis using True Cons by (simp add: parse_literal_at literal_at_def udigit_def)
    next
      case False
      then have "udigit c" using n Cons by (auto simp: parse_number_def int_part_def udigit_def Let_def split: list.splits option.splits if_splits)
      then show ?thesis using False Cons by (simp add: parse_literal_at literal_at_def udigit_def)
    qed
    then show ?thesis using parse_number_append [OF n assms(2), of x] by (simp add: parse_atom_def)
  qed
qed

text \<open>Strings, arrays and objects are delimited by their own last character.\<close>

fun closed_value :: "json \<Rightarrow> bool" where
  "closed_value (JStr _) = True"
| "closed_value (JList _) = True"
| "closed_value (JDict _) = True"
| "closed_value _ = False"

lemma delimited_skip: "skip_ws r = c # cs \<Longrightarrow> c \<in> {44, 93, 125} \<Longrightarrow> delimited r"
  unfolding skip_ws_def delimited_def by (cases r) (auto split: if_splits)

lemma atom_open: "parse_atom s = Some (v, t) \<Longrightarrow> \<not> closed_value v"
  by (auto simp: parse_atom_def parse_number_def number_value_def LITERALS_def Let_def split: option.splits if_splits prod.splits)

lemma parse_nothing [simp]: "parse_value n [] = None" "parse_elems n [] = None" "parse_members n [] = None"
proof -
  show v: "parse_value n [] = None" for n by (cases n) (simp_all add: parse_value.simps(2))
  show "parse_elems n [] = None" by (cases n) (simp_all add: parse_elems.simps(2) v)
  show "parse_members n [] = None" by (cases n) (simp_all add: parse_members.simps(2))
qed

lemma skip_ws_more: "skip_ws s \<noteq> [] \<Longrightarrow> skip_ws (s @ x) = skip_ws s @ x"
  using skip_ws_append [of s _ _ x] by (cases "skip_ws s") auto

lemma parse_append:
  "(parse_value n s = Some (v, t) \<longrightarrow> closed_value v \<or> delimited t \<longrightarrow> parse_value n (s @ x) = Some (v, t @ x)) \<and>
   (parse_elems n s = Some (vs, t) \<longrightarrow> parse_elems n (s @ x) = Some (vs, t @ x)) \<and>
   (parse_members n s = Some (ms, t) \<longrightarrow> parse_members n (s @ x) = Some (ms, t @ x))"
proof (induction n arbitrary: s v vs ms t)
  case (Suc n)
  have v: "parse_value n s = Some (w, t) \<Longrightarrow> closed_value w \<or> delimited t \<Longrightarrow> parse_value n (s @ x) = Some (w, t @ x)" for s w t
    using Suc.IH by blast
  have e: "parse_elems n (skip_ws cs) = Some (vs, t) \<Longrightarrow> parse_elems n (skip_ws (cs @ x)) = Some (vs, t @ x)" for cs vs t
    using Suc.IH skip_ws_more [of cs x] by (cases "skip_ws cs = []") auto
  have m: "parse_members n (skip_ws cs) = Some (ms, t) \<Longrightarrow> parse_members n (skip_ws (cs @ x)) = Some (ms, t @ x)" for cs ms t
    using Suc.IH skip_ws_more [of cs x] by (cases "skip_ws cs = []") auto
  have "parse_value (Suc n) (s @ x) = Some (v, t @ x)" if a: "parse_value (Suc n) s = Some (v, t)" "closed_value v \<or> delimited t"
  proof -
    obtain c cs where s: "s = c # cs" using a(1) by (cases s) auto
    consider "c = 34" | "c = 91" | "c = 123" | "c \<notin> {34, 91, 123}" by blast
    then show ?thesis
    proof cases
      case 1
      then show ?thesis using a(1) s parse_str_append [of cs _ t x] by (auto simp: value_step)
    next
      case 2
      then show ?thesis using a(1) s e [of cs _ t] skip_ws_append [of cs _ _ x] by (auto simp: value_step)
    next
      case 3
      then show ?thesis using a(1) s m [of cs _ t] skip_ws_append [of cs _ _ x] by (auto simp: value_step)
    next
      case 4
      then show ?thesis using a s parse_atom_append [of s v t x] atom_open [of s v t] by (auto simp: value_step)
    qed
  qed
  moreover have "parse_elems (Suc n) (s @ x) = Some (vs, t @ x)" if a: "parse_elems (Suc n) s = Some (vs, t)"
  proof -
    obtain w r c cs where w: "parse_value n s = Some (w, r)" "skip_ws r = c # cs"
        "c = 93 \<and> vs = [w] \<and> t = cs \<or> c = 44 \<and> (\<exists>ws. parse_elems n (skip_ws cs) = Some (ws, t) \<and> vs = w # ws)"
      using a unfolding elems_step by blast
    then have "parse_value n (s @ x) = Some (w, r @ x)" using v delimited_skip by blast
    moreover have "skip_ws (r @ x) = c # cs @ x" by (rule skip_ws_append [OF w(2)])
    ultimately show ?thesis using w(3) e [of cs _ t] by (auto simp: elems_step)
  qed
  moreover have "parse_members (Suc n) (s @ x) = Some (ms, t @ x)" if a: "parse_members (Suc n) s = Some (ms, t)"
  proof -
    obtain qs k r ds w r' c cs where w: "s = 34 # qs" "parse_str qs = Some (k, r)" "skip_ws r = 58 # ds" "parse_value n (skip_ws ds) = Some (w, r')"
        "skip_ws r' = c # cs" "c = 125 \<and> ms = [(text_of k, w)] \<and> t = cs \<or>
          c = 44 \<and> (\<exists>ns. parse_members n (skip_ws cs) = Some (ns, t) \<and> ms = (text_of k, w) # ns)"
      using a unfolding members_step by blast
    have "delimited r'" using w(5,6) delimited_skip by blast
    moreover have "skip_ws (ds @ x) = skip_ws ds @ x" using w(4) skip_ws_more [of ds x] by fastforce
    ultimately have "parse_value n (skip_ws (ds @ x)) = Some (w, r' @ x)" using v w(4) by simp
    moreover have "skip_ws (r @ x) = 58 # ds @ x" "skip_ws (r' @ x) = c # cs @ x"
      using skip_ws_append w(3,5) by blast+
    ultimately show ?thesis using w(1,6) parse_str_append [OF w(2), of x] m [of cs _ t] by (auto simp: members_step)
  qed
  ultimately show ?case by blast
qed simp

lemma raw_decode_append:
  assumes "raw_decode s = Some (v, t)" "closed_value v"
  shows "raw_decode (s @ x) = Some (v, t @ x)"
proof -
  have "parse_value (2 * length s + 2) (s @ x) = Some (v, t @ x)"
    using assms parse_append [of "2 * length s + 2" s v t x] by (simp add: raw_decode_def)
  then show ?thesis unfolding raw_decode_def by (rule parse_value_mono) simp
qed


section \<open>Every value is shorter than its text, and the fuel is enough\<close>

lemma skip_ws_length: "length (skip_ws s) \<le> length s"
  by (simp add: skip_ws_def length_dropWhile_le)

lemma skip_ws_Cons_length: "skip_ws s = c # cs \<Longrightarrow> length cs < length s"
  using skip_ws_length [of s] by simp

lemma unicode_escape_length: "unicode_escape s = Some (u, r) \<Longrightarrow> length r < length s"
  by (auto simp: unicode_escape_def low_surrogate_def split: list.splits option.splits if_splits)

lemma parse_str_fuel_length: "parse_str_fuel n s = Some (us, t) \<Longrightarrow> length t < length s"
proof (induction n arbitrary: s us)
  case (Suc n)
  obtain c cs where s: "s = c # cs" using Suc.prems by (cases s) (auto simp: parse_str_fuel.simps(2))
  show ?case
  proof (cases "c = 92")
    case True
    then obtain e es u rest vs where e: "cs = e # es" "if e = 117 then unicode_escape es = Some (u, rest) else map_of ESCAPES e = Some u \<and> rest = es"
        "parse_str_fuel n rest = Some (vs, t)"
      using Suc.prems unfolding s True str_escape by blast
    then show ?thesis using s Suc.IH [OF e(3)] unicode_escape_length [of es u rest] by (auto split: if_splits)
  next
    case False
    then show ?thesis using Suc.prems Suc.IH [of cs] unfolding s str_plain [OF False] by force
  qed
qed simp

lemma parse_str_fuel_enough: "parse_str_fuel n s = Some (us, t) \<Longrightarrow> parse_str s = Some (us, t)"
  unfolding parse_str_def
proof (induction n arbitrary: s us)
  case (Suc n)
  obtain c cs where s: "s = c # cs" using Suc.prems by (cases s) (auto simp: parse_str_fuel.simps(2))
  show ?case
  proof (cases "c = 92")
    case True
    then obtain e es u rest vs where e: "cs = e # es" "if e = 117 then unicode_escape es = Some (u, rest) else map_of ESCAPES e = Some u \<and> rest = es"
        "parse_str_fuel n rest = Some (vs, t)" "us = u # vs"
      using Suc.prems unfolding s True str_escape by blast
    have "length rest \<le> length es" using e(2) unicode_escape_length [of es u rest] by (auto split: if_splits)
    then have "parse_str_fuel (length s) rest = Some (vs, t)"
      using parse_str_mono_le [OF Suc.IH [OF e(3)], of "length s"] s e(1) by simp
    then show ?thesis
      unfolding s True str_escape e(1)
      by (intro exI [of _ e] exI [of _ es] exI [of _ u] exI [of _ rest] exI [of _ vs]) (use e(2,4) s e(1) in simp)
  next
    case False
    then show ?thesis using Suc.prems Suc.IH [of cs] unfolding s str_plain [OF False] by auto
  qed
qed simp

lemma dropWhile_length: "length (dropWhile P s) \<le> length s"
  by (rule length_dropWhile_le)

lemma parse_number_length: "parse_number s = Some (v, t) \<Longrightarrow> length t < length s"
proof -
  have d: "length (dropWhile udigit s) < length s" if "s = c # cs" "udigit c" for s c cs
    using that length_dropWhile_le [of udigit cs] by simp
  have i: "int_part s = Some (ds, r) \<Longrightarrow> length r < length s" for s ds r
    using d by (auto simp: int_part_def split: list.splits if_splits)
  have f: "frac_part s = (fs, r) \<Longrightarrow> length r \<le> length s" for s fs r
    using length_dropWhile_le [of udigit] by (auto simp: frac_part_def split: list.splits if_splits intro: le_SucI)
  have x: "exp_part s = (e, r) \<Longrightarrow> length r \<le> length s" for s e r
    using length_dropWhile_le [of udigit] by (auto simp: exp_part_def split: list.splits if_splits intro: le_SucI)
  assume a: "parse_number s = Some (v, t)"
  define neg where "neg = (s \<noteq> [] \<and> hd s = 45)"
  obtain ds r1 fs r2 e where p: "int_part (if neg then tl s else s) = Some (ds, r1)" "frac_part r1 = (fs, r2)" "exp_part r2 = (e, t)"
    using a by (auto simp: parse_number_def neg_def Let_def split: option.splits prod.splits)
  have "length (if neg then tl s else s) \<le> length s" by simp
  then show ?thesis using i [OF p(1)] f [OF p(2)] x [OF p(3)] by linarith
qed

lemma parse_atom_length: "parse_atom s = Some (v, t) \<Longrightarrow> length t < length s"
proof -
  assume a: "parse_atom s = Some (v, t)"
  obtain c cs where s: "s = c # cs" using a by (cases s) (auto simp: parse_atom_def LITERALS_def ascii_def parse_number_def int_part_def)
  show ?thesis
    using a s parse_number_length [of s v t]
    by (auto simp: parse_atom_def parse_literal_at split: option.splits if_splits)
qed

lemma parse_length:
  "(parse_value n s = Some (v, t) \<longrightarrow> length t < length s) \<and> (parse_elems n s = Some (vs, t) \<longrightarrow> length t < length s) \<and>
   (parse_members n s = Some (ms, t) \<longrightarrow> length t < length s)"
proof (induction n arbitrary: s v vs ms t)
  case (Suc n)
  have v: "parse_value n s = Some (w, t) \<Longrightarrow> length t < length s" for s w t using Suc.IH by blast
  have e: "parse_elems n s = Some (vs, t) \<Longrightarrow> length t < length s" for s vs t using Suc.IH by blast
  have m: "parse_members n s = Some (ms, t) \<Longrightarrow> length t < length s" for s ms t using Suc.IH by blast
  have "length t < length s" if "parse_value (Suc n) s = Some (v, t)"
    using that unfolding value_step
    by (auto dest!: e m skip_ws_Cons_length parse_atom_length parse_str_fuel_length simp: parse_str_def)
  moreover have "length t < length s" if a: "parse_elems (Suc n) s = Some (vs, t)"
  proof -
    obtain w r c cs where "parse_value n s = Some (w, r)" "skip_ws r = c # cs" "t = cs \<or> (\<exists>ws. parse_elems n (skip_ws cs) = Some (ws, t))"
      using a unfolding elems_step by blast
    then show ?thesis using v [of s w r] skip_ws_Cons_length [of r c cs] e [of "skip_ws cs" _ t] skip_ws_length [of cs] by force
  qed
  moreover have "length t < length s" if a: "parse_members (Suc n) s = Some (ms, t)"
  proof -
    obtain qs k r ds w r' c cs where "s = 34 # qs" "parse_str qs = Some (k, r)" "skip_ws r = 58 # ds" "parse_value n (skip_ws ds) = Some (w, r')"
        "skip_ws r' = c # cs" "t = cs \<or> (\<exists>ns. parse_members n (skip_ws cs) = Some (ns, t))"
      using a unfolding members_step by blast
    then show ?thesis
      using v [of "skip_ws ds" w r'] parse_str_fuel_length [of _ qs k r] skip_ws_Cons_length [of r 58 ds] skip_ws_Cons_length [of r' c cs]
        m [of "skip_ws cs" _ t] skip_ws_length [of cs] skip_ws_length [of ds]
      by (force simp: parse_str_def)
  qed
  ultimately show ?case by blast
qed simp


lemma parse_mono_le:
  "parse_elems n s = Some (vs, t) \<Longrightarrow> n \<le> m \<Longrightarrow> parse_elems m s = Some (vs, t)"
  "parse_members n s = Some (ms, t) \<Longrightarrow> n \<le> m \<Longrightarrow> parse_members m s = Some (ms, t)"
  by (induction m) (auto simp: le_Suc_eq parse_mono)

lemma parse_enough:
  "(parse_value n s = Some (v, t) \<longrightarrow> parse_value (2 * length s + 1) s = Some (v, t)) \<and>
   (parse_elems n s = Some (vs, t) \<longrightarrow> parse_elems (2 * length s + 2) s = Some (vs, t)) \<and>
   (parse_members n s = Some (ms, t) \<longrightarrow> parse_members (2 * length s + 2) s = Some (ms, t))"
proof (induction n arbitrary: s v vs ms t)
  case (Suc n)
  have v: "parse_value n s = Some (w, t) \<Longrightarrow> 2 * length s + 1 \<le> k \<Longrightarrow> parse_value k s = Some (w, t)" for s w t k
    using Suc.IH parse_value_mono by blast
  have e: "parse_elems n s = Some (vs, t) \<Longrightarrow> 2 * length s + 2 \<le> k \<Longrightarrow> parse_elems k s = Some (vs, t)" for s vs t k
    using Suc.IH parse_mono_le(1) by blast
  have m: "parse_members n s = Some (ms, t) \<Longrightarrow> 2 * length s + 2 \<le> k \<Longrightarrow> parse_members k s = Some (ms, t)" for s ms t k
    using Suc.IH parse_mono_le(2) by blast
  have "parse_value (Suc (2 * length s)) s = Some (v, t)" if a: "parse_value (Suc n) s = Some (v, t)"
  proof -
    obtain c cs where s: "s = c # cs" using a by (cases s) auto
    have k: "2 * length (d # ds) + 2 \<le> 2 * length s" if "skip_ws cs = d # ds" for d ds
      using skip_ws_length [of cs] that s by simp
    consider "c = 91" | "c = 123" | "c \<noteq> 91" "c \<noteq> 123" by blast
    then show ?thesis
    proof cases
      case 1
      then show ?thesis using a s e [OF _ k] by (fastforce simp: value_step)
    next
      case 2
      then show ?thesis using a s m [OF _ k] by (fastforce simp: value_step)
    next
      case 3
      then show ?thesis using a s by (simp add: value_step)
    qed
  qed
  moreover have "parse_elems (Suc (2 * length s + 1)) s = Some (vs, t)" if a: "parse_elems (Suc n) s = Some (vs, t)"
  proof -
    obtain w r c cs where w: "parse_value n s = Some (w, r)" "skip_ws r = c # cs"
        "c = 93 \<and> vs = [w] \<and> t = cs \<or> c = 44 \<and> (\<exists>ws. parse_elems n (skip_ws cs) = Some (ws, t) \<and> vs = w # ws)"
      using a unfolding elems_step by blast
    have "length r < length s" using w(1) parse_length by blast
    then have "2 * length (skip_ws cs) + 2 \<le> 2 * length s + 1" using skip_ws_Cons_length [OF w(2)] skip_ws_length [of cs] by linarith
    then show ?thesis unfolding elems_step using w v [OF w(1) order_refl] e [of "skip_ws cs" _ t] by blast
  qed
  moreover have "parse_members (Suc (2 * length s + 1)) s = Some (ms, t)" if a: "parse_members (Suc n) s = Some (ms, t)"
  proof -
    obtain qs k r ds w r' c cs where w: "s = 34 # qs" "parse_str qs = Some (k, r)" "skip_ws r = 58 # ds" "parse_value n (skip_ws ds) = Some (w, r')"
        "skip_ws r' = c # cs" "c = 125 \<and> ms = [(text_of k, w)] \<and> t = cs \<or>
          c = 44 \<and> (\<exists>ns. parse_members n (skip_ws cs) = Some (ns, t) \<and> ms = (text_of k, w) # ns)"
      using a unfolding members_step by blast
    have l: "length r < length qs" using w(2) parse_str_fuel_length unfolding parse_str_def by blast
    have l': "length r' < length (skip_ws ds)" using w(4) parse_length by blast
    from l have "length (skip_ws ds) \<le> length s" "2 * length (skip_ws cs) + 2 \<le> 2 * length s + 1"
      using skip_ws_Cons_length [OF w(3)] skip_ws_Cons_length [OF w(5)] skip_ws_length [of cs] skip_ws_length [of ds] w(1) l' by simp_all
    moreover have "parse_value (2 * length s + 1) (skip_ws ds) = Some (w, r')" using v [OF w(4)] calculation(1) by simp
    ultimately show ?thesis unfolding members_step using w m [of "skip_ws cs" _ t] by blast
  qed
  ultimately show ?case by simp
qed simp

text \<open>No amount of fuel finds a value that \<open>raw_decode\<close> does not find.\<close>

lemma raw_decode_fuel: "raw_decode s = Some (v, t) \<longleftrightarrow> (\<exists>n. parse_value n s = Some (v, t))"
proof
  assume "\<exists>n. parse_value n s = Some (v, t)"
  then have "parse_value (2 * length s + 1) s = Some (v, t)" using parse_enough by blast
  then show "raw_decode s = Some (v, t)" unfolding raw_decode_def by (rule parse_value_mono) simp
qed (auto simp: raw_decode_def)

lemma raw_decode_length: "raw_decode s = Some (v, t) \<Longrightarrow> length t < length s"
  unfolding raw_decode_def using parse_length by blast

end
