(* ===== verification/Audio_Events.thy ===== *)
theory Audio_Events
  imports Timers Host_Events Json_Text
begin

text \<open>
  \<^verbatim>\<open>guest/devices/audio_events.py\<close>: the PipeWire change stream (\<^verbatim>\<open>JSONStream\<close>), the object graph built from it
  (\<^verbatim>\<open>Graph\<close>), and the event source of the audio bridge (\<^verbatim>\<open>AudioEvents\<close>).

  The calls are state transformers on records that the bridge extends. What the monitor process writes, what the
  status file holds, the answers of \<^verbatim>\<open>pw-dump\<close> and whether the directory monitor could be installed are inputs. The
  watches of the monitor pipe and of the signals are not timers; the first is the flag \<open>ae_piped\<close>. Python leaves the
  order of the set \<^verbatim>\<open>dirty_metadata\<close> open; the model takes the order of insertion.
\<close>

section \<open>The stream\<close>

record json_stream =
  js_buffer :: ucs
  js_pending :: "int list"
  js_limit :: nat

definition stream_new :: json_stream where
  "stream_new = \<lparr>js_buffer = [], js_pending = [], js_limit = 8 * 1024 * 1024\<rparr>"

lemma raw_decode_lstrip: "raw_decode (lstrip s) = Some (v, t) \<Longrightarrow> length t < length s"
  using raw_decode_length [of "lstrip s" v t] length_dropWhile_le [of uspace s] by (simp add: lstrip_def)

text \<open>The loop of \<^verbatim>\<open>feed\<close>: the buffer it leaves, and the arrays it read or the exception.\<close>

function stream_drain :: "ucs \<Rightarrow> ucs \<times> json list list outcome" where
  "stream_drain buffer =
     (let s = lstrip buffer in
      if s = [] then (buffer, Ret []) else
      (case raw_decode s of
         None \<Rightarrow> (s, Ret [])
       | Some (value, rest) \<Rightarrow>
           (case value of
              JList batch \<Rightarrow>
                (case stream_drain rest of (b, r) \<Rightarrow> (b, bindO r (\<lambda>batches. Ret (batch # batches))))
            | _ \<Rightarrow> (s, Exc (ValueError ''PipeWire monitor must emit arrays'')))))"
  by pat_completeness auto
termination
  by (relation "measure length") (auto dest: raw_decode_lstrip)

declare stream_drain.simps [simp del]

definition stream_feed :: "bytes \<Rightarrow> json_stream \<Rightarrow> json_stream \<times> json list list outcome" where
  "stream_feed data s =
     (case utf8_decode (js_pending s @ map uint data) of
        None \<Rightarrow> (s, Exc (ValueError ''invalid utf-8''))
      | Some (us, rest) \<Rightarrow>
          (let s1 = s\<lparr>js_buffer := js_buffer s @ us, js_pending := rest\<rparr> in
           if length (js_buffer s1) > js_limit s1 then (s1, Exc (ValueError ''PipeWire monitor frame exceeds limit''))
           else (case stream_drain (js_buffer s1) of (b, r) \<Rightarrow> (s1\<lparr>js_buffer := b\<rparr>, r))))"

section \<open>The graph\<close>

definition NODE :: string where "NODE = ''PipeWire:Interface:Node''"
definition METADATA :: string where "METADATA = ''PipeWire:Interface:Metadata''"

record graph =
  gr_nodes :: "(int \<times> dict) list"
  gr_metadata :: "(int \<times> dict) list"
  gr_dirty :: "int list"
  gr_ready :: bool

definition graph_new :: graph where
  "graph_new = \<lparr>gr_nodes = [], gr_metadata = [], gr_dirty = [], gr_ready = False\<rparr>"

type_synonym endpoint = "(json \<times> json \<times> json) option"

definition relevant :: "dict \<Rightarrow> endpoint outcome" where
  "relevant node =
     (let info = (if truthy (dict_get node ''info'') then dict_get node ''info'' else JDict []) in
      bindO (jget_or info ''props'' (JDict [])) (\<lambda>props.
      bindO (jget props ''media.class'') (\<lambda>cls.
        if cls \<notin> {JStr ''Audio/Sink'', JStr ''Audio/Source''} then Ret None
        else bindO (jget props ''node.name'') (\<lambda>name.
             bindO (jget_or info ''params'' (JDict [])) (\<lambda>params.
             bindO (jget_or params ''Props'' (JList [])) (\<lambda>ps. Ret (Some (name, cls, ps))))))))"

fun endpoint_eq :: "endpoint \<Rightarrow> endpoint \<Rightarrow> bool" where
  "endpoint_eq None None = True"
| "endpoint_eq (Some (n, c, p)) (Some (n', c', p')) = (py_eq n n' \<and> py_eq c c' \<and> py_eq p p')"
| "endpoint_eq _ _ = False"

definition set_add :: "'a \<Rightarrow> 'a list \<Rightarrow> 'a list" where
  "set_add x xs = (if x \<in> set xs then xs else xs @ [x])"

definition set_discard :: "'a \<Rightarrow> 'a list \<Rightarrow> 'a list" where
  "set_discard x xs = filter (\<lambda>y. y \<noteq> x) xs"

definition node_of :: "int \<Rightarrow> graph \<Rightarrow> dict" where
  "node_of ident g = (case map_of (gr_nodes g) ident of None \<Rightarrow> [] | Some node \<Rightarrow> node)"

definition node_entry :: "int \<Rightarrow> dict \<Rightarrow> (graph, bool) act" where
  "node_entry ident entry =
     bindA (getA (node_of ident)) (\<lambda>old.
     bindA (liftA (relevant old)) (\<lambda>before.
     bindA (liftA (relevant entry)) (\<lambda>after.
     thenA (updA (\<lambda>g. g\<lparr>gr_nodes := dset ident entry (gr_nodes g)\<rparr>)) (retA (\<not> endpoint_eq before after)))))"

definition metadata_entry :: "int \<Rightarrow> dict \<Rightarrow> (graph, bool) act" where
  "metadata_entry ident entry =
     thenA (updA (\<lambda>g. g\<lparr>gr_metadata := dset ident entry (gr_metadata g), gr_dirty := set_add ident (gr_dirty g)\<rparr>)) (retA True)"

definition removed_entry :: "int \<Rightarrow> (graph, bool) act" where
  "removed_entry ident =
     bindA (getA (node_of ident)) (\<lambda>old.
     thenA (updA (\<lambda>g. g\<lparr>gr_nodes := dpop ident (gr_nodes g)\<rparr>))
     (bindA (liftA (relevant old)) (\<lambda>before.
      bindA (getA (\<lambda>g. map_of (gr_metadata g) ident \<noteq> None)) (\<lambda>known.
        if known then
          thenA (updA (\<lambda>g. g\<lparr>gr_metadata := dpop ident (gr_metadata g), gr_dirty := set_discard ident (gr_dirty g)\<rparr>)) (retA True)
        else retA (before \<noteq> None)))))"

definition graph_entry :: "json \<Rightarrow> (graph, bool) act" where
  "graph_entry value =
     (case value of
        JDict entry \<Rightarrow>
          (case dict_get entry ''id'' of
             JInt ident \<Rightarrow>
               (let kind = dict_get entry ''type'' in
                if kind = JStr NODE then node_entry ident entry
                else bindA (liftA (if kind = JStr METADATA
                               then bindO (jget_or value ''props'' (JDict [])) (\<lambda>props. jget props ''metadata.name'')
                               else Ret JNull)) (\<lambda>name.
                  if kind = JStr METADATA \<and> name = JStr ''default'' then metadata_entry ident entry
                  else if kind = JNull \<and> (has_key entry ''info'' \<or> has_key entry ''props'') then removed_entry ident
                  else retA False))
           | _ \<Rightarrow> excA (ValueError ''Invalid PipeWire monitor object''))
      | _ \<Rightarrow> excA (ValueError ''Invalid PipeWire monitor object''))"

fun graph_entries :: "json list \<Rightarrow> bool \<Rightarrow> (graph, bool) act" where
  "graph_entries [] changed = retA changed"
| "graph_entries (e # es) changed = bindA (graph_entry e) (\<lambda>c. graph_entries es (changed \<or> c))"

definition graph_update :: "json list \<Rightarrow> (graph, bool) act" where
  "graph_update batch =
     bindA (getA (\<lambda>g. \<not> gr_ready g)) (\<lambda>changed.
       thenA (updA (\<lambda>g. g\<lparr>gr_ready := True\<rparr>)) (graph_entries batch changed))"

text \<open>\<^verbatim>\<open>next((e for e in entries if ...), None)\<close>.\<close>

fun find_metadata :: "int \<Rightarrow> json list \<Rightarrow> dict option outcome" where
  "find_metadata ident [] = Ret None"
| "find_metadata ident (e # es) =
     (case e of
        JDict d \<Rightarrow>
          if py_eq (dict_get d ''id'') (JInt ident) \<and> dict_get d ''type'' = JStr METADATA then Ret (Some d)
          else find_metadata ident es
      | _ \<Rightarrow> Exc (AttributeError ''get''))"

definition refresh_metadata :: "(int \<Rightarrow> json list outcome) \<Rightarrow> int \<Rightarrow> (graph, unit) act" where
  "refresh_metadata query ident =
     bindA (liftA (bindO (query ident) (find_metadata ident))) (\<lambda>current.
       updA (\<lambda>g. g\<lparr>gr_metadata := (case current of
                   None \<Rightarrow> dpop ident (gr_metadata g) | Some d \<Rightarrow> dset ident d (gr_metadata g)),
                 gr_dirty := set_discard ident (gr_dirty g)\<rparr>))"

definition graph_snapshot :: "(int \<Rightarrow> json list outcome) \<Rightarrow> (graph, dict list) act" where
  "graph_snapshot query =
     bindA (getA gr_dirty) (\<lambda>dirty.
       thenA (forA (refresh_metadata query) dirty)
             (getA (\<lambda>g. map snd (gr_nodes g) @ map snd (gr_metadata g))))"

section \<open>The event source\<close>

definition audio_host_revision :: "status_reading \<Rightarrow> (revision_key option \<times> time) outcome" where
  "audio_host_revision = host_revision_of ''audioRevision''"

text \<open>\<open>AudioNotify\<close> tells apart the timers whose callback is \<^verbatim>\<open>notify\<close>; the bridge arms them.\<close>

datatype notify_timer = Defaults | DefaultsDeadline | VolumeDeadline

datatype audio_cb =
    AudioReconcile
  | AudioRefreshHost
  | AudioFallback
  | AudioReadHost
  | AudioWatch
  | AudioQuit
  | AudioNotify notify_timer

record audio = "audio_cb timers" +
  ae_graph :: graph
  ae_stream :: json_stream
  ae_host_key :: "revision_key option"
  ae_host_dirty :: bool
  ae_mode :: "string option"
  ae_error :: "exn option"
  ae_quit :: bool
  ae_watching :: bool
  ae_piped :: bool

definition audio_notify :: "('z audio_scheme, unit) act" where
  "audio_notify = later ''reconcile'' 40 AudioReconcile"

definition audio_retry :: "('z audio_scheme, unit) act" where
  "audio_retry =
     bindA (getA ae_host_key) (\<lambda>key.
       if \<not> key_active key then retA () else later ''retry'' 1000 AudioRefreshHost)"

definition audio_refresh_host :: "('z audio_scheme, unit) act" where
  "audio_refresh_host = thenA (updA (\<lambda>s. s\<lparr>ae_host_dirty := True\<rparr>)) audio_notify"

definition audio_fallback_tick :: "('z audio_scheme, unit) act" where
  "audio_fallback_tick = thenA audio_refresh_host (later ''fallback'' 1000 AudioFallback)"

definition audio_read_host :: "host_env \<Rightarrow> ('z audio_scheme, unit) act" where
  "audio_read_host env =
     thenA (remove_source ''expiry'')
     (bindA (liftA (audio_host_revision (ev_status env))) (\<lambda>(key, remaining).
      thenA (updA (\<lambda>s. s\<lparr>ae_mode := Some (wifi_mode key)\<rparr>))
      (thenA (if key \<noteq> None
              then thenA (remove_source ''fallback'')
                (thenA (bindA (getA ae_host_key) (\<lambda>old. if \<not> key_eq key old then audio_refresh_host else retA ()))
                       (later ''expiry'' (expiry_ms remaining) AudioReadHost))
              else later ''fallback'' 1000 AudioFallback)
             (updA (\<lambda>s. s\<lparr>ae_host_key := key\<rparr>)))))"

definition audio_watch_status :: "host_env \<Rightarrow> ('z audio_scheme, unit) act" where
  "audio_watch_status env =
     thenA (updA (\<lambda>s. s\<lparr>ae_watching := False\<rparr>))
     (thenA (if ev_monitor env then updA (\<lambda>s. s\<lparr>ae_watching := True\<rparr>) else later ''watch'' 1000 AudioWatch)
            (audio_read_host env))"

definition audio_status_changed :: "host_env \<Rightarrow> bool \<Rightarrow> bool \<Rightarrow> ('z audio_scheme, unit) act" where
  "audio_status_changed env parent file =
     thenA (if parent then later ''watch'' 1000 AudioWatch else retA ())
           (if file \<or> parent then audio_read_host env else retA ())"

definition on_graph :: "(graph, 'a) act \<Rightarrow> ('z audio_scheme, 'a) act" where
  "on_graph m = (\<lambda>s. case m (ae_graph s) of (g, r) \<Rightarrow> (s\<lparr>ae_graph := g\<rparr>, r))"

definition on_stream :: "bytes \<Rightarrow> ('z audio_scheme, json list list) act" where
  "on_stream data = (\<lambda>s. case stream_feed data (ae_stream s) of (st, r) \<Rightarrow> (s\<lparr>ae_stream := st\<rparr>, r))"

text \<open>\<open>data\<close> is what \<^verbatim>\<open>os.read\<close> returned; the value says whether the watch of the pipe is kept.\<close>

definition audio_receive :: "bytes outcome \<Rightarrow> ('z audio_scheme, bool) act" where
  "audio_receive data =
     catchA
       (catchA
          (bindA (liftA data) (\<lambda>bs.
             if bs = [] then excA (EOFError ''PipeWire monitor disconnected'') else
             bindA (on_stream bs) (\<lambda>batches.
             thenA (forA (\<lambda>batch. bindA (on_graph (graph_update batch)) (\<lambda>changed.
                      if changed then audio_notify else retA ())) batches)
                   (retA True))))
          (\<lambda>e. e = BlockingIOError) (\<lambda>_. retA True))
       (\<lambda>e. is_OSError e \<or> is_EOFError e \<or> is_ValueError e)
       (\<lambda>e. thenA (updA (\<lambda>s. s\<lparr>ae_error := Some e, ae_piped := False, ae_quit := True\<rparr>)) (retA False))"

definition audio_snapshot :: "(int \<Rightarrow> json list outcome) \<Rightarrow> ('z audio_scheme, dict list) act" where
  "audio_snapshot query = on_graph (graph_snapshot query)"

text \<open>\<^verbatim>\<open>run\<close>, up to the main loop.\<close>

definition audio_run :: "host_env \<Rightarrow> nat \<Rightarrow> ('z audio_scheme, unit) act" where
  "audio_run env duration =
     thenA (updA (\<lambda>s. s\<lparr>ae_piped := True\<rparr>))
     (thenA (if duration \<noteq> 0 then later ''duration'' (duration * 1000) AudioQuit else retA ())
            (audio_watch_status env))"

definition audio_quit :: "('z audio_scheme, unit) act" where
  "audio_quit = updA (\<lambda>s. s\<lparr>ae_quit := True\<rparr>)"

definition audio_close :: "('z audio_scheme, unit) act" where
  "audio_close = thenA close_sources (updA (\<lambda>s. s\<lparr>ae_watching := False, ae_piped := False\<rparr>))"

text \<open>The callbacks of the timers; \<open>changed\<close> is the client's.\<close>

fun audio_callback :: "('z audio_scheme, unit) act \<Rightarrow> host_env \<Rightarrow> audio_cb \<Rightarrow> ('z audio_scheme, unit) act" where
  "audio_callback changed env AudioReconcile = changed"
| "audio_callback changed env AudioRefreshHost = audio_refresh_host"
| "audio_callback changed env AudioFallback = audio_fallback_tick"
| "audio_callback changed env AudioReadHost = audio_read_host env"
| "audio_callback changed env AudioWatch = audio_watch_status env"
| "audio_callback changed env AudioQuit = audio_quit"
| "audio_callback changed env (AudioNotify _) = audio_notify"

section \<open>The stream does not depend on how it is cut\<close>

lemma lstrip_append: "lstrip s \<noteq> [] \<Longrightarrow> lstrip (s @ x) = lstrip s @ x"
  unfolding lstrip_def by (induction s) auto

lemma lstrip_idem: "lstrip s \<noteq> [] \<Longrightarrow> lstrip (lstrip s @ x) = lstrip s @ x"
  unfolding lstrip_def by (induction s) auto

lemma drain_blank: "lstrip s \<noteq> [] \<Longrightarrow> stream_drain (lstrip s @ x) = stream_drain (s @ x)"
  by (simp add: stream_drain.simps [of "lstrip s @ x"] stream_drain.simps [of "s @ x"] lstrip_append lstrip_idem)

lemma stream_drain_append:
  "stream_drain b = (b', Ret xs) \<Longrightarrow>
     stream_drain (b @ x) = (case stream_drain (b' @ x) of (c, r) \<Rightarrow> (c, bindO r (\<lambda>ys. Ret (xs @ ys))))"
proof (induction b arbitrary: b' xs rule: stream_drain.induct)
  case (1 b)
  let ?s = "lstrip b"
  show ?case
  proof (cases "?s = []")
    case True
    then have "b' = b" "xs = []" using 1(2) by (simp_all add: stream_drain.simps [of b])
    then show ?thesis by simp
  next
    case s: False
    show ?thesis
    proof (cases "raw_decode ?s")
      case None
      then have "b' = ?s" "xs = []" using 1(2) s by (simp_all add: stream_drain.simps [of b])
      then show ?thesis using drain_blank [OF s] by simp
    next
      case (Some y)
      then obtain batch rest where y: "y = (JList batch, rest)" using 1(2) s by (cases y; cases "fst y") (auto simp: stream_drain.simps [of b])
      then obtain zs where z: "stream_drain rest = (b', Ret zs)" "xs = batch # zs"
        using 1(2) s Some by (auto simp: stream_drain.simps [of b] split: prod.splits)
      have "raw_decode (?s @ x) = Some (JList batch, rest @ x)" using raw_decode_append Some y by simp
      then have "stream_drain (b @ x) = (case stream_drain (rest @ x) of (c, r) \<Rightarrow> (c, bindO r (\<lambda>batches. Ret (batch # batches))))"
        using s lstrip_append [OF s, of x] by (simp add: stream_drain.simps [of "b @ x"])
      then show ?thesis
        using 1(1) [OF refl s Some y [symmetric] refl z(1)] z(2)
        by (cases "stream_drain (b' @ x)") (simp add: bindO_assoc)
    qed
  qed
qed


lemma parse_number_more: "parse_number s \<noteq> None \<Longrightarrow> parse_number (s @ x) \<noteq> None"
proof -
  have i: "int_part s \<noteq> None \<Longrightarrow> int_part (s @ x) \<noteq> None" for s by (cases s) (auto simp: int_part_def split: if_splits)
  assume a: "parse_number s \<noteq> None"
  then have "s \<noteq> []" by (auto simp: parse_number_def int_part_def)
  then show ?thesis
    using a i [of "tl s"] i [of s] by (cases s) (auto simp: parse_number_def Let_def split: option.splits prod.splits if_splits)
qed

lemma parse_atom_more: "parse_atom s \<noteq> None \<Longrightarrow> parse_atom (s @ x) \<noteq> None"
proof -
  assume a: "parse_atom s \<noteq> None"
  obtain c cs where s: "s = c # cs" using a by (cases s) (auto simp: parse_atom_def LITERALS_def ascii_def parse_number_def int_part_def)
  show ?thesis
  proof (cases "parse_literal LITERALS s")
    case (Some y)
    then obtain w v where w: "literal_at c = Some (w, v)" "take (length w) cs = w"
      using s by (auto simp: parse_literal_at split: option.splits if_splits)
    then have "take (length w) (cs @ x) = w" by (metis append_eq_appendI append_take_drop_id append_eq_conv_conj)
    then show ?thesis using w(1) s by (simp add: parse_atom_def parse_literal_at)
  next
    case None
    then have "parse_number (s @ x) \<noteq> None" using a parse_number_more [of s x] by (simp add: parse_atom_def)
    then show ?thesis by (auto simp: parse_atom_def split: option.splits)
  qed
qed

lemma raw_decode_atom: "c \<notin> {34, 91, 123} \<Longrightarrow> raw_decode (c # cs) = parse_atom (c # cs)"
  by (simp add: raw_decode_def parse_value.simps(2))

lemma raw_decode_other:
  assumes "raw_decode s = Some (v, t)" "\<not> is_list v"
  shows "\<exists>w r. raw_decode (s @ x) = Some (w, r) \<and> \<not> is_list w"
proof (cases "closed_value v")
  case True
  then show ?thesis using raw_decode_append [OF assms(1), of x] assms(2) by blast
next
  case False
  obtain c cs where s: "s = c # cs" using assms(1) by (cases s) (auto simp: raw_decode_def)
  then have c: "c \<notin> {34, 91, 123}"
    using assms(1) False by (auto simp: raw_decode_def parse_value.simps(2) split: list.splits if_splits)
  then have "parse_atom (s @ x) \<noteq> None" using assms(1) s parse_atom_more [of s x] raw_decode_atom [OF c, of cs] by simp
  then obtain w r where w: "parse_atom (s @ x) = Some (w, r)" by (cases "parse_atom (s @ x)") auto
  moreover have "\<not> is_list w" using atom_open [OF w] by (cases w) auto
  ultimately show ?thesis using raw_decode_atom [OF c, of "cs @ x"] s by auto
qed

lemma stream_drain_prefix:
  "stream_drain (b @ x) = (c, Ret ys) \<Longrightarrow> \<exists>b' xs. stream_drain b = (b', Ret xs)"
proof (induction b arbitrary: ys rule: stream_drain.induct)
  case (1 b)
  let ?s = "lstrip b"
  show ?case
  proof (cases "?s = [] \<or> raw_decode ?s = None")
    case True
    then show ?thesis by (auto simp: stream_drain.simps [of b] Let_def)
  next
    case False
    then obtain v rest where s: "?s \<noteq> []" "raw_decode ?s = Some (v, rest)" by auto
    show ?thesis
    proof (cases "is_list v")
      case True
      then obtain batch where v: "v = JList batch" by (cases v) auto
      have "raw_decode (?s @ x) = Some (JList batch, rest @ x)" using raw_decode_append s(2) v by simp
      then obtain zs where "stream_drain (rest @ x) = (c, Ret zs)"
        using 1(2) s(1) lstrip_append [OF s(1), of x] by (auto simp: stream_drain.simps [of "b @ x"] split: prod.splits)
      then obtain b' xs where "stream_drain rest = (b', Ret xs)"
        using 1(1) [OF refl s refl v] by blast
      then show ?thesis using s v by (simp add: stream_drain.simps [of b])
    next
      case v: False
      obtain w r where "raw_decode (?s @ x) = Some (w, r)" "\<not> is_list w" using raw_decode_other [OF s(2) v] by blast
      then show ?thesis
        using 1(2) s(1) lstrip_append [OF s(1), of x] by (cases w) (auto simp: stream_drain.simps [of "b @ x"])
    qed
  qed
qed

lemma stream_drain_shorter: "stream_drain b = (b', r) \<Longrightarrow> length b' \<le> length b"
proof (induction b arbitrary: r rule: stream_drain.induct)
  case (1 b)
  have l: "length (lstrip b) \<le> length b" by (simp add: lstrip_def length_dropWhile_le)
  show ?case
  proof (cases "lstrip b = [] \<or> raw_decode (lstrip b) = None")
    case True
    then show ?thesis using 1(2) l by (auto simp: stream_drain.simps [of b] Let_def split: if_splits)
  next
    case False
    then obtain v rest where s: "lstrip b \<noteq> []" "raw_decode (lstrip b) = Some (v, rest)" by auto
    show ?thesis
    proof (cases v)
      case (JList batch)
      then obtain r' where "stream_drain rest = (b', r')" using 1(2) s by (auto simp: stream_drain.simps [of b] split: prod.splits)
      then show ?thesis using 1(1) [OF refl s refl JList] raw_decode_lstrip [OF s(2)] by fastforce
    qed (use 1(2) s l in \<open>auto simp: stream_drain.simps [of b]\<close>)
  qed
qed

lemma stream_feed_two:
  assumes "stream_feed (a @ b) s = (s', Ret bs)"
  shows "\<exists>s1 xs ys. stream_feed a s = (s1, Ret xs) \<and> stream_feed b s1 = (s', Ret ys) \<and> bs = xs @ ys"
proof -
  obtain us rest where u: "utf8_decode (js_pending s @ map uint a @ map uint b) = Some (us, rest)"
    using assms by (auto simp: stream_feed_def split: option.splits)
  then obtain us1 r1 where d1: "utf8_decode (js_pending s @ map uint a) = Some (us1, r1)"
    using utf8_decode_append [of "js_pending s @ map uint a" "map uint b"] by (cases "utf8_decode (js_pending s @ map uint a)") auto
  then obtain us2 where d: "utf8_decode (js_pending s @ map uint a) = Some (us1, r1)" "utf8_decode (r1 @ map uint b) = Some (us2, rest)" "us = us1 @ us2"
    using utf8_decode_append [of "js_pending s @ map uint a" "map uint b"] u by (cases "utf8_decode (r1 @ map uint b)") auto
  obtain c where limit: "length (js_buffer s @ us) \<le> js_limit s" and c: "stream_drain ((js_buffer s @ us1) @ us2) = (c, Ret bs)" "s' = s\<lparr>js_buffer := c, js_pending := rest\<rparr>"
    using assms u d(3) by (auto simp: stream_feed_def Let_def split: if_splits prod.splits)
  obtain b1 xs where x: "stream_drain (js_buffer s @ us1) = (b1, Ret xs)" using stream_drain_prefix [OF c(1)] by blast
  then obtain ys where y: "stream_drain (b1 @ us2) = (c, Ret ys)" "bs = xs @ ys"
    using stream_drain_append [OF x, of us2] c(1) by (auto split: prod.splits)
  have "length b1 \<le> length (js_buffer s @ us1)" using stream_drain_shorter [OF x] .
  then show ?thesis using d limit x y c(2) by (auto simp: stream_feed_def Let_def)
qed

fun stream_feed_all :: "bytes list \<Rightarrow> json_stream \<Rightarrow> json_stream \<times> json list list outcome" where
  "stream_feed_all [] s = (s, Ret [])"
| "stream_feed_all (c # cs) s =
     (case stream_feed c s of
        (s1, Ret xs) \<Rightarrow> (case stream_feed_all cs s1 of (s2, r) \<Rightarrow> (s2, bindO r (\<lambda>ys. Ret (xs @ ys))))
      | (s1, r) \<Rightarrow> (s1, r))"

text \<open>C18: however the monitor's output is cut into reads, inside a UTF-8 sequence, a token or between arrays, the stream delivers the
  same arrays and ends in the same state as if it had been read at once.\<close>

theorem stream_chunks:
  assumes "cs \<noteq> []" "stream_feed (concat cs) s = (s', Ret batches)"
  shows "stream_feed_all cs s = (s', Ret batches)"
  using assms
proof (induction cs arbitrary: s batches)
  case (Cons c cs)
  show ?case
  proof (cases "cs = []")
    case True
    then show ?thesis using Cons.prems by simp
  next
    case False
    obtain s1 xs ys where "stream_feed c s = (s1, Ret xs)" "stream_feed (concat cs) s1 = (s', Ret ys)" "batches = xs @ ys"
      using stream_feed_two Cons.prems(2) by fastforce
    then show ?thesis using Cons.IH [OF False] by simp
  qed
qed simp

theorem stream_chunks_witness:
  "stream_feed_all [[91, 49, 44], [10, 34, 195], [169, 34, 93, 32, 91], [93]] \<lparr>js_buffer = [], js_pending = [], js_limit = 100\<rparr> =
     (\<lparr>js_buffer = [], js_pending = [], js_limit = 100\<rparr>, Ret [[JInt 1, JStr [CHR 0xC3, CHR 0xA9]], []])"
proof -
  have "stream_feed (concat [[91, 49, 44], [10, 34, 195], [169, 34, 93, 32, 91], [93]]) \<lparr>js_buffer = [], js_pending = [], js_limit = 100\<rparr> =
     (\<lparr>js_buffer = [], js_pending = [], js_limit = 100\<rparr>, Ret [[JInt 1, JStr [CHR 0xC3, CHR 0xA9]], []])"
    by code_simp
  then show ?thesis by (rule stream_chunks [rotated]) simp
qed


section \<open>Changes are noticed\<close>

text \<open>What the bridge looks at: the endpoint a node stands for, up to Python's equality.\<close>

definition endpoint_of :: "graph \<Rightarrow> int \<Rightarrow> endpoint outcome" where
  "endpoint_of g ident = relevant (node_of ident g)"

definition unchanged :: "endpoint outcome \<Rightarrow> endpoint outcome \<Rightarrow> bool" where
  "unchanged = (\<lambda>a b. \<exists>x y. a = Ret x \<and> b = Ret y \<and> endpoint_eq x y)\<^sup>*\<^sup>*"

definition quiet :: "graph \<Rightarrow> graph \<Rightarrow> bool" where
  "quiet g g' \<longleftrightarrow> gr_metadata g' = gr_metadata g \<and> gr_dirty g' = gr_dirty g \<and> gr_ready g' = gr_ready g \<and>
     (\<forall>ident. unchanged (endpoint_of g ident) (endpoint_of g' ident))"

lemma unchanged_refl [simp]: "unchanged a a" and unchanged_trans: "unchanged a b \<Longrightarrow> unchanged b c \<Longrightarrow> unchanged a c"
  by (simp_all add: unchanged_def)

lemma unchanged_step: "a = Ret x \<Longrightarrow> b = Ret y \<Longrightarrow> endpoint_eq x y \<Longrightarrow> unchanged a b"
  unfolding unchanged_def by (rule r_into_rtranclp) blast

lemma quiet_trans: "quiet a b \<Longrightarrow> quiet b c \<Longrightarrow> quiet a c"
  unfolding quiet_def using unchanged_trans by metis

lemma node_entry_quiet: "node_entry ident entry g = (g', Ret False) \<Longrightarrow> quiet g g'"
proof -
  assume a: "node_entry ident entry g = (g', Ret False)"
  obtain x y where xy: "relevant (node_of ident g) = Ret x" "relevant entry = Ret y" "endpoint_eq x y"
    and g': "g' = g\<lparr>gr_nodes := dset ident entry (gr_nodes g)\<rparr>"
    using a by (auto simp: node_entry_def bindA_eq_Ret thenA_eq_Ret simp del: act_at(2))
  have "unchanged (endpoint_of g i) (endpoint_of g' i)" for i
    using xy unchanged_step by (cases "i = ident") (auto simp: g' endpoint_of_def node_of_def)
  then show ?thesis by (simp add: quiet_def g')
qed

lemma relevant_Nil: "relevant [] = Ret None"
  by (simp add: relevant_def dict_get_def)

lemma removed_entry_quiet: "removed_entry ident g = (g', Ret False) \<Longrightarrow> quiet g g'"
proof -
  assume a: "removed_entry ident g = (g', Ret False)"
  then obtain y where y: "relevant (node_of ident g) = Ret y" "y = None"
    and g': "g' = g\<lparr>gr_nodes := dpop ident (gr_nodes g)\<rparr>"
    by (auto simp: removed_entry_def bindA_eq_Ret thenA_eq_Ret simp del: act_at(2) not_None_eq split: if_splits)
  have x: "relevant (node_of ident g) = Ret None" using y by simp
  have "unchanged (endpoint_of g i) (endpoint_of g' i)" for i
    using x by (cases "i = ident") (auto simp: g' endpoint_of_def node_of_def relevant_Nil)
  then show ?thesis by (simp add: quiet_def g')
qed

lemma graph_entry_quiet: "graph_entry e g = (g', Ret False) \<Longrightarrow> quiet g g'"
  using node_entry_quiet removed_entry_quiet
  by (auto simp: graph_entry_def metadata_entry_def bindA_eq_Ret thenA_eq_Ret Let_def quiet_def simp del: act_at(2) split: json.splits if_splits)

lemma graph_entries_quiet: "graph_entries es changed g = (g', Ret False) \<Longrightarrow> \<not> changed \<and> quiet g g'"
proof (induction es arbitrary: changed g)
  case (Cons e es)
  then obtain c h where e: "graph_entry e g = (h, Ret c)" and es: "graph_entries es (changed \<or> c) h = (g', Ret False)"
    by (auto simp: bindA_eq_Ret)
  from Cons.IH [OF es] have q: "\<not> changed" "\<not> c" "quiet h g'" by simp_all
  with e have "quiet g h" by (simp add: graph_entry_quiet)
  then show ?case using q quiet_trans by simp
qed (simp add: quiet_def)

text \<open>When the graph reports that a batch changed nothing, then it was complete before, its metadata is the same and needs no
  new query, and every node stands for the same endpoint (name, class and volumes) as before, so skipping the
  reconciliation loses nothing.\<close>

theorem graph_silent:
  assumes "graph_update batch g = (g', Ret False)"
  shows "gr_ready g \<and> quiet g g'"
proof -
  have "graph_entries batch (\<not> gr_ready g) (g\<lparr>gr_ready := True\<rparr>) = (g', Ret False)" using assms by (simp add: graph_update_def)
  from graph_entries_quiet [OF this] have "gr_ready g" "quiet (g\<lparr>gr_ready := True\<rparr>) g'" by simp_all
  moreover from \<open>gr_ready g\<close> have "g\<lparr>gr_ready := True\<rparr> = g" by simp
  ultimately show ?thesis by simp
qed

definition quiet_graph :: graph where
  "quiet_graph = \<lparr>gr_nodes = [(30, [(''id'', JInt 30), (''info'', JDict [(''props'', JDict [(''media.class'', JStr ''Audio/Sink''), (''node.name'', JStr ''a'')])])])],
     gr_metadata = [], gr_dirty = [], gr_ready = True\<rparr>"

definition quiet_batch :: "json list" where
  "quiet_batch = [JDict [(''id'', JInt 30), (''type'', JStr ''PipeWire:Interface:Node''), (''info'', JDict [(''state'', JStr ''running''),
     (''props'', JDict [(''node.name'', JStr ''a''), (''media.class'', JStr ''Audio/Sink'')])])]]"

theorem graph_silent_witness:
  "\<exists>g'. graph_update quiet_batch quiet_graph = (g', Ret False) \<and> g' \<noteq> quiet_graph \<and> quiet quiet_graph g'"
proof -
  obtain g' where g': "graph_update quiet_batch quiet_graph = (g', Ret False)" "g' \<noteq> quiet_graph"
  proof -
    have "(case graph_update quiet_batch quiet_graph of (g', r) \<Rightarrow> r = Ret False \<and> g' \<noteq> quiet_graph)" by code_simp
    then show thesis using that by (cases "graph_update quiet_batch quiet_graph") auto
  qed
  then show ?thesis using graph_silent by blast
qed

section \<open>The audio events never fall asleep\<close>

fun audio_cb_name :: "audio_cb \<Rightarrow> string" where
  "audio_cb_name AudioReconcile = ''reconcile''"
| "audio_cb_name AudioRefreshHost = ''retry''"
| "audio_cb_name AudioFallback = ''fallback''"
| "audio_cb_name AudioReadHost = ''expiry''"
| "audio_cb_name AudioWatch = ''watch''"
| "audio_cb_name AudioQuit = ''duration''"
| "audio_cb_name (AudioNotify Defaults) = ''defaults''"
| "audio_cb_name (AudioNotify DefaultsDeadline) = ''defaults-deadline''"
| "audio_cb_name (AudioNotify VolumeDeadline) = ''volume-deadline''"

definition audio_awake :: "'z audio_scheme \<Rightarrow> bool" where
  "audio_awake s \<longleftrightarrow> (ae_mode s \<noteq> None \<longrightarrow> pending (if ae_host_key s \<noteq> None then ''expiry'' else ''fallback'') s)"

lemma audio_fields [simp]:
  fixes s :: "'z audio_scheme"
  shows "sources_ok n (s\<lparr>ae_host_key := k\<rparr>) = sources_ok n s" "sources_ok n (s\<lparr>ae_mode := m\<rparr>) = sources_ok n s"
    "sources_ok n (s\<lparr>ae_watching := w\<rparr>) = sources_ok n s" "sources_ok n (s\<lparr>ae_host_dirty := d\<rparr>) = sources_ok n s"
    "sources_ok n (s\<lparr>ae_quit := d\<rparr>) = sources_ok n s" "sources_ok n (s\<lparr>ae_piped := d\<rparr>) = sources_ok n s"
    "sources_ok n (s\<lparr>ae_graph := g\<rparr>) = sources_ok n s" "sources_ok n (s\<lparr>ae_stream := st\<rparr>) = sources_ok n s"
    "sources_ok n (s\<lparr>ae_error := x\<rparr>) = sources_ok n s"
    "pending p (s\<lparr>ae_host_key := k\<rparr>) = pending p s" "pending p (s\<lparr>ae_mode := m\<rparr>) = pending p s"
    "pending p (s\<lparr>ae_watching := w\<rparr>) = pending p s" "pending p (s\<lparr>ae_host_dirty := d\<rparr>) = pending p s"
    "pending p (s\<lparr>ae_quit := d\<rparr>) = pending p s" "pending p (s\<lparr>ae_piped := d\<rparr>) = pending p s"
    "pending p (s\<lparr>ae_graph := g\<rparr>) = pending p s" "pending p (s\<lparr>ae_stream := st\<rparr>) = pending p s"
    "pending p (s\<lparr>ae_error := x\<rparr>) = pending p s"
  by (simp_all add: sources_ok_def timers_ok_def pending_def)

lemma audio_timers [simp]:
  fixes s :: "'z audio_scheme"
  shows "ae_host_key (fst (later x ms cb s)) = ae_host_key s" "ae_mode (fst (later x ms cb s)) = ae_mode s"
    "ae_host_key (fst (remove_source x s)) = ae_host_key s" "ae_mode (fst (remove_source x s)) = ae_mode s"
    "ae_host_key (without_source x i s) = ae_host_key s" "ae_mode (without_source x i s) = ae_mode s"
  by (simp_all add: later_def glib_add_def remove_source_def without_source_def split: option.splits)

lemmas audio_ops = audio_notify_def audio_refresh_host_def

lemma audio_read_host_sources [keeps_intros]: "keeps (sources_ok audio_cb_name) (audio_read_host env)"
  unfolding audio_read_host_def audio_ops
  by (auto intro!: keeps_intros remove_source_sources_ok later_sources_ok keeps_upd split: prod.splits)

lemma audio_read_host_awake:
  assumes "env_ok env" "\<not> tm_closed s"
  shows "audio_awake (fst (audio_read_host env s))"
proof -
  obtain key remaining where "audio_host_revision (ev_status env) = Ret (key, remaining)"
    using env_ok_revision [OF assms(1)] unfolding audio_host_revision_def by blast
  then show ?thesis
    using assms(2) by (auto simp: audio_read_host_def audio_ops audio_awake_def)
qed

lemma audio_fallback_awake:
  "\<not> tm_closed s \<Longrightarrow> audio_awake s \<Longrightarrow>
   audio_awake (fst (audio_fallback_tick (without_source ''fallback'' ident s)))"
  by (auto simp: audio_fallback_tick_def audio_ops audio_awake_def)

lemma audio_watch_awake:
  assumes "env_ok env" "\<not> tm_closed s"
  shows "audio_awake (fst (audio_watch_status env s))"
  using assms by (simp add: audio_watch_status_def audio_read_host_awake)

lemma audio_closed_mono: "tm_closed s \<Longrightarrow> tm_closed (fst (audio_read_host env s))"
  by (simp add: audio_read_host_def audio_ops closed_later split: outcome.splits prod.splits)

text \<open>What the event source needs of its client: the reconciliation it calls arms timers only under the names of
  their callbacks and leaves the host's revision, the mode and the pending expiry alone.\<close>

locale audio_client =
  fixes changed :: "('z audio_scheme, unit) act"
  assumes changed_sources: "keeps (sources_ok audio_cb_name) changed"
    and changed_awake: "keeps audio_awake changed"
begin

lemma callback_sources: "keeps (sources_ok audio_cb_name) (audio_callback changed env cb)"
  by (cases cb) (auto simp: audio_fallback_tick_def audio_watch_status_def audio_quit_def audio_ops
      intro!: keeps_intros changed_sources remove_source_sources_ok later_sources_ok keeps_upd)

end

sublocale audio_client \<subseteq> source: event_object audio_cb_name "audio_callback changed" env_ok audio_awake
proof
  fix e cb
  assume ok: "env_ok e"
  show "keeps (sources_ok audio_cb_name) (audio_callback changed e cb)" by (rule callback_sources)
  fix s :: "'z audio_scheme" and ident
  assume s: "sources_ok audio_cb_name s" "\<not> tm_closed s" "audio_awake s"
  show "audio_awake (fst (audio_callback changed e cb (without_source (audio_cb_name cb) ident s)))"
  proof (cases cb)
    case AudioReconcile
    moreover have "audio_awake (without_source ''reconcile'' ident s)" using s by (simp add: audio_awake_def)
    ultimately show ?thesis using keepsD [OF changed_awake] by simp
  next
    case (AudioNotify name)
    then show ?thesis using s by (cases name) (simp_all add: audio_awake_def audio_ops)
  next
    case AudioQuit
    then show ?thesis using s by (simp add: audio_awake_def audio_quit_def)
  next
    case AudioRefreshHost
    then show ?thesis using s by (simp add: audio_awake_def audio_ops)
  qed (use s ok in \<open>simp_all add: audio_read_host_awake audio_watch_awake audio_fallback_awake\<close>)
qed

end
