(* ===== verification/Audio_Volume.thy ===== *)
theory Audio_Volume
  imports Pyvalue
begin

text \<open>
  \<^verbatim>\<open>guest/devices/audio_volume.py\<close>: the proxy of the output master gain, which keeps the volume PipeWire shows
  for the public endpoint and the gain of the host device equal (\<^verbatim>\<open>OutputVolume\<close>).

  The Props writes, the host requests and the deadlines it arms are a log; what the write and the request return,
  the two clock readings and Python's reading of a numeral in a string are inputs. Levels are reals: the rounding
  and the overflow of double arithmetic are not modelled, infinities and NaN are where the code lets them in.
\<close>

section \<open>Searching\<close>

text \<open>\<^verbatim>\<open>next((d for d in xs if d[key]), None)\<close>.\<close>

fun first_with :: "string \<Rightarrow> json list \<Rightarrow> json option outcome" where
  "first_with key [] = Ret None"
| "first_with key (d # ds) = bindO (jitem d key) (\<lambda>v. if truthy v then Ret (Some d) else first_with key ds)"

definition default_device :: "string \<Rightarrow> json \<Rightarrow> json option outcome" where
  "default_device key state = bindO (bindO (jitem state ''devices'') iter_items) (first_with key)"

text \<open>Integers that a double can hold.\<close>

definition float_range :: "int \<Rightarrow> bool" where
  "float_range i \<longleftrightarrow> \<bar>i\<bar> < 2 ^ 1024 - 2 ^ 970"

section \<open>Levels\<close>

type_synonym level = "pyfloat list \<times> bool"

definition properties :: "json \<Rightarrow> json outcome" where
  "properties node =
     bindO (jget_or node ''info'' (JDict [])) (\<lambda>info.
     bindO (jget_or info ''params'' (JDict [])) (\<lambda>params.
     bindO (jget_or params ''Props'' (JList [])) (\<lambda>ps.
     bindO (iter_items ps) (\<lambda>items. Ret (case items of [] \<Rightarrow> JDict [] | x # _ \<Rightarrow> x)))))"

definition invalid_volume :: "'a outcome" where
  "invalid_volume = Exc (ValueError ''Invalid PipeWire channel volume'')"

fun level_value :: "json \<Rightarrow> real outcome" where
  "level_value (JInt i) =
     (if \<not> float_range i then Exc (OverflowError ''int too large to convert to float'')
      else if i < 0 then invalid_volume else Ret (of_int i))"
| "level_value (JFloat (Fin x)) = (if x < 0 then invalid_volume else Ret x)"
| "level_value _ = invalid_volume"

definition level_state :: "json \<Rightarrow> (real list \<times> bool) outcome" where
  "level_state props =
     bindO (jget_or props ''channelVolumes'' (JList [])) (\<lambda>levels.
     bindO (iter_items levels) (\<lambda>items.
       if \<not> (1 \<le> length items \<and> length items \<le> 64) then invalid_volume else
       bindO (mapO level_value items) (\<lambda>vs.
       bindO (jget_or props ''mute'' (JBool False)) (\<lambda>m. Ret (vs, truthy m)))))"

fun close_to :: "pyfloat \<Rightarrow> pyfloat \<Rightarrow> bool" where
  "close_to (Fin x) (Fin y) = (\<bar>x - y\<bar> < 1 / 100000)"
| "close_to _ _ = False"

fun equal_levels :: "level option \<Rightarrow> level option \<Rightarrow> bool" where
  "equal_levels (Some (xs, m)) (Some (ys, m')) = (m = m' \<and> length xs = length ys \<and> list_all2 close_to xs ys)"
| "equal_levels _ _ = False"

text \<open>The same comparison for the soft volumes, which nothing has checked to be numbers.\<close>

fun soft_close :: "json \<Rightarrow> pyfloat \<Rightarrow> bool outcome" where
  "soft_close (JInt i) y =
     (if float_range i then Ret (close_to (Fin (of_int i)) y) else Exc (OverflowError ''int too large to convert to float''))"
| "soft_close (JBool b) y = Ret (close_to (Fin (if b then 1 else 0)) y)"
| "soft_close (JFloat x) y = Ret (close_to x y)"
| "soft_close _ y = Exc (TypeError ''unsupported operand type(s) for -'')"

fun all_close :: "json list \<Rightarrow> pyfloat list \<Rightarrow> bool outcome" where
  "all_close (x # xs) (y # ys) = bindO (soft_close x y) (\<lambda>c. if c then all_close xs ys else Ret False)"
| "all_close _ _ = Ret True"

definition equal_soft :: "json list \<times> bool \<Rightarrow> level \<Rightarrow> bool outcome" where
  "equal_soft a b = (if snd a = snd b \<and> length (fst a) = length (fst b) then all_close (fst a) (fst b) else Ret False)"

section \<open>The state and its inputs\<close>

text \<open>\<open>VolDeadline\<close> is \<^verbatim>\<open>later('volume-deadline', ms)\<close>.\<close>

datatype volume_effect =
    VolWrite json "pyfloat list" bool "real list"
  | VolChange json real bool real bool
  | VolDeadline nat

record output_volume =
  ov_key :: "(json \<times> json) option"
  ov_host :: "(pyfloat \<times> bool) option"
  ov_observed :: "level option"
  ov_pending :: "(level \<times> level \<times> time) option"
  ov_balance :: "real list option"
  ov_log :: "volume_effect list"

record volume_inputs =
  vi_float :: "string \<Rightarrow> pyfloat outcome"
  vi_write :: "unit outcome"
  vi_change :: "json outcome"
  vi_clock :: time
  vi_clock_after :: time

definition volume_new :: output_volume where
  "volume_new = \<lparr>ov_key = None, ov_host = None, ov_observed = None, ov_pending = None, ov_balance = None, ov_log = []\<rparr>"

definition volume_reset :: "(output_volume, unit) act" where
  "volume_reset =
     updA (\<lambda>v. v\<lparr>ov_key := None, ov_host := None, ov_observed := None, ov_pending := None, ov_balance := None\<rparr>)"

definition vol_effect :: "volume_effect \<Rightarrow> (output_volume, unit) act" where
  "vol_effect eff = updA (\<lambda>v. v\<lparr>ov_log := ov_log v @ [eff]\<rparr>)"

definition volume_write :: "volume_inputs \<Rightarrow> json \<Rightarrow> pyfloat list \<Rightarrow> bool \<Rightarrow> real list \<Rightarrow> (output_volume, unit) act" where
  "volume_write inp ident levels muted software =
     thenA (vol_effect (VolWrite ident levels muted software)) (liftA (vi_write inp))"

section \<open>Operations\<close>

definition volume_fallback :: "volume_inputs \<Rightarrow> json option \<Rightarrow> (output_volume, unit) act" where
  "volume_fallback inp node =
     thenA
       (bindA (getA ov_key) (\<lambda>key.
          case node of
            Some n \<Rightarrow>
              if key = None then retA () else
              bindA (liftA (bindO (properties n) level_state)) (\<lambda>(levels, muted).
              bindA (liftA (jitem n ''id'')) (\<lambda>ident.
                volume_write inp ident (map Fin levels) muted levels))
          | None \<Rightarrow> retA ()))
       volume_reset"

fun py_float :: "volume_inputs \<Rightarrow> json \<Rightarrow> pyfloat outcome" where
  "py_float inp (JFloat x) = Ret x"
| "py_float inp (JInt i) = (if float_range i then Ret (Fin (of_int i)) else Exc (OverflowError ''int too large to convert to float''))"
| "py_float inp (JBool b) = Ret (Fin (if b then 1 else 0))"
| "py_float inp (JStr s) = vi_float inp s"
| "py_float inp _ = Exc (TypeError ''float() argument must be a string or a real number'')"

definition host_level :: "volume_inputs \<Rightarrow> json \<Rightarrow> (pyfloat \<times> bool) outcome" where
  "host_level inp profile =
     bindO (bindO (jitem profile ''level'') (py_float inp)) (\<lambda>level.
     bindO (jitem profile ''muted'') (\<lambda>muted. Ret (level, truthy muted)))"

fun checked_level :: "pyfloat \<times> bool \<Rightarrow> (real \<times> bool) outcome" where
  "checked_level (Fin x, m) =
     (if 0 \<le> x \<and> x \<le> 1 then Ret (x, m) else Exc (ValueError ''Invalid host output volume''))"
| "checked_level _ = Exc (ValueError ''Invalid host output volume'')"

definition same_host :: "real \<times> bool \<Rightarrow> (pyfloat \<times> bool) option \<Rightarrow> bool" where
  "same_host host old = (case old of None \<Rightarrow> False | Some (x, m) \<Rightarrow> num_eq (Fin (fst host)) x \<and> snd host = m)"

fun same_key :: "(json \<times> json) option \<Rightarrow> json \<times> json \<Rightarrow> bool" where
  "same_key None key = False"
| "same_key (Some (u, i)) key = (py_eq u (fst key) \<and> py_eq i (snd key))"

text \<open>A new device or node: forget everything and take the balance from the channels.\<close>

definition volume_fresh :: "json \<times> json \<Rightarrow> real list \<Rightarrow> (output_volume, bool) act" where
  "volume_fresh key levels =
     bindA (getA (\<lambda>v. \<not> same_key (ov_key v) key)) (\<lambda>fresh.
       if fresh then
         thenA volume_reset
         (thenA (updA (\<lambda>v. v\<lparr>ov_key := Some key,
             ov_balance := Some (map (\<lambda>x. if Max (set levels) \<noteq> 0 then x / Max (set levels) else 1) levels)\<rparr>))
          (retA True))
       else retA False)"

text \<open>What the outstanding write says of the levels seen: \<open>None\<close> when they are only not there yet, and otherwise
  whether its echo is missing.\<close>

definition volume_pending :: "volume_inputs \<Rightarrow> real \<times> bool \<Rightarrow> level \<Rightarrow> (output_volume, bool option) act" where
  "volume_pending inp host actual =
     bindA (getA ov_pending) (\<lambda>pend.
       case pend of
         None \<Rightarrow> retA (Some False)
       | Some (before, wanted, deadline) \<Rightarrow>
           if equal_levels (Some actual) (Some wanted) then thenA (updA (\<lambda>v. v\<lparr>ov_pending := None\<rparr>)) (retA (Some False))
           else if equal_levels (Some actual) (Some before) then
             bindA (getA (\<lambda>v. same_host host (ov_host v))) (\<lambda>same.
               if same \<and> vi_clock inp < deadline then retA None
               else thenA (updA (\<lambda>v. v\<lparr>ov_pending := None\<rparr>)) (retA (Some True)))
           else thenA (updA (\<lambda>v. v\<lparr>ov_pending := None\<rparr>)) (retA (Some False)))"

text \<open>The user moved the slider: tell the host, and read its answer. \<open>Inl\<close> is the value that \<^verbatim>\<open>reconcile\<close> returns
  there, \<open>Inr\<close> the host's new level and reply.\<close>

definition volume_answer :: "volume_inputs \<Rightarrow> json \<Rightarrow> json \<Rightarrow> (output_volume, json + (pyfloat \<times> bool) \<times> json) act" where
  "volume_answer inp node uid =
     bindA (liftA (vi_change inp)) (\<lambda>result.
     bindA (liftA (default_device ''defaultOutput'' result)) (\<lambda>active.
     bindA (liftA (case active of None \<Rightarrow> Ret False | Some a \<Rightarrow> bindO (jitem a ''uid'') (\<lambda>u. Ret (py_eq u uid)))) (\<lambda>same.
       case (if same then active else None) of
         None \<Rightarrow> thenA (volume_fallback inp (Some node)) (retA (Inl result))
       | Some a \<Rightarrow>
           bindA (liftA (jget a ''outputVolume'')) (\<lambda>profile.
             if profile = JNull then thenA (volume_fallback inp (Some node)) (retA (Inl result))
             else bindA (liftA (host_level inp profile)) (\<lambda>host'. retA (Inr (host', result)))))))"

definition volume_push :: "volume_inputs \<Rightarrow> json \<Rightarrow> json \<Rightarrow> real \<times> bool \<Rightarrow> real list \<times> bool \<Rightarrow>
    (output_volume, json + (pyfloat \<times> bool) \<times> json) act" where
  "volume_push inp device node host act =
     (let maximum = Max (set (fst act)) in
      bindA (getA ov_balance) (\<lambda>bal.
      bindA (liftA (case bal of None \<Rightarrow> Exc (TypeError ''NoneType is not iterable'') | Some b \<Rightarrow> Ret b)) (\<lambda>balance.
      thenA (updA (\<lambda>v. v\<lparr>ov_balance := Some (map2 (\<lambda>x b. if maximum \<noteq> 0 then x / maximum else b) (fst act) balance)\<rparr>))
      (bindA (liftA (jitem device ''uid'')) (\<lambda>uid.
       thenA (vol_effect (VolChange uid (min 1 (maximum powr (1 / 3))) (snd act) (fst host) (snd host)))
             (volume_answer inp node uid))))))"

fun cube_scale :: "pyfloat \<Rightarrow> real \<Rightarrow> pyfloat" where
  "cube_scale (Fin h) b = Fin (h ^ 3 * b)"
| "cube_scale PosInf b = (if b = 0 then NaN else if b < 0 then NegInf else PosInf)"
| "cube_scale NegInf b = (if b = 0 then NaN else if b < 0 then PosInf else NegInf)"
| "cube_scale NaN b = NaN"

definition volume_show :: "volume_inputs \<Rightarrow> json \<Rightarrow> json \<Rightarrow> level \<Rightarrow> pyfloat \<times> bool \<Rightarrow> (output_volume, unit) act" where
  "volume_show inp node props actual host =
     bindA (getA ov_balance) (\<lambda>bal.
     bindA (liftA (case bal of None \<Rightarrow> Exc (TypeError ''NoneType is not iterable'') | Some b \<Rightarrow> Ret b)) (\<lambda>balance.
     let wanted = (map (cube_scale (fst host)) balance, snd host) in
     bindA (liftA (bindO (bindO (jget_or props ''softVolumes'' (JList [])) iter_items) (\<lambda>soft.
                   bindO (jget_or props ''softMute'' (JBool False)) (\<lambda>m. Ret (soft, truthy m))))) (\<lambda>soft.
     bindA (liftA (if \<not> equal_levels (Some actual) (Some wanted) then Ret True
                   else bindO (equal_soft soft (map Fin balance, snd wanted)) (\<lambda>eq. Ret (\<not> eq)))) (\<lambda>differs.
     thenA (if differs then
              bindA (liftA (jitem node ''id'')) (\<lambda>ident.
              thenA (volume_write inp ident (fst wanted) (snd wanted) balance)
              (thenA (updA (\<lambda>v. v\<lparr>ov_pending := Some (actual, wanted, vi_clock_after inp + 2)\<rparr>))
                     (vol_effect (VolDeadline 2100))))
            else retA ())
       (updA (\<lambda>v. v\<lparr>ov_host := Some host, ov_observed := Some wanted\<rparr>))))))"

definition volume_sync :: "volume_inputs \<Rightarrow> json \<Rightarrow> json \<Rightarrow> real \<times> bool \<Rightarrow> json \<Rightarrow> real list \<times> bool \<Rightarrow> (output_volume, json option) act" where
  "volume_sync inp device node host props act =
     (let actual = (map Fin (fst act), snd act) in
      bindA (liftA (jitem device ''uid'')) (\<lambda>uid.
      bindA (liftA (jitem node ''id'')) (\<lambda>ident.
      bindA (volume_fresh (uid, ident) (fst act)) (\<lambda>fresh.
      bindA (volume_pending inp host actual) (\<lambda>echo.
        case echo of
          None \<Rightarrow> retA None
        | Some stale \<Rightarrow>
            bindA (getA (\<lambda>v. \<not> fresh \<and> \<not> stale \<and> same_host host (ov_host v) \<and> \<not> equal_levels (Some actual) (ov_observed v))) (\<lambda>moved.
              if moved then
                bindA (volume_push inp device node host act) (\<lambda>r.
                  case r of
                    Inl result \<Rightarrow> retA (Some result)
                  | Inr (host', result) \<Rightarrow> thenA (volume_show inp node props actual host') (retA (Some result)))
              else thenA (volume_show inp node props actual (Fin (fst host), snd host)) (retA None)))))))"

definition volume_reconcile :: "volume_inputs \<Rightarrow> json \<Rightarrow> json \<Rightarrow> (output_volume, json option) act" where
  "volume_reconcile inp device node =
     bindA (liftA (jget device ''outputVolume'')) (\<lambda>profile.
       if profile = JNull then thenA (volume_fallback inp (Some node)) (retA None)
       else
         bindA (liftA (bindO (host_level inp profile) checked_level)) (\<lambda>host.
         bindA (liftA (properties node)) (\<lambda>props.
         bindA (liftA (level_state props)) (\<lambda>act. volume_sync inp device node host props act))))"

section \<open>The levels that are read\<close>

lemma level_value_nonneg: "level_value v = Ret x \<Longrightarrow> 0 \<le> x"
  by (cases v rule: level_value.cases) (auto simp: invalid_volume_def split: if_splits)

lemma level_state_levels:
  assumes "level_state props = Ret (ls, m)"
  shows "ls \<noteq> []" "length ls \<le> 64" "\<And>x. x \<in> set ls \<Longrightarrow> 0 \<le> x"
proof -
  obtain items where items: "1 \<le> length items" "length items \<le> 64" "mapO level_value items = Ret ls"
    using assms by (auto simp: level_state_def invalid_volume_def split: if_splits)
  have len: "length ls = length items" using mapO_length [OF items(3)] .
  show "ls \<noteq> []" "length ls \<le> 64" using len items(1,2) by auto
  show "x \<in> set ls \<Longrightarrow> 0 \<le> x" for x using mapO_set [OF items(3)] level_value_nonneg by blast
qed

lemma max_nonneg: "xs \<noteq> [] \<Longrightarrow> (\<And>x. x \<in> set xs \<Longrightarrow> 0 \<le> x) \<Longrightarrow> 0 \<le> (Max (set xs) :: real)"
  by (cases xs) (auto simp: Max_ge_iff)

lemma close_refl: "equal_levels (Some (map Fin xs, m)) (Some (map Fin xs, m))"
  by (simp add: list_all2_same)

declare equal_levels.simps [simp del]

lemma checked_level_bounds: "checked_level p = Ret (x, m) \<Longrightarrow> p = (Fin x, m) \<and> 0 \<le> x \<and> x \<le> 1"
  by (cases p rule: checked_level.cases) (auto split: if_splits)

section \<open>What an operation leaves\<close>

definition vol_blank :: "output_volume \<Rightarrow> bool" where
  "vol_blank v \<longleftrightarrow> ov_key v = None \<and> ov_host v = None \<and> ov_observed v = None \<and> ov_pending v = None \<and> ov_balance v = None"

definition vol_inv :: "output_volume \<Rightarrow> bool" where
  "vol_inv v \<longleftrightarrow> vol_blank v \<or> (ov_key v \<noteq> None \<and>
     (\<exists>b h m. ov_balance v = Some b \<and> ov_host v = Some (h, m) \<and> ov_observed v = Some (map (cube_scale h) b, m) \<and>
       (\<forall>before wanted deadline. ov_pending v = Some (before, wanted, deadline) \<longrightarrow> ov_observed v = Some wanted)))"

lemma vol_blank_inv: "vol_blank v \<Longrightarrow> vol_inv v"
  by (simp add: vol_inv_def)

lemma volume_reset_blank: "vol_blank (fst (volume_reset v))"
  by (simp add: volume_reset_def vol_blank_def)

lemma volume_fallback_blank: "volume_fallback inp node v = (v', Ret ()) \<Longrightarrow> vol_blank v'"
  using volume_reset_blank by (auto simp: volume_fallback_def thenA_eq_Ret simp del: act_at) (metis fst_conv)

lemma volume_show_cases:
  assumes "volume_show inp node props actual host v = (v', Ret ())"
  obtains b w where "ov_balance v = Some b" "w = v \<or> (\<exists>lg d. w = v\<lparr>ov_pending := Some (actual, (map (cube_scale (fst host)) b, snd host), d), ov_log := lg\<rparr>)"
    "v' = w\<lparr>ov_host := Some host, ov_observed := Some (map (cube_scale (fst host)) b, snd host)\<rparr>"
proof (cases "ov_balance v")
  case None
  then show thesis using assms by (simp add: volume_show_def)
next
  case (Some b)
  let ?wanted = "(map (cube_scale (fst host)) b, snd host)"
  obtain soft where soft: "bindO (bindO (jget_or props ''softVolumes'' (JList [])) iter_items) (\<lambda>soft.
      bindO (jget_or props ''softMute'' (JBool False)) (\<lambda>m. Ret (soft, truthy m))) = Ret soft"
    using assms Some by (fastforce simp: volume_show_def Let_def simp del: bindO_eq_Ret split: outcome.splits)
  have at: "volume_show inp node props actual host v =
      bindA (liftA (if \<not> equal_levels (Some actual) (Some ?wanted) then Ret True
                   else bindO (equal_soft soft (map Fin b, snd ?wanted)) (\<lambda>eq. Ret (\<not> eq)))) (\<lambda>differs.
      thenA (if differs then
              bindA (liftA (jitem node ''id'')) (\<lambda>ident.
              thenA (volume_write inp ident (fst ?wanted) (snd ?wanted) b)
              (thenA (updA (\<lambda>v. v\<lparr>ov_pending := Some (actual, ?wanted, vi_clock_after inp + 2)\<rparr>))
                     (vol_effect (VolDeadline 2100))))
            else retA ())
       (updA (\<lambda>v. v\<lparr>ov_host := Some host, ov_observed := Some ?wanted\<rparr>))) v"
    using soft Some by (simp add: volume_show_def Let_def del: bindO_eq_Ret)
  obtain x w where w: "v' = w\<lparr>ov_host := Some host, ov_observed := Some ?wanted\<rparr>"
    and x: "(if x then
              bindA (liftA (jitem node ''id'')) (\<lambda>ident.
              thenA (volume_write inp ident (fst ?wanted) (snd ?wanted) b)
              (thenA (updA (\<lambda>v. v\<lparr>ov_pending := Some (actual, ?wanted, vi_clock_after inp + 2)\<rparr>))
                     (vol_effect (VolDeadline 2100))))
            else retA ()) v = (w, Ret ())"
    using assms unfolding at by (auto simp: bindA_eq_Ret thenA_eq_Ret simp del: act_at(2) split del: if_split)
  have "w = v \<or> (\<exists>lg d. w = v\<lparr>ov_pending := Some (actual, ?wanted, d), ov_log := lg\<rparr>)"
    using x by (cases x) (auto simp: volume_write_def vol_effect_def bindA_eq_Ret thenA_eq_Ret simp del: act_at(2))
  with w show thesis using that Some by blast
qed

lemma volume_show_Ret:
  assumes "volume_show inp node props actual host v = (v', Ret ())"
  shows "ov_key v' = ov_key v"
    "\<exists>b. ov_balance v' = Some b \<and> ov_host v' = Some host \<and> ov_observed v' = Some (map (cube_scale (fst host)) b, snd host)"
    "ov_pending v = None \<Longrightarrow> ov_pending v' = Some (before, wanted, deadline) \<Longrightarrow> ov_observed v' = Some wanted"
  using assms by (auto elim!: volume_show_cases)

lemma volume_answer_Ret:
  assumes "volume_answer inp node uid v = (v', Ret r)"
  shows "case r of Inl _ \<Rightarrow> vol_blank v' | Inr _ \<Rightarrow> ov_key v' = ov_key v \<and> ov_pending v' = ov_pending v"
  using assms volume_fallback_blank
  by (auto simp: volume_answer_def bindA_eq_Ret thenA_eq_Ret retA_def simp del: act_at split: option.splits if_splits)

definition vol_pushed :: "json \<Rightarrow> real \<times> bool \<Rightarrow> real list \<times> bool \<Rightarrow> volume_effect" where
  "vol_pushed uid host act =
     VolChange uid (min 1 (Max (set (fst act)) powr (1 / 3))) (snd act) (fst host) (snd host)"

lemma volume_push_cases:
  assumes "volume_push inp device node host act v = (w, r)"
  obtains "ov_log w = ov_log v" "\<nexists>x. r = Ret x"
  | uid u where "jitem device ''uid'' = Ret uid" "ov_key u = ov_key v" "ov_pending u = ov_pending v" "ov_log u = ov_log v @ [vol_pushed uid host act]"
      "volume_answer inp node uid u = (w, r)"
proof (cases "ov_balance v")
  case None
  then show thesis using assms that(1) by (auto simp: volume_push_def Let_def)
next
  case (Some b)
  show thesis
  proof (cases "jitem device ''uid''")
    case (Ret uid)
    then show thesis using assms Some that(2) [OF Ret, of "v\<lparr>ov_balance := Some (map2 (\<lambda>x b. if Max (set (fst act)) \<noteq> 0 then x / Max (set (fst act)) else b) (fst act) b),
        ov_log := ov_log v @ [vol_pushed uid host act]\<rparr>"]
      by (simp add: volume_push_def Let_def vol_effect_def vol_pushed_def)
  qed (use assms Some that(1) in \<open>auto simp: volume_push_def Let_def\<close>)
qed

lemma volume_push_Ret:
  assumes "volume_push inp device node host act v = (v', Ret r)"
  shows "case r of Inl _ \<Rightarrow> vol_blank v' | Inr _ \<Rightarrow> ov_key v' = ov_key v \<and> ov_pending v' = ov_pending v"
  using assms by (rule volume_push_cases) (auto dest!: volume_answer_Ret split: sum.splits)

lemma volume_fresh_cases:
  assumes "volume_fresh key ls v = (w, Ret fresh)"
  obtains "fresh" "ov_key w = Some key" "ov_pending w = None"
  | "\<not> fresh" "w = v" "ov_key v \<noteq> None" "same_key (ov_key v) key"
  using assms by (auto simp: volume_fresh_def volume_reset_def bindA_eq_Ret thenA_eq_Ret split: if_splits)
    (cases "ov_key v"; auto)

lemma volume_pending_cases:
  assumes "volume_pending inp host actual v = (w, Ret echo)"
  obtains "w = v\<lparr>ov_pending := None\<rparr>" "echo \<noteq> None" | "w = v" "ov_pending v = None" "echo = Some False" | "w = v" "echo = None" "ov_pending v \<noteq> None"
  using assms by (auto simp: volume_pending_def split: option.splits if_splits prod.splits)

lemma volume_sync_inv:
  assumes "volume_sync inp device node host props act v = (v', Ret r)" "vol_inv v"
  shows "vol_inv v'"
proof -
  let ?actual = "(map Fin (fst act), snd act)"
  obtain uid ident fresh w echo u where ops: "volume_fresh (uid, ident) (fst act) v = (w, Ret fresh)"
      "volume_pending inp host ?actual w = (u, Ret echo)"
    and rest: "(case echo of None \<Rightarrow> retA None
        | Some stale \<Rightarrow>
            bindA (getA (\<lambda>v. \<not> fresh \<and> \<not> stale \<and> same_host host (ov_host v) \<and> \<not> equal_levels (Some ?actual) (ov_observed v))) (\<lambda>moved.
              if moved then
                bindA (volume_push inp device node host act) (\<lambda>r.
                  case r of
                    Inl result \<Rightarrow> retA (Some result)
                  | Inr (host', result) \<Rightarrow> thenA (volume_show inp node props ?actual host') (retA (Some result)))
              else thenA (volume_show inp node props ?actual (Fin (fst host), snd host)) (retA None))) u = (v', Ret r)"
    using assms(1) unfolding volume_sync_def Let_def by (auto simp: bindA_eq_Ret simp del: act_at)
  have key: "ov_key u = ov_key w" using ops(2) by (rule volume_pending_cases) auto
  have keyed: "ov_key w \<noteq> None" using ops(1) by (rule volume_fresh_cases) auto
  have shown: "vol_inv v''" if sh: "volume_show inp node props ?actual h t = (v'', Ret ())" and k: "ov_key t \<noteq> None" "ov_pending t = None" for h t v''
    using volume_show_Ret(1,2) [OF sh] volume_show_Ret(3) [OF sh k(2)] k(1) unfolding vol_inv_def by (metis prod.collapse)
  show ?thesis
  proof (cases echo)
    case None
    then have "v' = u" using rest by (simp add: retA_def)
    have "u = w" "ov_pending w \<noteq> None" using ops(2) None by (auto elim: volume_pending_cases)
    moreover from ops(1) this(2) have "w = v" by (auto elim: volume_fresh_cases)
    ultimately show ?thesis using assms(2) \<open>v' = u\<close> by simp
  next
    case (Some stale)
    consider (push) x where "volume_push inp device node host act u = (v', Ret (Inl x))"
      | (display) t h where "ov_key t = ov_key u" "ov_pending t = ov_pending u" "volume_show inp node props ?actual h t = (v', Ret ())"
    proof (cases "\<not> fresh \<and> \<not> stale \<and> same_host host (ov_host u) \<and> \<not> equal_levels (Some ?actual) (ov_observed u)")
      case True
      then obtain t x where t: "volume_push inp device node host act u = (t, Ret x)"
        and x: "(case x of Inl result \<Rightarrow> retA (Some result)
          | Inr (host', result) \<Rightarrow> thenA (volume_show inp node props ?actual host') (retA (Some result))) t = (v', Ret r)"
        using rest Some by (auto simp: bindA_eq_Ret)
      show thesis
      proof (cases x)
        case (Inl result)
        then show thesis using t x push by simp
      next
        case (Inr y)
        then show thesis using x volume_push_Ret [OF t] display by (auto simp: thenA_eq_Ret split: prod.splits)
      qed
    next
      case False
      then show thesis using rest Some display by (auto simp: thenA_eq_Ret)
    qed
    then show ?thesis
    proof cases
      case push
      then show ?thesis using volume_push_Ret [OF push] by (simp add: vol_inv_def)
    next
      case display
      have "ov_pending u = None" using ops(2) Some by (auto elim: volume_pending_cases)
      then show ?thesis using shown [OF display(3)] display(1,2) keyed key by simp
    qed
  qed
qed

lemma volume_reconcile_inv: "volume_reconcile inp device node v = (v', Ret r) \<Longrightarrow> vol_inv v \<Longrightarrow> vol_inv v'"
  using volume_sync_inv volume_fallback_blank vol_blank_inv
  by (auto simp: volume_reconcile_def bindA_eq_Ret thenA_eq_Ret retA_def simp del: act_at split: if_splits) 

section \<open>What is told to the host\<close>

fun vol_is_change :: "volume_effect \<Rightarrow> bool" where
  "vol_is_change (VolChange _ _ _ _ _) = True"
| "vol_is_change _ = False"

definition vol_changes :: "output_volume \<Rightarrow> volume_effect list" where
  "vol_changes v = filter vol_is_change (ov_log v)"

lemma vol_upd_quiet: "(\<And>v. ov_log (f v) = ov_log v) \<Longrightarrow> keeps (\<lambda>v. vol_changes v = L) (updA f)"
  by (simp add: vol_changes_def keeps_def)

lemma vol_effect_quiet: "\<not> vol_is_change eff \<Longrightarrow> keeps (\<lambda>v. vol_changes v = L) (vol_effect eff)"
  by (simp add: vol_effect_def vol_changes_def keeps_def)

lemma volume_reset_quiet: "keeps (\<lambda>v. vol_changes v = L) volume_reset"
  by (simp add: volume_reset_def vol_changes_def keeps_def)

lemma volume_write_quiet: "keeps (\<lambda>v. vol_changes v = L) (volume_write inp ident ls m sw)"
  unfolding volume_write_def by (intro keeps_intros vol_effect_quiet) simp

lemma volume_fallback_quiet: "keeps (\<lambda>v. vol_changes v = L) (volume_fallback inp node)"
  unfolding volume_fallback_def
  by (auto intro!: keeps_intros volume_write_quiet volume_reset_quiet split: option.splits)

lemma volume_show_quiet: "keeps (\<lambda>v. vol_changes v = L) (volume_show inp node props actual host)"
  unfolding volume_show_def Let_def
  by (auto intro!: keeps_intros volume_write_quiet vol_effect_quiet vol_upd_quiet)

lemma volume_fresh_quiet: "keeps (\<lambda>v. vol_changes v = L) (volume_fresh key ls)"
  unfolding volume_fresh_def by (auto intro!: keeps_intros volume_reset_quiet vol_upd_quiet)

lemma volume_pending_quiet: "keeps (\<lambda>v. vol_changes v = L) (volume_pending inp host actual)"
  unfolding volume_pending_def by (auto intro!: keeps_intros vol_upd_quiet split: option.splits)

lemma volume_answer_quiet: "keeps (\<lambda>v. vol_changes v = L) (volume_answer inp node uid)"
  unfolding volume_answer_def by (auto intro!: keeps_intros volume_fallback_quiet split: option.splits)

lemma volume_push_changes:
  assumes "volume_push inp device node host act v = (w, r)"
  shows "vol_changes w = vol_changes v \<or>
    (\<exists>uid. jitem device ''uid'' = Ret uid \<and> vol_changes w = vol_changes v @ [vol_pushed uid host act])"
  using assms
proof (rule volume_push_cases)
  fix uid u
  assume u: "jitem device ''uid'' = Ret uid" "ov_log u = ov_log v @ [vol_pushed uid host act]" "volume_answer inp node uid u = (w, r)"
  have "vol_changes u = vol_changes v @ [vol_pushed uid host act]" using u(2) by (simp add: vol_changes_def vol_pushed_def)
  then show ?thesis using u(1) keepsD [OF volume_answer_quiet, of u _ inp node uid] u(3) by simp
qed (simp add: vol_changes_def)

lemma volume_fresh_Ret: "\<exists>w fresh. volume_fresh key ls v = (w, Ret fresh)"
  by (auto simp: volume_fresh_def volume_reset_def)

lemma volume_pending_Ret: "\<exists>u echo. volume_pending inp host actual v = (u, Ret echo)"
  by (simp add: volume_pending_def split: option.splits)

lemma volume_pending_echo:
  assumes "volume_pending inp host actual v = (u, Ret (Some False))" "ov_pending v = Some (before, wanted, deadline)"
  shows "equal_levels (Some actual) (Some wanted) \<or> \<not> equal_levels (Some actual) (Some before)"
  using assms by (auto simp: volume_pending_def split: if_splits)

lemma bindA_quiet:
  assumes "bindA m f s = (t, r)" "m s = (u, x)" "\<And>y. keeps (\<lambda>v. vol_changes v = vol_changes u) (f y)"
  shows "vol_changes t = vol_changes u"
  using assms(1,2) keepsD [OF assms(3)] by (auto simp: bindA_def split: outcome.splits) (metis fst_conv)

lemma volume_sync_changes:
  assumes "volume_sync inp device node host props act v = (v', r)" "vol_changes v' \<noteq> vol_changes v"
  obtains uid ident where "jitem device ''uid'' = Ret uid" "jitem node ''id'' = Ret ident"
    "vol_changes v' = vol_changes v @ [vol_pushed uid host act]"
    "same_key (ov_key v) (uid, ident)" "same_host host (ov_host v)"
    "\<not> equal_levels (Some (map Fin (fst act), snd act)) (ov_observed v)"
    "\<forall>before wanted deadline. ov_pending v = Some (before, wanted, deadline) \<longrightarrow>
       equal_levels (Some (map Fin (fst act), snd act)) (Some wanted) \<or>
       \<not> equal_levels (Some (map Fin (fst act), snd act)) (Some before)"
proof -
  let ?actual = "(map Fin (fst act), snd act)"
  have no: False if "v' = v" using that assms(2) by simp
  obtain uid where uid: "jitem device ''uid'' = Ret uid"
    using assms(1) no by (cases "jitem device ''uid''") (auto simp: volume_sync_def Let_def)
  obtain ident where ident: "jitem node ''id'' = Ret ident"
    using assms(1) no uid by (cases "jitem node ''id''") (auto simp: volume_sync_def Let_def)
  obtain w fresh where w: "volume_fresh (uid, ident) (fst act) v = (w, Ret fresh)" using volume_fresh_Ret by blast
  obtain u echo where u: "volume_pending inp host ?actual w = (u, Ret echo)" using volume_pending_Ret by blast
  have same: "vol_changes u = vol_changes v"
    using keepsD [OF volume_fresh_quiet, of v _ "(uid, ident)" "fst act"] keepsD [OF volume_pending_quiet, of w _ inp host ?actual] w u
    by simp
  let ?next = "\<lambda>r. case r of Inl result \<Rightarrow> retA (Some result)
      | Inr (host', result) \<Rightarrow> thenA (volume_show inp node props ?actual host') (retA (Some result))"
  define moved where "moved stale \<longleftrightarrow> \<not> fresh \<and> \<not> stale \<and> same_host host (ov_host u) \<and> \<not> equal_levels (Some ?actual) (ov_observed u)" for stale
  have rest: "(case echo of None \<Rightarrow> retA None
        | Some stale \<Rightarrow> if moved stale then bindA (volume_push inp device node host act) ?next
            else thenA (volume_show inp node props ?actual (Fin (fst host), snd host)) (retA None)) u = (v', r)"
    using assms(1) w u
    by (cases echo) (simp_all add: volume_sync_def Let_def uid ident moved_def bindA_def [of "volume_fresh _ _"] bindA_def [of "volume_pending _ _ _"])
  have quiet: "keeps (\<lambda>v. vol_changes v = L) (thenA (volume_show inp node props ?actual h) (retA x))" for h and x :: "json option" and L
    by (intro keeps_intros volume_show_quiet)
  obtain stale where echo: "echo = Some stale" using rest same assms(2) by (cases echo) auto
  have m: "moved stale"
  proof (rule ccontr)
    assume "\<not> moved stale"
    then have "vol_changes v' = vol_changes u"
      using rest echo keepsD [OF quiet [of "vol_changes u" "(Fin (fst host), snd host)" None], of u] by simp
    then show False using same assms(2) by simp
  qed
  obtain t x where t: "volume_push inp device node host act u = (t, x)" by (cases "volume_push inp device node host act u")
  have "vol_changes v' = vol_changes t"
  proof (rule bindA_quiet [where m = "volume_push inp device node host act" and f = ?next, OF _ t])
    show "bindA (volume_push inp device node host act) ?next u = (v', r)" using rest echo m by simp
    show "keeps (\<lambda>v. vol_changes v = vol_changes t) (?next y)" for y
      by (auto intro!: keeps_intros volume_show_quiet split: sum.splits)
  qed
  then have pushed: "vol_changes v' = vol_changes v @ [vol_pushed uid host act]"
    using volume_push_changes [OF t] assms(2) same uid by auto
  have wv: "w = v" "same_key (ov_key v) (uid, ident)" using w m by (auto simp: moved_def elim: volume_fresh_cases)
  have "ov_host u = ov_host v" "ov_observed u = ov_observed v" using u wv by (auto elim: volume_pending_cases)
  with m have mv: "same_host host (ov_host v)" "\<not> equal_levels (Some ?actual) (ov_observed v)" "\<not> stale"
    by (simp_all add: moved_def)
  have "\<forall>before wanted deadline. ov_pending v = Some (before, wanted, deadline) \<longrightarrow>
      equal_levels (Some ?actual) (Some wanted) \<or> \<not> equal_levels (Some ?actual) (Some before)"
    using volume_pending_echo [of inp host ?actual v u] u echo mv(3) wv(1) by fastforce
  then show thesis by (rule that [OF uid ident pushed wv(2) mv(1,2)])
qed

text \<open>C17: the host is asked to change its volume at most once per reconciliation, and only for a choice of the user: the
  endpoint is the one already followed, the host's level is what it was at the last synchronization, the level shown
  differs from the one last written, and it is not just the level from before a write whose echo is missing. The
  request names the level it replaces, and the level asked for is between 0 and 1.\<close>

theorem volume_change_justified:
  assumes "volume_reconcile inp device node v = (v', r)" "vol_changes v' \<noteq> vol_changes v"
  shows "\<exists>uid ident props ls m level host hm.
    vol_changes v' = vol_changes v @ [VolChange uid level m host hm] \<and>
    properties node = Ret props \<and> level_state props = Ret (ls, m) \<and>
    same_key (ov_key v) (uid, ident) \<and> same_host (host, hm) (ov_host v) \<and>
    \<not> equal_levels (Some (map Fin ls, m)) (ov_observed v) \<and>
    (\<forall>before wanted deadline. ov_pending v = Some (before, wanted, deadline) \<longrightarrow>
       equal_levels (Some (map Fin ls, m)) (Some wanted) \<or> \<not> equal_levels (Some (map Fin ls, m)) (Some before)) \<and>
    0 \<le> level \<and> level \<le> 1 \<and> 0 \<le> host \<and> host \<le> 1"
proof -
  have no: False if "v' = v" using that assms(2) by simp
  obtain profile where profile: "jget device ''outputVolume'' = Ret profile"
    using assms(1) no by (cases "jget device ''outputVolume''") (auto simp: volume_reconcile_def)
  have some: "profile \<noteq> JNull"
  proof
    assume "profile = JNull"
    then have "thenA (volume_fallback inp (Some node)) (retA None) v = (v', r)"
      using assms(1) profile by (simp add: volume_reconcile_def)
    moreover have "keeps (\<lambda>w. vol_changes w = vol_changes v) (thenA (volume_fallback inp (Some node)) (retA None :: (_, json option) act))"
      by (intro keeps_intros volume_fallback_quiet)
    ultimately show False using keepsD assms(2) by (metis (mono_tags, lifting) fst_conv)
  qed
  obtain host hm where host: "bindO (host_level inp profile) checked_level = Ret (host, hm)"
    using assms(1) no profile some by (cases "bindO (host_level inp profile) checked_level") (auto simp: volume_reconcile_def)
  obtain props where props: "properties node = Ret props"
    using assms(1) no profile some host by (cases "properties node") (auto simp: volume_reconcile_def)
  obtain ls m where ls: "level_state props = Ret (ls, m)"
    using assms(1) no profile some host props by (cases "level_state props") (auto simp: volume_reconcile_def)
  have sync: "volume_sync inp device node (host, hm) props (ls, m) v = (v', r)"
    using assms(1) profile some host props ls by (simp add: volume_reconcile_def)
  have bounds: "0 \<le> host" "host \<le> 1" using host checked_level_bounds by auto
  have "0 \<le> Max (set ls)" using level_state_levels [OF ls] max_nonneg by blast
  then have level: "0 \<le> min 1 (Max (set ls) powr (1 / 3))" "min 1 (Max (set ls) powr (1 / 3)) \<le> 1" by simp_all
  show ?thesis
  proof (rule volume_sync_changes [where act = "(ls, m)", unfolded fst_conv snd_conv, OF sync assms(2)])
    fix uid ident
    assume c: "jitem device ''uid'' = Ret uid" "jitem node ''id'' = Ret ident"
      "vol_changes v' = vol_changes v @ [vol_pushed uid (host, hm) (ls, m)]"
      "same_key (ov_key v) (uid, ident)" "same_host (host, hm) (ov_host v)" "\<not> equal_levels (Some (map Fin ls, m)) (ov_observed v)"
      "\<forall>before wanted deadline. ov_pending v = Some (before, wanted, deadline) \<longrightarrow>
         equal_levels (Some (map Fin ls, m)) (Some wanted) \<or> \<not> equal_levels (Some (map Fin ls, m)) (Some before)"
    have "vol_pushed uid (host, hm) (ls, m) = VolChange uid (min 1 (Max (set ls) powr (1 / 3))) m host hm"
      by (simp add: vol_pushed_def)
    with c level bounds props ls show ?thesis
      by - (rule exI [of _ uid], rule exI [of _ ident], rule exI [of _ props], rule exI [of _ ls], rule exI [of _ m],
          rule exI [of _ "min 1 (Max (set ls) powr (1 / 3))"], rule exI [of _ host], rule exI [of _ hm], simp)
  qed
qed

definition sample_volume :: output_volume where
  "sample_volume = \<lparr>ov_key = Some (JStr ''u'', JInt 40), ov_host = Some (Fin (1 / 2), False),
     ov_observed = Some ([Fin (1 / 8)], False), ov_pending = None, ov_balance = Some [1], ov_log = []\<rparr>"

definition sample_device :: json where
  "sample_device = JDict [(''uid'', JStr ''u''), (''defaultOutput'', JBool True),
     (''outputVolume'', JDict [(''level'', JFloat (Fin (1 / 2))), (''muted'', JBool False)])]"

definition sample_node :: "real \<Rightarrow> json" where
  "sample_node x = JDict [(''id'', JInt 40), (''info'', JDict [(''params'', JDict [(''Props'',
     JList [JDict [(''channelVolumes'', JList [JFloat (Fin x)]), (''mute'', JBool False), (''softVolumes'', JList [JFloat (Fin 1)])]])])])]"

definition sample_inputs :: volume_inputs where
  "sample_inputs = \<lparr>vi_float = (\<lambda>_. Exc (ValueError ''could not convert string to float'')), vi_write = Ret (),
     vi_change = Exc (RuntimeError ''Host operation failed''), vi_clock = 0, vi_clock_after = 0\<rparr>"

theorem volume_change_justified_witness:
  "\<exists>v' r level. volume_reconcile sample_inputs sample_device (sample_node 1) sample_volume = (v', r) \<and>
     vol_changes v' = [VolChange (JStr ''u'') level False (1 / 2) False] \<and> level \<le> 1"
proof -
  obtain v' r where vr: "volume_reconcile sample_inputs sample_device (sample_node 1) sample_volume = (v', r)" by fastforce
  have c: "vol_changes v' = [VolChange (JStr ''u'') 1 False (1 / 2) False]" "vol_changes sample_volume = []"
    using vr
    by (auto simp: volume_reconcile_def sample_device_def sample_node_def sample_volume_def sample_inputs_def host_level_def dict_get_def
        properties_def level_state_def volume_sync_def volume_fresh_def volume_pending_def volume_push_def volume_answer_def
        same_host_def num_eq_def equal_levels.simps vol_effect_def vol_changes_def Let_def act_defs)
  then have "vol_changes v' \<noteq> vol_changes sample_volume" by simp
  from volume_change_justified [OF vr this] show ?thesis using vr c by auto
qed

section \<open>No feedback\<close>

text \<open>How the bridge uses the proxy: a reconciliation that succeeds, or one that fails and after which the state is
  reset, directly or by the fallback. A failure elsewhere in the bridge also ends in the fallback.\<close>

inductive volume_step :: "output_volume \<Rightarrow> output_volume \<Rightarrow> bool" where
  volume_ok: "volume_reconcile inp device node v = (v', Ret r) \<Longrightarrow> volume_step v v'"
| volume_fell_back: "w = v \<or> volume_reconcile inp device node v = (w, Exc e) \<Longrightarrow>
    volume_fallback inp' public w = (v', Ret ()) \<Longrightarrow> volume_step v v'"
| volume_was_reset: "w = v \<or> volume_reconcile inp device node v = (w, Exc e) \<Longrightarrow>
    volume_fallback inp' public w = (u, Exc e') \<Longrightarrow> volume_step v (fst (volume_reset u))"

interpretation volume_proxy: service "\<lambda>v. v = volume_new" volume_step vol_inv
proof
  show "v = volume_new \<Longrightarrow> vol_inv v" for v
    by (simp add: volume_new_def vol_inv_def vol_blank_def)
  show "vol_inv v \<Longrightarrow> volume_step v v' \<Longrightarrow> vol_inv v'" for v v'
    by (erule volume_step.cases) (auto intro: volume_reconcile_inv vol_blank_inv volume_fallback_blank volume_reset_blank)
qed

text \<open>The levels and soft volumes a node shows.\<close>

definition node_shows :: "json \<Rightarrow> real list \<Rightarrow> bool \<Rightarrow> real list \<Rightarrow> bool" where
  "node_shows node ls m soft \<longleftrightarrow> (\<exists>props. properties node = Ret props \<and> level_state props = Ret (ls, m) \<and>
     jget_or props ''softVolumes'' (JList []) = Ret (JList (map (JFloat \<circ> Fin) soft)) \<and>
     jget_or props ''softMute'' (JBool False) = Ret (JBool m))"

definition device_level :: "volume_inputs \<Rightarrow> json \<Rightarrow> real \<Rightarrow> bool \<Rightarrow> bool" where
  "device_level inp device h m \<longleftrightarrow> (\<exists>profile. jget device ''outputVolume'' = Ret profile \<and> profile \<noteq> JNull \<and>
     host_level inp profile = Ret (Fin h, m) \<and> 0 \<le> h \<and> h \<le> 1)"

lemma all_close_self: "all_close (map (JFloat \<circ> Fin) xs) (map Fin xs) = Ret True"
  by (induction xs) simp_all

lemma cube_scale_Fin: "map (cube_scale (Fin h)) b = map Fin (map (\<lambda>x. h ^ 3 * x) b)"
  by simp

lemma volume_show_settled:
  assumes "ov_balance v = Some b" "ov_host v = Some (Fin h, m)" "ov_observed v = Some (map (cube_scale (Fin h)) b, m)"
    "jget_or props ''softVolumes'' (JList []) = Ret (JList (map (JFloat \<circ> Fin) b))" "jget_or props ''softMute'' (JBool False) = Ret (JBool m)"
  shows "volume_show inp node props (map Fin (map (\<lambda>x. h ^ 3 * x) b), m) (Fin h, m) v = (v, Ret ())"
  using assms close_refl [of "map (\<lambda>x. h ^ 3 * x) b" m]
  by (simp add: volume_show_def Let_def equal_soft_def all_close_self cube_scale_Fin del: map_map)

text \<open>The proxy does not feed back on itself. In every state the bridge can bring it to, when the host still has the level
  of the last synchronization and the node shows what the proxy wrote for it, a reconciliation writes nothing, asks
  the host for nothing and arms no deadline; it only forgets the write it was waiting for.\<close>

theorem volume_settles:
  assumes "reach (\<lambda>v. v = volume_new) volume_step v"
    and "ov_key v = Some (u, i)" "ov_host v = Some (Fin h, m)" "ov_balance v = Some b"
    and "device_level inp device h m" "jitem device ''uid'' = Ret uid" "jitem node ''id'' = Ret ident" "py_eq u uid" "py_eq i ident"
    and "node_shows node (map (\<lambda>x. h ^ 3 * x) b) m b"
  shows "volume_reconcile inp device node v = (v\<lparr>ov_pending := None\<rparr>, Ret None)"
proof -
  let ?ls = "map (\<lambda>x. h ^ 3 * x) b"
  have inv: "vol_inv v" using assms(1) by (rule volume_proxy.reach_inv)
  have obs: "ov_observed v = Some (map Fin ?ls, m)"
    using inv assms(2-4) by (auto simp: vol_inv_def vol_blank_def)
  have echo: "wanted = (map Fin ?ls, m)" if "ov_pending v = Some (before, wanted, deadline)" for before wanted deadline
    using inv obs that assms(2) unfolding vol_inv_def vol_blank_def by (metis option.distinct(1) option.inject)
  obtain profile where profile: "jget device ''outputVolume'' = Ret profile" "profile \<noteq> JNull" "host_level inp profile = Ret (Fin h, m)" "0 \<le> h" "h \<le> 1"
    using assms(5) by (auto simp: device_level_def)
  obtain props where props: "properties node = Ret props" "level_state props = Ret (?ls, m)"
    "jget_or props ''softVolumes'' (JList []) = Ret (JList (map (JFloat \<circ> Fin) b))" "jget_or props ''softMute'' (JBool False) = Ret (JBool m)"
    using assms(10) by (auto simp: node_shows_def)
  have sync: "volume_reconcile inp device node v = volume_sync inp device node (h, m) props (?ls, m) v"
    using profile props by (simp add: volume_reconcile_def)
  have fresh: "volume_fresh (uid, ident) ?ls v = (v, Ret False)" using assms(2,8,9) by (simp add: volume_fresh_def)
  have same: "same_host (h, m) (ov_host v)" using assms(3) by (simp add: same_host_def num_eq_def)
  have pend: "volume_pending inp (h, m) (map Fin ?ls, m) v = (v\<lparr>ov_pending := None\<rparr>, Ret (Some False))"
    using echo close_refl [of ?ls m] by (cases "ov_pending v") (auto simp: volume_pending_def)
  have settled: "volume_show inp node props (map Fin ?ls, m) (Fin h, m) (v\<lparr>ov_pending := None\<rparr>) = (v\<lparr>ov_pending := None\<rparr>, Ret ())"
    using assms(3,4) obs props by (intro volume_show_settled) auto
  show ?thesis
    using sync fresh pend settled close_refl [of ?ls m] assms(6,7) obs
    by (simp add: volume_sync_def Let_def bindA_def [of "volume_fresh _ _"] bindA_def [of "volume_pending _ _ _"]
        thenA_def [of "volume_show _ _ _ _ _"] bindA_def [of "volume_show _ _ _ _ _"] del: map_map)
qed

lemmas sample_volume_defs = sample_device_def sample_node_def sample_inputs_def

theorem volume_settles_witness:
  "\<exists>v. ov_key v = Some (JStr ''u'', JInt 40) \<and>
     volume_reconcile sample_inputs sample_device (sample_node (1 / 8)) v = (v\<lparr>ov_pending := None\<rparr>, Ret None)"
proof -
  define v where "v = fst (volume_reconcile sample_inputs sample_device (sample_node 1) volume_new)"
  have v: "volume_reconcile sample_inputs sample_device (sample_node 1) volume_new = (v, Ret None)"
    "ov_key v = Some (JStr ''u'', JInt 40)" "ov_host v = Some (Fin (1 / 2), False)" "ov_balance v = Some [1]"
    by (auto simp: v_def volume_reconcile_def sample_volume_defs volume_new_def host_level_def dict_get_def
        properties_def level_state_def volume_sync_def volume_fresh_def volume_pending_def volume_show_def volume_reset_def volume_write_def
        same_host_def equal_levels.simps vol_effect_def Let_def act_defs power3_eq_cube)
  have r: "reach (\<lambda>v. v = volume_new) volume_step v"
    by (rule reach_step [where s = volume_new]) (simp_all add: reach_init volume_ok [OF v(1)])
  have "volume_reconcile sample_inputs sample_device (sample_node (1 / 8)) v = (v\<lparr>ov_pending := None\<rparr>, Ret None)"
    by (rule volume_settles [OF r v(2-4), where uid = "JStr ''u''" and ident = "JInt 40"])
      (simp_all add: device_level_def node_shows_def sample_volume_defs host_level_def properties_def level_state_def dict_get_def num_eq_def power3_eq_cube)
  then show ?thesis using v(2) by blast
qed

end
