(* ===== verification/Audio_Pipewire.thy ===== *)
theory Audio_Pipewire
  imports Audio_Events Audio_Volume
begin

text \<open>
  \<^verbatim>\<open>guest/devices/audio_pipewire.py\<close>: the bridge that offers the host's audio devices as PipeWire nodes, one loopback
  process per device and direction, and keeps the selected default and the volume equal on both sides (\<^verbatim>\<open>AudioBridge\<close>).

  The state extends the event source's. What the host, \<^verbatim>\<open>pw-dump\<close>, \<^verbatim>\<open>wpctl\<close> and \<^verbatim>\<open>Popen\<close> return, the clock readings
  and SHA-256 are inputs; the commands run and the selections requested are a log. A process is a number, and
  \<open>br_running\<close> lists the loopbacks that have not ended.
\<close>

section \<open>Reading the graph\<close>

definition SINK_TRANSPORT :: string where "SINK_TRANSPORT = ''alsa_output.pci-0000_00_04.0.analog-stereo''"
definition SOURCE_TRANSPORT :: string where "SOURCE_TRANSPORT = ''alsa_input.pci-0000_00_04.0.analog-stereo''"

definition TRANSPORT :: "(string \<times> string) list" where
  "TRANSPORT = [(''output'', SINK_TRANSPORT), (''input'', SOURCE_TRANSPORT)]"

definition KIND :: "(string \<times> string) list" where
  "KIND = [(''output'', ''sink''), (''input'', ''source'')]"

text \<open>The keys of a dict must be hashable.\<close>

fun hashable :: "json \<Rightarrow> json outcome" where
  "hashable (JList _) = Exc (TypeError ''unhashable type'')"
| "hashable (JDict _) = Exc (TypeError ''unhashable type'')"
| "hashable v = Ret v"

definition default_entry :: "(json \<times> json) list \<Rightarrow> json \<Rightarrow> (json \<times> json) list outcome" where
  "default_entry d entry =
     bindO (jget entry ''value'') (\<lambda>v.
       if \<not> is_dict v then Ret d else
       bindO (bindO (jitem entry ''key'') hashable) (\<lambda>key.
       bindO (jget v ''name'') (\<lambda>name. Ret (dset key name d))))"

fun foldO :: "('d \<Rightarrow> 'x \<Rightarrow> 'd outcome) \<Rightarrow> 'd \<Rightarrow> 'x list \<Rightarrow> 'd outcome" where
  "foldO f d [] = Ret d"
| "foldO f d (x # xs) = bindO (f d x) (\<lambda>d'. foldO f d' xs)"

definition object_defaults :: "(json \<times> json) list \<Rightarrow> json \<Rightarrow> (json \<times> json) list outcome" where
  "object_defaults d obj =
     bindO (bindO (jget_or obj ''props'' (JDict [])) (\<lambda>props. jget props ''metadata.name'')) (\<lambda>name.
       if name \<noteq> JStr ''default'' then Ret d else
       bindO (bindO (jget_or obj ''metadata'' (JList [])) iter_items) (foldO default_entry d))"

definition defaults :: "json list \<Rightarrow> (json \<times> json) list outcome" where
  "defaults objects = foldO object_defaults [] objects"

definition node_name_of :: "json \<Rightarrow> json outcome" where
  "node_name_of obj =
     bindO (jget_or obj ''info'' (JDict [])) (\<lambda>info.
     bindO (jget_or info ''props'' (JDict [])) (\<lambda>props. jget props ''node.name''))"

definition named_node :: "(json \<Rightarrow> 'v outcome) \<Rightarrow> (json \<times> 'v) list \<Rightarrow> json \<Rightarrow> (json \<times> 'v) list outcome" where
  "named_node f d obj =
     bindO (jitem obj ''type'') (\<lambda>type.
       if type \<noteq> JStr NODE then Ret d else
       bindO (node_name_of obj) (\<lambda>name.
       bindO (f obj) (\<lambda>v. bindO (hashable name) (\<lambda>n. Ret (dset n v d)))))"

definition node_ids :: "json list \<Rightarrow> (json \<times> json) list outcome" where
  "node_ids objects = foldO (named_node (\<lambda>obj. jitem obj ''id'')) [] objects"

definition by_name :: "json list \<Rightarrow> (json \<times> json) list outcome" where
  "by_name objects = foldO (named_node Ret) [] objects"

fun find_named :: "json \<Rightarrow> json list \<Rightarrow> json option outcome" where
  "find_named selected [] = Ret None"
| "find_named selected (o1 # objects) =
     bindO (node_name_of o1) (\<lambda>name. if py_eq name selected then Ret (Some o1) else find_named selected objects)"

section \<open>State and inputs\<close>

datatype bridge_effect =
    SetDefault json
  | SetVolume json
  | SetMute json
  | SelectDevice string json
  | Spawned string

record bridge_env =
  bv_host :: host_env
  bv_sha256 :: "string \<Rightarrow> string"
  bv_query :: "int \<Rightarrow> json list outcome"
  bv_devices :: "json outcome"
  bv_select :: "string \<Rightarrow> json \<Rightarrow> json outcome"
  bv_wpctl :: "bridge_effect \<Rightarrow> unit outcome"
  bv_popen :: "string \<Rightarrow> unit outcome"
  bv_volume :: volume_inputs
  bv_clock :: "string \<Rightarrow> time"
  bv_clock_after :: "string \<Rightarrow> time"
  bv_dump :: "json list outcome"

type_synonym transport_state = "json \<times> json \<times> json list \<times> json"

record audio_bridge = audio +
  br_children :: "(string \<times> nat) list"
  br_watches :: "(string \<times> nat) list"
  br_running :: "nat list"
  br_next :: nat
  br_observed :: "(string \<times> json) list"
  br_levels :: "(string \<times> transport_state) list"
  br_pending :: "(string \<times> json \<times> string \<times> time) list"
  br_volume :: output_volume
  br_original :: "(json \<times> json) list option"
  br_state :: "json option"
  br_log :: "bridge_effect list"

definition bridge_new :: audio_bridge where
  "bridge_new = \<lparr>tm_sources = [], tm_glib = [], tm_next = 1, tm_closed = False,
     ae_graph = graph_new, ae_stream = stream_new, ae_host_key = None, ae_host_dirty = True, ae_mode = None, ae_error = None,
     ae_quit = False, ae_watching = False, ae_piped = False,
     br_children = [], br_watches = [], br_running = [], br_next = 0, br_observed = [], br_levels = [], br_pending = [],
     br_volume = volume_new, br_original = None, br_state = None, br_log = []\<rparr>"

type_synonym 'a bridge_act = "(audio_bridge, 'a) act"

definition bridge_log :: "bridge_effect \<Rightarrow> unit bridge_act" where
  "bridge_log eff = updA (\<lambda>s. s\<lparr>br_log := br_log s @ [eff]\<rparr>)"

definition wpctl :: "bridge_env \<Rightarrow> bridge_effect \<Rightarrow> unit bridge_act" where
  "wpctl env command = thenA (bridge_log command) (liftA (bv_wpctl env command))"

definition on_volume :: "(output_volume, 'a) act \<Rightarrow> 'a bridge_act" where
  "on_volume m = (\<lambda>s. case m (br_volume s) of (v, r) \<Rightarrow> (s\<lparr>br_volume := v\<rparr>, r))"

text \<open>\<^verbatim>\<open>uid.encode()\<close> needs a string.\<close>

fun node_name :: "bridge_env \<Rightarrow> json \<Rightarrow> string \<Rightarrow> string outcome" where
  "node_name env (JStr uid) direction = Ret (''linuxhost.'' @ direction @ ''.'' @ take 20 (bv_sha256 env uid))"
| "node_name env _ direction = Exc (AttributeError ''encode'')"

definition set_default :: "bridge_env \<Rightarrow> json \<Rightarrow> json list \<Rightarrow> bool bridge_act" where
  "set_default env name objects =
     bindA (liftA (bindO (node_ids objects) (\<lambda>d. bindO (hashable name) (\<lambda>n. Ret (map_of d n))))) (\<lambda>node_id.
       case node_id of
         None \<Rightarrow> retA False
       | Some ident \<Rightarrow> if ident = JNull then retA False else thenA (wpctl env (SetDefault ident)) (retA True))"

section \<open>The transport volume\<close>

fun pf_less :: "pyfloat \<Rightarrow> pyfloat \<Rightarrow> bool" where
  "pf_less (Fin x) (Fin y) = (x < y)"
| "pf_less NegInf (Fin _) = True"
| "pf_less NegInf PosInf = True"
| "pf_less (Fin _) PosInf = True"
| "pf_less _ _ = False"

text \<open>\<^verbatim>\<open>max(volumes) > 0\<close> for a nonempty tuple: other values than numbers do not compare with 0.\<close>

definition max_positive :: "json list \<Rightarrow> bool outcome" where
  "max_positive vs =
     (if \<exists>v \<in> set vs. numeric v = None then Exc (TypeError ''not supported between instances'')
      else case map (the \<circ> numeric) vs of
             [] \<Rightarrow> Exc (ValueError ''max() iterable argument is empty'')
           | x # xs \<Rightarrow> Ret (pf_less (Fin 0) (fold (\<lambda>y m. if pf_less m y then y else m) xs x)))"

fun transport_eq :: "transport_state \<Rightarrow> transport_state \<Rightarrow> bool" where
  "transport_eq (p, t, vs, m) (p', t', vs', m') = (py_eq p p' \<and> py_eq t t' \<and> py_eq_list vs vs' \<and> py_eq m m')"

definition transport_state_of :: "json \<Rightarrow> json \<Rightarrow> (json \<times> transport_state) outcome" where
  "transport_state_of public transport =
     bindO (properties public) (\<lambda>props.
     bindO (jget_or props ''channelVolumes'' (JList [])) (\<lambda>volumes.
     bindO (jitem public ''id'') (\<lambda>p.
     bindO (jitem transport ''id'') (\<lambda>t.
     bindO (iter_items volumes) (\<lambda>vs.
     bindO (jget_or props ''mute'' (JBool False)) (\<lambda>mute. Ret (volumes, (p, t, vs, mute))))))))"

definition open_transport :: "bridge_env \<Rightarrow> string \<Rightarrow> json \<times> transport_state \<Rightarrow> unit bridge_act" where
  "open_transport env direction vst =
     (case vst of (volumes, (p, t, vs, mute)) \<Rightarrow>
      bindA (getA (\<lambda>s. map_of (br_levels s) direction)) (\<lambda>old.
        if (case old of None \<Rightarrow> False | Some st \<Rightarrow> transport_eq st (p, t, vs, mute)) then retA () else
        bindA (liftA (if truthy volumes then bindO (max_positive vs) (\<lambda>loud. Ret (loud \<and> \<not> truthy mute)) else Ret False)) (\<lambda>audible.
        thenA (if audible then thenA (wpctl env (SetVolume t)) (wpctl env (SetMute t)) else retA ())
              (updA (\<lambda>s. s\<lparr>br_levels := dset direction (p, t, vs, mute) (br_levels s)\<rparr>)))))"

definition prepare_transport :: "bridge_env \<Rightarrow> json \<Rightarrow> string \<Rightarrow> json list \<Rightarrow> unit bridge_act" where
  "prepare_transport env selected direction objects =
     bindA (liftA (by_name objects)) (\<lambda>named.
     bindA (liftA (hashable selected)) (\<lambda>sel.
       case (map_of named sel, map_of named (JStr (the (map_of TRANSPORT direction)))) of
         (Some public, Some transport) \<Rightarrow>
           if \<not> truthy public \<or> \<not> truthy transport then retA () else
           bindA (liftA (transport_state_of public transport)) (open_transport env direction)
       | _ \<Rightarrow> retA ()))"

section \<open>The loopback processes\<close>

definition stop_process :: "nat \<Rightarrow> unit bridge_act" where
  "stop_process pid = updA (\<lambda>s. s\<lparr>br_running := filter (\<lambda>p. p \<noteq> pid) (br_running s)\<rparr>)"

definition stop_child :: "string \<Rightarrow> unit bridge_act" where
  "stop_child name =
     thenA (updA (\<lambda>s. s\<lparr>br_watches := dpop name (br_watches s)\<rparr>))
     (bindA (getA (\<lambda>s. map_of (br_children s) name)) (\<lambda>child.
        case child of
          None \<Rightarrow> excA (KeyError name)
        | Some pid \<Rightarrow> thenA (updA (\<lambda>s. s\<lparr>br_children := dpop name (br_children s)\<rparr>)) (stop_process pid)))"

text \<open>The name is computed and the description read before the process is started; the process number is new.\<close>

definition spawn :: "bridge_env \<Rightarrow> json \<Rightarrow> string \<Rightarrow> nat bridge_act" where
  "spawn env device direction =
     bindA (liftA (bindO (jitem device ''uid'') (\<lambda>uid. node_name env uid direction))) (\<lambda>name.
     bindA (liftA (jitem device ''name'')) (\<lambda>_.
     bindA (liftA (bv_popen env name)) (\<lambda>_.
     bindA (getA br_next) (\<lambda>pid.
     thenA (updA (\<lambda>s. s\<lparr>br_next := Suc pid, br_running := br_running s @ [pid]\<rparr>))
     (thenA (bridge_log (Spawned name)) (retA pid))))))"

definition start_child :: "bridge_env \<Rightarrow> string \<times> json \<times> string \<Rightarrow> unit bridge_act" where
  "start_child env rec =
     (case rec of (name, device, direction) \<Rightarrow>
      bindA (getA (\<lambda>s. map_of (br_children s) name)) (\<lambda>child.
        if child \<noteq> None then retA () else
        bindA (spawn env device direction) (\<lambda>pid.
          updA (\<lambda>s. s\<lparr>br_children := dset name pid (br_children s), br_watches := dset name pid (br_watches s)\<rparr>))))"

definition child_exited :: "string \<Rightarrow> nat \<Rightarrow> unit bridge_act" where
  "child_exited name process =
     thenA (updA (\<lambda>s. s\<lparr>br_watches := dpop name (br_watches s)\<rparr>))
     (bindA (getA (\<lambda>s. map_of (br_children s) name)) (\<lambda>child.
        if child = Some process
        then thenA (updA (\<lambda>s. s\<lparr>br_children := dpop name (br_children s)\<rparr>)) audio_retry
        else retA ()))"

type_synonym records = "(string \<times> json \<times> string) list"

definition device_record :: "bridge_env \<Rightarrow> json \<Rightarrow> records \<Rightarrow> string \<Rightarrow> records outcome" where
  "device_record env d recs direction =
     bindO (jitem d direction) (\<lambda>has.
       if \<not> truthy has then Ret recs else
       bindO (bindO (jitem d ''uid'') (\<lambda>uid. node_name env uid direction)) (\<lambda>name. Ret (dset name (d, direction) recs)))"

definition device_records :: "bridge_env \<Rightarrow> json \<Rightarrow> records outcome" where
  "device_records env state =
     bindO (bindO (jitem state ''devices'') iter_items)
       (foldO (\<lambda>recs d. foldO (device_record env d) recs (map fst KIND)) [])"

definition sync_children :: "bridge_env \<Rightarrow> records \<Rightarrow> unit bridge_act" where
  "sync_children env recs =
     thenA (bindA (getA (dkeys \<circ> br_children))
              (forA (\<lambda>name. if map_of recs name = None then stop_child name else retA ())))
           (forA (start_child env) recs)"

section \<open>Reconciliation\<close>

fun in_records :: "records \<Rightarrow> json \<Rightarrow> bool outcome" where
  "in_records recs (JStr s) = Ret (map_of recs s \<noteq> None)"
| "in_records recs v = bindO (hashable v) (\<lambda>_. Ret False)"

text \<open>The pending default: True when its echo is still awaited, so that the direction is left alone.\<close>

definition await_default :: "bridge_env \<Rightarrow> string \<Rightarrow> json \<Rightarrow> bool bridge_act" where
  "await_default env direction selected =
     bindA (getA (\<lambda>s. map_of (br_pending s) direction)) (\<lambda>pend.
       case pend of
         None \<Rightarrow> retA False
       | Some (before, wanted, deadline) \<Rightarrow>
           if py_eq selected before \<and> bv_clock env direction < deadline then retA True
           else thenA (updA (\<lambda>s. s\<lparr>br_pending := dpop direction (br_pending s)\<rparr>)) (retA False))"

text \<open>The user selected another endpoint: select its device on the host.\<close>

definition select_device :: "bridge_env \<Rightarrow> records \<Rightarrow> string \<Rightarrow> json \<Rightarrow> json \<Rightarrow> json bridge_act" where
  "select_device env recs direction selected state =
     bindA (getA (\<lambda>s. map_of (br_observed s) direction)) (\<lambda>old.
     bindA (liftA (case old of
                     None \<Rightarrow> Ret False
                   | Some o1 \<Rightarrow> if py_eq selected o1 then Ret False else in_records recs selected)) (\<lambda>changed.
       if \<not> changed then retA state else
       (case selected of
          JStr name \<Rightarrow>
            (case map_of recs name of
               Some (device, actual_direction) \<Rightarrow>
                 if actual_direction \<noteq> direction then retA state else
                 bindA (liftA (jitem device ''uid'')) (\<lambda>uid.
                 thenA (bridge_log (SelectDevice direction uid))
                 (bindA (liftA (bv_select env direction uid)) (\<lambda>state'.
                  thenA (updA (\<lambda>s. s\<lparr>br_state := Some state'\<rparr>)) (retA state'))))
             | None \<Rightarrow> retA state)
        | _ \<Rightarrow> retA state)))"

definition mark_metadata :: "graph \<Rightarrow> graph" where
  "mark_metadata g = g\<lparr>gr_dirty := fold set_add (dkeys (gr_metadata g)) (gr_dirty g)\<rparr>"

definition await_echo :: "bridge_env \<Rightarrow> string \<Rightarrow> json \<Rightarrow> string \<Rightarrow> unit bridge_act" where
  "await_echo env direction selected wanted =
     thenA (updA (\<lambda>s. s\<lparr>br_pending := dset direction (selected, wanted, bv_clock_after env direction + 2) (br_pending s)\<rparr>))
     (thenA (updA (\<lambda>s. s\<lparr>ae_graph := mark_metadata (ae_graph s)\<rparr>))
     (thenA (later ''defaults'' 100 (AudioNotify Defaults))
            (later ''defaults-deadline'' 2100 (AudioNotify DefaultsDeadline))))"

text \<open>Follow the host's default device; the value is the endpoint that is selected then.\<close>

definition follow_host :: "bridge_env \<Rightarrow> json list \<Rightarrow> string \<Rightarrow> json \<Rightarrow> json option \<Rightarrow> json bridge_act" where
  "follow_host env objects direction selected active =
     (case active of
        None \<Rightarrow> retA selected
      | Some a \<Rightarrow>
          bindA (liftA (bindO (jitem a ''uid'') (\<lambda>uid. node_name env uid direction))) (\<lambda>wanted.
            if selected = JStr wanted then retA selected else
            bindA (set_default env (JStr wanted) objects) (\<lambda>ok.
              if ok then thenA (await_echo env direction selected wanted) (retA (JStr wanted)) else retA selected)))"

fun arm_deadline :: "volume_effect \<Rightarrow> unit bridge_act" where
  "arm_deadline (VolDeadline ms) = later ''volume-deadline'' ms (AudioNotify VolumeDeadline)"
| "arm_deadline _ = retA ()"

definition reconcile_volume :: "bridge_env \<Rightarrow> json \<Rightarrow> json \<Rightarrow> json option bridge_act" where
  "reconcile_volume env device public =
     bindA (getA (\<lambda>s. length (ov_log (br_volume s)))) (\<lambda>n.
     bindA (on_volume (volume_reconcile (bv_volume env) device public)) (\<lambda>updated.
     bindA (getA (\<lambda>s. drop n (ov_log (br_volume s)))) (\<lambda>effects.
       thenA (forA arm_deadline effects) (retA updated))))"

definition sync_volume :: "bridge_env \<Rightarrow> json list \<Rightarrow> string \<Rightarrow> json \<Rightarrow> json option \<Rightarrow> json \<Rightarrow> json bridge_act" where
  "sync_volume env objects direction selected active state =
     (case active of
        None \<Rightarrow> retA state
      | Some a \<Rightarrow>
          if direction \<noteq> ''output'' then retA state else
          bindA (liftA (bindO (jitem a ''uid'') (\<lambda>uid. node_name env uid direction))) (\<lambda>name.
            if selected \<noteq> JStr name then retA state else
            bindA (liftA (find_named selected objects)) (\<lambda>public.
              case public of
                None \<Rightarrow> retA state
              | Some p \<Rightarrow>
                  bindA (reconcile_volume env a p) (\<lambda>updated.
                    case updated of
                      None \<Rightarrow> retA state
                    | Some u \<Rightarrow> thenA (updA (\<lambda>s. s\<lparr>br_state := Some u\<rparr>)) (retA u)))))"

fun default_key :: "string \<Rightarrow> string" where
  "default_key direction = (if direction = ''output'' then ''defaultOutput'' else ''defaultInput'')"

definition sync_direction :: "bridge_env \<Rightarrow> json list \<Rightarrow> records \<Rightarrow> (json \<times> json) list \<Rightarrow> string \<times> string \<Rightarrow> json \<Rightarrow> json bridge_act" where
  "sync_direction env objects recs current dk state =
     (let direction = fst dk;
          selected = (case map_of current (JStr (''default.configured.audio.'' @ snd dk)) of None \<Rightarrow> JNull | Some v \<Rightarrow> v) in
      bindA (await_default env direction selected) (\<lambda>awaited.
        if awaited then retA state else
        bindA (select_device env recs direction selected state) (\<lambda>state1.
        bindA (liftA (default_device (default_key direction) state1)) (\<lambda>active.
        bindA (follow_host env objects direction selected active) (\<lambda>selected1.
        thenA (updA (\<lambda>s. s\<lparr>br_observed := dset direction selected1 (br_observed s)\<rparr>))
        (bindA (sync_volume env objects direction selected1 active state1) (\<lambda>state2.
         bindA (liftA (in_records recs selected1)) (\<lambda>present.
         thenA (if present then prepare_transport env selected1 direction objects else retA ()) (retA state2)))))))))"

fun sync_directions :: "bridge_env \<Rightarrow> json list \<Rightarrow> records \<Rightarrow> (json \<times> json) list \<Rightarrow> (string \<times> string) list \<Rightarrow> json \<Rightarrow> unit bridge_act" where
  "sync_directions env objects recs current [] state = retA ()"
| "sync_directions env objects recs current (dk # dks) state =
     bindA (sync_direction env objects recs current dk state) (sync_directions env objects recs current dks)"

definition host_state :: "bridge_env \<Rightarrow> json bridge_act" where
  "host_state env =
     bindA (getA (\<lambda>s. if ae_host_dirty s then None else br_state s)) (\<lambda>known.
       case known of
         Some state \<Rightarrow> retA state
       | None \<Rightarrow>
           bindA (liftA (bv_devices env)) (\<lambda>state.
           thenA (updA (\<lambda>s. s\<lparr>br_state := Some state, ae_host_dirty := False\<rparr>)) (retA state)))"

definition remember_original :: "json list \<Rightarrow> unit bridge_act" where
  "remember_original objects =
     bindA (getA br_original) (\<lambda>original.
       if original = None then bindA (liftA (defaults objects)) (\<lambda>d. updA (\<lambda>s. s\<lparr>br_original := Some d\<rparr>))
       else retA ())"

definition bridge_sync :: "bridge_env \<Rightarrow> unit bridge_act" where
  "bridge_sync env =
     bindA (audio_snapshot (bv_query env)) (\<lambda>entries.
     let objects = map JDict entries in
     thenA (remember_original objects)
     (bindA (host_state env) (\<lambda>state.
      bindA (liftA (device_records env state)) (\<lambda>recs.
      thenA (sync_children env recs)
      (bindA (liftA (defaults objects)) (\<lambda>current.
         sync_directions env objects recs current KIND state)))))) "

definition bridge_caught :: "exn \<Rightarrow> bool" where
  "bridge_caught e \<longleftrightarrow> is_OSError e \<or> is_RuntimeError e \<or> is_ValueError e \<or> is_KeyError e \<or> is_SubprocessError e"

text \<open>\<^verbatim>\<open>next((o for o in nodes if key and o['id'] == key[1]), None)\<close>.\<close>

fun keyed_node :: "json \<Rightarrow> dict list \<Rightarrow> json option outcome" where
  "keyed_node ident [] = Ret None"
| "keyed_node ident (d # ds) =
     bindO (jitem (JDict d) ''id'') (\<lambda>i. if py_eq i ident then Ret (Some (JDict d)) else keyed_node ident ds)"

definition bridge_failed :: "bridge_env \<Rightarrow> unit bridge_act" where
  "bridge_failed env =
     bindA (getA (\<lambda>s. case ov_key (br_volume s) of
                        None \<Rightarrow> Ret None
                      | Some (u, ident) \<Rightarrow> keyed_node ident (map snd (gr_nodes (ae_graph s))))) (\<lambda>found.
     bindA (liftA found) (\<lambda>public.
     thenA (catchA (on_volume (volume_fallback (bv_volume env) public))
              (\<lambda>e. is_OSError e \<or> is_ValueError e \<or> is_SubprocessError e) (\<lambda>_. on_volume volume_reset))
     (thenA (updA (\<lambda>s. s\<lparr>br_state := None\<rparr>)) audio_retry)))"

definition bridge_reconcile :: "bridge_env \<Rightarrow> unit bridge_act" where
  "bridge_reconcile env =
     bindA (getA (gr_ready \<circ> ae_graph)) (\<lambda>ready.
       if \<not> ready then retA () else catchA (bridge_sync env) bridge_caught (\<lambda>_. bridge_failed env))"

section \<open>Start and end\<close>

fun starts_linuxhost :: "json \<Rightarrow> bool outcome" where
  "starts_linuxhost (JStr s) = Ret (take 10 s = ''linuxhost.'')"
| "starts_linuxhost v = (if truthy v then Exc (AttributeError ''startswith'') else Ret False)"

definition restore_default :: "bridge_env \<Rightarrow> (json \<times> json) list \<Rightarrow> json list \<Rightarrow> (json \<times> json) list \<Rightarrow> string \<times> string \<Rightarrow> unit bridge_act" where
  "restore_default env original objects current dk =
     (let key = JStr (''default.configured.audio.'' @ snd dk);
          before = (case map_of original key of None \<Rightarrow> JNull | Some v \<Rightarrow> v) in
      bindA (liftA (case map_of current key of None \<Rightarrow> Ret False | Some v \<Rightarrow> starts_linuxhost v)) (\<lambda>ours.
        if ours
        then bindA (set_default env (if truthy before then before else JStr (the (map_of TRANSPORT (fst dk)))) objects) (\<lambda>_. retA ())
        else retA ()))"

definition restore_defaults :: "bridge_env \<Rightarrow> unit bridge_act" where
  "restore_defaults env =
     bindA (getA br_original) (\<lambda>original.
       case original of
         None \<Rightarrow> retA ()
       | Some d \<Rightarrow>
           bindA (liftA (bv_dump env)) (\<lambda>objects.
           bindA (liftA (defaults objects)) (\<lambda>current.
             forA (restore_default env d objects current) KIND)))"

definition stop_children :: "unit bridge_act" where
  "stop_children = bindA (getA (dkeys \<circ> br_children)) (forA stop_child)"

text \<open>The \<^verbatim>\<open>finally\<close> block of \<^verbatim>\<open>run\<close>, after the main loop has ended.\<close>

definition bridge_end :: "bridge_env \<Rightarrow> unit bridge_act" where
  "bridge_end env = thenA audio_close (finallyA (restore_defaults env) stop_children)"

section \<open>What a reconciliation may touch\<close>

text \<open>A predicate that the timers the bridge arms and its book-keeping fields do not affect.\<close>

locale bridge_frame =
  fixes P :: "audio_bridge \<Rightarrow> bool"
  assumes frame_later: "name = audio_cb_name cb \<Longrightarrow> keeps P (later name ms cb)"
    and frame_fields:
      "P (s\<lparr>br_log := lg\<rparr>) = P s" "P (s\<lparr>br_observed := ob\<rparr>) = P s" "P (s\<lparr>br_levels := ls\<rparr>) = P s"
      "P (s\<lparr>br_pending := pe\<rparr>) = P s" "P (s\<lparr>br_volume := vo\<rparr>) = P s" "P (s\<lparr>br_original := ori\<rparr>) = P s"
      "P (s\<lparr>br_state := st\<rparr>) = P s" "P (s\<lparr>ae_graph := g\<rparr>) = P s" "P (s\<lparr>ae_host_dirty := d\<rparr>) = P s"
begin

lemma frame_log: "keeps P (bridge_log eff)"
  unfolding bridge_log_def by (rule keeps_upd) (simp add: frame_fields)

lemma frame_wpctl: "keeps P (wpctl env eff)"
  unfolding wpctl_def by (intro keeps_intros frame_log)

lemma frame_on_volume: "keeps P (on_volume m)"
  by (rule keepsI) (simp add: on_volume_def frame_fields split: prod.splits)

lemma frame_on_graph: "keeps P (on_graph m)"
  by (rule keepsI) (simp add: on_graph_def frame_fields split: prod.splits)

lemma frame_retry: "keeps P audio_retry"
  unfolding audio_retry_def by (intro keeps_intros frame_later) simp

lemma frame_set_default: "keeps P (set_default env name objects)"
  unfolding set_default_def by (auto intro!: keeps_intros frame_wpctl split: option.splits)

lemma frame_prepare: "keeps P (prepare_transport env selected direction objects)"
  unfolding prepare_transport_def open_transport_def
  by (auto intro!: keeps_intros frame_wpctl keeps_upd simp: frame_fields split: option.splits prod.splits)

lemma frame_await: "keeps P (await_default env direction selected)"
  unfolding await_default_def by (auto intro!: keeps_intros keeps_upd simp: frame_fields split: option.splits)

lemma frame_select: "keeps P (select_device env recs direction selected state)"
  unfolding select_device_def
  by (auto intro!: keeps_intros frame_log keeps_upd simp: frame_fields split: option.splits json.splits)

lemma frame_await_echo: "keeps P (await_echo env direction selected wanted)"
  unfolding await_echo_def by (intro keeps_intros frame_later keeps_upd) (simp_all add: frame_fields)

lemma frame_follow: "keeps P (follow_host env objects direction selected active)"
  unfolding follow_host_def by (auto intro!: keeps_intros frame_set_default frame_await_echo split: option.splits)

lemma frame_arm: "keeps P (arm_deadline eff)"
  by (cases eff) (auto intro!: keeps_intros frame_later)

lemma frame_volume: "keeps P (sync_volume env objects direction selected active state)"
  unfolding sync_volume_def reconcile_volume_def
  by (auto intro!: keeps_intros frame_on_volume frame_arm keeps_upd simp: frame_fields split: option.splits)

lemma frame_direction: "keeps P (sync_direction env objects recs current dk state)"
  unfolding sync_direction_def Let_def
  by (auto intro!: keeps_intros frame_await frame_select frame_follow frame_volume frame_prepare keeps_upd simp: frame_fields)

lemma frame_directions: "keeps P (sync_directions env objects recs current dks state)"
  by (induction dks arbitrary: state) (auto intro!: keeps_intros frame_direction)

lemma frame_snapshot: "keeps P (audio_snapshot query)"
  unfolding audio_snapshot_def by (rule frame_on_graph)

lemma frame_host_state: "keeps P (host_state env)"
  unfolding host_state_def by (auto intro!: keeps_intros keeps_upd simp: frame_fields split: option.splits)

lemma frame_failed: "keeps P (bridge_failed env)"
  unfolding bridge_failed_def by (auto intro!: keeps_intros frame_on_volume frame_retry keeps_upd simp: frame_fields)

lemma frame_restore: "keeps P (restore_defaults env)"
  unfolding restore_defaults_def restore_default_def Let_def
  by (auto intro!: keeps_intros frame_set_default split: option.splits)

end

text \<open>An invariant of the bridge moreover survives the start and the stop of a loopback.\<close>

locale bridge_invariant = bridge_frame +
  assumes stop_keeps: "keeps P (stop_child name)"
    and start_keeps: "keeps P (start_child env rec)"
begin

lemma children_keeps: "keeps P (sync_children env recs)"
  unfolding sync_children_def by (auto intro!: keeps_intros stop_keeps start_keeps)

lemma reconcile_keeps: "keeps P (bridge_reconcile env)"
  unfolding bridge_reconcile_def bridge_sync_def remember_original_def Let_def
  by (auto intro!: keeps_intros frame_snapshot frame_host_state children_keeps frame_directions frame_failed keeps_upd simp: frame_fields)

lemma stop_all_keeps: "keeps P stop_children"
  unfolding stop_children_def by (auto intro!: keeps_intros stop_keeps)

end

section \<open>The event source under the bridge\<close>

lemma bridge_fields_sources [simp]:
  "sources_ok n (s\<lparr>br_log := lg\<rparr>) = sources_ok n s" "sources_ok n (s\<lparr>br_observed := ob\<rparr>) = sources_ok n s"
  "sources_ok n (s\<lparr>br_levels := ls\<rparr>) = sources_ok n s" "sources_ok n (s\<lparr>br_pending := pe\<rparr>) = sources_ok n s"
  "sources_ok n (s\<lparr>br_volume := vo\<rparr>) = sources_ok n s" "sources_ok n (s\<lparr>br_original := ori\<rparr>) = sources_ok n s"
  "sources_ok n (s\<lparr>br_state := st\<rparr>) = sources_ok n s" "sources_ok n (s\<lparr>br_children := ch\<rparr>) = sources_ok n s"
  "sources_ok n (s\<lparr>br_watches := wa\<rparr>) = sources_ok n s" "sources_ok n (s\<lparr>br_running := ru\<rparr>) = sources_ok n s"
  "sources_ok n (s\<lparr>br_next := ne\<rparr>) = sources_ok n s"
  by (simp_all add: sources_ok_def timers_ok_def)

lemma bridge_fields_awake [simp]:
  "audio_awake (s\<lparr>br_log := lg\<rparr>) = audio_awake s" "audio_awake (s\<lparr>br_observed := ob\<rparr>) = audio_awake s"
  "audio_awake (s\<lparr>br_levels := ls\<rparr>) = audio_awake s" "audio_awake (s\<lparr>br_pending := pe\<rparr>) = audio_awake s"
  "audio_awake (s\<lparr>br_volume := vo\<rparr>) = audio_awake s" "audio_awake (s\<lparr>br_original := ori\<rparr>) = audio_awake s"
  "audio_awake (s\<lparr>br_state := st\<rparr>) = audio_awake s" "audio_awake (s\<lparr>br_children := ch\<rparr>) = audio_awake s"
  "audio_awake (s\<lparr>br_watches := wa\<rparr>) = audio_awake s" "audio_awake (s\<lparr>br_running := ru\<rparr>) = audio_awake s"
  "audio_awake (s\<lparr>br_next := ne\<rparr>) = audio_awake s" "audio_awake (s\<lparr>ae_graph := g\<rparr>) = audio_awake s"
  "audio_awake (s\<lparr>ae_host_dirty := d\<rparr>) = audio_awake s"
  by (simp_all add: audio_awake_def pending_def)

lemma awake_later: "keeps audio_awake (later name ms cb)"
  by (rule keepsI) (auto simp: audio_awake_def)

lemmas child_ops = stop_child_def start_child_def spawn_def stop_process_def bridge_log_def

interpretation bridge_sources: bridge_invariant "sources_ok audio_cb_name"
  by unfold_locales
    (auto simp: child_ops intro!: later_sources_ok keeps_intros keeps_upd split: prod.splits option.splits)

interpretation bridge_awake: bridge_invariant audio_awake
  by unfold_locales
    (auto simp: child_ops intro!: awake_later keeps_intros keeps_upd split: prod.splits option.splits)

interpretation bridge_client: audio_client "bridge_reconcile env" for env
  by unfold_locales (rule bridge_sources.reconcile_keeps, rule bridge_awake.reconcile_keeps)

section \<open>The loopbacks\<close>

text \<open>Every child is watched under its name, every running loopback is a child, and no two children share a process.\<close>

definition children_ok :: "audio_bridge \<Rightarrow> bool" where
  "children_ok s \<longleftrightarrow> br_watches s = br_children s \<and> wf_dict (br_children s) \<and> distinct (map snd (br_children s)) \<and>
     set (br_running s) \<subseteq> snd ` set (br_children s) \<and> (\<forall>p \<in> snd ` set (br_children s). p < br_next s)"

lemma children_more: "audio.more s = audio.more t \<Longrightarrow> children_ok s = children_ok t"
  by (cases s; cases t) (simp add: children_ok_def)

lemma children_fields [simp]:
  "children_ok (s\<lparr>br_log := lg\<rparr>) = children_ok s" "children_ok (s\<lparr>br_observed := ob\<rparr>) = children_ok s"
  "children_ok (s\<lparr>br_levels := ls\<rparr>) = children_ok s" "children_ok (s\<lparr>br_pending := pe\<rparr>) = children_ok s"
  "children_ok (s\<lparr>br_volume := vo\<rparr>) = children_ok s" "children_ok (s\<lparr>br_original := ori\<rparr>) = children_ok s"
  "children_ok (s\<lparr>br_state := st\<rparr>) = children_ok s"
  by (simp_all add: children_ok_def)

lemma more_later [simp]: "audio.more (fst (later name ms cb s)) = audio.more s"
  by (simp add: later_def glib_add_def)

lemma more_fields [simp]:
  "audio.more (s\<lparr>ae_graph := g\<rparr>) = audio.more s" "audio.more (s\<lparr>ae_host_dirty := d\<rparr>) = audio.more s"
  by simp_all

lemma dpop_children:
  assumes "wf_dict d" "distinct (map snd d)" "map_of d name = Some p"
  shows "snd ` set (dpop name d) = snd ` set d - {p}" "distinct (map snd (dpop name d))"
proof -
  have p: "(name, p) \<in> set d" using assms(3) by (rule map_of_SomeD)
  have "q = p \<longleftrightarrow> n = name" if "(n, q) \<in> set d" for n q
  proof
    assume "n = name"
    then show "q = p" using assms(1) that p eq_key_imp_eq_value by (metis wf_dict_def)
  next
    assume "q = p"
    then show "n = name" using assms(2) that p unfolding distinct_map by (metis inj_onD prod.inject snd_conv)
  qed
  then show "snd ` set (dpop name d) = snd ` set d - {p}" by (force simp: set_dpop)
  show "distinct (map snd (dpop name d))" using assms(2) by (simp add: dpop_def distinct_map_filter)
qed

lemma dpop_absent: "map_of d name = None \<Longrightarrow> dpop name d = d"
  by (force simp: dpop_def map_of_eq_None_iff intro!: filter_True)

lemma drop_child:
  assumes "children_ok s" "map_of (br_children s) name = Some p"
  shows "children_ok (s\<lparr>br_watches := dpop name (br_watches s), br_children := dpop name (br_children s),
    br_running := filter (\<lambda>q. q \<noteq> p) (br_running s)\<rparr>)"
  using assms dpop_children [of "br_children s" name p] by (auto simp: children_ok_def)

lemma children_stop: "keeps children_ok (stop_child name)"
proof (rule keepsI)
  fix s assume s: "children_ok s"
  show "children_ok (fst (stop_child name s))"
  proof (cases "map_of (br_children s) name")
    case None
    then have "dpop name (br_watches s) = br_watches s" using s dpop_absent by (simp add: children_ok_def)
    then show ?thesis using s None by (simp add: stop_child_def)
  next
    case (Some p)
    then show ?thesis using drop_child [OF s Some] by (simp add: stop_child_def stop_process_def)
  qed
qed

lemma add_child:
  assumes "children_ok s" "map_of (br_children s) name = None"
  shows "children_ok (s\<lparr>br_next := Suc (br_next s), br_running := br_running s @ [br_next s], br_log := lg,
    br_children := dset name (br_next s) (br_children s), br_watches := dset name (br_next s) (br_watches s)\<rparr>)"
proof -
  have "name \<notin> fst ` set (br_children s)" using assms(2) by (simp add: map_of_eq_None_iff)
  then have "dset name (br_next s) (br_children s) = br_children s @ [(name, br_next s)]" by (rule dset_fresh)
  then show ?thesis using assms wf_dict_dset [of "br_children s" name "br_next s"]
    by (force simp: children_ok_def)
qed

lemma spawn_Ret:
  assumes "spawn env device direction s = (t, Ret pid)"
  obtains lg where "pid = br_next s" "t = s\<lparr>br_next := Suc (br_next s), br_running := br_running s @ [br_next s], br_log := lg\<rparr>"
  using assms by (auto simp: spawn_def bridge_log_def bindA_eq_Ret thenA_eq_Ret getA_def simp del: act_at(1,2))

lemma spawn_fails: "spawn env device direction s = (t, r) \<Longrightarrow> \<nexists>pid. r = Ret pid \<Longrightarrow> t = s"
  by (auto simp: spawn_def bridge_log_def split: outcome.splits)

lemma children_start: "keeps children_ok (start_child env rec)"
proof (rule keepsI)
  fix s assume s: "children_ok s"
  obtain name device direction where rec: "rec = (name, device, direction)" by (cases rec)
  obtain t r where t: "spawn env device direction s = (t, r)" by (cases "spawn env device direction s")
  show "children_ok (fst (start_child env rec s))"
  proof (cases "map_of (br_children s) name")
    case None
    show ?thesis
    proof (cases r)
      case (Ret pid)
      with t obtain lg where "pid = br_next s" "t = s\<lparr>br_next := Suc (br_next s), br_running := br_running s @ [br_next s], br_log := lg\<rparr>"
        by (auto elim: spawn_Ret)
      then show ?thesis using add_child [OF s None, of lg] t Ret None by (simp add: start_child_def rec bindA_def getA_def)
    qed (use spawn_fails [OF t] t None s in \<open>simp_all add: start_child_def rec bindA_def getA_def\<close>)
  qed (use s in \<open>simp add: start_child_def rec\<close>)
qed

interpretation bridge_children: bridge_invariant children_ok
proof
  show "keeps children_ok (later name ms cb)" for name ms cb
    by (rule keepsI) (metis children_more more_later)
  show "children_ok (s\<lparr>ae_graph := g\<rparr>) = children_ok s" "children_ok (s\<lparr>ae_host_dirty := d\<rparr>) = children_ok s" for s g d
    by (simp_all add: children_ok_def)
qed (simp_all add: children_stop children_start)

section \<open>Steps\<close>

text \<open>What the main loop delivers: the start, a timer, a change of the status directory, data of the monitor, the end of
  a loopback, its watch, a signal, and the end of the run.\<close>

datatype bridge_event =
    BridgeRun bridge_env nat
  | BridgeFire bridge_env nat
  | BridgeStatus bridge_env bool bool
  | BridgeReceive "bytes outcome"
  | BridgeDies nat
  | BridgeExited string
  | BridgeQuit
  | BridgeEnd bridge_env

fun bridge_event_env :: "bridge_event \<Rightarrow> bridge_env option" where
  "bridge_event_env (BridgeRun env _) = Some env"
| "bridge_event_env (BridgeFire env _) = Some env"
| "bridge_event_env (BridgeStatus env _ _) = Some env"
| "bridge_event_env _ = None"

definition bridge_event_ok :: "bridge_event \<Rightarrow> bool" where
  "bridge_event_ok ev \<longleftrightarrow> (\<forall>env \<in> set_option (bridge_event_env ev). env_ok (bv_host env))"

definition receive_event :: "bytes outcome \<Rightarrow> unit bridge_act" where
  "receive_event data =
     bindA (getA ae_piped) (\<lambda>piped. if piped then bindA (audio_receive data) (\<lambda>_. retA ()) else retA ())"

definition exited_event :: "string \<Rightarrow> unit bridge_act" where
  "exited_event name =
     bindA (getA (\<lambda>s. case map_of (br_watches s) name of Some pid \<Rightarrow> if pid \<in> set (br_running s) then None else Some pid | None \<Rightarrow> None)) (\<lambda>gone.
       case gone of Some pid \<Rightarrow> child_exited name pid | None \<Rightarrow> retA ())"

fun bridge_handle :: "bridge_event \<Rightarrow> unit bridge_act" where
  "bridge_handle (BridgeRun env duration) = audio_run (bv_host env) duration"
| "bridge_handle (BridgeFire env ident) = fire (audio_callback (bridge_reconcile env) (bv_host env)) ident"
| "bridge_handle (BridgeStatus env parent file) = audio_status_changed (bv_host env) parent file"
| "bridge_handle (BridgeReceive data) = receive_event data"
| "bridge_handle (BridgeDies pid) = stop_process pid"
| "bridge_handle (BridgeExited name) = exited_event name"
| "bridge_handle BridgeQuit = audio_quit"
| "bridge_handle (BridgeEnd env) = bridge_end env"

inductive bridge_step :: "audio_bridge \<Rightarrow> audio_bridge \<Rightarrow> bool" where
  bridge_stepI: "bridge_event_ok ev \<Longrightarrow> bridge_step s (fst (bridge_handle ev s))"

inductive_cases bridge_stepE: "bridge_step s t"

section \<open>Every step keeps the children\<close>

lemma keeps_moreI: "(\<And>s. audio.more (fst (m s)) = audio.more s) \<Longrightarrow> keeps children_ok m"
  by (rule keepsI) (metis children_more)

lemma children_remove: "keeps children_ok (remove_source name)"
  by (rule keeps_moreI) (simp add: remove_source_def split: option.splits)

lemma children_ae [simp]:
  "children_ok (s\<lparr>ae_graph := g\<rparr>) = children_ok s" "children_ok (s\<lparr>ae_host_dirty := d\<rparr>) = children_ok s"
  "children_ok (s\<lparr>ae_mode := mo\<rparr>) = children_ok s" "children_ok (s\<lparr>ae_host_key := k\<rparr>) = children_ok s"
  "children_ok (s\<lparr>ae_watching := w\<rparr>) = children_ok s" "children_ok (s\<lparr>ae_piped := p\<rparr>) = children_ok s"
  "children_ok (s\<lparr>ae_error := e\<rparr>) = children_ok s" "children_ok (s\<lparr>ae_quit := q\<rparr>) = children_ok s"
  "children_ok (s\<lparr>ae_stream := st\<rparr>) = children_ok s" "children_ok (s\<lparr>tm_closed := c\<rparr>) = children_ok s"
  "children_ok (without_source name ident s) = children_ok s"
  by (simp_all add: children_ok_def without_source_def)

lemmas children_laws = children_remove bridge_children.frame_later bridge_children.frame_on_graph

lemma children_notify: "keeps children_ok audio_notify" and children_refresh: "keeps children_ok audio_refresh_host"
  unfolding audio_refresh_host_def audio_notify_def by (auto intro!: keeps_intros children_laws keeps_upd)

lemma children_read_host: "keeps children_ok (audio_read_host env)"
  unfolding audio_read_host_def
  by (auto intro!: keeps_intros children_laws children_refresh keeps_upd split: prod.splits)

lemma children_watch: "keeps children_ok (audio_watch_status env)"
  unfolding audio_watch_status_def by (auto intro!: keeps_intros children_laws children_read_host keeps_upd)

lemma children_on_stream: "keeps children_ok (on_stream data)"
  by (rule keepsI) (simp add: on_stream_def split: prod.splits)

lemma children_receive: "keeps children_ok (audio_receive data)"
  unfolding audio_receive_def
  by (auto intro!: keeps_intros children_laws children_on_stream children_notify keeps_upd)

lemma children_callback: "keeps children_ok (audio_callback (bridge_reconcile env) h cb)"
  by (cases cb) (auto simp: audio_fallback_tick_def audio_quit_def
      intro!: keeps_intros children_laws bridge_children.reconcile_keeps children_refresh children_read_host children_watch children_notify keeps_upd)

lemma children_fire:
  assumes "\<And>cb. keeps children_ok (run cb)"
  shows "keeps children_ok (fire run ident)"
proof (rule keepsI)
  fix s assume s: "children_ok s"
  show "children_ok (fst (fire run ident s))"
    using s keepsD [OF assms, of "without_source _ ident s"]
    by (auto simp: fire_def without_source_def [symmetric] split: option.splits prod.splits)
qed

lemma children_close: "keeps children_ok audio_close"
  unfolding audio_close_def close_sources_def
  by (auto intro!: keeps_intros children_laws keeps_upd)

lemma children_exited: "keeps children_ok (exited_event name)"
proof (rule keepsI)
  fix s assume s: "children_ok s"
  show "children_ok (fst (exited_event name s))"
  proof (cases "\<exists>pid. map_of (br_watches s) name = Some pid \<and> pid \<notin> set (br_running s)")
    case True
    then obtain pid where pid: "map_of (br_watches s) name = Some pid" "pid \<notin> set (br_running s)" by blast
    let ?s = "s\<lparr>br_watches := dpop name (br_watches s), br_children := dpop name (br_children s)\<rparr>"
    have c: "map_of (br_children s) name = Some pid" using pid(1) s by (simp add: children_ok_def)
    have "filter (\<lambda>q. q \<noteq> pid) (br_running s) = br_running s" using pid(2) by (auto intro!: filter_True)
    then have "children_ok ?s" using drop_child [OF s c] by simp
    then have "children_ok (fst (audio_retry ?s))" by (rule keepsD [OF bridge_children.frame_retry])
    then show ?thesis using pid c by (simp add: exited_event_def child_exited_def)
  qed (use s in \<open>auto simp: exited_event_def split: option.splits\<close>)
qed

lemma children_dies: "keeps children_ok (stop_process pid)"
  unfolding stop_process_def by (rule keeps_upd) (auto simp: children_ok_def)

lemma bridge_handle_children: "keeps children_ok (bridge_handle ev)"
  by (cases ev)
    (auto simp: audio_run_def audio_status_changed_def receive_event_def audio_quit_def bridge_end_def
      intro!: keeps_intros keeps_finally children_watch children_laws children_fire children_callback children_read_host
        children_receive children_dies children_exited children_close bridge_children.frame_restore bridge_children.stop_all_keeps keeps_upd)

section \<open>Every step keeps the timers\<close>

abbreviation audio_inv :: "audio_bridge \<Rightarrow> bool" where
  "audio_inv \<equiv> event_object.inv audio_cb_name audio_awake"

lemmas audio_call_inv = bridge_client.source.call_inv

lemma audio_invI: "keeps (sources_ok audio_cb_name) m \<Longrightarrow> (\<And>s. tm_closed (fst (m s)) = tm_closed s) \<Longrightarrow> keeps audio_awake m \<Longrightarrow> keeps audio_inv m"
  by (rule audio_call_inv) (simp_all add: keepsD)

lemma closed_child [simp]: "tm_closed (fst (stop_child name s)) = tm_closed s" "tm_closed (fst (start_child env rec s)) = tm_closed s"
  by (auto simp: child_ops bindA_def getA_def liftA_def thenA_def split: option.splits prod.splits outcome.splits)

interpretation bridge_source: bridge_invariant audio_inv
proof
  show "keeps audio_inv (later name ms cb)" if "name = audio_cb_name cb" for name ms cb
    using that by (intro audio_invI later_sources_ok awake_later) simp_all
  show "keeps audio_inv (stop_child name)" for name
    by (intro audio_invI bridge_sources.stop_keeps bridge_awake.stop_keeps) simp
  show "keeps audio_inv (start_child env rec)" for env rec
    by (intro audio_invI bridge_sources.start_keeps bridge_awake.start_keeps) simp
qed (simp_all add: bridge_client.source.inv_def)

lemma audio_inv_fields [simp]:
  "audio_inv (s\<lparr>ae_stream := st\<rparr>) = audio_inv s" "audio_inv (s\<lparr>ae_piped := p\<rparr>) = audio_inv s" "audio_inv (s\<lparr>ae_quit := q\<rparr>) = audio_inv s"
  "audio_inv (s\<lparr>ae_error := e\<rparr>) = audio_inv s" "audio_inv (s\<lparr>ae_watching := w\<rparr>) = audio_inv s" "audio_inv (s\<lparr>br_running := ru\<rparr>) = audio_inv s"
  "audio_inv (s\<lparr>br_watches := wa\<rparr>) = audio_inv s" "audio_inv (s\<lparr>br_children := ch\<rparr>) = audio_inv s" "audio_inv (s\<lparr>ae_host_dirty := d\<rparr>) = audio_inv s"
  by (simp_all add: bridge_client.source.inv_def audio_awake_def pending_def)

lemma inv_read_host: "env_ok env \<Longrightarrow> keeps audio_inv (audio_read_host env)"
  by (intro audio_call_inv audio_read_host_sources audio_read_host_awake audio_closed_mono)

lemma inv_watch: "env_ok env \<Longrightarrow> keeps audio_inv (audio_watch_status env)"
  unfolding audio_watch_status_def
  by (auto intro!: keeps_intros keeps_upd bridge_source.frame_later inv_read_host)

lemma inv_notify: "keeps audio_inv audio_notify"
  unfolding audio_notify_def by (rule bridge_source.frame_later) simp

lemma inv_on_stream: "keeps audio_inv (on_stream data)"
  by (rule keepsI) (simp add: on_stream_def split: prod.splits)

lemma inv_receive: "keeps audio_inv (audio_receive data)"
  unfolding audio_receive_def
  by (auto intro!: keeps_intros inv_on_stream inv_notify bridge_source.frame_on_graph keeps_upd)

lemma inv_exited: "keeps audio_inv (exited_event name)"
  unfolding exited_event_def child_exited_def
  by (auto intro!: keeps_intros bridge_source.frame_retry keeps_upd split: option.splits)

lemma inv_close: "keeps audio_inv audio_close"
  unfolding audio_close_def by (auto intro!: keeps_intros bridge_client.source.close_inv keeps_upd)

lemma bridge_handle_inv:
  assumes "bridge_event_ok ev"
  shows "keeps audio_inv (bridge_handle ev)"
proof (cases ev)
  case (BridgeFire env ident)
  then show ?thesis using assms by (simp add: bridge_event_ok_def bridge_client.source.fire_inv)
qed (use assms in \<open>auto simp: bridge_event_ok_def audio_run_def audio_status_changed_def receive_event_def audio_quit_def bridge_end_def stop_process_def
      intro!: keeps_intros keeps_finally keeps_upd inv_watch inv_read_host inv_receive inv_exited inv_close
        bridge_source.frame_later bridge_source.frame_restore bridge_source.stop_all_keeps\<close>)

definition bridge_inv :: "audio_bridge \<Rightarrow> bool" where
  "bridge_inv s \<longleftrightarrow> audio_inv s \<and> children_ok s"

interpretation bridge_loop: service "\<lambda>s. s = bridge_new" bridge_step bridge_inv
proof
  show "s = bridge_new \<Longrightarrow> bridge_inv s" for s
    by (simp add: bridge_new_def bridge_inv_def bridge_client.source.inv_def sources_ok_def timers_ok_def audio_awake_def children_ok_def)
  show "bridge_inv s \<Longrightarrow> bridge_step s t \<Longrightarrow> bridge_inv t" for s t
    by (erule bridge_stepE) (simp add: bridge_inv_def keepsD [OF bridge_handle_inv] keepsD [OF bridge_handle_children])
qed

lemma stop_child_listed:
  assumes "map_of (br_children s) name = Some p"
  shows "\<exists>t. stop_child name s = (t, Ret ()) \<and> br_children t = dpop name (br_children s)"
  using assms by (simp add: stop_child_def stop_process_def)

lemma stop_some:
  "distinct names \<Longrightarrow> set names \<subseteq> set (dkeys (br_children s)) \<Longrightarrow>
   \<exists>t. forA (\<lambda>n. if Q n then stop_child n else retA ()) names s = (t, Ret ()) \<and>
     br_children t = filter (\<lambda>(n, _). \<not> (Q n \<and> n \<in> set names)) (br_children s)"
proof (induction names arbitrary: s)
  case (Cons name names)
  obtain t where t: "(if Q name then stop_child name else retA ()) s = (t, Ret ())"
    "br_children t = filter (\<lambda>(n, _). \<not> (Q name \<and> n = name)) (br_children s)"
  proof (cases "Q name")
    case True
    have "map_of (br_children s) name \<noteq> None" using Cons.prems(2) by (auto simp: dkeys_def map_of_eq_None_iff)
    then show thesis using stop_child_listed [of s name] True that by (auto simp: dpop_def)
  qed (simp add: that)
  have "set names \<subseteq> set (dkeys (br_children t))" using Cons.prems by (force simp: t(2) dkeys_def)
  then obtain u where "forA (\<lambda>n. if Q n then stop_child n else retA ()) names t = (u, Ret ())"
    "br_children u = filter (\<lambda>(n, _). \<not> (Q n \<and> n \<in> set names)) (br_children t)"
    using Cons.IH [of t] Cons.prems(1) by auto
  then show ?case using t by (auto simp: thenA_def bindA_def intro!: filter_cong)
qed simp

lemmas stop_listed = stop_some [where Q = "\<lambda>_. True", simplified]

lemma stop_children_all:
  assumes "children_ok s"
  shows "br_children (fst (stop_children s)) = []" "br_running (fst (stop_children s)) = []"
proof -
  obtain t where t: "stop_children s = (t, Ret ())" "br_children t = filter (\<lambda>(n, _). n \<notin> set (dkeys (br_children s))) (br_children s)"
    using stop_listed [of "dkeys (br_children s)" s] assms by (auto simp: stop_children_def children_ok_def wf_dict_def dkeys_def)
  have none: "br_children t = []" unfolding t(2) by (force simp: filter_empty_conv dkeys_def)
  then show "br_children (fst (stop_children s)) = []" using t(1) by simp
  have "children_ok t" using keepsD [OF bridge_children.stop_all_keeps assms] t(1) by simp
  then show "br_running (fst (stop_children s)) = []" using none t(1) by (simp add: children_ok_def)
qed

lemma bridge_end_stops:
  assumes "bridge_inv s"
  shows "br_children (fst (bridge_end env s)) = []" "br_running (fst (bridge_end env s)) = []"
proof -
  have "timers_ok s" using assms by (simp add: bridge_inv_def bridge_client.source.inv_def sources_ok_def)
  then obtain t where t: "audio_close s = (t, Ret ())"
    by (rule close_sources_spec) (simp add: audio_close_def thenA_def bindA_def)
  have ct: "children_ok t" using keepsD [OF children_close, of s] assms t by (simp add: bridge_inv_def)
  obtain u r where u: "restore_defaults env t = (u, r)" by (cases "restore_defaults env t")
  have cu: "children_ok u" using keepsD [OF bridge_children.frame_restore ct, of env] u by simp
  have "fst (bridge_end env s) = fst (stop_children u)"
    using t u by (simp add: bridge_end_def finallyA_def thenA_def bindA_def split: prod.splits outcome.splits)
  then show "br_children (fst (bridge_end env s)) = []" "br_running (fst (bridge_end env s)) = []"
    using stop_children_all [OF cu] by simp_all
qed

section \<open>Properties\<close>

text \<open>C16: in every state the audio bridge can reach, every running loopback process is a child of the bridge under
  one name, and exactly the children are watched, so a loopback that ends is noticed and none is lost; and, once the host
  was read and until the end of the run, the timer that looks at the host again is pending. The end of a run, even if
  restoring the defaults fails, leaves no loopback running.\<close>

theorem bridge_tracks_children:
  assumes "reach (\<lambda>s. s = bridge_new) bridge_step s"
  shows "br_watches s = br_children s \<and> distinct (map fst (br_children s)) \<and> distinct (map snd (br_children s)) \<and>
    set (br_running s) \<subseteq> snd ` set (br_children s) \<and>
    (\<not> tm_closed s \<and> ae_mode s \<noteq> None \<longrightarrow> pending (if ae_host_key s \<noteq> None then ''expiry'' else ''fallback'') s) \<and>
    br_children (fst (bridge_end env s)) = [] \<and> br_running (fst (bridge_end env s)) = []"
proof -
  have "bridge_inv s" using assms by (rule bridge_loop.reach_inv)
  then show ?thesis using bridge_end_stops [of s env]
    unfolding bridge_inv_def bridge_client.source.inv_def children_ok_def audio_awake_def wf_dict_def by blast
qed

section \<open>Children and devices\<close>

definition child_names :: "audio_bridge \<Rightarrow> string set" where
  "child_names s = set (dkeys (br_children s))"

definition record_names :: "records \<Rightarrow> string set" where
  "record_names recs = set (dkeys recs)"

lemma bindA_cases:
  assumes "bindA m f s = (t, r)"
  obtains u x where "m s = (u, Ret x)" "f x u = (t, r)" | r' where "m s = (t, r')" "\<nexists>x. r' = Ret x" "\<nexists>x. r = Ret x"
  using assms by (cases "m s"; cases "snd (m s)") (auto simp: bindA_def)

lemmas thenA_cases = bindA_cases [of m "\<lambda>_. k" for m k, folded thenA_def]

lemma start_child_names:
  assumes "start_child env (name, device, direction) s = (t, r)"
  shows "child_names t = child_names s \<or> child_names t = insert name (child_names s)" "r = Ret () \<Longrightarrow> name \<in> child_names t"
proof -
  obtain u r' where u: "spawn env device direction s = (u, r')" by (cases "spawn env device direction s")
  have "br_children u = br_children s" using u spawn_fails [OF u] by (cases r') (auto elim: spawn_Ret)
  then have "(map_of (br_children s) name \<noteq> None \<and> t = s) \<or> (br_children t = br_children s \<and> r \<noteq> Ret ()) \<or> (\<exists>pid. br_children t = dset name pid (br_children s))"
    using assms u by (cases r'; cases "map_of (br_children s) name") (auto simp: start_child_def bindA_def getA_def)
  then consider "map_of (br_children s) name \<noteq> None" "t = s" | "br_children t = br_children s" "r \<noteq> Ret ()"
    | pid where "br_children t = dset name pid (br_children s)" by blast
  then have "(child_names t = child_names s \<or> child_names t = insert name (child_names s)) \<and> (r = Ret () \<longrightarrow> name \<in> child_names t)"
    by cases (simp_all add: child_names_def dkeys_def map_of_eq_None_iff)
  then show "child_names t = child_names s \<or> child_names t = insert name (child_names s)" "r = Ret () \<Longrightarrow> name \<in> child_names t"
    by simp_all
qed

lemma start_children_names:
  "forA (start_child env) recs s = (t, r) \<Longrightarrow>
   child_names s \<subseteq> child_names t \<and> child_names t \<subseteq> child_names s \<union> record_names recs \<and> (r = Ret () \<longrightarrow> record_names recs \<subseteq> child_names t)"
proof (induction recs arbitrary: s)
  case Nil
  then show ?case by (simp add: record_names_def dkeys_def)
next
  case (Cons rec recs)
  obtain name device direction where rec: "rec = (name, device, direction)" by (cases rec)
  have n: "record_names ((name, device, direction) # recs) = insert name (record_names recs)" by (simp add: record_names_def dkeys_def)
  from Cons.prems have "thenA (start_child env rec) (forA (start_child env) recs) s = (t, r)" by simp
  then show ?case
  proof (rule thenA_cases)
    fix u x assume u: "start_child env rec s = (u, Ret x)" "forA (start_child env) recs u = (t, r)"
    show ?thesis using start_child_names [of env name device direction s u "Ret x"] u(1) Cons.IH [OF u(2)] unfolding rec n by auto
  next
    fix r' assume "start_child env rec s = (t, r')" "\<nexists>x. r = Ret x"
    then show ?thesis using start_child_names(1) [of env name device direction s t r'] unfolding rec n by auto
  qed
qed

lemma sync_children_names:
  assumes "sync_children env recs s = (t, r)" "wf_dict (br_children s)"
  shows "child_names s \<inter> record_names recs \<subseteq> child_names t \<and> child_names t \<subseteq> record_names recs \<and>
    (r = Ret () \<longrightarrow> child_names t = record_names recs)"
proof -
  obtain u where u: "forA (\<lambda>n. if map_of recs n = None then stop_child n else retA ()) (dkeys (br_children s)) s = (u, Ret ())"
    "br_children u = filter (\<lambda>(n, _). \<not> (map_of recs n = None \<and> n \<in> set (dkeys (br_children s)))) (br_children s)"
    using stop_some [of "dkeys (br_children s)" s "\<lambda>n. map_of recs n = None"] assms(2) by (auto simp: wf_dict_def dkeys_def)
  have names: "child_names u = child_names s \<inter> record_names recs"
    by (force simp: child_names_def record_names_def u(2) dkeys_def map_of_eq_None_iff)
  have "forA (start_child env) recs u = (t, r)"
    using assms(1) u(1) by (simp add: sync_children_def thenA_def bindA_def getA_def)
  from start_children_names [OF this] show ?thesis unfolding names by auto
qed

interpretation bridge_same: bridge_frame "\<lambda>s. br_children s = C" for C
proof
  show "keeps (\<lambda>s. br_children s = C) (later name ms cb)" for name ms cb
    by (rule keepsI) (simp add: later_def glib_add_def)
qed simp_all

text \<open>The device list a reconciliation works with: the one it has, unless the host may have changed, or the host's answer.\<close>

definition device_list :: "bridge_env \<Rightarrow> audio_bridge \<Rightarrow> json \<Rightarrow> bool" where
  "device_list env s state \<longleftrightarrow> \<not> ae_host_dirty s \<and> br_state s = Some state \<or> bv_devices env = Ret state"

lemma host_state_cases:
  assumes "host_state env s = (t, r)"
  shows "br_children t = br_children s" "r = Ret state \<Longrightarrow> device_list env s state"
  using assms keepsD [OF bridge_same.frame_host_state, of s "br_children s" env]
  by (auto simp: host_state_def device_list_def split: option.splits if_splits outcome.splits)

lemma remember_original_same: "remember_original objects s = (t, r) \<Longrightarrow> br_children t = br_children s \<and> device_list env t = device_list env s"
  by (auto simp: remember_original_def device_list_def fun_eq_iff split: if_splits outcome.splits)

lemma audio_snapshot_same: "audio_snapshot query s = (t, r) \<Longrightarrow> br_children t = br_children s \<and> device_list env t = device_list env s"
  by (auto simp: audio_snapshot_def on_graph_def device_list_def fun_eq_iff split: prod.splits)

lemma bridge_sync_names:
  assumes "bridge_sync env s = (t, r)" "wf_dict (br_children s)"
  shows "(child_names t = child_names s \<and> (\<nexists>x. r = Ret x)) \<or>
    (\<exists>state recs. device_list env s state \<and> device_records env state = Ret recs \<and>
       child_names s \<inter> record_names recs \<subseteq> child_names t \<and> child_names t \<subseteq> record_names recs \<and>
       (r = Ret () \<longrightarrow> child_names t = record_names recs))"
  (is "?same t r \<or> ?follows t r")
  using assms(1) unfolding bridge_sync_def Let_def
proof (rule bindA_cases)
  fix r' assume "audio_snapshot (bv_query env) s = (t, r')" "\<nexists>x. r = Ret x"
  then show ?thesis using audio_snapshot_same by (auto simp: child_names_def)
next
  fix s1 entries
  assume s1: "audio_snapshot (bv_query env) s = (s1, Ret entries)"
  note a1 = audio_snapshot_same [OF s1, of env]
  assume "thenA (remember_original (map JDict entries))
     (bindA (host_state env) (\<lambda>state.
      bindA (liftA (device_records env state)) (\<lambda>recs.
      thenA (sync_children env recs)
      (bindA (liftA (defaults (map JDict entries))) (\<lambda>current.
         sync_directions env (map JDict entries) recs current KIND state))))) s1 = (t, r)"
  then show ?thesis
  proof (rule thenA_cases)
    fix r' assume "remember_original (map JDict entries) s1 = (t, r')" "\<nexists>x. r = Ret x"
    then show ?thesis using remember_original_same a1 by (auto simp: child_names_def)
  next
    fix s2 x
    assume s2: "remember_original (map JDict entries) s1 = (s2, Ret x)"
    note a2 = remember_original_same [OF s2, of env]
    assume "bindA (host_state env) (\<lambda>state.
      bindA (liftA (device_records env state)) (\<lambda>recs.
      thenA (sync_children env recs)
      (bindA (liftA (defaults (map JDict entries))) (\<lambda>current.
         sync_directions env (map JDict entries) recs current KIND state)))) s2 = (t, r)"
    then show ?thesis
    proof (rule bindA_cases)
      fix r' assume "host_state env s2 = (t, r')" "\<nexists>x. r = Ret x"
      then show ?thesis using host_state_cases(1) a1 a2 by (auto simp: child_names_def)
    next
      fix s3 state
      assume s3: "host_state env s2 = (s3, Ret state)"
      have c3: "br_children s3 = br_children s" and d3: "device_list env s state"
        using host_state_cases(1) [OF s3] host_state_cases(2) [OF s3 refl] a1 a2 by simp_all
      assume rest: "bindA (liftA (device_records env state)) (\<lambda>recs.
        thenA (sync_children env recs)
        (bindA (liftA (defaults (map JDict entries))) (\<lambda>current.
           sync_directions env (map JDict entries) recs current KIND state))) s3 = (t, r)"
      show ?thesis
      proof (cases "device_records env state")
        case (Ret recs)
        let ?tail = "bindA (liftA (defaults (map JDict entries))) (\<lambda>current. sync_directions env (map JDict entries) recs current KIND state)"
        obtain u r' where u: "sync_children env recs s3 = (u, r')" by (cases "sync_children env recs s3")
        have tail: "keeps (\<lambda>s. br_children s = C) ?tail" for C by (intro keeps_intros bridge_same.frame_directions)
        have "thenA (sync_children env recs) ?tail s3 = (t, r)" using rest Ret by simp
        then have "br_children t = br_children u \<and> (r = Ret () \<longrightarrow> r' = Ret ())"
          by (rule thenA_cases) (use u keepsD [OF tail, of u "br_children u"] in auto)
        moreover have "child_names s \<inter> record_names recs \<subseteq> child_names u \<and> child_names u \<subseteq> record_names recs \<and>
            (r' = Ret () \<longrightarrow> child_names u = record_names recs)"
          using sync_children_names [OF u] assms(2) c3 by (simp add: child_names_def)
        ultimately have "?follows t r" using d3 Ret by (auto simp: child_names_def)
        then show ?thesis ..
      qed (use rest c3 in \<open>auto simp: child_names_def\<close>)
    qed
  qed
qed

text \<open>The loopbacks follow the host's devices. A reconciliation either leaves the set of children as it is or works from a
  device list that the host gave: then it stops no loopback whose device is still listed and keeps none whose
  device is gone; when nothing fails, the children are exactly the listed endpoints. So a failing request never takes a
  public endpoint away.\<close>

theorem bridge_children_follow:
  assumes "reach (\<lambda>s. s = bridge_new) bridge_step s" "gr_ready (ae_graph s)" "bridge_reconcile env s = (t, r)"
  shows "(child_names t = child_names s \<or>
     (\<exists>state recs. device_list env s state \<and> device_records env state = Ret recs \<and>
        child_names s \<inter> record_names recs \<subseteq> child_names t \<and> child_names t \<subseteq> record_names recs)) \<and>
    (snd (bridge_sync env s) = Ret () \<longrightarrow>
     (\<exists>state recs. device_list env s state \<and> device_records env state = Ret recs \<and> child_names t = record_names recs))"
proof -
  have wf: "wf_dict (br_children s)" using bridge_loop.reach_inv [OF assms(1)] by (simp add: bridge_inv_def children_ok_def)
  obtain u r' where u: "bridge_sync env s = (u, r')" by (cases "bridge_sync env s")
  have "br_children (fst (bridge_failed env u)) = br_children u"
    using keepsD [OF bridge_same.frame_failed, of u "br_children u" env] by simp
  then have "child_names t = child_names u"
    using assms(2,3) u by (cases r') (auto simp: bridge_reconcile_def catchA_def child_names_def split: if_splits)
  then show ?thesis using bridge_sync_names [OF u wf] u by auto
qed

section \<open>A run\<close>

definition sample_audio_host :: host_env where
  "sample_audio_host = \<lparr>ev_status = \<lparr>st_mtime = Ret 100, st_now = 101,
       st_json = Ret (JDict [(''ok'', JBool True), (''statusTransport'', JStr ''virtio-serial''),
         (''audioRevision'', JStr ''r1''), (''active'', JBool True)])\<rparr>, ev_monitor = True\<rparr>"

definition sample_audio_env :: bridge_env where
  "sample_audio_env = \<lparr>bv_host = sample_audio_host, bv_sha256 = (\<lambda>uid. uid @ ''-digest''), bv_query = (\<lambda>_. Ret []),
     bv_devices = Ret (JDict [(''devices'', JList [JDict [(''uid'', JStr ''usb''), (''name'', JStr ''Speaker''), (''output'', JBool True),
       (''input'', JBool False), (''defaultOutput'', JBool False), (''defaultInput'', JBool False)]])]),
     bv_select = (\<lambda>_ _. Ret JNull), bv_wpctl = (\<lambda>_. Ret ()), bv_popen = (\<lambda>_. Ret ()), bv_volume = sample_inputs,
     bv_clock = (\<lambda>_. 0), bv_clock_after = (\<lambda>_. 0), bv_dump = Ret []\<rparr>"

definition sample_run :: audio_bridge where
  "sample_run = fst (bridge_handle (BridgeReceive (Ret [91, 93])) (fst (bridge_handle (BridgeRun sample_audio_env 0) bridge_new)))"

lemma sample_run_reach: "reach (\<lambda>s. s = bridge_new) bridge_step sample_run"
proof -
  have "bridge_step bridge_new (fst (bridge_handle (BridgeRun sample_audio_env 0) bridge_new))"
    by (rule bridge_stepI) (simp add: bridge_event_ok_def env_ok_def sample_audio_env_def sample_audio_host_def)
  then have "reach (\<lambda>s. s = bridge_new) bridge_step (fst (bridge_handle (BridgeRun sample_audio_env 0) bridge_new))"
    by (rule reach_step [OF reach_init [of "\<lambda>s. s = bridge_new", OF refl]])
  moreover have "bridge_step s (fst (bridge_handle (BridgeReceive d) s))" for s d
    by (rule bridge_stepI) (simp add: bridge_event_ok_def)
  ultimately show ?thesis unfolding sample_run_def by (rule reach_step)
qed

lemma sample_feed: "stream_feed [91, 93] stream_new = (stream_new, Ret [[]])"
proof -
  have "utf8_decode (map uint [91 :: byte, 93]) = Some ([91, 93], [])" by code_simp
  moreover have "stream_drain [91, 93] = ([], Ret [[]])" by code_simp
  ultimately show ?thesis by (simp add: stream_feed_def stream_new_def)
qed

lemma sample_run_state:
  "tm_glib sample_run = [(1, ''reconcile'', 40, AudioReconcile), (2, ''expiry'', 24000, AudioReadHost)]"
  "gr_ready (ae_graph sample_run)" "ae_host_dirty sample_run" "br_state sample_run = None" "br_children sample_run = []"
  "gr_nodes (ae_graph sample_run) = []" "gr_metadata (ae_graph sample_run) = []" "gr_dirty (ae_graph sample_run) = []"
  "tm_closed sample_run = False" "ae_mode sample_run \<noteq> None" "br_observed sample_run = []"
  "br_pending sample_run = []" "br_original sample_run = None"
  by (simp_all add: sample_run_def sample_audio_env_def sample_audio_host_def bridge_new_def audio_run_def audio_watch_status_def
      audio_read_host_def audio_ops audio_host_revision_def host_revision_of_def str_len_def utf8_continuation_def wifi_mode_def later_def glib_add_def
      remove_source_def expiry_ms_def dict_get_def receive_event_def audio_receive_def on_stream_def sample_feed on_graph_def
      graph_update_def graph_new_def act_defs)

definition sample_endpoint :: string where
  "sample_endpoint = ''linuxhost.output.usb-digest''"

definition fresh_bridge :: "audio_bridge \<Rightarrow> bool" where
  "fresh_bridge s \<longleftrightarrow> ae_host_dirty s \<and> gr_ready (ae_graph s) \<and> gr_nodes (ae_graph s) = [] \<and> gr_metadata (ae_graph s) = [] \<and> gr_dirty (ae_graph s) = [] \<and>
     br_children s = [] \<and> br_observed s = [] \<and> br_pending s = [] \<and> br_original s = None"

lemma sample_fresh: "fresh_bridge sample_run"
  by (simp add: fresh_bridge_def sample_run_state)

lemma sample_sync:
  assumes "fresh_bridge s"
  shows "snd (bridge_sync sample_audio_env s) = Ret ()"
    "br_children (fst (bridge_sync sample_audio_env s)) = [(sample_endpoint, br_next s)]"
  using assms
  by (simp_all add: fresh_bridge_def bridge_sync_def audio_snapshot_def on_graph_def graph_snapshot_def remember_original_def defaults_def host_state_def
      sample_audio_env_def device_records_def device_record_def KIND_def sync_children_def start_child_def spawn_def
      bridge_log_def sync_direction_def await_default_def select_device_def default_device_def follow_host_def sync_volume_def
      dkeys_def sample_endpoint_def Let_def act_defs)

lemma sample_reconcile:
  assumes "fresh_bridge s"
  shows "br_children (fst (bridge_reconcile sample_audio_env s)) = [(sample_endpoint, br_next s)]"
  using assms sample_sync [OF assms]
  by (cases "bridge_sync sample_audio_env s") (simp add: bridge_reconcile_def catchA_def fresh_bridge_def)

theorem bridge_children_follow_witness:
  "\<exists>t r. bridge_reconcile sample_audio_env sample_run = (t, r) \<and> child_names sample_run = {} \<and> child_names t \<noteq> {} \<and>
     (\<exists>state recs. device_list sample_audio_env sample_run state \<and> device_records sample_audio_env state = Ret recs \<and> child_names t = record_names recs)"
proof -
  obtain t r where tr: "bridge_reconcile sample_audio_env sample_run = (t, r)" by fastforce
  then have "child_names t = {sample_endpoint}" using sample_reconcile [OF sample_fresh] by (simp add: child_names_def dkeys_def)
  moreover have "child_names sample_run = {}" using sample_run_state by (simp add: child_names_def dkeys_def)
  ultimately show ?thesis
    using bridge_children_follow [OF sample_run_reach sample_run_state(2) tr] sample_sync(1) [OF sample_fresh] tr by auto
qed

theorem bridge_tracks_children_witness:
  "\<exists>s. br_children s \<noteq> [] \<and> br_watches s = br_children s \<and> br_children (fst (bridge_end sample_audio_env s)) = []"
proof -
  let ?s = "fst (bridge_handle (BridgeFire sample_audio_env 1) sample_run)"
  have "bridge_step sample_run ?s"
    by (rule bridge_stepI) (simp add: bridge_event_ok_def env_ok_def sample_audio_env_def sample_audio_host_def)
  with sample_run_reach have r: "reach (\<lambda>s. s = bridge_new) bridge_step ?s" by (rule reach_step)
  have "?s = fst (bridge_reconcile sample_audio_env (without_source ''reconcile'' 1 sample_run))"
    by (simp add: fire_def sample_run_state without_source_def)
  moreover have "fresh_bridge (without_source ''reconcile'' 1 sample_run)"
    using sample_fresh by (simp add: fresh_bridge_def without_source_def)
  ultimately have "br_children ?s \<noteq> []" by (simp add: sample_reconcile)
  then show ?thesis using bridge_tracks_children [OF r, of sample_audio_env] by blast
qed

end
