(* ===== verification/Camera_Shared.thy ===== *)
theory Camera_Shared
  imports Pyvalue
begin

unbundle bit_operations_syntax

text \<open>
  \<^verbatim>\<open>guest/devices/camera_shared.py\<close>: the camera stream. Frames are described over a private socket and copied from a
  read-only PCI BAR; here are the search for the device, the requests, and the life of one stream (\<^verbatim>\<open>CameraStream\<close>).

  The contents of sysfs, the lines of the host and what the C library's map and copy return are inputs; the requests and
  the calls of the library are a log. A picture is a number; \<open>None\<close> is a buffer of zeros.
\<close>

section \<open>Numbers and UUIDs in text\<close>

function text_words :: "string \<Rightarrow> string list" where
  "text_words s =
     (case dropWhile ascii_space s of
        [] \<Rightarrow> []
      | c # cs \<Rightarrow> takeWhile (\<lambda>x. \<not> ascii_space x) (c # cs) # text_words (dropWhile (\<lambda>x. \<not> ascii_space x) (c # cs)))"
  by pat_completeness auto
termination
proof (relation "measure length")
  fix s :: string and c cs
  assume s: "dropWhile ascii_space s = c # cs"
  then have "\<not> ascii_space c" by (metis hd_dropWhile list.distinct(1) list.sel(1))
  then have "length (dropWhile (\<lambda>x. \<not> ascii_space x) (c # cs)) \<le> length cs" by (simp add: length_dropWhile_le)
  also have "\<dots> < length s" using s length_dropWhile_le [of ascii_space s] by simp
  finally show "(dropWhile (\<lambda>x. \<not> ascii_space x) (c # cs), s) \<in> measure length" by simp
qed simp

declare text_words.simps [simp del]

definition line_end :: "char \<Rightarrow> bool" where
  "line_end c \<longleftrightarrow> (of_char c :: nat) \<in> {10, 11, 12, 13, 28, 29, 30}"

definition int16 :: "string \<Rightarrow> int outcome" where
  "int16 s =
     (let t = strip_spaces s;
          negative = (case t of [] \<Rightarrow> False | c # _ \<Rightarrow> c = CHR ''-'');
          body = drop_0x (if negative then tl t else drop_plus t) in
      if digits16 False body then Ret (if negative then - int (hex_value body) else int (hex_value body))
      else Exc (ValueError ''invalid literal for int() with base 16''))"

definition upper_hex :: "nat \<Rightarrow> char" where
  "upper_hex n = (if n < 10 then char_of (48 + n) else char_of (55 + n))"

text \<open>\<^verbatim>\<open>str(uuid).upper()\<close>: 32 digits in groups of 8, 4, 4, 4 and 12.\<close>

definition uuid_upper :: "nat \<Rightarrow> string" where
  "uuid_upper n =
     (let h = map (\<lambda>i. upper_hex (n div 16 ^ (31 - i) mod 16)) [0..<32] in
      py_slice 0 8 h @ ''-'' @ py_slice 8 12 h @ ''-'' @ py_slice 12 16 h @ ''-'' @ py_slice 16 20 h @ ''-'' @ py_slice 20 32 h)"

definition stream_uuid :: "json \<Rightarrow> nat outcome" where
  "stream_uuid v = bindO (check_uuid v) (\<lambda>_. case v of JStr s \<Rightarrow> Ret (uuid_value s) | _ \<Rightarrow> Exc (AttributeError ''replace''))"

section \<open>The memory device\<close>

definition MEMORY_BYTES :: int where "MEMORY_BYTES = 8 * 1024 * 1024"
definition FRAME_BYTES :: int where "FRAME_BYTES = 1280 * 720 * 3 div 2"

text \<open>One entry of \<^verbatim>\<open>/sys/bus/pci/devices\<close>: its files, and owner and mode of the two resource files.\<close>

record pci_device =
  pci_path :: string
  pci_vendor :: string
  pci_id :: string
  pci_resource :: string
  pci_enable :: string
  pci_files :: "(string \<times> int \<times> int) list"

datatype pci_effect = PciEnable string | PciRootOnly string string

definition pci_region :: "string \<Rightarrow> (int \<times> int \<times> int) outcome" where
  "pci_region text =
     (if text = [] then Exc (IndexError ''list index out of range'') else
      bindO (mapO int16 (text_words (takeWhile (\<lambda>c. \<not> line_end c) text))) (\<lambda>parts.
        case parts of [a, b, c] \<Rightarrow> Ret (a, b, c) | _ \<Rightarrow> Exc (ValueError ''values to unpack'')))"

definition pci_candidate :: "pci_device \<Rightarrow> bool outcome" where
  "pci_candidate d =
     (if (strip_spaces (pci_vendor d), strip_spaces (pci_id d)) \<noteq> (''0x1234'', ''0x11f0'') then Ret False else
      bindO (pci_region (pci_resource d)) (\<lambda>(start, last, flags).
        Ret (start \<noteq> 0 \<and> last - start + 1 = MEMORY_BYTES \<and> flags AND 0x200 \<noteq> 0)))"

fun pci_candidates :: "pci_device list \<Rightarrow> pci_device list outcome" where
  "pci_candidates [] = Ret []"
| "pci_candidates (d # ds) =
     bindO (pci_candidate d) (\<lambda>c. bindO (pci_candidates ds) (\<lambda>cs. Ret (if c then d # cs else cs)))"

definition resource_path :: "pci_device list \<Rightarrow> (pci_effect list \<times> string) outcome" where
  "resource_path devices =
     bindO (pci_candidates devices) (\<lambda>found.
       case found of
         [d] \<Rightarrow>
           Ret ((if strip_spaces (pci_enable d) = ''0'' then [PciEnable (pci_path d)] else []) @
                concat (map (\<lambda>(name, owner, mode). if owner \<noteq> 0 \<or> mode \<noteq> 384 then [PciRootOnly (pci_path d) name] else []) (pci_files d)),
             pci_path d @ ''/resource0_wc'')
       | _ \<Rightarrow> Exc (RuntimeError ''Expected exactly one 8 MiB camera memory device''))"

section \<open>A stream\<close>

type_synonym picture = nat

datatype camera_request = CameraStart | CameraNext "string option" int | CameraStop string

datatype camera_effect =
    Pci pci_effect
  | Asked camera_request
  | Mapped string
  | Unmapped
  | Copied int bytes int

record camera =
  cm_mapped :: bool
  cm_stream :: "string option"
  cm_generation :: bytes
  cm_sequence :: int
  cm_pixels :: "picture option"
  cm_log :: "camera_effect list"

record camera_env =
  ce_devices :: "pci_device list"
  ce_map :: bool
  ce_line :: "camera_request \<Rightarrow> bytes outcome"
  ce_loads :: "bytes \<Rightarrow> json outcome"
  ce_copy :: "int \<Rightarrow> bytes \<Rightarrow> int \<Rightarrow> int \<times> picture option"

definition camera_new :: camera where
  "camera_new = \<lparr>cm_mapped = False, cm_stream = None, cm_generation = [], cm_sequence = 0, cm_pixels = None, cm_log = []\<rparr>"

definition camera_log :: "camera_effect \<Rightarrow> (camera, unit) act" where
  "camera_log eff = updA (\<lambda>c. c\<lparr>cm_log := cm_log c @ [eff]\<rparr>)"

definition camera_reply :: "(bytes \<Rightarrow> json outcome) \<Rightarrow> bytes outcome \<Rightarrow> dict outcome" where
  "camera_reply loads line =
     bindO line (\<lambda>data.
       if length data > 4096 \<or> data = [] \<or> last data \<noteq> 10 then Exc (ValueError ''Invalid camera reply'') else
       bindO (loads data) (\<lambda>reply.
         case reply of
           JDict d \<Rightarrow> if dict_get d ''ok'' = JBool True then Ret d else Exc (ValueError ''Host camera request failed'')
         | _ \<Rightarrow> Exc (ValueError ''Host camera request failed'')))"

definition camera_rpc :: "camera_env \<Rightarrow> camera_request \<Rightarrow> (camera, dict) act" where
  "camera_rpc env req = thenA (camera_log (Asked req)) (liftA (camera_reply (ce_loads env) (ce_line env req)))"

definition camera_release :: "(camera, unit) act" where
  "camera_release =
     thenA (updA (\<lambda>c. c\<lparr>cm_stream := None\<rparr>))
     (thenA (bindA (getA cm_mapped) (\<lambda>mapped.
               if mapped then thenA (camera_log Unmapped) (updA (\<lambda>c. c\<lparr>cm_mapped := False\<rparr>)) else retA ()))
            (updA (\<lambda>c. c\<lparr>cm_pixels := None\<rparr>)))"

definition camera_exit :: "camera_env \<Rightarrow> (camera, unit) act" where
  "camera_exit env =
     finallyA
       (catchA
          (bindA (getA cm_stream) (\<lambda>stream.
             case stream of
               None \<Rightarrow> retA ()
             | Some s \<Rightarrow> if s = [] then retA () else bindA (camera_rpc env (CameraStop s)) (\<lambda>_. retA ())))
          (\<lambda>e. is_OSError e \<or> is_ValueError e) (\<lambda>_. retA ()))
       camera_release"

text \<open>\<^verbatim>\<open>except BaseException: handler; raise\<close>.\<close>

definition on_error :: "('s, 'a) act \<Rightarrow> ('s, unit) act \<Rightarrow> ('s, 'a) act" where
  "on_error m h = (\<lambda>s. case m s of
       (t, Exc e) \<Rightarrow> (case h t of (u, Ret _) \<Rightarrow> (u, Exc e) | (u, Exc e') \<Rightarrow> (u, Exc e') | (u, NoRet) \<Rightarrow> (u, NoRet))
     | (t, Ret x) \<Rightarrow> (t, Ret x)
     | (t, NoRet) \<Rightarrow> (t, NoRet))"

definition camera_format :: "dict \<Rightarrow> bool" where
  "camera_format reply \<longleftrightarrow>
     py_eq (dict_get reply ''width'') (JInt 1280) \<and> py_eq (dict_get reply ''height'') (JInt 720) \<and>
     py_eq (dict_get reply ''format'') (JStr ''nv12'') \<and> py_eq (dict_get reply ''memoryBytes'') (JInt MEMORY_BYTES)"

definition camera_start :: "camera_env \<Rightarrow> (camera, unit) act" where
  "camera_start env =
     bindA (camera_rpc env CameraStart) (\<lambda>reply.
     bindA (liftA (bindO (jitem (JDict reply) ''stream'') stream_uuid)) (\<lambda>ident.
     thenA (updA (\<lambda>c. c\<lparr>cm_stream := Some (uuid_upper ident), cm_generation := to_be 16 ident\<rparr>))
           (if camera_format reply then retA () else excA (ValueError ''Unexpected camera format''))))"

definition camera_enter :: "camera_env \<Rightarrow> (camera, unit) act" where
  "camera_enter env =
     bindA (liftA (resource_path (ce_devices env))) (\<lambda>(effects, path).
     thenA (forA (\<lambda>e. camera_log (Pci e)) effects)
     (thenA (camera_log (Mapped path))
     (thenA (updA (\<lambda>c. c\<lparr>cm_mapped := ce_map env\<rparr>))
     (if \<not> ce_map env then excA (OSError 0 ''Cannot map camera memory read-only'')
      else on_error (camera_start env) (camera_exit env)))))"

definition frame_descriptor :: "dict \<Rightarrow> string option \<Rightarrow> int \<Rightarrow> (int \<times> int) option" where
  "frame_descriptor reply stream acked =
     (case (dict_get reply ''slot'', dict_get reply ''sequence'') of
        (JInt slot, JInt sequence) \<Rightarrow>
          if dict_get reply ''stream'' = (case stream of None \<Rightarrow> JNull | Some s \<Rightarrow> JStr s) \<and>
             0 \<le> slot \<and> slot < 3 \<and> acked < sequence \<and> sequence \<le> 0x7fffffff \<and>
             py_eq (dict_get reply ''width'') (JInt 1280) \<and> py_eq (dict_get reply ''height'') (JInt 720) \<and>
             py_eq (dict_get reply ''bytes'') (JInt FRAME_BYTES) \<and> py_eq (dict_get reply ''format'') (JStr ''nv12'')
          then Some (slot, sequence) else None
      | _ \<Rightarrow> None)"

definition camera_frame :: "camera_env \<Rightarrow> (camera, picture option) act" where
  "camera_frame env =
     bindA (getA (\<lambda>c. (cm_stream c, cm_sequence c))) (\<lambda>(stream, acked).
     bindA (camera_rpc env (CameraNext stream acked)) (\<lambda>reply.
       case frame_descriptor reply stream acked of
         None \<Rightarrow> excA (ValueError ''Invalid camera frame descriptor'')
       | Some (slot, sequence) \<Rightarrow>
           bindA (getA cm_generation) (\<lambda>generation.
           thenA (camera_log (Copied slot generation sequence))
           (case ce_copy env slot generation sequence of
              (code, scratch) \<Rightarrow>
                thenA (updA (\<lambda>c. c\<lparr>cm_pixels := scratch\<rparr>))
                (if code \<noteq> 0 then excA (ValueError ''Revoked or inconsistent camera frame'')
                 else thenA (updA (\<lambda>c. c\<lparr>cm_sequence := sequence\<rparr>)) (retA scratch))))))"

section \<open>A stream leaves nothing behind\<close>

definition camera_closed :: "camera \<Rightarrow> bool" where
  "camera_closed c \<longleftrightarrow> \<not> cm_mapped c \<and> cm_stream c = None \<and> cm_pixels c = None"

lemma camera_release_closed: "\<exists>t. camera_release c = (t, Ret ()) \<and> camera_closed t"
  by (simp add: camera_release_def camera_log_def camera_closed_def act_defs)

lemma finallyA_release: "camera_closed (fst (finallyA m camera_release c))"
  using camera_release_closed by (auto simp: finallyA_def split: prod.splits outcome.splits) (metis fst_conv outcome.simps prod.inject)+

lemma camera_exit_closed: "camera_closed (fst (camera_exit env c))"
  unfolding camera_exit_def by (rule finallyA_release)

lemma camera_rpc_state: "camera_rpc env req c = (t, r) \<Longrightarrow> \<exists>lg. t = c\<lparr>cm_log := lg\<rparr>"
  by (auto simp: camera_rpc_def camera_log_def liftA_def)

lemma on_error_cases:
  assumes "on_error m h s = (t, r)"
  obtains x where "m s = (t, Ret x)" "r = Ret x" | "m s = (t, NoRet)" "r = NoRet"
  | u e where "m s = (u, Exc e)" "t = fst (h u)" "\<nexists>x. r = Ret x"
  using assms by (cases "m s"; cases "snd (m s)") (auto simp: on_error_def split: prod.splits outcome.splits)

lemma camera_start_Ret:
  assumes "camera_start env c = (t, Ret ())"
  obtains ident where "cm_stream t = Some (uuid_upper ident)" "cm_generation t = to_be 16 ident" "cm_mapped t = cm_mapped c" "cm_sequence t = cm_sequence c"
  using assms camera_rpc_state by (auto simp: camera_start_def bindA_eq_Ret thenA_eq_Ret simp del: act_at(2) split: if_splits) fastforce

lemma camera_log_all: "\<exists>lg. forA (\<lambda>e. camera_log (Pci e)) es c = (c\<lparr>cm_log := lg\<rparr>, Ret ())"
proof (induction es arbitrary: c)
  case Nil
  show ?case by (rule exI [of _ "cm_log c"]) simp
next
  case (Cons e es)
  then show ?case using Cons [of "c\<lparr>cm_log := cm_log c @ [Pci e]\<rparr>"] by (auto simp: camera_log_def thenA_def bindA_def updA_def)
qed

lemma camera_enter_cases:
  assumes "camera_enter env c = (t, r)" "camera_closed c" "r \<noteq> NoRet"
  shows "camera_closed t \<and> (\<nexists>x. r = Ret x) \<or>
    r = Ret () \<and> cm_mapped t \<and> (\<exists>ident. cm_stream t = Some (uuid_upper ident) \<and> cm_generation t = to_be 16 ident) \<and> cm_sequence t = cm_sequence c"
proof (cases "resource_path (ce_devices env)")
  case (Ret p)
  obtain es path where p: "p = (es, path)" by (cases p)
  obtain lg where lg: "forA (\<lambda>e. camera_log (Pci e)) es c = (c\<lparr>cm_log := lg\<rparr>, Ret ())" using camera_log_all by blast
  let ?c = "c\<lparr>cm_log := lg @ [Mapped path], cm_mapped := ce_map env\<rparr>"
  have e: "camera_enter env c =
      (if \<not> ce_map env then excA (OSError 0 ''Cannot map camera memory read-only'') else on_error (camera_start env) (camera_exit env)) ?c"
    using lg Ret p by (simp add: camera_enter_def camera_log_def [of "Mapped _"] thenA_def [of "forA _ _"] bindA_def [of "forA _ _"])
  show ?thesis
  proof (cases "ce_map env")
    case False
    then show ?thesis using e assms(1,2) by (auto simp: camera_closed_def)
  next
    case True
    then have "on_error (camera_start env) (camera_exit env) ?c = (t, r)" using e assms(1) by simp
    then show ?thesis
    proof (rule on_error_cases)
      fix x assume "camera_start env ?c = (t, Ret x)" "r = Ret x"
      then show ?thesis using True by (auto elim!: camera_start_Ret)
    qed (use camera_exit_closed assms(3) in auto)
  qed
qed (use assms in \<open>auto simp: camera_enter_def\<close>)

section \<open>Frames\<close>

lemma frame_descriptor_bounds:
  "frame_descriptor reply stream acked = Some (slot, sequence) \<Longrightarrow>
   0 \<le> slot \<and> slot < 3 \<and> acked < sequence \<and> sequence \<le> 0x7fffffff \<and>
   dict_get reply ''stream'' = (case stream of None \<Rightarrow> JNull | Some s \<Rightarrow> JStr s)"
  by (auto simp: frame_descriptor_def split: json.splits if_splits)

lemma camera_rpc_at:
  "camera_rpc env req c = (c\<lparr>cm_log := cm_log c @ [Asked req]\<rparr>, camera_reply (ce_loads env) (ce_line env req))"
  by (simp add: camera_rpc_def camera_log_def liftA_def)

lemma camera_frame_at:
  "camera_frame env c =
     (let req = CameraNext (cm_stream c) (cm_sequence c); c1 = c\<lparr>cm_log := cm_log c @ [Asked req]\<rparr> in
      case camera_reply (ce_loads env) (ce_line env req) of
        Ret reply \<Rightarrow>
          (case frame_descriptor reply (cm_stream c) (cm_sequence c) of
             None \<Rightarrow> (c1, Exc (ValueError ''Invalid camera frame descriptor''))
           | Some (slot, sequence) \<Rightarrow>
               (let c2 = c1\<lparr>cm_log := cm_log c @ [Asked req, Copied slot (cm_generation c) sequence],
                  cm_pixels := snd (ce_copy env slot (cm_generation c) sequence)\<rparr> in
                if fst (ce_copy env slot (cm_generation c) sequence) \<noteq> 0
                then (c2, Exc (ValueError ''Revoked or inconsistent camera frame''))
                else (c2\<lparr>cm_sequence := sequence\<rparr>, Ret (snd (ce_copy env slot (cm_generation c) sequence)))))
      | Exc e \<Rightarrow> (c1, Exc e)
      | NoRet \<Rightarrow> (c1, NoRet))"
  by (simp add: camera_frame_def bindA_def [of "camera_rpc _ _"] camera_rpc_at camera_log_def Let_def split: outcome.splits option.splits prod.splits)

lemma camera_frame_state:
  assumes "camera_frame env c = (t, r)"
  shows "cm_mapped t = cm_mapped c" "cm_stream t = cm_stream c" "cm_generation t = cm_generation c"
  using assms by (auto simp: camera_frame_at Let_def split: outcome.splits option.splits if_splits)


definition sample_frame_env :: camera_env where
  "sample_frame_env = \<lparr>ce_devices = [], ce_map = True, ce_line = (\<lambda>_. Ret [10]),
     ce_loads = (\<lambda>_. Ret (JDict [(''ok'', JBool True), (''stream'', JStr ''S''), (''slot'', JInt 2), (''sequence'', JInt 8), (''width'', JInt 1280),
       (''height'', JInt 720), (''bytes'', JInt 1382400), (''format'', JStr ''nv12'')])), ce_copy = (\<lambda>slot generation sequence. (0, Some 5))\<rparr>"


end
