(* ===== verification/Camera_Demand.thy ===== *)
theory Camera_Demand
  imports Camera_Shared
begin

text \<open>
  \<^verbatim>\<open>guest/devices/camera_demand.py\<close>: the service that keeps a V4L2 device fed, with black frames while no program reads
  it and with the host's camera while one does (\<^verbatim>\<open>serve\<close>).

  It runs three threads over five \<^verbatim>\<open>threading.Event\<close>s: the main loop, the watch of the demand monitor and the watch of
  the writer process; the signal handler runs in the main thread between two of its operations. The model is an
  interleaving of their atomic operations, one program point per test or change of an event. The state of the current
  stream is that of \<open>Camera_Shared\<close>. The status lines that the service prints are left out.
\<close>

section \<open>State\<close>

text \<open>The program points of the main loop, named after what is executed next. \<open>Blank\<close> and \<open>Leave\<close> carry the exception
  that the \<^verbatim>\<open>finally\<close> block re-raises.\<close>

datatype main_pc =
    Prime
  | LoopTest
  | ClearChanged
  | TestStopping
  | TestWriter
  | TestMonitor
  | TestActive
  | AwaitChange
  | Enter
  | StreamActive
  | StreamStopping
  | NextFrame
  | CheckActive "picture option"
  | CheckStopping "picture option"
  | WriteFrame "picture option"
  | Leave "exn option"
  | Blank "exn option"
  | Recover
  | Pause
  | Ended "exn option"

datatype watch_pc = Reading | NotifyLine | MonitorLost | NotifyLost | WatchEnded

datatype writer_pc = WriterRunning | NotifyWriter | WriterEnded

datatype output_frame = Black | Picture "picture option"

record demand =
  dm_pc :: main_pc
  dm_watch :: watch_pc
  dm_writer :: writer_pc
  dm_active :: bool
  dm_stopping :: bool
  dm_changed :: bool
  dm_writer_done :: bool
  dm_monitor_done :: bool
  dm_camera :: camera
  dm_out :: "output_frame list"

definition demand_new :: demand where
  "demand_new = \<lparr>dm_pc = Prime, dm_watch = Reading, dm_writer = WriterRunning, dm_active = False, dm_stopping = False,
     dm_changed = False, dm_writer_done = False, dm_monitor_done = False, dm_camera = camera_new, dm_out = []\<rparr>"

text \<open>What one operation of the main thread meets: the camera, and the outcomes of its writes to the pipe.\<close>

record demand_env =
  de_camera :: camera_env
  de_write :: "nat \<Rightarrow> unit outcome"

section \<open>The main loop\<close>

definition dm_write :: "demand_env \<Rightarrow> nat \<Rightarrow> output_frame \<Rightarrow> (demand, unit) act" where
  "dm_write env i frame = thenA (liftA (de_write env i)) (updA (\<lambda>d. d\<lparr>dm_out := dm_out d @ [frame]\<rparr>))"

text \<open>Four black frames and a flush.\<close>

definition write_black :: "demand_env \<Rightarrow> (demand, unit) act" where
  "write_black env = thenA (forA (\<lambda>i. dm_write env i Black) [0..<4]) (liftA (de_write env 4))"

definition on_camera :: "(camera, 'a) act \<Rightarrow> (demand, 'a) act" where
  "on_camera m = (\<lambda>d. case m (dm_camera d) of (c, r) \<Rightarrow> (d\<lparr>dm_camera := c\<rparr>, r))"

definition demand_caught :: "exn \<Rightarrow> bool" where
  "demand_caught e \<longleftrightarrow> is_OSError e \<or> is_ValueError e \<or> is_RuntimeError e"

definition after_error :: "exn \<Rightarrow> exn option" where
  "after_error e = (if demand_caught e then None else Some e)"

text \<open>Where an operation continues: \<open>ok\<close> after it returned, \<open>failed e\<close> after it raised.\<close>

definition dm_branch :: "(demand, 'a) act \<Rightarrow> ('a \<Rightarrow> main_pc) \<Rightarrow> (exn \<Rightarrow> main_pc) \<Rightarrow> demand \<Rightarrow> demand" where
  "dm_branch m ok failed d =
     (case m d of (t, Ret x) \<Rightarrow> t\<lparr>dm_pc := ok x\<rparr> | (t, Exc e) \<Rightarrow> t\<lparr>dm_pc := failed e\<rparr> | (t, NoRet) \<Rightarrow> d)"

fun demand_main :: "demand_env \<Rightarrow> main_pc \<Rightarrow> demand \<Rightarrow> demand" where
  "demand_main env Prime d = dm_branch (write_black env) (\<lambda>_. LoopTest) (\<lambda>e. Ended (Some e)) d"
| "demand_main env LoopTest d = d\<lparr>dm_pc := (if dm_stopping d then Ended None else ClearChanged)\<rparr>"
| "demand_main env ClearChanged d = d\<lparr>dm_changed := False, dm_pc := TestStopping\<rparr>"
| "demand_main env TestStopping d = d\<lparr>dm_pc := (if dm_stopping d then Ended None else TestWriter)\<rparr>"
| "demand_main env TestWriter d =
     d\<lparr>dm_pc := (if dm_writer_done d then Ended (Some (RuntimeError ''Camera producer exited'')) else TestMonitor)\<rparr>"
| "demand_main env TestMonitor d =
     d\<lparr>dm_pc := (if dm_monitor_done d then Ended (Some (RuntimeError ''Camera demand monitor exited'')) else TestActive)\<rparr>"
| "demand_main env TestActive d = d\<lparr>dm_pc := (if \<not> dm_active d then AwaitChange else Enter)\<rparr>"
| "demand_main env AwaitChange d = (if dm_changed d then d\<lparr>dm_pc := LoopTest\<rparr> else d)"
| "demand_main env Enter d =
     dm_branch (thenA (updA (\<lambda>d. d\<lparr>dm_camera := camera_new\<lparr>cm_log := cm_log (dm_camera d)\<rparr>\<rparr>)) (on_camera (camera_enter (de_camera env))))
       (\<lambda>_. StreamActive) (\<lambda>e. Blank (after_error e)) d"
| "demand_main env StreamActive d = d\<lparr>dm_pc := (if dm_active d then StreamStopping else Leave None)\<rparr>"
| "demand_main env StreamStopping d = d\<lparr>dm_pc := (if \<not> dm_stopping d then NextFrame else Leave None)\<rparr>"
| "demand_main env NextFrame d =
     dm_branch (on_camera (camera_frame (de_camera env))) CheckActive (\<lambda>e. Leave (Some e)) d"
| "demand_main env (CheckActive p) d = d\<lparr>dm_pc := (if \<not> dm_active d then Leave None else CheckStopping p)\<rparr>"
| "demand_main env (CheckStopping p) d = d\<lparr>dm_pc := (if dm_stopping d then Leave None else WriteFrame p)\<rparr>"
| "demand_main env (WriteFrame p) d =
     dm_branch (thenA (dm_write env 0 (Picture p)) (liftA (de_write env 1))) (\<lambda>_. StreamActive) (\<lambda>e. Leave (Some e)) d"
| "demand_main env (Leave r) d =
     dm_branch (on_camera (camera_exit (de_camera env))) (\<lambda>_. Blank (case r of None \<Rightarrow> None | Some e \<Rightarrow> after_error e)) (\<lambda>e. Blank (after_error e)) d"
| "demand_main env (Blank r) d =
     dm_branch (write_black env) (\<lambda>_. case r of None \<Rightarrow> Recover | Some e \<Rightarrow> Ended (Some e)) (\<lambda>e. Ended (Some e)) d"
| "demand_main env Recover d = d\<lparr>dm_pc := (if dm_active d then Pause else LoopTest)\<rparr>"
| "demand_main env Pause d = d\<lparr>dm_pc := LoopTest\<rparr>"
| "demand_main env (Ended r) d = d\<lparr>dm_stopping := True, dm_changed := True\<rparr>"

section \<open>The other threads\<close>

text \<open>\<open>line\<close> is what the monitor says next: whether a reader is active, or the end of its output or a bad line.\<close>

definition demand_watch :: "bool option \<Rightarrow> demand \<Rightarrow> demand" where
  "demand_watch line d =
     (case dm_watch d of
        Reading \<Rightarrow>
          (case line of
             Some reader \<Rightarrow> d\<lparr>dm_active := reader, dm_watch := NotifyLine\<rparr>
           | None \<Rightarrow> d\<lparr>dm_active := False, dm_watch := MonitorLost\<rparr>)
      | NotifyLine \<Rightarrow> d\<lparr>dm_changed := True, dm_watch := Reading\<rparr>
      | MonitorLost \<Rightarrow> d\<lparr>dm_monitor_done := True, dm_watch := NotifyLost\<rparr>
      | NotifyLost \<Rightarrow> d\<lparr>dm_changed := True, dm_watch := WatchEnded\<rparr>
      | WatchEnded \<Rightarrow> d)"

definition demand_watch_writer :: "demand \<Rightarrow> demand" where
  "demand_watch_writer d =
     (case dm_writer d of
        WriterRunning \<Rightarrow> d\<lparr>dm_writer_done := True, dm_writer := NotifyWriter\<rparr>
      | NotifyWriter \<Rightarrow> d\<lparr>dm_changed := True, dm_writer := WriterEnded\<rparr>
      | WriterEnded \<Rightarrow> d)"

definition demand_stop :: "demand \<Rightarrow> demand" where
  "demand_stop d = d\<lparr>dm_stopping := True, dm_changed := True\<rparr>"

inductive demand_step :: "demand \<Rightarrow> demand \<Rightarrow> bool" where
  main_step: "demand_step d (demand_main env (dm_pc d) d)"
| watch_step: "demand_step d (demand_watch line d)"
| writer_step: "demand_step d (demand_watch_writer d)"
| signal_step: "demand_step d (demand_stop d)"

inductive_cases demand_stepE: "demand_step d e"

section \<open>Idle means black\<close>

fun idle_pc :: "main_pc \<Rightarrow> bool" where
  "idle_pc LoopTest = True"
| "idle_pc ClearChanged = True"
| "idle_pc TestStopping = True"
| "idle_pc TestWriter = True"
| "idle_pc TestMonitor = True"
| "idle_pc TestActive = True"
| "idle_pc AwaitChange = True"
| "idle_pc Enter = True"
| "idle_pc Recover = True"
| "idle_pc Pause = True"
| "idle_pc (Ended None) = True"
| "idle_pc _ = False"

fun stream_pc :: "main_pc \<Rightarrow> bool" where
  "stream_pc StreamActive = True"
| "stream_pc StreamStopping = True"
| "stream_pc NextFrame = True"
| "stream_pc (CheckActive _) = True"
| "stream_pc (CheckStopping _) = True"
| "stream_pc (WriteFrame _) = True"
| "stream_pc (Leave _) = True"
| "stream_pc _ = False"

definition ends_black :: "output_frame list \<Rightarrow> bool" where
  "ends_black out \<longleftrightarrow> (\<exists>ys. out = ys @ replicate 4 Black)"

definition private_inv :: "demand \<Rightarrow> bool" where
  "private_inv d \<longleftrightarrow> (stream_pc (dm_pc d) \<or> camera_closed (dm_camera d)) \<and> (idle_pc (dm_pc d) \<longrightarrow> ends_black (dm_out d))"

lemma write_black_Ret: "write_black env d = (t, Ret ()) \<Longrightarrow> t = d\<lparr>dm_out := dm_out d @ replicate 4 Black\<rparr>"
  by (auto simp: write_black_def dm_write_def thenA_eq_Ret upt_rec numeral_eq_Suc)

lemma write_black_state: "write_black env d = (t, r) \<Longrightarrow> dm_camera t = dm_camera d"
proof -
  have "keeps (\<lambda>x. dm_camera x = dm_camera d) (write_black env)"
    unfolding write_black_def dm_write_def by (auto intro!: keeps_intros keeps_upd)
  then show "write_black env d = (t, r) \<Longrightarrow> dm_camera t = dm_camera d" using keepsD by fastforce
qed

lemma branch_inv:
  assumes "P d" "\<And>t x. m d = (t, Ret x) \<Longrightarrow> P (t\<lparr>dm_pc := ok x\<rparr>)" "\<And>t e. m d = (t, Exc e) \<Longrightarrow> P (t\<lparr>dm_pc := failed e\<rparr>)"
  shows "P (dm_branch m ok failed d)"
  using assms by (cases "m d"; cases "snd (m d)") (auto simp: dm_branch_def)

lemma on_camera_state: "on_camera m d = (t, r) \<Longrightarrow> \<exists>c. m (dm_camera d) = (c, r) \<and> t = d\<lparr>dm_camera := c\<rparr>"
  by (auto simp: on_camera_def split: prod.splits)

lemma private_blank:
  assumes "private_inv d" "camera_closed (dm_camera d)" "\<And>x. \<not> stream_pc (ok x)" "\<And>e. \<not> stream_pc (failed e)" "\<And>e. \<not> idle_pc (failed e)"
  shows "private_inv (dm_branch (write_black env) ok failed d)"
proof (rule branch_inv [of private_inv, OF assms(1)])
  show "private_inv (t\<lparr>dm_pc := ok x\<rparr>)" if "write_black env d = (t, Ret x)" for t x
    using write_black_Ret [of env d t] that assms(2) by (auto simp: private_inv_def ends_black_def)
  show "private_inv (t\<lparr>dm_pc := failed e\<rparr>)" if "write_black env d = (t, Exc e)" for t e
    using write_black_state [OF that] assms by (simp add: private_inv_def)
qed

lemma private_enter:
  assumes "private_inv d"
  shows "private_inv (demand_main env Enter d)"
  unfolding demand_main.simps
proof (rule branch_inv [of private_inv, OF assms])
  let ?m = "thenA (updA (\<lambda>d. d\<lparr>dm_camera := camera_new\<lparr>cm_log := cm_log (dm_camera d)\<rparr>\<rparr>)) (on_camera (camera_enter (de_camera env)))"
  show "private_inv (t\<lparr>dm_pc := Blank (after_error e)\<rparr>)" if m: "?m d = (t, Exc e)" for t e
  proof -
    have "on_camera (camera_enter (de_camera env)) (d\<lparr>dm_camera := camera_new\<lparr>cm_log := cm_log (dm_camera d)\<rparr>\<rparr>) = (t, Exc e)"
      using m by simp
    then obtain c where c: "camera_enter (de_camera env) (camera_new\<lparr>cm_log := cm_log (dm_camera d)\<rparr>) = (c, Exc e)" "dm_camera t = c"
      by (auto dest!: on_camera_state)
    from camera_enter_cases [OF c(1)] have "camera_closed (dm_camera t)" by (simp add: c(2) camera_closed_def camera_new_def)
    then show ?thesis by (simp add: private_inv_def)
  qed
qed (simp add: private_inv_def)

lemma private_leave:
  assumes "private_inv d"
  shows "private_inv (demand_main env (Leave r) d)"
proof -
  have "camera_closed (dm_camera t)" if "on_camera (camera_exit (de_camera env)) d = (t, x)" for t x
    using on_camera_state [OF that] camera_exit_closed [of "de_camera env" "dm_camera d"] by auto
  then show ?thesis unfolding demand_main.simps
    by (intro branch_inv [of private_inv, OF assms]) (auto simp: private_inv_def)
qed

lemma private_stream:
  assumes "private_inv d" "\<And>x. stream_pc (ok x)" "\<And>e. stream_pc (failed e)" "\<And>x. \<not> idle_pc (ok x)" "\<And>e. \<not> idle_pc (failed e)"
  shows "private_inv (dm_branch m ok failed d)"
  by (rule branch_inv [of private_inv, OF assms(1)]) (use assms in \<open>simp_all add: private_inv_def\<close>)

lemma private_main: "private_inv d \<Longrightarrow> private_inv (demand_main env (dm_pc d) d)"
proof (cases "dm_pc d")
  case Prime
  assume "private_inv d"
  then show ?thesis unfolding Prime demand_main.simps by (intro private_blank) (simp_all add: private_inv_def Prime)
next
  case (Blank r)
  assume d: "private_inv d"
  then show ?thesis unfolding Blank demand_main.simps by (intro private_blank) (auto simp: private_inv_def Blank split: option.splits)
next
  case NextFrame
  assume "private_inv d"
  then show ?thesis unfolding NextFrame demand_main.simps by (intro private_stream) simp_all
next
  case (WriteFrame p)
  assume "private_inv d"
  then show ?thesis unfolding WriteFrame demand_main.simps by (intro private_stream) simp_all
next
  case (Ended r)
  assume "private_inv d"
  then show ?thesis by (cases r) (simp_all add: Ended private_inv_def)
next
  case Enter
  assume "private_inv d"
  then show ?thesis unfolding Enter by (rule private_enter)
next
  case (Leave r)
  assume "private_inv d"
  then show ?thesis unfolding Leave by (rule private_leave)
qed (simp_all add: private_inv_def)

section \<open>No lost wake-up\<close>

text \<open>What the tests since the last \<^verbatim>\<open>changed.clear()\<close> found still holds, or the thread that changed it has its
  notification to come.\<close>

fun tests_passed :: "main_pc \<Rightarrow> nat" where
  "tests_passed TestWriter = 1"
| "tests_passed TestMonitor = 2"
| "tests_passed TestActive = 3"
| "tests_passed AwaitChange = 4"
| "tests_passed _ = 0"

definition wake_inv :: "demand \<Rightarrow> bool" where
  "wake_inv d \<longleftrightarrow> dm_changed d \<or>
     (1 \<le> tests_passed (dm_pc d) \<longrightarrow> \<not> dm_stopping d) \<and>
     (2 \<le> tests_passed (dm_pc d) \<longrightarrow> dm_writer_done d \<longrightarrow> dm_writer d = NotifyWriter) \<and>
     (3 \<le> tests_passed (dm_pc d) \<longrightarrow> dm_monitor_done d \<longrightarrow> dm_watch d = NotifyLost) \<and>
     (4 \<le> tests_passed (dm_pc d) \<longrightarrow> dm_active d \<longrightarrow> dm_watch d = NotifyLine)"

lemma wake_branch:
  assumes "wake_inv d" "\<And>x. tests_passed (ok x) = 0" "\<And>e. tests_passed (failed e) = 0"
  shows "wake_inv (dm_branch m ok failed d)"
  by (rule branch_inv [of wake_inv, OF assms(1)]) (use assms in \<open>simp_all add: wake_inv_def\<close>)

lemma wake_main:
  assumes "wake_inv d"
  shows "wake_inv (demand_main env (dm_pc d) d)"
proof (cases "dm_pc d")
  case Prime
  show ?thesis unfolding Prime demand_main.simps by (rule wake_branch [OF assms]) simp_all
next
  case Enter
  show ?thesis unfolding Enter demand_main.simps by (rule wake_branch [OF assms]) simp_all
next
  case NextFrame
  show ?thesis unfolding NextFrame demand_main.simps by (rule wake_branch [OF assms]) simp_all
next
  case (WriteFrame p)
  show ?thesis unfolding WriteFrame demand_main.simps by (rule wake_branch [OF assms]) simp_all
next
  case (Leave r)
  show ?thesis unfolding Leave demand_main.simps by (rule wake_branch [OF assms]) simp_all
next
  case (Blank r)
  show ?thesis unfolding Blank demand_main.simps by (rule wake_branch [OF assms]) (simp_all split: option.splits)
next
  case AwaitChange
  then show ?thesis using assms by (cases "dm_changed d") (simp_all add: wake_inv_def)
qed (use assms in \<open>simp_all add: wake_inv_def\<close>)

lemma wake_watch: "wake_inv d \<Longrightarrow> wake_inv (demand_watch line d)"
  by (cases "dm_watch d"; cases line; cases "dm_changed d") (simp_all add: wake_inv_def demand_watch_def)

lemma wake_writer: "wake_inv d \<Longrightarrow> wake_inv (demand_watch_writer d)"
  by (cases "dm_writer d"; cases "dm_changed d") (simp_all add: wake_inv_def demand_watch_writer_def)

lemma private_threads:
  "private_inv d \<Longrightarrow> private_inv (demand_watch line d)" "private_inv d \<Longrightarrow> private_inv (demand_watch_writer d)" "private_inv d \<Longrightarrow> private_inv (demand_stop d)"
  by (simp_all add: private_inv_def demand_watch_def demand_watch_writer_def demand_stop_def split: watch_pc.splits option.splits writer_pc.splits)

interpretation demand_service: service "\<lambda>d. d = demand_new" demand_step "\<lambda>d. private_inv d \<and> wake_inv d"
proof
  show "d = demand_new \<Longrightarrow> private_inv d \<and> wake_inv d" for d
    by (simp add: demand_new_def private_inv_def wake_inv_def camera_closed_def camera_new_def)
  show "private_inv d \<and> wake_inv d \<Longrightarrow> demand_step d e \<Longrightarrow> private_inv e \<and> wake_inv e" for d e
    by (erule demand_stepE) (auto simp: private_main wake_main wake_watch wake_writer private_threads, simp add: wake_inv_def demand_stop_def)
qed

section \<open>Properties\<close>

text \<open>C20: however the three threads and the signals interleave, a picture of the camera never stays on the device: whenever
  the main loop is outside a stream (testing its events, waiting, or ended without an error) the memory is unmapped, no
  stream is open, the scratch buffer is zeros, and the last four frames written are black.\<close>

theorem demand_idle_black:
  assumes "reach (\<lambda>d. d = demand_new) demand_step d" "idle_pc (dm_pc d)"
  shows "camera_closed (dm_camera d) \<and> (\<exists>ys. dm_out d = ys @ replicate 4 Black)"
proof -
  have "private_inv d" using demand_service.reach_inv [OF assms(1)] by simp
  moreover have "\<not> stream_pc (dm_pc d)" using assms(2) by (cases "dm_pc d") simp_all
  ultimately show ?thesis using assms(2) by (simp add: private_inv_def ends_black_def)
qed

text \<open>C19: no wake-up is lost. When the main loop waits, \<^verbatim>\<open>changed\<close> is not set and neither watcher has a notification to
  come, then there is nothing to do: no reader is active, no stop was requested, and writer and monitor are running.\<close>

theorem demand_no_lost_wakeup:
  assumes "reach (\<lambda>d. d = demand_new) demand_step d"
    and "dm_pc d = AwaitChange" "\<not> dm_changed d" "dm_watch d \<notin> {NotifyLine, NotifyLost}" "dm_writer d \<noteq> NotifyWriter"
  shows "\<not> dm_active d \<and> \<not> dm_stopping d \<and> \<not> dm_writer_done d \<and> \<not> dm_monitor_done d"
proof -
  have "wake_inv d" using demand_service.reach_inv [OF assms(1)] by simp
  then show ?thesis using assms(2-5) by (auto simp: wake_inv_def)
qed

definition sample_demand_env :: demand_env where
  "sample_demand_env = \<lparr>de_camera = \<lparr>ce_devices = [], ce_map = True, ce_line = (\<lambda>_. Exc (TimeoutError ''timed out'')), ce_loads = (\<lambda>_. Ret JNull),
     ce_copy = (\<lambda>_ _ _. (0, None))\<rparr>, de_write = (\<lambda>_. Ret ())\<rparr>"

fun main_steps :: "nat \<Rightarrow> demand \<Rightarrow> demand" where
  "main_steps 0 d = d"
| "main_steps (Suc n) d = main_steps n (demand_main sample_demand_env (dm_pc d) d)"

lemma main_steps_reach: "reach (\<lambda>d. d = demand_new) demand_step d \<Longrightarrow> reach (\<lambda>d. d = demand_new) demand_step (main_steps n d)"
  by (induction n arbitrary: d) (auto intro: reach_step main_step)

definition waiting_demand :: demand where
  "waiting_demand = main_steps 7 demand_new"

lemma waiting_demand_reach: "reach (\<lambda>d. d = demand_new) demand_step waiting_demand"
  unfolding waiting_demand_def by (rule main_steps_reach) (rule reach_init, simp)

lemma waiting_demand_state:
  "dm_pc waiting_demand = AwaitChange" "\<not> dm_changed waiting_demand" "dm_watch waiting_demand = Reading" "dm_writer waiting_demand = WriterRunning"
  by (simp_all add: waiting_demand_def numeral_eq_Suc demand_new_def dm_branch_def write_black_def dm_write_def sample_demand_env_def upt_rec act_defs)

theorem demand_idle_black_witness:
  "idle_pc (dm_pc waiting_demand) \<and> camera_closed (dm_camera waiting_demand) \<and> (\<exists>ys. dm_out waiting_demand = ys @ replicate 4 Black)"
  using demand_idle_black [OF waiting_demand_reach] waiting_demand_state by simp

theorem demand_no_lost_wakeup_witness:
  "dm_pc waiting_demand = AwaitChange \<and> \<not> dm_active waiting_demand \<and> \<not> dm_stopping waiting_demand"
  using demand_no_lost_wakeup [OF waiting_demand_reach] waiting_demand_state by simp

end
