(* ===== verification/Device_Service.thy ===== *)
theory Device_Service
  imports Audio_Volume Bt_Management
begin

text \<open>
  \<^verbatim>\<open>guest/devices/device_service.py\<close>: the socket that lets the desktop user manage the host's audio and Bluetooth
  devices. Every line is checked against a fixed set of request forms (\<^verbatim>\<open>validate\<close>) before it is passed to the host.

  One turn of \<^verbatim>\<open>serve\<close> has as inputs the credentials of the peer, the configuration file, the line read, the JSON
  decoder, the host's answer and the text of an exception.
\<close>

section \<open>Requests\<close>

definition plain_request :: "string \<Rightarrow> json" where
  "plain_request action = JDict [(''action'', JStr action)]"

text \<open>\<^verbatim>\<open>str.encode\<close> fails on a lone surrogate, whose three bytes are no UTF-8.\<close>

fun has_surrogate :: "string \<Rightarrow> bool" where
  "has_surrogate (a # b # s) =
     ((of_char a :: nat) = 0xED \<and> 0xA0 \<le> (of_char b :: nat) \<and> (of_char b :: nat) < 0xC0 \<or> has_surrogate (b # s))"
| "has_surrogate _ = False"

fun check_uid :: "json \<Rightarrow> unit outcome" where
  "check_uid (JStr s) =
     (if has_surrogate s then Exc (ValueError ''surrogates not allowed'')
      else if 0 < length s \<and> length s \<le> 1024 then Ret () else Exc (ValueError ''Invalid device UID''))"
| "check_uid _ = Exc (ValueError ''Invalid device UID'')"

fun unit_level :: "json \<Rightarrow> bool outcome" where
  "unit_level (JInt i) =
     (if float_range i then Ret (0 \<le> i \<and> i \<le> 1) else Exc (OverflowError ''int too large to convert to float''))"
| "unit_level (JFloat (Fin x)) = Ret (0 \<le> x \<and> x \<le> 1)"
| "unit_level _ = Ret False"

fun check_profile :: "json \<Rightarrow> unit outcome" where
  "check_profile (JDict p) =
     (if dict_keys p \<noteq> {''level'', ''muted''} then Exc (ValueError ''Invalid output volume'') else
      bindO (unit_level (dict_get p ''level'')) (\<lambda>ok.
        if ok \<and> is_bool (dict_get p ''muted'') then Ret () else Exc (ValueError ''Invalid output volume'')))"
| "check_profile _ = Exc (ValueError ''Invalid output volume'')"

definition BLUETOOTH_ACTIONS :: "json set" where
  "BLUETOOTH_ACTIONS = {JStr ''bluetooth-pair'', JStr ''bluetooth-connect'', JStr ''bluetooth-disconnect''}"

fun bluetooth_address :: "json \<Rightarrow> bool" where
  "bluetooth_address (JStr s) = six_octets (\<lambda>c. c = CHR '':'' \<or> c = CHR ''-'') s"
| "bluetooth_address _ = False"

fun operation_ident :: "json \<Rightarrow> bool" where
  "operation_ident (JStr s) = (length s = 36 \<and> list_all (\<lambda>c. is_hex c \<or> c = CHR ''-'') s)"
| "operation_ident _ = False"

fun validate_request :: "json \<Rightarrow> json outcome" where
  "validate_request (JDict d) =
     (let v = JDict d; action = dict_get d ''action'' in
      if py_eq v (plain_request ''audio-devices'') \<or> py_eq v (plain_request ''bluetooth-devices'') \<or> py_eq v (plain_request ''bluetooth-scan'')
      then Ret v
      else if dict_keys d = {''action'', ''direction'', ''uid''} \<and> action = JStr ''audio-select'' then
        (if dict_get d ''direction'' \<notin> {JStr ''input'', JStr ''output''} then Exc (ValueError ''Invalid direction'')
         else bindO (check_uid (dict_get d ''uid'')) (\<lambda>_. Ret v))
      else if dict_keys d = {''action'', ''uid'', ''desired'', ''expected''} \<and> action = JStr ''audio-volume'' then
        bindO (check_uid (dict_get d ''uid'')) (\<lambda>_.
        bindO (check_profile (dict_get d ''desired'')) (\<lambda>_.
        bindO (check_profile (dict_get d ''expected'')) (\<lambda>_. Ret v)))
      else if dict_keys d = {''action'', ''address''} \<and> action \<in> BLUETOOTH_ACTIONS then
        (if bluetooth_address (dict_get d ''address'') then Ret v else Exc (ValueError ''Invalid Bluetooth address''))
      else if dict_keys d = {''action'', ''operationID'', ''accepted''} \<and> action = JStr ''bluetooth-confirm'' then
        (if operation_ident (dict_get d ''operationID'') \<and> is_bool (dict_get d ''accepted'') then Ret v
         else Exc (ValueError ''Invalid pairing confirmation''))
      else Exc (ValueError ''Unsupported request''))"
| "validate_request _ = Exc (ValueError ''Invalid request'')"

section \<open>A turn of the service\<close>

record service_env =
  sv_peer :: "int outcome"
  sv_config :: "json outcome"
  sv_line :: "bytes outcome"
  sv_loads :: "bytes \<Rightarrow> json outcome"
  sv_host :: "json \<Rightarrow> json outcome"
  sv_text :: "exn \<Rightarrow> string"

definition service_request :: "service_env \<Rightarrow> json outcome" where
  "service_request env =
     bindO (sv_peer env) (\<lambda>uid.
     bindO (bindO (sv_config env) (\<lambda>config. jitem config ''userID'')) (\<lambda>user.
       if uid \<noteq> 0 \<and> \<not> py_eq (JInt uid) user then Exc (PermissionError ''Desktop user required'') else
       bindO (sv_line env) (\<lambda>line.
         if length line > 4096 \<or> line = [] \<or> last line \<noteq> 10 then Exc (ValueError ''Invalid framing'') else
         bindO (sv_loads env line) validate_request)))"

text \<open>What is asked of the host, and the reply to the client. The outcome of sending the reply is ignored.\<close>

definition service_turn :: "service_env \<Rightarrow> json option \<times> json outcome" where
  "service_turn env =
     (case service_request env of
        Ret v \<Rightarrow>
          (Some v, catchO (sv_host env v) is_Exception
             (\<lambda>e. Ret (JDict [(''ok'', JBool False), (''error'', JStr (sv_text env e))])))
      | Exc e \<Rightarrow>
          (None, if is_Exception e then Ret (JDict [(''ok'', JBool False), (''error'', JStr (sv_text env e))]) else Exc e)
      | NoRet \<Rightarrow> (None, NoRet))"

section \<open>The requests that are allowed\<close>

inductive volume_profile :: "json \<Rightarrow> bool" where
  int_profile: "dict_keys p = {''level'', ''muted''} \<Longrightarrow> dict_get p ''level'' = JInt i \<Longrightarrow> 0 \<le> i \<Longrightarrow> i \<le> 1 \<Longrightarrow>
    dict_get p ''muted'' = JBool m \<Longrightarrow> volume_profile (JDict p)"
| float_profile: "dict_keys p = {''level'', ''muted''} \<Longrightarrow> dict_get p ''level'' = JFloat (Fin x) \<Longrightarrow> 0 \<le> x \<Longrightarrow> x \<le> 1 \<Longrightarrow>
    dict_get p ''muted'' = JBool m \<Longrightarrow> volume_profile (JDict p)"

inductive device_uid :: "json \<Rightarrow> bool" where
  "\<not> has_surrogate s \<Longrightarrow> 0 < length s \<Longrightarrow> length s \<le> 1024 \<Longrightarrow> device_uid (JStr s)"

inductive allowed :: "json \<Rightarrow> bool" where
  query: "action \<in> {''audio-devices'', ''bluetooth-devices'', ''bluetooth-scan''} \<Longrightarrow> allowed (JDict [(''action'', JStr action)])"
| select: "dict_keys d = {''action'', ''direction'', ''uid''} \<Longrightarrow> dict_get d ''action'' = JStr ''audio-select'' \<Longrightarrow>
    dict_get d ''direction'' \<in> {JStr ''input'', JStr ''output''} \<Longrightarrow> device_uid (dict_get d ''uid'') \<Longrightarrow> allowed (JDict d)"
| volume: "dict_keys d = {''action'', ''uid'', ''desired'', ''expected''} \<Longrightarrow> dict_get d ''action'' = JStr ''audio-volume'' \<Longrightarrow>
    device_uid (dict_get d ''uid'') \<Longrightarrow> volume_profile (dict_get d ''desired'') \<Longrightarrow> volume_profile (dict_get d ''expected'') \<Longrightarrow> allowed (JDict d)"
| operate: "dict_keys d = {''action'', ''address''} \<Longrightarrow> dict_get d ''action'' \<in> BLUETOOTH_ACTIONS \<Longrightarrow>
    dict_get d ''address'' = JStr a \<Longrightarrow> six_octets (\<lambda>c. c = CHR '':'' \<or> c = CHR ''-'') a \<Longrightarrow> allowed (JDict d)"
| confirm: "dict_keys d = {''action'', ''operationID'', ''accepted''} \<Longrightarrow> dict_get d ''action'' = JStr ''bluetooth-confirm'' \<Longrightarrow>
    dict_get d ''operationID'' = JStr s \<Longrightarrow> length s = 36 \<Longrightarrow> list_all (\<lambda>c. is_hex c \<or> c = CHR ''-'') s \<Longrightarrow>
    dict_get d ''accepted'' = JBool b \<Longrightarrow> allowed (JDict d)"

section \<open>Validation is the grammar\<close>

lemma float_range_unit: "0 \<le> i \<Longrightarrow> i \<le> 1 \<Longrightarrow> float_range i"
  by (simp add: float_range_def)

lemma check_uid_iff: "check_uid v = Ret () \<longleftrightarrow> device_uid v"
  by (cases v) (auto simp: device_uid.simps split: if_splits)

lemma unit_level_cases:
  "unit_level v = Ret True \<longleftrightarrow> (\<exists>i. v = JInt i \<and> 0 \<le> i \<and> i \<le> 1) \<or> (\<exists>x. v = JFloat (Fin x) \<and> 0 \<le> x \<and> x \<le> 1)"
  by (cases v rule: unit_level.cases) (auto simp: float_range_unit split: if_splits)

lemma is_bool_iff: "is_bool v \<longleftrightarrow> (\<exists>b. v = JBool b)"
  by (cases v) auto

lemma bindO_unit_iff: "bindO m (\<lambda>_ :: unit. f) = Ret w \<longleftrightarrow> m = Ret () \<and> f = Ret w"
  by (cases m) auto

lemma profile_ok:
  "bindO m (\<lambda>ok. if ok \<and> b then Ret () else Exc e) = Ret () \<longleftrightarrow> m = Ret True \<and> b"
  by (cases m) auto

lemma if_Ret: "(if c then a else b) = Ret w \<longleftrightarrow> c \<and> a = Ret w \<or> \<not> c \<and> b = Ret w"
  by simp

lemma check_profile_iff: "check_profile v = Ret () \<longleftrightarrow> volume_profile v"
proof (cases v)
  case (JDict p)
  have "check_profile v = Ret () \<longleftrightarrow> dict_keys p = {''level'', ''muted''} \<and> unit_level (dict_get p ''level'') = Ret True \<and> is_bool (dict_get p ''muted'')"
    unfolding JDict check_profile.simps if_Ret profile_ok by (simp only: outcome.distinct not_not simp_thms)
  also have "\<dots> \<longleftrightarrow> volume_profile v"
    unfolding JDict unit_level_cases is_bool_iff
  proof (intro iffI; (elim conjE disjE exE)?)
    assume "volume_profile (JDict p)"
    then show "dict_keys p = {''level'', ''muted''} \<and> ((\<exists>i. dict_get p ''level'' = JInt i \<and> 0 \<le> i \<and> i \<le> 1) \<or>
      (\<exists>x. dict_get p ''level'' = JFloat (Fin x) \<and> 0 \<le> x \<and> x \<le> 1)) \<and> (\<exists>b. dict_get p ''muted'' = JBool b)"
      by cases simp_all
  qed (rule int_profile float_profile; assumption)+
  finally show ?thesis .
qed (simp_all add: volume_profile.simps)

lemma py_eq_str_right: "py_eq v (JStr a) \<longleftrightarrow> v = JStr a"
  by (cases v) auto

lemma py_eq_item: "py_eq_items [(k, v)] [(k', JStr a)] \<longleftrightarrow> k = k' \<and> v = JStr a"
  by (simp add: py_eq_str_right)

lemma plain_request_iff: "py_eq (JDict d) (plain_request a) \<longleftrightarrow> d = [(''action'', JStr a)]"
proof (cases d)
  case (Cons kv e)
  then show ?thesis by (cases kv; cases e) (simp_all add: plain_request_def py_eq_str_right)
qed (simp add: plain_request_def)

lemma bluetooth_address_iff: "bluetooth_address v \<longleftrightarrow> (\<exists>s. v = JStr s \<and> six_octets (\<lambda>c. c = CHR '':'' \<or> c = CHR ''-'') s)"
  by (cases v) auto

lemma operation_ident_iff: "operation_ident v \<longleftrightarrow> (\<exists>s. v = JStr s \<and> length s = 36 \<and> list_all (\<lambda>c. is_hex c \<or> c = CHR ''-'') s)"
  by (cases v) auto

lemma validate_Ret_same: "validate_request v = Ret w \<Longrightarrow> w = v"
  by (cases v) (auto simp: Let_def split: if_splits)

text \<open>The guards of \<^verbatim>\<open>validate\<close> read as one disjunction; the key sets keep its branches apart.\<close>

definition plain_form :: "dict \<Rightarrow> bool" where
  "plain_form d \<longleftrightarrow> (\<exists>a \<in> {''audio-devices'', ''bluetooth-devices'', ''bluetooth-scan''}. d = [(''action'', JStr a)])"

lemma plain_form_iff:
  "py_eq (JDict d) (plain_request ''audio-devices'') \<or> py_eq (JDict d) (plain_request ''bluetooth-devices'') \<or>
   py_eq (JDict d) (plain_request ''bluetooth-scan'') \<longleftrightarrow> plain_form d"
  unfolding plain_request_iff plain_form_def by blast

lemma dict_keys_differ:
  "(''direction'' \<in> dict_keys d) = p1 \<Longrightarrow> (''desired'' \<in> dict_keys d) = p2 \<Longrightarrow> (''address'' \<in> dict_keys d) = p3 \<Longrightarrow>
   (''accepted'' \<in> dict_keys d) = p4 \<Longrightarrow>
   (\<not> p1 \<longrightarrow> dict_keys d \<noteq> {''action'', ''direction'', ''uid''}) \<and>
   (\<not> p2 \<longrightarrow> dict_keys d \<noteq> {''action'', ''uid'', ''desired'', ''expected''}) \<and>
   (\<not> p3 \<longrightarrow> dict_keys d \<noteq> {''action'', ''address''}) \<and>
   (\<not> p4 \<longrightarrow> dict_keys d \<noteq> {''action'', ''operationID'', ''accepted''}) \<and> (p1 \<or> p2 \<or> p3 \<or> p4 \<longrightarrow> \<not> plain_form d)"
  by (auto simp: plain_form_def dict_keys_def)

lemma validate_branches:
  "validate_request (JDict d) =
     (if plain_form d then Ret (JDict d)
      else if dict_keys d = {''action'', ''direction'', ''uid''} \<and> dict_get d ''action'' = JStr ''audio-select'' then
        (if dict_get d ''direction'' \<notin> {JStr ''input'', JStr ''output''} then Exc (ValueError ''Invalid direction'')
         else bindO (check_uid (dict_get d ''uid'')) (\<lambda>_. Ret (JDict d)))
      else if dict_keys d = {''action'', ''uid'', ''desired'', ''expected''} \<and> dict_get d ''action'' = JStr ''audio-volume'' then
        bindO (check_uid (dict_get d ''uid'')) (\<lambda>_.
        bindO (check_profile (dict_get d ''desired'')) (\<lambda>_.
        bindO (check_profile (dict_get d ''expected'')) (\<lambda>_. Ret (JDict d))))
      else if dict_keys d = {''action'', ''address''} \<and> dict_get d ''action'' \<in> BLUETOOTH_ACTIONS then
        (if bluetooth_address (dict_get d ''address'') then Ret (JDict d) else Exc (ValueError ''Invalid Bluetooth address''))
      else if dict_keys d = {''action'', ''operationID'', ''accepted''} \<and> dict_get d ''action'' = JStr ''bluetooth-confirm'' then
        (if operation_ident (dict_get d ''operationID'') \<and> is_bool (dict_get d ''accepted'') then Ret (JDict d)
         else Exc (ValueError ''Invalid pairing confirmation''))
      else Exc (ValueError ''Unsupported request''))"
  unfolding validate_request.simps Let_def plain_form_iff by (rule refl)

lemma validate_allowed: "validate_request v = Ret v \<Longrightarrow> allowed v"
proof (cases v)
  case (JDict d)
  assume v: "validate_request v = Ret v"
  show ?thesis
  proof (cases "plain_form d")
    case True
    then show ?thesis unfolding JDict plain_form_def using allowed.query by blast
  next
    case np: False
    show ?thesis using v np unfolding JDict validate_branches if_Ret bindO_unit_iff bindO_eq_Ret
        check_uid_iff check_profile_iff bluetooth_address_iff operation_ident_iff is_bool_iff outcome.distinct not_not
      by (elim disjE conjE exE FalseE)
        ((erule (1) notE) | (rule allowed.select, assumption+) | (rule allowed.volume, assumption+) | (rule allowed.operate, assumption+) |
         (rule allowed.confirm, assumption+) | (simp only: outcome.distinct))+
  qed
qed simp_all

lemma allowed_validates: "allowed v \<Longrightarrow> validate_request v = Ret v"
proof (induction rule: allowed.induct)
  case (query action)
  then have "plain_form [(''action'', JStr action)]" unfolding plain_form_def by blast
  then show ?case unfolding validate_branches by (simp only: if_True)
next
  case (select d)
  have "''direction'' \<in> dict_keys d" unfolding select.hyps(1) by simp
  then have "\<not> plain_form d" using dict_keys_differ [OF refl refl refl refl] by blast
  then show ?case unfolding validate_branches using select check_uid_iff by simp
next
  case (volume d)
  have k: "''desired'' \<in> dict_keys d" "''direction'' \<notin> dict_keys d" unfolding volume.hyps(1) by simp_all
  then have "\<not> plain_form d" "dict_keys d \<noteq> {''action'', ''direction'', ''uid''}"
    using dict_keys_differ [OF refl refl refl refl] by blast+
  then show ?case unfolding validate_branches using volume check_uid_iff check_profile_iff by simp
next
  case (operate d a)
  have k: "''address'' \<in> dict_keys d" "''direction'' \<notin> dict_keys d" "''desired'' \<notin> dict_keys d" unfolding operate.hyps(1) by simp_all
  then have "\<not> plain_form d" "dict_keys d \<noteq> {''action'', ''direction'', ''uid''}" "dict_keys d \<noteq> {''action'', ''uid'', ''desired'', ''expected''}"
    using dict_keys_differ [OF refl refl refl refl] by blast+
  then show ?case unfolding validate_branches using operate by simp
next
  case (confirm d s b)
  have k: "''accepted'' \<in> dict_keys d" "''direction'' \<notin> dict_keys d" "''desired'' \<notin> dict_keys d" "''address'' \<notin> dict_keys d"
    unfolding confirm.hyps(1) by simp_all
  then have "\<not> plain_form d" "dict_keys d \<noteq> {''action'', ''direction'', ''uid''}" "dict_keys d \<noteq> {''action'', ''uid'', ''desired'', ''expected''}"
    "dict_keys d \<noteq> {''action'', ''address''}"
    using dict_keys_differ [OF refl refl refl refl] by blast+
  then show ?case unfolding validate_branches using confirm by simp
qed

text \<open>C22: the device service passes a request to the host exactly when its peer is root or the configured desktop user, the line
  is a complete line of at most 4096 bytes, and it decodes to one of the allowed request forms; the request is passed
  unchanged. Nothing else a client sends reaches the host.\<close>

theorem service_forwards:
  "fst (service_turn env) = Some v \<longleftrightarrow>
     (\<exists>uid config user line. sv_peer env = Ret uid \<and> sv_config env = Ret config \<and> jitem config ''userID'' = Ret user \<and>
        (uid = 0 \<or> py_eq (JInt uid) user) \<and> sv_line env = Ret line \<and> line \<noteq> [] \<and> last line = 10 \<and> length line \<le> 4096 \<and>
        sv_loads env line = Ret v \<and> allowed v)"
proof -
  have "fst (service_turn env) = Some v \<longleftrightarrow> service_request env = Ret v"
    by (auto simp: service_turn_def split: outcome.splits)
  also have "\<dots> \<longleftrightarrow> (\<exists>uid config user line. sv_peer env = Ret uid \<and> sv_config env = Ret config \<and> jitem config ''userID'' = Ret user \<and>
        (uid = 0 \<or> py_eq (JInt uid) user) \<and> sv_line env = Ret line \<and> line \<noteq> [] \<and> last line = 10 \<and> length line \<le> 4096 \<and>
        sv_loads env line = Ret v \<and> validate_request v = Ret v)"
    unfolding service_request_def bindO_eq_Ret if_Ret outcome.distinct using validate_Ret_same
    by (simp only: simp_thms de_Morgan_disj de_Morgan_conj not_not not_less) blast
  finally show ?thesis using validate_allowed allowed_validates by auto
qed

end
