(* ===== verification/Trackpad.thy ===== *)
theory Trackpad
  imports Pyvalue
begin

text \<open>
  \<^verbatim>\<open>guest/input/trackpad.py\<close>: touch frames of the host become the events of a Linux type-B multitouch touchpad. The
  device is the list of the events written to it, and which writes fail is an input. The service loop has as inputs the
  clock, the descriptors \<^verbatim>\<open>select\<close> reports, the bytes read, the results of the writes and the JSON decoder.

  The product of a coordinate and an axis length is a double: \<open>fl\<close> is the rounding of the exact product.
\<close>

section \<open>Frames\<close>

datatype coord = CInt int | CFloat real

type_synonym point = "int \<times> coord \<times> coord"

fun coordinate :: "json \<Rightarrow> coord outcome" where
  "coordinate (JInt i) = (if 0 \<le> i \<and> i \<le> 1 then Ret (CInt i) else Exc (ValueError ''coordinate''))"
| "coordinate (JFloat (Fin x)) = (if 0 \<le> x \<and> x \<le> 1 then Ret (CFloat x) else Exc (ValueError ''coordinate''))"
| "coordinate _ = Exc (ValueError ''coordinate'')"

fun touch_identity :: "int set \<Rightarrow> json \<Rightarrow> int outcome" where
  "touch_identity seen (JInt i) = (if 0 \<le> i \<and> i < 65536 \<and> i \<notin> seen then Ret i else Exc (ValueError ''identity''))"
| "touch_identity seen _ = Exc (ValueError ''identity'')"

fun touch_points :: "int set \<Rightarrow> json list \<Rightarrow> point list outcome" where
  "touch_points seen [] = Ret []"
| "touch_points seen (JList [i, x, y] # ps) =
     bindO (touch_identity seen i) (\<lambda>ident.
     bindO (coordinate x) (\<lambda>px.
     bindO (coordinate y) (\<lambda>py.
     bindO (touch_points (insert ident seen) ps) (\<lambda>points. Ret ((ident, px, py) # points)))))"
| "touch_points seen (_ # ps) = Exc (ValueError ''point'')"

definition frame_buttons :: "dict \<Rightarrow> int outcome" where
  "frame_buttons d =
     (case map_of d ''buttons'' of
        None \<Rightarrow> Ret 0
      | Some (JInt b) \<Rightarrow> if 0 \<le> b \<and> b \<le> 7 then Ret b else Exc (ValueError ''buttons'')
      | Some _ \<Rightarrow> Exc (ValueError ''buttons''))"

fun validate_frame :: "json \<Rightarrow> (point list \<times> int) outcome" where
  "validate_frame (JDict d) =
     (case dict_get d ''touches'' of
        JList ps \<Rightarrow>
          if length ps > 10 then Exc (ValueError ''touch count'') else
          bindO (touch_points {} ps) (\<lambda>points. bindO (frame_buttons d) (\<lambda>buttons. Ret (points, buttons)))
      | _ \<Rightarrow> Exc (ValueError ''touch count''))"
| "validate_frame _ = Exc (ValueError ''frame'')"

section \<open>The virtual device\<close>

datatype abs_code = ABS_X | ABS_Y | ABS_MT_SLOT | ABS_MT_TRACKING_ID | ABS_MT_POSITION_X | ABS_MT_POSITION_Y

datatype key_code =
    BTN_LEFT | BTN_RIGHT | BTN_MIDDLE | BTN_TOUCH | BTN_TOOL_FINGER | BTN_TOOL_DOUBLETAP | BTN_TOOL_TRIPLETAP
  | BTN_TOOL_QUADTAP | BTN_TOOL_QUINTTAP

datatype input_event = EV_ABS abs_code int | EV_KEY key_code int | EV_SYN

text \<open>The axes the device is created with.\<close>

fun axis_maximum :: "abs_code \<Rightarrow> int" where
  "axis_maximum ABS_X = 13000"
| "axis_maximum ABS_Y = 8000"
| "axis_maximum ABS_MT_SLOT = 9"
| "axis_maximum ABS_MT_TRACKING_ID = 65535"
| "axis_maximum ABS_MT_POSITION_X = 13000"
| "axis_maximum ABS_MT_POSITION_Y = 8000"

section \<open>The pad\<close>

record pad =
  pad_slots :: "(int \<times> nat) list"
  pad_buttons :: int
  pad_events :: "input_event list"
  pad_faults :: "bool list"

definition pad_new :: "bool list \<Rightarrow> pad" where
  "pad_new faults = \<lparr>pad_slots = [], pad_buttons = 0, pad_events = [], pad_faults = faults\<rparr>"

text \<open>A write is recorded unless the next fault says that it fails.\<close>

definition ui_write :: "input_event \<Rightarrow> (pad, unit) act" where
  "ui_write ev = (\<lambda>p.
     (case pad_faults p of
        [] \<Rightarrow> (p\<lparr>pad_events := pad_events p @ [ev]\<rparr>, Ret ())
      | True # fs \<Rightarrow> (p\<lparr>pad_faults := fs\<rparr>, Exc (OSError 19 ''uinput''))
      | False # fs \<Rightarrow> (p\<lparr>pad_events := pad_events p @ [ev], pad_faults := fs\<rparr>, Ret ())))"

fun scaled :: "(real \<Rightarrow> real) \<Rightarrow> int \<Rightarrow> coord \<Rightarrow> int" where
  "scaled fl n (CInt i) = i * n"
| "scaled fl n (CFloat x) = round_even (fl (x * of_int n))"

definition first_free :: "(int \<times> nat) list \<Rightarrow> nat option" where
  "first_free slots = find (\<lambda>n. n \<notin> set (map snd slots)) [0..<10]"

definition release_contact :: "int list \<Rightarrow> int \<Rightarrow> (pad, unit) act" where
  "release_contact ids ident =
     (if ident \<in> set ids then retA () else
      bindA (getA (\<lambda>p. map_of (pad_slots p) ident)) (\<lambda>slot.
        case slot of
          None \<Rightarrow> excA (KeyError ''slot'')
        | Some n \<Rightarrow>
            thenA (updA (pad_slots_update (dpop ident)))
           (thenA (ui_write (EV_ABS ABS_MT_SLOT (int n)))
                  (ui_write (EV_ABS ABS_MT_TRACKING_ID (- 1))))))"

definition place_contact :: "(real \<Rightarrow> real) \<Rightarrow> point \<Rightarrow> (pad, unit) act" where
  "place_contact fl pt =
     (case pt of (ident, x, y) \<Rightarrow>
      bindA (getA (\<lambda>p. map_of (pad_slots p) ident)) (\<lambda>slot.
        let new = (slot = None) in
        thenA (case slot of
                 Some _ \<Rightarrow> retA ()
               | None \<Rightarrow> bindA (getA (\<lambda>p. first_free (pad_slots p))) (\<lambda>free.
                   case free of None \<Rightarrow> excA StopIteration | Some n \<Rightarrow> updA (pad_slots_update (dset ident n))))
       (bindA (getA (\<lambda>p. map_of (pad_slots p) ident)) (\<lambda>now.
        case now of
          None \<Rightarrow> excA (KeyError ''slot'')
        | Some n \<Rightarrow>
            thenA (ui_write (EV_ABS ABS_MT_SLOT (int n)))
           (thenA (if new then ui_write (EV_ABS ABS_MT_TRACKING_ID ident) else retA ())
           (thenA (ui_write (EV_ABS ABS_MT_POSITION_X (scaled fl 13000 x)))
                  (ui_write (EV_ABS ABS_MT_POSITION_Y (scaled fl 8000 y)))))))))"

definition TOOL_KEYS :: "(int \<times> key_code) list" where
  "TOOL_KEYS = [(1, BTN_TOOL_FINGER), (2, BTN_TOOL_DOUBLETAP), (3, BTN_TOOL_TRIPLETAP), (4, BTN_TOOL_QUADTAP), (5, BTN_TOOL_QUINTTAP)]"

definition BUTTON_KEYS :: "(nat \<times> key_code) list" where
  "BUTTON_KEYS = [(0, BTN_LEFT), (1, BTN_RIGHT), (2, BTN_MIDDLE)]"

definition pointer_position :: "(real \<Rightarrow> real) \<Rightarrow> point list \<Rightarrow> (pad, unit) act" where
  "pointer_position fl points =
     (case points of
        [] \<Rightarrow> retA ()
      | (_, x, y) # _ \<Rightarrow>
          thenA (ui_write (EV_ABS ABS_X (scaled fl 13000 x))) (ui_write (EV_ABS ABS_Y (scaled fl 8000 y))))"

definition pad_frame :: "(real \<Rightarrow> real) \<Rightarrow> point list \<Rightarrow> int \<Rightarrow> (pad, unit) act" where
  "pad_frame fl points buttons =
     bindA (getA (\<lambda>p. map fst (pad_slots p))) (\<lambda>held.
     thenA (forA (release_contact (map fst points)) held)
    (thenA (forA (place_contact fl) points)
    (thenA (pointer_position fl points)
    (thenA (ui_write (EV_KEY BTN_TOUCH (if points = [] then 0 else 1)))
    (thenA (forA (\<lambda>(count, code). ui_write (EV_KEY code (if min 5 (int (length points)) = count then 1 else 0))) TOOL_KEYS)
    (thenA (forA (\<lambda>(n, code). ui_write (EV_KEY code (if bit buttons n then 1 else 0))) BUTTON_KEYS)
    (thenA (ui_write EV_SYN)
           (updA (pad_buttons_update (\<lambda>_. buttons))))))))))"

section \<open>The service\<close>

datatype input_reply = LH_INPUT_READY | LH_INPUT_APPLIED

record trackpad =
  tp_pad :: pad
  tp_buf :: bytes
  tp_last :: time
  tp_ready :: time
  tp_blocked :: bool
  tp_replies :: "input_reply list"
  tp_waits :: "(time \<times> time option) list"

definition trackpad_new :: "bool list \<Rightarrow> time \<Rightarrow> trackpad" where
  "trackpad_new faults now =
     \<lparr>tp_pad = pad_new faults, tp_buf = [], tp_last = now, tp_ready = now, tp_blocked = False, tp_replies = [], tp_waits = []\<rparr>"

definition message_length :: "input_reply \<Rightarrow> nat" where
  "message_length m = (case m of LH_INPUT_READY \<Rightarrow> 15 | LH_INPUT_APPLIED \<Rightarrow> 17)"

text \<open>What one turn of the loop is told: the three clock readings, \<^verbatim>\<open>select\<close>, the bytes read, and for every line the
  clock after its frame; the writes of the two messages.\<close>

record turn_input =
  ti_now :: time
  ti_ready_write :: "nat outcome"
  ti_ready_now :: time
  ti_wait_now :: time
  ti_select :: "(bool \<times> bool) outcome"
  ti_read :: "bytes outcome"
  ti_line_now :: "nat \<Rightarrow> time"
  ti_applied_write :: "nat \<Rightarrow> nat outcome"

definition send_reply :: "input_reply \<Rightarrow> nat outcome \<Rightarrow> (trackpad, unit) act" where
  "send_reply m written =
     bindA (liftA written) (\<lambda>n.
       if n \<noteq> message_length m then excA (OSError 5 ''Incomplete trackpad acknowledgement'')
       else updA (\<lambda>s. s\<lparr>tp_replies := tp_replies s @ [m]\<rparr>))"

definition on_pad :: "(pad, 'a) act \<Rightarrow> (trackpad, 'a) act" where
  "on_pad m = (\<lambda>s. case m (tp_pad s) of (p, r) \<Rightarrow> (s\<lparr>tp_pad := p\<rparr>, r))"

definition held :: "trackpad \<Rightarrow> bool" where
  "held s \<longleftrightarrow> pad_slots (tp_pad s) \<noteq> [] \<or> pad_buttons (tp_pad s) \<noteq> 0"

definition is_blocking :: "exn \<Rightarrow> bool" where
  "is_blocking e \<longleftrightarrow> e = BlockingIOError"

definition bad_frame :: "exn \<Rightarrow> bool" where
  "bad_frame e \<longleftrightarrow> is_ValueError e \<or> is_TypeError e \<or> is_KeyError e"

definition input_line :: "(real \<Rightarrow> real) \<Rightarrow> (bytes \<Rightarrow> json outcome) \<Rightarrow> time \<Rightarrow> nat outcome \<Rightarrow> bytes \<Rightarrow> (trackpad, unit) act" where
  "input_line fl loads now applied line =
     catchA
       (bindA (liftA (bindO (loads line) validate_frame)) (\<lambda>(points, buttons).
        thenA (on_pad (pad_frame fl points buttons))
       (thenA (updA (\<lambda>s. s\<lparr>tp_last := now\<rparr>))
          (if points = [] then retA ()
           else catchA (send_reply LH_INPUT_APPLIED applied) is_blocking (\<lambda>_. retA ())))))
       bad_frame (\<lambda>_. on_pad (pad_frame fl [] 0))"

definition input_lines :: "(real \<Rightarrow> real) \<Rightarrow> (bytes \<Rightarrow> json outcome) \<Rightarrow> turn_input \<Rightarrow> bytes list \<Rightarrow> (trackpad, unit) act" where
  "input_lines fl loads ti ls =
     forA (\<lambda>(k, line). input_line fl loads (ti_line_now ti k) (ti_applied_write ti k) line) (zip [0..<length ls] ls)"

definition release_stalled :: "(real \<Rightarrow> real) \<Rightarrow> time \<Rightarrow> (trackpad, unit) act" where
  "release_stalled fl now =
     bindA (getA (\<lambda>s. held s \<and> now - tp_last s \<ge> 1)) (\<lambda>stalled. if stalled then on_pad (pad_frame fl [] 0) else retA ())"

definition announce_ready :: "turn_input \<Rightarrow> (trackpad, unit) act" where
  "announce_ready ti =
     bindA (getA (\<lambda>s. tp_ready s \<le> ti_now ti \<and> \<not> tp_blocked s)) (\<lambda>due.
       if due then
         catchA (thenA (send_reply LH_INPUT_READY (ti_ready_write ti)) (updA (\<lambda>s. s\<lparr>tp_ready := ti_ready_now ti + 1\<rparr>)))
           is_blocking (\<lambda>_. updA (\<lambda>s. s\<lparr>tp_blocked := True\<rparr>))
       else retA ())"

definition input_deadlines :: "trackpad \<Rightarrow> time list" where
  "input_deadlines s = (if tp_blocked s then [] else [tp_ready s]) @ (if held s then [tp_last s + 1] else [])"

definition input_timeout :: "time \<Rightarrow> trackpad \<Rightarrow> time option" where
  "input_timeout now s =
     (if input_deadlines s = [] then None else Some (max 0 (Min (set (input_deadlines s)) - now)))"

text \<open>The bytes that arrived. The value tells whether the loop goes on.\<close>

definition take_input :: "(real \<Rightarrow> real) \<Rightarrow> (bytes \<Rightarrow> json outcome) \<Rightarrow> turn_input \<Rightarrow> bytes \<Rightarrow> (trackpad, bool) act" where
  "take_input fl loads ti data =
     (if data = [] then retA False else
      thenA (updA (\<lambda>s. s\<lparr>tp_buf := tp_buf s @ data\<rparr>))
     (bindA (getA tp_buf) (\<lambda>buf.
        if length buf > 65536 then excA (ValueError ''oversized input'') else
        case cut_lines 10 buf of (ls, rest) \<Rightarrow>
          thenA (updA (\<lambda>s. s\<lparr>tp_buf := rest\<rparr>)) (thenA (input_lines fl loads ti ls) (retA True)))))"

definition read_input :: "(real \<Rightarrow> real) \<Rightarrow> (bytes \<Rightarrow> json outcome) \<Rightarrow> turn_input \<Rightarrow> (trackpad, bool) act" where
  "read_input fl loads ti =
     (case ti_read ti of
        Exc e \<Rightarrow> if is_blocking e then retA True else excA e
      | NoRet \<Rightarrow> liftA NoRet
      | Ret data \<Rightarrow> take_input fl loads ti data)"

definition trackpad_turn :: "(real \<Rightarrow> real) \<Rightarrow> (bytes \<Rightarrow> json outcome) \<Rightarrow> turn_input \<Rightarrow> (trackpad, bool) act" where
  "trackpad_turn fl loads ti =
     thenA (release_stalled fl (ti_now ti))
    (thenA (announce_ready ti)
    (thenA (updA (\<lambda>s. s\<lparr>tp_waits := tp_waits s @ [(ti_wait_now ti, input_timeout (ti_wait_now ti) s)]\<rparr>))
    (bindA (liftA (ti_select ti)) (\<lambda>(readable, writable).
     thenA (updA (\<lambda>s. if tp_blocked s \<and> writable then s\<lparr>tp_blocked := False\<rparr> else s))
           (if readable then read_input fl loads ti else retA True)))))"

text \<open>\<^verbatim>\<open>serve\<close>: turns until one returns or raises, then the contacts are released. With no more input it is still waiting.\<close>

fun trackpad_serve :: "(real \<Rightarrow> real) \<Rightarrow> (bytes \<Rightarrow> json outcome) \<Rightarrow> turn_input list \<Rightarrow> (trackpad, unit) act" where
  "trackpad_serve fl loads [] s = (s, NoRet)"
| "trackpad_serve fl loads (ti # tis) s =
     (case trackpad_turn fl loads ti s of
        (t, Ret True) \<Rightarrow> trackpad_serve fl loads tis t
      | (t, Ret False) \<Rightarrow> on_pad (pad_frame fl [] 0) t
      | (t, Exc e) \<Rightarrow> thenA (on_pad (pad_frame fl [] 0)) (excA e) t
      | (t, NoRet) \<Rightarrow> (t, NoRet))"

text \<open>One round of \<^verbatim>\<open>main\<close>: the port, the device, the service; system and value errors are reported and retried.\<close>

definition trackpad_round ::
    "(real \<Rightarrow> real) \<Rightarrow> (bytes \<Rightarrow> json outcome) \<Rightarrow> unit outcome \<Rightarrow> unit outcome \<Rightarrow> time \<Rightarrow> bool list \<Rightarrow> turn_input list \<Rightarrow> unit outcome" where
  "trackpad_round fl loads opened created now faults tis =
     catchO (bindO opened (\<lambda>_. bindO created (\<lambda>_. snd (trackpad_serve fl loads tis (trackpad_new faults now)))))
       (\<lambda>e. is_OSError e \<or> is_ValueError e) (\<lambda>_. Ret ())"

section \<open>A reader of the device\<close>

text \<open>
  What a reader of a type-B device knows: the slot the next events are about, the tracking identity and the position of
  every slot, and the keys that are down. An identity of -1 ends the contact of the slot.
\<close>

record reader =
  rd_slot :: nat
  rd_track :: "nat \<Rightarrow> int"
  rd_x :: "nat \<Rightarrow> int"
  rd_y :: "nat \<Rightarrow> int"
  rd_keys :: "key_code \<Rightarrow> int"

definition reader_new :: reader where
  "reader_new = \<lparr>rd_slot = 0, rd_track = (\<lambda>_. - 1), rd_x = (\<lambda>_. 0), rd_y = (\<lambda>_. 0), rd_keys = (\<lambda>_. 0)\<rparr>"

fun reader_event :: "reader \<Rightarrow> input_event \<Rightarrow> reader" where
  "reader_event r (EV_ABS ABS_MT_SLOT n) = r\<lparr>rd_slot := nat n\<rparr>"
| "reader_event r (EV_ABS ABS_MT_TRACKING_ID i) = r\<lparr>rd_track := (rd_track r)(rd_slot r := i)\<rparr>"
| "reader_event r (EV_ABS ABS_MT_POSITION_X v) = r\<lparr>rd_x := (rd_x r)(rd_slot r := v)\<rparr>"
| "reader_event r (EV_ABS ABS_MT_POSITION_Y v) = r\<lparr>rd_y := (rd_y r)(rd_slot r := v)\<rparr>"
| "reader_event r (EV_KEY k v) = r\<lparr>rd_keys := (rd_keys r)(k := v)\<rparr>"
| "reader_event r _ = r"

definition reads :: "input_event list \<Rightarrow> reader" where
  "reads evs = foldl reader_event reader_new evs"

definition contacts :: "reader \<Rightarrow> (int \<times> int \<times> int) set" where
  "contacts r = {(rd_track r n, rd_x r n, rd_y r n) | n. rd_track r n \<noteq> - 1}"

lemma reads_snoc [simp]: "reads (evs @ [ev]) = reader_event (reads evs) ev"
  by (simp add: reads_def)

section \<open>The slots of the pad\<close>

definition slots_ok :: "(int \<times> nat) list \<Rightarrow> bool" where
  "slots_ok sl \<longleftrightarrow> distinct (map fst sl) \<and> distinct (map snd sl) \<and> (\<forall>(i, n) \<in> set sl. 0 \<le> i \<and> i < 65536 \<and> n < 10)"

definition tracks :: "(int \<times> nat) list \<Rightarrow> reader \<Rightarrow> bool" where
  "tracks sl r \<longleftrightarrow> (\<forall>(i, n) \<in> set sl. rd_track r n = i) \<and> (\<forall>n. n \<notin> snd ` set sl \<longrightarrow> rd_track r n = - 1)"

definition pad_ok :: "pad \<Rightarrow> bool" where
  "pad_ok p \<longleftrightarrow> pad_faults p = [] \<and> slots_ok (pad_slots p) \<and> tracks (pad_slots p) (reads (pad_events p))"

lemma slots_ok_dpop: "slots_ok sl \<Longrightarrow> slots_ok (dpop i sl)"
  unfolding slots_ok_def dpop_def by (auto simp: distinct_map_filter)

lemma slots_ok_snd_inj: "slots_ok sl \<Longrightarrow> (i, n) \<in> set sl \<Longrightarrow> (j, n) \<in> set sl \<Longrightarrow> i = j"
  using inj_onD [of snd "set sl" "(i, n)" "(j, n)"] by (simp add: slots_ok_def distinct_map)

lemma slots_ok_fst_inj: "slots_ok sl \<Longrightarrow> (i, n) \<in> set sl \<Longrightarrow> (i, m) \<in> set sl \<Longrightarrow> n = m"
  unfolding slots_ok_def by (metis eq_key_imp_eq_value)

lemma map_of_slot: "slots_ok sl \<Longrightarrow> map_of sl i = Some n \<longleftrightarrow> (i, n) \<in> set sl"
  unfolding slots_ok_def by (simp add: map_of_eq_Some_iff)

lemma ui_write_ok [simp]: "pad_faults p = [] \<Longrightarrow> ui_write ev p = (p\<lparr>pad_events := pad_events p @ [ev]\<rparr>, Ret ())"
  by (simp add: ui_write_def)

lemma tracks_release:
  assumes "slots_ok sl" "tracks sl r" "(i, n) \<in> set sl"
  shows "tracks (dpop i sl) (r\<lparr>rd_slot := n, rd_track := (rd_track r)(n := - 1)\<rparr>)"
proof -
  have "rd_track r m = j" "m \<noteq> n" if "(j, m) \<in> set (dpop i sl)" for j m
    using that assms(2) slots_ok_snd_inj [OF assms(1) assms(3)] by (auto simp: tracks_def set_dpop)
  moreover have "m \<notin> snd ` set sl" if "m \<notin> snd ` set (dpop i sl)" "m \<noteq> n" for m
    using that slots_ok_fst_inj [OF assms(1) assms(3)] by (force simp: set_dpop)
  ultimately show ?thesis using assms(2) unfolding tracks_def by fastforce
qed

lemma release_contact_ok:
  assumes "pad_ok p" "i \<in> fst ` set (pad_slots p)"
  shows "\<exists>evs. release_contact ids i p =
      (p\<lparr>pad_slots := (if i \<in> set ids then pad_slots p else dpop i (pad_slots p)), pad_events := evs\<rparr>, Ret ()) \<and>
    pad_ok (p\<lparr>pad_slots := (if i \<in> set ids then pad_slots p else dpop i (pad_slots p)), pad_events := evs\<rparr>)"
proof (cases "i \<in> set ids")
  case True
  then show ?thesis using assms by (intro exI [of _ "pad_events p"]) (simp add: release_contact_def)
next
  case False
  obtain n where n: "(i, n) \<in> set (pad_slots p)" using assms(2) by auto
  moreover have "map_of (pad_slots p) i = Some n" using assms(1) n by (simp add: pad_ok_def map_of_slot)
  ultimately show ?thesis using assms(1) False
    by (intro exI [of _ "pad_events p @ [EV_ABS ABS_MT_SLOT (int n), EV_ABS ABS_MT_TRACKING_ID (- 1)]"])
      (simp add: release_contact_def thenA_def bindA_def getA_def updA_def pad_ok_def slots_ok_dpop tracks_release reads_def)
qed


lemma release_all:
  assumes "pad_ok p" "distinct hs" "set hs \<subseteq> fst ` set (pad_slots p)"
  shows "\<exists>q. forA (release_contact ids) hs p = (q, Ret ()) \<and> pad_ok q \<and> pad_buttons q = pad_buttons p \<and>
    set (pad_slots q) = {s \<in> set (pad_slots p). fst s \<in> set ids \<or> fst s \<notin> set hs}"
  using assms
proof (induction hs arbitrary: p)
  case (Cons i hs)
  define q where "q evs = p\<lparr>pad_slots := (if i \<in> set ids then pad_slots p else dpop i (pad_slots p)), pad_events := evs\<rparr>" for evs
  obtain evs where q: "release_contact ids i p = (q evs, Ret ())" "pad_ok (q evs)"
    using release_contact_ok [of p i ids] Cons.prems by (auto simp: q_def)
  have "set hs \<subseteq> fst ` set (pad_slots (q evs))" using Cons.prems by (auto simp: q_def)
  then obtain q' where "forA (release_contact ids) hs (q evs) = (q', Ret ())" "pad_ok q'" "pad_buttons q' = pad_buttons (q evs)"
      "set (pad_slots q') = {s \<in> set (pad_slots (q evs)). fst s \<in> set ids \<or> fst s \<notin> set hs}"
    using Cons.IH [of "q evs"] q(2) Cons.prems(2) by auto
  then show ?case using q(1) Cons.prems(2) by (auto simp: thenA_def bindA_def q_def set_dpop)
qed auto

lemma first_free_some: "length sl < 10 \<Longrightarrow> \<exists>n. first_free sl = Some n \<and> n < 10 \<and> n \<notin> snd ` set sl"
proof -
  assume "length sl < 10"
  then have "card (set (map snd sl)) < card {0..<10::nat}" using card_length [of "map snd sl"] by simp
  then have "\<exists>n < 10. n \<notin> set (map snd sl)" by (metis atLeastLessThan_iff card_mono finite_set not_le subsetI)
  then have "first_free sl \<noteq> None" unfolding first_free_def find_None_iff by force
  then show ?thesis unfolding first_free_def by (auto simp: find_Some_iff image_iff)
qed

lemma set_dset_fresh: "i \<notin> fst ` set sl \<Longrightarrow> set (dset i n sl) = insert (i, n) (set sl)"
  by (simp add: dset_fresh)

lemma slots_ok_dset:
  "slots_ok sl \<Longrightarrow> i \<notin> fst ` set sl \<Longrightarrow> n \<notin> snd ` set sl \<Longrightarrow> n < 10 \<Longrightarrow> 0 \<le> i \<Longrightarrow> i < 65536 \<Longrightarrow> slots_ok (dset i n sl)"
  by (simp add: slots_ok_def dset_fresh)

lemma tracks_move: "tracks sl r \<Longrightarrow> tracks sl (r\<lparr>rd_slot := n, rd_x := f, rd_y := g\<rparr>)"
  by (simp add: tracks_def)

lemma tracks_new:
  "tracks sl r \<Longrightarrow> i \<notin> fst ` set sl \<Longrightarrow> n \<notin> snd ` set sl \<Longrightarrow>
   tracks (dset i n sl) (r\<lparr>rd_slot := n, rd_track := (rd_track r)(n := i), rd_x := f, rd_y := g\<rparr>)"
  unfolding tracks_def by (force simp: dset_fresh)

definition placed :: "(real \<Rightarrow> real) \<Rightarrow> pad \<Rightarrow> point \<Rightarrow> nat \<Rightarrow> pad \<Rightarrow> bool" where
  "placed fl p pt n q \<longleftrightarrow> pad_ok q \<and> set (pad_slots q) = insert (fst pt, n) (set (pad_slots p)) \<and> pad_buttons q = pad_buttons p \<and>
     rd_x (reads (pad_events q)) = (rd_x (reads (pad_events p)))(n := scaled fl 13000 (fst (snd pt))) \<and>
     rd_y (reads (pad_events q)) = (rd_y (reads (pad_events p)))(n := scaled fl 8000 (snd (snd pt)))"

lemma place_held:
  assumes "pad_ok p" "map_of (pad_slots p) i = Some n"
  shows "\<exists>q. place_contact fl (i, x, y) p = (q, Ret ()) \<and> placed fl p (i, x, y) n q"
proof -
  have "(i, n) \<in> set (pad_slots p)" using assms by (simp add: pad_ok_def map_of_slot)
  then show ?thesis using assms
    by (simp add: place_contact_def thenA_def bindA_def getA_def retA_def Let_def placed_def pad_ok_def tracks_move insert_absorb reads_def)
qed

lemma place_new:
  assumes "pad_ok p" "i \<notin> fst ` set (pad_slots p)" "length (pad_slots p) < 10" "0 \<le> i" "i < 65536"
  shows "\<exists>q n. place_contact fl (i, x, y) p = (q, Ret ()) \<and> placed fl p (i, x, y) n q"
proof -
  obtain n where n: "first_free (pad_slots p) = Some n" "n < 10" "n \<notin> snd ` set (pad_slots p)"
    using first_free_some [OF assms(3)] by blast
  have "map_of (pad_slots p) i = None" using assms(2) by (simp add: map_of_eq_None_iff)
  then show ?thesis using assms n
    by (intro exI [of _ "p\<lparr>pad_slots := dset i n (pad_slots p), pad_events := pad_events p @ [EV_ABS ABS_MT_SLOT (int n),
          EV_ABS ABS_MT_TRACKING_ID i, EV_ABS ABS_MT_POSITION_X (scaled fl 13000 x), EV_ABS ABS_MT_POSITION_Y (scaled fl 8000 y)]\<rparr>"]
        exI [of _ n])
      (simp add: place_contact_def thenA_def bindA_def getA_def updA_def retA_def Let_def placed_def pad_ok_def tracks_new slots_ok_dset
        set_dset_fresh reads_def)
qed

lemma place_ok:
  assumes "pad_ok p" "0 \<le> i" "i < 65536" "fst ` set (pad_slots p) \<subseteq> ids" "i \<in> ids" "finite ids" "card ids \<le> 10"
  shows "\<exists>q n. place_contact fl (i, x, y) p = (q, Ret ()) \<and> placed fl p (i, x, y) n q"
proof (cases "map_of (pad_slots p) i")
  case (Some n)
  then show ?thesis using place_held [OF assms(1)] by blast
next
  case None
  then have new: "i \<notin> fst ` set (pad_slots p)" by (simp add: map_of_eq_None_iff)
  then have "card (fst ` set (pad_slots p)) < card ids" using assms by (intro psubset_card_mono) auto
  moreover have "card (fst ` set (pad_slots p)) = length (pad_slots p)"
    using assms(1) by (metis distinct_card length_map list.set_map pad_ok_def slots_ok_def)
  ultimately show ?thesis using place_new [OF assms(1) new] assms by simp
qed

text \<open>The contacts of a frame, in the units of the axes.\<close>

definition touch_at :: "(real \<Rightarrow> real) \<Rightarrow> point \<Rightarrow> int \<times> int \<times> int" where
  "touch_at fl pt = (fst pt, scaled fl 13000 (fst (snd pt)), scaled fl 8000 (snd (snd pt)))"

definition positions :: "pad \<Rightarrow> (int \<times> int \<times> int) set" where
  "positions p = (\<lambda>(i, n). (i, rd_x (reads (pad_events p)) n, rd_y (reads (pad_events p)) n)) ` set (pad_slots p)"


lemma in_positions:
  "(i, a, b) \<in> positions p \<longleftrightarrow> (\<exists>n. (i, n) \<in> set (pad_slots p) \<and> a = rd_x (reads (pad_events p)) n \<and> b = rd_y (reads (pad_events p)) n)"
  by (force simp: positions_def)

lemma positions_placed:
  assumes "placed fl p pt n q"
  shows "positions q = insert (touch_at fl pt) {c \<in> positions p. fst c \<noteq> fst pt}"
proof -
  have ok: "slots_ok (pad_slots q)" and sl: "set (pad_slots q) = insert (fst pt, n) (set (pad_slots p))"
    using assms by (auto simp: placed_def pad_ok_def)
  have other: "m \<noteq> n" if "(j, m) \<in> set (pad_slots p)" "j \<noteq> fst pt" for j m
    using slots_ok_snd_inj [OF ok, of j n "fst pt"] that sl by auto
  have same: "m = n" if "(fst pt, m) \<in> set (pad_slots p)" for m
    using slots_ok_fst_inj [OF ok, of "fst pt" m n] that sl by auto
  have x: "rd_x (reads (pad_events q)) = (rd_x (reads (pad_events p)))(n := scaled fl 13000 (fst (snd pt)))"
    "rd_y (reads (pad_events q)) = (rd_y (reads (pad_events p)))(n := scaled fl 8000 (snd (snd pt)))"
    using assms by (simp_all add: placed_def)
  have "(i, a, b) \<in> positions q \<longleftrightarrow> (i, a, b) \<in> insert (touch_at fl pt) {c \<in> positions p. fst c \<noteq> fst pt}" for i a b
  proof (cases "i = fst pt")
    case True
    then show ?thesis using same unfolding in_positions sl x insert_iff mem_Collect_eq touch_at_def by auto
  next
    case False
    then show ?thesis using other [OF _ False] unfolding in_positions sl x insert_iff mem_Collect_eq touch_at_def by auto
  qed
  then show ?thesis by auto
qed

definition good_points :: "point list \<Rightarrow> bool" where
  "good_points pts \<longleftrightarrow> distinct (map fst pts) \<and> (\<forall>pt \<in> set pts. 0 \<le> fst pt \<and> fst pt < 65536) \<and> length pts \<le> 10"

lemma place_all:
  assumes "pad_ok p" "distinct (map fst pts)" "\<forall>pt \<in> set pts. 0 \<le> fst pt \<and> fst pt < 65536"
    and "fst ` set (pad_slots p) \<subseteq> ids" "fst ` set pts \<subseteq> ids" "finite ids" "card ids \<le> 10"
  shows "\<exists>q. forA (place_contact fl) pts p = (q, Ret ()) \<and> pad_ok q \<and> set (pad_slots p) \<subseteq> set (pad_slots q) \<and>
    pad_buttons q = pad_buttons p \<and> positions q = touch_at fl ` set pts \<union> {c \<in> positions p. fst c \<notin> fst ` set pts}"
  using assms
proof (induction pts arbitrary: p)
  case (Cons pt pts)
  obtain i x y where pt: "pt = (i, x, y)" by (cases pt)
  obtain q n where q: "place_contact fl pt p = (q, Ret ())" "placed fl p pt n q"
    using place_ok [of p i ids fl x y] Cons.prems pt by auto
  have sl: "pad_ok q" "set (pad_slots q) = insert (fst pt, n) (set (pad_slots p))" "pad_buttons q = pad_buttons p"
    using q(2) by (auto simp: placed_def)
  have "fst ` set (pad_slots q) \<subseteq> ids" using sl Cons.prems by simp
  then obtain q' where q': "forA (place_contact fl) pts q = (q', Ret ())" "pad_ok q'" "set (pad_slots q) \<subseteq> set (pad_slots q')"
      "pad_buttons q' = pad_buttons q" "positions q' = touch_at fl ` set pts \<union> {c \<in> positions q. fst c \<notin> fst ` set pts}"
    using Cons.IH [of q] sl(1) Cons.prems by auto
  have "fst (touch_at fl pt) \<notin> fst ` set pts" "fst (touch_at fl pt) = fst pt" using Cons.prems(2) by (simp_all add: touch_at_def)
  then have "positions q' = touch_at fl ` set (pt # pts) \<union> {c \<in> positions p. fst c \<notin> fst ` set (pt # pts)}"
    unfolding q'(5) positions_placed [OF q(2)] by (auto simp del: fst_conv)
  then show ?case using q(1) q' sl by (intro exI [of _ q']) (simp add: thenA_def bindA_def)
qed auto

lemma contacts_positions: "pad_ok p \<Longrightarrow> contacts (reads (pad_events p)) = positions p"
proof -
  assume p: "pad_ok p"
  have i: "i \<noteq> - 1" "rd_track (reads (pad_events p)) n = i" if "(i, n) \<in> set (pad_slots p)" for i n
    using that p by (auto simp: pad_ok_def slots_ok_def tracks_def)
  have n: "\<exists>i. (i, n) \<in> set (pad_slots p)" if "rd_track (reads (pad_events p)) n \<noteq> - 1" for n
    using that p by (force simp: pad_ok_def tracks_def)
  have "(j, a, b) \<in> contacts (reads (pad_events p)) \<longleftrightarrow> (j, a, b) \<in> positions p" for j a b
    unfolding in_positions contacts_def mem_Collect_eq prod.inject using i n by metis
  then show ?thesis by auto
qed

text \<open>The events after the contacts, and the keys they leave.\<close>

definition frame_tail :: "(real \<Rightarrow> real) \<Rightarrow> point list \<Rightarrow> int \<Rightarrow> input_event list" where
  "frame_tail fl pts b =
     (case pts of [] \<Rightarrow> [] | (_, x, y) # _ \<Rightarrow> [EV_ABS ABS_X (scaled fl 13000 x), EV_ABS ABS_Y (scaled fl 8000 y)]) @
     [EV_KEY BTN_TOUCH (if pts = [] then 0 else 1)] @
     map (\<lambda>(count, code). EV_KEY code (if min 5 (int (length pts)) = count then 1 else 0)) TOOL_KEYS @
     map (\<lambda>(n, code). EV_KEY code (if bit b n then 1 else 0)) BUTTON_KEYS @ [EV_SYN]"

fun frame_keys :: "nat \<Rightarrow> int \<Rightarrow> key_code \<Rightarrow> int" where
  "frame_keys n b BTN_TOUCH = (if 0 < n then 1 else 0)"
| "frame_keys n b BTN_TOOL_FINGER = (if n = 1 then 1 else 0)"
| "frame_keys n b BTN_TOOL_DOUBLETAP = (if n = 2 then 1 else 0)"
| "frame_keys n b BTN_TOOL_TRIPLETAP = (if n = 3 then 1 else 0)"
| "frame_keys n b BTN_TOOL_QUADTAP = (if n = 4 then 1 else 0)"
| "frame_keys n b BTN_TOOL_QUINTTAP = (if 5 \<le> n then 1 else 0)"
| "frame_keys n b BTN_LEFT = (if bit b 0 then 1 else 0)"
| "frame_keys n b BTN_RIGHT = (if bit b 1 then 1 else 0)"
| "frame_keys n b BTN_MIDDLE = (if bit b 2 then 1 else 0)"

lemma write_all: "pad_faults p = [] \<Longrightarrow> forA (\<lambda>x. ui_write (f x)) xs p = (p\<lparr>pad_events := pad_events p @ map f xs\<rparr>, Ret ())"
  by (induction xs arbitrary: p) (simp_all add: thenA_def bindA_def)

lemma reads_tail: "reads (evs @ frame_tail fl pts b) = (reads evs)\<lparr>rd_keys := frame_keys (length pts) b\<rparr>"
proof -
  have "(\<forall>k. f k = g k) \<Longrightarrow> f = g" for f g :: "key_code \<Rightarrow> int" by auto
  have "rd_keys (reads (evs @ frame_tail fl pts b)) k = frame_keys (length pts) b k" for k
    by (cases k; cases pts) (auto simp: frame_tail_def TOOL_KEYS_def BUTTON_KEYS_def reads_def min_def split: prod.splits)
  then have "rd_keys (reads (evs @ frame_tail fl pts b)) = frame_keys (length pts) b" by auto
  moreover have "\<exists>ks. reads (evs @ frame_tail fl pts b) = (reads evs)\<lparr>rd_keys := ks\<rparr>"
    by (cases pts) (auto simp: frame_tail_def TOOL_KEYS_def BUTTON_KEYS_def reads_def)
  ultimately show ?thesis by auto
qed


section \<open>A frame is what the reader sees\<close>

definition pad_shown :: "pad \<Rightarrow> bool" where
  "pad_shown p \<longleftrightarrow> pad_ok p \<and> rd_keys (reads (pad_events p)) = frame_keys (length (pad_slots p)) (pad_buttons p)"

definition shows_frame :: "(real \<Rightarrow> real) \<Rightarrow> point list \<Rightarrow> int \<Rightarrow> pad \<Rightarrow> bool" where
  "shows_frame fl pts b p \<longleftrightarrow> contacts (reads (pad_events p)) = touch_at fl ` set pts \<and>
     rd_keys (reads (pad_events p)) = frame_keys (length pts) b"

lemma pad_shown_new [simp]: "pad_shown (pad_new [])"
proof -
  have "(\<lambda>_. 0) = frame_keys 0 0"
  proof
    show "0 = frame_keys 0 0 k" for k by (cases k) auto
  qed
  then show ?thesis by (simp add: pad_shown_def pad_ok_def pad_new_def slots_ok_def tracks_def reads_def reader_new_def)
qed

lemma frame_tail_written:
  "pad_faults p = [] \<Longrightarrow>
   (thenA (pointer_position fl pts) (thenA (ui_write (EV_KEY BTN_TOUCH (if pts = [] then 0 else 1)))
    (thenA (forA (\<lambda>(count, code). ui_write (EV_KEY code (if min 5 (int (length pts)) = count then 1 else 0))) TOOL_KEYS)
    (thenA (forA (\<lambda>(n, code). ui_write (EV_KEY code (if bit b n then 1 else 0))) BUTTON_KEYS)
    (thenA (ui_write EV_SYN) (updA (pad_buttons_update (\<lambda>_. b)))))))) p =
   (p\<lparr>pad_events := pad_events p @ frame_tail fl pts b, pad_buttons := b\<rparr>, Ret ())"
  by (cases pts) (simp_all add: pointer_position_def frame_tail_def case_prod_unfold write_all thenA_def bindA_def updA_def retA_def)

lemma pad_ok_tail:
  assumes "pad_ok p"
  shows "pad_ok (p\<lparr>pad_events := pad_events p @ frame_tail fl pts b, pad_buttons := c\<rparr>)"
    "positions (p\<lparr>pad_events := pad_events p @ frame_tail fl pts b, pad_buttons := c\<rparr>) = positions p"
  using assms by (simp_all add: pad_ok_def reads_tail tracks_def positions_def)

lemma positions_fst: "fst ` positions p = fst ` set (pad_slots p)"
  unfolding positions_def image_image by (rule image_cong) auto

lemma fst_outside: "fst ` P = A \<Longrightarrow> A \<subseteq> B \<Longrightarrow> {c \<in> P. fst c \<notin> B} = {}"
  by blast

lemma slots_count:
  assumes "pad_ok p" "good_points pts" "fst ` set (pad_slots p) = fst ` set pts"
  shows "length (pad_slots p) = length pts"
proof -
  have "length (pad_slots p) = card (fst ` set (pad_slots p))"
    using assms(1) by (metis distinct_card length_map list.set_map pad_ok_def slots_ok_def)
  also have "\<dots> = length pts"
    unfolding assms(3) using assms(2) by (metis distinct_card length_map list.set_map good_points_def)
  finally show ?thesis .
qed

lemma pad_frame_shows:
  assumes "pad_ok p" "good_points pts"
  shows "\<exists>q. pad_frame fl pts b p = (q, Ret ()) \<and> pad_shown q \<and> shows_frame fl pts b q \<and> pad_buttons q = b \<and>
    length (pad_slots q) = length pts \<and> (\<forall>s \<in> set (pad_slots p). fst s \<in> fst ` set pts \<longrightarrow> s \<in> set (pad_slots q))"
proof -
  let ?hs = "map fst (pad_slots p)" and ?ids = "map fst pts"
  have "distinct ?hs" using assms(1) by (simp add: pad_ok_def slots_ok_def)
  then obtain q where q: "forA (release_contact ?ids) ?hs p = (q, Ret ())" "pad_ok q" "pad_buttons q = pad_buttons p"
      "set (pad_slots q) = {s \<in> set (pad_slots p). fst s \<in> set ?ids \<or> fst s \<notin> set ?hs}"
    using release_all [OF assms(1), of ?hs ?ids] by auto
  then have sub: "fst ` set (pad_slots q) \<subseteq> fst ` set pts" by auto
  have "card (fst ` set pts) \<le> 10" using assms(2) card_length [of ?ids] by (simp add: good_points_def)
  then obtain t where t: "forA (place_contact fl) pts q = (t, Ret ())" "pad_ok t" "set (pad_slots q) \<subseteq> set (pad_slots t)"
      "positions t = touch_at fl ` set pts \<union> {c \<in> positions q. fst c \<notin> fst ` set pts}"
    using place_all [OF q(2), of pts "fst ` set pts" fl] assms(2) sub by (auto simp: good_points_def)
  have pos: "positions t = touch_at fl ` set pts" using t(4) fst_outside [OF positions_fst sub] by simp
  define u where "u = t\<lparr>pad_events := pad_events t @ frame_tail fl pts b, pad_buttons := b\<rparr>"
  have u: "pad_ok u" "positions u = positions t" "rd_keys (reads (pad_events u)) = frame_keys (length pts) b"
    using pad_ok_tail [OF t(2)] by (simp_all add: u_def reads_tail)
  have "fst ` set (pad_slots u) = fst ` touch_at fl ` set pts" using positions_fst [of u] u(2) pos by simp
  then have n: "length (pad_slots u) = length pts"
    using slots_count [OF u(1) assms(2)] by (simp add: image_image touch_at_def)
  have "pad_frame fl pts b p = (u, Ret ())"
    using q(1) t(1) frame_tail_written [of t fl pts b] t(2) unfolding pad_frame_def u_def
    by (simp add: thenA_def [of "forA f xs" for f xs] bindA_def getA_def pad_ok_def)
  moreover have "\<forall>s \<in> set (pad_slots p). fst s \<in> fst ` set pts \<longrightarrow> s \<in> set (pad_slots u)"
    using q(4) t(3) by (auto simp: u_def)
  ultimately show ?thesis
    using u n contacts_positions [OF u(1)] pos by (intro exI [of _ u]) (simp add: pad_shown_def shows_frame_def u_def)
qed

lemma touch_points_good:
  "touch_points seen ps = Ret pts \<Longrightarrow>
   distinct (map fst pts) \<and> (\<forall>pt \<in> set pts. 0 \<le> fst pt \<and> fst pt < 65536 \<and> fst pt \<notin> seen) \<and> length pts = length ps"
proof (induction seen ps arbitrary: pts rule: touch_points.induct)
  case (2 seen i x y ps)
  then obtain ident px py pts' where *: "touch_identity seen i = Ret ident" "touch_points (insert ident seen) ps = Ret pts'" "pts = (ident, px, py) # pts'"
    by auto
  then have "0 \<le> ident \<and> ident < 65536 \<and> ident \<notin> seen" by (cases i) (auto split: if_splits)
  then show ?case using 2(1) [OF *(2)] * by auto
qed auto

lemma validate_frame_good: "validate_frame v = Ret (pts, b) \<Longrightarrow> good_points pts"
proof (cases v)
  case (JDict d)
  assume v: "validate_frame v = Ret (pts, b)"
  show ?thesis
  proof (cases "dict_get d ''touches''")
    case (JList ps)
    then show ?thesis using v touch_points_good [of "{}" ps pts] by (auto simp: good_points_def \<open>v = JDict d\<close> split: if_splits)
  qed (use v JDict in simp_all)
qed simp_all


section \<open>The service keeps the reader in step\<close>

abbreviation trackpad_inv :: "trackpad \<Rightarrow> bool" where
  "trackpad_inv s \<equiv> pad_shown (tp_pad s)"

lemma good_points_Nil [simp]: "good_points []"
  by (simp add: good_points_def)

lemma frame_on_pad:
  assumes "trackpad_inv s" "good_points pts"
  shows "\<exists>p. on_pad (pad_frame fl pts b) s = (s\<lparr>tp_pad := p\<rparr>, Ret ()) \<and> pad_shown p \<and> shows_frame fl pts b p \<and>
    pad_buttons p = b \<and> length (pad_slots p) = length pts \<and> (\<forall>sl \<in> set (pad_slots (tp_pad s)). fst sl \<in> fst ` set pts \<longrightarrow> sl \<in> set (pad_slots p))"
  using pad_frame_shows [of "tp_pad s" pts fl b] assms by (auto simp: on_pad_def pad_shown_def)

lemma keeps_frame [keeps_intros]: "good_points pts \<Longrightarrow> keeps trackpad_inv (on_pad (pad_frame fl pts b))"
proof (rule keepsI)
  fix s assume "good_points pts" "trackpad_inv s"
  then obtain p where "on_pad (pad_frame fl pts b) s = (s\<lparr>tp_pad := p\<rparr>, Ret ())" "pad_shown p" using frame_on_pad by blast
  then show "trackpad_inv (fst (on_pad (pad_frame fl pts b) s))" by simp
qed

lemma keeps_plain [keeps_intros]: "(\<And>s. tp_pad (f s) = tp_pad s) \<Longrightarrow> keeps trackpad_inv (updA f)"
  by (rule keeps_upd) simp

lemma keeps_send [keeps_intros]: "keeps trackpad_inv (send_reply m w)"
  unfolding send_reply_def by (intro keeps_intros) simp

lemma keeps_line [keeps_intros]: "keeps trackpad_inv (input_line fl loads now applied line)"
  unfolding input_line_def
  by (intro keeps_catch keeps_lift_bind) (auto intro!: keeps_intros dest: validate_frame_good split: prod.splits)

lemma keeps_lines [keeps_intros]: "keeps trackpad_inv (input_lines fl loads ti ls)"
  unfolding input_lines_def by (auto intro!: keeps_intros split: prod.splits)

lemma keeps_turn: "keeps trackpad_inv (trackpad_turn fl loads ti)"
  unfolding trackpad_turn_def release_stalled_def announce_ready_def read_input_def take_input_def
  by (auto intro!: keeps_intros split: prod.splits outcome.splits)

definition trackpad_start :: "trackpad \<Rightarrow> bool" where
  "trackpad_start s \<longleftrightarrow> (\<exists>now. s = trackpad_new [] now)"

definition trackpad_step :: "(real \<Rightarrow> real) \<Rightarrow> (bytes \<Rightarrow> json outcome) \<Rightarrow> trackpad \<Rightarrow> trackpad \<Rightarrow> bool" where
  "trackpad_step fl loads s t \<longleftrightarrow> (\<exists>ti. trackpad_turn fl loads ti s = (t, Ret True))"

interpretation tp: service trackpad_start "trackpad_step fl loads" trackpad_inv for fl loads
proof
  show "trackpad_start s \<Longrightarrow> trackpad_inv s" for s by (auto simp: trackpad_start_def trackpad_new_def)
  show "trackpad_inv s \<Longrightarrow> trackpad_step fl loads s t \<Longrightarrow> trackpad_inv t" for s t
    using keepsD [OF keeps_turn, of s fl loads] by (auto simp: trackpad_step_def) (metis fst_conv)
qed

lemma shows_nothing: "shows_frame fl [] 0 p \<longleftrightarrow> contacts (reads (pad_events p)) = {} \<and> rd_keys (reads (pad_events p)) = (\<lambda>_. 0)"
proof -
  have "frame_keys 0 0 = (\<lambda>_. 0)"
  proof
    show "frame_keys 0 0 k = 0" for k by (cases k) auto
  qed
  then show ?thesis by (simp add: shows_frame_def)
qed

text \<open>C23: in every reachable state a line from the host is applied exactly: after a valid frame a reader of the device sees
  the contacts of that frame with their positions on the axes, the touch, finger-count and button keys of that frame, and
  a finger that was already down keeps its slot; the frame is acknowledged only if it has contacts. A line that is not a valid frame
  releases every contact and key and is not acknowledged.\<close>

theorem trackpad_line_shown:
  assumes "reach trackpad_start (trackpad_step fl loads) s" "input_line fl loads now applied line s = (t, r)"
    and "\<And>e. applied = Exc e \<Longrightarrow> is_OSError e"
  shows "case bindO (loads line) validate_frame of
      Ret (pts, b) \<Rightarrow> shows_frame fl pts b (tp_pad t) \<and> tp_last t = now \<and>
        (\<forall>sl \<in> set (pad_slots (tp_pad s)). fst sl \<in> fst ` set pts \<longrightarrow> sl \<in> set (pad_slots (tp_pad t))) \<and>
        tp_replies t = tp_replies s @ (if pts \<noteq> [] \<and> applied = Ret (message_length LH_INPUT_APPLIED) then [LH_INPUT_APPLIED] else [])
    | Exc e \<Rightarrow> tp_replies t = tp_replies s \<and>
        (if bad_frame e then shows_frame fl [] 0 (tp_pad t) \<and> r = Ret () else t = s \<and> r = Exc e)
    | NoRet \<Rightarrow> True"
proof (cases "bindO (loads line) validate_frame")
  case (Ret f)
  obtain pts b where f: "f = (pts, b)" by (cases f)
  have g: "good_points pts" using Ret f by (auto dest: validate_frame_good)
  obtain p where p: "on_pad (pad_frame fl pts b) s = (s\<lparr>tp_pad := p\<rparr>, Ret ())" "shows_frame fl pts b p"
      "\<forall>sl \<in> set (pad_slots (tp_pad s)). fst sl \<in> fst ` set pts \<longrightarrow> sl \<in> set (pad_slots p)"
    using frame_on_pad [OF tp.reach_inv [OF assms(1)] g] by blast
  have "\<not> bad_frame (OSError 5 m)" for m by (simp add: bad_frame_def)
  moreover have "\<not> bad_frame e" if "applied = Exc e" for e using assms(3) [OF that] by (cases e) (simp_all add: bad_frame_def)
  ultimately show ?thesis
    using assms(2) p unfolding input_line_def Ret f
    by (cases applied) (auto simp: catchA_def bindA_def thenA_def liftA_def send_reply_def updA_def retA_def excA_def is_blocking_def
        split: if_splits)
next
  case (Exc e)
  obtain p where "on_pad (pad_frame fl [] 0) s = (s\<lparr>tp_pad := p\<rparr>, Ret ())" "shows_frame fl [] 0 p"
    using frame_on_pad [OF tp.reach_inv [OF assms(1)] good_points_Nil] by blast
  then show ?thesis using assms(2) unfolding input_line_def Exc by (auto simp: catchA_def bindA_def liftA_def split: if_splits)
qed simp


lemma serve_released:
  "trackpad_inv s \<Longrightarrow> trackpad_serve fl loads tis s = (t, r) \<Longrightarrow> r \<noteq> NoRet \<Longrightarrow> shows_frame fl [] 0 (tp_pad t)"
proof (induction tis arbitrary: s)
  case (Cons ti tis)
  obtain u v where u: "trackpad_turn fl loads ti s = (u, v)" by (cases "trackpad_turn fl loads ti s")
  then have inv: "trackpad_inv u" using keepsD [OF keeps_turn Cons.prems(1), of fl loads ti] by simp
  obtain p where p: "on_pad (pad_frame fl [] 0) u = (u\<lparr>tp_pad := p\<rparr>, Ret ())" "shows_frame fl [] 0 p"
    using frame_on_pad [OF inv good_points_Nil] by blast
  show ?case
  proof (cases v)
    case (Ret b)
    then show ?thesis using Cons.IH [OF inv] Cons.prems(2,3) u p by (cases b) auto
  qed (use Cons.prems(2,3) u p in \<open>auto simp: thenA_def bindA_def excA_def\<close>)
qed simp


text \<open>A run in which a finger goes down and the port is closed.\<close>

definition one_touch :: json where
  "one_touch = JDict [(''touches'', JList [JList [JInt 7, JInt 1, JInt 0]]), (''buttons'', JInt 1)]"

definition touch_turn :: "bytes \<Rightarrow> turn_input" where
  "touch_turn data = \<lparr>ti_now = 0, ti_ready_write = Ret 15, ti_ready_now = 0, ti_wait_now = 0, ti_select = Ret (True, False), ti_read = Ret data,
     ti_line_now = (\<lambda>_. 0), ti_applied_write = (\<lambda>_. Ret 17)\<rparr>"

lemma ten_slots: "[0..<10] = [0, 1, 2, 3, 4, 5, 6, 7, 8, 9 :: nat]"
  by code_simp

lemmas trackpad_eval = trackpad_new_def pad_new_def trackpad_turn_def release_stalled_def announce_ready_def send_reply_def read_input_def
  take_input_def input_lines_def input_line_def pad_frame_def release_contact_def place_contact_def pointer_position_def touch_turn_def
  one_touch_def thenA_def bindA_def getA_def updA_def liftA_def catchA_def retA_def excA_def on_pad_def ui_write_def held_def message_length_def
  TOOL_KEYS_def BUTTON_KEYS_def first_free_def input_timeout_def input_deadlines_def frame_buttons_def Let_def dpop_def
  is_blocking_def bad_frame_def ten_slots

lemma one_touch_reached:
  "\<exists>t. trackpad_turn id (\<lambda>_. Ret one_touch) (touch_turn [10]) (trackpad_new [] 0) = (t, Ret True) \<and> pad_slots (tp_pad t) = [(7, 0)] \<and>
     tp_last t = 0"
  by (simp add: trackpad_eval)


theorem trackpad_line_shown_witness:
  "\<exists>t r. input_line id (\<lambda>_. Ret one_touch) 3 (Ret 17) [] (trackpad_new [] 0) = (t, r) \<and>
     contacts (reads (pad_events (tp_pad t))) = {(7, 13000, 0)} \<and> tp_replies t = [LH_INPUT_APPLIED]"
proof -
  have "reach trackpad_start (trackpad_step id (\<lambda>_. Ret one_touch)) (trackpad_new [] 0)"
    by (rule reach_init) (auto simp: trackpad_start_def)
  moreover obtain t r where t: "input_line id (\<lambda>_. Ret one_touch) 3 (Ret 17) [] (trackpad_new [] 0) = (t, r)"
    by (cases "input_line id (\<lambda>_. Ret one_touch) 3 (Ret 17) [] (trackpad_new [] 0)")
  moreover have "validate_frame one_touch = Ret ([(7, CInt 1, CInt 0)], 1)" by (simp add: one_touch_def frame_buttons_def)
  ultimately show ?thesis
    using trackpad_line_shown [of id "\<lambda>_. Ret one_touch" "trackpad_new [] 0" 3 "Ret 17" "[]" t r]
    by (auto simp: shows_frame_def touch_at_def message_length_def trackpad_new_def)
qed

section \<open>A stalled touch\<close>

lemma unheld_shows_nothing: "trackpad_inv s \<Longrightarrow> \<not> held s \<Longrightarrow> shows_frame fl [] 0 (tp_pad s)"
  using contacts_positions [of "tp_pad s"] by (simp add: held_def pad_shown_def shows_frame_def positions_def)

lemma announce_frame:
  "announce_ready ti s = (t, r) \<Longrightarrow> tp_pad t = tp_pad s \<and> tp_last t = tp_last s \<and> tp_waits t = tp_waits s"
  unfolding announce_ready_def send_reply_def
  by (cases "ti_ready_write ti")
    (auto simp: catchA_def thenA_def bindA_def liftA_def getA_def updA_def retA_def excA_def split: if_splits)

lemma turn_without_input:
  assumes "ti_select ti = Ret (False, w)" "trackpad_turn fl loads ti s = (t, r)"
    and "release_stalled fl (ti_now ti) s = (u, Ret ())"
  shows "tp_pad t = tp_pad u \<and> tp_last t = tp_last u \<and>
    (r = Ret True \<longrightarrow> (\<exists>v. tp_pad v = tp_pad u \<and> tp_last v = tp_last u \<and> last (tp_waits t) = (ti_wait_now ti, input_timeout (ti_wait_now ti) v)))"
proof -
  obtain v q where v: "announce_ready ti u = (v, q)" by (cases "announce_ready ti u")
  note a = announce_frame [OF v]
  show ?thesis
  proof (cases q)
    case (Ret x)
    have "tp_pad t = tp_pad v \<and> tp_last t = tp_last v \<and> last (tp_waits t) = (ti_wait_now ti, input_timeout (ti_wait_now ti) v)"
      using assms v Ret by (auto simp: trackpad_turn_def thenA_def bindA_def updA_def retA_def liftA_def split: if_splits)
    then show ?thesis using a by auto
  qed (use assms v a in \<open>auto simp: trackpad_turn_def thenA_def bindA_def\<close>)
qed

lemma timeout_bound: "held s \<Longrightarrow> \<exists>d. input_timeout now s = Some d \<and> d \<le> max 0 (tp_last s + 1 - now)"
  by (auto simp: input_timeout_def input_deadlines_def)

text \<open>A touch the host sends no more frames for does not stay down: the first turn that starts a second or more after the
  last frame releases every contact and key, and before that, as long as a reader sees a contact or a key, the loop waits no longer
  than until that second has passed.\<close>

theorem trackpad_stall_released:
  assumes "reach trackpad_start (trackpad_step fl loads) s"
    and "trackpad_turn fl loads ti s = (t, r)" "ti_select ti = Ret (False, w)"
  shows "if 1 \<le> ti_now ti - tp_last s
    then contacts (reads (pad_events (tp_pad t))) = {} \<and> rd_keys (reads (pad_events (tp_pad t))) = (\<lambda>_. 0)
    else r = Ret True \<longrightarrow> contacts (reads (pad_events (tp_pad t))) \<noteq> {} \<or> rd_keys (reads (pad_events (tp_pad t))) \<noteq> (\<lambda>_. 0) \<longrightarrow>
      tp_last t = tp_last s \<and>
      (\<exists>d. last (tp_waits t) = (ti_wait_now ti, Some d) \<and> d \<le> max 0 (tp_last s + 1 - ti_wait_now ti))"
proof -
  note inv = tp.reach_inv [OF assms(1)]
  obtain p where p: "on_pad (pad_frame fl [] 0) s = (s\<lparr>tp_pad := p\<rparr>, Ret ())" "shows_frame fl [] 0 p"
    using frame_on_pad [OF inv good_points_Nil] by blast
  define u where "u = (if held s \<and> 1 \<le> ti_now ti - tp_last s then s\<lparr>tp_pad := p\<rparr> else s)"
  have u: "release_stalled fl (ti_now ti) s = (u, Ret ())"
    using p(1) by (simp add: release_stalled_def bindA_def getA_def retA_def u_def)
  note turn = turn_without_input [OF assms(3,2) u]
  show ?thesis
  proof (cases "1 \<le> ti_now ti - tp_last s")
    case True
    then have "shows_frame fl [] 0 (tp_pad t)"
      using turn p(2) unheld_shows_nothing [OF inv] by (auto simp: u_def)
    then show ?thesis using True by (simp add: shows_nothing)
  next
    case False
    then have us: "u = s" by (simp add: u_def)
    have "\<exists>d. last (tp_waits t) = (ti_wait_now ti, Some d) \<and> d \<le> max 0 (tp_last s + 1 - ti_wait_now ti)"
      if ret: "r = Ret True" and seen: "\<not> shows_frame fl [] 0 (tp_pad t)"
    proof -
      obtain v where v: "tp_pad v = tp_pad s" "tp_last v = tp_last s" "last (tp_waits t) = (ti_wait_now ti, input_timeout (ti_wait_now ti) v)"
        using conjunct2 [OF conjunct2 [OF turn], THEN mp, OF ret] unfolding us by (elim exE conjE)
      have "held v" using seen unheld_shows_nothing [OF inv, of fl] turn us v(1) by (auto simp: held_def)
      then show ?thesis using timeout_bound [of v "ti_wait_now ti"] v by auto
    qed
    then show ?thesis unfolding if_not_P [OF False] shows_nothing using turn us
      by (intro impI conjI; (elim disjE)?) (simp, simp, metis, metis)
  qed
qed


section \<open>Every event fits the device\<close>

fun in_range :: "input_event \<Rightarrow> bool" where
  "in_range (EV_ABS c v) = (0 \<le> v \<and> v \<le> axis_maximum c \<or> c = ABS_MT_TRACKING_ID \<and> v = - 1)"
| "in_range (EV_KEY k v) = (v = 0 \<or> v = 1)"
| "in_range EV_SYN = True"

fun unit_coord :: "coord \<Rightarrow> bool" where
  "unit_coord (CInt i) = (0 \<le> i \<and> i \<le> 1)"
| "unit_coord (CFloat x) = (0 \<le> x \<and> x \<le> 1)"

lemma scaled_range:
  assumes "float_rounding fl" "unit_coord c" "0 \<le> n" "n \<le> 2 ^ 53"
  shows "0 \<le> scaled fl n c \<and> scaled fl n c \<le> n"
proof (cases c)
  case (CInt i)
  then have "i = 0 \<or> i = 1" using assms(2) by auto
  then show ?thesis using CInt assms(3) by auto
next
  case (CFloat x)
  have n: "0 \<le> x * of_int n" "x * of_int n \<le> of_int n" using CFloat assms by (auto intro: mult_left_le_one_le)
  then show ?thesis using round_rounded [OF assms(1) _ n(2), of 0] CFloat assms(3,4) by simp
qed

definition low_slots :: "(int \<times> nat) list \<Rightarrow> bool" where
  "low_slots sl \<longleftrightarrow> list_all (\<lambda>s. snd s \<le> 9) sl"

definition pad_ranged :: "pad \<Rightarrow> bool" where
  "pad_ranged p \<longleftrightarrow> low_slots (pad_slots p) \<and> list_all in_range (pad_events p)"

lemma ranged_write [keeps_intros]: "in_range ev \<Longrightarrow> keeps pad_ranged (ui_write ev)"
  by (rule keepsI) (auto simp: ui_write_def pad_ranged_def split: list.splits bool.splits)

lemma ranged_slots: "(\<And>sl. low_slots sl \<Longrightarrow> low_slots (f sl)) \<Longrightarrow> keeps pad_ranged (updA (pad_slots_update f))"
  by (rule keeps_upd) (simp add: pad_ranged_def)

lemma low_slot: "pad_ranged p \<Longrightarrow> map_of (pad_slots p) i = Some n \<Longrightarrow> n \<le> 9"
  unfolding pad_ranged_def low_slots_def list_all_iff using map_of_SomeD [of "pad_slots p" i n] by auto

lemma low_dpop: "low_slots sl \<Longrightarrow> low_slots (dpop i sl)"
  by (simp add: low_slots_def list_all_iff set_dpop)

lemma low_dset: "low_slots sl \<Longrightarrow> n \<le> 9 \<Longrightarrow> low_slots (dset i n sl)"
  unfolding low_slots_def by (induction i n sl rule: dset.induct) auto

lemma low_free: "first_free sl = Some n \<Longrightarrow> n \<le> 9"
  by (auto simp: first_free_def find_Some_iff)

lemma ranged_release [keeps_intros]: "keeps pad_ranged (release_contact ids i)"
  unfolding release_contact_def
  by (auto intro!: keeps_get_bind keeps_intros ranged_slots low_dpop simp: low_slot split: option.splits)

lemma ranged_place:
  assumes "float_rounding fl" "0 \<le> i" "i < 65536" "unit_coord x" "unit_coord y"
  shows "keeps pad_ranged (place_contact fl (i, x, y))"
proof -
  note r = scaled_range [OF assms(1,4), of 13000] scaled_range [OF assms(1,5), of 8000]
  show ?thesis unfolding place_contact_def Let_def prod.case
    using assms r by (auto intro!: keeps_get_bind keeps_intros ranged_slots low_dset simp: low_free low_slot split: option.splits)
qed

definition ranged_points :: "point list \<Rightarrow> bool" where
  "ranged_points pts \<longleftrightarrow> (\<forall>(i, x, y) \<in> set pts. 0 \<le> i \<and> i < 65536 \<and> unit_coord x \<and> unit_coord y)"

lemma ranged_frame:
  assumes "float_rounding fl" "ranged_points pts"
  shows "keeps pad_ranged (pad_frame fl pts b)"
proof -
  have "keeps pad_ranged (place_contact fl pt)" if "pt \<in> set pts" for pt
    using that assms by (cases pt) (auto simp: ranged_points_def intro!: ranged_place)
  moreover have "keeps pad_ranged (pointer_position fl pts)"
    using assms scaled_range [OF assms(1), of _ 13000] scaled_range [OF assms(1), of _ 8000]
    by (auto simp: pointer_position_def ranged_points_def intro!: keeps_intros split: list.splits)
  moreover have "keeps pad_ranged (updA (pad_buttons_update (\<lambda>_. b)))" by (rule keeps_upd) (simp add: pad_ranged_def)
  ultimately show ?thesis
    unfolding pad_frame_def by (auto intro!: keeps_intros split: prod.splits)
qed

lemma coordinate_unit: "coordinate v = Ret c \<Longrightarrow> unit_coord c"
  by (cases v rule: coordinate.cases) (auto split: if_splits)

lemma touch_points_ranged: "touch_points seen ps = Ret pts \<Longrightarrow> ranged_points pts"
proof (induction seen ps arbitrary: pts rule: touch_points.induct)
  case (2 seen i x y ps)
  then obtain ident px py pts' where *: "touch_identity seen i = Ret ident" "coordinate x = Ret px" "coordinate y = Ret py"
      "touch_points (insert ident seen) ps = Ret pts'" "pts = (ident, px, py) # pts'"
    by auto
  then have "0 \<le> ident \<and> ident < 65536" by (cases i) (auto split: if_splits)
  then show ?case using 2(1) [OF *(4)] * coordinate_unit by (auto simp: ranged_points_def)
qed (auto simp: ranged_points_def)

lemma validate_frame_ranged: "validate_frame v = Ret (pts, b) \<Longrightarrow> ranged_points pts"
  by (cases v) (auto dest: touch_points_ranged split: json.splits if_splits)


abbreviation events_ranged :: "trackpad \<Rightarrow> bool" where
  "events_ranged s \<equiv> pad_ranged (tp_pad s)"

lemma ranged_on_pad: "keeps pad_ranged m \<Longrightarrow> keeps events_ranged (on_pad m)"
  by (auto simp: keeps_def on_pad_def case_prod_unfold)

lemma ranged_on_frame [keeps_intros]:
  "float_rounding fl \<Longrightarrow> ranged_points pts \<Longrightarrow> keeps events_ranged (on_pad (pad_frame fl pts b))"
  by (rule ranged_on_pad) (rule ranged_frame)

lemma ranged_plain [keeps_intros]: "(\<And>s. tp_pad (f s) = tp_pad s) \<Longrightarrow> keeps events_ranged (updA f)"
  by (rule keeps_upd) simp

lemma ranged_send [keeps_intros]: "keeps events_ranged (send_reply m w)"
  unfolding send_reply_def by (intro keeps_intros) simp

lemma ranged_Nil [simp]: "ranged_points []"
  by (simp add: ranged_points_def)

lemma ranged_line [keeps_intros]: "float_rounding fl \<Longrightarrow> keeps events_ranged (input_line fl loads now applied line)"
  unfolding input_line_def
  by (intro keeps_catch keeps_lift_bind) (auto intro!: keeps_intros dest: validate_frame_ranged split: prod.splits)

lemma ranged_turn: "float_rounding fl \<Longrightarrow> keeps events_ranged (trackpad_turn fl loads ti)"
  unfolding trackpad_turn_def release_stalled_def announce_ready_def read_input_def take_input_def input_lines_def
  by (auto intro!: keeps_intros split: prod.splits outcome.splits)

lemma ranged_serve: "float_rounding fl \<Longrightarrow> keeps events_ranged (trackpad_serve fl loads tis)"
proof (induction tis)
  case (Cons ti tis)
  show ?case
  proof (rule keepsI)
    fix s assume "events_ranged s"
    moreover obtain u v where u: "trackpad_turn fl loads ti s = (u, v)" by (cases "trackpad_turn fl loads ti s")
    ultimately have "events_ranged u" using keepsD [OF ranged_turn [OF Cons.prems]] by (metis fst_conv)
    moreover have "keeps events_ranged (on_pad (pad_frame fl [] 0))" "keeps events_ranged (thenA (on_pad (pad_frame fl [] 0)) (excA e))" for e :: exn
      using Cons.prems by (auto intro!: keeps_intros)
    ultimately show "events_ranged (fst (trackpad_serve fl loads (ti # tis) s))"
      using u keepsD [OF Cons.IH [OF Cons.prems]] keepsD by (fastforce split: outcome.splits bool.splits)
  qed
qed (simp add: keeps_def)

text \<open>Whatever the host sends, whichever writes fail and however floating-point products are rounded, every event written
  to the device is one it was created for: an axis value between 0 and the declared maximum of its axis, or the -1 that ends
  a contact, or a key value of 0 or 1.\<close>

theorem trackpad_events_in_range:
  assumes "float_rounding fl"
  shows "list_all in_range (pad_events (tp_pad (fst (trackpad_serve fl loads tis (trackpad_new faults now)))))"
proof -
  have "events_ranged (trackpad_new faults now)" by (simp add: trackpad_new_def pad_new_def pad_ranged_def low_slots_def)
  then show ?thesis using keepsD [OF ranged_serve [OF assms]] by (simp add: pad_ranged_def)
qed


theorem trackpad_events_in_range_witness:
  "list_all in_range (pad_events (tp_pad (fst (trackpad_serve id (\<lambda>_. Ret one_touch) [touch_turn [10]] (trackpad_new [False, True] 0)))))"
  by (rule trackpad_events_in_range) (simp add: float_rounding_def)

theorem trackpad_stall_released_witness:
  "\<exists>s t r. pad_slots (tp_pad s) = [(7, 0)] \<and>
     trackpad_turn id (\<lambda>_. Ret one_touch) ((touch_turn [])\<lparr>ti_now := 2, ti_select := Ret (False, False)\<rparr>) s = (t, r) \<and>
     contacts (reads (pad_events (tp_pad t))) = {}"
proof -
  let ?ti = "(touch_turn [])\<lparr>ti_now := 2, ti_select := Ret (False, False)\<rparr>"
  obtain s where s: "trackpad_turn id (\<lambda>_. Ret one_touch) (touch_turn [10]) (trackpad_new [] 0) = (s, Ret True)"
      "pad_slots (tp_pad s) = [(7, 0)]" "tp_last s = 0"
    using one_touch_reached by blast
  have "reach trackpad_start (trackpad_step id (\<lambda>_. Ret one_touch)) (trackpad_new [] 0)"
    by (rule reach_init) (auto simp: trackpad_start_def)
  then have r: "reach trackpad_start (trackpad_step id (\<lambda>_. Ret one_touch)) s"
    by (rule reach_step) (use s in \<open>auto simp: trackpad_step_def\<close>)
  obtain t q where t: "trackpad_turn id (\<lambda>_. Ret one_touch) ?ti s = (t, q)"
    by (cases "trackpad_turn id (\<lambda>_. Ret one_touch) ?ti s")
  have "contacts (reads (pad_events (tp_pad t))) = {}"
    using trackpad_stall_released [OF r t, of False] s(3) by simp
  then show ?thesis using s t by blast
qed

end
