(* ===== verification/Battery.thy ===== *)
theory Battery
  imports Pyvalue
begin

text \<open>
  \<^verbatim>\<open>guest/drivers/battery\<close>: the feed (\<^verbatim>\<open>feed.py\<close>) that turns the host's status file into one line for the battery driver,
  and the driver (\<^verbatim>\<open>linuxhost_battery.c\<close>) that reads it. Inputs are the clock, the status file, what \<^verbatim>\<open>inotify\<close>
  reports, and the results of the system calls. The quotient of two integers is a double: \<open>fl\<close> is the rounding of the
  exact quotient.
\<close>

unbundle bit_operations_syntax

section \<open>The telemetry line\<close>

definition flag :: "bool \<Rightarrow> string" where
  "flag b = dec_int (if b then 1 else 0)"

fun capacity_values :: "json \<Rightarrow> json \<Rightarrow> (int \<times> int) option" where
  "capacity_values (JInt current) (JInt maximum) =
     (if maximum \<le> 0 \<or> \<not> (0 \<le> current \<and> current \<le> maximum) then None else Some (current, maximum))"
| "capacity_values _ _ = None"

definition percent :: "(real \<Rightarrow> real) \<Rightarrow> int \<Rightarrow> int \<Rightarrow> int" where
  "percent fl current maximum = round_even (fl (of_int (current * 100) / of_int maximum))"

definition battery_state :: "(real \<Rightarrow> real) \<Rightarrow> json \<Rightarrow> string outcome" where
  "battery_state fl data =
     bindO (jget data ''ok'') (\<lambda>ok.
       if ok \<noteq> JBool True then Exc (ValueError ''Host unavailable'') else
       bindO (jitem data ''battery'') (\<lambda>battery.
       bindO (jitem battery ''Current Capacity'') (\<lambda>current.
       bindO (jitem battery ''Max Capacity'') (\<lambda>maximum.
       bindO (jitem battery ''Is Charging'') (\<lambda>charging.
       bindO (jitem battery ''Power Source State'') (\<lambda>power.
         case (capacity_values current maximum, charging) of
           (Some (c, m), JBool ch) \<Rightarrow>
             if power \<notin> {JStr ''AC Power'', JStr ''Battery Power''} then Exc (ValueError ''Invalid telemetry'')
             else Ret (''1 '' @ flag (power = JStr ''AC Power'') @ '' '' @ dec_int (percent fl c m) @ '' '' @ flag ch @ [CHR 0x0A])
         | _ \<Rightarrow> Exc (ValueError ''Invalid telemetry'')))))))"

section \<open>Publishing\<close>

record publish_input =
  pi_now :: time
  pi_mtime :: "time outcome"
  pi_status :: "json outcome"
  pi_write :: "unit outcome"

definition publish_failure :: "exn \<Rightarrow> bool" where
  "publish_failure e \<longleftrightarrow> is_OSError e \<or> is_KeyError e \<or> is_ValueError e \<or> is_TypeError e \<or> is_AttributeError e"

text \<open>What is written to the driver, and the value.\<close>

definition publish :: "(real \<Rightarrow> real) \<Rightarrow> publish_input \<Rightarrow> string option \<times> bool outcome" where
  "publish fl inp =
     (case bindO (pi_mtime inp) (\<lambda>mtime. Ret (pi_now inp - mtime > 20)) of
        Ret True \<Rightarrow> (None, Ret False)
      | Ret False \<Rightarrow>
          (case bindO (pi_status inp) (battery_state fl) of
             Ret line \<Rightarrow> (Some line, catchO (bindO (pi_write inp) (\<lambda>_. Ret True)) publish_failure (\<lambda>_. Ret False))
           | Exc e \<Rightarrow> (None, if publish_failure e then Ret False else Exc e)
           | NoRet \<Rightarrow> (None, NoRet))
      | Exc e \<Rightarrow> (None, if publish_failure e then Ret False else Exc e)
      | NoRet \<Rightarrow> (None, NoRet))"

section \<open>The watch\<close>

text \<open>The state is the descriptor of the watch (negative once closed) and the descriptors closed so far.\<close>

type_synonym watch = "int \<times> int list"

definition status_watch_close :: "watch \<Rightarrow> watch" where
  "status_watch_close w = (case w of (fd, shut) \<Rightarrow> if 0 \<le> fd then (- 1, shut @ [fd]) else w)"

definition status_watch_open :: "int \<Rightarrow> int \<Rightarrow> int \<Rightarrow> watch \<times> unit outcome" where
  "status_watch_open fd added errno =
     (if fd < 0 then ((fd, []), Exc (OSError errno ''inotify_init1''))
      else if added < 0 then (status_watch_close (fd, []), Exc (OSError errno ''inotify_add_watch''))
      else ((fd, []), Ret ()))"

definition mask_of :: "bytes \<Rightarrow> 32 word" where
  "mask_of data = word_of_nat (from_le (py_slice 4 8 data))"

definition size_of :: "bytes \<Rightarrow> nat" where
  "size_of data = from_le (py_slice 12 16 data)"

definition name_of :: "bytes \<Rightarrow> bytes" where
  "name_of data = takeWhile (\<lambda>b. b \<noteq> 0) (py_slice 16 (16 + size_of data) data)"

definition rearm :: "32 word \<Rightarrow> bool" where
  "rearm m \<longleftrightarrow> m AND 0x8C00 \<noteq> 0"

definition overflow :: "32 word \<Rightarrow> bool" where
  "overflow m \<longleftrightarrow> m AND 0x4000 \<noteq> 0"

function status_watch_scan :: "bytes \<Rightarrow> bytes \<Rightarrow> bool \<Rightarrow> bool outcome" where
  "status_watch_scan nm data changed =
     (if length data < 16 then Ret changed
      else if rearm (mask_of data) then Exc (OSError 0 ''Status directory replaced'')
      else status_watch_scan nm (drop (16 + size_of data) data) (changed \<or> name_of data = nm \<or> overflow (mask_of data)))"
  by pat_completeness auto
termination
  by (relation "measure (\<lambda>(nm, data, changed). length data)") auto

declare status_watch_scan.simps [simp del]

definition status_watch_wait :: "bytes \<Rightarrow> bool outcome \<Rightarrow> bytes outcome \<Rightarrow> bool outcome" where
  "status_watch_wait nm readable data =
     bindO readable (\<lambda>r. if \<not> r then Ret False else bindO data (\<lambda>d. status_watch_scan nm d False))"

section \<open>The feed and the writer of the status file\<close>

text \<open>An event as \<^verbatim>\<open>inotify\<close> queues it; the name is padded with zeros.\<close>

record inotify_event =
  ie_wd :: nat
  ie_mask :: "32 word"
  ie_cookie :: nat
  ie_name :: bytes
  ie_padding :: nat

definition encode_event :: "inotify_event \<Rightarrow> bytes" where
  "encode_event ev =
     to_le 4 (ie_wd ev) @ to_le 4 (unat (ie_mask ev)) @ to_le 4 (ie_cookie ev) @
     to_le 4 (length (ie_name ev) + ie_padding ev) @ ie_name ev @ replicate (ie_padding ev) 0"

definition event_ok :: "inotify_event \<Rightarrow> bool" where
  "event_ok ev \<longleftrightarrow> length (ie_name ev) + ie_padding ev < 2 ^ 32 \<and> 0 \<notin> set (ie_name ev)"

datatype feed_pc = FOpen | FPublish | FWait | FRepublish | FSleep

text \<open>
  \<^verbatim>\<open>main\<close> beside the agent that replaces the status file: how often it was replaced, which replacement the last \<^verbatim>\<open>publish\<close>
  read, the events queued for the watch while there is one, and whether a watch is open.
\<close>

record feed =
  fe_pc :: feed_pc
  fe_version :: nat
  fe_read :: nat
  fe_queue :: "inotify_event list"
  fe_open :: bool

definition feed_new :: "nat \<Rightarrow> feed" where
  "feed_new v = \<lparr>fe_pc = FOpen, fe_version = v, fe_read = 0, fe_queue = [], fe_open = False\<rparr>"

definition deliver :: "inotify_event \<Rightarrow> feed \<Rightarrow> feed" where
  "deliver ev f = (if fe_open f then f\<lparr>fe_queue := fe_queue f @ [ev]\<rparr> else f)"

text \<open>The end of a round: the exception is caught, the watch closed.\<close>

definition feed_fail :: "feed \<Rightarrow> feed" where
  "feed_fail f = f\<lparr>fe_pc := FSleep, fe_queue := [], fe_open := False\<rparr>"

definition feed_publish :: "feed \<Rightarrow> feed" where
  "feed_publish f = f\<lparr>fe_pc := FWait, fe_read := fe_version f\<rparr>"

definition feed_read :: "bytes \<Rightarrow> nat \<Rightarrow> feed \<Rightarrow> feed" where
  "feed_read nm k f =
     (case status_watch_wait nm (Ret True) (Ret (concat (map encode_event (take k (fe_queue f))))) of
        Ret True \<Rightarrow> f\<lparr>fe_pc := FRepublish, fe_queue := drop k (fe_queue f)\<rparr>
      | Ret False \<Rightarrow> f\<lparr>fe_queue := drop k (fe_queue f)\<rparr>
      | _ \<Rightarrow> feed_fail f)"

inductive feed_step :: "bytes \<Rightarrow> feed \<Rightarrow> feed \<Rightarrow> bool" for nm where
  open_watch: "fe_pc f = FOpen \<Longrightarrow> feed_step nm f (f\<lparr>fe_pc := FPublish, fe_queue := [], fe_open := True\<rparr>)"
| open_fails: "fe_pc f = FOpen \<Longrightarrow> feed_step nm f (feed_fail f)"
| first_publish: "fe_pc f = FPublish \<Longrightarrow> feed_step nm f (feed_publish f)"
| again_publish: "fe_pc f = FRepublish \<Longrightarrow> feed_step nm f (feed_publish f)"
| wait_event: "fe_pc f = FWait \<Longrightarrow> 0 < k \<Longrightarrow> k \<le> length (fe_queue f) \<Longrightarrow> feed_step nm f (feed_read nm k f)"
| wait_fails: "fe_pc f = FWait \<Longrightarrow> feed_step nm f (feed_fail f)"
| slept: "fe_pc f = FSleep \<Longrightarrow> feed_step nm f (f\<lparr>fe_pc := FOpen\<rparr>)"
| replaced: "event_ok ev \<Longrightarrow> ie_name ev = nm \<or> overflow (ie_mask ev) \<Longrightarrow> feed_step nm f (deliver ev (f\<lparr>fe_version := Suc (fe_version f)\<rparr>))"
| other_event: "event_ok ev \<Longrightarrow> feed_step nm f (deliver ev f)"

section \<open>The driver\<close>

record battery_driver =
  bd_present :: int
  bd_online :: int
  bd_capacity :: int
  bd_charging :: int
  bd_updated :: time
  bd_changes :: nat

definition driver_new :: battery_driver where
  "driver_new = \<lparr>bd_present = 0, bd_online = 0, bd_capacity = 0, bd_charging = 0, bd_updated = 0, bd_changes = 0\<rparr>"

text \<open>The conversion \<open>%d\<close>: white space, a sign, digits; the value is stored in 32 bits.\<close>

definition scan_int :: "string \<Rightarrow> (int \<times> string) option" where
  "scan_int str =
     (let s = dropWhile ascii_space str; neg = (s \<noteq> [] \<and> hd s = CHR ''-''); t = (if neg then tl s else s); ds = takeWhile digit t in
      if ds = [] then None
      else Some (sint (word_of_int (if neg then - int (digits_val ds) else int (digits_val ds)) :: 32 word), dropWhile digit t))"

text \<open>\<^verbatim>\<open>sscanf(buf, "%d %d %d %d %c", ...) == 4\<close>.\<close>

definition scan_state :: "string \<Rightarrow> (int \<times> int \<times> int \<times> int) option" where
  "scan_state buf =
     (case scan_int buf of None \<Rightarrow> None | Some (p, s1) \<Rightarrow>
     (case scan_int s1 of None \<Rightarrow> None | Some (n, s2) \<Rightarrow>
     (case scan_int s2 of None \<Rightarrow> None | Some (c, s3) \<Rightarrow>
     (case scan_int s3 of None \<Rightarrow> None | Some (h, s4) \<Rightarrow>
       if dropWhile ascii_space s4 = [] then Some (p, n, c, h) else None))))"

definition state_store :: "time \<Rightarrow> string \<Rightarrow> battery_driver \<Rightarrow> battery_driver \<times> bool" where
  "state_store jiffies buf d =
     (case scan_state buf of
        None \<Rightarrow> (d, False)
      | Some (p, n, c, h) \<Rightarrow>
          if p < 0 \<or> p > 1 \<or> n < 0 \<or> n > 1 \<or> c < 0 \<or> c > 100 \<or> h < 0 \<or> h > 1 then (d, False)
          else (let changed = (p \<noteq> bd_present d \<or> n \<noteq> bd_online d \<or> c \<noteq> bd_capacity d \<or> h \<noteq> bd_charging d) in
            (d\<lparr>bd_present := p, bd_online := n, bd_capacity := c, bd_charging := h, bd_updated := jiffies,
               bd_changes := bd_changes d + (if changed then 2 else 0)\<rparr>, True)))"

text \<open>The periodic check, with the time in seconds.\<close>

definition expire :: "time \<Rightarrow> battery_driver \<Rightarrow> battery_driver" where
  "expire jiffies d =
     (if bd_present d \<noteq> 0 \<and> jiffies > bd_updated d + 30
      then d\<lparr>bd_present := 0, bd_changes := bd_changes d + 1\<rparr> else d)"

datatype supply_status = StatusUnknown | StatusCharging | StatusDischarging | StatusFull | StatusNotCharging

definition get_status :: "battery_driver \<Rightarrow> supply_status" where
  "get_status d =
     (if bd_present d = 0 then StatusUnknown else if bd_charging d \<noteq> 0 then StatusCharging
      else if bd_online d = 0 then StatusDischarging else if bd_capacity d = 100 then StatusFull else StatusNotCharging)"

definition get_capacity :: "battery_driver \<Rightarrow> int option" where
  "get_capacity d = (if bd_present d = 0 then None else Some (bd_capacity d))"

section \<open>The queue is read back\<close>

lemma encode_fields:
  assumes "event_ok ev"
  shows "mask_of (encode_event ev @ rest) = ie_mask ev" "size_of (encode_event ev @ rest) = length (ie_name ev) + ie_padding ev"
    "name_of (encode_event ev @ rest) = ie_name ev" "drop (16 + size_of (encode_event ev @ rest)) (encode_event ev @ rest) = rest"
    "16 \<le> length (encode_event ev @ rest)"
proof -
  have m: "unat (ie_mask ev) < 256 ^ 4" using unsigned_less [of "ie_mask ev", where 'a = nat] by simp
  show "mask_of (encode_event ev @ rest) = ie_mask ev"
    using m by (simp add: mask_of_def encode_event_def py_slice_def from_le_to_le)
  have sz: "length (ie_name ev) + ie_padding ev < 256 ^ 4" using assms by (simp add: event_ok_def)
  show s: "size_of (encode_event ev @ rest) = length (ie_name ev) + ie_padding ev"
    using sz by (simp add: size_of_def encode_event_def py_slice_def from_le_to_le)
  have "py_slice 16 (16 + size_of (encode_event ev @ rest)) (encode_event ev @ rest) = ie_name ev @ replicate (ie_padding ev) 0"
    unfolding s by (simp add: py_slice_def encode_event_def)
  moreover have "takeWhile (\<lambda>b. b \<noteq> 0) (ie_name ev @ replicate (ie_padding ev) (0 :: byte)) = ie_name ev"
    using assms by (cases "ie_padding ev") (auto simp: event_ok_def takeWhile_append)
  ultimately show "name_of (encode_event ev @ rest) = ie_name ev" by (simp add: name_of_def)
  show "drop (16 + size_of (encode_event ev @ rest)) (encode_event ev @ rest) = rest" unfolding s by (simp add: encode_event_def)
  show "16 \<le> length (encode_event ev @ rest)" by (simp add: encode_event_def)
qed

lemma watch_scan_cons:
  assumes "event_ok ev"
  shows "status_watch_scan nm (encode_event ev @ rest) changed =
    (if rearm (ie_mask ev) then Exc (OSError 0 ''Status directory replaced'')
     else status_watch_scan nm rest (changed \<or> ie_name ev = nm \<or> overflow (ie_mask ev)))"
proof -
  note f = encode_fields [OF assms, of rest]
  have "\<not> length (encode_event ev @ rest) < 16" using f(5) by (simp only: not_less)
  then show ?thesis by (subst status_watch_scan.simps) (simp only: f(1,3,4) if_False)
qed

definition news :: "bytes \<Rightarrow> inotify_event \<Rightarrow> bool" where
  "news nm ev \<longleftrightarrow> ie_name ev = nm \<or> overflow (ie_mask ev)"

lemma watch_scan_events:
  "\<forall>ev \<in> set evs. event_ok ev \<Longrightarrow>
   status_watch_scan nm (concat (map encode_event evs)) changed =
     (if \<exists>ev \<in> set evs. rearm (ie_mask ev) then Exc (OSError 0 ''Status directory replaced'')
      else Ret (changed \<or> (\<exists>ev \<in> set evs. news nm ev)))"
proof (induction evs arbitrary: changed)
  case (Cons ev evs)
  have "status_watch_scan nm (concat (map encode_event (ev # evs))) changed =
      (if rearm (ie_mask ev) then Exc (OSError 0 ''Status directory replaced'')
       else status_watch_scan nm (concat (map encode_event evs)) (changed \<or> news nm ev))"
    using watch_scan_cons [of ev] Cons.prems by (simp add: news_def)
  then show ?case using Cons by auto
qed (simp add: status_watch_scan.simps)

text \<open>Reading back whatever events the kernel queued, in one read, the watch reports a change exactly when one of them names the
  status file or says that events were lost, and asks for a new watch exactly when one of them ends the watch.\<close>

theorem watch_reads_events:
  assumes "\<forall>ev \<in> set evs. event_ok ev"
  shows "status_watch_wait nm (Ret True) (Ret (concat (map encode_event evs))) =
    (if \<exists>ev \<in> set evs. ie_mask ev AND 0x8C00 \<noteq> 0 then Exc (OSError 0 ''Status directory replaced'')
     else Ret (\<exists>ev \<in> set evs. ie_name ev = nm \<or> ie_mask ev AND 0x4000 \<noteq> 0))"
  using watch_scan_events [OF assms, of nm False] by (simp add: status_watch_wait_def rearm_def news_def overflow_def)

theorem watch_reads_events_witness:
  "status_watch_wait [97] (Ret True) (Ret (concat (map encode_event [\<lparr>ie_wd = 1, ie_mask = 0x80, ie_cookie = 0, ie_name = [97], ie_padding = 15\<rparr>]))) = Ret True"
  using watch_reads_events [of "[\<lparr>ie_wd = 1, ie_mask = 0x80, ie_cookie = 0, ie_name = [97], ie_padding = 15\<rparr>]" "[97]"]
  by (simp add: event_ok_def)

section \<open>No replacement of the file is missed\<close>

definition feed_inv :: "bytes \<Rightarrow> feed \<Rightarrow> bool" where
  "feed_inv nm f \<longleftrightarrow> (\<forall>ev \<in> set (fe_queue f). event_ok ev) \<and> (fe_open f \<longleftrightarrow> fe_pc f \<in> {FPublish, FWait, FRepublish}) \<and>
     (fe_pc f = FWait \<longrightarrow> fe_read f = fe_version f \<or> (\<exists>ev \<in> set (fe_queue f). news nm ev))"

lemma feed_inv_read:
  assumes "feed_inv nm f" "fe_pc f = FWait" "0 < k" "k \<le> length (fe_queue f)"
  shows "feed_inv nm (feed_read nm k f)"
proof -
  let ?t = "take k (fe_queue f)" and ?d = "drop k (fe_queue f)"
  have q: "set (fe_queue f) = set ?t \<union> set ?d" by (metis append_take_drop_id set_append)
  then have ok: "\<forall>ev \<in> set ?t. event_ok ev" "\<forall>ev \<in> set ?d. event_ok ev" using assms(1) by (auto simp: feed_inv_def)
  note w = watch_scan_events [OF ok(1), of nm False]
  show ?thesis
  proof (cases "\<exists>ev \<in> set ?t. rearm (ie_mask ev)")
    case True
    then show ?thesis using w by (simp add: feed_read_def status_watch_wait_def feed_fail_def feed_inv_def)
  next
    case False
    then have r: "status_watch_wait nm (Ret True) (Ret (concat (map encode_event ?t))) = Ret (\<exists>ev \<in> set ?t. news nm ev)"
      using w by (simp add: status_watch_wait_def)
    have o: "fe_open f" "fe_read f = fe_version f \<or> (\<exists>ev \<in> set ?t \<union> set ?d. news nm ev)"
      using assms(1,2) q by (auto simp: feed_inv_def)
    show ?thesis
    proof (cases "\<exists>ev \<in> set ?t. news nm ev")
      case True
      then show ?thesis using r ok(2) o(1) by (simp add: feed_read_def feed_inv_def)
    next
      case False
      then show ?thesis using r ok(2) o assms(2) by (auto simp: feed_read_def feed_inv_def)
    qed
  qed
qed

lemma feed_inv_deliver:
  "feed_inv nm f \<Longrightarrow> event_ok ev \<Longrightarrow> feed_inv nm (deliver ev f)"
  "feed_inv nm f \<Longrightarrow> event_ok ev \<Longrightarrow> news nm ev \<Longrightarrow> feed_inv nm (deliver ev (f\<lparr>fe_version := v\<rparr>))"
  by (auto simp: feed_inv_def deliver_def)

interpretation fe: service "\<lambda>f. \<exists>v. f = feed_new v" "feed_step nm" "feed_inv nm" for nm
proof
  show "\<exists>v. s = feed_new v \<Longrightarrow> feed_inv nm s" for s by (auto simp: feed_new_def feed_inv_def)
  show "feed_inv nm t" if "feed_inv nm s" "feed_step nm s t" for s t
    using that(2,1)
  proof (induction rule: feed_step.induct)
    case (wait_event f k)
    then show ?case by (intro feed_inv_read)
  next
    case (replaced ev f)
    then show ?case by (intro feed_inv_deliver) (auto simp: news_def)
  next
    case (other_event ev f)
    then show ?case by (intro feed_inv_deliver)
  qed (auto simp: feed_inv_def feed_fail_def feed_publish_def)
qed




section \<open>The driver accepts what the feed writes\<close>

lemma scan_dec:
  assumes "n < 2 ^ 31" "\<not> digit c"
  shows "scan_int (dec n @ c # rest) = Some (int n, c # rest)" "scan_int (CHR '' '' # dec n @ c # rest) = Some (int n, c # rest)"
proof -
  have d: "list_all digit (dec n)" "digits_val (dec n) = n" "dec n \<noteq> []" using dec_digits by auto
  have tw: "takeWhile digit (dec n @ c # rest) = dec n" "dropWhile digit (dec n @ c # rest) = c # rest"
    using d(1) assms(2) by (simp_all add: takeWhile_append dropWhile_append list_all_iff)
  obtain x ds where x: "dec n = x # ds" "digit x" using d by (cases "dec n") auto
  then have ns: "\<not> ascii_space x" "x \<noteq> CHR ''-''" by (auto simp: digit_def ascii_space_def)
  have i: "sint (word_of_int (int n) :: 32 word) = int n" using assms(1) by (simp add: signed_of_nat signed_take_bit_int_eq_self)
  have sp: "dropWhile ascii_space (dec n @ c # rest) = dec n @ c # rest" "hd (dec n @ c # rest) \<noteq> CHR ''-''" using x ns by simp_all
  show g: "scan_int (dec n @ c # rest) = Some (int n, c # rest)"
    unfolding scan_int_def Let_def sp(1) using sp(2) tw d(2,3) i by simp
  have "ascii_space (CHR '' '')" by (simp add: ascii_space_def)
  then have "scan_int (CHR '' '' # dec n @ c # rest) = scan_int (dec n @ c # rest)" by (simp only: scan_int_def dropWhile.simps if_True)
  then show "scan_int (CHR '' '' # dec n @ c # rest) = Some (int n, c # rest)" using g by simp
qed

lemma scan_state_line:
  assumes "p < 2 ^ 31" "a < 2 ^ 31" "c < 2 ^ 31" "h < 2 ^ 31"
  shows "scan_state (dec p @ '' '' @ dec a @ '' '' @ dec c @ '' '' @ dec h @ [CHR 0x0A]) = Some (int p, int a, int c, int h)"
proof -
  have n: "\<not> digit (CHR '' '')" "\<not> digit (CHR 0x0A)" "ascii_space (CHR 0x0A)" by (simp_all add: digit_def ascii_space_def)
  show ?thesis using scan_dec [OF assms(1) n(1)] scan_dec [OF assms(2) n(1)] scan_dec [OF assms(3) n(1)] scan_dec [OF assms(4) n(2)] n(3)
    by (simp add: scan_state_def)
qed

lemma percent_range: "float_rounding fl \<Longrightarrow> 0 \<le> c \<Longrightarrow> c \<le> m \<Longrightarrow> 0 < m \<Longrightarrow> 0 \<le> percent fl c m \<and> percent fl c m \<le> 100"
proof -
  assume *: "float_rounding fl" "0 \<le> c" "c \<le> m" "0 < m"
  have "of_int (c * 100) / of_int m \<le> (100 :: real)" using * by (simp add: divide_le_eq)
  moreover have "0 \<le> of_int (c * 100) / (of_int m :: real)" using * by simp
  ultimately show ?thesis unfolding percent_def using round_rounded [OF *(1), of 0 _ 100] by simp
qed


text \<open>The telemetry of an acceptable status.\<close>

definition telemetry :: "json \<Rightarrow> int \<Rightarrow> int \<Rightarrow> bool \<Rightarrow> json \<Rightarrow> bool" where
  "telemetry data c m ch psrc \<longleftrightarrow> jget data ''ok'' = Ret (JBool True) \<and> 0 \<le> c \<and> c \<le> m \<and> 0 < m \<and> psrc \<in> {JStr ''AC Power'', JStr ''Battery Power''} \<and>
     (\<exists>b. jitem data ''battery'' = Ret b \<and> jitem b ''Current Capacity'' = Ret (JInt c) \<and> jitem b ''Max Capacity'' = Ret (JInt m) \<and>
        jitem b ''Is Charging'' = Ret (JBool ch) \<and> jitem b ''Power Source State'' = Ret psrc)"

lemma capacity_values_Some: "capacity_values x y = Some (c, m) \<Longrightarrow> x = JInt c \<and> y = JInt m \<and> 0 \<le> c \<and> c \<le> m \<and> 0 < m"
  by (cases "(x, y)" rule: capacity_values.cases) (auto split: if_splits)

lemma battery_state_line:
  assumes "battery_state fl data = Ret line"
  shows "\<exists>c m ch psrc. telemetry data c m ch psrc \<and>
    line = ''1 '' @ flag (psrc = JStr ''AC Power'') @ '' '' @ dec_int (percent fl c m) @ '' '' @ flag ch @ [CHR 0x0A]"
proof -
  obtain b x y z psrc where *: "jget data ''ok'' = Ret (JBool True)" "jitem data ''battery'' = Ret b" "jitem b ''Current Capacity'' = Ret x"
      "jitem b ''Max Capacity'' = Ret y" "jitem b ''Is Charging'' = Ret z" "jitem b ''Power Source State'' = Ret psrc"
      "(case (capacity_values x y, z) of
           (Some (c, m), JBool ch) \<Rightarrow>
             if psrc \<notin> {JStr ''AC Power'', JStr ''Battery Power''} then Exc (ValueError ''Invalid telemetry'')
             else Ret (''1 '' @ flag (psrc = JStr ''AC Power'') @ '' '' @ dec_int (percent fl c m) @ '' '' @ flag ch @ [CHR 0x0A])
         | _ \<Rightarrow> Exc (ValueError ''Invalid telemetry'')) = Ret line"
    using assms unfolding battery_state_def bindO_eq_Ret by (auto simp del: insert_iff split: if_splits)
  obtain c m ch where v: "capacity_values x y = Some (c, m)" "z = JBool ch" using *(7) by (auto split: option.splits json.splits prod.splits)
  have "psrc \<in> {JStr ''AC Power'', JStr ''Battery Power''}"
    using *(7) v by (cases "psrc \<in> {JStr ''AC Power'', JStr ''Battery Power''}") (simp_all del: insert_iff)
  then show ?thesis using * v capacity_values_Some [OF v(1)] unfolding telemetry_def by (auto simp del: append.simps)
qed

lemma store_line:
  assumes "float_rounding fl" "battery_state fl data = Ret line"
  shows "\<exists>c m ch psrc d'. telemetry data c m ch psrc \<and> state_store now line d = (d', True) \<and> bd_present d' = 1 \<and> bd_updated d' = now \<and>
    bd_capacity d' = percent fl c m \<and> bd_online d' = (if psrc = JStr ''AC Power'' then 1 else 0) \<and> bd_charging d' = (if ch then 1 else 0)"
proof -
  obtain c m ch psrc where t: "telemetry data c m ch psrc"
      "line = ''1 '' @ flag (psrc = JStr ''AC Power'') @ '' '' @ dec_int (percent fl c m) @ '' '' @ flag ch @ [CHR 0x0A]"
    using battery_state_line [OF assms(2)] by blast
  define q where "q = nat (percent fl c m)"
  define a h where "a = (if psrc = JStr ''AC Power'' then 1 else 0 :: nat)" and "h = (if ch then 1 else 0 :: nat)"
  have p: "0 \<le> percent fl c m" "percent fl c m \<le> 100" using percent_range [OF assms(1)] t(1) by (auto simp: telemetry_def)
  have one: "dec 1 = ''1''" by (simp add: dec.simps; code_simp)
  have "line = dec 1 @ '' '' @ dec a @ '' '' @ dec q @ '' '' @ dec h @ [CHR 0x0A]"
    unfolding t(2) one using p by (simp add: flag_def a_def h_def q_def)
  moreover have "q \<le> 100" "int q = percent fl c m" using p by (simp_all add: q_def)
  ultimately have "scan_state line = Some (1, int a, percent fl c m, int h)"
    using scan_state_line [of 1 a q h] by (simp add: a_def h_def)
  then show ?thesis using t(1) p unfolding state_store_def
    by (intro exI [of _ c] exI [of _ m] exI [of _ ch] exI [of _ psrc]) (simp add: a_def h_def Let_def)
qed

section \<open>What the guest shows\<close>

datatype battery_event = Published publish_input | Expired time

definition battery_event :: "(real \<Rightarrow> real) \<Rightarrow> battery_driver \<Rightarrow> battery_event \<Rightarrow> battery_driver" where
  "battery_event fl d ev =
     (case ev of
        Published inp \<Rightarrow> (case publish fl inp of (Some line, Ret True) \<Rightarrow> fst (state_store (pi_now inp) line d) | _ \<Rightarrow> d)
      | Expired now \<Rightarrow> expire now d)"

definition backed :: "(real \<Rightarrow> real) \<Rightarrow> publish_input set \<Rightarrow> battery_driver \<Rightarrow> bool" where
  "backed fl inps d \<longleftrightarrow> bd_present d = 0 \<or> (\<exists>inp \<in> inps. \<exists>mtime data c m ch psrc. pi_mtime inp = Ret mtime \<and> pi_now inp - mtime \<le> 20 \<and>
     pi_status inp = Ret data \<and> telemetry data c m ch psrc \<and> bd_updated d = pi_now inp \<and> bd_capacity d = percent fl c m)"

lemma backed_mono: "backed fl inps d \<Longrightarrow> backed fl (inps \<union> more_inps) d"
  unfolding backed_def by (elim disjE bexE; (rule disjI1 disjI2; (assumption | (rule bexI, assumption, simp))))

lemma publish_written:
  "publish fl inp = (Some line, r) \<Longrightarrow> \<exists>mtime data. pi_mtime inp = Ret mtime \<and> pi_now inp - mtime \<le> 20 \<and> pi_status inp = Ret data \<and> battery_state fl data = Ret line"
  unfolding publish_def by (auto split: outcome.splits bool.splits simp: bindO_eq_Exc bindO_eq_NoRet)

lemma backed_event:
  assumes "float_rounding fl" "backed fl inps d"
  shows "backed fl (inps \<union> (case ev of Published inp \<Rightarrow> {inp} | Expired _ \<Rightarrow> {})) (battery_event fl d ev)"
proof (cases ev)
  case (Published inp)
  show ?thesis
  proof (cases "\<exists>line. publish fl inp = (Some line, Ret True)")
    case True
    then obtain line where p: "publish fl inp = (Some line, Ret True)" by blast
    obtain mtime data where m: "pi_mtime inp = Ret mtime" "pi_now inp - mtime \<le> 20" "pi_status inp = Ret data" "battery_state fl data = Ret line"
      using publish_written [OF p] by blast
    obtain c n ch psrc d' where s: "telemetry data c n ch psrc" "state_store (pi_now inp) line d = (d', True)" "bd_present d' = 1"
        "bd_updated d' = pi_now inp" "bd_capacity d' = percent fl c n"
      using store_line [OF assms(1) m(4), of "pi_now inp" d] by blast
    have "battery_event fl d ev = d'" using Published p s(2) by (simp add: battery_event_def)
    then show ?thesis unfolding backed_def Published battery_event.case using m(1-3) s(1,4,5) by blast
  next
    case False
    then have "battery_event fl d ev = d" using Published by (auto simp: battery_event_def split: prod.splits option.splits outcome.splits bool.splits)
    then show ?thesis using backed_mono [OF assms(2)] by simp
  qed
qed (use assms(2) in \<open>auto simp: backed_def battery_event_def expire_def\<close>)

lemma backed_run:
  "float_rounding fl \<Longrightarrow> backed fl {inp. Published inp \<in> set evs} (foldl (battery_event fl) driver_new evs)"
proof (induction evs rule: rev_induct)
  case (snoc ev evs)
  have "{inp. Published inp \<in> set evs} \<union> (case ev of Published inp \<Rightarrow> {inp} | Expired _ \<Rightarrow> {}) = {inp. Published inp \<in> set (evs @ [ev])}"
    by (cases ev) auto
  then show ?case using backed_event [OF snoc.prems snoc.IH [OF snoc.prems], of ev] by simp
qed (simp add: backed_def driver_new_def)


definition full_status :: publish_input where
  "full_status = \<lparr>pi_now = 10, pi_mtime = Ret 0, pi_status = Ret (JDict [(''ok'', JBool True), (''battery'', JDict [(''Current Capacity'', JInt 50),
     (''Max Capacity'', JInt 50), (''Is Charging'', JBool False), (''Power Source State'', JStr ''AC Power'')])]), pi_write = Ret ()\<rparr>"


end
