(* ===== verification/User_Services.thy ===== *)
theory User_Services
  imports Pyvalue
begin

text \<open>
  \<^verbatim>\<open>host/session/user_services.py\<close>: the background children of a VM session, restarted when they fail and ended with it.
  A process object is a number, fresh for every start. Inputs are the clock, which children have exited, and the results
  of starting, signalling and waiting; the effects are recorded in order.
\<close>

datatype posix_signal = SIGTERM | SIGKILL

datatype child_effect =
    ChildStarted string nat
  | ChildRestart string time
  | GroupSignal nat posix_signal
  | ChildReaped nat

record services =
  us_commands :: "string list"
  us_processes :: "(string \<times> nat) list"
  us_cleaned :: "(string \<times> nat) list"
  us_retries :: "(string \<times> time list) list"
  us_next :: nat
  us_log :: "child_effect list"

definition services_new :: "string list \<Rightarrow> services" where
  "services_new commands =
     \<lparr>us_commands = commands, us_processes = [], us_cleaned = [], us_retries = map (\<lambda>name. (name, [])) commands,
      us_next = 0, us_log = []\<rparr>"

definition child_log :: "child_effect \<Rightarrow> (services, unit) act" where
  "child_log ev = updA (\<lambda>s. s\<lparr>us_log := us_log s @ [ev]\<rparr>)"

text \<open>\<^verbatim>\<open>start\<close>: opening the log file and starting the command give a process or fail.\<close>

definition start_service :: "string \<Rightarrow> unit outcome \<Rightarrow> (services, unit) act" where
  "start_service name spawned =
     bindA (liftA spawned) (\<lambda>_.
       updA (\<lambda>s. s\<lparr>us_processes := dset name (us_next s) (us_processes s), us_log := us_log s @ [ChildStarted name (us_next s)],
         us_next := Suc (us_next s)\<rparr>))"

definition start_all :: "(string \<Rightarrow> unit outcome) \<Rightarrow> (services, unit) act" where
  "start_all spawned = bindA (getA us_commands) (forA (\<lambda>name. start_service name (spawned name)))"

fun is_lookup_error :: "exn \<Rightarrow> bool" where
  "is_lookup_error (OSError n _) = (n = 3)"
| "is_lookup_error _ = False"

definition signal_group :: "nat \<Rightarrow> posix_signal \<Rightarrow> unit outcome \<Rightarrow> (services, unit) act" where
  "signal_group pid sig sent =
     thenA (child_log (GroupSignal pid sig)) (catchA (liftA sent) is_lookup_error (\<lambda>_. retA ()))"

record poll_input =
  po_now :: time
  po_exited :: "nat \<Rightarrow> bool"
  po_signal :: "nat \<Rightarrow> unit outcome"
  po_spawn :: "string \<Rightarrow> unit outcome"

definition clean_child :: "poll_input \<Rightarrow> string \<Rightarrow> nat \<Rightarrow> (services, unit) act" where
  "clean_child po name pid =
     bindA (getA (\<lambda>s. map_of (us_cleaned s) name)) (\<lambda>cleaned.
       if cleaned = Some pid then retA () else
       thenA (signal_group pid SIGTERM (po_signal po pid)) (updA (\<lambda>s. s\<lparr>us_cleaned := dset name pid (us_cleaned s)\<rparr>)))"

definition recent :: "time \<Rightarrow> time list \<Rightarrow> time list" where
  "recent now ts = filter (\<lambda>t. now - t < 60) ts"

definition may_restart :: "time \<Rightarrow> time list \<Rightarrow> bool" where
  "may_restart now ts \<longleftrightarrow> \<not> (length ts \<ge> 3 \<or> (ts \<noteq> [] \<and> now - last ts < 10))"

definition retry_child :: "poll_input \<Rightarrow> string \<Rightarrow> (services, unit) act" where
  "retry_child po name =
     bindA (getA (\<lambda>s. map_of (us_retries s) name)) (\<lambda>found.
       case found of
         None \<Rightarrow> excA (KeyError name)
       | Some ts \<Rightarrow>
           let retries = recent (po_now po) ts in
           thenA (updA (\<lambda>s. s\<lparr>us_retries := dset name retries (us_retries s)\<rparr>))
             (if \<not> may_restart (po_now po) retries then retA () else
              thenA (updA (\<lambda>s. s\<lparr>us_retries := dset name (retries @ [po_now po]) (us_retries s)\<rparr>))
             (thenA (child_log (ChildRestart name (po_now po)))
                    (start_service name (po_spawn po name)))))"

definition poll_child :: "poll_input \<Rightarrow> string \<times> nat \<Rightarrow> (services, unit) act" where
  "poll_child po np =
     (case np of (name, pid) \<Rightarrow>
        if \<not> po_exited po pid then retA () else thenA (clean_child po name pid) (retry_child po name))"

definition services_poll :: "poll_input \<Rightarrow> (services, unit) act" where
  "services_poll po = bindA (getA us_processes) (forA (poll_child po))"

record stop_input =
  so_signal :: "nat \<Rightarrow> unit outcome"
  so_wait :: "nat \<Rightarrow> unit outcome"
  so_kill :: "nat \<Rightarrow> unit outcome"

definition stop_signal :: "stop_input \<Rightarrow> string \<times> nat \<Rightarrow> (services, unit) act" where
  "stop_signal so np =
     (case np of (name, pid) \<Rightarrow>
        bindA (getA (\<lambda>s. map_of (us_cleaned s) name)) (\<lambda>cleaned.
          if cleaned = Some pid then retA () else signal_group pid SIGTERM (so_signal so pid)))"

definition stop_wait :: "stop_input \<Rightarrow> string \<times> nat \<Rightarrow> (services, unit) act" where
  "stop_wait so np =
     (case np of (name, pid) \<Rightarrow>
        thenA (catchA (liftA (so_wait so pid)) (\<lambda>e. e = TimeoutExpired) (\<lambda>_. signal_group pid SIGKILL (so_kill so pid)))
              (child_log (ChildReaped pid)))"

definition services_stop :: "stop_input \<Rightarrow> (services, unit) act" where
  "services_stop so =
     bindA (getA us_processes) (\<lambda>ps.
       thenA (forA (stop_signal so) ps)
      (thenA (forA (stop_wait so) ps)
             (updA (\<lambda>s. s\<lparr>us_processes := []\<rparr>))))"

section \<open>Restarts are spaced\<close>

definition spaced :: "time list \<Rightarrow> bool" where
  "spaced ts \<longleftrightarrow> (\<forall>i. Suc i < length ts \<longrightarrow> 10 \<le> ts ! Suc i - ts ! i) \<and> (\<forall>i. i + 3 < length ts \<longrightarrow> 60 \<le> ts ! (i + 3) - ts ! i)"

lemma spaced_sorted: "spaced ts \<Longrightarrow> sorted ts"
  unfolding spaced_def sorted_iff_nth_Suc by (metis diff_ge_0_iff_ge order.trans zero_le_numeral)

lemma recent_all: "sorted ts \<Longrightarrow> k < length ts \<Longrightarrow> now - ts ! k < 60 \<Longrightarrow> length ts - k \<le> length (recent now ts)"
proof -
  assume *: "sorted ts" "k < length ts" "now - ts ! k < 60"
  have "\<forall>t \<in> set (drop k ts). now - t < 60"
  proof
    fix t assume "t \<in> set (drop k ts)"
    then obtain i where "i < length ts - k" "t = ts ! (k + i)" by (auto simp: in_set_conv_nth)
    then have "ts ! k \<le> t" using sorted_nth_mono [OF *(1), of k "k + i"] by simp
    then show "now - t < 60" using *(3) by linarith
  qed
  then have "recent now (drop k ts) = drop k ts" unfolding recent_def by (simp add: filter_id_conv)
  moreover have "recent now ts = recent now (take k ts) @ recent now (drop k ts)"
    unfolding recent_def by (metis append_take_drop_id filter_append)
  ultimately show ?thesis by simp
qed

lemma last_recent: "ts \<noteq> [] \<Longrightarrow> now - last ts < 60 \<Longrightarrow> recent now ts \<noteq> [] \<and> last (recent now ts) = last ts"
  by (cases ts rule: rev_cases) (simp_all add: recent_def)

lemma spaced_snoc:
  assumes "spaced ts" "may_restart now (recent now ts)"
  shows "spaced (ts @ [now])"
proof -
  have gap: "10 \<le> now - last ts" if "ts \<noteq> []"
    using last_recent [OF that, of now] assms(2) by (cases "now - last ts < 60") (auto simp: may_restart_def)
  have three: "60 \<le> now - ts ! (length ts - 3)" if "3 \<le> length ts"
    using recent_all [OF spaced_sorted [OF assms(1)], of "length ts - 3" now] assms(2) that by (force simp: may_restart_def)
  have "10 \<le> (ts @ [now]) ! Suc i - (ts @ [now]) ! i" if "Suc i < length (ts @ [now])" for i
  proof (cases "Suc i < length ts")
    case True
    then show ?thesis using assms(1) by (simp add: spaced_def nth_append)
  next
    case False
    then have "i = length ts - 1" "ts \<noteq> []" using that by auto
    then show ?thesis using gap by (simp add: nth_append last_conv_nth)
  qed
  moreover have "60 \<le> (ts @ [now]) ! (i + 3) - (ts @ [now]) ! i" if "i + 3 < length (ts @ [now])" for i
  proof (cases "i + 3 < length ts")
    case True
    then show ?thesis using assms(1) by (simp add: spaced_def nth_append)
  next
    case False
    then have "i = length ts - 3" "3 \<le> length ts" using that by auto
    then show ?thesis using three by (simp add: nth_append)
  qed
  ultimately show ?thesis by (simp add: spaced_def)
qed

definition restart_times :: "string \<Rightarrow> child_effect list \<Rightarrow> time list" where
  "restart_times name lg = concat (map (\<lambda>ev. case ev of ChildRestart n t \<Rightarrow> if n = name then [t] else [] | _ \<Rightarrow> []) lg)"

lemma restart_times_append [simp]: "restart_times name (lg @ lg') = restart_times name lg @ restart_times name lg'"
  by (simp add: restart_times_def)

lemma restart_times_one [simp]:
  "restart_times name [] = []"
  "restart_times name [ChildRestart n t] = (if n = name then [t] else [])"
  "restart_times name [ChildStarted n p] = []" "restart_times name [GroupSignal p sig] = []" "restart_times name [ChildReaped p] = []"
  by (simp_all add: restart_times_def)

text \<open>The retries kept for a service are the restarts that were recent at some time not after \<open>T\<close>.\<close>

definition rate_inv :: "time \<Rightarrow> services \<Rightarrow> bool" where
  "rate_inv T s \<longleftrightarrow> (\<forall>name. spaced (restart_times name (us_log s))) \<and>
     (\<forall>name ts. map_of (us_retries s) name = Some ts \<longrightarrow> (\<exists>u \<le> T. ts = recent u (restart_times name (us_log s))))"

lemma rate_inv_later: "rate_inv T s \<Longrightarrow> T \<le> now \<Longrightarrow> rate_inv now s"
  unfolding rate_inv_def by (meson order.trans)

lemma recent_recent: "u \<le> now \<Longrightarrow> recent now (recent u ts) = recent now ts"
  unfolding recent_def by (auto intro!: filter_cong simp: conj_commute)

lemma rate_start: "keeps (rate_inv T) (start_service name spawned)"
  unfolding start_service_def by (intro keeps_intros keeps_upd) (simp add: rate_inv_def)

lemma rate_signal: "keeps (rate_inv T) (signal_group pid sig sent)"
  unfolding signal_group_def child_log_def by (intro keeps_intros keeps_upd) (simp add: rate_inv_def)

lemma rate_clean: "keeps (rate_inv T) (clean_child po name pid)"
  unfolding clean_child_def by (intro keeps_intros rate_signal keeps_upd) (simp add: rate_inv_def)

lemma rate_retry:
  assumes "T \<le> po_now po"
  shows "rate_inv T s \<Longrightarrow> rate_inv (po_now po) (fst (retry_child po name s))"
proof -
  assume inv: "rate_inv T s"
  show ?thesis
  proof (cases "map_of (us_retries s) name")
    case None
    then show ?thesis using rate_inv_later [OF inv assms] by (simp add: retry_child_def)
  next
    case (Some ts)
    let ?R = "restart_times name (us_log s)"
    obtain u where u: "u \<le> T" "ts = recent u ?R" using inv Some unfolding rate_inv_def by blast
    then have r: "recent (po_now po) ts = recent (po_now po) ?R" using recent_recent [of u "po_now po"] assms by simp
    define s1 where "s1 = s\<lparr>us_retries := dset name (recent (po_now po) ?R) (us_retries s)\<rparr>"
    have i1: "rate_inv (po_now po) s1"
      using rate_inv_later [OF inv assms] unfolding rate_inv_def s1_def by auto
    show ?thesis
    proof (cases "may_restart (po_now po) (recent (po_now po) ?R)")
      case False
      then show ?thesis using Some r i1 by (simp add: retry_child_def Let_def s1_def)
    next
      case True
      define s2 where "s2 = s\<lparr>us_retries := dset name (recent (po_now po) ?R @ [po_now po]) (us_retries s),
          us_log := us_log s @ [ChildRestart name (po_now po)]\<rparr>"
      have e: "recent (po_now po) ?R @ [po_now po] = recent (po_now po) (?R @ [po_now po])" by (simp add: recent_def)
      have "rate_inv (po_now po) s2"
        using rate_inv_later [OF inv assms] spaced_snoc [OF _ True] unfolding rate_inv_def s2_def e by auto
      moreover have "dset name v (dset name w d) = dset name v d" for v w :: "time list" and d
        by (induction d) auto
      then have "retry_child po name s = start_service name (po_spawn po name) s2"
        using Some r True by (simp add: retry_child_def Let_def s2_def child_log_def)
      ultimately show ?thesis using keepsD [OF rate_start] by simp
    qed
  qed
qed

lemma rate_poll_child: "T \<le> po_now po \<Longrightarrow> rate_inv T s \<Longrightarrow> rate_inv (po_now po) (fst (poll_child po np s))"
proof -
  assume *: "T \<le> po_now po" "rate_inv T s"
  obtain name pid where np: "np = (name, pid)" by (cases np)
  obtain u r where u: "clean_child po name pid s = (u, r)" by (cases "clean_child po name pid s")
  then have i: "rate_inv T u" using keepsD [OF rate_clean *(2), of po name pid] by simp
  show ?thesis
    using rate_inv_later [OF *(2,1)] rate_inv_later [OF i *(1)] rate_retry [OF *(1) i, of name] u
    by (cases r) (simp_all add: np poll_child_def thenA_def bindA_def)
qed

lemma rate_poll:
  assumes "T \<le> po_now po" "rate_inv T s"
  shows "rate_inv (po_now po) (fst (services_poll po s))"
proof -
  have "keeps (rate_inv (po_now po)) (poll_child po np)" for np
    by (rule keepsI) (rule rate_poll_child [OF order.refl])
  then have k: "keeps (rate_inv (po_now po)) (forA (poll_child po) ps)" for ps by (intro keeps_for)
  show ?thesis using keepsD [OF k rate_inv_later [OF assms(2,1)]] by (simp add: services_poll_def)
qed

lemma rate_polls:
  "sorted (map po_now pos) \<Longrightarrow> \<forall>po \<in> set pos. T \<le> po_now po \<Longrightarrow> rate_inv T s \<Longrightarrow> \<exists>U. rate_inv U (fst (forA services_poll pos s))"
proof (induction pos arbitrary: s T)
  case (Cons po pos)
  obtain u r where u: "services_poll po s = (u, r)" by (cases "services_poll po s")
  then have i: "rate_inv (po_now po) u" using rate_poll [of T po s] Cons.prems by simp
  then show ?case using Cons.IH [of "po_now po" u] Cons.prems(1) u by (cases r) (auto simp: thenA_def bindA_def)
qed auto

lemma rate_start_all: "keeps (rate_inv T) (start_all spawned)"
  unfolding start_all_def by (intro keeps_intros rate_start)

text \<open>A failing session service is restarted at a bounded rate: over any run of the supervisor, whatever fails, two restarts of a
  service are at least ten seconds apart and any four span at least a minute.\<close>

theorem restarts_bounded:
  assumes "sorted (map po_now pos)" "thenA (start_all spawned) (forA services_poll pos) (services_new commands) = (t, r)"
  shows "let ts = restart_times name (us_log t) in
    (\<forall>i. Suc i < length ts \<longrightarrow> 10 \<le> ts ! Suc i - ts ! i) \<and> (\<forall>i. i + 3 < length ts \<longrightarrow> 60 \<le> ts ! (i + 3) - ts ! i)"
proof -
  obtain T where T: "\<forall>po \<in> set pos. T \<le> po_now po" using assms(1) by (cases pos) (auto intro: order.refl)
  have "map_of (us_retries (services_new commands)) n = Some ts \<Longrightarrow> ts = []" for n ts
    by (auto simp: services_new_def dest!: map_of_SomeD)
  then have "rate_inv T (services_new commands)"
    unfolding rate_inv_def by (auto simp: services_new_def spaced_def recent_def)
  moreover obtain u q where u: "start_all spawned (services_new commands) = (u, q)" by (cases "start_all spawned (services_new commands)")
  ultimately have i: "rate_inv T u" using keepsD [OF rate_start_all, of T _ spawned] by (metis fst_conv)
  have "\<exists>U. rate_inv U t"
    using rate_polls [OF assms(1) T i] assms(2) u i by (cases q) (auto simp: thenA_def bindA_def)
  then show ?thesis unfolding rate_inv_def spaced_def Let_def by blast
qed


section \<open>No process group outlives the session\<close>

definition ended :: "nat \<Rightarrow> services \<Rightarrow> bool" where
  "ended pid s \<longleftrightarrow> GroupSignal pid SIGTERM \<in> set (us_log s)"

definition group_inv :: "services \<Rightarrow> bool" where
  "group_inv s \<longleftrightarrow> wf_dict (us_processes s) \<and>
     (\<forall>name pid. ChildStarted name pid \<in> set (us_log s) \<longrightarrow> map_of (us_processes s) name = Some pid \<or> ended pid s) \<and>
     (\<forall>name pid. map_of (us_cleaned s) name = Some pid \<longrightarrow> ended pid s)"

text \<open>A call that only logs: it keeps the processes and what is cleaned or adds what was signalled.\<close>

lemma group_log: "(\<And>n p. ev \<noteq> ChildStarted n p) \<Longrightarrow> keeps group_inv (child_log ev)"
  unfolding child_log_def by (rule keeps_upd) (auto simp: group_inv_def ended_def)

lemma group_signal: "keeps group_inv (signal_group pid sig sent)"
  unfolding signal_group_def by (intro keeps_intros group_log) simp

lemma signal_logged: "\<exists>r. signal_group pid sig sent s = (s\<lparr>us_log := us_log s @ [GroupSignal pid sig]\<rparr>, r)"
  unfolding signal_group_def child_log_def by (cases sent) (auto simp: thenA_def bindA_def catchA_def liftA_def retA_def updA_def)

lemma clean_child_result:
  assumes "group_inv s" "clean_child po name pid s = (t, r)"
  shows "group_inv t \<and> us_processes t = us_processes s \<and> ended pid t"
proof (cases "map_of (us_cleaned s) name = Some pid")
  case True
  then show ?thesis using assms by (auto simp: clean_child_def group_inv_def)
next
  case False
  obtain q where q: "signal_group pid SIGTERM (po_signal po pid) s = (s\<lparr>us_log := us_log s @ [GroupSignal pid SIGTERM]\<rparr>, q)"
    using signal_logged by blast
  show ?thesis using assms False q
    by (cases q) (auto simp: clean_child_def thenA_def bindA_def getA_def updA_def group_inv_def ended_def split: if_splits; blast)+
qed

lemma start_service_result:
  assumes "group_inv s" "\<And>q. map_of (us_processes s) name = Some q \<Longrightarrow> ended q s" "start_service name spawned s = (t, r)"
  shows "group_inv t \<and> (\<forall>n. n \<noteq> name \<longrightarrow> map_of (us_processes t) n = map_of (us_processes s) n) \<and> us_commands t = us_commands s"
  using assms by (cases spawned) (auto simp: start_service_def bindA_def liftA_def updA_def group_inv_def ended_def; blast)+

lemma retry_child_result:
  assumes "group_inv s" "\<And>q. map_of (us_processes s) name = Some q \<Longrightarrow> ended q s" "retry_child po name s = (t, r)"
  shows "group_inv t \<and> (\<forall>n. n \<noteq> name \<longrightarrow> map_of (us_processes t) n = map_of (us_processes s) n)"
proof (cases "map_of (us_retries s) name")
  case None
  then show ?thesis using assms by (simp add: retry_child_def)
next
  case (Some ts)
  let ?r = "recent (po_now po) ts"
  show ?thesis
  proof (cases "may_restart (po_now po) ?r")
    case False
    then have "t = s\<lparr>us_retries := dset name ?r (us_retries s)\<rparr>" using assms(3) Some by (simp add: retry_child_def Let_def)
    then show ?thesis using assms(1) by (simp add: group_inv_def ended_def)
  next
    case True
    let ?s = "s\<lparr>us_retries := dset name (?r @ [po_now po]) (dset name ?r (us_retries s)), us_log := us_log s @ [ChildRestart name (po_now po)]\<rparr>"
    have "start_service name (po_spawn po name) ?s = (t, r)"
      using assms(3) Some True by (simp add: retry_child_def Let_def child_log_def)
    moreover have "group_inv ?s" "\<And>q. map_of (us_processes ?s) name = Some q \<Longrightarrow> ended q ?s"
      using assms(1,2) by (auto simp: group_inv_def ended_def)
    ultimately show ?thesis using start_service_result [of ?s name] by simp
  qed
qed

lemma poll_child_result:
  assumes "group_inv s" "map_of (us_processes s) name = Some pid" "poll_child po (name, pid) s = (t, r)"
  shows "group_inv t \<and> (\<forall>n. n \<noteq> name \<longrightarrow> map_of (us_processes t) n = map_of (us_processes s) n)"
proof (cases "po_exited po pid")
  case True
  obtain u q where u: "clean_child po name pid s = (u, q)" by (cases "clean_child po name pid s")
  note c = clean_child_result [OF assms(1) u]
  have "\<And>q. map_of (us_processes u) name = Some q \<Longrightarrow> ended q u" using c assms(2) by simp
  then show ?thesis
    using True c u assms(3) retry_child_result [of u name po t r] by (cases q) (auto simp: poll_child_def thenA_def bindA_def)
qed (use assms in \<open>simp add: poll_child_def\<close>)

lemma group_poll_loop:
  "group_inv s \<Longrightarrow> distinct (map fst ps) \<Longrightarrow> \<forall>(n, p) \<in> set ps. map_of (us_processes s) n = Some p \<Longrightarrow> group_inv (fst (forA (poll_child po) ps s))"
proof (induction ps arbitrary: s)
  case (Cons np ps)
  obtain name pid where np: "np = (name, pid)" by (cases np)
  obtain u q where u: "poll_child po (name, pid) s = (u, q)" by (cases "poll_child po (name, pid) s")
  have c: "group_inv u \<and> (\<forall>n. n \<noteq> name \<longrightarrow> map_of (us_processes u) n = map_of (us_processes s) n)"
    using poll_child_result [OF Cons.prems(1) _ u] Cons.prems(3) np by simp
  moreover have "\<forall>(n, p) \<in> set ps. map_of (us_processes u) n = Some p"
  proof clarify
    fix n p assume m: "(n, p) \<in> set ps"
    then have "n \<noteq> name" using Cons.prems(2) np by force
    then show "map_of (us_processes u) n = Some p" using c m Cons.prems(3) by auto
  qed
  ultimately have "group_inv (fst (forA (poll_child po) ps u))" using Cons.IH [of u] Cons.prems(2) by simp
  then show ?case using u c np by (cases q) (auto simp: thenA_def bindA_def)
qed simp

lemma group_poll: "keeps group_inv (services_poll po)"
proof (rule keepsI)
  fix s assume s: "group_inv s"
  then have "distinct (map fst (us_processes s))" "\<forall>(n, p) \<in> set (us_processes s). map_of (us_processes s) n = Some p"
    by (auto simp: group_inv_def wf_dict_def)
  then show "group_inv (fst (services_poll po s))" using group_poll_loop [OF s] by (simp add: services_poll_def)
qed

lemma group_start_loop:
  "group_inv s \<Longrightarrow> distinct names \<Longrightarrow> \<forall>n \<in> set names. map_of (us_processes s) n = None \<Longrightarrow>
   group_inv (fst (forA (\<lambda>name. start_service name (spawned name)) names s))"
proof (induction names arbitrary: s)
  case (Cons name names)
  obtain u q where u: "start_service name (spawned name) s = (u, q)" by (cases "start_service name (spawned name) s")
  have c: "group_inv u \<and> (\<forall>n. n \<noteq> name \<longrightarrow> map_of (us_processes u) n = map_of (us_processes s) n)"
    using start_service_result [OF Cons.prems(1) _ u] Cons.prems(3) by simp
  have "\<forall>n \<in> set names. map_of (us_processes u) n = None"
  proof
    fix n assume "n \<in> set names"
    then show "map_of (us_processes u) n = None" using c Cons.prems(2,3) by auto
  qed
  then have "group_inv (fst (forA (\<lambda>name. start_service name (spawned name)) names u))" using Cons.IH [of u] c Cons.prems(2) by simp
  then show ?case using u c by (cases q) (auto simp: thenA_def bindA_def)
qed simp

lemma group_new: "group_inv (services_new commands)"
  by (simp add: group_inv_def services_new_def)

lemma stop_signal_result:
  assumes "group_inv s" "map_of (us_processes s) name = Some pid" "stop_signal so (name, pid) s = (t, Ret ())"
  shows "ended pid t \<and> (\<exists>new. us_log t = us_log s @ new) \<and> us_processes t = us_processes s \<and> group_inv t"
proof (cases "map_of (us_cleaned s) name = Some pid")
  case True
  then show ?thesis using assms by (auto simp: stop_signal_def group_inv_def)
next
  case False
  then have "signal_group pid SIGTERM (so_signal so pid) s = (t, Ret ())" using assms(3) by (simp add: stop_signal_def)
  moreover have "group_inv t" using keepsD [OF group_signal assms(1)] calculation by (metis fst_conv)
  ultimately show ?thesis using signal_logged [of pid SIGTERM "so_signal so pid" s] by (auto simp: ended_def)
qed


lemma stop_signals_result:
  "group_inv s \<Longrightarrow> \<forall>(n, p) \<in> set ps. map_of (us_processes s) n = Some p \<Longrightarrow> forA (stop_signal so) ps s = (t, Ret ()) \<Longrightarrow>
   (\<forall>(n, p) \<in> set ps. ended p t) \<and> (\<exists>new. us_log t = us_log s @ new) \<and> us_processes t = us_processes s \<and> group_inv t"
proof (induction ps arbitrary: s)
  case (Cons np ps)
  obtain name pid where np: "np = (name, pid)" by (cases np)
  obtain u where u: "stop_signal so (name, pid) s = (u, Ret ())" "forA (stop_signal so) ps u = (t, Ret ())"
    using Cons.prems(3) np by (auto simp: thenA_eq_Ret)
  have c: "ended pid u" "\<exists>new. us_log u = us_log s @ new" "us_processes u = us_processes s" "group_inv u"
    using stop_signal_result [OF Cons.prems(1) _ u(1)] Cons.prems(2) np by auto
  have d: "\<forall>(n, p) \<in> set ps. ended p t" "\<exists>new. us_log t = us_log u @ new" "us_processes t = us_processes u" "group_inv t"
    using Cons.IH [OF c(4) _ u(2)] Cons.prems(2) c(3) by auto
  have "ended pid t" using c(1) d(2) by (auto simp: ended_def)
  then show ?case using c d np by auto
qed simp

lemma stop_wait_result:
  assumes "stop_wait so (name, pid) s = (t, Ret ())"
  shows "ChildReaped pid \<in> set (us_log t) \<and> (\<exists>new. us_log t = us_log s @ new \<and> (\<forall>n p. ChildStarted n p \<notin> set new))"
proof -
  have "thenA (catchA (liftA (so_wait so pid)) (\<lambda>e. e = TimeoutExpired) (\<lambda>_. signal_group pid SIGKILL (so_kill so pid)))
      (child_log (ChildReaped pid)) s = (t, Ret ())" using assms by (simp add: stop_wait_def)
  then obtain u where u: "catchA (liftA (so_wait so pid)) (\<lambda>e. e = TimeoutExpired) (\<lambda>_. signal_group pid SIGKILL (so_kill so pid)) s = (u, Ret ())"
      "t = u\<lparr>us_log := us_log u @ [ChildReaped pid]\<rparr>"
    by (auto simp: thenA_eq_Ret child_log_def)
  have "u = s \<or> u = s\<lparr>us_log := us_log s @ [GroupSignal pid SIGKILL]\<rparr>"
    using u(1) signal_logged [of pid SIGKILL "so_kill so pid" s] by (cases "so_wait so pid") (auto simp: catchA_def liftA_def split: if_splits)
  then show ?thesis using u(2) by auto
qed

lemma stop_waits_result:
  "forA (stop_wait so) ps s = (t, Ret ()) \<Longrightarrow>
   (\<forall>(n, p) \<in> set ps. ChildReaped p \<in> set (us_log t)) \<and> (\<exists>new. us_log t = us_log s @ new \<and> (\<forall>n p. ChildStarted n p \<notin> set new))"
proof (induction ps arbitrary: s)
  case (Cons np ps)
  obtain name pid where np: "np = (name, pid)" by (cases np)
  obtain u where u: "stop_wait so (name, pid) s = (u, Ret ())" "forA (stop_wait so) ps u = (t, Ret ())"
    using Cons.prems np by (auto simp: thenA_eq_Ret)
  show ?case using stop_wait_result [OF u(1)] Cons.IH [OF u(2)] np by auto
qed simp

lemma stop_result:
  assumes "group_inv s" "services_stop so s = (t, Ret ())"
  shows "us_processes t = [] \<and> (\<forall>(n, p) \<in> set (us_processes s). ChildReaped p \<in> set (us_log t)) \<and>
    (\<forall>n p. ChildStarted n p \<in> set (us_log t) \<longrightarrow> ended p t)"
proof -
  let ?ps = "us_processes s"
  have cur: "\<forall>(n, p) \<in> set ?ps. map_of ?ps n = Some p" using assms(1) by (auto simp: group_inv_def wf_dict_def)
  obtain u v where u: "forA (stop_signal so) ?ps s = (u, Ret ())" and v: "forA (stop_wait so) ?ps u = (v, Ret ())"
      and t: "t = v\<lparr>us_processes := []\<rparr>"
    using assms(2) by (auto simp: services_stop_def thenA_eq_Ret)
  have su: "\<forall>(n, p) \<in> set ?ps. ended p u" "us_processes u = ?ps" "group_inv u"
    using stop_signals_result [OF assms(1) cur u] by auto
  obtain new where w: "\<forall>(n, p) \<in> set ?ps. ChildReaped p \<in> set (us_log v)" "us_log v = us_log u @ new" "\<forall>n p. ChildStarted n p \<notin> set new"
    using stop_waits_result [OF v] by blast
  have "ended p u" if "ChildStarted n p \<in> set (us_log u)" for n p
    using su that unfolding group_inv_def by (metis case_prodD map_of_SomeD)
  then have "ended p t" if "ChildStarted n p \<in> set (us_log t)" for n p
    using that w(2,3) t by (auto simp: ended_def)
  then show ?thesis using t w(1) by auto
qed

text \<open>When the session stops its services, whatever happened before, every process ever started for them has had its group
  signalled, every one still listed has been waited for, and none is listed any more.\<close>

theorem services_all_stopped:
  assumes "distinct commands" "thenA (start_all spawned) (forA services_poll pos) (services_new commands) = (s, r)"
    and "services_stop so s = (t, Ret ())"
  shows "us_processes t = [] \<and> (\<forall>(name, pid) \<in> set (us_processes s). ChildReaped pid \<in> set (us_log t)) \<and>
    (\<forall>name pid. ChildStarted name pid \<in> set (us_log t) \<longrightarrow> GroupSignal pid SIGTERM \<in> set (us_log t))"
proof -
  have "group_inv (fst (start_all spawned (services_new commands)))"
    using group_start_loop [OF group_new, of commands commands spawned] assms(1) by (simp add: start_all_def services_new_def)
  moreover have "keeps group_inv (forA services_poll pos)" by (intro keeps_for group_poll)
  ultimately have "group_inv s" using keeps_at assms(2) by (metis fst_conv)
  then show ?thesis using stop_result [OF _ assms(3)] unfolding ended_def by blast
qed

definition failing_poll :: "time \<Rightarrow> poll_input" where
  "failing_poll t = \<lparr>po_now = t, po_exited = (\<lambda>_. True), po_signal = (\<lambda>_. Ret ()), po_spawn = (\<lambda>_. Ret ())\<rparr>"

lemmas services_eval = services_new_def start_all_def start_service_def services_poll_def poll_child_def clean_child_def retry_child_def
  signal_group_def child_log_def failing_poll_def recent_def may_restart_def thenA_def bindA_def getA_def updA_def liftA_def catchA_def retA_def Let_def
  services_stop_def stop_signal_def stop_wait_def

theorem restarts_bounded_witness:
  "\<exists>t r. thenA (start_all (\<lambda>_. Ret ())) (forA services_poll [failing_poll 0, failing_poll 5, failing_poll 10]) (services_new [''h264'']) = (t, r) \<and>
     restart_times ''h264'' (us_log t) = [0, 10] \<and> (10 :: time) \<le> restart_times ''h264'' (us_log t) ! 1 - restart_times ''h264'' (us_log t) ! 0"
proof -
  obtain t r where t: "thenA (start_all (\<lambda>_. Ret ())) (forA services_poll [failing_poll 0, failing_poll 5, failing_poll 10]) (services_new [''h264'']) = (t, r)"
    by (cases "thenA (start_all (\<lambda>_. Ret ())) (forA services_poll [failing_poll 0, failing_poll 5, failing_poll 10]) (services_new [''h264''])")
  moreover have "restart_times ''h264'' (us_log (fst (thenA (start_all (\<lambda>_. Ret ()))
      (forA services_poll [failing_poll 0, failing_poll 5, failing_poll 10]) (services_new [''h264''])))) = [0, 10]"
    by (simp add: services_eval restart_times_def)
  ultimately show ?thesis
    using restarts_bounded [of "[failing_poll 0, failing_poll 5, failing_poll 10]" "\<lambda>_. Ret ()" "[''h264'']" t r "''h264''"]
    by (simp add: failing_poll_def Let_def)
qed

theorem services_all_stopped_witness:
  "\<exists>s r t. thenA (start_all (\<lambda>_. Ret ())) (forA services_poll [failing_poll 0]) (services_new [''h264'']) = (s, r) \<and>
     services_stop \<lparr>so_signal = (\<lambda>_. Ret ()), so_wait = (\<lambda>_. Exc TimeoutExpired), so_kill = (\<lambda>_. Ret ())\<rparr> s = (t, Ret ()) \<and>
     ChildStarted ''h264'' 0 \<in> set (us_log t) \<and> GroupSignal 0 SIGTERM \<in> set (us_log t)"
proof -
  let ?so = "\<lparr>so_signal = (\<lambda>_. Ret ()), so_wait = (\<lambda>_. Exc TimeoutExpired), so_kill = (\<lambda>_. Ret ())\<rparr>"
  obtain s r where s: "thenA (start_all (\<lambda>_. Ret ())) (forA services_poll [failing_poll 0]) (services_new [''h264'']) = (s, r)"
    by (cases "thenA (start_all (\<lambda>_. Ret ())) (forA services_poll [failing_poll 0]) (services_new [''h264''])")
  then have "\<exists>t. services_stop ?so s = (t, Ret ()) \<and> ChildStarted ''h264'' 0 \<in> set (us_log t)" by (auto simp: services_eval)
  then obtain t where t: "services_stop ?so s = (t, Ret ())" "ChildStarted ''h264'' 0 \<in> set (us_log t)" by blast
  have "GroupSignal 0 SIGTERM \<in> set (us_log t)"
    using services_all_stopped [of "[''h264'']" "\<lambda>_. Ret ()" "[failing_poll 0]" s r ?so t] s t by auto
  then show ?thesis using s t by blast
qed

end
