(* ===== verification/Paths.thy ===== *)
theory Paths
  imports Pyvalue
begin

text \<open>
  \<^verbatim>\<open>pathlib.Path\<close> on absolute paths as the host tools use it: what \<^verbatim>\<open>str(path)\<close> gives, \<^verbatim>\<open>path / name\<close>, and paths as lists of components.
\<close>

definition absolute :: "string \<Rightarrow> bool" where
  "absolute s \<longleftrightarrow> s \<noteq> [] \<and> hd s = CHR ''/''"

text \<open>The text of an absolute \<^verbatim>\<open>pathlib.Path\<close>: empty and \<^verbatim>\<open>.\<close> components are dropped, and exactly two leading slashes are kept.\<close>

definition pathlib_str :: "string \<Rightarrow> string" where
  "pathlib_str s =
     (if take 2 s = ''//'' \<and> take 3 s \<noteq> ''///'' then ''//'' else ''/'') @
     join ''/'' (filter (\<lambda>p. p \<noteq> [] \<and> p \<noteq> ''.'') (split_on (CHR ''/'') s))"

definition path_child :: "string \<Rightarrow> string \<Rightarrow> string" where
  "path_child p name = (if last p = CHR ''/'' then p @ name else p @ ''/'' @ name)"

text \<open>A resolved path as the list of its components.\<close>

type_synonym path = "string list"

fun is_relative_to :: "path \<Rightarrow> path \<Rightarrow> bool" where
  "is_relative_to p [] = True"
| "is_relative_to [] (r # rs) = False"
| "is_relative_to (p # ps) (r # rs) = (p = r \<and> is_relative_to ps rs)"

text \<open>Text for a path and back; \<^verbatim>\<open>pathlib\<close> drops empty components and dots.\<close>

definition path_of :: "string \<Rightarrow> path" where
  "path_of s = filter (\<lambda>p. p \<noteq> [] \<and> p \<noteq> ''.'') (split_on (CHR ''/'') s)"

definition str_path :: "path \<Rightarrow> string" where
  "str_path p = ''/'' @ join ''/'' p"

section \<open>Lemmas\<close>

lemma pathlib_str_absolute: "absolute (pathlib_str s)"
  by (simp add: absolute_def pathlib_str_def)

definition part :: "string \<Rightarrow> bool" where
  "part p \<longleftrightarrow> p \<noteq> [] \<and> p \<noteq> ''.'' \<and> CHR ''/'' \<notin> set p"

lemma split_on_no_sep: "p \<in> set (split_on sep s) \<Longrightarrow> sep \<notin> set p"
proof (induction s arbitrary: p)
  case (Cons c s)
  obtain f fs where f: "split_on sep s = f # fs" by (cases "split_on sep s") auto
  then show ?case using Cons by (auto split: if_splits)
qed simp

lemma split_on_join: "ps \<noteq> [] \<Longrightarrow> list_all (\<lambda>p. sep \<notin> set p) ps \<Longrightarrow> split_on sep (join [sep] ps) = ps"
  by (induction "[sep]" ps rule: join.induct) (auto simp: split_on_plain split_on_append)

lemma split_on_length: "(\<Sum>p \<leftarrow> split_on sep s. Suc (length p)) = Suc (length s)"
proof (induction s)
  case (Cons c s)
  then show ?case by (cases "split_on sep s") auto
qed simp

lemma join_length: "ps \<noteq> [] \<Longrightarrow> Suc (length (join [sep] ps)) = (\<Sum>p \<leftarrow> ps. Suc (length p))"
  by (induction "[sep]" ps rule: join.induct) auto

lemma filter_sum: "(\<Sum>p \<leftarrow> filter P ps. Suc (length p)) \<le> (\<Sum>p \<leftarrow> ps. Suc (length p))"
  by (induction ps) auto

lemma pathlib_parts: "list_all part (filter (\<lambda>p. p \<noteq> [] \<and> p \<noteq> ''.'') (split_on (CHR ''/'') s))"
  by (auto simp: list_all_iff part_def dest: split_on_no_sep)

lemma pathlib_again:
  assumes "list_all part ps" "rt = ''/'' \<or> rt = ''//''"
  shows "pathlib_str (rt @ join ''/'' ps) = rt @ join ''/'' ps"
proof (cases "ps = []")
  case True
  then show ?thesis using assms(2) by (auto simp: pathlib_str_def)
next
  case False
  have s: "split_on (CHR ''/'') (join ''/'' ps) = ps"
    using False assms(1) by (intro split_on_join) (auto simp: list_all_iff part_def)
  have f: "filter (\<lambda>p. p \<noteq> [] \<and> p \<noteq> ''.'') ps = ps" using assms(1) by (auto simp: filter_id_conv list_all_iff part_def)
  obtain c cs where j: "join ''/'' ps = c # cs" "c \<noteq> CHR ''/''"
    using False assms(1) by (cases "(''/'', ps)" rule: join.cases) (auto simp: part_def neq_Nil_conv)
  show ?thesis using assms(2) j s f by (auto simp: pathlib_str_def)
qed

lemma pathlib_str_idem: "pathlib_str (pathlib_str s) = pathlib_str s"
  using pathlib_again [OF pathlib_parts, of "if take 2 s = ''//'' \<and> take 3 s \<noteq> ''///'' then ''//'' else ''/''" s]
  unfolding pathlib_str_def by simp

lemma pathlib_str_length: "absolute s \<Longrightarrow> length (pathlib_str s) \<le> length s"
proof -
  assume "absolute s"
  then obtain t where s: "s = CHR ''/'' # t" by (cases s) (auto simp: absolute_def)
  let ?P = "\<lambda>p. p \<noteq> [] \<and> p \<noteq> ''.''"
  have j: "length (join ''/'' (filter ?P ps)) \<le> (\<Sum>p \<leftarrow> ps. Suc (length p)) - 1" for ps
    using join_length [of "filter ?P ps" "CHR ''/''"] filter_sum [of ?P ps] by (cases "filter ?P ps = []") auto
  show ?thesis
  proof (cases "take 2 s = ''//'' \<and> take 3 s \<noteq> ''///''")
    case True
    then obtain r where t: "t = CHR ''/'' # r" using s by (cases t) auto
    show ?thesis using True j [of "split_on (CHR ''/'') r"] split_on_length [of "CHR ''/''" r] unfolding pathlib_str_def s t by simp
  next
    case False
    then show ?thesis using j [of "split_on (CHR ''/'') t"] split_on_length [of "CHR ''/''" t] unfolding pathlib_str_def s by auto
  qed
qed

lemma split_on_chars: "p \<in> set (split_on sep s) \<Longrightarrow> set p \<subseteq> set s"
proof (induction s arbitrary: p)
  case (Cons c s)
  obtain q qs where "split_on sep s = q # qs" by (cases "split_on sep s") auto
  then show ?case using Cons by (fastforce split: if_splits)
qed simp

lemma join_chars: "set (join sep ps) \<subseteq> set sep \<union> (\<Union>p \<in> set ps. set p)"
  by (induction sep ps rule: join.induct) auto

lemma pathlib_chars: "set (pathlib_str s) \<subseteq> insert (CHR ''/'') (set s)"
proof -
  have "set (join ''/'' (filter P (split_on (CHR ''/'') s))) \<subseteq> insert (CHR ''/'') (set s)" for P
    using join_chars [of "''/''" "filter P (split_on (CHR ''/'') s)"] split_on_chars [of _ "CHR ''/''" s] by fastforce
  then show ?thesis unfolding pathlib_str_def by auto
qed

lemma is_relative_to_iff: "is_relative_to p r \<longleftrightarrow> (\<exists>rest. p = r @ rest)"
  by (induction p r rule: is_relative_to.induct) auto

lemma path_of_join:
  assumes "list_all (\<lambda>c. c \<noteq> [] \<and> c \<noteq> ''.'' \<and> CHR ''/'' \<notin> set c) ps"
  shows "path_of (join ''/'' ps) = ps"
proof (cases "ps = []")
  case False
  then have "split_on (CHR ''/'') (join ''/'' ps) = ps" using assms by (intro split_on_join) (auto simp: list_all_iff)
  then show ?thesis using assms unfolding path_of_def by (simp add: filter_id_conv list_all_iff)
qed (simp add: path_of_def)

end
