(* ===== verification/Session.thy ===== *)
theory Session
  imports User_Services Paths
begin

text \<open>
  \<^verbatim>\<open>host/session/session.py\<close>: the supervisor of one VM. The configuration check, the start (network helpers, services, QEMU, the
  display, the control endpoint), the loop that follows QEMU's control channel, and what is done when it ends.

  Inputs are the configuration, what the file system and the account say, the attempts of every retry loop with their clock
  readings, which children have exited, the results of starting, signalling, sending and receiving, and the JSON decoder. The
  environment of the children is not modelled, and the command line of QEMU is in \<open>Qemu_Args\<close>.
\<close>

section \<open>Configuration\<close>

fun py_len :: "json \<Rightarrow> nat outcome" where
  "py_len (JList xs) = Ret (length xs)"
| "py_len (JDict d) = Ret (length d)"
| "py_len (JStr s) = Ret (str_len s)"
| "py_len _ = Exc (TypeError ''object has no len()'')"

definition serial_char :: "char \<Rightarrow> bool" where
  "serial_char c \<longleftrightarrow> (let n = of_char c :: nat in 48 \<le> n \<and> n \<le> 57 \<or> 65 \<le> n \<and> n \<le> 90 \<or> 97 \<le> n \<and> n \<le> 122 \<or> n = 95 \<or> n = 45)"

definition disk_serial :: "string \<Rightarrow> bool" where
  "disk_serial s \<longleftrightarrow> 1 \<le> length s \<and> length s \<le> 32 \<and> list_all serial_char s"

definition nic_address :: "string \<Rightarrow> bool" where
  "nic_address s \<longleftrightarrow> six_octets (\<lambda>c. c = CHR '':'') s"

fun path_text :: "json \<Rightarrow> string outcome" where
  "path_text (JStr s) = Ret s"
| "path_text _ = Exc (TypeError ''expected str, bytes or os.PathLike object'')"

text \<open>The account, and for a path: whether it is a regular file, a symbolic link, and its owner.\<close>

record account =
  ac_uid :: int
  ac_stat :: "string \<Rightarrow> (bool \<times> bool \<times> int) outcome"
  ac_control :: "json outcome"
  ac_app :: string

definition image_names :: "dict \<Rightarrow> string list" where
  "image_names c = [''disk'', ''vars''] @ (if truthy (dict_get c ''provisioningISO'') then [''provisioningISO''] else [])"

definition check_image :: "account \<Rightarrow> dict \<Rightarrow> string \<Rightarrow> unit outcome" where
  "check_image ac c name =
     bindO (jitem (JDict c) name) (\<lambda>v.
     bindO (path_text v) (\<lambda>path.
     bindO (ac_stat ac path) (\<lambda>(is_file, is_link, owner).
       if \<not> is_file \<or> is_link \<or> owner \<noteq> ac_uid ac then Exc (RuntimeError (''Invalid VM '' @ name)) else Ret ())))"

definition check_nic :: "json \<Rightarrow> unit outcome" where
  "check_nic mac = bindO (matches nic_address mac) (\<lambda>ok. if ok then Ret () else Exc (RuntimeError ''Invalid virtual NIC address''))"

fun session_check :: "account \<Rightarrow> json \<Rightarrow> unit outcome" where
  "session_check ac (JDict c) =
     bindO (jitem (JDict c) ''control'') (\<lambda>_.
     bindO (ac_control ac) (\<lambda>_.
     bindO (mapO (check_image ac c) (image_names c)) (\<lambda>_.
     bindO (jitem (JDict c) ''userID'') (\<lambda>user.
       if \<not> py_eq user (JInt (ac_uid ac)) \<or> ac_uid ac = 0 then Exc (RuntimeError ''The configured dedicated account must run its own VM'') else
     bindO (bindO (jitem (JDict c) ''uuid'') check_uuid) (\<lambda>_.
     bindO (bindO (jitem (JDict c) ''diskSerial'') (matches disk_serial)) (\<lambda>serial.
       if \<not> serial then Exc (RuntimeError ''Invalid virtual disk serial'') else
     bindO (jitem (JDict c) ''macs'') (\<lambda>macs.
     bindO (py_len macs) (\<lambda>n.
     bindO (if n \<noteq> 2 then Ret False else bindO (bindO (jitem (JDict c) ''networks'') py_len) (\<lambda>k. Ret (k = 2))) (\<lambda>two.
       if \<not> two then Exc (RuntimeError ''This device topology requires two network backends'') else
     bindO (bindO (iter_items macs) (mapO check_nic)) (\<lambda>_.
     bindO (path_text (if has_key c ''appContents'' then dict_get c ''appContents'' else JStr (ac_app ac))) (\<lambda>app.
       if \<not> absolute app then Exc (RuntimeError ''appContents must be absolute'') else Ret ())))))))))))"
| "session_check ac _ = Exc (TypeError ''not subscriptable by str'')"

text \<open>\<^verbatim>\<open>rpc\<close>: the socket it connects to and the request it sends.\<close>

definition rpc_call :: "dict \<Rightarrow> string \<Rightarrow> dict \<Rightarrow> (json \<times> json) outcome" where
  "rpc_call config action kw =
     bindO (bindO (jitem (JDict config) ''socket'') path_text) (\<lambda>socket.
     bindO (jitem (JDict config) ''token'') (\<lambda>token.
       Ret (JStr (socket @ (if action = ''vm-stopped'' then ''.supervisor'' else [])),
            JDict ([(''action'', JStr action), (''token'', token)] @ kw))))"

section \<open>The session\<close>

datatype session_child = VideoChild nat | QemuChild nat | ViewChild nat

datatype session_effect =
    NetworkUp json
  | ServicesUp
  | Spawned session_child
  | QmpCommand string
  | QmpEvent json
  | ControlReady
  | ViewCrash time
  | VideoCrash time
  | VmStopped
  | Terminated session_child
  | Killed session_child
  | NetworksClosed

record session =
  se_services :: services
  se_networks :: "json list"
  se_children :: "session_child list"
  se_clean :: bool
  se_buffer :: bytes
  se_deadline :: "time option"
  se_retries :: "time list"
  se_video_retries :: "time list"
  se_log :: "session_effect list"

definition session_new :: "session" where
  "session_new =
     \<lparr>se_services = services_new [''h264''], se_networks = [], se_children = [], se_clean = False, se_buffer = [], se_deadline = None,
      se_retries = [], se_video_retries = [], se_log = []\<rparr>"

definition se_logged :: "session_effect \<Rightarrow> (session, unit) act" where
  "se_logged ev = updA (\<lambda>s. s\<lparr>se_log := se_log s @ [ev]\<rparr>)"

definition on_services :: "(services, 'a) act \<Rightarrow> (session, 'a) act" where
  "on_services m = (\<lambda>s. case m (se_services s) of (u, r) \<Rightarrow> (s\<lparr>se_services := u\<rparr>, r))"

definition spawn_child :: "(nat \<Rightarrow> session_child) \<Rightarrow> unit outcome \<Rightarrow> (session, unit) act" where
  "spawn_child kind started =
     bindA (liftA started) (\<lambda>_.
       updA (\<lambda>s. let child = kind (length (se_children s)) in
         s\<lparr>se_children := se_children s @ [child], se_log := se_log s @ [Spawned child]\<rparr>))"

definition qmp_command :: "string \<Rightarrow> unit outcome \<Rightarrow> (session, unit) act" where
  "qmp_command name sent = thenA (se_logged (QmpCommand name)) (liftA sent)"

section \<open>The start\<close>

text \<open>An attempt to reach a network helper: whether a stop was asked for, the connection, and the clock after a failure.\<close>

fun denied :: "exn \<Rightarrow> bool" where
  "denied (PermissionError _) = True"
| "denied (OSError n _) = (n = 13 \<or> n = 1)"
| "denied _ = False"

fun connect_network :: "time \<Rightarrow> json \<Rightarrow> (bool \<times> unit outcome \<times> time) list \<Rightarrow> (session, unit) act" where
  "connect_network deadline path [] = liftA NoRet"
| "connect_network deadline path ((stop, attempt, now) # rest) =
     (if stop then excA (RuntimeError ''Login startup cancelled'') else
      case attempt of
        Ret _ \<Rightarrow> updA (\<lambda>s. s\<lparr>se_networks := se_networks s @ [path], se_log := se_log s @ [NetworkUp path]\<rparr>)
      | NoRet \<Rightarrow> liftA NoRet
      | Exc e \<Rightarrow>
          if \<not> is_OSError e then excA e
          else if denied e then excA (RuntimeError ''Network socket access denied'')
          else if now > deadline then excA (RuntimeError ''Network helper did not become ready'')
          else connect_network deadline path rest)"

text \<open>An attempt on the QMP socket: the connection, whether QEMU has exited, the clock.\<close>

fun connect_qmp :: "time \<Rightarrow> (unit outcome \<times> bool \<times> time) list \<Rightarrow> (session, unit) act" where
  "connect_qmp deadline [] = liftA NoRet"
| "connect_qmp deadline ((attempt, exited, now) # rest) =
     (case attempt of
        Ret _ \<Rightarrow> retA ()
      | NoRet \<Rightarrow> liftA NoRet
      | Exc e \<Rightarrow>
          if \<not> is_OSError e then excA e
          else if exited \<or> now > deadline then excA (RuntimeError ''QEMU failed to start; see qemu.log'')
          else connect_qmp deadline rest)"

text \<open>An attempt on the control endpoint: its answer, a stop, whether the display has exited, the clock.\<close>

definition control_answer :: "json outcome \<Rightarrow> bool outcome" where
  "control_answer reply =
     catchO (bindO reply (\<lambda>v. bindO (jget v ''bundleID'') (\<lambda>b. Ret (b = JStr ''local.ashacky.host''))))
       (\<lambda>e. is_OSError e \<or> is_ValueError e) (\<lambda>_. Ret False)"

fun await_control :: "time \<Rightarrow> (json outcome \<times> bool \<times> bool \<times> time) list \<Rightarrow> (session, unit) act" where
  "await_control deadline [] = liftA NoRet"
| "await_control deadline ((reply, stop, exited, now) # rest) =
     bindA (liftA (control_answer reply)) (\<lambda>ready.
       if ready then se_logged ControlReady
       else if stop \<or> exited \<or> now > deadline then excA (RuntimeError ''Ashacky session services did not become ready; see display.log'')
       else await_control deadline rest)"

record boot_input =
  bo_deadline :: time
  bo_networks :: "nat \<Rightarrow> (bool \<times> unit outcome \<times> time) list"
  bo_services :: "string \<Rightarrow> unit outcome"
  bo_frames :: "unit outcome"
  bo_video :: "unit outcome"
  bo_qemu :: "unit outcome"
  bo_qmp_deadline :: time
  bo_qmp :: "(unit outcome \<times> bool \<times> time) list"
  bo_greeting :: "unit outcome"
  bo_capabilities :: "unit outcome"
  bo_answer :: "unit outcome"
  bo_view :: "unit outcome"
  bo_control_deadline :: time
  bo_control :: "(json outcome \<times> bool \<times> bool \<times> time) list"
  bo_cont :: "unit outcome"

definition session_boot :: "json list \<Rightarrow> boot_input \<Rightarrow> (session, unit) act" where
  "session_boot paths bo =
     thenA (forA (\<lambda>(i, path). connect_network (bo_deadline bo) path (bo_networks bo i)) (zip [0..<length paths] paths))
    (thenA (on_services (start_all (bo_services bo)))
    (thenA (se_logged ServicesUp)
    (thenA (liftA (bo_frames bo))
    (thenA (spawn_child VideoChild (bo_video bo))
    (thenA (spawn_child QemuChild (bo_qemu bo))
    (thenA (connect_qmp (bo_qmp_deadline bo) (bo_qmp bo))
    (thenA (liftA (bo_greeting bo))
    (thenA (qmp_command ''qmp_capabilities'' (bo_capabilities bo))
    (thenA (liftA (bo_answer bo))
    (thenA (spawn_child ViewChild (bo_view bo))
    (thenA (await_control (bo_control_deadline bo) (bo_control bo))
           (qmp_command ''cont'' (bo_cont bo)))))))))))))"

section \<open>The loop\<close>

text \<open>What one turn sees: the stop flag at its three readings, which children have exited (the display with its code), the clock,
  and the control channel.\<close>

record session_turn_input =
  st_qemu_exited :: bool
  st_stop_services :: bool
  st_poll :: poll_input
  st_video_exited :: bool
  st_stop_video :: bool
  st_video_now :: time
  st_video_stamp :: time
  st_video_start :: "unit outcome"
  st_stop :: bool
  st_powerdown :: "unit outcome"
  st_powerdown_now :: time
  st_view_exited :: "int option"
  st_view_powerdown :: "unit outcome"
  st_view_now :: time
  st_view_stamp :: time
  st_view_start :: "unit outcome"
  st_now :: time
  st_readable :: "bool outcome"
  st_chunk :: "bytes outcome"

definition poll_services :: "session_turn_input \<Rightarrow> (session, unit) act" where
  "poll_services st =
     bindA (getA se_deadline) (\<lambda>deadline.
       if \<not> st_stop_services st \<and> deadline = None then on_services (services_poll (st_poll st)) else retA ())"

definition restart_video :: "session_turn_input \<Rightarrow> (session, unit) act" where
  "restart_video st =
     bindA (getA se_deadline) (\<lambda>deadline.
       if st_video_exited st \<and> \<not> st_stop_video st \<and> deadline = None then
         thenA (updA (\<lambda>s. s\<lparr>se_video_retries := recent (st_video_now st) (se_video_retries s)\<rparr>))
        (bindA (getA se_video_retries) (\<lambda>retries.
           if length retries < 3 then
             thenA (updA (\<lambda>s. s\<lparr>se_video_retries := retries @ [st_video_stamp st], se_log := se_log s @ [VideoCrash (st_video_stamp st)]\<rparr>))
                   (spawn_child VideoChild (st_video_start st))
           else retA ()))
       else retA ())"

definition ask_shutdown :: "unit outcome \<Rightarrow> time \<Rightarrow> (session, unit) act" where
  "ask_shutdown sent now =
     thenA (qmp_command ''system_powerdown'' sent) (updA (\<lambda>s. s\<lparr>se_deadline := Some (now + 60)\<rparr>))"

definition obey_stop :: "session_turn_input \<Rightarrow> (session, unit) act" where
  "obey_stop st =
     bindA (getA se_deadline) (\<lambda>deadline.
       if st_stop st \<and> deadline = None then ask_shutdown (st_powerdown st) (st_powerdown_now st) else retA ())"

definition follow_view :: "session_turn_input \<Rightarrow> (session, unit) act" where
  "follow_view st =
     bindA (getA se_deadline) (\<lambda>deadline.
       case st_view_exited st of
         None \<Rightarrow> retA ()
       | Some code \<Rightarrow>
           if deadline \<noteq> None then retA ()
           else if code = 0 then ask_shutdown (st_view_powerdown st) (st_powerdown_now st)
           else
             thenA (updA (\<lambda>s. s\<lparr>se_retries := recent (st_view_now st) (se_retries s)\<rparr>))
            (bindA (getA se_retries) (\<lambda>retries.
               if length retries \<ge> 3 then excA (RuntimeError ''Display repeatedly crashed; stopping guest'') else
               thenA (updA (\<lambda>s. s\<lparr>se_retries := retries @ [st_view_stamp st], se_log := se_log s @ [ViewCrash (st_view_stamp st)]\<rparr>))
                     (spawn_child ViewChild (st_view_start st)))))"

definition check_deadline :: "session_turn_input \<Rightarrow> (session, unit) act" where
  "check_deadline st =
     bindA (getA se_deadline) (\<lambda>deadline.
       case deadline of
         None \<Rightarrow> retA ()
       | Some d \<Rightarrow> if d \<noteq> 0 \<and> st_now st > d then excA (RuntimeError ''Guest shutdown timed out'') else retA ())"

definition qmp_line :: "(bytes \<Rightarrow> json outcome) \<Rightarrow> bytes \<Rightarrow> (session, unit) act" where
  "qmp_line loads line =
     bindA (liftA (loads line)) (\<lambda>event.
     bindA (liftA (jget event ''event'')) (\<lambda>kind.
       if kind = JStr ''SHUTDOWN'' then
         bindA (liftA (bindO (jget_or event ''data'' (JDict [])) (\<lambda>data. jget data ''guest''))) (\<lambda>guest.
           updA (\<lambda>s. s\<lparr>se_clean := (guest = JBool True), se_log := se_log s @ [QmpEvent event]\<rparr>))
       else se_logged (QmpEvent event)))"

definition qmp_read :: "(bytes \<Rightarrow> json outcome) \<Rightarrow> session_turn_input \<Rightarrow> (session, bool) act" where
  "qmp_read loads st =
     bindA (liftA (st_readable st)) (\<lambda>readable.
       if \<not> readable then retA True else
       bindA (liftA (st_chunk st)) (\<lambda>chunk.
         if chunk = [] then retA False else
         bindA (getA (\<lambda>s. cut_lines 10 (se_buffer s @ chunk))) (\<lambda>(ls, rest).
           thenA (updA (\<lambda>s. s\<lparr>se_buffer := rest\<rparr>)) (thenA (forA (qmp_line loads) ls) (retA True)))))"

definition session_turn :: "(bytes \<Rightarrow> json outcome) \<Rightarrow> session_turn_input \<Rightarrow> (session, bool) act" where
  "session_turn loads st =
     thenA (poll_services st)
    (thenA (restart_video st)
    (thenA (obey_stop st)
    (thenA (follow_view st)
    (thenA (check_deadline st)
           (qmp_read loads st)))))"

fun session_loop :: "(bytes \<Rightarrow> json outcome) \<Rightarrow> session_turn_input list \<Rightarrow> (session, unit) act" where
  "session_loop loads [] = liftA NoRet"
| "session_loop loads (st # sts) =
     (if st_qemu_exited st then retA ()
      else bindA (session_turn loads st) (\<lambda>go_on. if go_on then session_loop loads sts else retA ()))"

section \<open>The end\<close>

record end_input =
  en_wait :: "unit outcome"
  en_view_running :: bool
  en_rpc :: "unit outcome"
  en_qemu_code :: int
  en_qemu_running :: bool
  en_powerdown :: "unit outcome"
  en_qemu_wait :: "unit outcome"
  en_running :: "session_child \<Rightarrow> bool"
  en_child_wait :: "session_child \<Rightarrow> unit outcome"
  en_services :: stop_input

definition session_finish :: "end_input \<Rightarrow> (session, unit) act" where
  "session_finish en =
     thenA (liftA (en_wait en))
    (bindA (getA se_clean) (\<lambda>clean.
       if clean then
         (if en_view_running en then thenA (se_logged VmStopped) (liftA (en_rpc en)) else retA ())
       else if en_qemu_code en \<noteq> 0 then excA (RuntimeError ''QEMU exited unexpectedly'') else retA ()))"

fun is_qemu :: "session_child \<Rightarrow> bool" where
  "is_qemu (QemuChild _) = True"
| "is_qemu _ = False"

definition stop_qemu :: "end_input \<Rightarrow> (session, unit) act" where
  "stop_qemu en =
     bindA (getA (\<lambda>s. filter is_qemu (se_children s))) (\<lambda>qemu.
       if qemu = [] \<or> \<not> en_qemu_running en then retA () else
       catchA (thenA (qmp_command ''system_powerdown'' (en_powerdown en)) (liftA (en_qemu_wait en))) is_Exception
         (\<lambda>_. se_logged (Terminated (hd qemu))))"

definition terminate_child :: "end_input \<Rightarrow> session_child \<Rightarrow> (session, unit) act" where
  "terminate_child en child = (if en_running en child then se_logged (Terminated child) else retA ())"

definition reap_child :: "end_input \<Rightarrow> session_child \<Rightarrow> (session, unit) act" where
  "reap_child en child = catchA (liftA (en_child_wait en child)) (\<lambda>e. e = TimeoutExpired) (\<lambda>_. se_logged (Killed child))"

definition session_cleanup :: "end_input \<Rightarrow> (session, unit) act" where
  "session_cleanup en =
     thenA (stop_qemu en)
    (bindA (getA se_children) (\<lambda>children.
     thenA (forA (terminate_child en) (rev children))
    (thenA (forA (reap_child en) children)
    (thenA (on_services (services_stop (en_services en)))
           (se_logged NetworksClosed)))))"

text \<open>The \<^verbatim>\<open>try\<close> statement of \<^verbatim>\<open>main\<close>: the clean-up runs once the body has returned or raised.\<close>

definition session_run ::
    "(bytes \<Rightarrow> json outcome) \<Rightarrow> json list \<Rightarrow> boot_input \<Rightarrow> session_turn_input list \<Rightarrow> end_input \<Rightarrow> (session, unit) act" where
  "session_run loads paths bo sts en = (\<lambda>s.
     case thenA (session_boot paths bo) (thenA (session_loop loads sts) (session_finish en)) s of
       (t, NoRet) \<Rightarrow> (t, NoRet)
     | (t, r) \<Rightarrow> (case session_cleanup en t of (u, Ret _) \<Rightarrow> (u, r) | (u, Exc e) \<Rightarrow> (u, Exc e) | (u, NoRet) \<Rightarrow> (u, NoRet)))"

text \<open>Before it: the wait for the console, the lock and the check that the disk is free.\<close>

fun await_console :: "int \<Rightarrow> time \<Rightarrow> (int outcome \<times> time) list \<Rightarrow> unit outcome" where
  "await_console uid deadline [] = NoRet"
| "await_console uid deadline ((owner, now) # rest) =
     bindO owner (\<lambda>n.
       if n = uid then Ret ()
       else if now > deadline then Exc (RuntimeError ''Linux did not become the active console session'')
       else await_console uid deadline rest)"

definition claim_disk :: "unit outcome \<Rightarrow> string outcome \<Rightarrow> unit outcome" where
  "claim_disk lock lsof =
     bindO lock (\<lambda>_. bindO lsof (\<lambda>out.
       if strip_spaces out \<noteq> [] then Exc (RuntimeError ''The VM disk is already open; close its current VM before starting standalone'')
       else Ret ()))"

record main_input =
  ma_account :: account
  ma_config :: json
  ma_check_only :: bool
  ma_console_deadline :: time
  ma_console :: "(int outcome \<times> time) list"
  ma_lock :: "unit outcome"
  ma_lsof :: "string outcome"
  ma_boot :: boot_input
  ma_turns :: "session_turn_input list"
  ma_end :: end_input

definition session_main :: "(bytes \<Rightarrow> json outcome) \<Rightarrow> main_input \<Rightarrow> (session, unit) act" where
  "session_main loads ma =
     thenA (liftA (session_check (ma_account ma) (ma_config ma)))
    (if ma_check_only ma then retA () else
     thenA (liftA (await_console (ac_uid (ma_account ma)) (ma_console_deadline ma) (ma_console ma)))
    (thenA (liftA (claim_disk (ma_lock ma) (ma_lsof ma)))
    (bindA (liftA (bindO (jitem (ma_config ma) ''networks'') iter_items)) (\<lambda>paths.
       session_run loads paths (ma_boot ma) (ma_turns ma) (ma_end ma)))))"

section \<open>What a call adds to the log\<close>

definition adds :: "(session_effect \<Rightarrow> bool) \<Rightarrow> (session, 'a) act \<Rightarrow> bool" where
  "adds P m \<longleftrightarrow> (\<forall>s. \<exists>new. se_log (fst (m s)) = se_log s @ new \<and> list_all P new)"

named_theorems adds_intros \<open>rules for what a call of the session adds\<close>

lemma adds_basic [adds_intros]: "adds P (retA x)" "adds P (excA e)" "adds P (liftA r)" "adds P (getA f)"
  by (simp_all add: adds_def act_defs)

lemma adds_upd: "(\<And>s. \<exists>new. se_log (f s) = se_log s @ new \<and> list_all P new) \<Longrightarrow> adds P (updA f)"
  by (simp add: adds_def act_defs)

lemma adds_logged [adds_intros]: "P ev \<Longrightarrow> adds P (se_logged ev)"
  unfolding se_logged_def by (rule adds_upd) simp

lemma adds_bind [adds_intros]:
  assumes "adds P m" "\<And>x. adds P (f x)"
  shows "adds P (bindA m f)"
  unfolding adds_def
proof
  fix s
  obtain u r where u: "m s = (u, r)" by (cases "m s")
  obtain new where n: "se_log u = se_log s @ new" "list_all P new" using assms(1) u unfolding adds_def by (metis fst_conv)
  show "\<exists>new. se_log (fst (bindA m f s)) = se_log s @ new \<and> list_all P new"
  proof (cases r)
    case (Ret x)
    obtain new' where "se_log (fst (f x u)) = se_log u @ new'" "list_all P new'" using assms(2) unfolding adds_def by blast
    then show ?thesis using u n Ret by (intro exI [of _ "new @ new'"]) (simp add: bindA_def)
  qed (use u n in \<open>auto simp: bindA_def\<close>)
qed

lemma adds_then [adds_intros]: "adds P m \<Longrightarrow> adds P k \<Longrightarrow> adds P (thenA m k)"
  by (simp add: thenA_def adds_bind)

lemma adds_catch [adds_intros]:
  assumes "adds P m" "\<And>e. adds P (h e)"
  shows "adds P (catchA m p h)"
  unfolding adds_def
proof
  fix s
  obtain u r where u: "m s = (u, r)" by (cases "m s")
  obtain new where n: "se_log u = se_log s @ new" "list_all P new" using assms(1) u unfolding adds_def by (metis fst_conv)
  show "\<exists>new. se_log (fst (catchA m p h s)) = se_log s @ new \<and> list_all P new"
  proof (cases r)
    case (Exc e)
    obtain new' where "se_log (fst (h e u)) = se_log u @ new'" "list_all P new'" using assms(2) unfolding adds_def by blast
    then show ?thesis using u n Exc by (cases "p e") (auto simp: catchA_def intro: exI [of _ "new @ new'"])
  qed (use u n in \<open>auto simp: catchA_def\<close>)
qed

lemma adds_for [adds_intros]: "(\<And>x. x \<in> set xs \<Longrightarrow> adds P (f x)) \<Longrightarrow> adds P (forA f xs)"
  by (induction xs) (auto intro!: adds_intros)

lemma adds_if [adds_intros]: "adds P m \<Longrightarrow> adds P k \<Longrightarrow> adds P (if c then m else k)"
  by simp

lemma adds_services [adds_intros]: "adds P (on_services m)"
  by (simp add: adds_def on_services_def case_prod_unfold)

lemma adds_spawn [adds_intros]: "(\<And>n. P (Spawned (kind n))) \<Longrightarrow> adds P (spawn_child kind r)"
  unfolding spawn_child_def by (intro adds_intros adds_upd) (simp add: Let_def)

lemma adds_qmp [adds_intros]: "P (QmpCommand name) \<Longrightarrow> adds P (qmp_command name r)"
  unfolding qmp_command_def by (intro adds_intros)

lemma adds_mono: "adds P m \<Longrightarrow> (\<And>ev. P ev \<Longrightarrow> Q ev) \<Longrightarrow> adds Q m"
  unfolding adds_def by (metis list.pred_mono_strong)

lemma adds_connect [adds_intros]: "P (NetworkUp path) \<Longrightarrow> adds P (connect_network d path as)"
  by (induction d path as rule: connect_network.induct) (auto intro!: adds_intros adds_upd split: outcome.splits)

lemma adds_connect_qmp [adds_intros]: "adds P (connect_qmp d as)"
  by (induction d as rule: connect_qmp.induct) (auto intro!: adds_intros split: outcome.splits)

lemma adds_control [adds_intros]: "P ControlReady \<Longrightarrow> adds P (await_control d as)"
  by (induction d as rule: await_control.induct) (auto intro!: adds_intros)

lemma adds_line [adds_intros]: "(\<And>ev. P (QmpEvent ev)) \<Longrightarrow> adds P (qmp_line loads line)"
  unfolding qmp_line_def by (intro adds_intros adds_upd) auto

text \<open>What the loop may log: everything but the commands of the start and the report to the host.\<close>

fun loop_effect :: "session_effect \<Rightarrow> bool" where
  "loop_effect (QmpCommand c) = (c = ''system_powerdown'')"
| "loop_effect VmStopped = False"
| "loop_effect ControlReady = False"
| "loop_effect _ = True"

lemma adds_turn [adds_intros]: "adds loop_effect (session_turn loads st)"
  unfolding session_turn_def poll_services_def restart_video_def obey_stop_def follow_view_def check_deadline_def qmp_read_def ask_shutdown_def
  by (auto intro!: adds_intros adds_upd split: option.splits prod.splits)

lemma adds_loop: "adds loop_effect (session_loop loads sts)"
  by (induction loads sts rule: session_loop.induct) (auto intro!: adds_intros)

lemma adds_cleanup: "adds loop_effect (session_cleanup en)"
  unfolding session_cleanup_def stop_qemu_def terminate_child_def reap_child_def by (auto intro!: adds_intros)

section \<open>The host is told of a confirmed shutdown only\<close>

definition shutdowns :: "session_effect list \<Rightarrow> json list" where
  "shutdowns lg = concat (map (\<lambda>ev. case ev of QmpEvent e \<Rightarrow> if jget e ''event'' = Ret (JStr ''SHUTDOWN'') then [e] else [] | _ \<Rightarrow> []) lg)"

definition by_guest :: "json \<Rightarrow> bool" where
  "by_guest e \<longleftrightarrow> bindO (jget_or e ''data'' (JDict [])) (\<lambda>data. jget data ''guest'') = Ret (JBool True)"

definition confirmed :: "session_effect list \<Rightarrow> bool" where
  "confirmed lg \<longleftrightarrow> shutdowns lg \<noteq> [] \<and> by_guest (last (shutdowns lg))"

lemma shutdowns_append [simp]: "shutdowns (lg @ lg') = shutdowns lg @ shutdowns lg'"
  by (simp add: shutdowns_def)

abbreviation clean_inv :: "session \<Rightarrow> bool" where
  "clean_inv s \<equiv> se_clean s \<longrightarrow> confirmed (se_log s)"

lemma shutdowns_other: "(\<And>e. ev \<noteq> QmpEvent e) \<Longrightarrow> shutdowns [ev] = []"
  by (cases ev) (auto simp: shutdowns_def)

lemma clean_logged: "(\<And>e. ev \<noteq> QmpEvent e) \<Longrightarrow> keeps clean_inv (se_logged ev)"
  unfolding se_logged_def by (rule keeps_upd) (simp add: confirmed_def shutdowns_other)

lemma clean_upd: "(\<And>s. se_clean (f s) = se_clean s) \<Longrightarrow> (\<And>s. shutdowns (se_log (f s)) = shutdowns (se_log s)) \<Longrightarrow> keeps clean_inv (updA f)"
  by (rule keeps_upd) (simp add: confirmed_def)

lemma clean_services: "keeps clean_inv (on_services m)"
  by (rule keepsI) (simp add: on_services_def case_prod_unfold)

lemma clean_spawn: "keeps clean_inv (spawn_child kind r)"
  unfolding spawn_child_def by (intro keeps_intros clean_upd) (simp_all add: Let_def shutdowns_other)

lemma clean_qmp: "keeps clean_inv (qmp_command name r)"
  unfolding qmp_command_def by (intro keeps_intros clean_logged) simp

lemma clean_line: "keeps clean_inv (qmp_line loads line)"
proof (rule keepsI)
  fix s assume "clean_inv s"
  show "clean_inv (fst (qmp_line loads line s))"
  proof (cases "\<exists>e. loads line = Ret e \<and> jget e ''event'' = Ret (JStr ''SHUTDOWN'')")
    case True
    then obtain e where e: "loads line = Ret e" "jget e ''event'' = Ret (JStr ''SHUTDOWN'')" by blast
    let ?g = "bindO (jget_or e ''data'' (JDict [])) (\<lambda>data. jget data ''guest'')"
    have "clean_inv (s\<lparr>se_clean := (g = JBool True), se_log := se_log s @ [QmpEvent e]\<rparr>)" if "?g = Ret g" for g
      using that e(2) by (simp add: confirmed_def shutdowns_def by_guest_def del: bindO_eq_Ret)
    then show ?thesis using e \<open>clean_inv s\<close> by (cases ?g) (simp_all add: qmp_line_def del: bindO_eq_Ret)
  next
    case False
    then have "shutdowns [QmpEvent e] = []" if "loads line = Ret e" for e using that by (simp add: shutdowns_def)
    then show ?thesis using False \<open>clean_inv s\<close>
      by (cases "loads line") (auto simp: qmp_line_def se_logged_def confirmed_def bindA_def liftA_def updA_def split: outcome.splits)
  qed
qed

lemma clean_turn: "keeps clean_inv (session_turn loads st)"
  unfolding session_turn_def poll_services_def restart_video_def obey_stop_def follow_view_def check_deadline_def qmp_read_def ask_shutdown_def
  by (auto intro!: keeps_bind keeps_then keeps_if keeps_get keeps_ret keeps_exc keeps_lift keeps_for clean_services clean_spawn clean_qmp clean_line clean_upd
      simp: shutdowns_other split: option.splits prod.splits)

lemma clean_loop: "keeps clean_inv (session_loop loads sts)"
  by (induction loads sts rule: session_loop.induct) (auto intro!: keeps_intros clean_turn)


lemma clean_connect: "keeps clean_inv (connect_network d path as)"
  by (induction d path as rule: connect_network.induct) (auto intro!: keeps_intros clean_upd simp: shutdowns_other split: outcome.splits)

lemma clean_connect_qmp: "keeps clean_inv (connect_qmp d as)"
  by (induction d as rule: connect_qmp.induct) (auto intro!: keeps_intros split: outcome.splits)

lemma clean_control: "keeps clean_inv (await_control d as)"
proof (induction d as rule: await_control.induct)
  case (2 d reply stop exited now rest)
  then show ?case unfolding await_control.simps
    by (cases "stop \<or> exited \<or> d < now") (auto intro!: keeps_bind keeps_lift keeps_if keeps_exc clean_logged simp del: act_at)
qed (simp add: keeps_lift)

lemma clean_boot: "keeps clean_inv (session_boot paths bo)"
  unfolding session_boot_def
  by (intro keeps_then keeps_for keeps_lift clean_services clean_spawn clean_qmp clean_connect_qmp clean_control clean_logged)
    (auto intro!: clean_connect split: prod.splits)

fun boot_effect :: "session_effect \<Rightarrow> bool" where
  "boot_effect VmStopped = False"
| "boot_effect (QmpCommand c) = (c = ''qmp_capabilities'')"
| "boot_effect _ = True"

lemma addsD: "adds P m \<Longrightarrow> m s = (t, r) \<Longrightarrow> \<exists>new. se_log t = se_log s @ new \<and> list_all P new"
  unfolding adds_def by (metis fst_conv)

lemma network_up: "connect_network d path as s = (t, Ret ()) \<Longrightarrow> NetworkUp path \<in> set (se_log t)"
  by (induction d path as arbitrary: s rule: connect_network.induct) (auto simp: liftA_def split: if_splits outcome.splits)

lemma networks_up:
  "forA (\<lambda>(i, path). connect_network d path (f i)) ips s = (t, Ret ()) \<Longrightarrow> (i, path) \<in> set ips \<Longrightarrow> NetworkUp path \<in> set (se_log t)"
proof (induction ips arbitrary: s)
  case (Cons ip ips)
  obtain j q where ip: "ip = (j, q)" by (cases ip)
  obtain u where u: "connect_network d q (f j) s = (u, Ret ())" "forA (\<lambda>(i, path). connect_network d path (f i)) ips u = (t, Ret ())"
    using Cons.prems(1) ip by (auto simp: thenA_eq_Ret)
  have l: "adds (\<lambda>_. True) (forA (\<lambda>(i, path). connect_network d path (f i)) ips)" by (auto intro!: adds_intros split: prod.splits)
  obtain new where "se_log t = se_log u @ new" using addsD [OF l u(2)] by blast
  then show ?case using Cons.IH [OF u(2)] Cons.prems(2) network_up [OF u(1)] ip by auto
qed simp

lemma control_ready: "await_control d as s = (t, Ret ()) \<Longrightarrow> ControlReady \<in> set (se_log t)"
proof (induction d as arbitrary: s rule: await_control.induct)
  case (2 d reply stop exited now rest)
  then show ?case by (cases "control_answer reply") (auto simp: se_logged_def split: if_splits)
qed (simp add: liftA_def)

text \<open>All of the start but its last command.\<close>

definition boot_prepare :: "json list \<Rightarrow> boot_input \<Rightarrow> (session, unit) act" where
  "boot_prepare paths bo =
     thenA (forA (\<lambda>(i, path). connect_network (bo_deadline bo) path (bo_networks bo i)) (zip [0..<length paths] paths))
    (thenA (on_services (start_all (bo_services bo)))
    (thenA (se_logged ServicesUp)
    (thenA (liftA (bo_frames bo))
    (thenA (spawn_child VideoChild (bo_video bo))
    (thenA (spawn_child QemuChild (bo_qemu bo))
    (thenA (connect_qmp (bo_qmp_deadline bo) (bo_qmp bo))
    (thenA (liftA (bo_greeting bo))
    (thenA (qmp_command ''qmp_capabilities'' (bo_capabilities bo))
    (thenA (liftA (bo_answer bo))
    (thenA (spawn_child ViewChild (bo_view bo))
           (await_control (bo_control_deadline bo) (bo_control bo))))))))))))"

lemma session_boot_split: "session_boot paths bo = thenA (boot_prepare paths bo) (qmp_command ''cont'' (bo_cont bo))"
  unfolding session_boot_def boot_prepare_def by (simp only: thenA_assoc)

lemma adds_prepare: "adds boot_effect (boot_prepare paths bo)"
  unfolding boot_prepare_def by (intro adds_then adds_for) (auto intro!: adds_intros split: prod.splits)

lemma prepare_ready:
  assumes "boot_prepare paths bo s = (t, Ret ())"
  shows "ControlReady \<in> set (se_log t) \<and> (\<forall>path \<in> set paths. NetworkUp path \<in> set (se_log t))"
proof -
  let ?net = "forA (\<lambda>(i, path). connect_network (bo_deadline bo) path (bo_networks bo i)) (zip [0..<length paths] paths)"
  define rest where "rest = thenA (on_services (start_all (bo_services bo)))
    (thenA (se_logged ServicesUp)
    (thenA (liftA (bo_frames bo))
    (thenA (spawn_child VideoChild (bo_video bo))
    (thenA (spawn_child QemuChild (bo_qemu bo))
    (thenA (connect_qmp (bo_qmp_deadline bo) (bo_qmp bo))
    (thenA (liftA (bo_greeting bo))
    (thenA (qmp_command ''qmp_capabilities'' (bo_capabilities bo))
    (thenA (liftA (bo_answer bo))
           (spawn_child ViewChild (bo_view bo))))))))))"
  have "boot_prepare paths bo = thenA (thenA ?net rest) (await_control (bo_control_deadline bo) (bo_control bo))"
    unfolding boot_prepare_def rest_def by (simp only: thenA_assoc)
  then obtain u v where u: "?net s = (u, Ret ())" and v: "rest u = (v, Ret ())"
      and t: "await_control (bo_control_deadline bo) (bo_control bo) v = (t, Ret ())"
    using assms by (auto simp: thenA_eq_Ret)
  have l1: "adds (\<lambda>_. True) rest" unfolding rest_def by (intro adds_intros) simp_all
  obtain n1 where n1: "se_log v = se_log u @ n1" using addsD [OF l1 v] by blast
  have l2: "adds (\<lambda>_. True) (await_control (bo_control_deadline bo) (bo_control bo))" by (intro adds_intros) simp
  obtain n2 where n2: "se_log t = se_log v @ n2" using addsD [OF l2 t] by blast
  have "NetworkUp path \<in> set (se_log u)" if "path \<in> set paths" for path
  proof -
    have "path \<in> snd ` set (zip [0..<length paths] paths)" using that by (metis length_upt diff_zero list.set_map map_snd_zip)
    then obtain i where "(i, path) \<in> set (zip [0..<length paths] paths)" by auto
    then show ?thesis using networks_up [OF u] by blast
  qed
  then show ?thesis using control_ready [OF t] n1 n2 by auto
qed


text \<open>The three parts of a run and what each adds to the log.\<close>

lemma no_boot_effects: "list_all boot_effect new \<Longrightarrow> QmpCommand ''cont'' \<notin> set new \<and> VmStopped \<notin> set new"
  by (auto simp: list_all_iff)

lemma no_loop_effects: "list_all loop_effect new \<Longrightarrow> QmpCommand ''cont'' \<notin> set new \<and> VmStopped \<notin> set new"
  by (auto simp: list_all_iff)

lemma finish_cases:
  "session_finish en s = (t, r) \<Longrightarrow>
   t = s \<or> se_clean s \<and> en_wait en = Ret () \<and> en_view_running en \<and> t = s\<lparr>se_log := se_log s @ [VmStopped]\<rparr> \<and> r = en_rpc en"
  by (cases "en_wait en"; cases "en_rpc en")
    (auto simp: session_finish_def thenA_def bindA_def liftA_def getA_def se_logged_def updA_def retA_def excA_def split: if_splits)

lemma session_body_cases:
  assumes "thenA (session_boot paths bo) (thenA (session_loop loads sts) (session_finish en)) session_new = (t, r)"
  obtains (unstarted) "list_all boot_effect (se_log t)"
    | (started) pre post where "boot_prepare paths bo session_new = (pre, Ret ())" "list_all boot_effect (se_log pre)"
        "se_log t = se_log pre @ [QmpCommand ''cont''] @ post" "VmStopped \<notin> set post" "QmpCommand ''cont'' \<notin> set post"
    | (reported) pre post and u :: session where "boot_prepare paths bo session_new = (pre, Ret ())" "list_all boot_effect (se_log pre)"
        "se_log u = se_log pre @ [QmpCommand ''cont''] @ post" "VmStopped \<notin> set post" "QmpCommand ''cont'' \<notin> set post"
        "se_log t = se_log u @ [VmStopped]" "confirmed (se_log u)" "en_wait en = Ret ()" "en_view_running en" "r = en_rpc en"
proof -
  obtain pre q where pre: "boot_prepare paths bo session_new = (pre, q)" by (cases "boot_prepare paths bo session_new")
  obtain new where "se_log pre = se_log session_new @ new" "list_all boot_effect new" using addsD [of boot_effect "boot_prepare paths bo", OF adds_prepare, of session_new pre q] pre by blast
  then have be: "list_all boot_effect (se_log pre)" by (simp add: session_new_def)
  show thesis
  proof (cases q)
    case (Ret x)
    let ?p = "pre\<lparr>se_log := se_log pre @ [QmpCommand ''cont'']\<rparr>"
    have ci: "clean_inv ?p"
      using keepsD [OF clean_boot, of session_new paths bo] pre Ret
      by (cases "bo_cont bo") (simp_all add: session_boot_split qmp_command_def se_logged_def thenA_def bindA_def liftA_def session_new_def)
    obtain v w where v: "session_loop loads sts ?p = (v, w)" by (cases "session_loop loads sts ?p")
    obtain post where post: "se_log v = se_log ?p @ post" "list_all loop_effect post" using addsD [of loop_effect "session_loop loads sts", OF adds_loop, of ?p v w] v by blast
    have cv: "clean_inv v" using keepsD [OF clean_loop [of loads sts], of ?p] ci v by simp
    have lv: "se_log v = se_log pre @ [QmpCommand ''cont''] @ post" using post(1) by simp
    have tail: "thenA (qmp_command ''cont'' (bo_cont bo)) (thenA (session_loop loads sts) (session_finish en)) pre = (t, r)"
      using assms pre Ret by (simp add: session_boot_split thenA_assoc) (simp add: thenA_def [of "boot_prepare paths bo"] bindA_def)
    have stopped: "t = ?p \<or> t = v \<or> (bo_cont bo = Ret () \<and> w = Ret () \<and> session_finish en v = (t, r))"
      using tail v by (cases "bo_cont bo"; cases w) (auto simp: qmp_command_def se_logged_def thenA_def bindA_def liftA_def updA_def)
    note nl = no_loop_effects [OF post(2)]
    have st: "se_log t = se_log v \<Longrightarrow> thesis" "se_log t = se_log ?p \<Longrightarrow> thesis"
      using started [of pre post] started [of pre "[]"] pre Ret be lv nl by simp_all
    show thesis
    proof (cases "t = ?p \<or> t = v")
      case True
      then show thesis using st by metis
    next
      case False
      then have "session_finish en v = (t, r)" using stopped by blast
      then show thesis
        using finish_cases [of en v t r] st(1) reported [of pre v post] pre Ret be lv nl cv by auto
    qed
  qed (use assms pre be unstarted in \<open>auto simp: session_boot_split thenA_def bindA_def\<close>)
qed


lemma session_run_log:
  assumes "session_run loads paths bo sts en session_new = (t, r)"
  obtains b q new where "thenA (session_boot paths bo) (thenA (session_loop loads sts) (session_finish en)) session_new = (b, q)"
    "se_log t = se_log b @ new" "list_all loop_effect new"
proof -
  obtain b q where b: "thenA (session_boot paths bo) (thenA (session_loop loads sts) (session_finish en)) session_new = (b, q)"
    by (cases "thenA (session_boot paths bo) (thenA (session_loop loads sts) (session_finish en)) session_new")
  obtain c w where c: "session_cleanup en b = (c, w)" by (cases "session_cleanup en b")
  obtain new where new: "se_log c = se_log b @ new" "list_all loop_effect new"
    using addsD [of loop_effect "session_cleanup en", OF adds_cleanup, of b c w] c by blast
  have "t = b \<or> t = c" using assms b c by (cases q; cases w) (simp_all add: session_run_def)
  then show thesis using b that [of b q "[]"] that [of b q new] new by auto
qed

lemma session_main_cases:
  assumes "session_main loads ma session_new = (t, r)"
  obtains (refused) "t = session_new"
    | (ran) paths where "session_check (ma_account ma) (ma_config ma) = Ret ()" "\<not> ma_check_only ma"
        "bindO (jitem (ma_config ma) ''networks'') iter_items = Ret paths"
        "session_run loads paths (ma_boot ma) (ma_turns ma) (ma_end ma) session_new = (t, r)"
proof -
  have "t = session_new \<or> (session_check (ma_account ma) (ma_config ma) = Ret () \<and> \<not> ma_check_only ma \<and>
      (\<exists>paths. bindO (jitem (ma_config ma) ''networks'') iter_items = Ret paths \<and>
        session_run loads paths (ma_boot ma) (ma_turns ma) (ma_end ma) session_new = (t, r)))"
    using assms unfolding session_main_def
    by (auto simp: thenA_def bindA_def liftA_def retA_def simp del: session_check.simps bindO_eq_Ret split: outcome.splits if_splits)
  then show thesis using refused ran by blast
qed

text \<open>C27: the host is told that the VM stopped -- which lets it complete an armed power operation -- at most once, only after QEMU
  has exited while the display runs, and only if the last shutdown event received from QEMU says that the guest asked for it.\<close>

theorem vm_stopped_confirmed:
  assumes "session_main loads ma session_new = (t, r)" "VmStopped \<in> set (se_log t)"
  shows "\<exists>pre post. se_log t = pre @ [VmStopped] @ post \<and> VmStopped \<notin> set pre \<and> VmStopped \<notin> set post \<and>
    QmpCommand ''cont'' \<in> set pre \<and> shutdowns pre \<noteq> [] \<and> by_guest (last (shutdowns pre)) \<and>
    en_wait (ma_end ma) = Ret () \<and> en_view_running (ma_end ma)"
  using assms(1)
proof (cases rule: session_main_cases)
  case refused
  then show ?thesis using assms(2) by (simp add: session_new_def)
next
  case (ran paths)
  obtain b q new where b: "thenA (session_boot paths (ma_boot ma)) (thenA (session_loop loads (ma_turns ma)) (session_finish (ma_end ma))) session_new = (b, q)"
      "se_log t = se_log b @ new" "list_all loop_effect new"
    using session_run_log [OF ran(4)] by blast
  note nn = no_loop_effects [OF b(3)]
  from b(1) show ?thesis
  proof (cases rule: session_body_cases)
    case unstarted
    then show ?thesis using assms(2) b(2) nn no_boot_effects by auto
  next
    case (started pre post)
    then show ?thesis using assms(2) b(2) nn no_boot_effects [OF started(2)] by auto
  next
    case (reported pre post u)
    then show ?thesis using b(2) nn no_boot_effects [OF reported(2)]
      by (intro exI [of _ "se_log u"] exI [of _ new]) (simp add: confirmed_def)
  qed
qed

text \<open>The guest is started at most once, only from a configuration that passed every check, and only after every configured
  network helper was reached and the control endpoint of the display answered for itself.\<close>

theorem guest_started_ready:
  assumes "session_main loads ma session_new = (t, r)" "QmpCommand ''cont'' \<in> set (se_log t)"
  shows "session_check (ma_account ma) (ma_config ma) = Ret () \<and>
    (\<exists>pre post paths. se_log t = pre @ [QmpCommand ''cont''] @ post \<and> QmpCommand ''cont'' \<notin> set pre \<and> QmpCommand ''cont'' \<notin> set post \<and>
      bindO (jitem (ma_config ma) ''networks'') iter_items = Ret paths \<and> (\<forall>path \<in> set paths. NetworkUp path \<in> set pre) \<and>
      ControlReady \<in> set pre)"
  using assms(1)
proof (cases rule: session_main_cases)
  case refused
  then show ?thesis using assms(2) by (simp add: session_new_def)
next
  case (ran paths)
  obtain b q new where b: "thenA (session_boot paths (ma_boot ma)) (thenA (session_loop loads (ma_turns ma)) (session_finish (ma_end ma))) session_new = (b, q)"
      "se_log t = se_log b @ new" "list_all loop_effect new"
    using session_run_log [OF ran(4)] by blast
  note nn = no_loop_effects [OF b(3)]
  from b(1) have "\<exists>pre post. boot_prepare paths (ma_boot ma) session_new = (pre, Ret ()) \<and> list_all boot_effect (se_log pre) \<and>
      se_log t = se_log pre @ [QmpCommand ''cont''] @ post \<and> QmpCommand ''cont'' \<notin> set post"
  proof (cases rule: session_body_cases)
    case unstarted
    then show ?thesis using assms(2) b(2) nn no_boot_effects by auto
  next
    case (started pre post)
    then show ?thesis using b(2) nn by (intro exI [of _ pre] exI [of _ "post @ new"]) simp
  next
    case (reported pre post u)
    then show ?thesis using b(2) nn by (intro exI [of _ pre] exI [of _ "post @ [VmStopped] @ new"]) simp
  qed
  then obtain pre post where p: "boot_prepare paths (ma_boot ma) session_new = (pre, Ret ())" "list_all boot_effect (se_log pre)"
      "se_log t = se_log pre @ [QmpCommand ''cont''] @ post" "QmpCommand ''cont'' \<notin> set post"
    by blast
  then show ?thesis using ran(1,3) prepare_ready [OF p(1)] no_boot_effects [OF p(2)] by blast
qed


section \<open>Nothing is left running\<close>

abbreviation child_inv :: "session \<Rightarrow> bool" where
  "child_inv s \<equiv> (\<forall>c. Spawned c \<in> set (se_log s) \<longrightarrow> c \<in> set (se_children s)) \<and> group_inv (se_services s)"

lemma child_logged: "(\<And>c. ev \<noteq> Spawned c) \<Longrightarrow> keeps child_inv (se_logged ev)"
  unfolding se_logged_def by (rule keeps_upd) auto

lemma child_upd:
  "(\<And>s. se_children (f s) = se_children s) \<Longrightarrow> (\<And>s. se_services (f s) = se_services s) \<Longrightarrow>
   (\<And>s c. Spawned c \<in> set (se_log (f s)) \<longleftrightarrow> Spawned c \<in> set (se_log s)) \<Longrightarrow> keeps child_inv (updA f)"
  by (rule keeps_upd) simp

lemma child_services: "keeps group_inv m \<Longrightarrow> keeps child_inv (on_services m)"
  by (rule keepsI) (simp add: on_services_def case_prod_unfold keepsD)

lemma child_spawn: "keeps child_inv (spawn_child kind r)"
  unfolding spawn_child_def by (intro keeps_bind keeps_lift keeps_upd) (auto simp: Let_def)

lemma child_qmp: "keeps child_inv (qmp_command name r)"
  unfolding qmp_command_def by (intro keeps_then keeps_lift child_logged) simp

lemma child_line: "keeps child_inv (qmp_line loads line)"
  unfolding qmp_line_def by (intro keeps_bind keeps_lift keeps_if child_upd child_logged) auto

lemma child_turn: "keeps child_inv (session_turn loads st)"
  unfolding session_turn_def poll_services_def restart_video_def obey_stop_def follow_view_def check_deadline_def qmp_read_def ask_shutdown_def
  by (auto intro!: keeps_bind keeps_then keeps_if keeps_get keeps_ret keeps_exc keeps_lift keeps_for child_services group_poll child_spawn child_qmp
      child_line child_upd split: option.splits prod.splits)

lemma child_loop: "keeps child_inv (session_loop loads sts)"
  by (induction loads sts rule: session_loop.induct) (auto intro!: keeps_intros child_turn)

lemma child_finish: "keeps child_inv (session_finish en)"
  unfolding session_finish_def
  by (intro keeps_then keeps_bind keeps_if keeps_get keeps_ret keeps_exc keeps_lift child_logged) simp

lemma child_connect_qmp: "keeps child_inv (connect_qmp d as)"
  by (induction d as rule: connect_qmp.induct) (auto intro!: keeps_intros split: outcome.splits)

lemma child_control: "keeps child_inv (await_control d as)"
proof (induction d as rule: await_control.induct)
  case (2 d reply stop exited now rest)
  then show ?case unfolding await_control.simps
    by (cases "stop \<or> exited \<or> d < now") (auto intro!: keeps_bind keeps_lift keeps_if keeps_exc child_logged simp del: act_at)
qed (simp add: keeps_lift)

text \<open>The services are started from their initial state.\<close>

abbreviation unstarted_inv :: "session \<Rightarrow> bool" where
  "unstarted_inv s \<equiv> se_services s = services_new [''h264''] \<and> se_children s = [] \<and> (\<forall>c. Spawned c \<notin> set (se_log s))"

lemma unstarted_connect: "keeps unstarted_inv (connect_network d path as)"
  by (induction d path as rule: connect_network.induct) (auto intro!: keeps_intros keeps_upd split: outcome.splits)

lemma unstarted_child: "unstarted_inv s \<Longrightarrow> child_inv s"
  using group_new by simp

lemma child_start: "unstarted_inv s \<Longrightarrow> child_inv (fst (on_services (start_all f) s))"
proof -
  assume s: "unstarted_inv s"
  have "group_inv (fst (start_all f (services_new [''h264''])))"
    using group_start_loop [OF group_new, of "[''h264'']" "[''h264'']" f] by (simp add: start_all_def services_new_def)
  then show ?thesis using s by (simp add: on_services_def case_prod_unfold)
qed

lemma child_boot: "child_inv (fst (session_boot paths bo session_new))"
proof -
  let ?net = "forA (\<lambda>(i, path). connect_network (bo_deadline bo) path (bo_networks bo i)) (zip [0..<length paths] paths)"
  obtain u q where u: "?net session_new = (u, q)" by (cases "?net session_new")
  have "keeps unstarted_inv ?net" by (rule keeps_for) (auto intro: unstarted_connect split: prod.splits)
  then have un: "unstarted_inv u" using keepsD [of unstarted_inv ?net session_new] u by (simp add: session_new_def)
  have rest: "keeps child_inv (thenA (se_logged ServicesUp)
    (thenA (liftA (bo_frames bo)) (thenA (spawn_child VideoChild (bo_video bo)) (thenA (spawn_child QemuChild (bo_qemu bo))
    (thenA (connect_qmp (bo_qmp_deadline bo) (bo_qmp bo)) (thenA (liftA (bo_greeting bo))
    (thenA (qmp_command ''qmp_capabilities'' (bo_capabilities bo)) (thenA (liftA (bo_answer bo))
    (thenA (spawn_child ViewChild (bo_view bo)) (thenA (await_control (bo_control_deadline bo) (bo_control bo))
      (qmp_command ''cont'' (bo_cont bo))))))))))))"
    by (intro keeps_then keeps_lift child_logged child_spawn child_connect_qmp child_qmp child_control) simp
  have "child_inv (fst (thenA (on_services (start_all (bo_services bo))) k u))" if "keeps child_inv k" for k :: "(session, unit) act"
    using keeps_at [of child_inv "on_services (start_all (bo_services bo))" u k] child_start [OF un] that by blast
  from this [OF rest] show ?thesis
    using u unstarted_child [OF un] unfolding session_boot_def by (cases q) (simp_all add: thenA_def [of ?net] bindA_def)
qed

lemma child_body: "child_inv (fst (thenA (session_boot paths bo) (thenA (session_loop loads sts) (session_finish en)) session_new))"
  using keeps_at [of child_inv "session_boot paths bo" session_new "thenA (session_loop loads sts) (session_finish en)"] child_boot
    keeps_then [OF child_loop child_finish] by blast

lemma terminate_all:
  "forA (terminate_child en) cs s = (t, r) \<Longrightarrow> r = Ret () \<and> (\<forall>c \<in> set cs. en_running en c \<longrightarrow> Terminated c \<in> set (se_log t)) \<and>
   (\<exists>new. se_log t = se_log s @ new) \<and> se_services t = se_services s \<and> se_children t = se_children s"
proof (induction cs arbitrary: s)
  case (Cons c cs)
  let ?u = "if en_running en c then s\<lparr>se_log := se_log s @ [Terminated c]\<rparr> else s"
  have "terminate_child en c s = (?u, Ret ())" by (simp add: terminate_child_def se_logged_def)
  then have "forA (terminate_child en) cs ?u = (t, r)" using Cons.prems by (simp add: thenA_def bindA_def)
  from Cons.IH [OF this] show ?case by (auto split: if_splits)
qed simp

lemma stop_qemu_result:
  assumes "ends (en_powerdown en)" "ends (en_qemu_wait en)" "stop_qemu en s = (t, r)"
  shows "r = Ret () \<and> se_children t = se_children s \<and> se_services t = se_services s \<and>
    (\<exists>new. se_log t = se_log s @ new \<and> (\<forall>c. Spawned c \<notin> set new))"
  using assms by (cases "en_powerdown en"; cases "en_qemu_wait en")
    (auto simp: stop_qemu_def qmp_command_def se_logged_def catchA_def thenA_def bindA_def getA_def liftA_def updA_def retA_def split: if_splits)

lemma reap_result:
  "forA (reap_child en) cs s = (t, r) \<Longrightarrow> se_services t = se_services s \<and> (\<exists>new. se_log t = se_log s @ new \<and> (\<forall>c. Spawned c \<notin> set new))"
proof (induction cs arbitrary: s)
  case (Cons c cs)
  obtain u q where u: "reap_child en c s = (u, q)" by (cases "reap_child en c s")
  then have "u = s \<or> u = s\<lparr>se_log := se_log s @ [Killed c]\<rparr>"
    by (cases "en_child_wait en c") (auto simp: reap_child_def catchA_def liftA_def se_logged_def split: if_splits)
  then show ?case using Cons u by (cases q) (fastforce simp: thenA_def bindA_def)+
qed simp


lemma reap_then_stop:
  fixes m k :: "(session, unit) act"
  assumes "m b = (c, q)" "k c = (d, w)" "thenA m (thenA k (se_logged NetworksClosed)) b = (t, r)"
  shows "t = c \<and> r \<noteq> Ret () \<or> t = d \<and> r \<noteq> Ret () \<or> w = Ret () \<and> t = d\<lparr>se_log := se_log d @ [NetworksClosed]\<rparr>"
  using assms(3)
proof (cases rule: seqA_cases)
  case first
  then show ?thesis using assms(1) by simp
next
  case (second u x)
  then have "thenA k (se_logged NetworksClosed) c = (t, r)" using assms(1) by simp
  then show ?thesis
  proof (cases rule: seqA_cases)
    case first
    then show ?thesis using assms(2) by simp
  next
    case (second u x)
    then show ?thesis using assms(2) by (simp add: se_logged_def)
  qed
qed

lemma cleanup_result:
  assumes "child_inv s" "ends (en_powerdown en)" "ends (en_qemu_wait en)" "session_cleanup en s = (t, r)"
  shows "(\<forall>c. Spawned c \<in> set (se_log t) \<longrightarrow> en_running en c \<longrightarrow> Terminated c \<in> set (se_log t)) \<and>
    (r = Ret () \<longrightarrow> us_processes (se_services t) = [] \<and>
      (\<forall>name pid. ChildStarted name pid \<in> set (us_log (se_services t)) \<longrightarrow> ended pid (se_services t)))"
proof -
  obtain a where a: "stop_qemu en s = (a, Ret ())" using stop_qemu_result [OF assms(2,3)] by (cases "stop_qemu en s") blast
  obtain n1 where n1: "se_children a = se_children s" "se_services a = se_services s" "se_log a = se_log s @ n1" "\<forall>c. Spawned c \<notin> set n1"
    using stop_qemu_result [OF assms(2,3) a] by blast
  obtain b where b: "forA (terminate_child en) (rev (se_children a)) a = (b, Ret ())"
    using terminate_all by (cases "forA (terminate_child en) (rev (se_children a)) a") blast
  note tb = terminate_all [OF b]
  have lb: "adds (\<lambda>ev. \<forall>c. ev \<noteq> Spawned c) (forA (terminate_child en) (rev (se_children a)))"
    unfolding terminate_child_def by (intro adds_intros) simp
  obtain n2 where n2: "se_log b = se_log a @ n2" "list_all (\<lambda>ev. \<forall>c. ev \<noteq> Spawned c) n2" using addsD [OF lb b] by blast
  obtain c q where c: "forA (reap_child en) (se_children a) b = (c, q)" by (cases "forA (reap_child en) (se_children a) b")
  obtain n3 where n3: "se_services c = se_services b" "se_log c = se_log b @ n3" "\<forall>c. Spawned c \<notin> set n3" using reap_result [OF c] by blast
  obtain v w where v: "services_stop (en_services en) (se_services c) = (v, w)" by (cases "services_stop (en_services en) (se_services c)")
  define d where "d = c\<lparr>se_services := v\<rparr>"
  have os: "on_services (services_stop (en_services en)) c = (d, w)" using v by (simp add: on_services_def d_def)
  have "thenA (forA (reap_child en) (se_children a)) (thenA (on_services (services_stop (en_services en))) (se_logged NetworksClosed)) b = (t, r)"
    using assms(4) unfolding session_cleanup_def by (simp only: thenA_at [of "stop_qemu en", OF a] act_at(1)
        thenA_at [of "forA (terminate_child en) (rev (se_children a))", OF b])
  then have run: "t = c \<and> r \<noteq> Ret () \<or> t = d \<and> r \<noteq> Ret () \<or> w = Ret () \<and> t = d\<lparr>se_log := se_log d @ [NetworksClosed]\<rparr>"
    using reap_then_stop [of "forA (reap_child en) (se_children a)" b c q "on_services (services_stop (en_services en))" d w t r] c os by blast
  have spawned: "Spawned x \<in> set (se_log c) \<longleftrightarrow> Spawned x \<in> set (se_log s)" for x
    using n1(3,4) n2 n3(2,3) by (auto simp: list_all_iff)
  have gone: "Terminated x \<in> set (se_log c)" if "Spawned x \<in> set (se_log c)" "en_running en x" for x
    using that spawned assms(1) tb n1(1) n3(2) by auto
  have svc: "group_inv (se_services c)" using n3(1) tb n1(2) assms(1) by simp
  have "r = Ret () \<Longrightarrow> w = Ret () \<and> se_services t = v" using run by (auto simp: d_def)
  then have "us_processes (se_services t) = [] \<and> (\<forall>name pid. ChildStarted name pid \<in> set (us_log (se_services t)) \<longrightarrow> ended pid (se_services t))"
    if "r = Ret ()" using stop_result [OF svc, of "en_services en" v] v that by blast
  moreover have "Terminated x \<in> set (se_log t)" if "Spawned x \<in> set (se_log t)" "en_running en x" for x
    using run gone that by (auto simp: d_def)
  ultimately show ?thesis by blast
qed



section \<open>A session\<close>

definition demo_config :: json where
  "demo_config = JDict [(''control'', JStr ''/c''), (''disk'', JStr ''/d''), (''vars'', JStr ''/v''), (''userID'', JInt 501),
     (''uuid'', JStr ''0123456789abcdef0123456789abcdef''), (''diskSerial'', JStr ''disk0''),
     (''macs'', JList [JStr ''02:00:00:00:00:01'', JStr ''02:00:00:00:00:02'']), (''networks'', JList [JStr ''/n0'', JStr ''/n1''])]"

definition demo_boot :: boot_input where
  "demo_boot = \<lparr>bo_deadline = 90, bo_networks = (\<lambda>_. [(False, Ret (), 0)]), bo_services = (\<lambda>_. Ret ()), bo_frames = Ret (), bo_video = Ret (),
     bo_qemu = Ret (), bo_qmp_deadline = 30, bo_qmp = [(Ret (), False, 0)], bo_greeting = Ret (), bo_capabilities = Ret (), bo_answer = Ret (),
     bo_view = Ret (), bo_control_deadline = 30, bo_control = [(Ret (JDict [(''bundleID'', JStr ''local.ashacky.host'')]), False, False, 0)],
     bo_cont = Ret ()\<rparr>"

definition demo_turn :: session_turn_input where
  "demo_turn = \<lparr>st_qemu_exited = False, st_stop_services = False,
     st_poll = \<lparr>po_now = 0, po_exited = (\<lambda>_. False), po_signal = (\<lambda>_. Ret ()), po_spawn = (\<lambda>_. Ret ())\<rparr>, st_video_exited = False,
     st_stop_video = False, st_video_now = 0, st_video_stamp = 0, st_video_start = Ret (), st_stop = False, st_powerdown = Ret (), st_powerdown_now = 0,
     st_view_exited = None, st_view_powerdown = Ret (), st_view_now = 0, st_view_stamp = 0, st_view_start = Ret (), st_now = 0, st_readable = Ret True,
     st_chunk = Ret [10]\<rparr>"

definition demo_end :: end_input where
  "demo_end = \<lparr>en_wait = Ret (), en_view_running = True, en_rpc = Ret (), en_qemu_code = 0, en_qemu_running = False, en_powerdown = Ret (),
     en_qemu_wait = Ret (), en_running = (\<lambda>c. c = ViewChild 2), en_child_wait = (\<lambda>_. Ret ()),
     en_services = \<lparr>so_signal = (\<lambda>_. Ret ()), so_wait = (\<lambda>_. Ret ()), so_kill = (\<lambda>_. Ret ())\<rparr>\<rparr>"

definition demo_main :: main_input where
  "demo_main = \<lparr>ma_account = \<lparr>ac_uid = 501, ac_stat = (\<lambda>_. Ret (True, False, 501)), ac_control = Ret JNull, ac_app = ''/app''\<rparr>, ma_config = demo_config,
     ma_check_only = False, ma_console_deadline = 90, ma_console = [(Ret 501, 0)], ma_lock = Ret (), ma_lsof = Ret [], ma_boot = demo_boot,
     ma_turns = [demo_turn, demo_turn\<lparr>st_qemu_exited := True\<rparr>], ma_end = demo_end\<rparr>"

definition shutdown_event :: json where
  "shutdown_event = JDict [(''event'', JStr ''SHUTDOWN''), (''data'', JDict [(''guest'', JBool True)])]"

lemma demo_log:
  "snd (session_main (\<lambda>_. Ret shutdown_event) demo_main session_new) = Ret ()"
  "se_log (fst (session_main (\<lambda>_. Ret shutdown_event) demo_main session_new)) =
     [NetworkUp (JStr ''/n0''), NetworkUp (JStr ''/n1''), ServicesUp, Spawned (VideoChild 0), Spawned (QemuChild 1), QmpCommand ''qmp_capabilities'',
      Spawned (ViewChild 2), ControlReady, QmpCommand ''cont'', QmpEvent shutdown_event, VmStopped, Terminated (ViewChild 2), NetworksClosed]"
  by code_simp+

lemma demo_run:
  obtains t where "session_main (\<lambda>_. Ret shutdown_event) demo_main session_new = (t, Ret ())" "VmStopped \<in> set (se_log t)"
    "QmpCommand ''cont'' \<in> set (se_log t)" "Spawned (ViewChild 2) \<in> set (se_log t)"
  using demo_log by (cases "session_main (\<lambda>_. Ret shutdown_event) demo_main session_new") auto

theorem vm_stopped_confirmed_witness:
  "\<exists>t pre. session_main (\<lambda>_. Ret shutdown_event) demo_main session_new = (t, Ret ()) \<and> by_guest (last (shutdowns pre)) \<and>
     (\<exists>post. se_log t = pre @ [VmStopped] @ post)"
proof -
  obtain t where t: "session_main (\<lambda>_. Ret shutdown_event) demo_main session_new = (t, Ret ())" "VmStopped \<in> set (se_log t)" by (rule demo_run)
  show ?thesis using vm_stopped_confirmed [OF t] t(1) by blast
qed

theorem guest_started_ready_witness:
  "\<exists>t pre post. session_main (\<lambda>_. Ret shutdown_event) demo_main session_new = (t, Ret ()) \<and> se_log t = pre @ [QmpCommand ''cont''] @ post \<and>
     ControlReady \<in> set pre"
proof -
  obtain t where t: "session_main (\<lambda>_. Ret shutdown_event) demo_main session_new = (t, Ret ())" "QmpCommand ''cont'' \<in> set (se_log t)" by (rule demo_run)
  show ?thesis using guest_started_ready [OF t] t(1) by blast
qed


end
