(* ===== verification/Ipv4.thy ===== *)
theory Ipv4
  imports Pyvalue
begin

text \<open>
  Python's \<^verbatim>\<open>ipaddress.IPv4Address\<close> and \<^verbatim>\<open>IPv4Network\<close> as the sources use them: an address is a number below \<open>2 ^ 32\<close>, a network
  its first address and the length of its prefix. Text is read and written in dotted decimal.
\<close>

section \<open>Text\<close>

definition all_digits :: "string \<Rightarrow> bool" where
  "all_digits s \<longleftrightarrow> s \<noteq> [] \<and> list_all digit s"

section \<open>Addresses\<close>

definition parse_octet :: "string \<Rightarrow> nat option" where
  "parse_octet s =
     (if \<not> all_digits s \<or> length s > 3 \<or> (s \<noteq> ''0'' \<and> hd s = CHR ''0'') \<or> digits_val s > 255 then None else Some (digits_val s))"

definition parse_ipv4 :: "string \<Rightarrow> nat option" where
  "parse_ipv4 s =
     (case map parse_octet (split_on (CHR ''.'') s) of
        [Some a, Some b, Some c, Some d] \<Rightarrow> Some (((a * 256 + b) * 256 + c) * 256 + d)
      | _ \<Rightarrow> None)"

definition format_ipv4 :: "nat \<Rightarrow> string" where
  "format_ipv4 n =
     dec (n div 2 ^ 24 mod 256) @ ''.'' @ dec (n div 2 ^ 16 mod 256) @ ''.'' @ dec (n div 2 ^ 8 mod 256) @ ''.'' @ dec (n mod 256)"

definition address_error :: "'a outcome" where
  "address_error = Exc (ValueError ''AddressValueError'')"

definition ipv4_of_int :: "int \<Rightarrow> nat outcome" where
  "ipv4_of_int i = (if 0 \<le> i \<and> i < 2 ^ 32 then Ret (nat i) else address_error)"

text \<open>Values other than text and integers are written out first, which never gives an address.\<close>

fun IPv4Address :: "json \<Rightarrow> nat outcome" where
  "IPv4Address (JStr s) = (case parse_ipv4 s of None \<Rightarrow> address_error | Some n \<Rightarrow> Ret n)"
| "IPv4Address (JInt i) = ipv4_of_int i"
| "IPv4Address (JBool b) = ipv4_of_int (if b then 1 else 0)"
| "IPv4Address _ = address_error"

section \<open>Networks\<close>

type_synonym ipv4_network = "nat \<times> nat"

definition netmask :: "nat \<Rightarrow> nat" where
  "netmask p = (2 ^ p - 1) * 2 ^ (32 - p)"

definition hostmask :: "nat \<Rightarrow> nat" where
  "hostmask p = 2 ^ (32 - p) - 1"

definition parse_prefix :: "string \<Rightarrow> nat option" where
  "parse_prefix s =
     (if all_digits s \<and> digits_val s \<le> 32 then Some (digits_val s) else
      case parse_ipv4 s of
        None \<Rightarrow> None
      | Some n \<Rightarrow> (case find (\<lambda>p. netmask p = n) [0..<33] of
          Some p \<Rightarrow> Some p
        | None \<Rightarrow> find (\<lambda>p. hostmask p = n) [0..<33]))"

definition network_of :: "nat \<Rightarrow> nat \<Rightarrow> ipv4_network outcome" where
  "network_of n p = (if n mod 2 ^ (32 - p) = 0 then Ret (n, p) else Exc (ValueError ''has host bits set''))"

fun IPv4Network :: "json \<Rightarrow> ipv4_network outcome" where
  "IPv4Network (JStr s) =
     (case split_on (CHR ''/'') s of
        [a] \<Rightarrow> (case parse_ipv4 a of None \<Rightarrow> address_error | Some n \<Rightarrow> network_of n 32)
      | [a, m] \<Rightarrow> (case (parse_ipv4 a, parse_prefix m) of (Some n, Some p) \<Rightarrow> network_of n p | _ \<Rightarrow> address_error)
      | _ \<Rightarrow> address_error)"
| "IPv4Network (JInt i) = bindO (ipv4_of_int i) (\<lambda>n. network_of n 32)"
| "IPv4Network (JBool b) = network_of (if b then 1 else 0) 32"
| "IPv4Network _ = address_error"

definition in_network :: "nat \<Rightarrow> ipv4_network \<Rightarrow> bool" where
  "in_network n net = (n div 2 ^ (32 - snd net) * 2 ^ (32 - snd net) = fst net)"

definition subnet_of :: "ipv4_network \<Rightarrow> ipv4_network \<Rightarrow> bool" where
  "subnet_of a b \<longleftrightarrow> fst b \<le> fst a \<and> fst a + 2 ^ (32 - snd a) \<le> fst b + 2 ^ (32 - snd b)"

section \<open>Lemmas\<close>

lemma digit_not_sep: "list_all digit s \<Longrightarrow> \<not> digit sep \<Longrightarrow> sep \<notin> set s"
  by (auto simp: list_all_iff)

lemma dec_small: "n < 10 \<Longrightarrow> dec n = [char_of (48 + n)]"
  by (simp add: dec.simps)

lemma dec_big: "\<not> n < 10 \<Longrightarrow> dec n = dec (n div 10) @ [char_of (48 + n mod 10)]"
  by (subst dec.simps) simp

lemma dec_hd: "0 < n \<Longrightarrow> hd (dec n) \<noteq> CHR ''0''"
proof (induction n rule: dec.induct)
  case (1 n)
  show ?case
  proof (cases "n < 10")
    case True
    have "(of_char (char_of (48 + n) :: char) :: nat) \<noteq> of_char (CHR ''0'')" using True 1(2) by simp
    then show ?thesis using True by (metis dec_small list.sel(1))
  next
    case False
    then show ?thesis using 1(1) [OF False] dec_digits [of "n div 10"] by (simp add: dec_big)
  qed
qed

lemma dec_length: "n < 1000 \<Longrightarrow> length (dec n) \<le> 3"
proof -
  have "m < 10 \<Longrightarrow> length (dec m) = 1" for m by (simp add: dec_small)
  then have "m < 100 \<Longrightarrow> length (dec m) \<le> 2" for m by (cases "m < 10") (auto simp: dec_big)
  then show "n < 1000 \<Longrightarrow> length (dec n) \<le> 3" by (cases "n < 10") (auto simp: dec_small dec_big)
qed

lemma parse_octet_dec: "n < 256 \<Longrightarrow> parse_octet (dec n) = Some n"
proof -
  assume n: "n < 256"
  have d: "list_all digit (dec n)" "digits_val (dec n) = n" "dec n \<noteq> []" using dec_digits by auto
  have z: "dec n = ''0''" if "n = 0" using that by (simp add: dec_small; code_simp)
  show ?thesis
    using d n z dec_length [of n] dec_hd [of n] by (cases "n = 0") (auto simp: parse_octet_def all_digits_def)
qed

lemma octets: "n < 2 ^ 32 \<Longrightarrow> ((n div 2 ^ 24 mod 256 * 256 + n div 2 ^ 16 mod 256) * 256 + n div 2 ^ 8 mod 256) * 256 + n mod 256 = (n :: nat)"
proof -
  assume n: "n < 2 ^ 32"
  have e: "n div 2 ^ 8 = n div 256" "n div 2 ^ 16 = n div 256 div 256" "n div 2 ^ 24 = n div 256 div 256 div 256"
    by (simp_all add: div_mult2_eq [symmetric])
  have "n div 256 div 256 div 256 < 256" using n by (simp add: div_mult2_eq [symmetric] less_mult_imp_div_less)
  then show ?thesis unfolding e by (simp add: div_mult_mod_eq)
qed

lemma parse_format: "n < 2 ^ 32 \<Longrightarrow> parse_ipv4 (format_ipv4 n) = Some n"
proof -
  assume n: "n < 2 ^ 32"
  have dot: "CHR ''.'' \<notin> set (dec k)" for k using digit_not_sep [of "dec k" "CHR ''.''"] dec_digits [of k] by (simp add: digit_def)
  have "split_on (CHR ''.'') (format_ipv4 n) =
      [dec (n div 2 ^ 24 mod 256), dec (n div 2 ^ 16 mod 256), dec (n div 2 ^ 8 mod 256), dec (n mod 256)]"
    unfolding format_ipv4_def by (simp add: split_on_append dot split_on_plain)
  then have "parse_ipv4 (format_ipv4 n) =
      Some (((n div 2 ^ 24 mod 256 * 256 + n div 2 ^ 16 mod 256) * 256 + n div 2 ^ 8 mod 256) * 256 + n mod 256)"
    unfolding parse_ipv4_def by (simp add: parse_octet_dec del: power_numeral)
  then show ?thesis by (simp only: octets [OF n])
qed

lemma format_inj: "m < 2 ^ 32 \<Longrightarrow> n < 2 ^ 32 \<Longrightarrow> format_ipv4 m = format_ipv4 n \<longleftrightarrow> m = n"
  by (metis option.inject parse_format)

lemma parse_octet_less: "parse_octet s = Some n \<Longrightarrow> n < 256"
  by (auto simp: parse_octet_def split: if_splits)

lemma parse_ipv4_less: "parse_ipv4 s = Some n \<Longrightarrow> n < 2 ^ 32"
  by (auto simp: parse_ipv4_def dest!: parse_octet_less split: list.splits option.splits)

lemma IPv4Address_less: "IPv4Address v = Ret n \<Longrightarrow> n < 2 ^ 32"
  by (cases v) (auto simp: address_error_def ipv4_of_int_def nat_less_iff dest: parse_ipv4_less split: option.splits if_splits)

end
