(* ===== verification/Vm_Session.thy ===== *)
theory Vm_Session
  imports Ipv4 Paths
begin

text \<open>
  \<^verbatim>\<open>host/transport\<close>: the settings of the connection to the VM (\<^verbatim>\<open>vm_session.py\<close>), the address it is reached at, and the command
  that opens a shell in it once its identity is known (\<^verbatim>\<open>vm-ssh.py\<close>). Inputs are the environment, the account, the files and their
  owners and modes, the DHCP leases, and what the first connection prints.
\<close>

unbundle bit_operations_syntax

section \<open>Settings\<close>

text \<open>A file's mode and owner, as \<^verbatim>\<open>lstat\<close> gives them.\<close>

type_synonym file_status = "32 word \<times> int"

definition is_regular :: "32 word \<Rightarrow> bool" where
  "is_regular mode \<longleftrightarrow> mode AND 0xF000 = 0x8000"

definition is_directory :: "32 word \<Rightarrow> bool" where
  "is_directory mode \<longleftrightarrow> mode AND 0xF000 = 0x4000"

record host_input =
  hi_config :: "string option"
  hi_uid :: int
  hi_config_status :: "file_status outcome"
  hi_config_json :: "json outcome"
  hi_private_status :: "string \<Rightarrow> file_status outcome"

text \<open>The fallback address stays as it was written; only text and integers make an address.\<close>

datatype fallback = FText string | FInt int | FBool bool

record vm_setup =
  vs_uuid :: string
  vs_private :: string
  vs_subnet :: ipv4_network
  vs_fallback :: fallback

fun text_of :: "json \<Rightarrow> string outcome" where
  "text_of (JStr s) = Ret s"
| "text_of _ = Exc (TypeError ''expected str, bytes or os.PathLike object'')"

fun fallback_of :: "json \<Rightarrow> fallback outcome" where
  "fallback_of (JStr s) = Ret (FText s)"
| "fallback_of (JInt i) = Ret (FInt i)"
| "fallback_of (JBool b) = Ret (FBool b)"
| "fallback_of _ = address_error"

fun canonical_uuid :: "json \<Rightarrow> string outcome" where
  "canonical_uuid (JStr s) = bindO (check_uuid (JStr s)) (\<lambda>_. Ret (uuid_str (uuid_value s)))"
| "canonical_uuid v = bindO (check_uuid v) (\<lambda>_. Exc (AttributeError ''replace''))"

definition read_config :: "host_input \<Rightarrow> dict outcome" where
  "read_config hi =
     (case hi_config hi of
        None \<Rightarrow> Exc (ValueError ''LINUXHOST_SESSION_CONFIG must select this installation'')
      | Some configured \<Rightarrow>
          if configured = [] then Exc (ValueError ''LINUXHOST_SESSION_CONFIG must select this installation'')
          else if \<not> absolute configured then Exc (ValueError ''Session configuration path must be absolute'')
          else bindO (hi_config_status hi) (\<lambda>(mode, owner).
            if \<not> is_regular mode \<or> owner \<notin> {0, hi_uid hi} \<or> mode AND 0x12 \<noteq> 0
            then Exc (ValueError ''Session configuration must be a protected regular file'') else
            bindO (hi_config_json hi) (\<lambda>supplied.
              case supplied of
                JDict d \<Rightarrow>
                  if dict_keys d \<noteq> {''uuid'', ''privateDirectory'', ''managementSubnet'', ''fallbackAddress''}
                  then Exc (ValueError ''Session configuration must specify all four known fields'') else Ret d
              | _ \<Rightarrow> Exc (ValueError ''Session configuration must specify all four known fields''))))"

definition vm_settings :: "host_input \<Rightarrow> vm_setup outcome" where
  "vm_settings hi =
     bindO (read_config hi) (\<lambda>d.
     bindO (canonical_uuid (dict_get d ''uuid'')) (\<lambda>uuid.
     bindO (text_of (dict_get d ''privateDirectory'')) (\<lambda>directory.
       if \<not> absolute directory then Exc (ValueError ''Private directory must be absolute'') else
     let private = pathlib_str directory in
     bindO (hi_private_status hi private) (\<lambda>(mode, owner).
       if \<not> is_directory mode \<or> owner \<noteq> hi_uid hi \<or> mode AND 0x3F \<noteq> 0
       then Exc (ValueError ''Private directory must belong exclusively to the current user'') else
     bindO (IPv4Network (dict_get d ''managementSubnet'')) (\<lambda>subnet.
     bindO (IPv4Address (dict_get d ''fallbackAddress'')) (\<lambda>n.
       if \<not> in_network n subnet then Exc (ValueError ''Fallback must belong to the management subnet'') else
     bindO (fallback_of (dict_get d ''fallbackAddress'')) (\<lambda>fallback.
       Ret \<lparr>vs_uuid = uuid, vs_private = private, vs_subnet = subnet, vs_fallback = fallback\<rparr>)))))))"

section \<open>The address\<close>

fun fallback_text :: "fallback \<Rightarrow> string" where
  "fallback_text (FText s) = s"
| "fallback_text (FInt i) = dec_int i"
| "fallback_text (FBool b) = (if b then ''True'' else ''False'')"

text \<open>\<^verbatim>\<open>re.findall(r'^\s*ip_address=([^\s]+)', leases, re.MULTILINE)\<close>, with the white space of ASCII: the value of every line that
  is such an assignment.\<close>

definition lease_line :: "string \<Rightarrow> string list" where
  "lease_line line =
     (let s = dropWhile re_space line; v = takeWhile (\<lambda>c. \<not> re_space c) (drop 11 s) in
      if take 11 s = ''ip_address='' \<and> v \<noteq> [] then [v] else [])"

definition lease_values :: "string \<Rightarrow> string list" where
  "lease_values leases = concat (map lease_line (split_on (CHR 0x0A) leases))"

fun lease_candidates :: "ipv4_network \<Rightarrow> string list \<Rightarrow> string list \<Rightarrow> string list outcome" where
  "lease_candidates subnet found [] = Ret found"
| "lease_candidates subnet found (v # vs) =
     bindO (IPv4Address (JStr v)) (\<lambda>n.
       lease_candidates subnet
         (if in_network n subnet \<and> format_ipv4 n \<notin> set found then found @ [format_ipv4 n] else found) vs)"

definition vm_address :: "vm_setup \<Rightarrow> string outcome \<Rightarrow> string outcome" where
  "vm_address vs leases =
     (let fallback = fallback_text (vs_fallback vs) in
      catchO
        (bindO leases (\<lambda>text.
         bindO (lease_candidates (vs_subnet vs) [] (lease_values text)) (\<lambda>candidates.
           if fallback \<in> set candidates then Ret fallback
           else case candidates of [c] \<Rightarrow> Ret c | _ \<Rightarrow> Ret fallback)))
        (\<lambda>e. is_OSError e \<or> is_ValueError e) (\<lambda>_. Ret fallback))"

section \<open>A shell in the VM\<close>

definition escape_quoted :: "string \<Rightarrow> string" where
  "escape_quoted s = concat (map (\<lambda>c. if c = CHR 0x5C \<or> c = CHR 0x22 then [CHR 0x5C, c] else [c]) s)"

definition ssh_options :: "string \<Rightarrow> string list" where
  "ssh_options private =
     [''-i'', path_child private ''id_ed25519'', ''-o'', ''IdentitiesOnly=yes'', ''-o'', ''BatchMode=yes'', ''-o'', ''StrictHostKeyChecking=yes'',
      ''-o'', ''UserKnownHostsFile='' @ [CHR 0x22] @ escape_quoted (path_child private ''known_hosts'') @ [CHR 0x22],
      ''-o'', ''HostKeyAlias=linuxhost-vm'', ''-o'', ''ConnectTimeout=5'', ''-o'', ''ServerAliveInterval=5'', ''-o'', ''ServerAliveCountMax=3'']"

text \<open>The command line that is executed, or the error; \<open>probe\<close> runs a command and gives its exit code and output.\<close>

definition vm_ssh :: "host_input \<Rightarrow> string outcome \<Rightarrow> (string list \<Rightarrow> (int \<times> string) outcome) \<Rightarrow> string list \<Rightarrow> string list outcome" where
  "vm_ssh hi leases probe args =
     bindO (vm_settings hi) (\<lambda>vs.
     bindO (vm_address vs leases) (\<lambda>addr.
       let options = ssh_options (vs_private vs); destination = ''root@'' @ addr in
       bindO (probe ([''/usr/bin/ssh'', ''-n''] @ options @ [destination, ''cat /sys/class/dmi/id/product_uuid''])) (\<lambda>(code, out).
         if code \<noteq> 0 then Exc (RuntimeError ''Guest identity connection failed'')
         else if map ascii_lower (strip_spaces out) \<noteq> vs_uuid vs then Exc (RuntimeError ''Refusing: address does not belong to the configured VM'')
         else Ret ([''ssh''] @ options @ [destination] @ args))))"

definition vm_ssh_main :: "host_input \<Rightarrow> string outcome \<Rightarrow> (string list \<Rightarrow> (int \<times> string) outcome) \<Rightarrow> string list \<Rightarrow> string list outcome" where
  "vm_ssh_main hi leases probe args =
     catchO (vm_ssh hi leases probe args)
       (\<lambda>e. is_OSError e \<or> is_ValueError e \<or> is_RuntimeError e \<or> is_SubprocessError e) (\<lambda>_. Exc (SystemExit 1))"

section \<open>Lemmas\<close>

text \<open>What every accepted configuration satisfies.\<close>

definition dotted_in :: "ipv4_network \<Rightarrow> string \<Rightarrow> bool" where
  "dotted_in net s \<longleftrightarrow> (case parse_ipv4 s of Some n \<Rightarrow> in_network n net | None \<Rightarrow> False)"

fun fallback_in :: "ipv4_network \<Rightarrow> fallback \<Rightarrow> bool" where
  "fallback_in net (FText s) = dotted_in net s"
| "fallback_in net (FInt i) = (0 \<le> i \<and> i < 2 ^ 32 \<and> in_network (nat i) net)"
| "fallback_in net (FBool b) = in_network (if b then 1 else 0) net"

lemma fallback_in_network: "IPv4Address v = Ret n \<Longrightarrow> fallback_of v = Ret f \<Longrightarrow> in_network n net \<Longrightarrow> fallback_in net f"
  by (cases v) (auto simp: address_error_def ipv4_of_int_def dotted_in_def split: option.splits if_splits)

lemma canonical_uuid_form: "canonical_uuid v = Ret u \<Longrightarrow> \<exists>s. v = JStr s \<and> uuid_valid s \<and> u = uuid_str (uuid_value s)"
  by (cases v) (auto split: if_splits)

lemma vm_settings_ok:
  "vm_settings hi = Ret vs \<Longrightarrow> absolute (vs_private vs) \<and> fallback_in (vs_subnet vs) (vs_fallback vs) \<and> (\<exists>n. vs_uuid vs = uuid_str n)"
  by (auto simp: vm_settings_def Let_def pathlib_str_absolute split: if_splits prod.splits dest!: canonical_uuid_form dest: fallback_in_network)

lemma lease_candidates_sound:
  "lease_candidates net found vs = Ret cs \<Longrightarrow> distinct found \<Longrightarrow> (\<forall>c \<in> set found. dotted_in net c) \<Longrightarrow>
   distinct cs \<and> (\<forall>c \<in> set cs. dotted_in net c) \<and>
   set cs = set found \<union> {format_ipv4 n | n v. v \<in> set vs \<and> parse_ipv4 v = Some n \<and> in_network n net}"
proof (induction vs arbitrary: found)
  case (Cons v vs)
  obtain n where n: "parse_ipv4 v = Some n" using Cons.prems(1) by (auto simp: address_error_def split: option.splits)
  have p: "parse_ipv4 (format_ipv4 n) = Some n" using n by (intro parse_format parse_ipv4_less)
  let ?f = "if in_network n net \<and> format_ipv4 n \<notin> set found then found @ [format_ipv4 n] else found"
  have r: "lease_candidates net ?f vs = Ret cs" using Cons.prems(1) n by simp
  have f: "distinct ?f" "\<forall>c \<in> set ?f. dotted_in net c" using Cons.prems(2,3) p by (auto simp: dotted_in_def)
  show ?case using Cons.IH [OF r f] n by auto
qed simp

lemma lease_candidates_raise: "may_raise is_ValueError (lease_candidates net found vs)"
  by (induction vs arbitrary: found) (auto simp: address_error_def split: option.splits)

text \<open>The single lease in the subnet, or none.\<close>

definition lone_lease :: "ipv4_network \<Rightarrow> string \<Rightarrow> string \<Rightarrow> bool" where
  "lone_lease net leases a \<longleftrightarrow>
     list_all (\<lambda>v. parse_ipv4 v \<noteq> None) (lease_values leases) \<and>
     {format_ipv4 n | n v. v \<in> set (lease_values leases) \<and> parse_ipv4 v = Some n \<and> in_network n net} = {a}"

lemma lease_candidates_parsed: "lease_candidates net found vs = Ret cs \<Longrightarrow> list_all (\<lambda>v. parse_ipv4 v \<noteq> None) vs"
  by (induction vs arbitrary: found) (auto simp: address_error_def split: option.splits)

lemma vm_address_returns:
  assumes r: "may_raise (\<lambda>e. is_OSError e \<or> is_ValueError e) leases"
  shows "\<exists>a. vm_address vs leases = Ret a \<and> (a = fallback_text (vs_fallback vs) \<or> (\<exists>t. leases = Ret t \<and> lone_lease (vs_subnet vs) t a))"
proof (cases leases)
  case (Ret t)
  show ?thesis
  proof (cases "lease_candidates (vs_subnet vs) [] (lease_values t)")
    case r: (Ret cs)
    have s: "set cs = {format_ipv4 n | n v. v \<in> set (lease_values t) \<and> parse_ipv4 v = Some n \<and> in_network n (vs_subnet vs)}"
      using lease_candidates_sound [OF r] by auto
    have "list_all (\<lambda>v. parse_ipv4 v \<noteq> None) (lease_values t)" using r by (rule lease_candidates_parsed)
    then have l: "cs = [c] \<Longrightarrow> lone_lease (vs_subnet vs) t c" for c unfolding lone_lease_def s [symmetric] by simp
    show ?thesis using r Ret l by (auto simp: vm_address_def Let_def split: list.splits)
  next
    case (Exc e)
    then show ?thesis using Ret lease_candidates_raise [of "vs_subnet vs" "[]" "lease_values t"]
      by (auto simp: vm_address_def)
  next
    case NoRet
    then show ?thesis using lease_candidates_raise [of "vs_subnet vs" "[]" "lease_values t"] by auto
  qed
qed (use r in \<open>auto simp: vm_address_def\<close>)

lemma lone_lease_in: "lone_lease net text a \<Longrightarrow> dotted_in net a"
proof -
  assume l: "lone_lease net text a"
  then obtain n v where "a = format_ipv4 n" "parse_ipv4 v = Some n" "in_network n net" unfolding lone_lease_def by blast
  then show ?thesis using parse_format parse_ipv4_less unfolding dotted_in_def by simp
qed

section \<open>Properties\<close>

text \<open>With accepted settings whose fallback address is text, the address the VM is looked for at is always a dotted address of the
  management subnet, whatever the lease file holds and also when it cannot be read: the configured fallback, or, if every lease
  parses, the only leased address of that subnet.\<close>

theorem vm_address_in_subnet:
  assumes "vm_settings hi = Ret vs" and "vs_fallback vs = FText s" and "may_raise (\<lambda>e. is_OSError e \<or> is_ValueError e) leases"
  shows "\<exists>a. vm_address vs leases = Ret a \<and> dotted_in (vs_subnet vs) a \<and>
    (a = s \<or> (\<exists>t. leases = Ret t \<and> lone_lease (vs_subnet vs) t a))"
  using vm_settings_ok [OF assms(1)] vm_address_returns [OF assms(3), of vs] assms(2) lone_lease_in by fastforce

definition example_host :: host_input where
  "example_host =
     \<lparr>hi_config = Some ''/etc/session.json'', hi_uid = 501, hi_config_status = Ret (0x8180, 501),
      hi_config_json = Ret (JDict [(''uuid'', JStr (uuid_str 0x6BA7B8109DAD11D180B400C04FD430C8)), (''privateDirectory'', JStr ''/Users/me//keys/''),
        (''managementSubnet'', JStr ''192.168.66.0/24''), (''fallbackAddress'', JStr ''192.168.66.2'')]),
      hi_private_status = (\<lambda>p. if p = ''/Users/me/keys'' then Ret (0x41C0, 501) else Exc (OSError 2 []))\<rparr>"

definition example_settings :: vm_setup where
  "example_settings = \<lparr>vs_uuid = uuid_str 0x6BA7B8109DAD11D180B400C04FD430C8, vs_private = ''/Users/me/keys'',
     vs_subnet = (3232252416, 24), vs_fallback = FText ''192.168.66.2''\<rparr>"

definition example_leases :: string where
  "example_leases = ''{'' @ [CHR 0x0A, CHR 0x09] @ ''ip_address=192.168.66.7'' @ [CHR 0x0A] @ ''}'' @ [CHR 0x0A]
     @ ''ip_address=10.0.0.5'' @ [CHR 0x0A]"

lemma example_settings_read: "vm_settings example_host = Ret example_settings"
proof -
  have u: "canonical_uuid (JStr (uuid_str 0x6BA7B8109DAD11D180B400C04FD430C8)) = Ret (uuid_str 0x6BA7B8109DAD11D180B400C04FD430C8)"
    by (simp add: uuid_str_valid uuid_value_str)
  have n: "IPv4Network (JStr ''192.168.66.0/24'') = Ret (3232252416, 24)"
    by (simp add: parse_ipv4_def parse_octet_def all_digits_def digit_def digits_val_def parse_prefix_def network_of_def)
  have a: "IPv4Address (JStr ''192.168.66.2'') = Ret 3232252418"
    by (simp add: parse_ipv4_def parse_octet_def all_digits_def digit_def digits_val_def)
  have p: "pathlib_str ''/Users/me//keys/'' = ''/Users/me/keys''" by (simp add: pathlib_str_def)
  show ?thesis
    by (simp add: vm_settings_def read_config_def example_host_def example_settings_def absolute_def is_regular_def is_directory_def
        dict_keys_def u n a p in_network_def del: canonical_uuid.simps IPv4Network.simps IPv4Address.simps)
qed

lemma example_address: "vm_address example_settings (Ret example_leases) = Ret ''192.168.66.7''"
proof -
  have v: "lease_values example_leases = [''192.168.66.7'', ''10.0.0.5'']"
    by (simp add: example_leases_def lease_values_def lease_line_def re_space_def ascii_space_def Let_def)
  have a: "IPv4Address (JStr ''192.168.66.7'') = Ret 3232252423" "IPv4Address (JStr ''10.0.0.5'') = Ret 167772165"
    by (simp_all add: parse_ipv4_def parse_octet_def all_digits_def digit_def digits_val_def)
  have f: "format_ipv4 3232252423 = ''192.168.66.7''" 
  proof -
    have "dec 192 = ''192''" "dec 168 = ''168''" "dec 66 = ''66''" "dec 7 = ''7''" by code_simp+
    then show ?thesis by (simp add: format_ipv4_def)
  qed
  show ?thesis
    by (simp add: vm_address_def v a f example_settings_def in_network_def del: IPv4Address.simps)
qed

theorem vm_address_in_subnet_witness:
  "\<exists>a. vm_address example_settings (Ret example_leases) = Ret a \<and> dotted_in (3232252416, 24) a \<and>
    (a = ''192.168.66.2'' \<or> (\<exists>t. Ret example_leases = Ret t \<and> lone_lease (3232252416, 24) t a))"
  using vm_address_in_subnet [OF example_settings_read, of "''192.168.66.2''" "Ret example_leases"]
  by (simp add: example_settings_def)


definition example_probe :: "string list \<Rightarrow> (int \<times> string) outcome" where
  "example_probe argv =
     (if last (butlast argv) = ''root@192.168.66.7'' then Ret (0, uuid_str 0x6BA7B8109DAD11D180B400C04FD430C8) else Ret (255, []))"


end
