(* ===== verification/Device_Probe.thy ===== *)
theory Device_Probe
  imports Pyvalue
begin

text \<open>
  \<^verbatim>\<open>guest/devices/probe-devices.py\<close>: the guest's kernel modules are loaded only in the VM, and on the network card, that the
  configuration names. Inputs are the configuration, the two files read from \<^verbatim>\<open>/sys\<close> and the result of each command.
\<close>

section \<open>Definitions\<close>

definition interface_char :: "char \<Rightarrow> bool" where
  "interface_char c \<longleftrightarrow>
     (let n = of_char c :: nat in 48 \<le> n \<and> n \<le> 57 \<or> 65 \<le> n \<and> n \<le> 90 \<or> 97 \<le> n \<and> n \<le> 122 \<or> n = 95 \<or> n = 46 \<or> n = 45)"

definition interface_name :: "string \<Rightarrow> bool" where
  "interface_name s \<longleftrightarrow> 1 \<le> length s \<and> length s \<le> 15 \<and> list_all interface_char s"

text \<open>\<^verbatim>\<open>uuid.UUID(v)\<close> as a number.\<close>

fun uuid_of :: "json \<Rightarrow> nat outcome" where
  "uuid_of (JStr s) = bindO (check_uuid (JStr s)) (\<lambda>_. Ret (uuid_value s))"
| "uuid_of v = bindO (check_uuid v) (\<lambda>_. Exc (AttributeError ''replace''))"

fun lower_text :: "json \<Rightarrow> string outcome" where
  "lower_text (JStr s) = Ret (map ascii_lower s)"
| "lower_text _ = Exc (AttributeError ''lower'')"

fun text_value :: "json \<Rightarrow> string outcome" where
  "text_value (JStr s) = Ret s"
| "text_value _ = Exc (TypeError ''expected string or bytes-like object'')"

fun camera_number :: "json \<Rightarrow> int outcome" where
  "camera_number (JInt i) = (if 0 \<le> i \<and> i \<le> 63 then Ret i else Exc (ValueError ''Invalid camera device number''))"
| "camera_number _ = Exc (ValueError ''Invalid camera device number'')"

definition probe_validate :: "json \<Rightarrow> string \<Rightarrow> string \<Rightarrow> (string \<times> int) outcome" where
  "probe_validate config dmi_uuid lower_mac =
     bindO (uuid_of (JStr (strip_spaces dmi_uuid))) (\<lambda>dmi.
     bindO (bindO (jitem config ''vmUUID'') uuid_of) (\<lambda>vm.
       if dmi \<noteq> vm then Exc (ValueError ''VM identity does not match the integration configuration'') else
     bindO (bindO (jitem config ''wifiInterface'') text_value) (\<lambda>interface.
       if \<not> interface_name interface then Exc (ValueError ''Invalid Wi-Fi transport interface'') else
     bindO (bindO (jitem config ''wifiMAC'') lower_text) (\<lambda>mac.
       if map ascii_lower (strip_spaces lower_mac) \<noteq> mac then Exc (ValueError ''Wi-Fi transport NIC identity does not match'') else
     bindO (case config of JDict c \<Rightarrow> Ret (if has_key c ''cameraVideoNumber'' then dict_get c ''cameraVideoNumber'' else JInt 10)
            | _ \<Rightarrow> Exc (AttributeError ''get'')) (\<lambda>number.
     bindO (camera_number number) (\<lambda>n. Ret (interface, n)))))))"

definition probe_commands :: "string \<Rightarrow> int \<Rightarrow> string list list" where
  "probe_commands interface number =
     [[''ip'', ''link'', ''set'', interface, ''up''],
      [''modprobe'', ''cfg80211''],
      [''modprobe'', ''linuxhost_wifi'', ''lowerdev='' @ interface],
      [''modprobe'', ''v4l2loopback'', ''video_nr='' @ dec_int number, ''card_label=LinuxHost-Camera'', ''exclusive_caps=1'']]"

text \<open>The commands run so far are the state; \<open>run\<close> is what each of them gives.\<close>

fun run_commands :: "(string list \<Rightarrow> unit outcome) \<Rightarrow> string list list \<Rightarrow> (string list list, unit) act" where
  "run_commands run [] = retA ()"
| "run_commands run (c # cs) = thenA (updA (\<lambda>log. log @ [c])) (thenA (liftA (run c)) (run_commands run cs))"

definition probe_main ::
    "json outcome \<Rightarrow> string outcome \<Rightarrow> (string \<Rightarrow> string outcome) \<Rightarrow> (string list \<Rightarrow> unit outcome) \<Rightarrow> (string list list, unit) act" where
  "probe_main config dmi address run =
     bindA (liftA (bindO config (\<lambda>c.
       bindO (bindO (jitem c ''wifiInterface'') text_value) (\<lambda>interface.
         if \<not> interface_name interface then Exc (ValueError ''Invalid interface name'') else
       bindO dmi (\<lambda>d. bindO (address interface) (\<lambda>a. probe_validate c d a))))))
     (\<lambda>(interface, number). run_commands run (probe_commands interface number))"

section \<open>Lemmas\<close>

lemma run_commands_log:
  assumes "run_commands run cs s = (t, r)"
  shows "\<exists>k \<le> length cs. t = s @ take k cs \<and> (\<forall>c \<in> set (take (k - 1) cs). run c = Ret ()) \<and> (r = Ret () \<longrightarrow> k = length cs)"
  using assms
proof (induction cs arbitrary: s)
  case (Cons c cs)
  consider (ran) "run c = Ret ()" "run_commands run cs (s @ [c]) = (t, r)" | (stopped) "t = s @ [c]" "r \<noteq> Ret ()"
    using Cons.prems by (cases "run c") (fastforce simp: thenA_def act_defs)+
  then show ?case
  proof cases
    case ran
    obtain k where k: "k \<le> length cs" "t = (s @ [c]) @ take k cs" "\<forall>x \<in> set (take (k - 1) cs). run x = Ret ()" "r = Ret () \<longrightarrow> k = length cs"
      using Cons.IH [OF ran(2)] by blast
    have "\<forall>x \<in> set (take (Suc k - 1) (c # cs)). run x = Ret ()" using k(3) ran(1) by (cases k) auto
    then show ?thesis using k by (intro exI [of _ "Suc k"]) simp
  next
    case stopped
    then show ?thesis by (intro exI [of _ 1]) simp
  qed
qed auto

lemma camera_number_range: "camera_number v = Ret n \<Longrightarrow> 0 \<le> n \<and> n \<le> 63"
  by (cases v) (auto split: if_splits)

lemma text_value_iff: "text_value v = Ret s \<longleftrightarrow> v = JStr s"
  by (cases v) auto

lemma probe_validated:
  assumes "probe_validate config dmi mac = Ret (i, n)"
  shows "\<exists>v w. jitem config ''vmUUID'' = Ret v \<and> (\<exists>u. uuid_of v = Ret u \<and> uuid_of (JStr (strip_spaces dmi)) = Ret u) \<and>
    jitem config ''wifiMAC'' = Ret w \<and> lower_text w = Ret (map ascii_lower (strip_spaces mac)) \<and>
    jitem config ''wifiInterface'' = Ret (JStr i) \<and> interface_name i \<and> 0 \<le> n \<and> n \<le> 63"
  using assms unfolding probe_validate_def
  by (auto simp: text_value_iff simp del: jitem.simps uuid_of.simps split: if_splits dest: camera_number_range)

section \<open>Properties\<close>

text \<open>C31: no command is run, and so no module is loaded, unless the machine has the configured identity and the named interface has the
  configured address; the interface name is then safe as a path component and as a module parameter and the camera number is in range.
  The commands are a beginning of the fixed sequence that ends at the first failure, and a successful run has run all of them.\<close>

theorem modules_only_in_configured_vm:
  assumes "probe_main config dmi address run [] = (sent, r)"
  shows "sent = [] \<and> r \<noteq> Ret () \<or>
    (\<exists>c d i n a k v w. config = Ret c \<and> dmi = Ret d \<and> address i = Ret a \<and>
      jitem c ''vmUUID'' = Ret v \<and> (\<exists>u. uuid_of v = Ret u \<and> uuid_of (JStr (strip_spaces d)) = Ret u) \<and>
      jitem c ''wifiMAC'' = Ret w \<and> lower_text w = Ret (map ascii_lower (strip_spaces a)) \<and>
      jitem c ''wifiInterface'' = Ret (JStr i) \<and> interface_name i \<and> 0 \<le> n \<and> n \<le> 63 \<and>
      sent = take k (probe_commands i n) \<and> (\<forall>x \<in> set (butlast sent). run x = Ret ()) \<and> (r = Ret () \<longrightarrow> sent = probe_commands i n))"
proof -
  let ?check = "bindO config (\<lambda>c. bindO (bindO (jitem c ''wifiInterface'') text_value) (\<lambda>interface.
         if \<not> interface_name interface then Exc (ValueError ''Invalid interface name'') else
       bindO dmi (\<lambda>d. bindO (address interface) (\<lambda>a. probe_validate c d a))))"
  show ?thesis
  proof (cases ?check)
    case (Ret q)
    obtain i n where q: "q = (i, n)" by (cases q)
    obtain c d j a where c: "config = Ret c" "dmi = Ret d" "jitem c ''wifiInterface'' = Ret (JStr j)" "address j = Ret a"
      "probe_validate c d a = Ret (i, n)"
      using Ret unfolding q by (auto simp: text_value_iff simp del: jitem.simps split: if_splits)
    have p: "run_commands run (probe_commands i n) [] = (sent, r)" using assms Ret unfolding probe_main_def q by (simp add: act_defs)
    obtain k where k: "k \<le> length (probe_commands i n)" "sent = take k (probe_commands i n)"
      "\<forall>x \<in> set (take (k - 1) (probe_commands i n)). run x = Ret ()" "r = Ret () \<longrightarrow> k = length (probe_commands i n)"
      using run_commands_log [OF p] by auto
    have b: "\<forall>x \<in> set (butlast sent). run x = Ret ()" using k(1,3) unfolding k(2) by (simp add: butlast_take)
    have ij: "i = j" using probe_validated [OF c(5)] c(3) by auto
    have e: "r = Ret () \<longrightarrow> sent = probe_commands i n" using k(2,4) by simp
    obtain v w where v: "jitem c ''vmUUID'' = Ret v" "\<exists>u. uuid_of v = Ret u \<and> uuid_of (JStr (strip_spaces d)) = Ret u"
      "jitem c ''wifiMAC'' = Ret w" "lower_text w = Ret (map ascii_lower (strip_spaces a))" "interface_name i" "0 \<le> n" "n \<le> 63"
      using probe_validated [OF c(5)] by (elim exE conjE) blast
    show ?thesis using c(1,2) c(3,4) [folded ij] v k(2) b e by blast
  qed (use assms in \<open>auto simp: probe_main_def act_defs\<close>)
qed

definition example_devices :: json where
  "example_devices = JDict [(''vmUUID'', JStr (uuid_str 0x6BA7B8109DAD11D180B400C04FD430C8)), (''wifiInterface'', JStr ''enp0s2''),
     (''wifiMAC'', JStr ''02:00:00:00:00:0A''), (''cameraVideoNumber'', JInt 10)]"

lemma example_probed:
  "probe_main (Ret example_devices) (Ret (uuid_str 0x6BA7B8109DAD11D180B400C04FD430C8)) (\<lambda>_. Ret ''02:00:00:00:00:0a'') (\<lambda>_. Ret ()) [] =
    (probe_commands ''enp0s2'' 10, Ret ())"
proof -
  have m: "strip_spaces ''02:00:00:00:00:0a'' = ''02:00:00:00:00:0a''" by (simp add: strip_spaces_def re_space_def ascii_space_def)
  have low: "ascii_lower (CHR ''a'') = CHR ''a''" "ascii_lower (CHR ''A'') = CHR ''a''"
    by code_simp+
  have "probe_validate example_devices (uuid_str 0x6BA7B8109DAD11D180B400C04FD430C8) ''02:00:00:00:00:0a'' = Ret (''enp0s2'', 10)"
    by (simp add: probe_validate_def example_devices_def uuid_str_plain uuid_str_valid uuid_value_str interface_name_def interface_char_def
        has_key_def m low)
  then show ?thesis
    by (simp add: probe_main_def probe_commands_def act_defs interface_name_def interface_char_def)
      (simp add: example_devices_def interface_name_def interface_char_def act_defs)
qed

theorem modules_only_in_configured_vm_witness:
  "\<exists>v w u. jitem example_devices ''vmUUID'' = Ret v \<and> uuid_of v = Ret u \<and>
    uuid_of (JStr (strip_spaces (uuid_str 0x6BA7B8109DAD11D180B400C04FD430C8))) = Ret u \<and>
    jitem example_devices ''wifiMAC'' = Ret w \<and> lower_text w = Ret (map ascii_lower (strip_spaces ''02:00:00:00:00:0a''))"
  using modules_only_in_configured_vm [OF example_probed] by (elim disjE exE conjE) (simp_all only: outcome.inject, blast+)

end
