(* ===== verification/Install_Plan.thy ===== *)
theory Install_Plan
  imports Session Vm_Session Device_Probe
begin

text \<open>
  \<^verbatim>\<open>tools/plan-installation.py\<close>: the private configuration of an installation, for the host and for the guest, generated from one
  description. The files written, in order, and the manifest are the state. Inputs are the description, the random values and the
  results of the file system. A JSON or property-list document stands for its text.
\<close>

section \<open>Validation\<close>

fun positive_int :: "json \<Rightarrow> bool" where
  "positive_int (JInt i) = (0 < i)"
| "positive_int _ = False"

definition lower_or_underscore :: "char \<Rightarrow> bool" where
  "lower_or_underscore c \<longleftrightarrow> (let n = of_char c :: nat in 97 \<le> n \<and> n \<le> 122 \<or> n = 95)"

definition account_char :: "char \<Rightarrow> bool" where
  "account_char c \<longleftrightarrow> lower_or_underscore c \<or> digit c \<or> c = CHR ''-''"

definition account_name :: "string \<Rightarrow> bool" where
  "account_name s \<longleftrightarrow> s \<noteq> [] \<and> length s \<le> 31 \<and> lower_or_underscore (hd s) \<and> list_all account_char (tl s)"

definition path_parts :: "string \<Rightarrow> string list" where
  "path_parts s = filter (\<lambda>p. p \<noteq> [] \<and> p \<noteq> ''.'') (split_on (CHR ''/'') s)"

definition plain_path :: "string \<Rightarrow> bool" where
  "plain_path s \<longleftrightarrow> absolute s \<and> ''..'' \<notin> set (path_parts s) \<and> list_all (\<lambda>c. 32 \<le> (of_char c :: nat) \<and> c \<noteq> CHR '','') s"

fun config_path :: "json \<Rightarrow> bool" where
  "config_path (JStr s) = plain_path s"
| "config_path _ = False"

definition require :: "bool \<Rightarrow> string \<Rightarrow> unit outcome" where
  "require ok message = (if ok then Ret () else Exc (ValueError message))"

definition private_blocks :: "ipv4_network list" where
  "private_blocks = [(10 * 2 ^ 24, 8), (172 * 2 ^ 24 + 16 * 2 ^ 16, 12), (192 * 2 ^ 24 + 168 * 2 ^ 16, 16)]"

definition validate_network :: "json \<Rightarrow> unit outcome" where
  "validate_network c =
     bindO (bindO (jitem c ''managementSubnet'') IPv4Network) (\<lambda>subnet.
     bindO (bindO (jitem c ''hostAddress'') IPv4Address) (\<lambda>host.
     bindO (bindO (jitem c ''fallbackAddress'') IPv4Address) (\<lambda>guest.
       require (snd subnet = 24 \<and> list_ex (subnet_of subnet) private_blocks \<and> in_network host subnet \<and> in_network guest subnet \<and>
           host = fst subnet + 1 \<and> guest = fst subnet + 2)
         ''Choose a private /24 with host .1 and initial guest fallback .2'')))"

fun each :: "('a \<Rightarrow> unit outcome) \<Rightarrow> 'a list \<Rightarrow> unit outcome" where
  "each f [] = Ret ()"
| "each f (x # xs) = bindO (f x) (\<lambda>_. each f xs)"

definition plan_validate :: "json \<Rightarrow> unit outcome" where
  "plan_validate c =
     bindO (each (\<lambda>name. bindO (jitem c name) (\<lambda>v. require (positive_int v) (name @ '' must be a positive integer'')))
       [''hostUID'', ''groupID'', ''guestUID'', ''memoryMiB'', ''cpus'']) (\<lambda>_.
     bindO (each (\<lambda>name. bindO (bindO (jitem c name) (matches account_name)) (\<lambda>ok. require ok (''Invalid account/group name: '' @ name)))
       [''hostUser'', ''group'', ''guestUser'']) (\<lambda>_.
     bindO (each (\<lambda>name. bindO (bindO (jitem c name) (matches interface_name)) (\<lambda>ok. require ok (''Invalid guest interface: '' @ name)))
       [''guestManagementInterface'', ''guestWifiInterface'']) (\<lambda>_.
     bindO (jitem c ''guestManagementInterface'') (\<lambda>m. bindO (jitem c ''guestWifiInterface'') (\<lambda>w.
     bindO (require (\<not> py_eq m w) ''The two transport interfaces must be distinct'') (\<lambda>_.
     bindO (each (\<lambda>name. bindO (jitem c name) (\<lambda>v. require (config_path v)
         (''Expected an absolute path without control characters or QEMU commas: '' @ name)))
       [''checkout'', ''privateDirectory'', ''hostPython'', ''hostHome'']) (\<lambda>_.
     bindO (validate_network c) (\<lambda>_.
     bindO (bindO (jitem c ''privateDirectory'') text_value) (\<lambda>private.
       require (length (private @ ''/runtime/host.sock.supervisor'') < 104) ''Private directory is too long for macOS Unix sockets'')))))))))"

section \<open>Text for the shell\<close>

definition shell_safe :: "char \<Rightarrow> bool" where
  "shell_safe c \<longleftrightarrow>
     (let n = of_char c :: nat in 48 \<le> n \<and> n \<le> 57 \<or> 65 \<le> n \<and> n \<le> 90 \<or> 97 \<le> n \<and> n \<le> 122) \<or> c \<in> set ''_@%+=:,./-''"

definition shlex_quote :: "string \<Rightarrow> string" where
  "shlex_quote s =
     (if s = [] then [CHR 0x27, CHR 0x27]
      else if list_all shell_safe s then s
      else [CHR 0x27] @ concat (map (\<lambda>c. if c = CHR 0x27 then [CHR 0x27, CHR 0x22, CHR 0x27, CHR 0x22, CHR 0x27] else [c]) s) @ [CHR 0x27])"

section \<open>The files\<close>

datatype document = Text string | Json json | Plist json

fun octal :: "nat \<Rightarrow> string" where
  "octal n = (if n < 8 then [char_of (48 + n)] else octal (n div 8) @ [char_of (48 + n mod 8)])"

declare octal.simps [simp del]

definition oct_text :: "nat \<Rightarrow> string" where
  "oct_text n = ''0o'' @ octal n"

record plan =
  pl_made :: bool
  pl_files :: "(string \<times> document \<times> nat option) list"
  pl_manifest :: "json list"

definition plan_new :: plan where
  "plan_new = \<lparr>pl_made = False, pl_files = [], pl_manifest = []\<rparr>"

text \<open>What the file system does: creating the plan's directory, and for each file creating its directory, writing it and setting its mode.\<close>

record plan_io =
  io_made :: "unit outcome"
  io_parent :: "string \<Rightarrow> unit outcome"
  io_write :: "string \<Rightarrow> unit outcome"
  io_chmod :: "string \<Rightarrow> unit outcome"

text \<open>A file has the mode of the process's mask until its own is set.\<close>

definition put_file :: "plan_io \<Rightarrow> string \<Rightarrow> document \<Rightarrow> nat \<Rightarrow> (plan, unit) act" where
  "put_file io relative data mode =
     thenA (liftA (io_write io relative))
     (thenA (updA (\<lambda>p. p\<lparr>pl_files := pl_files p @ [(relative, data, None)]\<rparr>))
     (thenA (liftA (io_chmod io relative))
       (updA (\<lambda>p. p\<lparr>pl_files := butlast (pl_files p) @ [(relative, data, Some mode)]\<rparr>))))"

definition plan_write :: "plan_io \<Rightarrow> string \<Rightarrow> document \<Rightarrow> string \<Rightarrow> nat \<Rightarrow> string \<Rightarrow> (plan, unit) act" where
  "plan_write io relative data target mode owner =
     thenA (liftA (io_parent io relative))
     (thenA (put_file io relative data mode)
       (updA (\<lambda>p. p\<lparr>pl_manifest := pl_manifest p @
         [JDict [(''file'', JStr relative), (''target'', JStr target), (''mode'', JStr (oct_text mode)), (''owner'', JStr owner)]]\<rparr>)))"

section \<open>What is generated\<close>

text \<open>The random values, in the order they are drawn: the token, the identity, the addresses' bytes and the disk's serial number.\<close>

record plan_random =
  rn_token :: bytes
  rn_uuid :: nat
  rn_macs :: "bytes list"
  rn_serial :: bytes

definition mac_text :: "bytes \<Rightarrow> string" where
  "mac_text bs = ''02:'' @ join '':'' (map (\<lambda>b. to_hex [b]) bs)"

fun other_mac :: "string \<Rightarrow> bytes list \<Rightarrow> string outcome" where
  "other_mac m [] = NoRet"
| "other_mac m (b # bs) = (if m = mac_text b then other_mac m bs else Ret (mac_text b))"

fun draw_macs :: "bytes list \<Rightarrow> (string \<times> string) outcome" where
  "draw_macs [] = NoRet"
| "draw_macs (b # bs) = bindO (other_mac (mac_text b) bs) (\<lambda>m. Ret (mac_text b, m))"

text \<open>The local names of \<^verbatim>\<open>generate\<close>; values only copied into documents stay as they are.\<close>

record plan_names =
  lo_uid :: int
  lo_base :: string
  lo_checkout :: string
  lo_token :: string
  lo_identity :: string
  lo_macs :: "string \<times> string"
  lo_serial :: string
  lo_user :: string
  lo_group :: string
  lo_python :: string
  lo_home :: string
  lo_management :: string
  lo_wifi :: string
  lo_config :: dict

fun int_value :: "json \<Rightarrow> int outcome" where
  "int_value (JInt i) = Ret i"
| "int_value _ = Exc (TypeError ''expected int'')"

definition plan_locals :: "json \<Rightarrow> plan_random \<Rightarrow> plan_names outcome" where
  "plan_locals c rn =
     bindO (bindO (jitem c ''hostUID'') int_value) (\<lambda>uid.
     bindO (bindO (jitem c ''privateDirectory'') text_value) (\<lambda>base.
     bindO (bindO (jitem c ''checkout'') text_value) (\<lambda>checkout.
     bindO (draw_macs (rn_macs rn)) (\<lambda>macs.
     bindO (bindO (jitem c ''hostUser'') text_value) (\<lambda>user.
     bindO (bindO (jitem c ''group'') text_value) (\<lambda>group.
     bindO (bindO (jitem c ''hostPython'') text_value) (\<lambda>python.
     bindO (bindO (jitem c ''hostHome'') text_value) (\<lambda>home.
     bindO (bindO (jitem c ''guestManagementInterface'') text_value) (\<lambda>management.
     bindO (bindO (jitem c ''guestWifiInterface'') text_value) (\<lambda>wifi.
     bindO (case c of JDict d \<Rightarrow> Ret d | _ \<Rightarrow> Exc (TypeError ''not subscriptable by str'')) (\<lambda>d.
       Ret \<lparr>lo_uid = uid, lo_base = pathlib_str base, lo_checkout = pathlib_str checkout, lo_token = to_hex (rn_token rn),
         lo_identity = uuid_str (rn_uuid rn), lo_macs = macs, lo_serial = ''ashacky-'' @ to_hex (rn_serial rn), lo_user = user,
         lo_group = group, lo_python = python, lo_home = pathlib_str home, lo_management = management, lo_wifi = wifi, lo_config = d\<rparr>)))))))))))"

definition lo_owner :: "plan_names \<Rightarrow> string" where
  "lo_owner l = lo_user l @ '':'' @ lo_group l"

definition lo_app :: "plan_names \<Rightarrow> string" where
  "lo_app l = path_child (lo_checkout l) ''build/host/Ashacky.app/Contents''"

definition lo_root :: "plan_names \<Rightarrow> string" where
  "lo_root l = ''/Library/PrivilegedHelperTools/Ashacky-'' @ dec_int (lo_uid l)"

definition lo_runtime :: "plan_names \<Rightarrow> string" where
  "lo_runtime l = ''/var/run/ashacky-'' @ dec_int (lo_uid l)"

definition lo_policy :: "plan_names \<Rightarrow> string" where
  "lo_policy l = ''/Library/Application Support/Ashacky/'' @ dec_int (lo_uid l) @ ''/power-policy.json''"

definition private_path :: "plan_names \<Rightarrow> string \<Rightarrow> string" where
  "private_path l name = path_child (lo_base l) name"

definition root_path :: "plan_names \<Rightarrow> string \<Rightarrow> string" where
  "root_path l name = lo_root l @ ''/'' @ name"

definition runtime_path :: "plan_names \<Rightarrow> string \<Rightarrow> string" where
  "runtime_path l name = lo_runtime l @ ''/'' @ name"

definition given :: "plan_names \<Rightarrow> string \<Rightarrow> json" where
  "given l name = dict_get (lo_config l) name"

definition plan_env :: "plan_names \<Rightarrow> dict" where
  "plan_env l = [(''LINUXHOST_CONTROL_CONFIG'', JStr (private_path l ''control.json''))]"

definition plan_control :: "plan_names \<Rightarrow> dict" where
  "plan_control l =
     [(''socket'', JStr (private_path l ''runtime/host.sock'')), (''token'', JStr (lo_token l)), (''powerEnabled'', JBool False),
      (''fido2Enabled'', JBool False), (''powerSocket'', JStr (runtime_path l ''power/power.sock''))]"

definition plan_vm :: "plan_names \<Rightarrow> dict" where
  "plan_vm l =
     [(''userID'', JInt (lo_uid l)), (''uuid'', JStr (lo_identity l)), (''diskSerial'', JStr (lo_serial l)), (''name'', JStr ''Ashacky''),
      (''cpus'', given l ''cpus''), (''memory'', given l ''memoryMiB''), (''appContents'', JStr (lo_app l)),
      (''runtime'', JStr (private_path l ''runtime'')), (''control'', JStr (private_path l ''control.json'')),
      (''disk'', JStr (private_path l ''guest.qcow2'')), (''vars'', JStr (private_path l ''vars.qcow2'')),
      (''shared'', JStr (private_path l ''shared'')), (''macs'', JList [JStr (fst (lo_macs l)), JStr (snd (lo_macs l))]),
      (''networks'', JList [JStr (runtime_path l ''network/shared.sock''), JStr (runtime_path l ''network/wifi.sock'')]),
      (''usbSocket'', JStr (runtime_path l ''usb/redirect.sock'')), (''videoBindAddress'', given l ''hostAddress'')]"

definition plan_transport :: "plan_names \<Rightarrow> dict" where
  "plan_transport l =
     [(''uuid'', JStr (lo_identity l)), (''privateDirectory'', JStr (lo_base l)), (''managementSubnet'', given l ''managementSubnet''),
      (''fallbackAddress'', given l ''fallbackAddress'')]"

definition plan_devices :: "plan_names \<Rightarrow> dict" where
  "plan_devices l =
     [(''vmUUID'', JStr (lo_identity l)), (''wifiInterface'', given l ''guestWifiInterface''), (''wifiMAC'', JStr (snd (lo_macs l))),
      (''cameraVideoNumber'', JInt 10)]"

section \<open>Launch jobs and scripts\<close>

record plan_item =
  it_relative :: string
  it_data :: document
  it_target :: string
  it_mode :: nat
  it_owner :: string

definition js_item :: "string \<Rightarrow> dict \<Rightarrow> string \<Rightarrow> string \<Rightarrow> plan_item" where
  "js_item relative v target owner = \<lparr>it_relative = relative, it_data = Json (JDict v), it_target = target, it_mode = 384, it_owner = owner\<rparr>"

definition job_item :: "plan_names \<Rightarrow> string \<Rightarrow> string list \<Rightarrow> bool \<Rightarrow> bool \<Rightarrow> dict \<Rightarrow> plan_item" where
  "job_item l name arguments system keep extra =
     (let label = ''local.ashacky.'' @ dec_int (lo_uid l) @ ''.'' @ name;
          log = (if system then ''/var/log/ashacky-'' @ dec_int (lo_uid l) @ ''-'' @ name @ ''.log''
                 else private_path l (''logs/'' @ name @ ''.log''));
          v = [(''Label'', JStr label), (''ProgramArguments'', JList (map JStr arguments)), (''RunAtLoad'', JBool True),
               (''ThrottleInterval'', JInt 10), (''Umask'', JInt 63), (''AssociatedBundleIdentifiers'', JList [JStr ''local.ashacky.host''])]
             @ (if keep then [(''KeepAlive'', JBool True)] else [])
             @ (if system then [] else [(''EnvironmentVariables'', JDict (plan_env l)), (''LimitLoadToSessionType'', JStr ''Aqua'')])
             @ [(''StandardOutPath'', JStr log), (''StandardErrorPath'', JStr log)] @ extra;
          category = (if system then ''LaunchDaemons'' else ''LaunchAgents'') in
      \<lparr>it_relative = ''host/'' @ category @ ''/'' @ label @ ''.plist'', it_data = Plist (JDict v),
       it_target = (if system then ''/Library'' else path_child (lo_home l) ''Library'') @ ''/'' @ category @ ''/'' @ label @ ''.plist'',
       it_mode = 420, it_owner = (if system then ''root:wheel'' else lo_owner l)\<rparr>)"

definition text_lines :: "string list \<Rightarrow> string" where
  "text_lines ls = concat (map (\<lambda>l. l @ [CHR 0x0A]) ls)"

definition dquoted :: "string \<Rightarrow> string" where
  "dquoted s = [CHR 0x22] @ s @ [CHR 0x22]"

definition service_script :: "plan_names \<Rightarrow> string" where
  "service_script l = text_lines
     [''#!/bin/sh'', ''set -eu'',
      ''test ! -L '' @ shlex_quote (lo_runtime l),
      ''/usr/bin/install -d -o root -g '' @ shlex_quote (lo_group l) @ '' -m 750 '' @ shlex_quote (lo_runtime l),
      ''case '' @ dquoted ''${1-}'' @ '' in'',
      '' network-shared) exec '' @ shlex_quote (root_path l ''network.sh'') @ '' shared ;;'',
      '' network-wifi) exec '' @ shlex_quote (root_path l ''network.sh'') @ '' wifi ;;'',
      '' usb) exec '' @ shlex_quote (root_path l ''linuxhost-usb-host'') @ '' ;;'',
      '' power) exec '' @ shlex_quote (root_path l ''LinuxHostPower'') @ '' ;;'',
      '' *) exit 2 ;;'', ''esac'']"

text \<open>\<open>host\<close> is \<^verbatim>\<open>str(c['hostAddress'])\<close>.\<close>

definition network_script :: "plan_names \<Rightarrow> string \<Rightarrow> string" where
  "network_script l host = text_lines
     [''#!/bin/sh'', ''set -eu'',
      ''/usr/bin/install -d -o root -g '' @ shlex_quote (lo_group l) @ '' -m 750 '' @ shlex_quote (runtime_path l ''network''),
      ''case '' @ dquoted ''$1'' @ '' in'',
      '' shared) set -- --vmnet-mode=shared --vmnet-gateway='' @ shlex_quote host @ '' --vmnet-mask=255.255.255.0 ''
        @ shlex_quote (runtime_path l ''network/shared.sock'') @ '' ;;'',
      '' wifi) interface=$('' @ shlex_quote (root_path l ''wifi-interface'') @ ''); set -- --vmnet-mode=bridged ''
        @ dquoted ''--vmnet-interface=$interface'' @ '' '' @ shlex_quote (runtime_path l ''network/wifi.sock'') @ '' ;;'',
      '' *) exit 2 ;;'', ''esac'',
      ''exec '' @ shlex_quote (root_path l ''socket_vmnet'') @ '' --socket-group='' @ shlex_quote (lo_group l) @ '' '' @ dquoted ''$@'']"

section \<open>The plan\<close>

definition host_items :: "plan_names \<Rightarrow> plan_item list" where
  "host_items l =
     [js_item ''host/private/vm.json'' (plan_vm l) (private_path l ''vm.json'') (lo_owner l),
      js_item ''host/private/control.json'' (plan_control l) (private_path l ''control.json'') (lo_owner l),
      js_item ''host/private/transport.json'' (plan_transport l) (private_path l ''transport.json'') (lo_owner l),
      js_item ''host/root/power-policy.json''
        [(''userID'', JInt (lo_uid l)), (''enabled'', JBool False), (''allowOtherSessions'', JBool False)] (lo_policy l) ''root:wheel'',
      js_item ''helper-build.json''
        [(''userID'', JInt (lo_uid l)), (''groupID'', given l ''groupID''), (''usbRuntime'', JStr (runtime_path l ''usb'')),
         (''powerRuntime'', JStr (runtime_path l ''power'')), (''powerPolicy'', JStr (lo_policy l)),
         (''powerClients'', JList [JStr (lo_app l @ ''/MacOS/Ashacky'')])] ''build input only'' (lo_owner l),
      job_item l ''session'' [lo_python l, path_child (lo_checkout l) ''host/session/session.py'', ''--config'', private_path l ''vm.json'']
        False False [(''ProcessType'', JStr ''Interactive'')],
      job_item l ''network-shared'' [root_path l ''service.sh'', ''network-shared''] True True [],
      job_item l ''network-wifi'' [root_path l ''service.sh'', ''network-wifi''] True True [],
      job_item l ''usb'' [root_path l ''service.sh'', ''usb''] True True [],
      job_item l ''power'' [root_path l ''service.sh'', ''power''] True True [],
      \<lparr>it_relative = ''host/root/service.sh'', it_data = Text (service_script l), it_target = root_path l ''service.sh'',
       it_mode = 493, it_owner = ''root:wheel''\<rparr>]"

definition script_item :: "plan_names \<Rightarrow> string \<Rightarrow> plan_item" where
  "script_item l host =
     \<lparr>it_relative = ''host/root/network.sh'', it_data = Text (network_script l host), it_target = root_path l ''network.sh'',
      it_mode = 493, it_owner = ''root:wheel''\<rparr>"

definition guest_json_items :: "plan_names \<Rightarrow> plan_item list" where
  "guest_json_items l =
     [js_item ''guest/etc/linuxhost.json''
        [(''userID'', given l ''guestUID''), (''token'', JStr (lo_token l)), (''hostSocket'', JStr ''/run/ashacky-control/host.sock'')]
        ''/etc/linuxhost.json'' ''root:root'',
      js_item ''guest/etc/ashacky/devices.json'' (plan_devices l) ''/etc/ashacky/devices.json'' ''root:root'']"

definition text_item :: "string \<Rightarrow> string \<Rightarrow> plan_item" where
  "text_item path s = \<lparr>it_relative = ''guest/'' @ path, it_data = Text s, it_target = ''/'' @ path, it_mode = 420, it_owner = ''root:root''\<rparr>"

definition guest_text_items :: "plan_names \<Rightarrow> string \<Rightarrow> plan_item list" where
  "guest_text_items l host =
     [text_item ''etc/ashacky/video.env'' (text_lines [''LH_VIDEO_H264_HOST='' @ host @ '':5557'', ''LH_VIDEO_VP9_HOST='' @ host]),
      text_item ''etc/NetworkManager/conf.d/90-ashacky-transport.conf''
        (text_lines [''[keyfile]'', ''unmanaged-devices='' @ join '';'' [''interface-name:'' @ lo_management l, ''interface-name:'' @ lo_wifi l]]),
      text_item ''etc/systemd/network/20-ashacky-management.network''
        (text_lines [''[Match]'', ''MACAddress='' @ fst (lo_macs l), [], ''[Network]'', ''DHCP=ipv4'', ''IPv6AcceptRA=no'', [],
           ''[DHCPv4]'', ''RouteMetric=100'']),
      js_item ''identity.json''
        [(''uuid'', JStr (lo_identity l)), (''macs'', JList [JStr (fst (lo_macs l)), JStr (snd (lo_macs l))]),
         (''guestUser'', given l ''guestUser''), (''guestUID'', given l ''guestUID''), (''rootDirectory'', JStr (lo_root l)),
         (''privateDirectory'', JStr (lo_base l))] ''review only'' (lo_owner l)]"

definition write_item :: "plan_io \<Rightarrow> plan_item \<Rightarrow> (plan, unit) act" where
  "write_item io it = plan_write io (it_relative it) (it_data it) (it_target it) (it_mode it) (it_owner it)"

definition write_plan :: "plan_io \<Rightarrow> plan_names \<Rightarrow> (plan, unit) act" where
  "write_plan io l =
     thenA (forA (write_item io) (host_items l))
     (bindA (liftA (bindO (fallback_of (given l ''hostAddress'')) (\<lambda>h. Ret (fallback_text h)))) (\<lambda>host.
       thenA (write_item io (script_item l host))
       (thenA (forA (write_item io) (guest_json_items l))
       (bindA (liftA (text_value (given l ''hostAddress''))) (\<lambda>host.
         thenA (forA (write_item io) (guest_text_items l host))
         (bindA (getA pl_manifest) (\<lambda>entries. put_file io ''manifest.json'' (Json (JList entries)) 384)))))))"

definition plan_generate :: "plan_io \<Rightarrow> json \<Rightarrow> plan_random \<Rightarrow> (plan, unit) act" where
  "plan_generate io c rn =
     thenA (liftA (plan_validate c))
     (thenA (liftA (io_made io))
     (thenA (updA (\<lambda>p. p\<lparr>pl_made := True\<rparr>))
     (bindA (liftA (plan_locals c rn)) (write_plan io))))"

definition plan_name_char :: "char \<Rightarrow> bool" where
  "plan_name_char c \<longleftrightarrow> interface_char c \<and> c \<noteq> CHR ''.''"

definition plan_main :: "plan_io \<Rightarrow> string \<Rightarrow> json outcome \<Rightarrow> plan_random \<Rightarrow> (plan, unit) act" where
  "plan_main io name config rn =
     (if name = [] \<or> \<not> list_all plan_name_char name then excA (SystemExit 2)
      else bindA (liftA config) (\<lambda>c. plan_generate io c rn))"

section \<open>Lemmas\<close>

lemma require_Ret [simp]: "require b m = Ret u \<longleftrightarrow> b"
  by (simp add: require_def)

lemma matches_Ret: "matches p v = Ret True \<longleftrightarrow> (\<exists>s. v = JStr s \<and> p s)"
  by (cases v) auto

declare text_value_iff [simp]

lemma config_path_iff: "config_path v \<longleftrightarrow> (\<exists>s. v = JStr s \<and> plain_path s)"
  by (cases v) auto

lemma positive_int_iff: "positive_int v \<longleftrightarrow> (\<exists>i. v = JInt i \<and> 0 < i)"
  by (cases v) auto

lemma jitem_dict: "jitem c k = Ret v \<Longrightarrow> \<exists>d. c = JDict d"
  by (cases c) auto

lemma jitem_get: "jitem (JDict d) k = Ret v \<Longrightarrow> dict_get d k = v"
  by (auto simp: dict_get_def split: option.splits)

definition plan_facts :: "dict \<Rightarrow> bool" where
  "plan_facts d \<longleftrightarrow>
     list_all (\<lambda>k. \<exists>i > 0. dict_get d k = JInt i) [''hostUID'', ''groupID'', ''guestUID'', ''memoryMiB'', ''cpus''] \<and>
     list_all (\<lambda>k. \<exists>s. dict_get d k = JStr s \<and> account_name s) [''hostUser'', ''group'', ''guestUser''] \<and>
     list_all (\<lambda>k. \<exists>s. dict_get d k = JStr s \<and> interface_name s) [''guestManagementInterface'', ''guestWifiInterface''] \<and>
     dict_get d ''guestManagementInterface'' \<noteq> dict_get d ''guestWifiInterface'' \<and>
     list_all (\<lambda>k. \<exists>s. dict_get d k = JStr s \<and> plain_path s) [''checkout'', ''privateDirectory'', ''hostPython'', ''hostHome''] \<and>
     (\<exists>n. IPv4Network (dict_get d ''managementSubnet'') = Ret (n, 24) \<and> in_network (n + 1) (n, 24) \<and> in_network (n + 2) (n, 24) \<and>
       IPv4Address (dict_get d ''hostAddress'') = Ret (n + 1) \<and> IPv4Address (dict_get d ''fallbackAddress'') = Ret (n + 2)) \<and>
     (\<exists>s. dict_get d ''privateDirectory'' = JStr s \<and> length s + 29 < 104)"

lemma each_Ret: "each f xs = Ret u \<longleftrightarrow> list_all (\<lambda>x. f x = Ret ()) xs"
  by (induction xs) auto

lemma each_items:
  "each (\<lambda>name. bindO (jitem (JDict d) name) (\<lambda>v. require (P v) (m name))) ks = Ret u \<Longrightarrow> list_all (\<lambda>k. P (dict_get d k)) ks"
  unfolding each_Ret list_all_iff bindO_eq_Ret require_Ret by (metis jitem_get)

lemma each_matches:
  "each (\<lambda>name. bindO (bindO (jitem (JDict d) name) (matches P)) (\<lambda>ok. require ok (m name))) ks = Ret u \<Longrightarrow>
   list_all (\<lambda>k. \<exists>s. dict_get d k = JStr s \<and> P s) ks"
  unfolding each_Ret list_all_iff bindO_eq_Ret require_Ret
proof (intro ballI)
  fix k
  assume all: "\<forall>k \<in> set ks. \<exists>ok. (\<exists>v. jitem (JDict d) k = Ret v \<and> matches P v = Ret ok) \<and> ok" and k: "k \<in> set ks"
  obtain v where v: "jitem (JDict d) k = Ret v" "matches P v = Ret True" using bspec [OF all k] by (elim exE conjE) simp
  show "\<exists>s. dict_get d k = JStr s \<and> P s" using jitem_get [OF v(1)] v(2) unfolding matches_Ret by simp
qed

lemma validate_network_facts:
  assumes "validate_network (JDict d) = Ret u"
  shows "\<exists>n. IPv4Network (dict_get d ''managementSubnet'') = Ret (n, 24) \<and> in_network (n + 1) (n, 24) \<and> in_network (n + 2) (n, 24) \<and>
       IPv4Address (dict_get d ''hostAddress'') = Ret (n + 1) \<and> IPv4Address (dict_get d ''fallbackAddress'') = Ret (n + 2)"
proof -
  obtain s h g net a b where i: "jitem (JDict d) ''managementSubnet'' = Ret s" "IPv4Network s = Ret net"
    "jitem (JDict d) ''hostAddress'' = Ret h" "IPv4Address h = Ret a"
    "jitem (JDict d) ''fallbackAddress'' = Ret g" "IPv4Address g = Ret b"
    and f: "snd net = 24" "in_network a net" "in_network b net" "a = fst net + 1" "b = fst net + 2"
    using assms unfolding validate_network_def bindO_eq_Ret require_Ret by (elim exE conjE) blast
  show ?thesis
    using i f jitem_get [OF i(1)] jitem_get [OF i(3)] jitem_get [OF i(5)] by (intro exI [of _ "fst net"]) (metis prod.collapse)
qed

lemma plan_validated:
  assumes "plan_validate c = Ret u"
  shows "\<exists>d. c = JDict d \<and> plan_facts d"
proof -
  obtain m w s u1 u2 u3 u4 u5 where v:
    "each (\<lambda>name. bindO (jitem c name) (\<lambda>v. require (positive_int v) (name @ '' must be a positive integer'')))
       [''hostUID'', ''groupID'', ''guestUID'', ''memoryMiB'', ''cpus''] = Ret u1"
    "each (\<lambda>name. bindO (bindO (jitem c name) (matches account_name)) (\<lambda>ok. require ok (''Invalid account/group name: '' @ name)))
       [''hostUser'', ''group'', ''guestUser''] = Ret u2"
    "each (\<lambda>name. bindO (bindO (jitem c name) (matches interface_name)) (\<lambda>ok. require ok (''Invalid guest interface: '' @ name)))
       [''guestManagementInterface'', ''guestWifiInterface''] = Ret u3"
    "jitem c ''guestManagementInterface'' = Ret m" "jitem c ''guestWifiInterface'' = Ret w" "\<not> py_eq m w"
    "each (\<lambda>name. bindO (jitem c name) (\<lambda>v. require (config_path v)
         (''Expected an absolute path without control characters or QEMU commas: '' @ name)))
       [''checkout'', ''privateDirectory'', ''hostPython'', ''hostHome''] = Ret u4"
    "validate_network c = Ret u5" "jitem c ''privateDirectory'' = Ret (JStr s)" "length (s @ ''/runtime/host.sock.supervisor'') < 104"
    using assms unfolding plan_validate_def bindO_eq_Ret require_Ret text_value_iff by (elim exE conjE) (rule that; (assumption | simp only:))
  obtain d where d: "c = JDict d" using jitem_dict [OF v(4)] by (elim exE)
  note v = v [unfolded d]
  have "m \<noteq> w" using v(6) each_matches [OF v(3)] jitem_get [OF v(4)] by auto
  then have "plan_facts d"
    unfolding plan_facts_def
    using each_items [OF v(1)] each_matches [OF v(2)] each_matches [OF v(3)] jitem_get [OF v(4)] jitem_get [OF v(5)] each_items [OF v(7)]
      validate_network_facts [OF v(8)] jitem_get [OF v(9)] v(10)
    by (simp add: positive_int_iff config_path_iff) blast
  then show ?thesis using d by blast
qed

definition item_file :: "plan_item \<Rightarrow> string \<times> document \<times> nat option" where
  "item_file it = (it_relative it, it_data it, Some (it_mode it))"

definition item_entry :: "plan_item \<Rightarrow> json" where
  "item_entry it = JDict [(''file'', JStr (it_relative it)), (''target'', JStr (it_target it)), (''mode'', JStr (oct_text (it_mode it))),
     (''owner'', JStr (it_owner it))]"

definition with_items :: "plan_item list \<Rightarrow> plan \<Rightarrow> plan" where
  "with_items its p = p\<lparr>pl_files := pl_files p @ map item_file its, pl_manifest := pl_manifest p @ map item_entry its\<rparr>"

lemma with_items_fields [simp]:
  "pl_made (with_items its p) = pl_made p"
  "pl_files (with_items its p) = pl_files p @ map item_file its"
  "pl_manifest (with_items its p) = pl_manifest p @ map item_entry its"
  by (simp_all add: with_items_def)

lemma with_items_nil [simp]: "with_items [] p = p"
  by (simp add: with_items_def)

lemma with_items_append: "with_items bs (with_items as p) = with_items (as @ bs) p"
  by (simp add: with_items_def)

definition io_good :: "plan_io \<Rightarrow> string \<Rightarrow> bool" where
  "io_good io r \<longleftrightarrow> io_parent io r = Ret () \<and> io_write io r = Ret () \<and> io_chmod io r = Ret ()"

lemma write_item_Ret: "write_item io it p = (q, Ret u) \<longleftrightarrow> io_good io (it_relative it) \<and> q = with_items [it] p"
  by (auto simp: write_item_def plan_write_def put_file_def io_good_def with_items_def item_file_def item_entry_def thenA_eq_Ret)

lemma write_items_Ret: "forA (write_item io) its p = (q, Ret u) \<longleftrightarrow> (\<forall>it \<in> set its. io_good io (it_relative it)) \<and> q = with_items its p"
proof (induction its arbitrary: p)
  case (Cons it its)
  show ?case unfolding forA.simps thenA_eq_Ret write_item_Ret Cons using with_items_append [of its "[it]" p] by auto
qed auto

definition plan_items :: "plan_names \<Rightarrow> string \<Rightarrow> plan_item list" where
  "plan_items l host = host_items l @ [script_item l host] @ guest_json_items l @ guest_text_items l host"

definition plan_file :: "plan_names \<Rightarrow> string \<Rightarrow> string \<times> document \<times> nat option" where
  "plan_file l host = (''manifest.json'', Json (JList (map item_entry (plan_items l host))), Some 384)"

lemma write_plan_Ret:
  "write_plan io l p = (q, Ret u) \<longleftrightarrow>
     (\<exists>host. given l ''hostAddress'' = JStr host \<and> (\<forall>it \<in> set (plan_items l host). io_good io (it_relative it)) \<and>
       io_write io ''manifest.json'' = Ret () \<and> io_chmod io ''manifest.json'' = Ret () \<and>
       q = (with_items (plan_items l host) p)\<lparr>pl_files := pl_files p @ map item_file (plan_items l host) @
         [(''manifest.json'', Json (JList (pl_manifest p @ map item_entry (plan_items l host))), Some 384)]\<rparr>)"
  (is "?L = ?R")
proof -
  have "?L \<longleftrightarrow> (\<exists>host. given l ''hostAddress'' = JStr host \<and> (\<forall>it \<in> set (host_items l). io_good io (it_relative it)) \<and>
      io_good io (it_relative (script_item l host)) \<and> (\<forall>it \<in> set (guest_json_items l). io_good io (it_relative it)) \<and>
      (\<forall>it \<in> set (guest_text_items l host). io_good io (it_relative it)) \<and>
      put_file io ''manifest.json'' (Json (JList (pl_manifest p @ map item_entry (plan_items l host)))) 384 (with_items (plan_items l host) p) = (q, Ret u))"
    unfolding write_plan_def thenA_eq_Ret write_items_Ret bindA_eq_Ret liftA_eq_Ret write_item_Ret
    by (auto simp: with_items_append plan_items_def getA_def)
  also have "\<dots> \<longleftrightarrow> ?R"
    by (auto simp: plan_items_def put_file_def thenA_eq_Ret)
  finally show ?thesis .
qed

lemma plan_locals_facts:
  assumes "plan_locals (JDict d) rn = Ret l"
  shows "lo_config l = d" "lo_identity l = uuid_str (rn_uuid rn)" "lo_serial l = ''ashacky-'' @ to_hex (rn_serial rn)"
    "draw_macs (rn_macs rn) = Ret (lo_macs l)" "lo_token l = to_hex (rn_token rn)" "dict_get d ''hostUID'' = JInt (lo_uid l)"
    "dict_get d ''guestWifiInterface'' = JStr (lo_wifi l)"
    "\<exists>s. dict_get d ''privateDirectory'' = JStr s \<and> lo_base l = pathlib_str s" "\<exists>s. dict_get d ''checkout'' = JStr s \<and> lo_checkout l = pathlib_str s"
proof -
  have iv: "int_value v = Ret i \<Longrightarrow> v = JInt i" for v i by (cases v) auto
  obtain uid base checkout macs user group python home management wifi where
    i: "jitem (JDict d) ''hostUID'' = Ret (JInt uid)" "jitem (JDict d) ''privateDirectory'' = Ret (JStr base)"
      "draw_macs (rn_macs rn) = Ret macs" "jitem (JDict d) ''guestWifiInterface'' = Ret (JStr wifi)" "jitem (JDict d) ''checkout'' = Ret (JStr checkout)"
    and l: "l = \<lparr>lo_uid = uid, lo_base = pathlib_str base, lo_checkout = pathlib_str checkout, lo_token = to_hex (rn_token rn),
         lo_identity = uuid_str (rn_uuid rn), lo_macs = macs, lo_serial = ''ashacky-'' @ to_hex (rn_serial rn), lo_user = user,
         lo_group = group, lo_python = python, lo_home = pathlib_str home, lo_management = management, lo_wifi = wifi, lo_config = d\<rparr>"
    using assms unfolding plan_locals_def bindO_eq_Ret text_value_iff by (elim exE conjE) (auto dest: iv simp del: jitem.simps)
  show "lo_config l = d" "lo_identity l = uuid_str (rn_uuid rn)" "lo_serial l = ''ashacky-'' @ to_hex (rn_serial rn)"
    "draw_macs (rn_macs rn) = Ret (lo_macs l)" "lo_token l = to_hex (rn_token rn)" "dict_get d ''hostUID'' = JInt (lo_uid l)"
    "dict_get d ''guestWifiInterface'' = JStr (lo_wifi l)"
    "\<exists>s. dict_get d ''privateDirectory'' = JStr s \<and> lo_base l = pathlib_str s" "\<exists>s. dict_get d ''checkout'' = JStr s \<and> lo_checkout l = pathlib_str s"
    using i jitem_get [OF i(1)] jitem_get [OF i(2)] jitem_get [OF i(4)] jitem_get [OF i(5)] unfolding l by (simp_all del: jitem.simps)
qed

lemma plan_generated:
  assumes "plan_generate io c rn plan_new = (p, Ret u)"
  shows "\<exists>d l host. c = JDict d \<and> plan_facts d \<and> plan_locals (JDict d) rn = Ret l \<and> dict_get d ''hostAddress'' = JStr host \<and>
    pl_files p = map item_file (plan_items l host) @ [plan_file l host] \<and> pl_manifest p = map item_entry (plan_items l host)"
proof -
  have r: "plan_validate c = Ret ()" "io_made io = Ret ()"
    "bindA (liftA (plan_locals c rn)) (write_plan io) (plan_new\<lparr>pl_made := True\<rparr>) = (p, Ret u)"
    using assms unfolding plan_generate_def by (auto simp: thenA_eq_Ret simp del: act_at(2)) 
  obtain d where d: "c = JDict d" "plan_facts d" using plan_validated [OF r(1)] by (elim exE conjE)
  obtain l where l: "plan_locals (JDict d) rn = Ret l" "write_plan io l (plan_new\<lparr>pl_made := True\<rparr>) = (p, Ret u)"
    using r(3) unfolding d(1) bindA_eq_Ret liftA_eq_Ret by blast
  show ?thesis
    using d l plan_locals_facts(1) [OF l(1)] unfolding write_plan_Ret by (auto simp: plan_new_def plan_file_def given_def)
qed

section \<open>The files are accepted by their readers\<close>

lemma to_hex_length [simp]: "length (to_hex bs) = 2 * length bs"
  by (induction bs) (simp_all add: to_hex_def)

lemma to_hex_all: "(\<And>n. P (hex_char n)) \<Longrightarrow> list_all P (to_hex bs)"
  by (induction bs) (simp_all add: to_hex_def)

lemma hex_char_serial: "serial_char (hex_char n)"
proof -
  have "list_all serial_char ''0123456789abcdef''" by (simp add: serial_char_def)
  then show ?thesis unfolding hex_char_def list_all_length by simp
qed

lemma plan_serial: "length bs \<le> 12 \<Longrightarrow> disk_serial (''ashacky-'' @ to_hex bs)"
  using to_hex_all [of serial_char bs, OF hex_char_serial] by (simp add: disk_serial_def) (simp add: serial_char_def)

lemma plan_mac:
  assumes "length bs = 5"
  shows "nic_address (mac_text bs)" "map ascii_lower (mac_text bs) = mac_text bs" "list_all (\<lambda>c. \<not> re_space c) (mac_text bs)"
proof -
  obtain a b c d e where bs: "bs = [a, b, c, d, e]" using assms by (auto simp: length_Suc_conv numeral_eq_Suc)
  have five: "(5 :: nat) = Suc (Suc (Suc (Suc (Suc 0))))" by simp
  have h: "is_hex (hex_char n)" for n by (rule is_hex_char)
  have s: "\<not> re_space (hex_char n)" for n using hex_not_special [OF h] by simp
  have z: "is_hex (CHR ''0'')" "is_hex (CHR ''2'')" by (simp_all add: is_hex_def hex_digit_def)
  show "nic_address (mac_text bs)"
    unfolding bs nic_address_def six_octets_def five by (simp add: mac_text_def to_hex_def h z)
  show "map ascii_lower (mac_text bs) = mac_text bs"
    unfolding bs by (simp add: mac_text_def to_hex_def hex_char_lower) (simp add: ascii_lower_def)
  show "list_all (\<lambda>c. \<not> re_space c) (mac_text bs)"
    unfolding bs by (simp add: mac_text_def to_hex_def s) (simp add: re_space_def ascii_space_def)
qed

lemma draw_macs_drawn:
  assumes "draw_macs bs = Ret (m, n)"
  shows "m \<noteq> n \<and> (\<exists>b \<in> set bs. m = mac_text b) \<and> (\<exists>b \<in> set bs. n = mac_text b)"
proof -
  have o: "other_mac m bs = Ret n \<Longrightarrow> m \<noteq> n \<and> (\<exists>b \<in> set bs. n = mac_text b)" for m n bs
    by (induction bs) (auto split: if_splits)
  show ?thesis using assms by (cases bs) (auto dest: o)
qed

lemma path_child_absolute: "absolute p \<Longrightarrow> absolute (path_child p n)"
  by (auto simp: absolute_def path_child_def)

text \<open>The random values have the lengths that were asked for.\<close>

definition random_ok :: "plan_random \<Rightarrow> bool" where
  "random_ok rn \<longleftrightarrow> length (rn_token rn) = 32 \<and> rn_uuid rn < 2 ^ 128 \<and> length (rn_serial rn) = 8 \<and> list_all (\<lambda>b. length b = 5) (rn_macs rn)"

lemma plan_locals_macs:
  assumes "plan_locals (JDict d) rn = Ret l" "random_ok rn"
  shows "fst (lo_macs l) \<noteq> snd (lo_macs l)" "\<exists>b. length b = 5 \<and> fst (lo_macs l) = mac_text b" "\<exists>b. length b = 5 \<and> snd (lo_macs l) = mac_text b"
  using draw_macs_drawn [of "rn_macs rn" "fst (lo_macs l)" "snd (lo_macs l)"] plan_locals_facts(4) [OF assms(1)] assms(2)
  by (auto simp: random_ok_def list_all_iff)

lemma plan_vm_accepted:
  assumes l: "plan_locals (JDict d) rn = Ret l" "random_ok rn"
    and ac: "ac_uid ac = lo_uid l" "0 < lo_uid l" "ac_control ac = Ret v"
    and images: "ac_stat ac (private_path l ''guest.qcow2'') = Ret (True, False, ac_uid ac)"
      "ac_stat ac (private_path l ''vars.qcow2'') = Ret (True, False, ac_uid ac)"
  shows "session_check ac (JDict (plan_vm l)) = Ret ()"
proof -
  obtain a b where m: "length a = 5" "fst (lo_macs l) = mac_text a" "length b = 5" "snd (lo_macs l) = mac_text b"
    using plan_locals_macs [OF l] by auto
  have n: "check_nic (JStr (fst (lo_macs l))) = Ret ()" "check_nic (JStr (snd (lo_macs l))) = Ret ()"
    using plan_mac(1) [OF m(1)] plan_mac(1) [OF m(3)] m by (simp_all add: check_nic_def)
  have s: "disk_serial (lo_serial l)" using plan_serial [of "rn_serial rn"] plan_locals_facts(3) [OF l(1)] l(2) by (simp add: random_ok_def)
  have u: "uuid_valid (lo_identity l)" using plan_locals_facts(2) [OF l(1)] uuid_str_valid by simp
  obtain ck where ck: "lo_checkout l = pathlib_str ck" using plan_locals_facts(9) [OF l(1)] by auto
  have a: "absolute (lo_app l)" unfolding lo_app_def ck by (intro path_child_absolute pathlib_str_absolute)
  show ?thesis
    using ac images by (simp add: plan_vm_def check_image_def image_names_def has_key_def num_eq_def n s u a)
qed

lemma plan_devices_accepted:
  assumes l: "plan_locals (JDict d) rn = Ret l" "random_ok rn" "plan_facts d"
    and dmi: "uuid_valid (strip_spaces dmi)" "uuid_value (strip_spaces dmi) = rn_uuid rn"
    and mac: "map ascii_lower (strip_spaces address) = snd (lo_macs l)"
  shows "probe_validate (JDict (plan_devices l)) dmi address = Ret (lo_wifi l, 10)"
proof -
  obtain b where b: "length b = 5" "snd (lo_macs l) = mac_text b" using plan_locals_macs(3) [OF l(1,2)] by auto
  have u: "lo_identity l = uuid_str (rn_uuid rn)" using plan_locals_facts(2) [OF l(1)] .
  have v: "uuid_value (uuid_str (rn_uuid rn)) = rn_uuid rn" using l(2) uuid_value_str by (simp add: random_ok_def)
  have w: "given l ''guestWifiInterface'' = JStr (lo_wifi l)" using plan_locals_facts(1,7) [OF l(1)] by (simp add: given_def)
  have i: "interface_name (lo_wifi l)" using l(3) plan_locals_facts(7) [OF l(1)] unfolding plan_facts_def by simp
  show ?thesis
    using dmi mac plan_mac(2) [OF b(1)] by (simp add: probe_validate_def plan_devices_def has_key_def u v w i b(2) uuid_str_valid)
qed

lemma fallback_of_address: "IPv4Address v = Ret n \<Longrightarrow> \<exists>f. fallback_of v = Ret f"
  by (cases v) (auto simp: address_error_def)

text \<open>A host where the transport configuration is a file only its owner can change, in an existing private directory.\<close>

definition transport_host :: "host_input \<Rightarrow> string \<Rightarrow> plan_names \<Rightarrow> bool" where
  "transport_host hi path l \<longleftrightarrow>
     hi_config hi = Some path \<and> absolute path \<and> hi_config_status hi = Ret (0x8180, hi_uid hi) \<and>
     hi_config_json hi = Ret (JDict (plan_transport l)) \<and> hi_private_status hi (lo_base l) = Ret (0x41C0, hi_uid hi)"

lemma plan_transport_accepted:
  assumes l: "plan_locals (JDict d) rn = Ret l" "random_ok rn" "plan_facts d" and hi: "transport_host hi path l"
  shows "\<exists>vs n. vm_settings hi = Ret vs \<and> vs_uuid vs = lo_identity l \<and> vs_private vs = lo_base l \<and> vs_subnet vs = (n, 24) \<and>
    IPv4Network (given l ''managementSubnet'') = Ret (n, 24) \<and> fallback_of (given l ''fallbackAddress'') = Ret (vs_fallback vs)"
proof -
  obtain n where n: "IPv4Network (given l ''managementSubnet'') = Ret (n, 24)" "in_network (n + 2) (n, 24)"
    "IPv4Address (given l ''fallbackAddress'') = Ret (n + 2)"
    using l(3) plan_locals_facts(1) [OF l(1)] unfolding plan_facts_def given_def by auto
  obtain f where f: "fallback_of (given l ''fallbackAddress'') = Ret f" using fallback_of_address [OF n(3)] by (elim exE)
  obtain b where b: "lo_base l = pathlib_str b" using plan_locals_facts(8) [OF l(1)] by auto
  have u: "canonical_uuid (JStr (lo_identity l)) = Ret (lo_identity l)"
    using plan_locals_facts(2) [OF l(1)] l(2) by (simp add: uuid_str_valid uuid_value_str random_ok_def)
  have k: "dict_keys (plan_transport l) = {''uuid'', ''privateDirectory'', ''managementSubnet'', ''fallbackAddress''}"
    by (simp add: dict_keys_def plan_transport_def)
  have c: "read_config hi = Ret (plan_transport l)"
    using hi k by (auto simp: read_config_def transport_host_def is_regular_def absolute_def)
  have g: "dict_get (plan_transport l) ''uuid'' = JStr (lo_identity l)" "dict_get (plan_transport l) ''privateDirectory'' = JStr (lo_base l)"
    "dict_get (plan_transport l) ''managementSubnet'' = given l ''managementSubnet''"
    "dict_get (plan_transport l) ''fallbackAddress'' = given l ''fallbackAddress''"
    by (simp_all add: plan_transport_def)
  have "vm_settings hi = Ret \<lparr>vs_uuid = lo_identity l, vs_private = lo_base l, vs_subnet = (n, 24), vs_fallback = f\<rparr>"
    using hi n(2) pathlib_str_absolute [of b] pathlib_str_idem [of b]
    by (simp add: vm_settings_def c g u n f b transport_host_def is_directory_def Let_def del: canonical_uuid.simps)
  then show ?thesis using n f by auto
qed

lemma plan_socket_short:
  assumes l: "plan_locals (JDict d) rn = Ret l" "plan_facts d"
  shows "length (private_path l ''runtime/host.sock'' @ ''.supervisor'') < 104"
proof -
  obtain s where s: "dict_get d ''privateDirectory'' = JStr s" "lo_base l = pathlib_str s" using plan_locals_facts(8) [OF l(1)] by auto
  have "absolute s" "length s + 29 < 104" using l(2) s(1) unfolding plan_facts_def plain_path_def by auto
  then show ?thesis using pathlib_str_length [of s] by (simp add: private_path_def path_child_def s(2))
qed

text \<open>A JSON document of the plan that only its owner can read.\<close>

definition plan_json :: "plan \<Rightarrow> string \<Rightarrow> json option" where
  "plan_json p name = (case map_of (pl_files p) name of Some (Json v, Some mode) \<Rightarrow> if mode = 384 then Some v else None | _ \<Rightarrow> None)"

lemmas item_defs = plan_items_def host_items_def script_item_def guest_json_items_def guest_text_items_def item_file_def js_item_def
  job_item_def text_item_def

lemma plan_lookups:
  assumes "pl_files p = map item_file (plan_items l host) @ fs"
  shows "plan_json p ''host/private/vm.json'' = Some (JDict (plan_vm l))"
    "plan_json p ''host/private/control.json'' = Some (JDict (plan_control l))"
    "plan_json p ''host/private/transport.json'' = Some (JDict (plan_transport l))"
    "plan_json p ''guest/etc/ashacky/devices.json'' = Some (JDict (plan_devices l))"
    "plan_json p ''guest/etc/linuxhost.json'' = Some (JDict [(''userID'', given l ''guestUID''), (''token'', JStr (lo_token l)),
       (''hostSocket'', JStr ''/run/ashacky-control/host.sock'')])"
  unfolding plan_json_def assms by (simp_all add: item_defs Let_def)

section \<open>Completion\<close>

lemma get_jitem: "dict_get d k = v \<Longrightarrow> v \<noteq> JNull \<Longrightarrow> jitem (JDict d) k = Ret v"
  by (auto simp: dict_get_def split: option.splits)

lemma other_mac_drawn: "\<exists>b \<in> set bs. mac_text b \<noteq> m \<Longrightarrow> \<exists>n. other_mac m bs = Ret n"
  by (induction bs) auto

lemma plan_locals_return:
  assumes "plan_facts d" "draw_macs (rn_macs rn) = Ret ms"
  shows "\<exists>l. plan_locals (JDict d) rn = Ret l"
proof -
  obtain uid base ck us gr py ho ma wi where
    "dict_get d ''hostUID'' = JInt uid" "dict_get d ''privateDirectory'' = JStr base" "dict_get d ''checkout'' = JStr ck"
    "dict_get d ''hostUser'' = JStr us" "dict_get d ''group'' = JStr gr" "dict_get d ''hostPython'' = JStr py" "dict_get d ''hostHome'' = JStr ho"
    "dict_get d ''guestManagementInterface'' = JStr ma" "dict_get d ''guestWifiInterface'' = JStr wi"
    using assms(1) unfolding plan_facts_def by auto
  note g = this
  have j: "dict_get d k = JStr s \<Longrightarrow> jitem (JDict d) k = Ret (JStr s)" "dict_get d k = JInt n \<Longrightarrow> jitem (JDict d) k = Ret (JInt n)" for k s n
    by (erule get_jitem, simp)+
  note i = j(2) [OF g(1)] j(1) [OF g(2)] j(1) [OF g(3)] j(1) [OF g(4)] j(1) [OF g(5)] j(1) [OF g(6)] j(1) [OF g(7)] j(1) [OF g(8)] j(1) [OF g(9)]
  show ?thesis unfolding plan_locals_def using assms(2) by (simp add: i del: jitem.simps)
qed

lemma plan_returns:
  assumes "plan_validate (JDict d) = Ret u" "dict_get d ''hostAddress'' = JStr host" "draw_macs (rn_macs rn) = Ret ms"
    and io: "io_made io = Ret ()" "\<And>r. io_good io r"
  shows "\<exists>p l. plan_generate io (JDict d) rn plan_new = (p, Ret ()) \<and> plan_locals (JDict d) rn = Ret l \<and>
    pl_files p = map item_file (plan_items l host) @ [plan_file l host] \<and> pl_manifest p = map item_entry (plan_items l host)"
proof -
  have v: "plan_validate (JDict d) = Ret ()" using assms(1) by simp
  have f: "plan_facts d" using plan_validated [OF v] by auto
  obtain l where l: "plan_locals (JDict d) rn = Ret l" using plan_locals_return [OF f assms(3)] by (elim exE)
  have "io_write io ''manifest.json'' = Ret () \<and> io_chmod io ''manifest.json'' = Ret ()" using io(2) by (simp add: io_good_def)
  then have "\<exists>q. write_plan io l (plan_new\<lparr>pl_made := True\<rparr>) = (q, Ret ())"
    unfolding write_plan_Ret using assms(2) io(2) plan_locals_facts(1) [OF l] by (auto simp: given_def)
  then obtain q where q: "write_plan io l (plan_new\<lparr>pl_made := True\<rparr>) = (q, Ret ())" by (elim exE)
  have "plan_generate io (JDict d) rn plan_new = (q, Ret ())"
    unfolding plan_generate_def thenA_eq_Ret bindA_eq_Ret liftA_eq_Ret using v io(1) l q by simp
  then show ?thesis using plan_generated [of io "JDict d" rn q "()"] assms(2) l by auto
qed

lemma plan_names_distinct: "distinct (map it_relative (plan_items l host))" "''manifest.json'' \<notin> set (map it_relative (plan_items l host))"
  by (simp_all add: item_defs Let_def)

section \<open>Two runs that differ in the token\<close>

definition alike :: "string \<times> document \<times> nat option \<Rightarrow> string \<times> document \<times> nat option \<Rightarrow> bool" where
  "alike f g \<longleftrightarrow> fst f = fst g \<and> snd (snd f) = snd (snd g) \<and>
     (fst (snd f) = fst (snd g) \<or>
      fst f \<in> {''host/private/control.json'', ''guest/etc/linuxhost.json''} \<and> snd (snd f) \<in> {None, Some 384})"

definition same_plan :: "plan \<Rightarrow> plan \<Rightarrow> bool" where
  "same_plan p q \<longleftrightarrow> pl_made p = pl_made q \<and> pl_manifest p = pl_manifest q \<and> list_all2 alike (pl_files p) (pl_files q)"

definition relA :: "(plan, 'a) act \<Rightarrow> (plan, 'a) act \<Rightarrow> bool" where
  "relA m k \<longleftrightarrow> (\<forall>p q. same_plan p q \<longrightarrow> same_plan (fst (m p)) (fst (k q)) \<and> snd (m p) = snd (k q))"

named_theorems relA_intros \<open>calls that agree but for the token\<close>

lemma relA_basic [relA_intros]: "relA (liftA r) (liftA r)" "relA (getA pl_manifest) (getA pl_manifest)" "relA (excA e) (excA e)" "relA (retA x) (retA x)"
  by (simp_all add: relA_def liftA_def getA_def same_plan_def)

lemma relA_upd: "(\<And>p q. same_plan p q \<Longrightarrow> same_plan (f p) (g q)) \<Longrightarrow> relA (updA f) (updA g)"
  by (simp add: relA_def)

lemma relA_bind [relA_intros]: "relA m m' \<Longrightarrow> (\<And>x. relA (f x) (f' x)) \<Longrightarrow> relA (bindA m f) (bindA m' f')"
  unfolding relA_def bindA_def by (fastforce split: prod.splits outcome.splits)

lemma relA_then [relA_intros]: "relA m m' \<Longrightarrow> relA k k' \<Longrightarrow> relA (thenA m k) (thenA m' k')"
  unfolding thenA_def by (intro relA_bind)

lemma relA_for: "list_all2 (\<lambda>x y. relA (f x) (f y)) xs ys \<Longrightarrow> relA (forA f xs) (forA f ys)"
  by (induction rule: list_all2_induct) (simp_all only: forA.simps relA_intros)

lemma relA_put:
  assumes "x = y \<or> n \<in> {''host/private/control.json'', ''guest/etc/linuxhost.json''} \<and> m = 384"
  shows "relA (put_file io n x m) (put_file io n y m)"
proof -
  have "alike (n, x, None) (n, y, None)" "alike (n, x, Some m) (n, y, Some m)" using assms by (auto simp: alike_def)
  then show ?thesis
    unfolding relA_def put_file_def
    by (cases "io_write io n"; cases "io_chmod io n") (simp_all add: same_plan_def act_defs list_all2_appendI)
qed

definition item_alike :: "plan_item \<Rightarrow> plan_item \<Rightarrow> bool" where
  "item_alike a b \<longleftrightarrow> it_relative a = it_relative b \<and> it_target a = it_target b \<and> it_mode a = it_mode b \<and> it_owner a = it_owner b \<and>
     (it_data a = it_data b \<or> it_relative a \<in> {''host/private/control.json'', ''guest/etc/linuxhost.json''} \<and> it_mode a = 384)"

lemma relA_item:
  assumes i: "item_alike a b"
  shows "relA (write_item io a) (write_item io b)"
proof -
  have e: "it_relative b = it_relative a" "it_target b = it_target a" "it_mode b = it_mode a" "it_owner b = it_owner a"
    using i unfolding item_alike_def by simp_all
  note d = i [unfolded item_alike_def, THEN conjunct2, THEN conjunct2, THEN conjunct2, THEN conjunct2]
  show ?thesis
    unfolding write_item_def plan_write_def e using relA_put [OF d]
    by (intro relA_then relA_basic relA_upd) (simp_all add: same_plan_def)
qed

lemma relA_items: "list_all2 item_alike xs ys \<Longrightarrow> relA (forA (write_item io) xs) (forA (write_item io) ys)"
  by (intro relA_for) (auto elim: list_all2_mono intro: relA_item)

lemma token_locals: "plan_locals c (rn\<lparr>rn_token := t\<rparr>) = bindO (plan_locals c rn) (\<lambda>l. Ret (l\<lparr>lo_token := to_hex t\<rparr>))"
  by (simp add: plan_locals_def bindO_assoc)

lemma token_fields [simp]:
  "lo_app (l\<lparr>lo_token := k\<rparr>) = lo_app l" "lo_root (l\<lparr>lo_token := k\<rparr>) = lo_root l" "lo_runtime (l\<lparr>lo_token := k\<rparr>) = lo_runtime l"
  "lo_policy (l\<lparr>lo_token := k\<rparr>) = lo_policy l" "lo_owner (l\<lparr>lo_token := k\<rparr>) = lo_owner l" "private_path (l\<lparr>lo_token := k\<rparr>) = private_path l"
  "root_path (l\<lparr>lo_token := k\<rparr>) = root_path l" "runtime_path (l\<lparr>lo_token := k\<rparr>) = runtime_path l" "given (l\<lparr>lo_token := k\<rparr>) = given l"
  by (rule ext | simp add: lo_app_def lo_root_def lo_runtime_def lo_policy_def lo_owner_def private_path_def root_path_def runtime_path_def given_def)+

lemma token_documents [simp]:
  "plan_vm (l\<lparr>lo_token := k\<rparr>) = plan_vm l" "plan_transport (l\<lparr>lo_token := k\<rparr>) = plan_transport l" "plan_devices (l\<lparr>lo_token := k\<rparr>) = plan_devices l"
  "plan_env (l\<lparr>lo_token := k\<rparr>) = plan_env l" "service_script (l\<lparr>lo_token := k\<rparr>) = service_script l"
  "network_script (l\<lparr>lo_token := k\<rparr>) host = network_script l host" "script_item (l\<lparr>lo_token := k\<rparr>) host = script_item l host"
  "job_item (l\<lparr>lo_token := k\<rparr>) = job_item l" "guest_text_items (l\<lparr>lo_token := k\<rparr>) host = guest_text_items l host"
  by (rule ext | simp add: plan_vm_def plan_transport_def plan_devices_def plan_env_def service_script_def network_script_def script_item_def
      job_item_def guest_text_items_def Let_def)+

lemma item_alike_refl [simp]: "item_alike it it" "list_all2 item_alike its its"
  by (simp_all add: item_alike_def list_all2_same)

lemma token_items:
  "list_all2 item_alike (host_items l) (host_items (l\<lparr>lo_token := k\<rparr>))"
  "list_all2 item_alike (guest_json_items l) (guest_json_items (l\<lparr>lo_token := k\<rparr>))"
proof -
  have s: "r \<in> {''host/private/control.json'', ''guest/etc/linuxhost.json''} \<Longrightarrow> item_alike (js_item r v t ow) (js_item r w t ow)" for r v w t ow
    unfolding item_alike_def js_item_def by simp
  show "list_all2 item_alike (host_items l) (host_items (l\<lparr>lo_token := k\<rparr>))"
    unfolding host_items_def list_all2_Cons list_all2_Nil token_fields token_documents by (simp add: s)
  show "list_all2 item_alike (guest_json_items l) (guest_json_items (l\<lparr>lo_token := k\<rparr>))"
    unfolding guest_json_items_def list_all2_Cons list_all2_Nil token_fields token_documents by (simp add: s)
qed

lemma relA_write_plan: "relA (write_plan io l) (write_plan io (l\<lparr>lo_token := k\<rparr>))"
  unfolding write_plan_def token_fields token_documents
  by (intro relA_intros relA_items relA_put token_items) (simp_all add: relA_item)

lemma relA_generate: "relA (plan_generate io c rn) (plan_generate io c (rn\<lparr>rn_token := t\<rparr>))"
proof -
  have "relA (bindA (liftA (plan_locals c rn)) (write_plan io)) (bindA (liftA (plan_locals c (rn\<lparr>rn_token := t\<rparr>))) (write_plan io))"
  proof (cases "plan_locals c rn")
    case (Ret l)
    then show ?thesis using relA_write_plan [of io l "to_hex t"] unfolding token_locals by (simp add: relA_def)
  qed (simp_all add: relA_def token_locals)
  then show ?thesis
    unfolding plan_generate_def by (intro relA_then relA_basic relA_upd) (simp_all add: same_plan_def)
qed

section \<open>Reading a word back\<close>

text \<open>How the POSIX shell reads one word: quotes are removed, and the word ends at the first character that is neither quoted nor in
  the set of characters without a meaning of their own. \<open>None\<close> stands for an open quote or an expansion within double quotes.\<close>

datatype quoting = Unquoted | InSingle | InDouble

fun sh_word :: "quoting \<Rightarrow> string \<Rightarrow> (string \<times> string) option" where
  "sh_word Unquoted [] = Some ([], [])"
| "sh_word Unquoted (c # cs) =
     (if c = CHR 0x27 then sh_word InSingle cs else if c = CHR 0x22 then sh_word InDouble cs
      else if shell_safe c then map_option (apfst (Cons c)) (sh_word Unquoted cs) else Some ([], c # cs))"
| "sh_word InSingle [] = None"
| "sh_word InSingle (c # cs) = (if c = CHR 0x27 then sh_word Unquoted cs else map_option (apfst (Cons c)) (sh_word InSingle cs))"
| "sh_word InDouble [] = None"
| "sh_word InDouble (c # cs) =
     (if c = CHR 0x22 then sh_word Unquoted cs
      else if c = CHR ''$'' \<or> c = CHR 0x60 \<or> c = CHR 0x5C then None else map_option (apfst (Cons c)) (sh_word InDouble cs))"

definition word_ends :: "string \<Rightarrow> bool" where
  "word_ends rest = (case rest of [] \<Rightarrow> True | c # _ \<Rightarrow> \<not> shell_safe c \<and> c \<noteq> CHR 0x27 \<and> c \<noteq> CHR 0x22)"

lemma sh_word_end: "word_ends rest \<Longrightarrow> sh_word Unquoted rest = Some ([], rest)"
  by (cases rest) (auto simp: word_ends_def)

lemma sh_word_safe: "list_all shell_safe s \<Longrightarrow> word_ends rest \<Longrightarrow> sh_word Unquoted (s @ rest) = Some (s, rest)"
proof (induction s)
  case (Cons c s)
  have "\<not> shell_safe (CHR 0x27)" "\<not> shell_safe (CHR 0x22)" by (simp_all add: shell_safe_def)
  then have "c \<noteq> CHR 0x27" "c \<noteq> CHR 0x22" using Cons.prems(1) by auto
  then show ?case using Cons by simp
qed (simp add: sh_word_end)

lemma sh_word_single:
  "word_ends rest \<Longrightarrow>
   sh_word InSingle (concat (map (\<lambda>c. if c = CHR 0x27 then [CHR 0x27, CHR 0x22, CHR 0x27, CHR 0x22, CHR 0x27] else [c]) s) @ CHR 0x27 # rest) = Some (s, rest)"
  by (induction s) (simp_all add: sh_word_end)

section \<open>Properties\<close>

text \<open>C32: the VM description and the transport description that a plan contains are accepted by the two programs that read them, and
  they describe the same machine. The supervisor's configuration check passes for the account the plan was made for once the two disk
  images exist and belong to it; the transport settings pass on a host with the private directory, select the same UUID, and the
  address looked for is in the planned subnet when the fallback is text.\<close>

theorem plan_accepted_by_host:
  assumes gen: "plan_generate io (JDict d) rn plan_new = (p, Ret u)" and rn: "random_ok rn"
  shows "\<exists>vm tr. plan_json p ''host/private/vm.json'' = Some (JDict vm) \<and> plan_json p ''host/private/transport.json'' = Some (JDict tr) \<and>
    dict_get vm ''uuid'' = dict_get tr ''uuid'' \<and>
    (\<forall>ac. dict_get d ''hostUID'' = JInt (ac_uid ac) \<and> (\<exists>v. ac_control ac = Ret v) \<and>
      (\<forall>path. dict_get vm ''disk'' = JStr path \<or> dict_get vm ''vars'' = JStr path \<longrightarrow> ac_stat ac path = Ret (True, False, ac_uid ac)) \<longrightarrow>
      session_check ac (JDict vm) = Ret ()) \<and>
    (\<forall>hi path. hi_config hi = Some path \<and> absolute path \<and> hi_config_status hi = Ret (0x8180, hi_uid hi) \<and> hi_config_json hi = Ret (JDict tr) \<and>
      (\<forall>dir. dict_get tr ''privateDirectory'' = JStr dir \<longrightarrow> hi_private_status hi dir = Ret (0x41C0, hi_uid hi)) \<longrightarrow>
      (\<exists>vs. vm_settings hi = Ret vs \<and> dict_get vm ''uuid'' = JStr (vs_uuid vs) \<and> IPv4Network (dict_get d ''managementSubnet'') = Ret (vs_subnet vs)))"
proof -
  obtain l host where l: "plan_facts d" "plan_locals (JDict d) rn = Ret l" "pl_files p = map item_file (plan_items l host) @ [plan_file l host]"
    using plan_generated [OF gen] by auto
  have pos: "0 < lo_uid l" using l(1) plan_locals_facts(6) [OF l(2)] unfolding plan_facts_def by auto
  have s: "session_check ac (JDict (plan_vm l)) = Ret ()"
    if a: "dict_get d ''hostUID'' = JInt (ac_uid ac) \<and> (\<exists>v. ac_control ac = Ret v) \<and>
      (\<forall>path. dict_get (plan_vm l) ''disk'' = JStr path \<or> dict_get (plan_vm l) ''vars'' = JStr path \<longrightarrow> ac_stat ac path = Ret (True, False, ac_uid ac))" for ac
  proof -
    obtain v where v: "ac_control ac = Ret v" using a by auto
    have u: "ac_uid ac = lo_uid l" using a plan_locals_facts(6) [OF l(2)] by simp
    show ?thesis using a by (intro plan_vm_accepted [OF l(2) rn u pos v]) (simp_all add: plan_vm_def)
  qed
  have t: "\<exists>vs. vm_settings hi = Ret vs \<and> dict_get (plan_vm l) ''uuid'' = JStr (vs_uuid vs) \<and> IPv4Network (dict_get d ''managementSubnet'') = Ret (vs_subnet vs)"
    if h: "hi_config hi = Some path \<and> absolute path \<and> hi_config_status hi = Ret (0x8180, hi_uid hi) \<and> hi_config_json hi = Ret (JDict (plan_transport l)) \<and>
      (\<forall>dir. dict_get (plan_transport l) ''privateDirectory'' = JStr dir \<longrightarrow> hi_private_status hi dir = Ret (0x41C0, hi_uid hi))" for hi path
  proof -
    have "transport_host hi path l" using h by (simp add: transport_host_def plan_transport_def)
    then show ?thesis using plan_transport_accepted [OF l(2) rn l(1)] plan_locals_facts(1) [OF l(2)] by (fastforce simp: plan_vm_def given_def)
  qed
  have i: "dict_get (plan_vm l) ''uuid'' = dict_get (plan_transport l) ''uuid''" by (simp add: plan_vm_def plan_transport_def)
  show ?thesis
    by (intro exI [of _ "plan_vm l"] exI [of _ "plan_transport l"] conjI allI impI)
      (rule plan_lookups(1) [OF l(3)] plan_lookups(3) [OF l(3)] i | erule s t)+
qed

text \<open>C33: the device description that a plan puts into the guest is accepted by the guest's probe exactly where it should be: in a VM
  whose DMI identity is the planned UUID, on the network card that has the second planned address, and for the interface the
  administrator named. The guest and the host are given the same token, and the host's control socket, with the supervisor's suffix,
  fits the 104 bytes of a macOS socket address.\<close>

theorem plan_accepted_by_guest:
  assumes gen: "plan_generate io (JDict d) rn plan_new = (p, Ret u)" and rn: "random_ok rn"
  shows "\<exists>vm ctl dev gst a b socket. plan_json p ''host/private/vm.json'' = Some (JDict vm) \<and> plan_json p ''host/private/control.json'' = Some (JDict ctl) \<and>
    plan_json p ''guest/etc/ashacky/devices.json'' = Some (JDict dev) \<and> plan_json p ''guest/etc/linuxhost.json'' = Some (JDict gst) \<and>
    dict_get vm ''macs'' = JList [JStr a, JStr b] \<and> a \<noteq> b \<and>
    (\<forall>dmi address. uuid_valid (strip_spaces dmi) \<and> uuid_of (JStr (strip_spaces dmi)) = uuid_of (dict_get vm ''uuid'') \<and>
      map ascii_lower (strip_spaces address) = b \<longrightarrow>
      probe_validate (JDict dev) dmi address = bindO (text_value (dict_get d ''guestWifiInterface'')) (\<lambda>i. Ret (i, 10))) \<and>
    dict_get ctl ''token'' = dict_get gst ''token'' \<and> rpc_call ctl ''vm-stopped'' [] = Ret (JStr socket, JDict [(''action'', JStr ''vm-stopped''), (''token'', dict_get gst ''token'')]) \<and>
    length socket < 104"
proof -
  obtain l host where l: "plan_facts d" "plan_locals (JDict d) rn = Ret l" "pl_files p = map item_file (plan_items l host) @ [plan_file l host]"
    using plan_generated [OF gen] by auto
  have pr: "probe_validate (JDict (plan_devices l)) dmi address = bindO (text_value (dict_get d ''guestWifiInterface'')) (\<lambda>i. Ret (i, 10))"
    if h: "uuid_valid (strip_spaces dmi) \<and> uuid_of (JStr (strip_spaces dmi)) = uuid_of (dict_get (plan_vm l) ''uuid'') \<and>
      map ascii_lower (strip_spaces address) = snd (lo_macs l)" for dmi address
  proof -
    have "uuid_of (JStr (lo_identity l)) = Ret (rn_uuid rn)"
      using plan_locals_facts(2) [OF l(2)] rn by (simp add: uuid_str_valid uuid_value_str random_ok_def)
    then have "uuid_value (strip_spaces dmi) = rn_uuid rn" using h by (simp add: plan_vm_def)
    then show ?thesis using h plan_devices_accepted [OF l(2) rn l(1)] plan_locals_facts(7) [OF l(2)] by simp
  qed
  have r: "rpc_call (plan_control l) ''vm-stopped'' [] =
      Ret (JStr (private_path l ''runtime/host.sock'' @ ''.supervisor''), JDict [(''action'', JStr ''vm-stopped''), (''token'', JStr (lo_token l))])"
    by (simp add: rpc_call_def plan_control_def)
  let ?g = "[(''userID'', given l ''guestUID''), (''token'', JStr (lo_token l)), (''hostSocket'', JStr ''/run/ashacky-control/host.sock'')]"
  have g: "dict_get ?g ''token'' = JStr (lo_token l)" by simp
  have m: "dict_get (plan_vm l) ''macs'' = JList [JStr (fst (lo_macs l)), JStr (snd (lo_macs l))]"
    "dict_get (plan_control l) ''token'' = dict_get ?g ''token''"
    by (simp_all add: plan_vm_def plan_control_def)
  have r': "rpc_call (plan_control l) ''vm-stopped'' [] = Ret (JStr (private_path l ''runtime/host.sock'' @ ''.supervisor''),
      JDict [(''action'', JStr ''vm-stopped''), (''token'', dict_get ?g ''token'')])"
    unfolding g by (rule r)
  show ?thesis
    by (intro exI [of _ "plan_vm l"] exI [of _ "plan_control l"] exI [of _ "plan_devices l"] exI [of _ ?g]
        exI [of _ "fst (lo_macs l)"] exI [of _ "snd (lo_macs l)"] exI [of _ "private_path l ''runtime/host.sock'' @ ''.supervisor''"] conjI allI impI)
      (rule plan_lookups(1) [OF l(3)] plan_lookups(2) [OF l(3)] plan_lookups(4) [OF l(3)] plan_lookups(5) [OF l(3)] m
        plan_locals_macs(1) [OF l(2) rn] plan_socket_short [OF l(2,1)] r' | erule pr)+
qed


text \<open>C34: the shared secret is confined. Two runs that differ only in the token drawn end alike, whatever the file system does, with
  the same manifest and the same files, of which only the host's control description and the guest's own description differ; these
  are readable by their owner only, or still have the mode of the process's mask.\<close>

theorem plan_token_confined:
  "snd (plan_main io name config rn plan_new) = snd (plan_main io name config (rn\<lparr>rn_token := t\<rparr>) plan_new) \<and>
   pl_manifest (fst (plan_main io name config rn plan_new)) = pl_manifest (fst (plan_main io name config (rn\<lparr>rn_token := t\<rparr>) plan_new)) \<and>
   list_all2 (\<lambda>(f, x, m) (g, y, k). f = g \<and> m = k \<and>
       (x = y \<or> f \<in> {''host/private/control.json'', ''guest/etc/linuxhost.json''} \<and> m \<in> {None, Some 384}))
     (pl_files (fst (plan_main io name config rn plan_new)))
     (pl_files (fst (plan_main io name config (rn\<lparr>rn_token := t\<rparr>) plan_new)))"
proof -
  have "relA (plan_main io name config rn) (plan_main io name config (rn\<lparr>rn_token := t\<rparr>))"
    unfolding plan_main_def by (simp add: relA_intros relA_generate)
  then have "same_plan (fst (plan_main io name config rn plan_new)) (fst (plan_main io name config (rn\<lparr>rn_token := t\<rparr>) plan_new)) \<and>
      snd (plan_main io name config rn plan_new) = snd (plan_main io name config (rn\<lparr>rn_token := t\<rparr>) plan_new)"
    unfolding relA_def by (simp add: same_plan_def plan_new_def)
  then show ?thesis unfolding same_plan_def by (auto simp: alike_def elim!: list_all2_mono)
qed

text \<open>Text quoted for the generated scripts is read back by the shell as exactly that text, as one word, whatever it contains; so
  no value of the description can add words or commands to the scripts that run as root.\<close>

theorem quoted_text_is_one_word:
  assumes "word_ends rest"
  shows "sh_word Unquoted (shlex_quote s @ rest) = Some (s, rest)"
  using assms sh_word_single [of rest s] by (simp add: shlex_quote_def sh_word_safe sh_word_end)

theorem quoted_text_is_one_word_witness:
  "sh_word Unquoted (shlex_quote ([CHR 0x27] @ ''; rm -r /'') @ '' ;;'') = Some ([CHR 0x27] @ ''; rm -r /'', '' ;;'')"
  using quoted_text_is_one_word [of "'' ;;''" "[CHR 0x27] @ ''; rm -r /''"] by (simp add: word_ends_def shell_safe_def)

definition example_plan :: dict where
  "example_plan =
     [(''hostUID'', JInt 502), (''groupID'', JInt 20), (''guestUID'', JInt 1000), (''memoryMiB'', JInt 8192), (''cpus'', JInt 4),
      (''hostUser'', JStr ''linux''), (''group'', JStr ''staff''), (''guestUser'', JStr ''me''),
      (''guestManagementInterface'', JStr ''enp0s1''), (''guestWifiInterface'', JStr ''enp0s2''),
      (''checkout'', JStr ''/opt/ashacky''), (''privateDirectory'', JStr ''/Users/linux/private''), (''hostPython'', JStr ''/usr/bin/python3''),
      (''hostHome'', JStr ''/Users/linux''), (''managementSubnet'', JStr ''192.168.90.0/24''), (''hostAddress'', JStr ''192.168.90.1''),
      (''fallbackAddress'', JStr ''192.168.90.2'')]"

definition example_random :: plan_random where
  "example_random = \<lparr>rn_token = replicate 32 7, rn_uuid = 0x6BA7B8109DAD11D180B400C04FD430C8,
     rn_macs = [[1, 2, 3, 4, 5], [1, 2, 3, 4, 5], [1, 2, 3, 4, 6]], rn_serial = replicate 8 1\<rparr>"

definition example_io :: plan_io where
  "example_io = \<lparr>io_made = Ret (), io_parent = (\<lambda>_. Ret ()), io_write = (\<lambda>_. Ret ()), io_chmod = (\<lambda>_. Ret ())\<rparr>"

lemma example_plan_valid: "plan_validate (JDict example_plan) = Ret ()"
proof -
  have n: "IPv4Network (JStr ''192.168.90.0/24'') = Ret (3232258560, 24)"
    by (simp add: parse_ipv4_def parse_octet_def all_digits_def digit_def digits_val_def parse_prefix_def network_of_def)
  have a: "IPv4Address (JStr ''192.168.90.1'') = Ret 3232258561" "IPv4Address (JStr ''192.168.90.2'') = Ret 3232258562"
    by (simp_all add: parse_ipv4_def parse_octet_def all_digits_def digit_def digits_val_def)
  have "validate_network (JDict example_plan) = Ret ()"
    by (simp add: validate_network_def example_plan_def n a private_blocks_def subnet_of_def in_network_def del: IPv4Network.simps IPv4Address.simps)
  then show ?thesis
    by (simp add: plan_validate_def example_plan_def account_name_def account_char_def lower_or_underscore_def digit_def interface_name_def
        interface_char_def plain_path_def absolute_def path_parts_def)
qed

lemma example_macs: "mac_text [1, 2, 3, 4, 6] \<noteq> mac_text [1, 2, 3, 4, 5]"
  by (simp add: mac_text_def to_hex_def hex_char_def)

lemma example_io_good: "io_made example_io = Ret ()" "io_good example_io r"
  by (simp_all add: example_io_def io_good_def)

lemma example_random_ok: "random_ok example_random"
  by (simp add: random_ok_def example_random_def)

lemma example_generated: "plan_generate example_io (JDict example_plan) example_random plan_new =
    (fst (plan_generate example_io (JDict example_plan) example_random plan_new), Ret ())"
proof -
  have "draw_macs (rn_macs example_random) = Ret (mac_text [1, 2, 3, 4, 5], mac_text [1, 2, 3, 4, 6])"
    using example_macs by (simp add: example_random_def)
  then show ?thesis
    using plan_returns [OF example_plan_valid, of "''192.168.90.1''" example_random _ example_io] example_io_good
    by (fastforce simp: example_plan_def)
qed


theorem plan_accepted_by_host_witness:
  "\<exists>p. plan_generate example_io (JDict example_plan) example_random plan_new = (p, Ret ()) \<and>
    (\<exists>vm tr. plan_json p ''host/private/vm.json'' = Some (JDict vm) \<and> plan_json p ''host/private/transport.json'' = Some (JDict tr) \<and>
      dict_get vm ''uuid'' = dict_get tr ''uuid'')"
  using example_generated plan_accepted_by_host [OF example_generated example_random_ok] by blast

theorem plan_accepted_by_guest_witness:
  "\<exists>p. plan_generate example_io (JDict example_plan) example_random plan_new = (p, Ret ()) \<and>
    (\<exists>vm a b. plan_json p ''host/private/vm.json'' = Some (JDict vm) \<and> dict_get vm ''macs'' = JList [JStr a, JStr b] \<and> a \<noteq> b)"
  using example_generated plan_accepted_by_guest [OF example_generated example_random_ok] by blast

end
