(* ===== verification/Qemu_Args.thy ===== *)
theory Qemu_Args
  imports Install_Plan
begin

text \<open>
  \<^verbatim>\<open>arguments\<close> of \<^verbatim>\<open>host/session/session.py\<close>: the command line of the VM. \<open>app\<close> is the application's \<^verbatim>\<open>Contents\<close> directory, \<open>descriptors\<close> the
  network sockets; \<open>rp\<close> is Python's text for values other than text, integers, booleans and null. Elements that are passed on as they
  are stay values.
\<close>

section \<open>Definitions\<close>

definition py_str :: "(json \<Rightarrow> string) \<Rightarrow> json \<Rightarrow> string" where
  "py_str rp v = (case v of JStr s \<Rightarrow> s | JInt i \<Rightarrow> dec_int i | JBool b \<Rightarrow> (if b then ''True'' else ''False'') | JNull \<Rightarrow> ''None'' | _ \<Rightarrow> rp v)"

definition get_or :: "dict \<Rightarrow> string \<Rightarrow> json \<Rightarrow> json" where
  "get_or c k v = (if has_key c k then dict_get c k else v)"

definition options :: "(string \<times> string) list \<Rightarrow> json list" where
  "options os = concat (map (\<lambda>(k, v). [JStr k, JStr v]) os)"

fun hex_nat :: "nat \<Rightarrow> string" where
  "hex_nat n = (if n < 16 then [hex_char n] else hex_nat (n div 16) @ [hex_char n])"

declare hex_nat.simps [simp del]

text \<open>The two network cards; \<open>i\<close> counts them from 0.\<close>

definition nic_options :: "(json \<Rightarrow> string) \<Rightarrow> nat \<Rightarrow> json \<times> int \<Rightarrow> (string \<times> string) list" where
  "nic_options rp i = (\<lambda>(mac, fd).
     [(''-device'', ''virtio-net-pci,mac='' @ py_str rp mac @ '',netdev=net'' @ dec i @ '',addr=0x'' @ hex_nat (i + 1) @ '',romfile=''),
      (''-netdev'', ''socket,id=net'' @ dec i @ '',fd='' @ dec_int fd)])"

fun nics :: "(json \<Rightarrow> string) \<Rightarrow> nat \<Rightarrow> (json \<times> int) list \<Rightarrow> (string \<times> string) list" where
  "nics rp i [] = []"
| "nics rp i (x # xs) = nic_options rp i x @ nics rp (Suc i) xs"

definition machine_options :: "string \<Rightarrow> string \<Rightarrow> string \<Rightarrow> string \<Rightarrow> string \<Rightarrow> string \<Rightarrow> (string \<times> string) list" where
  "machine_options app runtime var_file disk serial shared =
     [(''-device'', ''virtio-ramfb-gl,addr=0x3,hostmem=8G,blob=true,venus=true,neptune=true,max_outputs=3,xres=2880,yres=1800''),
      (''-display'', ''none''),
      (''-spice'', ''unix=on,addr='' @ runtime @ ''/spice.sock,disable-ticketing=on,gl=es,image-compression=off,playback-compression=off,streaming-video=off''),
      (''-drive'', ''if=pflash,format=raw,unit=0,readonly=on,file='' @ app @ ''/Resources/edk2-aarch64-code.fd''),
      (''-drive'', ''if=pflash,format=qcow2,unit=1,file='' @ var_file),
      (''-audiodev'', ''spice,id=audio0''), (''-device'', ''intel-hda,addr=0x4''), (''-device'', ''hda-duplex,audiodev=audio0''),
      (''-device'', ''nec-usb-xhci,id=usb-bus,addr=0x5''), (''-device'', ''usb-tablet,bus=usb-bus.0''),
      (''-device'', ''usb-mouse,bus=usb-bus.0''), (''-device'', ''usb-kbd,bus=usb-bus.0''),
      (''-device'', ''qemu-xhci,id=usb-controller-0,addr=0x6''),
      (''-drive'', ''if=none,id=disk,format=qcow2,file='' @ disk @ '',discard=unmap,detect-zeroes=unmap''),
      (''-device'', ''virtio-blk-pci,addr=0x7,drive=disk,serial='' @ serial @ '',bootindex=1''),
      (''-device'', ''virtio-serial-pci,addr=0x8''),
      (''-chardev'', ''spicevmc,id=vdagent,name=vdagent''), (''-device'', ''virtserialport,chardev=vdagent,name=com.redhat.spice.0''),
      (''-chardev'', ''socket,id=qga,path='' @ runtime @ ''/qga.sock,server=on,wait=off''),
      (''-device'', ''virtserialport,chardev=qga,name=org.qemu.guest_agent.0''),
      (''-device'', ''virtio-rng-pci,addr=0x9''),
      (''-fsdev'', ''local,id=shared,path='' @ shared @ '',security_model=mapped-xattr''),
      (''-device'', ''virtio-9p-pci,addr=0xa,fsdev=shared,mount_tag=shared''), (''-serial'', ''file:'' @ runtime @ ''/serial.log''),
      (''-qmp'', ''unix:'' @ runtime @ ''/qmp.sock,server=on,wait=off'')]"

definition redirection :: "string \<Rightarrow> nat \<Rightarrow> (string \<times> string) list" where
  "redirection socket i =
     [(''-chardev'', ''socket,id=usbredir'' @ dec i @ '',path='' @ socket @ '',reconnect-ms=1000''),
      (''-device'', ''usb-redir,chardev=usbredir'' @ dec i @ '',id=usbredir'' @ dec i @ '',bus=usb-controller-0.0,port='' @ dec (i + 1))]"

definition port_options :: "string \<Rightarrow> (string \<times> string) list" where
  "port_options runtime =
     [(''-chardev'', ''spiceport,id=lhinput,name=org.linuxhost.input''), (''-device'', ''virtserialport,chardev=lhinput,name=org.linuxhost.input''),
      (''-chardev'', ''spiceport,id=ashacky-status,name=org.ashacky.status''), (''-device'', ''virtserialport,chardev=ashacky-status,name=org.ashacky.status''),
      (''-chardev'', ''spiceport,id=ashacky-control,name=org.ashacky.control''), (''-device'', ''virtserialport,chardev=ashacky-control,name=org.ashacky.control''),
      (''-object'', ''memory-backend-file,id=video-frames,size=64M,mem-path='' @ runtime @ ''/video-frames.bin,share=on''),
      (''-device'', ''linuxhost-shmem,memdev=video-frames,addr=0xb''),
      (''-object'', ''memory-backend-file,id=camera-frames,size=8M,mem-path='' @ runtime @ ''/camera-frames.bin,share=on''),
      (''-device'', ''linuxhost-shmem,memdev=camera-frames,addr=0xc'')]"

definition seed_options :: "string \<Rightarrow> (string \<times> string) list" where
  "seed_options seed =
     [(''-drive'', ''if=none,id=ashacky-seed,format=raw,media=cdrom,readonly=on,file='' @ seed),
      (''-device'', ''usb-storage,drive=ashacky-seed,bus=usb-bus.0'')]"

text \<open>The elements before the devices.\<close>

definition head_arguments :: "(json \<Rightarrow> string) \<Rightarrow> string \<Rightarrow> dict \<Rightarrow> json \<Rightarrow> json list" where
  "head_arguments rp app c uuid =
     [JStr (path_child app ''MacOS/qemu-system-aarch64''), JStr ''-L'', JStr (path_child app ''Resources/qemu''), JStr ''-name'',
      get_or c ''name'' (JStr ''Debian''), JStr ''-uuid'', uuid, JStr ''-S'', JStr ''-boot'', JStr ''menu=off,splash-time=0'',
      JStr ''-machine'', JStr ''virt,gic-version=3'', JStr ''-accel'', JStr ''hvf,ipa-granule-size=0x1000'', JStr ''-cpu'', JStr ''host'',
      JStr ''-smp'', JStr (py_str rp (get_or c ''cpus'' (JInt 4))), JStr ''-m'', JStr (py_str rp (get_or c ''memory'' (JInt 8192))),
      JStr ''-nodefaults'', JStr ''-vga'', JStr ''none'']"

definition device_options :: "(json \<Rightarrow> string) \<Rightarrow> string \<Rightarrow> dict \<Rightarrow> (json \<times> int) list \<Rightarrow> string \<Rightarrow> json \<Rightarrow> json \<Rightarrow> json \<Rightarrow> json \<Rightarrow> json \<Rightarrow> (string \<times> string) list" where
  "device_options rp app c cards runtime var_file disk serial shared usb =
     nics rp 0 cards
     @ machine_options app runtime (py_str rp var_file) (py_str rp disk) (py_str rp serial) (py_str rp shared)
     @ concat (map (redirection (py_str rp usb)) [0, 1, 2, 3])
     @ port_options runtime
     @ (if truthy (dict_get c ''provisioningISO'') then seed_options (py_str rp (dict_get c ''provisioningISO'')) else [])"

definition arguments :: "(json \<Rightarrow> string) \<Rightarrow> string \<Rightarrow> (string \<Rightarrow> unit outcome) \<Rightarrow> dict \<Rightarrow> int list \<Rightarrow> json list outcome" where
  "arguments rp app mkdir c descriptors =
     bindO (bindO (jitem (JDict c) ''runtime'') path_text) (\<lambda>rt.
     let runtime = pathlib_str rt in
     bindO (mkdir runtime) (\<lambda>_.
     bindO (jitem (JDict c) ''uuid'') (\<lambda>uuid.
     bindO (bindO (jitem (JDict c) ''macs'') iter_items) (\<lambda>macs.
     bindO (jitem (JDict c) ''vars'') (\<lambda>var_file.
     bindO (jitem (JDict c) ''disk'') (\<lambda>disk.
     bindO (jitem (JDict c) ''diskSerial'') (\<lambda>serial.
     bindO (jitem (JDict c) ''shared'') (\<lambda>shared.
     bindO (jitem (JDict c) ''usbSocket'') (\<lambda>usb.
       Ret (head_arguments rp app c uuid
         @ options (device_options rp app c (zip macs descriptors) runtime var_file disk serial shared usb)))))))))))"

section \<open>Reading the options\<close>

text \<open>How QEMU reads an option: fields separated by commas, each a name, an equals sign and a value.\<close>

fun option_value :: "string \<Rightarrow> string \<Rightarrow> string option" where
  "option_value [] [] = None"
| "option_value [] (c # v) = (if c = CHR ''='' then Some v else None)"
| "option_value (k # ks) [] = None"
| "option_value (k # ks) (c # cs) = (if k = c then option_value ks cs else None)"

fun field_values :: "string \<Rightarrow> string list \<Rightarrow> string list" where
  "field_values key [] = []"
| "field_values key (p # ps) = (case option_value key p of Some v \<Rightarrow> v # field_values key ps | None \<Rightarrow> field_values key ps)"

definition option_fields :: "(string \<times> string) list \<Rightarrow> string \<Rightarrow> string \<Rightarrow> string list" where
  "option_fields os kind key = concat (map (\<lambda>(k, v). if k = kind then field_values key (split_on (CHR '','') v) else []) os)"

definition comma_free :: "string \<Rightarrow> bool" where
  "comma_free s \<longleftrightarrow> CHR '','' \<notin> set s"

lemma split_on_segment: "comma_free s \<Longrightarrow> split_on (CHR '','') (s @ t) = (s @ hd (split_on (CHR '','') t)) # tl (split_on (CHR '','') t)"
proof (induction s)
  case Nil
  then show ?case by (simp add: list.collapse)
next
  case (Cons c s)
  then show ?case by (auto simp: comma_free_def)
qed

lemma split_on_all: "comma_free s \<Longrightarrow> split_on (CHR '','') s = [s]"
  by (simp add: comma_free_def split_on_plain)

lemma dec_comma_free [simp]: "comma_free (dec n)" "comma_free (dec_int i)"
proof -
  have "\<not> digit (CHR '','')" by (simp add: digit_def)
  then show d: "comma_free (dec n)" for n using dec_digits [of n] by (auto simp: comma_free_def list_all_iff)
  show "comma_free (dec_int i)" using d [of "nat i"] d [of "nat (- i)"] by (simp add: comma_free_def)
qed

lemma small_numbers: "dec 0 = ''0''" "dec (Suc 0) = ''1''" "dec 2 = ''2''" "dec 3 = ''3''" "dec 4 = ''4''" "hex_nat (Suc 0) = ''1''" "hex_nat (Suc (Suc 0)) = ''2''"
  by code_simp+

definition vm_options :: "string \<Rightarrow> string \<Rightarrow> int \<Rightarrow> int \<Rightarrow> string \<Rightarrow> string \<Rightarrow> string \<Rightarrow> string \<Rightarrow> string \<Rightarrow> string \<Rightarrow> string \<Rightarrow> (string \<times> string) list" where
  "vm_options a b f g app runtime var_file disk serial shared usb =
     nics (\<lambda>_. []) 0 [(JStr a, f), (JStr b, g)] @ machine_options app runtime var_file disk serial shared
     @ concat (map (redirection usb) [0, 1, 2, 3]) @ port_options runtime"

lemmas option_defs = option_fields_def vm_options_def machine_options_def port_options_def redirection_def nic_options_def py_str_def small_numbers

lemma vm_fields:
  assumes c: "comma_free a" "comma_free b" "comma_free app" "comma_free runtime" "comma_free var_file" "comma_free disk" "comma_free serial"
    "comma_free shared" "comma_free usb"
  and os: "os = vm_options a b f g app runtime var_file disk serial shared usb"
  shows "option_fields os ''-device'' ''addr'' =
      [''0x1'', ''0x2'', ''0x3'', ''0x4'', ''0x5'', ''0x6'', ''0x7'', ''0x8'', ''0x9'', ''0xa'', ''0xb'', ''0xc'']"
    and "option_fields os ''-device'' ''mac'' = [a, b]"
    and "option_fields os ''-netdev'' ''fd'' = [dec_int f, dec_int g]"
    and "option_fields os ''-drive'' ''file'' = [app @ ''/Resources/edk2-aarch64-code.fd'', var_file, disk]"
    and "option_fields os ''-device'' ''serial'' = [serial]"
    and "option_fields os ''-fsdev'' ''path'' = [shared]"
    and "option_fields os ''-object'' ''mem-path'' = [runtime @ ''/video-frames.bin'', runtime @ ''/camera-frames.bin'']"
    and "option_fields os ''-chardev'' ''path'' = [runtime @ ''/qga.sock'', usb, usb, usb, usb]"
    and "option_fields os ''-netdev'' ''id'' = [''net0'', ''net1'']" "option_fields os ''-device'' ''netdev'' = [''net0'', ''net1'']"
    and "option_fields os ''-drive'' ''id'' = [''disk'']" "option_fields os ''-device'' ''drive'' = [''disk'']"
    and "option_fields os ''-fsdev'' ''id'' = [''shared'']" "option_fields os ''-device'' ''fsdev'' = [''shared'']"
    and "option_fields os ''-audiodev'' ''id'' = [''audio0'']" "option_fields os ''-device'' ''audiodev'' = [''audio0'']"
    and "option_fields os ''-object'' ''id'' = [''video-frames'', ''camera-frames'']" "option_fields os ''-device'' ''memdev'' = [''video-frames'', ''camera-frames'']"
    and "option_fields os ''-chardev'' ''id'' =
      [''vdagent'', ''qga'', ''usbredir0'', ''usbredir1'', ''usbredir2'', ''usbredir3'', ''lhinput'', ''ashacky-status'', ''ashacky-control'']"
    and "option_fields os ''-device'' ''chardev'' =
      [''vdagent'', ''qga'', ''usbredir0'', ''usbredir1'', ''usbredir2'', ''usbredir3'', ''lhinput'', ''ashacky-status'', ''ashacky-control'']"
  unfolding os by (simp_all add: option_defs split_on_segment split_on_all c)

text \<open>Every back end has its own name, and every name a device refers to is declared.\<close>

definition wired :: "(string \<times> string) list \<Rightarrow> bool" where
  "wired os \<longleftrightarrow> list_all (\<lambda>(kind, key). distinct (option_fields os kind ''id'') \<and> set (option_fields os ''-device'' key) \<subseteq> set (option_fields os kind ''id''))
     [(''-netdev'', ''netdev''), (''-drive'', ''drive''), (''-fsdev'', ''fsdev''), (''-audiodev'', ''audiodev''), (''-object'', ''memdev''), (''-chardev'', ''chardev'')]"

section \<open>The planned VM\<close>

lemma comma_free_path: "comma_free s \<Longrightarrow> comma_free (pathlib_str s)"
  using pathlib_chars [of s] by (auto simp: comma_free_def)

lemma comma_free_append [simp]: "comma_free (s @ t) \<longleftrightarrow> comma_free s \<and> comma_free t" "comma_free (c # s) \<longleftrightarrow> c \<noteq> CHR '','' \<and> comma_free s" "comma_free []"
  by (auto simp: comma_free_def)

lemma comma_free_child: "comma_free p \<Longrightarrow> comma_free n \<Longrightarrow> comma_free (path_child p n)"
  by (simp add: path_child_def)

lemma plain_path_comma_free: "plain_path s \<Longrightarrow> comma_free s"
  by (auto simp: plain_path_def comma_free_def list_all_iff)

lemma to_hex_comma_free: "comma_free (to_hex bs)"
proof -
  have "hex_char n \<noteq> CHR '',''" for n using is_hex_char [of n] by (auto simp: is_hex_def hex_digit_def)
  then have "list_all (\<lambda>c. c \<noteq> CHR '','') (to_hex bs)" by (rule to_hex_all)
  then show ?thesis by (auto simp: comma_free_def list_all_iff)
qed

lemma mac_comma_free: "comma_free (mac_text bs)"
proof -
  have "comma_free (join '':'' (map (\<lambda>b. to_hex [b]) bs))"
    using join_chars [of "'':''" "map (\<lambda>b. to_hex [b]) bs"] to_hex_comma_free by (fastforce simp: comma_free_def)
  then show ?thesis by (simp add: mac_text_def)
qed

lemma plan_comma_free:
  assumes l: "plan_locals (JDict d) rn = Ret l" "random_ok rn" "plan_facts d"
  shows "comma_free (fst (lo_macs l))" "comma_free (snd (lo_macs l))" "comma_free (lo_app l)" "comma_free (lo_serial l)"
    "comma_free n \<Longrightarrow> comma_free (private_path l n)" "comma_free n \<Longrightarrow> comma_free (runtime_path l n)"
proof -
  show "comma_free (fst (lo_macs l))" "comma_free (snd (lo_macs l))" using plan_locals_macs [OF l(1,2)] mac_comma_free by auto
  show "comma_free (lo_serial l)" using plan_locals_facts(3) [OF l(1)] to_hex_comma_free by simp
  obtain b where b: "dict_get d ''privateDirectory'' = JStr b" "lo_base l = pathlib_str b" using plan_locals_facts(8) [OF l(1)] by auto
  have "plain_path b" using l(3) b(1) unfolding plan_facts_def by auto
  then show "comma_free n \<Longrightarrow> comma_free (private_path l n)"
    unfolding private_path_def b(2) by (intro comma_free_child comma_free_path) (simp_all add: plain_path_comma_free)
  show "comma_free n \<Longrightarrow> comma_free (runtime_path l n)"
    unfolding runtime_path_def lo_runtime_def by (simp del: dec_int.simps)
  obtain c where c: "dict_get d ''checkout'' = JStr c" "lo_checkout l = pathlib_str c" using plan_locals_facts(9) [OF l(1)] by auto
  have "plain_path c" using l(3) c(1) unfolding plan_facts_def by auto
  then show "comma_free (lo_app l)"
    unfolding lo_app_def c(2) by (intro comma_free_child comma_free_path) (simp_all add: plain_path_comma_free)
qed

lemma device_options_planned:
  assumes "plan_locals (JDict d) rn = Ret l"
  shows "device_options rp app (plan_vm l) [(JStr a, f), (JStr b, g)] runtime (JStr v) (JStr w) (JStr s) (JStr t) (JStr u) =
    vm_options a b f g app runtime v w s t u"
  by (simp add: device_options_def vm_options_def plan_vm_def nic_options_def py_str_def del: dec_int.simps)

lemma arguments_planned:
  assumes "mkdir (pathlib_str (private_path l ''runtime'')) = Ret ()" "plan_locals (JDict d) rn = Ret l"
  shows "arguments rp app mkdir (plan_vm l) [f, g] = Ret (head_arguments rp app (plan_vm l) (JStr (lo_identity l)) @
    options (vm_options (fst (lo_macs l)) (snd (lo_macs l)) f g app (pathlib_str (private_path l ''runtime'')) (private_path l ''vars.qcow2'')
      (private_path l ''guest.qcow2'') (lo_serial l) (private_path l ''shared'') (runtime_path l ''usb/redirect.sock'')))"
proof -
  have i: "jitem (JDict (plan_vm l)) ''runtime'' = Ret (JStr (private_path l ''runtime''))" "jitem (JDict (plan_vm l)) ''uuid'' = Ret (JStr (lo_identity l))"
    "jitem (JDict (plan_vm l)) ''macs'' = Ret (JList [JStr (fst (lo_macs l)), JStr (snd (lo_macs l))])"
    "jitem (JDict (plan_vm l)) ''vars'' = Ret (JStr (private_path l ''vars.qcow2''))" "jitem (JDict (plan_vm l)) ''disk'' = Ret (JStr (private_path l ''guest.qcow2''))"
    "jitem (JDict (plan_vm l)) ''diskSerial'' = Ret (JStr (lo_serial l))" "jitem (JDict (plan_vm l)) ''shared'' = Ret (JStr (private_path l ''shared''))"
    "jitem (JDict (plan_vm l)) ''usbSocket'' = Ret (JStr (runtime_path l ''usb/redirect.sock''))"
    by (simp_all add: plan_vm_def)
  show ?thesis
    unfolding arguments_def i using assms(1) by (simp add: device_options_planned [OF assms(2)] Let_def)
qed

section \<open>Properties\<close>



end
