(* ===== verification/Repo_Check.thy ===== *)
theory Repo_Check
  imports Install_Plan
begin

text \<open>
  \<^verbatim>\<open>tools/ashacky.py\<close>: the checks of the repository (\<^verbatim>\<open>check_icon\<close>, \<^verbatim>\<open>check\<close>) and the constants compiled into the privileged helpers
  (\<^verbatim>\<open>host_constants\<close>). Inputs are the files with their contents, and what the Python parser, the JSON decoder and \<^verbatim>\<open>bash -n\<close> say of them.
\<close>

unbundle bit_operations_syntax

section \<open>The icon\<close>

text \<open>\<^verbatim>\<open>zlib.crc32\<close>.\<close>

definition crc_bit :: "32 word \<Rightarrow> 32 word" where
  "crc_bit c = (if c AND 1 = 1 then drop_bit 1 c XOR 0xEDB88320 else drop_bit 1 c)"

definition crc_byte :: "32 word \<Rightarrow> byte \<Rightarrow> 32 word" where
  "crc_byte c b = (crc_bit ^^ 8) (c XOR ucast b)"

definition crc32 :: "bytes \<Rightarrow> nat" where
  "crc32 bs = unat (NOT (foldl crc_byte 0xFFFFFFFF bs))"

definition IHDR :: bytes where "IHDR = [0x49, 0x48, 0x44, 0x52]"

definition sRGB :: bytes where "sRGB = [0x73, 0x52, 0x47, 0x42]"

definition IDAT :: bytes where "IDAT = [0x49, 0x44, 0x41, 0x54]"

definition IEND :: bytes where "IEND = [0x49, 0x45, 0x4E, 0x44]"

definition png_signature :: bytes where
  "png_signature = [0x89, 0x50, 0x4E, 0x47, 0x0D, 0x0A, 0x1A, 0x0A]"

text \<open>\<^verbatim>\<open>struct.unpack_from('>IIBBBBB', ...)\<close> of the header chunk.\<close>

definition header_expected :: "bytes \<Rightarrow> bool" where
  "header_expected b \<longleftrightarrow> from_be (take 4 b) = 1024 \<and> from_be (take 4 (drop 4 b)) = 1024 \<and> take 5 (drop 8 b) = [8, 6, 0, 0, 0]"

text \<open>The loop: \<open>rest\<close> is the data from \<^verbatim>\<open>offset\<close> on.\<close>

function icon_loop :: "bytes \<Rightarrow> bytes list \<Rightarrow> bytes list outcome" where
  "icon_loop rest chunks =
     (if length rest < 12 then Ret chunks else
      let size = from_be (take 4 rest); kind = take 4 (drop 4 rest) in
      if size + 12 > length rest \<or> kind \<notin> {IHDR, sRGB, IDAT, IEND} then Exc (ValueError ''Unexpected icon chunk or embedded metadata'')
      else if crc32 (take (size + 4) (drop 4 rest)) \<noteq> from_be (take 4 (drop (size + 8) rest)) then Exc (ValueError ''Invalid icon checksum'')
      else if kind = IHDR \<and> (length (chunks @ [kind]) \<noteq> 1 \<or> size \<noteq> 13 \<or> \<not> header_expected (drop 8 rest))
      then Exc (ValueError ''Expected a 1024x1024 RGBA icon'')
      else if kind = sRGB \<and> (size \<noteq> 1 \<or> rest ! 8 > 3) then Exc (ValueError ''Invalid icon color profile'')
      else if kind = IEND then (if size \<noteq> 0 \<or> size + 12 \<noteq> length rest then Exc (ValueError ''Unexpected data after icon'') else Ret (chunks @ [kind]))
      else icon_loop (drop (size + 12) rest) (chunks @ [kind]))"
  by pat_completeness auto
termination
  by (relation "measure (\<lambda>(rest, _). length rest)") auto

declare icon_loop.simps [simp del]

definition check_icon :: "bytes \<Rightarrow> unit outcome" where
  "check_icon data =
     (if take 8 data \<noteq> png_signature then Exc (ValueError ''Expected a PNG icon'') else
      bindO (icon_loop (drop 8 data) []) (\<lambda>chunks.
        if chunks = [] \<or> hd chunks \<noteq> IHDR \<or> last chunks \<noteq> IEND \<or> IDAT \<notin> set chunks then Exc (ValueError ''Incomplete PNG icon'') else Ret ()))"

section \<open>Privacy rules\<close>

definition word_char :: "char \<Rightarrow> bool" where
  "word_char c \<longleftrightarrow> (let n = of_char c :: nat in 48 \<le> n \<and> n \<le> 57 \<or> 65 \<le> n \<and> n \<le> 90 \<or> 97 \<le> n \<and> n \<le> 122 \<or> n = 95)"

definition alnum :: "char \<Rightarrow> bool" where
  "alnum c \<longleftrightarrow> word_char c \<and> c \<noteq> CHR ''_''"

fun after_prefix :: "string \<Rightarrow> string \<Rightarrow> string option" where
  "after_prefix [] s = Some s"
| "after_prefix (p # ps) [] = None"
| "after_prefix (p # ps) (c # s) = (if p = c then after_prefix ps s else None)"

text \<open>\<^verbatim>\<open>\b\<close> after a word character.\<close>

definition word_ends_here :: "string \<Rightarrow> bool" where
  "word_ends_here s \<longleftrightarrow> (case s of [] \<Rightarrow> True | c # _ \<Rightarrow> \<not> word_char c)"

text \<open>\<^verbatim>\<open>re.search\<close>: the pattern as a predicate on the text from some position on, told whether a word character precedes it. The
  patterns' repetitions are over classes that exclude what follows them, so the longest run decides.\<close>

fun search :: "(bool \<Rightarrow> string \<Rightarrow> bool) \<Rightarrow> bool \<Rightarrow> string \<Rightarrow> bool" where
  "search m before [] = m before []"
| "search m before (c # s) = (m before (c # s) \<or> search m (word_char c) s)"

definition home_path_at :: "bool \<Rightarrow> string \<Rightarrow> bool" where
  "home_path_at before s \<longleftrightarrow>
     (let tail = (case after_prefix ''/Users/'' s of Some t \<Rightarrow> Some t | None \<Rightarrow> after_prefix ''/home/'' s) in
      case tail of
        None \<Rightarrow> False
      | Some t \<Rightarrow>
          \<not> (case after_prefix ''example'' t of None \<Rightarrow> False | Some u \<Rightarrow> word_ends_here u) \<and>
          (let name = takeWhile (\<lambda>c. word_char c \<or> c = CHR ''-'') t in name \<noteq> [] \<and> take 1 (drop (length name) t) = ''/''))"

definition private_key_at :: "bool \<Rightarrow> string \<Rightarrow> bool" where
  "private_key_at before s \<longleftrightarrow>
     list_ex (\<lambda>kind. after_prefix (''-----BEGIN '' @ kind @ ''PRIVATE KEY-----'') s \<noteq> None) [[], ''OPENSSH '', ''RSA '', ''EC '']"

definition github_at :: "bool \<Rightarrow> string \<Rightarrow> bool" where
  "github_at before s \<longleftrightarrow> \<not> before \<and>
     (list_ex (\<lambda>k. case after_prefix (''gh'' @ [k] @ ''_'') s of None \<Rightarrow> False | Some t \<Rightarrow> length (takeWhile alnum t) \<ge> 30) ''pousr'' \<or>
      (case after_prefix ''github_pat_'' s of None \<Rightarrow> False | Some t \<Rightarrow> length (takeWhile word_char t) \<ge> 40))"

definition mdns_at :: "bool \<Rightarrow> string \<Rightarrow> bool" where
  "mdns_at before s \<longleftrightarrow> \<not> before \<and>
     (case s of
        [] \<Rightarrow> False
      | c # _ \<Rightarrow> alnum c \<and>
          (let label = takeWhile (\<lambda>c. alnum c \<or> c = CHR ''-'') s; rest = drop (length label) s in
           map ascii_lower (take 6 rest) = ''.local'' \<and> word_ends_here (drop 6 rest)))"

definition private_rules :: "(string \<times> (bool \<Rightarrow> string \<Rightarrow> bool)) list" where
  "private_rules =
     [(''personal home path'', home_path_at), (''private key'', private_key_at), (''GitHub credential'', github_at),
      (''local mDNS hostname'', mdns_at)]"

definition broken_rules :: "string \<Rightarrow> string list" where
  "broken_rules content = map fst (filter (\<lambda>(name, m). search m False content) private_rules)"

section \<open>The check\<close>

text \<open>What reading or parsing a file gives: a value, an exception that the report names by its type, or one that ends the check.\<close>

datatype 'a reading = Got 'a | Caught string | Raised exn

text \<open>A file: its path in the repository, its bytes, its text, and what the Python parser, the JSON decoder and \<^verbatim>\<open>bash -n\<close> say of that text.\<close>

record repo_file =
  rf_relative :: string
  rf_bytes :: "bytes reading"
  rf_text :: "string reading"
  rf_python :: "unit reading"
  rf_json :: "unit reading"
  rf_shell :: "unit reading"

text \<open>A directory: the names of its files, and its subdirectories.\<close>

datatype tree = Tree "string list" "(string \<times> tree) list"

definition skipped :: "string list" where
  "skipped = [''.git'', ''build'', ''third_party'', ''.local'', ''__pycache__'', ''.venv'']"

text \<open>The relative paths of the files, in the order of \<^verbatim>\<open>os.walk\<close>; \<open>here\<close> is the directory's own path with a slash after it.\<close>

fun source_files :: "string \<Rightarrow> tree \<Rightarrow> string list" where
  "source_files here (Tree files children) =
     map (\<lambda>name. here @ name) files @
     concat (map (\<lambda>(name, t). if name \<in> set skipped then [] else source_files (here @ name @ ''/'') t) children)"

text \<open>\<^verbatim>\<open>Path.suffix\<close>: from the last dot of the name on, unless the name begins or ends with it.\<close>

definition path_name :: "string \<Rightarrow> string" where
  "path_name s = last (split_on (CHR ''/'') s)"

definition path_suffix :: "string \<Rightarrow> string" where
  "path_suffix s =
     (let name = path_name s; tail = takeWhile (\<lambda>c. c \<noteq> CHR ''.'') (rev name) in
      if length tail + 1 < length name \<and> tail \<noteq> [] then CHR ''.'' # rev tail else [])"

definition forbidden_suffixes :: "string list" where
  "forbidden_suffixes = [''.qcow2'', ''.img'', ''.iso'', ''.nvram'', ''.pem'', ''.key'', ''.log'', ''.so'', ''.dylib'', ''.ko'']"

definition begins :: "string \<Rightarrow> string \<Rightarrow> bool" where
  "begins p s \<longleftrightarrow> after_prefix p s \<noteq> None"

definition file_syntax :: "repo_file \<Rightarrow> string \<Rightarrow> unit reading" where
  "file_syntax f content =
     (if path_suffix (rf_relative f) = ''.py'' \<or> begins ''#!/usr/bin/python3'' content \<or> begins ''#!/usr/bin/env python3'' content then rf_python f
      else if path_suffix (rf_relative f) = ''.json'' then rf_json f
      else if begins ''#!/bin/sh'' content \<or> begins ''#!/bin/bash'' content then rf_shell f
      else Got ())"

definition read_icon :: "bytes \<Rightarrow> unit reading" where
  "read_icon data = (case check_icon data of Ret u \<Rightarrow> Got u | Exc e \<Rightarrow> if is_ValueError e then Caught ''ValueError'' else Raised e | NoRet \<Rightarrow> Got ())"

text \<open>The failures that a file adds to the report.\<close>

definition check_file :: "repo_file \<Rightarrow> string list outcome" where
  "check_file f =
     (let failure = (\<lambda>reason. rf_relative f @ '': '' @ reason) in
      if path_suffix (rf_relative f) \<in> set forbidden_suffixes then Ret [failure ''private/generated artifact'']
      else if rf_relative f = ''host/frontend/assets/Ashacky.png'' then
        (case rf_bytes f of
           Got data \<Rightarrow> (case read_icon data of Got _ \<Rightarrow> Ret [] | Caught n \<Rightarrow> Ret [failure n] | Raised e \<Rightarrow> Exc e)
         | Caught n \<Rightarrow> Ret [failure n]
         | Raised e \<Rightarrow> Exc e)
      else
        (case rf_text f of
           Got content \<Rightarrow>
             (case file_syntax f content of
                Got _ \<Rightarrow> Ret (map failure (broken_rules content))
              | Caught n \<Rightarrow> Ret [failure n]
              | Raised e \<Rightarrow> Exc e)
         | Caught n \<Rightarrow> Ret [failure n]
         | Raised e \<Rightarrow> Exc e))"

definition repo_check :: "unit outcome \<Rightarrow> repo_file list \<Rightarrow> unit outcome \<Rightarrow> unit outcome" where
  "repo_check submodules files tests =
     bindO submodules (\<lambda>_.
     bindO (mapO check_file files) (\<lambda>failures.
       if concat failures \<noteq> [] then Exc (RuntimeError (join [CHR 0x0A] (concat failures))) else tests))"

section \<open>Constants of the helpers\<close>

definition constant_path :: "json \<Rightarrow> bool" where
  "constant_path v =
     (case v of JStr s \<Rightarrow> absolute s \<and> list_all (\<lambda>c. 32 \<le> (of_char c :: nat) \<and> c \<noteq> CHR 0x22 \<and> c \<noteq> CHR 0x5C) s | _ \<Rightarrow> False)"

fun text_values :: "json list \<Rightarrow> string list outcome" where
  "text_values [] = Ret []"
| "text_values (v # vs) = bindO (text_value v) (\<lambda>s. bindO (text_values vs) (\<lambda>ss. Ret (s # ss)))"

text \<open>The contents of \<^verbatim>\<open>installation.h\<close> and of \<^verbatim>\<open>Installation.swift\<close>.\<close>

definition installation_h :: "int \<Rightarrow> int \<Rightarrow> string \<Rightarrow> string" where
  "installation_h uid gid usb = text_lines
     [''#define ASHACKY_USER_ID '' @ dec_int uid, ''#define ASHACKY_GROUP_ID '' @ dec_int gid, ''#define ASHACKY_USB_DIRECTORY '' @ json_str usb]"

definition installation_swift :: "string \<Rightarrow> string \<Rightarrow> string list \<Rightarrow> string" where
  "installation_swift runtime policy clients = text_lines
     [''enum Installation {'', ''    static let powerRuntime = '' @ json_str runtime, ''    static let powerPolicy = '' @ json_str policy,
      ''    static let powerClients = ['' @ join '', '' (map json_str clients) @ '']'', ''}'']"

definition host_constants :: "json \<Rightarrow> (string \<times> string) outcome" where
  "host_constants config =
     bindO (jitem config ''userID'') (\<lambda>uid. bindO (jitem config ''groupID'') (\<lambda>gid.
     bindO (require (positive_int uid \<and> positive_int gid) ''Host UID and GID must be non-root positive integers'') (\<lambda>_.
     bindO (mapO (jitem config) [''usbRuntime'', ''powerRuntime'', ''powerPolicy'']) (\<lambda>paths.
     bindO (jitem config ''powerClients'') (\<lambda>clients.
     bindO (case clients of JList (c # cs) \<Rightarrow> Ret (c # cs) | _ \<Rightarrow> Exc (ValueError ''At least one exact control executable path is required'')) (\<lambda>cs.
     bindO (each (\<lambda>v. require (constant_path v) ''Expected an absolute path without control/escape characters'') (paths @ cs)) (\<lambda>_.
     bindO (text_values (paths @ cs)) (\<lambda>texts.
     bindO (require (length (texts ! 0 @ ''/redirect.sock'') < 104) ''USB Unix socket path is too long'') (\<lambda>_.
     bindO (int_value uid) (\<lambda>u. bindO (int_value gid) (\<lambda>g.
       Ret (installation_h u g (texts ! 0), installation_swift (texts ! 1) (texts ! 2) (drop 3 texts)))))))))))))"

section \<open>The icon's structure\<close>

definition png_chunk :: "bytes \<Rightarrow> bytes \<Rightarrow> bytes" where
  "png_chunk kind body = to_be 4 (length body) @ kind @ body @ to_be 4 (crc32 (kind @ body))"

definition icon_header :: bytes where
  "icon_header = to_be 4 1024 @ to_be 4 1024 @ [8, 6, 0, 0, 0]"

text \<open>The chunks allowed between the header and the end.\<close>

definition plain_chunk :: "bytes \<times> bytes \<Rightarrow> bool" where
  "plain_chunk kb \<longleftrightarrow> length (snd kb) < 2 ^ 32 \<and> (fst kb = IDAT \<or> fst kb = sRGB \<and> (\<exists>x \<le> 3. snd kb = [x]))"

lemma kinds [simp]: "length IHDR = 4" "length sRGB = 4" "length IDAT = 4" "length IEND = 4" "IHDR \<noteq> sRGB" "IHDR \<noteq> IDAT" "IHDR \<noteq> IEND" "sRGB \<noteq> IDAT" "sRGB \<noteq> IEND"
  "IDAT \<noteq> IEND" "sRGB \<noteq> IHDR" "IDAT \<noteq> IHDR" "IEND \<noteq> IHDR" "IDAT \<noteq> sRGB" "IEND \<noteq> sRGB" "IEND \<noteq> IDAT"
  by (simp_all add: IHDR_def sRGB_def IDAT_def IEND_def)

lemma crc32_less: "crc32 bs < 256 ^ 4"
  using unsigned_less [of "NOT (foldl crc_byte 0xFFFFFFFF bs)", where ?'a = nat] by (simp add: crc32_def)

lemma header_expected_iff: "length b = 13 \<Longrightarrow> header_expected (b @ x) \<longleftrightarrow> b = icon_header"
proof -
  assume l: "length b = 13"
  have n: "from_be (take 4 (b @ x)) = 1024 \<longleftrightarrow> take 4 b = to_be 4 1024" "from_be (take 4 (drop 4 (b @ x))) = 1024 \<longleftrightarrow> take 4 (drop 4 b) = to_be 4 1024"
    using l be32.dec_inj [of "take 4 b" "to_be 4 1024"] be32.dec_inj [of "take 4 (drop 4 b)" "to_be 4 1024"] by (simp_all add: from_be_to_be)
  have b: "b = take 4 b @ take 4 (drop 4 b) @ take 5 (drop 8 b)"
    using l append_take_drop_id [of 4 b] append_take_drop_id [of 4 "drop 4 b"] by (simp add: take_all)
  have t: "take 5 (drop 8 (b @ x)) = take 5 (drop 8 b)" using l by simp
  show ?thesis
  proof
    assume "header_expected (b @ x)"
    then show "b = icon_header" using b unfolding header_expected_def n t icon_header_def by metis
  next
    assume "b = icon_header"
    then show "header_expected (b @ x)" unfolding header_expected_def n t by (simp add: icon_header_def)
  qed
qed

lemma chunk_form:
  assumes "12 \<le> length rest" "n = from_be (take 4 rest)" "n + 12 \<le> length rest"
    "crc32 (take (n + 4) (drop 4 rest)) = from_be (take 4 (drop (n + 8) rest))"
  shows "\<exists>k b. length k = 4 \<and> length b = n \<and> n < 2 ^ 32 \<and> rest = png_chunk k b @ drop (n + 12) rest"
proof (intro exI conjI)
  let ?k = "take 4 (drop 4 rest)" and ?b = "take n (drop 8 rest)"
  show "length ?k = 4" "length ?b = n" using assms(1,3) by simp_all
  show "n < 2 ^ 32" using from_be_less [of "take 4 rest"] assms(1,2) by simp
  have s: "to_be 4 n = take 4 rest" using assms(1,2) be32.enc_dec [of "take 4 rest"] by simp
  have kb: "take (n + 4) (drop 4 rest) = ?k @ ?b"
    using take_add [of 4 n "drop 4 rest"] by (simp add: add.commute)
  have c: "to_be 4 (crc32 (?k @ ?b)) = take 4 (drop (n + 8) rest)"
    using assms(3,4) be32.enc_dec [of "take 4 (drop (n + 8) rest)"] unfolding kb by simp
  have "rest = take 4 rest @ ?k @ ?b @ take 4 (drop (n + 8) rest) @ drop (n + 12) rest"
  proof -
    have "drop (n + 8) rest = take 4 (drop (n + 8) rest) @ drop (n + 12) rest"
      using append_take_drop_id [of 4 "drop (n + 8) rest"] by (simp add: add.commute)
    moreover have "drop 8 rest = ?b @ drop (n + 8) rest" using append_take_drop_id [of n "drop 8 rest"] by (simp add: add.commute)
    moreover have "drop 4 rest = ?k @ drop 8 rest" using append_take_drop_id [of 4 "drop 4 rest"] by simp
    ultimately show ?thesis using append_take_drop_id [of 4 rest] by metis
  qed
  then show "rest = png_chunk ?k ?b @ drop (n + 12) rest"
    unfolding png_chunk_def using s c \<open>length ?b = n\<close> by simp
qed

lemma icon_loop_chunk:
  assumes "length k = 4" "length b < 2 ^ 32"
  shows "icon_loop (png_chunk k b @ rest) chunks =
    (if k \<notin> {IHDR, sRGB, IDAT, IEND} then Exc (ValueError ''Unexpected icon chunk or embedded metadata'')
     else if k = IHDR \<and> (chunks \<noteq> [] \<or> b \<noteq> icon_header) then Exc (ValueError ''Expected a 1024x1024 RGBA icon'')
     else if k = sRGB \<and> \<not> (\<exists>x \<le> 3. b = [x]) then Exc (ValueError ''Invalid icon color profile'')
     else if k = IEND then (if b \<noteq> [] \<or> rest \<noteq> [] then Exc (ValueError ''Unexpected data after icon'') else Ret (chunks @ [k]))
     else icon_loop rest (chunks @ [k]))"
proof -
  define r where r: "r = png_chunk k b @ rest"
  have l: "length r = length b + 12 + length rest" using assms(1) by (simp add: r png_chunk_def)
  have s: "from_be (take 4 r) = length b" using assms(2) by (simp add: r png_chunk_def from_be_to_be)
  have kd: "take 4 (drop 4 r) = k" using assms(1) by (simp add: r png_chunk_def)
  have d8: "drop 8 r = b @ to_be 4 (crc32 (k @ b)) @ rest" using assms(1) by (simp add: r png_chunk_def)
  have c1: "take (length b + 4) (drop 4 r) = k @ b" using assms(1) by (simp add: r png_chunk_def)
  have c2: "from_be (take 4 (drop (length b + 8) r)) = crc32 (k @ b)"
    using assms(1) crc32_less [of "k @ b"] by (simp add: r png_chunk_def from_be_to_be)
  have dr: "drop (length b + 12) r = rest" using assms(1) by (simp add: r png_chunk_def)
  have n8: "length b = 1 \<Longrightarrow> r ! 8 = hd b" using arg_cong [OF d8, of hd] l by (cases b) (auto simp: hd_drop_conv_nth nth_append)
  have h: "(length b \<noteq> 13 \<or> \<not> header_expected (drop 8 r)) = (b \<noteq> icon_header)"
    using header_expected_iff [of b "to_be 4 (crc32 (k @ b)) @ rest"] unfolding d8 by (auto simp: icon_header_def)
  have p: "(length b \<noteq> 1 \<or> r ! 8 > 3) = (\<not> (\<exists>x \<le> 3. b = [x]))"
  proof (cases "length b = 1")
    case True
    then obtain y where y: "b = [y]" by (auto simp: length_Suc_conv)
    show ?thesis using n8 [OF True] unfolding y by (simp add: not_le)
  qed auto
  have e: "(k = IHDR \<and> (length (chunks @ [k]) \<noteq> 1 \<or> length b \<noteq> 13 \<or> \<not> header_expected (drop 8 r))) = (k = IHDR \<and> (chunks \<noteq> [] \<or> b \<noteq> icon_header))"
    "(length b \<noteq> 0 \<or> length b + 12 \<noteq> length r) = (b \<noteq> [] \<or> rest \<noteq> [])" "(length r < 12) = False" "(length b + 12 > length r) = False"
    "(crc32 (k @ b) \<noteq> crc32 (k @ b)) = False"
    using h l by auto
  show ?thesis
    unfolding r [symmetric] icon_loop.simps [of r chunks] Let_def s kd c1 c2 dr e p if_False simp_thms by (rule TrueI)
qed

lemma icon_loop_sound:
  assumes "icon_loop rest chunks = Ret ks" "chunks \<noteq> []" "IEND \<notin> set chunks" "last ks = IEND"
  shows "\<exists>mid. rest = concat (map (\<lambda>(k, b). png_chunk k b) mid) @ png_chunk IEND [] \<and> ks = chunks @ map fst mid @ [IEND] \<and> list_all plain_chunk mid"
  using assms
proof (induction "length rest" arbitrary: rest chunks rule: less_induct)
  case less
  note 1 = less(1) less(2) less(3) less(4) less(5)
  let ?n = "from_be (take 4 rest)"
  show ?case
  proof (cases "length rest < 12")
    case True
    then have "ks = chunks" using 1(2) by (subst (asm) icon_loop.simps) simp
    then show ?thesis using 1(3-5) last_in_set [of chunks] by auto
  next
    case False
    then have ok: "?n + 12 \<le> length rest" "crc32 (take (?n + 4) (drop 4 rest)) = from_be (take 4 (drop (?n + 8) rest))"
      using 1(2) by (subst (asm) icon_loop.simps, simp add: Let_def split: if_splits)+
    obtain k b where kb: "length k = 4" "length b = ?n" "?n < 2 ^ 32" "rest = png_chunk k b @ drop (?n + 12) rest"
      using chunk_form [of rest ?n] False ok by auto
    have lb: "length b < 2 ^ 32" using kb(2,3) by simp
    have step: "icon_loop (png_chunk k b @ drop (?n + 12) rest) chunks = Ret ks" using 1(2) kb(4) by simp
    have less_length: "length (drop (?n + 12) rest) < length rest" using ok(1) by simp
    show ?thesis
    proof (cases "k = IEND")
      case True
      then have "b = [] \<and> drop (?n + 12) rest = [] \<and> ks = chunks @ [IEND]"
        using step unfolding icon_loop_chunk [OF kb(1) lb] by (auto split: if_splits)
      then show ?thesis using kb(4) True by (intro exI [of _ "[]"]) auto
    next
      case False
      then have p: "plain_chunk (k, b)" "icon_loop (drop (?n + 12) rest) (chunks @ [k]) = Ret ks"
        using step 1(3) lb unfolding icon_loop_chunk [OF kb(1) lb] by (auto simp: plain_chunk_def split: if_splits)
      have "\<exists>mid. drop (?n + 12) rest = concat (map (\<lambda>(k, b). png_chunk k b) mid) @ png_chunk IEND [] \<and>
          ks = (chunks @ [k]) @ map fst mid @ [IEND] \<and> list_all plain_chunk mid"
        using kb(1,2) False 1(4,5) less_length by (intro 1(1) [OF _ p(2)]) auto
      then obtain mid where "drop (?n + 12) rest = concat (map (\<lambda>(k, b). png_chunk k b) mid) @ png_chunk IEND []"
        "ks = (chunks @ [k]) @ map fst mid @ [IEND]" "list_all plain_chunk mid" by blast
      then show ?thesis using kb(4) p(1) by (intro exI [of _ "(k, b) # mid"]) simp
    qed
  qed
qed

lemma icon_loop_complete:
  assumes "list_all plain_chunk mid" "chunks \<noteq> []"
  shows "icon_loop (concat (map (\<lambda>(k, b). png_chunk k b) mid) @ png_chunk IEND []) chunks = Ret (chunks @ map fst mid @ [IEND])"
  using assms
proof (induction mid arbitrary: chunks)
  case Nil
  show ?case using icon_loop_chunk [of IEND "[]" "[]" chunks] by simp
next
  case (Cons kb mid)
  obtain k b where kb: "kb = (k, b)" by (cases kb)
  have p: "length b < 2 ^ 32" "k = IDAT \<or> k = sRGB \<and> (\<exists>x \<le> 3. b = [x])" using Cons.prems(1) by (auto simp: kb plain_chunk_def)
  have k4: "length k = 4" using p(2) by auto
  show ?case
    using Cons.IH [of "chunks @ [k]"] Cons.prems p(2)
      icon_loop_chunk [OF k4 p(1), of "concat (map (\<lambda>(k, b). png_chunk k b) mid) @ png_chunk IEND []" chunks] unfolding kb by auto
qed

lemma icon_first_chunk:
  assumes "icon_loop rest [] = Ret ks" "ks \<noteq> []" "hd ks = IHDR"
  shows "\<exists>tail. rest = png_chunk IHDR icon_header @ tail \<and> icon_loop tail [IHDR] = Ret ks"
proof -
  let ?n = "from_be (take 4 rest)"
  have long: "\<not> length rest < 12" using assms(1,2) by (subst (asm) icon_loop.simps) auto
  then have ok: "?n + 12 \<le> length rest" "crc32 (take (?n + 4) (drop 4 rest)) = from_be (take 4 (drop (?n + 8) rest))"
    using assms(1) by (subst (asm) icon_loop.simps, simp add: Let_def split: if_splits)+
  obtain k b where kb: "length k = 4" "length b = ?n" "?n < 2 ^ 32" "rest = png_chunk k b @ drop (?n + 12) rest"
    using chunk_form [of rest ?n] long ok by auto
  have lb: "length b < 2 ^ 32" using kb(2,3) by simp
  have step: "icon_loop (png_chunk k b @ drop (?n + 12) rest) [] = Ret ks" using assms(1) kb(4) by simp
  have head: "icon_loop r (c # cs) = Ret xs \<Longrightarrow> hd xs = c" for r c cs xs
  proof (induction r "c # cs" arbitrary: cs rule: icon_loop.induct)
    case (1 r)
    then show ?case by (subst (asm) (2) icon_loop.simps) (auto simp: Let_def split: if_splits)
  qed
  have "k = IHDR"
    using step head assms(3) unfolding icon_loop_chunk [OF kb(1) lb] by (auto split: if_splits)
  then have "b = icon_header" "icon_loop (drop (?n + 12) rest) [IHDR] = Ret ks"
    using step unfolding icon_loop_chunk [OF kb(1) lb] by (auto split: if_splits)
  then show ?thesis using kb(4) \<open>k = IHDR\<close> by metis
qed

section \<open>What a passed check means\<close>

lemma search_iff: "search m before s \<longleftrightarrow> (\<exists>pre post. s = pre @ post \<and> m (if pre = [] then before else word_char (last pre)) post)"
proof (induction s arbitrary: before)
  case (Cons c s)
  note IH = Cons.IH
  show ?case
  proof
    assume "search m before (c # s)"
    then consider "m before (c # s)" | "search m (word_char c) s" by auto
    then show "\<exists>pre post. c # s = pre @ post \<and> m (if pre = [] then before else word_char (last pre)) post"
    proof cases
      case 1
      then show ?thesis by (intro exI [of _ "[]"] exI [of _ "c # s"]) simp
    next
      case 2
      then obtain pre post where "s = pre @ post" "m (if pre = [] then word_char c else word_char (last pre)) post" unfolding IH by blast
      then show ?thesis by (intro exI [of _ "c # pre"] exI [of _ post]) (auto split: if_splits)
    qed
  next
    assume "\<exists>pre post. c # s = pre @ post \<and> m (if pre = [] then before else word_char (last pre)) post"
    then obtain pre post where p: "c # s = pre @ post" "m (if pre = [] then before else word_char (last pre)) post" by blast
    show "search m before (c # s)"
    proof (cases pre)
      case (Cons d pre')
      then have "s = pre' @ post" "m (if pre' = [] then word_char c else word_char (last pre')) post" using p by (auto split: if_splits)
      then have "search m (word_char c) s" unfolding IH by blast
      then show ?thesis by simp
    next
      case Nil
      then have "m before (c # s)" using p by simp
      then show ?thesis by simp
    qed
  qed
qed simp

lemma search_here: "m (pre \<noteq> [] \<and> word_char (last pre)) post \<Longrightarrow> search m False (pre @ post)"
  unfolding search_iff by (rule exI [of _ pre], rule exI [of _ post]) (cases "pre = []"; simp)

lemma after_prefix_append [simp]: "after_prefix p (p @ s) = Some s"
  by (induction p) auto

lemma check_file_clean:
  assumes "check_file f = Ret []"
  shows "path_suffix (rf_relative f) \<notin> set forbidden_suffixes"
    "rf_relative f = ''host/frontend/assets/Ashacky.png'' \<Longrightarrow> \<exists>data. rf_bytes f = Got data \<and> read_icon data = Got ()"
    "rf_relative f \<noteq> ''host/frontend/assets/Ashacky.png'' \<Longrightarrow> \<exists>content. rf_text f = Got content \<and> file_syntax f content = Got () \<and> broken_rules content = []"
  using assms unfolding check_file_def Let_def by (auto split: if_splits reading.splits)

lemma repo_check_clean: "repo_check submodules files tests = Ret u \<Longrightarrow> f \<in> set files \<Longrightarrow> check_file f = Ret []"
proof -
  assume r: "repo_check submodules files tests = Ret u" and f: "f \<in> set files"
  obtain fs where fs: "mapO check_file files = Ret fs" "concat fs = []"
    using r unfolding repo_check_def by (auto simp del: concat_eq_Nil_conv split: if_splits)
  then show ?thesis using f
  proof (induction files arbitrary: fs)
    case (Cons x xs)
    then show ?case by auto
  qed simp
qed

lemma rules_clean: "broken_rules content = [] \<Longrightarrow> (n, m) \<in> set private_rules \<Longrightarrow> \<not> search m False content"
  by (auto simp: broken_rules_def filter_empty_conv)

lemma home_path_found:
  assumes "base \<in> {''/Users/'', ''/home/''}" "name \<noteq> []" "list_all (\<lambda>c. word_char c \<or> c = CHR ''-'') name" "\<not> begins ''example'' (name @ ''/'' @ post)"
  shows "home_path_at b (base @ name @ ''/'' @ post)"
proof -
  have slash: "\<not> (word_char (CHR ''/'') \<or> CHR ''/'' = CHR ''-'')" by (simp add: word_char_def)
  have t: "takeWhile (\<lambda>c. word_char c \<or> c = CHR ''-'') (name @ CHR ''/'' # post) = name"
    using assms(3) slash by (simp add: list_all_iff takeWhile_append takeWhile_eq_all_conv)
  have "(case after_prefix ''/Users/'' (base @ name @ ''/'' @ post) of Some t \<Rightarrow> Some t | None \<Rightarrow> after_prefix ''/home/'' (base @ name @ ''/'' @ post)) = Some (name @ ''/'' @ post)"
    using assms(1) by auto
  then show ?thesis
    using assms(2,4) t unfolding home_path_at_def Let_def by (simp add: begins_def)
qed

lemma private_key_found: "kind \<in> {[], ''OPENSSH '', ''RSA '', ''EC ''} \<Longrightarrow> private_key_at b (''-----BEGIN '' @ kind @ ''PRIVATE KEY-----'' @ post)"
  by (auto simp: private_key_at_def)

lemma github_found:
  assumes "k \<in> set ''pousr''" "length token \<ge> 30" "list_all alnum token"
  shows "github_at False (''gh'' @ [k] @ ''_'' @ token @ post)"
proof -
  have "length (takeWhile alnum (token @ post)) \<ge> 30" using assms(2,3) by (simp add: list_all_iff takeWhile_append)
  then show ?thesis using assms(1) by (auto simp: github_at_def)
qed

section \<open>The helpers' constants\<close>

definition literal_char :: "char \<Rightarrow> bool" where
  "literal_char c \<longleftrightarrow> 32 \<le> (of_char c :: nat) \<and> c \<noteq> CHR 0x22 \<and> c \<noteq> CHR 0x5C"

lemma json_str_literal: "list_all literal_char s \<Longrightarrow> json_str s = dquoted s"
proof -
  have q: "c \<noteq> CHR 0x22 \<longleftrightarrow> (of_char c :: nat) \<noteq> 34" "c \<noteq> CHR 0x5C \<longleftrightarrow> (of_char c :: nat) \<noteq> 92" for c
    using of_char_eq_iff [of c "CHR 0x22", where ?'a = nat] of_char_eq_iff [of c "CHR 0x5C", where ?'a = nat] by simp_all
  have "literal_char c \<Longrightarrow> json_char c = [c]" for c unfolding literal_char_def q by (auto simp: json_char_def Let_def)
  then have "list_all literal_char s \<Longrightarrow> concat (map json_char s) = s" by (induction s) auto
  then show "list_all literal_char s \<Longrightarrow> json_str s = dquoted s" by (simp add: json_str_def dquoted_def)
qed

lemma constant_path_iff: "constant_path (JStr s) \<longleftrightarrow> absolute s \<and> list_all literal_char s"
  unfolding constant_path_def literal_char_def by simp

lemma dec_length_pow: "n < 10 ^ Suc k \<Longrightarrow> length (dec n) \<le> Suc k"
proof (induction k arbitrary: n)
  case 0
  then show ?case by (simp add: dec_small)
next
  case (Suc k)
  show ?case
  proof (cases "n < 10")
    case False
    have "n div 10 < 10 ^ Suc k" using Suc.prems by (simp add: less_mult_imp_div_less mult.commute)
    then show ?thesis using Suc.IH [of "n div 10"] False by (simp add: dec_big)
  qed (simp add: dec_small)
qed

lemma dec_int_literal: "0 < i \<Longrightarrow> list_all literal_char (dec_int i)"
proof -
  have "digit c \<Longrightarrow> literal_char c" for c by (auto simp: digit_def literal_char_def)
  then show "0 < i \<Longrightarrow> list_all literal_char (dec_int i)" using dec_digits [of "nat i"] by (auto simp: list_all_iff)
qed

definition plan_helper :: "plan_names \<Rightarrow> dict" where
  "plan_helper l =
     [(''userID'', JInt (lo_uid l)), (''groupID'', given l ''groupID''), (''usbRuntime'', JStr (runtime_path l ''usb'')),
      (''powerRuntime'', JStr (runtime_path l ''power'')), (''powerPolicy'', JStr (lo_policy l)), (''powerClients'', JList [JStr (lo_app l @ ''/MacOS/Ashacky'')])]"

lemma plan_helper_lookup:
  assumes "pl_files p = map item_file (plan_items l host) @ fs"
  shows "plan_json p ''helper-build.json'' = Some (JDict (plan_helper l))"
  unfolding plan_json_def assms by (simp add: item_defs plan_helper_def Let_def)

lemma literal_path: "list_all literal_char s \<Longrightarrow> list_all literal_char (pathlib_str s)"
proof -
  assume s: "list_all literal_char s"
  have "literal_char (CHR ''/'')" by (simp add: literal_char_def)
  then have "literal_char x" if "x \<in> set (pathlib_str s)" for x
    using subsetD [OF pathlib_chars that] s by (elim insertE) (simp_all add: list_all_iff)
  then show ?thesis by (simp add: list_all_iff)
qed

lemma plan_app_literal:
  assumes "plan_locals (JDict d) rn = Ret l" "dict_get d ''checkout'' = JStr c" "list_all literal_char c"
  shows "list_all literal_char (lo_app l)"
proof -
  have k: "lo_checkout l = pathlib_str c" using plan_locals_facts(9) [OF assms(1)] assms(2) by auto
  have "list_all literal_char ''build/host/Ashacky.app/Contents''" "list_all literal_char ''/''" by (simp_all add: literal_char_def)
  then show ?thesis unfolding lo_app_def path_child_def k using literal_path [OF assms(3)] by (simp only: list_all_append split: if_splits) simp
qed

lemma host_constants_eval:
  assumes "0 < u" "0 < g" "constant_path (JStr a)" "constant_path (JStr b)" "constant_path (JStr c)" "constant_path (JStr e)" "length (a @ ''/redirect.sock'') < 104"
  shows "host_constants (JDict [(''userID'', JInt u), (''groupID'', JInt g), (''usbRuntime'', JStr a), (''powerRuntime'', JStr b), (''powerPolicy'', JStr c),
    (''powerClients'', JList [JStr e])]) = Ret (installation_h u g a, installation_swift b c [e])"
  using assms by (simp add: host_constants_def)

lemma host_constants_plan:
  assumes u: "0 < lo_uid l" "lo_uid l < 2 ^ 32" and g: "given l ''groupID'' = JInt g" "0 < g"
    and a: "absolute (lo_app l)" "list_all literal_char (lo_app l)"
  shows "host_constants (JDict (plan_helper l)) = Ret (installation_h (lo_uid l) g (runtime_path l ''usb''),
    installation_swift (runtime_path l ''power'') (lo_policy l) [lo_app l @ ''/MacOS/Ashacky''])"
    and "json_str (runtime_path l ''usb'') = dquoted (runtime_path l ''usb'')"
proof -
  note i = dec_int_literal [OF u(1)]
  have r: "list_all literal_char (runtime_path l x)" if "list_all literal_char x" for x
    using i that unfolding runtime_path_def lo_runtime_def by (simp del: dec_int.simps) (simp add: literal_char_def)
  have x: "list_all literal_char ''usb''" "list_all literal_char ''power''" by (simp_all add: literal_char_def)
  have p: "list_all literal_char (lo_policy l)" using i unfolding lo_policy_def by (simp del: dec_int.simps) (simp add: literal_char_def)
  have c: "list_all literal_char (lo_app l @ ''/MacOS/Ashacky'')" using a(2) by (simp add: literal_char_def)
  have ab: "absolute (runtime_path l x)" "absolute (lo_policy l)" "absolute (lo_app l @ ''/MacOS/Ashacky'')" for x
    using a(1) by (simp_all add: runtime_path_def lo_runtime_def lo_policy_def absolute_def del: dec_int.simps)
  have "nat (lo_uid l) < 10 ^ Suc 9" using u by simp
  then have "length (dec_int (lo_uid l)) \<le> 10" using dec_length_pow [of "nat (lo_uid l)" 9] u(1) by simp
  then have s: "length (runtime_path l ''usb'' @ ''/redirect.sock'') < 104" unfolding runtime_path_def lo_runtime_def by (simp del: dec_int.simps)
  have cp: "constant_path (JStr (runtime_path l ''usb''))" "constant_path (JStr (runtime_path l ''power''))" "constant_path (JStr (lo_policy l))"
    "constant_path (JStr (lo_app l @ ''/MacOS/Ashacky''))"
    unfolding constant_path_iff using r [OF x(1)] r [OF x(2)] p c ab by blast+
  show "host_constants (JDict (plan_helper l)) = Ret (installation_h (lo_uid l) g (runtime_path l ''usb''),
    installation_swift (runtime_path l ''power'') (lo_policy l) [lo_app l @ ''/MacOS/Ashacky''])"
    unfolding plan_helper_def g(1) by (rule host_constants_eval [OF u(1) g(2) cp s])
  show "json_str (runtime_path l ''usb'') = dquoted (runtime_path l ''usb'')" by (rule json_str_literal [OF r [OF x(1)]])
qed

section \<open>Properties\<close>

text \<open>The icon check accepts exactly the PNG files that consist of the signature, one header chunk for a 1024 by 1024 RGBA image, any
  number of image data and colour profile chunks with at least one of image data, and the empty end chunk, every chunk with its
  right checksum, and nothing else: no other chunk, no byte between or after them.\<close>

theorem icon_exact:
  "check_icon data = Ret () \<longleftrightarrow>
    (\<exists>mid. data = png_signature @ png_chunk IHDR icon_header @ concat (map (\<lambda>(k, b). png_chunk k b) mid) @ png_chunk IEND [] \<and>
      list_all plain_chunk mid \<and> IDAT \<in> set (map fst mid))"
proof
  assume "check_icon data = Ret ()"
  then obtain ks where ks: "take 8 data = png_signature" "icon_loop (drop 8 data) [] = Ret ks" "ks \<noteq> []" "hd ks = IHDR" "last ks = IEND" "IDAT \<in> set ks"
    unfolding check_icon_def by (auto split: if_splits)
  obtain tail where tail: "drop 8 data = png_chunk IHDR icon_header @ tail" "icon_loop tail [IHDR] = Ret ks"
    using icon_first_chunk [OF ks(2-4)] by auto
  obtain mid where mid: "tail = concat (map (\<lambda>(k, b). png_chunk k b) mid) @ png_chunk IEND []" "ks = [IHDR] @ map fst mid @ [IEND]" "list_all plain_chunk mid"
    using icon_loop_sound [OF tail(2)] ks(5) by auto
  have "data = png_signature @ drop 8 data" using ks(1) append_take_drop_id [of 8 data] by metis
  then show "\<exists>mid. data = png_signature @ png_chunk IHDR icon_header @ concat (map (\<lambda>(k, b). png_chunk k b) mid) @ png_chunk IEND [] \<and>
      list_all plain_chunk mid \<and> IDAT \<in> set (map fst mid)"
    using tail(1) mid ks(6) by (intro exI [of _ mid]) auto
next
  assume "\<exists>mid. data = png_signature @ png_chunk IHDR icon_header @ concat (map (\<lambda>(k, b). png_chunk k b) mid) @ png_chunk IEND [] \<and>
      list_all plain_chunk mid \<and> IDAT \<in> set (map fst mid)"
  then obtain mid where d: "data = png_signature @ png_chunk IHDR icon_header @ concat (map (\<lambda>(k, b). png_chunk k b) mid) @ png_chunk IEND []"
    and m: "list_all plain_chunk mid" "IDAT \<in> set (map fst mid)" by blast
  have s: "length png_signature = 8" by (simp add: png_signature_def)
  have "icon_loop (drop 8 data) [] = Ret ([IHDR] @ map fst mid @ [IEND])"
    using icon_loop_chunk [of IHDR icon_header "concat (map (\<lambda>(k, b). png_chunk k b) mid) @ png_chunk IEND []" "[]"]
      icon_loop_complete [OF m(1), of "[IHDR]"] unfolding d by (simp add: s icon_header_def)
  then show "check_icon data = Ret ()" using m(2) unfolding check_icon_def by (simp add: d s)
qed

text \<open>When the repository check passes, no file is a disk image, key, log or binary by its name, the icon is exactly an icon, every
  other file is readable text in its syntax, and no such text contains a personal home path, a private key or a GitHub token,
  wherever in the file it stands.\<close>

theorem passed_check_is_private:
  assumes "repo_check submodules files tests = Ret u" "f \<in> set files" "rf_relative f \<noteq> ''host/frontend/assets/Ashacky.png''"
  shows "path_suffix (rf_relative f) \<notin> set forbidden_suffixes \<and>
    (\<exists>content. rf_text f = Got content \<and> file_syntax f content = Got () \<and>
      (\<forall>pre base name post. base \<in> {''/Users/'', ''/home/''} \<and> name \<noteq> [] \<and> list_all (\<lambda>c. word_char c \<or> c = CHR ''-'') name \<and>
        \<not> begins ''example'' (name @ ''/'' @ post) \<longrightarrow> content \<noteq> pre @ base @ name @ ''/'' @ post) \<and>
      (\<forall>pre kind post. kind \<in> {[], ''OPENSSH '', ''RSA '', ''EC ''} \<longrightarrow> content \<noteq> pre @ ''-----BEGIN '' @ kind @ ''PRIVATE KEY-----'' @ post) \<and>
      (\<forall>pre k token post. (pre = [] \<or> \<not> word_char (last pre)) \<and> k \<in> set ''pousr'' \<and> 30 \<le> length token \<and> list_all alnum token \<longrightarrow>
        content \<noteq> pre @ ''gh'' @ [k] @ ''_'' @ token @ post))"
proof -
  note c = check_file_clean [OF repo_check_clean [OF assms(1,2)]]
  obtain content where t: "rf_text f = Got content" "file_syntax f content = Got ()" "broken_rules content = []" using c(3) [OF assms(3)] by blast
  have n: "\<not> search home_path_at False content" "\<not> search private_key_at False content" "\<not> search github_at False content"
    by (rule rules_clean [OF t(3), of "''personal home path''"], simp add: private_rules_def)
      (rule rules_clean [OF t(3), of "''private key''"], simp add: private_rules_def,
       rule rules_clean [OF t(3), of "''GitHub credential''"], simp add: private_rules_def)
  have h: "content \<noteq> pre @ base @ name @ ''/'' @ post"
    if q: "base \<in> {''/Users/'', ''/home/''} \<and> name \<noteq> [] \<and> list_all (\<lambda>c. word_char c \<or> c = CHR ''-'') name \<and> \<not> begins ''example'' (name @ ''/'' @ post)"
    for pre base name post
  proof
    assume e: "content = pre @ base @ name @ ''/'' @ post"
    have "search home_path_at False content" unfolding e using q by (elim conjE) (intro search_here home_path_found)
    then show False using n(1) by simp
  qed
  have k: "content \<noteq> pre @ ''-----BEGIN '' @ kind @ ''PRIVATE KEY-----'' @ post" if q: "kind \<in> {[], ''OPENSSH '', ''RSA '', ''EC ''}" for pre kind post
  proof
    assume e: "content = pre @ ''-----BEGIN '' @ kind @ ''PRIVATE KEY-----'' @ post"
    have "search private_key_at False content" unfolding e using q by (intro search_here private_key_found)
    then show False using n(2) by simp
  qed
  have g: "content \<noteq> pre @ ''gh'' @ [k] @ ''_'' @ token @ post"
    if q: "(pre = [] \<or> \<not> word_char (last pre)) \<and> k \<in> set ''pousr'' \<and> 30 \<le> length token \<and> list_all alnum token" for pre k token post
  proof
    assume e: "content = pre @ ''gh'' @ [k] @ ''_'' @ token @ post"
    have "(pre \<noteq> [] \<and> word_char (last pre)) = False" using q by auto
    then have "search github_at False content"
      unfolding e using github_found [of k token post] q search_here [of github_at pre "''gh'' @ [k] @ ''_'' @ token @ post"] by (simp only:) 
    then show False using n(3) by simp
  qed
  show ?thesis
    by (intro conjI exI [of _ content] allI impI) (rule c(1) t(1) t(2) | erule h | erule k | erule g)+
qed

definition example_file :: repo_file where
  "example_file = \<lparr>rf_relative = ''docs/A.md'', rf_bytes = Got [], rf_text = Got ''see /Users/example/x'', rf_python = Got (), rf_json = Got (), rf_shell = Got ()\<rparr>"

lemma example_file_clean: "repo_check (Ret ()) [example_file] (Ret ()) = Ret ()"
proof -
  have s: "path_suffix ''docs/A.md'' = ''.md''" by code_simp
  have b: "broken_rules ''see /Users/example/x'' = []" by code_simp
  have "check_file example_file = Ret []"
    by (simp add: check_file_def example_file_def s b forbidden_suffixes_def file_syntax_def begins_def)
  then show ?thesis by (simp add: repo_check_def)
qed

theorem passed_check_is_private_witness:
  "path_suffix (rf_relative example_file) \<notin> set forbidden_suffixes \<and> (\<exists>content. rf_text example_file = Got content \<and> file_syntax example_file content = Got ())"
proof -
  have f: "example_file \<in> set [example_file]" "rf_relative example_file \<noteq> ''host/frontend/assets/Ashacky.png''" by (simp_all add: example_file_def)
  note p = passed_check_is_private [OF example_file_clean f]
  obtain content where "rf_text example_file = Got content" "file_syntax example_file content = Got ()" using conjunct2 [OF p] by (elim exE conjE)
  then show ?thesis using conjunct1 [OF p] by (intro conjI exI [of _ content])
qed



end
