(* ===== verification/Assemble.thy ===== *)
theory Assemble
  imports Paths
begin

text \<open>
  \<^verbatim>\<open>tools/assemble-runtime.py\<close>: the libraries that the host application's binaries need are found, copied into the bundle and referred to by
  paths relative to their user, until nothing outside the system is left (the queue of \<^verbatim>\<open>main\<close>), and the bundle is inspected
  (\<^verbatim>\<open>inspect_bundle\<close>).

  A resolved path is the list of its components. Inputs are what the file system resolves and copies and what \<^verbatim>\<open>lipo\<close>, \<^verbatim>\<open>otool\<close> and
  \<^verbatim>\<open>install_name_tool\<close> return. The copied files, the changes made and the dependency record are the state.
\<close>

section \<open>Names\<close>

fun starts_with :: "string \<Rightarrow> string \<Rightarrow> bool" where
  "starts_with [] s = True"
| "starts_with (p # ps) [] = False"
| "starts_with (p # ps) (c # s) = (p = c \<and> starts_with ps s)"

definition system_path :: "string \<Rightarrow> bool" where
  "system_path s \<longleftrightarrow> starts_with ''/System/'' s \<or> starts_with ''/usr/lib/'' s"

text \<open>\<^verbatim>\<open>os.path.relpath(target, start)\<close>: what differs after the common beginning.\<close>

fun relpath :: "path \<Rightarrow> path \<Rightarrow> path" where
  "relpath (t # ts) (s # ss) = (if t = s then relpath ts ss else map (\<lambda>_. ''..'') (s # ss) @ t # ts)"
| "relpath [] ss = map (\<lambda>_. ''..'') ss"
| "relpath (t # ts) [] = t # ts"

text \<open>\<^verbatim>\<open>str.replace\<close>.\<close>

function replace_text :: "string \<Rightarrow> string \<Rightarrow> string \<Rightarrow> string" where
  "replace_text p r [] = []"
| "replace_text p r (c # s) =
     (if p \<noteq> [] \<and> starts_with p (c # s) then r @ replace_text p r (drop (length p) (c # s)) else c # replace_text p r s)"
  by pat_completeness auto
termination
proof (relation "measure (\<lambda>(p, r, s). length s)")
  fix p r :: string and c s
  assume "p \<noteq> [] \<and> starts_with p (c # s)"
  then have "0 < length p" by simp
  then show "((p, r, drop (length p) (c # s)), p, r, c # s) \<in> measure (\<lambda>(p, r, s). length s)" by simp
qed simp_all

section \<open>Dependencies\<close>

record assembly_env =
  ae_macos :: path
  ae_allowed :: "path list"
  ae_assets :: path
  ae_contents :: path
  ae_search :: "path list"
  ae_is_file :: "string \<Rightarrow> bool"
  ae_resolve :: "string \<Rightarrow> string"
  ae_strict :: "string \<Rightarrow> path outcome"
  ae_archs :: "path \<Rightarrow> string list outcome"
  ae_thin :: "path \<Rightarrow> unit outcome"
  ae_commands :: "path \<Rightarrow> (string list \<times> string list \<times> string list) outcome"
  ae_copy :: "path \<Rightarrow> path \<Rightarrow> unit outcome"
  ae_tool :: "path \<Rightarrow> string list \<Rightarrow> unit outcome"
  ae_brew :: path
  ae_symlink :: "path \<Rightarrow> string \<Rightarrow> unit outcome"

definition expand :: "assembly_env \<Rightarrow> string \<Rightarrow> path \<Rightarrow> string" where
  "expand env v source =
     replace_text ''@executable_path'' (str_path (ae_macos env)) (replace_text ''@loader_path'' (str_path (butlast source)) v)"

text \<open>\<^verbatim>\<open>path / tail\<close> as text; an absolute tail replaces the path.\<close>

definition joined :: "string \<Rightarrow> string \<Rightarrow> string" where
  "joined p tail = (if absolute tail then tail else p @ ''/'' @ tail)"

definition dep_candidates :: "assembly_env \<Rightarrow> string \<Rightarrow> path \<Rightarrow> string list \<Rightarrow> string list" where
  "dep_candidates env name source rpaths =
     (if starts_with ''@rpath/'' name then
        (let tail = drop 7 name in
         map (\<lambda>r. joined (expand env r source) tail) rpaths @ map (\<lambda>r. joined (str_path r) tail) (ae_search env))
      else [expand env name source])"

definition resolve_name :: "assembly_env \<Rightarrow> string \<Rightarrow> path \<Rightarrow> string list \<Rightarrow> string outcome" where
  "resolve_name env name source rpaths =
     (case find (ae_is_file env) (dep_candidates env name source rpaths) of
        Some c \<Rightarrow> Ret (ae_resolve env c)
      | None \<Rightarrow> Exc (RuntimeError ''Unresolved dependency''))"

section \<open>The queue\<close>

record assembly =
  as_origins :: "(path \<times> path) list"
  as_copied :: "(path \<times> path) list"
  as_queue :: "path list"
  as_exists :: "path list"
  as_changes :: "(path \<times> string list) list"
  as_manifest :: "(path \<times> path \<times> path list) list"

definition library_target :: "assembly_env \<Rightarrow> path \<Rightarrow> path" where
  "library_target env source =
     (if is_relative_to source (ae_assets env) then ae_contents env @ drop (length (ae_assets env)) source
      else ae_contents env @ [''Frameworks'', last source])"

definition copy_fresh :: "assembly_env \<Rightarrow> path \<Rightarrow> (assembly, path) act" where
  "copy_fresh env source =
     (let target = library_target env source in
      bindA (getA as_exists) (\<lambda>present.
        if target \<in> set present then excA (RuntimeError ''Dependency name collision'') else
        thenA (liftA (ae_copy env source target))
        (thenA (updA (\<lambda>s. s\<lparr>as_exists := as_exists s @ [target], as_origins := as_origins s @ [(target, source)],
           as_copied := as_copied s @ [(source, target)], as_queue := as_queue s @ [target]\<rparr>))
          (retA target))))"

definition copy_library :: "assembly_env \<Rightarrow> string \<Rightarrow> (assembly, path) act" where
  "copy_library env text =
     bindA (liftA (ae_strict env text)) (\<lambda>source.
       if \<not> list_ex (is_relative_to source) (ae_allowed env) then excA (RuntimeError ''Dependency outside declared build inputs'') else
       bindA (getA as_copied) (\<lambda>copied.
         case map_of copied source of Some target \<Rightarrow> retA target | None \<Rightarrow> copy_fresh env source))"

text \<open>The libraries that are loaded by name at run time, with the link of that name.\<close>

definition copy_dlopen :: "assembly_env \<Rightarrow> string \<times> string \<Rightarrow> (assembly, unit) act" where
  "copy_dlopen env = (\<lambda>(formula, alias).
     bindA (copy_library env (str_path (ae_brew env @ [''opt'', formula, ''lib'', alias]))) (\<lambda>target.
       let link = ae_contents env @ [''Frameworks'', alias] in
       if link \<noteq> target then thenA (liftA (ae_symlink env link (last target))) (updA (\<lambda>s. s\<lparr>as_exists := as_exists s @ [link]\<rparr>)) else retA ()))"

definition dlopen_libraries :: "assembly_env \<Rightarrow> (assembly, unit) act" where
  "dlopen_libraries env = forA (copy_dlopen env) [(''lz4'', ''liblz4.1.dylib''), (''zstd'', ''libzstd.1.dylib'')]"

text \<open>The change of one dependency, to the path that leads there from the binary's directory.\<close>

definition change_args :: "path \<Rightarrow> string \<Rightarrow> path \<Rightarrow> string list" where
  "change_args p name target = [''-change'', name, ''@loader_path/'' @ join ''/'' (relpath target (butlast p))]"

text \<open>The dependencies of one binary: the arguments for \<^verbatim>\<open>install_name_tool\<close> and the targets.\<close>

fun link_deps :: "assembly_env \<Rightarrow> path \<Rightarrow> path \<Rightarrow> string list \<Rightarrow> string list \<Rightarrow> (assembly, string list \<times> path list) act" where
  "link_deps env p source rpaths [] = retA ([], [])"
| "link_deps env p source rpaths (name # names) =
     (if system_path name then link_deps env p source rpaths names else
      bindA (liftA (resolve_name env name source rpaths)) (\<lambda>text.
      bindA (copy_library env text) (\<lambda>target.
      bindA (link_deps env p source rpaths names) (\<lambda>(changes, edges).
        retA (change_args p name target @ changes, target # edges)))))"

definition final_args :: "path \<Rightarrow> string list \<Rightarrow> string list \<Rightarrow> string list" where
  "final_args p ids rpaths = (if ids \<noteq> [] then [''-id'', ''@loader_path/'' @ last p] else [])
     @ concat (map (\<lambda>v. if system_path v then [] else [''-delete_rpath'', v]) rpaths)"

definition record_binary :: "assembly_env \<Rightarrow> path \<Rightarrow> path \<Rightarrow> string list \<Rightarrow> path list \<Rightarrow> (assembly, unit) act" where
  "record_binary env p source arguments edges =
     thenA (if arguments \<noteq> [] then thenA (liftA (ae_tool env p arguments)) (updA (\<lambda>s. s\<lparr>as_changes := as_changes s @ [(p, arguments)]\<rparr>)) else retA ())
       (updA (\<lambda>s. s\<lparr>as_manifest := as_manifest s @ [(p, source, edges)]\<rparr>))"

definition link_commands :: "assembly_env \<Rightarrow> path \<Rightarrow> path \<Rightarrow> (assembly, unit) act" where
  "link_commands env p source =
     bindA (liftA (ae_commands env p)) (\<lambda>(deps, rpaths, ids).
     bindA (link_deps env p source rpaths deps) (\<lambda>(changes, edges).
       record_binary env p source (changes @ final_args p ids rpaths) edges))"

definition link_binary :: "assembly_env \<Rightarrow> path \<Rightarrow> (assembly, unit) act" where
  "link_binary env p =
     bindA (getA (\<lambda>s. map_of (as_origins s) p)) (\<lambda>origin.
       case origin of
         None \<Rightarrow> excA (KeyError ''path'')
       | Some source \<Rightarrow>
           bindA (liftA (ae_archs env p)) (\<lambda>archs.
             if ''arm64'' \<notin> set archs then excA (RuntimeError ''Dependency has no arm64 architecture'') else
             thenA (if length archs > 1 then liftA (ae_thin env p) else retA ()) (link_commands env p source)))"

text \<open>\<^verbatim>\<open>for path in queue\<close>, where the body appends to the queue: \<open>i\<close> is the position of the iterator. The fuel bounds the rounds.\<close>

fun drain_queue :: "nat \<Rightarrow> assembly_env \<Rightarrow> nat \<Rightarrow> (assembly, unit) act" where
  "drain_queue 0 env i = liftA NoRet"
| "drain_queue (Suc fuel) env i =
     bindA (getA as_queue) (\<lambda>queue. if i < length queue then thenA (link_binary env (queue ! i)) (drain_queue fuel env (Suc i)) else retA ())"

definition assembly_start :: "(path \<times> path) list \<Rightarrow> path list \<Rightarrow> assembly" where
  "assembly_start origins present =
     \<lparr>as_origins = origins, as_copied = rev (map (\<lambda>(t, s). (s, t)) origins), as_queue = map fst origins, as_exists = present, as_changes = [], as_manifest = []\<rparr>"

definition link_bundle :: "nat \<Rightarrow> assembly_env \<Rightarrow> (assembly, unit) act" where
  "link_bundle fuel env = thenA (dlopen_libraries env) (drain_queue fuel env 0)"

section \<open>Inspection\<close>

text \<open>An entry of the bundle: its path, where a symbolic link leads, and the load commands of a binary.\<close>

record bundle_entry =
  be_path :: path
  be_link :: "path outcome option"
  be_commands :: "(string list \<times> string list \<times> string list) outcome option"

definition inspect_dep :: "(path \<Rightarrow> path outcome) \<Rightarrow> path \<Rightarrow> path \<Rightarrow> string \<Rightarrow> unit outcome" where
  "inspect_dep strict contents p name =
     (if system_path name then Ret ()
      else if \<not> starts_with ''@loader_path/'' name then Exc (RuntimeError ''Nonlocal dependency'')
      else bindO (strict (butlast p @ path_of (drop 13 name))) (\<lambda>resolved.
        if \<not> is_relative_to resolved contents then Exc (RuntimeError ''Dependency escapes bundle'') else Ret ()))"

definition inspect_entry :: "(path \<Rightarrow> path outcome) \<Rightarrow> path \<Rightarrow> bundle_entry \<Rightarrow> nat outcome" where
  "inspect_entry strict contents e =
     bindO (case be_link e of
         None \<Rightarrow> Ret ()
       | Some r \<Rightarrow> bindO r (\<lambda>q. if \<not> is_relative_to q contents then Exc (RuntimeError ''Bundle symlink escapes'') else Ret ())) (\<lambda>_.
     case be_commands e of
       None \<Rightarrow> Ret 0
     | Some r \<Rightarrow> bindO r (\<lambda>(deps, rpaths, _).
         bindO (mapO (inspect_dep strict contents (be_path e)) deps) (\<lambda>_.
           if list_ex (\<lambda>v. \<not> system_path v) rpaths then Exc (RuntimeError ''Obsolete build rpath'') else Ret 1)))"

fun inspect_bundle :: "(path \<Rightarrow> path outcome) \<Rightarrow> path \<Rightarrow> bundle_entry list \<Rightarrow> nat outcome" where
  "inspect_bundle strict contents [] = Ret 0"
| "inspect_bundle strict contents (e # es) =
     bindO (inspect_entry strict contents e) (\<lambda>n. bindO (inspect_bundle strict contents es) (\<lambda>m. Ret (n + m)))"

section \<open>Relative paths\<close>

text \<open>The path that a relative path leads to: every \<^verbatim>\<open>..\<close> removes a component.\<close>

fun normal :: "path \<Rightarrow> path \<Rightarrow> path" where
  "normal done [] = rev done"
| "normal done (c # cs) = (if c = ''..'' then normal (tl done) cs else normal (c # done) cs)"

lemma normal_plain: "''..'' \<notin> set p \<Longrightarrow> normal d (p @ q) = normal (rev p @ d) q"
  by (induction p arbitrary: d) auto

lemma normal_pop: "normal (xs @ d) (replicate (length xs) ''..'' @ q) = normal d q"
  by (induction xs) auto

lemma normal_up: "normal (rev s @ d) (map (\<lambda>_. ''..'') s @ q) = normal d q"
  using normal_pop [of "rev s" d q] by (simp add: map_replicate_const)

lemma relpath_leads: "''..'' \<notin> set ts \<Longrightarrow> ''..'' \<notin> set ss \<Longrightarrow> normal d (ss @ relpath ts ss) = rev d @ ts"
proof (induction ts ss arbitrary: d rule: relpath.induct)
  case (1 t ts s ss)
  show ?case
  proof (cases "t = s")
    case True
    then show ?thesis using 1(1) [OF True, of "s # d"] 1(2,3) by auto
  next
    case False
    have "normal d ((s # ss) @ map (\<lambda>_. ''..'') (s # ss) @ t # ts) = normal d (t # ts)"
      using normal_plain [of "s # ss" d "map (\<lambda>_. ''..'') (s # ss) @ t # ts"] normal_up [of "s # ss" d "t # ts"] 1(3) by metis
    then show ?thesis using False normal_plain [of "t # ts" d "[]"] 1(2) by simp
  qed
next
  case (2 ss)
  then show ?case using normal_plain [of ss d "map (\<lambda>_. ''..'') ss @ []"] normal_up [of ss d "[]"] by simp
next
  case (3 t ts)
  then show ?case using normal_plain [of "t # ts" d "[]"] by simp
qed

section \<open>The queue only grows\<close>

definition grows :: "assembly \<Rightarrow> assembly \<Rightarrow> bool" where
  "grows s t \<longleftrightarrow> (\<exists>xs. as_queue t = as_queue s @ xs) \<and> (\<forall>p q. map_of (as_origins s) p = Some q \<longrightarrow> map_of (as_origins t) p = Some q) \<and>
     set (as_manifest s) \<subseteq> set (as_manifest t)"

lemma grows_refl [simp]: "grows s s"
  by (simp add: grows_def)

lemma grows_trans: "grows s t \<Longrightarrow> grows t u \<Longrightarrow> grows s u"
  unfolding grows_def by auto

definition as_inv :: "assembly \<Rightarrow> bool" where
  "as_inv s \<longleftrightarrow> fst ` set (as_origins s) = set (as_queue s) \<and> set (as_queue s) \<subseteq> set (as_exists s) \<and> distinct (as_queue s) \<and>
     (\<forall>src t. map_of (as_copied s) src = Some t \<longrightarrow> map_of (as_origins s) t = Some src)"

text \<open>A name is linked to the copy, in the bundle, of the library that it resolves to, which comes from an allowed place.\<close>

definition dep_target :: "assembly_env \<Rightarrow> assembly \<Rightarrow> path \<Rightarrow> string list \<Rightarrow> string \<Rightarrow> path \<Rightarrow> bool" where
  "dep_target env s source rpaths name target \<longleftrightarrow>
     (\<exists>found lib. resolve_name env name source rpaths = Ret found \<and> ae_strict env found = Ret lib \<and>
        list_ex (is_relative_to lib) (ae_allowed env) \<and> map_of (as_origins s) target = Some lib)"

definition link_args :: "path \<Rightarrow> (string \<times> path) list \<Rightarrow> string list \<Rightarrow> string list \<Rightarrow> string list" where
  "link_args p pairs ids rpaths = concat (map (\<lambda>(n, q). change_args p n q) pairs) @ final_args p ids rpaths"

text \<open>The arguments that \<^verbatim>\<open>install_name_tool\<close> has been called with for a binary.\<close>

definition args_of :: "assembly \<Rightarrow> path \<Rightarrow> string list" where
  "args_of s p = concat (map snd (filter (\<lambda>c. fst c = p) (as_changes s)))"

definition linked :: "assembly_env \<Rightarrow> assembly \<Rightarrow> path \<Rightarrow> bool" where
  "linked env s p \<longleftrightarrow>
     (\<exists>source deps rpaths ids pairs. map_of (as_origins s) p = Some source \<and> ae_commands env p = Ret (deps, rpaths, ids) \<and>
        map fst pairs = filter (\<lambda>n. \<not> system_path n) deps \<and> list_all (\<lambda>(n, q). dep_target env s source rpaths n q) pairs \<and>
        (p, source, map snd pairs) \<in> set (as_manifest s) \<and> args_of s p = link_args p pairs ids rpaths)"

lemma dep_target_grows: "dep_target env s src rp n q \<Longrightarrow> grows s t \<Longrightarrow> dep_target env t src rp n q"
  unfolding dep_target_def grows_def by auto

lemma linked_grows:
  assumes "linked env s p" "grows s t" "args_of t p = args_of s p"
  shows "linked env t p"
proof -
  obtain source deps rpaths ids pairs where l: "map_of (as_origins s) p = Some source" "ae_commands env p = Ret (deps, rpaths, ids)"
    "map fst pairs = filter (\<lambda>n. \<not> system_path n) deps" "list_all (\<lambda>(n, q). dep_target env s source rpaths n q) pairs"
    "(p, source, map snd pairs) \<in> set (as_manifest s)" "args_of s p = link_args p pairs ids rpaths"
    using assms(1) unfolding linked_def by blast
  have "map_of (as_origins t) p = Some source" "(p, source, map snd pairs) \<in> set (as_manifest t)"
    "args_of t p = link_args p pairs ids rpaths" using l(1,5,6) assms(2,3) unfolding grows_def by auto
  moreover have "list_all (\<lambda>(n, q). dep_target env t source rpaths n q) pairs"
    using l(4) dep_target_grows [OF _ assms(2)] by (auto simp: list_all_iff)
  ultimately show ?thesis unfolding linked_def using l(2,3) by blast
qed

lemma copy_library_result:
  assumes "copy_library env given s = (t, r)" "as_inv s"
  shows "as_inv t \<and> grows s t \<and> as_changes t = as_changes s \<and> (\<forall>target. r = Ret target \<longrightarrow> (\<exists>lib. ae_strict env given = Ret lib \<and> list_ex (is_relative_to lib) (ae_allowed env) \<and>
    map_of (as_origins t) target = Some lib))"
proof (cases "ae_strict env given")
  case (Ret lib)
  show ?thesis
  proof (cases "list_ex (is_relative_to lib) (ae_allowed env)")
    case True
    show ?thesis
    proof (cases "map_of (as_copied s) lib")
      case (Some target)
      then show ?thesis using assms Ret True by (auto simp: copy_library_def as_inv_def)
    next
      case None
      let ?t = "library_target env lib"
      let ?u = "s\<lparr>as_exists := as_exists s @ [?t], as_origins := as_origins s @ [(?t, lib)], as_copied := as_copied s @ [(lib, ?t)], as_queue := as_queue s @ [?t]\<rparr>"
      show ?thesis
      proof (cases "?t \<in> set (as_exists s) \<or> (\<forall>u. ae_copy env lib ?t \<noteq> Ret u)")
        case True
        then have "t = s \<and> (\<forall>x. r \<noteq> Ret x)"
          using assms(1) Ret \<open>list_ex _ _\<close> None by (cases "ae_copy env lib ?t"; cases "?t \<in> set (as_exists s)") (auto simp: copy_library_def copy_fresh_def Let_def act_defs)
        then show ?thesis using assms(2) by simp
      next
        case False
        then have e: "t = ?u" "r = Ret ?t"
          using assms(1) Ret \<open>list_ex _ _\<close> None by (auto simp: copy_library_def copy_fresh_def Let_def act_defs)
        have n: "map_of (as_origins s) ?t = None" using False assms(2) unfolding as_inv_def map_of_eq_None_iff by auto
        have o: "map_of (as_origins s @ [(?t, lib)]) q = (if q = ?t then Some lib else map_of (as_origins s) q)" for q
          using n by (simp add: map_add_def split: option.splits)
        have c: "map_of (as_copied s @ [(lib, ?t)]) q = (if q = lib then Some ?t else map_of (as_copied s) q)" for q
          using None by (simp add: map_add_def split: option.splits)
        have "as_inv ?u" using assms(2) n False unfolding as_inv_def by (auto simp: o c simp del: map_of_append split: if_splits)
        moreover have "grows s ?u" using n unfolding grows_def by (auto simp: o simp del: map_of_append)
        ultimately show ?thesis using e Ret \<open>list_ex _ _\<close> by (simp add: o del: map_of_append)
      qed
    qed
  qed (use assms Ret in \<open>auto simp: copy_library_def\<close>)
qed (use assms in \<open>auto simp: copy_library_def\<close>)

lemma link_deps_result:
  assumes "link_deps env p source rpaths names s = (t, Ret (changes, edges))" "as_inv s"
  shows "as_inv t \<and> grows s t \<and> as_changes t = as_changes s \<and> (\<exists>pairs. changes = concat (map (\<lambda>(n, q). change_args p n q) pairs) \<and> edges = map snd pairs \<and>
    map fst pairs = filter (\<lambda>n. \<not> system_path n) names \<and> list_all (\<lambda>(n, q). dep_target env t source rpaths n q) pairs)"
  using assms
proof (induction names arbitrary: s changes edges)
  case (Cons name names)
  show ?case
  proof (cases "system_path name")
    case True
    then show ?thesis using Cons.IH [of s changes edges] Cons.prems by simp
  next
    case False
    obtain found u target ch ed where l: "resolve_name env name source rpaths = Ret found" "copy_library env found s = (u, Ret target)"
      "link_deps env p source rpaths names u = (t, Ret (ch, ed))" "changes = change_args p name target @ ch" "edges = target # ed"
      using Cons.prems(1) False by (auto simp: bindA_eq_Ret retA_def split: outcome.splits)
    obtain lib where c: "as_inv u" "grows s u" "as_changes u = as_changes s" "ae_strict env found = Ret lib" "list_ex (is_relative_to lib) (ae_allowed env)"
      "map_of (as_origins u) target = Some lib" using copy_library_result [OF l(2) Cons.prems(2)] by blast
    obtain pairs where r: "as_inv t" "grows u t" "as_changes t = as_changes u" "ch = concat (map (\<lambda>(n, q). change_args p n q) pairs)" "ed = map snd pairs"
      "map fst pairs = filter (\<lambda>n. \<not> system_path n) names" "list_all (\<lambda>(n, q). dep_target env t source rpaths n q) pairs"
      using Cons.IH [OF l(3) c(1)] by blast
    have "dep_target env t source rpaths name target"
      using dep_target_grows [OF _ r(2)] l(1) c(4-6) unfolding dep_target_def by blast
    then show ?thesis using r c(3) l(4,5) False grows_trans [OF c(2) r(2)] by (intro conjI exI [of _ "(name, target) # pairs"]) simp_all
  qed
qed (simp add: retA_def)

lemma record_binary_result:
  assumes "record_binary env p source args edges s = (t, Ret ())"
  shows "t = (if args = [] then s else s\<lparr>as_changes := as_changes s @ [(p, args)]\<rparr>)\<lparr>as_manifest := as_manifest s @ [(p, source, edges)]\<rparr>"
  using assms by (cases "args = []") (auto simp: record_binary_def bindA_eq_Ret thenA_eq_Ret retA_def updA_def)

lemma link_commands_result:
  assumes "link_commands env p source s = (t, Ret ())" "as_inv s" "map_of (as_origins s) p = Some source" "p \<notin> fst ` set (as_changes s)"
  shows "as_inv t \<and> grows s t \<and> linked env t p \<and> (\<exists>a. as_changes t = as_changes s @ a \<and> fst ` set a \<subseteq> {p})"
proof -
  obtain deps rpaths ids changes edges u where l: "ae_commands env p = Ret (deps, rpaths, ids)"
    "link_deps env p source rpaths deps s = (u, Ret (changes, edges))" "record_binary env p source (changes @ final_args p ids rpaths) edges u = (t, Ret ())"
    using assms(1) unfolding link_commands_def bindA_eq_Ret liftA_eq_Ret by (auto simp: bindA_eq_Ret)
  obtain pairs where r: "as_inv u" "grows s u" "as_changes u = as_changes s" "changes = concat (map (\<lambda>(n, q). change_args p n q) pairs)" "edges = map snd pairs"
    "map fst pairs = filter (\<lambda>n. \<not> system_path n) deps" "list_all (\<lambda>(n, q). dep_target env u source rpaths n q) pairs"
    using link_deps_result [OF l(2) assms(2)] by blast
  note t = record_binary_result [OF l(3)]
  have g: "grows u t" "as_inv t" using r(1) unfolding t grows_def as_inv_def by auto
  have "map_of (as_origins t) p = Some source" using assms(3) r(2) g(1) unfolding grows_def by simp
  moreover have "list_all (\<lambda>(n, q). dep_target env t source rpaths n q) pairs" using r(7) dep_target_grows [OF _ g(1)] by (auto simp: list_all_iff)
  moreover have "args_of s p = []" unfolding args_of_def using assms(4) by (force simp: filter_empty_conv)
  then have "args_of t p = link_args p pairs ids rpaths" "(p, source, map snd pairs) \<in> set (as_manifest t)"
    unfolding t link_args_def using r(3-5) by (auto simp: args_of_def simp del: concat_eq_Nil_conv)
  ultimately have "linked env t p" using l(1) r(6) unfolding linked_def by blast
  moreover have "\<exists>a. as_changes t = as_changes s @ a \<and> fst ` set a \<subseteq> {p}" unfolding t using r(3) by auto
  ultimately show ?thesis using g grows_trans [OF r(2) g(1)] by blast
qed

lemma link_binary_steps:
  assumes "link_binary env p s = (t, Ret ())"
  shows "\<exists>source. map_of (as_origins s) p = Some source \<and> link_commands env p source s = (t, Ret ())"
  using assms by (auto simp: link_binary_def bindA_eq_Ret thenA_eq_Ret retA_def excA_def getA_def split: option.splits outcome.splits if_splits)

lemma link_binary_result:
  assumes "link_binary env p s = (t, Ret ())" "as_inv s" "p \<notin> fst ` set (as_changes s)"
  shows "as_inv t \<and> grows s t \<and> linked env t p \<and> (\<exists>a. as_changes t = as_changes s @ a \<and> fst ` set a \<subseteq> {p})"
  using link_binary_steps [OF assms(1)] link_commands_result [OF _ assms(2) _ assms(3)] by blast

text \<open>When the loop ends, every binary that was ever queued has been linked.\<close>

lemma drain_queue_result:
  assumes "drain_queue fuel env i s = (t, Ret ())" "as_inv s" "\<forall>p \<in> set (take i (as_queue s)). linked env s p"
    "fst ` set (as_changes s) \<subseteq> set (take i (as_queue s))"
  shows "as_inv t \<and> grows s t \<and> (\<forall>p \<in> set (as_queue t). linked env t p)"
  using assms
proof (induction fuel arbitrary: i s)
  case (Suc fuel)
  show ?case
  proof (cases "i < length (as_queue s)")
    case False
    then show ?thesis using Suc.prems by (simp add: retA_def)
  next
    case True
    let ?p = "as_queue s ! i"
    obtain u where u: "link_binary env ?p s = (u, Ret ())" "drain_queue fuel env (Suc i) u = (t, Ret ())"
      using True Suc.prems(1) by (auto simp: thenA_eq_Ret)
    have n: "?p \<notin> set (take i (as_queue s))"
      using Suc.prems(2) True id_take_nth_drop [OF True] unfolding as_inv_def by (metis distinct_append not_distinct_conv_prefix)
    obtain a where r: "as_inv u" "grows s u" "linked env u ?p" "as_changes u = as_changes s @ a" "fst ` set a \<subseteq> {?p}"
      using link_binary_result [OF u(1) Suc.prems(2)] n Suc.prems(4) by blast
    obtain xs where "as_queue u = as_queue s @ xs" using r(2) unfolding grows_def by blast
    then have k: "take (Suc i) (as_queue u) = take i (as_queue s) @ [?p]" using True by (simp add: take_Suc_conv_app_nth)
    have "args_of u q = args_of s q" if "q \<in> set (take i (as_queue s))" for q
      using that n r(4,5) unfolding args_of_def by (auto simp: filter_empty_conv)
    then have "\<forall>p \<in> set (take (Suc i) (as_queue u)). linked env u p" using k Suc.prems(3) r(2,3) linked_grows by auto
    moreover have "fst ` set (as_changes u) \<subseteq> set (take (Suc i) (as_queue u))" using k r(4,5) Suc.prems(4) by auto
    ultimately show ?thesis using Suc.IH [OF u(2) r(1)] r(2) grows_trans by blast
  qed
qed (simp add: liftA_def)


section \<open>The libraries loaded by name\<close>

lemma copy_dlopen_result:
  assumes "copy_dlopen env x s = (t, Ret ())" "as_inv s"
  shows "as_inv t \<and> grows s t \<and> as_changes t = as_changes s"
proof -
  obtain formula nm where x: "x = (formula, nm)" by (cases x)
  obtain u target where u: "copy_library env (str_path (ae_brew env @ [''opt'', formula, ''lib'', nm])) s = (u, Ret target)"
    "t = u \<or> (\<exists>l. t = u\<lparr>as_exists := as_exists u @ [l]\<rparr>)"
    using assms(1) unfolding x copy_dlopen_def by (auto simp: bindA_eq_Ret thenA_eq_Ret retA_def updA_def Let_def split: if_splits)
  note c = copy_library_result [OF u(1) assms(2)]
  have "as_inv (u\<lparr>as_exists := as_exists u @ [l]\<rparr>)" for l using c unfolding as_inv_def by simp blast
  moreover have "grows s (u\<lparr>as_exists := as_exists u @ [l]\<rparr>)" for l using c unfolding grows_def by simp
  ultimately show ?thesis using c u(2) by auto
qed

lemma dlopen_libraries_result:
  assumes "dlopen_libraries env s = (t, Ret ())" "as_inv s"
  shows "as_inv t \<and> grows s t \<and> as_changes t = as_changes s"
proof -
  have "forA (copy_dlopen env) xs s = (t, Ret ()) \<Longrightarrow> as_inv s \<Longrightarrow> as_inv t \<and> grows s t \<and> as_changes t = as_changes s" for xs
  proof (induction xs arbitrary: s)
    case (Cons x xs)
    obtain u where u: "copy_dlopen env x s = (u, Ret ())" "forA (copy_dlopen env) xs u = (t, Ret ())" using Cons.prems(1) by (auto simp: thenA_eq_Ret)
    show ?case using copy_dlopen_result [OF u(1) Cons.prems(2)] Cons.IH [OF u(2)] grows_trans by metis
  qed (simp add: retA_def)
  then show ?thesis using assms unfolding dlopen_libraries_def by blast
qed

lemma assembly_start_inv:
  assumes "distinct (map fst origins)" "set (map fst origins) \<subseteq> set present"
  shows "as_inv (assembly_start origins present)"
proof -
  have "map_of (rev (map (\<lambda>(t, s). (s, t)) origins)) src = Some t \<Longrightarrow> map_of origins t = Some src" for src t
    using assms(1) by (auto dest!: map_of_SomeD)
  then show ?thesis using assms unfolding as_inv_def assembly_start_def by auto
qed

lemma link_bundle_result:
  assumes "link_bundle fuel env (assembly_start origins present) = (t, Ret ())" "distinct (map fst origins)" "set (map fst origins) \<subseteq> set present"
  shows "as_inv t \<and> grows (assembly_start origins present) t \<and> (\<forall>p \<in> set (as_queue t). linked env t p)"
proof -
  let ?s = "assembly_start origins present"
  obtain u where u: "dlopen_libraries env ?s = (u, Ret ())" "drain_queue fuel env 0 u = (t, Ret ())"
    using assms(1) unfolding link_bundle_def by (auto simp: thenA_eq_Ret)
  note r = dlopen_libraries_result [OF u(1) assembly_start_inv [OF assms(2,3)]]
  have "as_changes u = []" using r by (simp add: assembly_start_def)
  then show ?thesis using drain_queue_result [OF u(2)] r grows_trans by auto
qed

section \<open>The loop ends\<close>

text \<open>The queue's length and the libraries that may still be copied: no step changes the sum.\<close>

definition pot :: "path set \<Rightarrow> assembly \<Rightarrow> nat" where
  "pot S s = length (as_queue s) + card (S - fst ` set (as_copied s))"

lemma copy_library_pot:
  assumes "copy_library env given s = (t, Ret target)" "finite S" "\<forall>g lib. ae_strict env g = Ret lib \<longrightarrow> lib \<in> S"
  shows "pot S t = pot S s"
proof -
  obtain lib where l: "ae_strict env given = Ret lib" "lib \<in> S" using assms(1,3) by (auto simp: copy_library_def split: outcome.splits)
  show ?thesis
  proof (cases "map_of (as_copied s) lib")
    case None
    then have n: "lib \<in> S - fst ` set (as_copied s)" using l(2) by (simp add: map_of_eq_None_iff)
    have "S - fst ` set (as_copied s @ [(lib, library_target env lib)]) = (S - fst ` set (as_copied s)) - {lib}" by auto
    then have "Suc (card (S - fst ` set (as_copied s @ [(lib, library_target env lib)]))) = card (S - fst ` set (as_copied s))"
      using n assms(2) by (metis card_Suc_Diff1 finite_Diff)
    moreover have "as_copied t = as_copied s @ [(lib, library_target env lib)]" "as_queue t = as_queue s @ [library_target env lib]"
      using assms(1) l(1) None by (auto simp: copy_library_def copy_fresh_def Let_def thenA_eq_Ret retA_def excA_def updA_def bindA_eq_Ret getA_def split: if_splits outcome.splits)
    ultimately show ?thesis unfolding pot_def by simp
  next
    case (Some q)
    then have "t = s" using assms(1) l(1) by (auto simp: copy_library_def retA_def excA_def split: if_splits)
    then show ?thesis by simp
  qed
qed

lemma link_deps_pot:
  assumes "link_deps env p source rpaths names s = (t, Ret r)" "finite S" "\<forall>g lib. ae_strict env g = Ret lib \<longrightarrow> lib \<in> S"
  shows "pot S t = pot S s"
  using assms(1)
proof (induction names arbitrary: s r)
  case (Cons name names)
  show ?case
  proof (cases "system_path name")
    case True
    then show ?thesis using Cons by simp
  next
    case False
    then obtain found u target r' where "copy_library env found s = (u, Ret target)" "link_deps env p source rpaths names u = (t, Ret r')"
      using Cons.prems(1) by (auto simp: bindA_eq_Ret retA_def split: outcome.splits)
    then show ?thesis using Cons.IH copy_library_pot [OF _ assms(2,3)] by metis
  qed
qed (simp add: retA_def)

lemma link_binary_pot:
  assumes "link_binary env p s = (t, Ret ())" "finite S" "\<forall>g lib. ae_strict env g = Ret lib \<longrightarrow> lib \<in> S"
  shows "pot S t = pot S s"
proof -
  obtain source where "link_commands env p source s = (t, Ret ())" using link_binary_steps [OF assms(1)] by blast
  then obtain rpaths deps r u args edges where l: "link_deps env p source rpaths deps s = (u, Ret r)" "record_binary env p source args edges u = (t, Ret ())"
    unfolding link_commands_def bindA_eq_Ret liftA_eq_Ret by (auto simp: bindA_eq_Ret)
  then show ?thesis using link_deps_pot [OF l(1) assms(2,3)] record_binary_result [OF l(2)] unfolding pot_def by simp
qed

definition env_ends :: "assembly_env \<Rightarrow> bool" where
  "env_ends env \<longleftrightarrow> (\<forall>g. ends (ae_strict env g)) \<and> (\<forall>p. ends (ae_archs env p) \<and> ends (ae_thin env p) \<and> ends (ae_commands env p)) \<and>
     (\<forall>p q. ends (ae_copy env p q)) \<and> (\<forall>p a. ends (ae_tool env p a)) \<and> (\<forall>p a. ends (ae_symlink env p a))"

lemma ends_assembly:
  assumes "env_ends env"
  shows "endsA (copy_library env g)" "endsA (copy_dlopen env x)" "endsA (link_deps env p source rpaths names)" "endsA (link_binary env p)"
proof -
  have e: "ends (ae_strict env g)" "ends (ae_archs env p)" "ends (ae_thin env p)" "ends (ae_commands env p)" "ends (ae_copy env p q)"
    "ends (ae_tool env p a)" "ends (ae_symlink env p b)" for g p q a b using assms unfolding env_ends_def by auto
  show c: "endsA (copy_library env g)" for g
    unfolding copy_library_def copy_fresh_def Let_def by (auto intro!: ends_intros e split: option.splits)
  show "endsA (copy_dlopen env x)" unfolding copy_dlopen_def Let_def by (cases x) (auto intro!: ends_intros e c)
  have r: "ends (resolve_name env n source rpaths)" for n source rpaths unfolding resolve_name_def by (auto split: option.splits)
  show d: "endsA (link_deps env p source rpaths names)" for p source rpaths names by (induction names) (simp add: endsA_def retA_def, auto intro!: ends_intros c r)
  have "endsA (record_binary env p source a ed)" for source a ed unfolding record_binary_def by (auto intro!: ends_intros e)
  then have "endsA (link_commands env p source)" for source unfolding link_commands_def by (auto intro!: ends_intros e d)
  then show "endsA (link_binary env p)" unfolding link_binary_def by (auto intro!: ends_intros e split: option.splits)
qed

lemma drain_queue_ends:
  assumes "env_ends env" "finite S" "\<forall>g lib. ae_strict env g = Ret lib \<longrightarrow> lib \<in> S"
  shows "pot S s < fuel + i \<Longrightarrow> i \<le> pot S s \<Longrightarrow> ends (snd (drain_queue fuel env i s))"
proof (induction fuel arbitrary: i s)
  case (Suc fuel)
  show ?case
  proof (cases "i < length (as_queue s)")
    case True
    obtain u r where u: "link_binary env (as_queue s ! i) s = (u, r)" by fastforce
    have "ends r" using ends_assembly(4) [OF assms(1)] u unfolding endsA_def by (metis snd_conv)
    then show ?thesis
    proof (cases r)
      case (Ret x)
      have p: "pot S u = pot S s" using link_binary_pot [OF _ assms(2,3)] u Ret by simp
      have "length (as_queue s) \<le> pot S s" unfolding pot_def by simp
      then show ?thesis using Suc.IH [of u "Suc i"] Suc.prems True u Ret p by (simp add: thenA_at)
    qed (use True u in \<open>simp_all add: act_defs\<close>)
  qed (simp add: retA_def)
qed simp


lemma dlopen_libraries_pot:
  assumes "dlopen_libraries env s = (t, Ret ())" "finite S" "\<forall>g lib. ae_strict env g = Ret lib \<longrightarrow> lib \<in> S"
  shows "pot S t = pot S s"
proof -
  have c: "pot S u = pot S s" if d: "copy_dlopen env x s = (u, Ret ())" for x s u
  proof -
    obtain formula nm where x: "x = (formula, nm)" by (cases x)
    obtain v target where v: "copy_library env (str_path (ae_brew env @ [''opt'', formula, ''lib'', nm])) s = (v, Ret target)"
      "u = v \<or> (\<exists>l. u = v\<lparr>as_exists := as_exists v @ [l]\<rparr>)"
      using d unfolding x copy_dlopen_def by (auto simp: bindA_eq_Ret thenA_eq_Ret retA_def updA_def Let_def split: if_splits)
    show ?thesis using copy_library_pot [OF v(1) assms(2,3)] v(2) unfolding pot_def by auto
  qed
  have "forA (copy_dlopen env) xs s = (t, Ret ()) \<Longrightarrow> pot S t = pot S s" for xs s
  proof (induction xs arbitrary: s)
    case (Cons x xs)
    obtain u where u: "copy_dlopen env x s = (u, Ret ())" "forA (copy_dlopen env) xs u = (t, Ret ())" using Cons.prems by (auto simp: thenA_eq_Ret)
    show ?case using c [OF u(1)] Cons.IH [OF u(2)] by simp
  qed simp
  then show ?thesis using assms(1) unfolding dlopen_libraries_def by blast
qed

lemma link_bundle_ends:
  assumes "env_ends env" "finite S" "\<forall>g lib. ae_strict env g = Ret lib \<longrightarrow> lib \<in> S" "length origins + card S < fuel"
  shows "ends (snd (link_bundle fuel env (assembly_start origins present)))"
proof -
  let ?s = "assembly_start origins present"
  obtain u r where u: "dlopen_libraries env ?s = (u, r)" by fastforce
  have "endsA (dlopen_libraries env)" unfolding dlopen_libraries_def by (intro endsA_for ends_assembly(2) assms(1))
  then have "ends r" using u unfolding endsA_def by (metis snd_conv)
  then show ?thesis
  proof (cases r)
    case (Ret x)
    have "pot S u = pot S ?s" using dlopen_libraries_pot [OF _ assms(2,3)] u Ret by simp
    moreover have "pot S ?s \<le> length origins + card S" using assms(2) unfolding pot_def assembly_start_def by (simp add: card_mono)
    ultimately show ?thesis using drain_queue_ends [OF assms(1-3), of u fuel 0] u Ret assms(4) unfolding link_bundle_def by (simp add: thenA_at)
  qed (use u in \<open>simp_all add: link_bundle_def thenA_def bindA_def\<close>)
qed

section \<open>Where the copies are\<close>

definition plain :: "string \<Rightarrow> bool" where
  "plain c \<longleftrightarrow> c \<noteq> [] \<and> c \<noteq> ''.'' \<and> c \<noteq> ''..'' \<and> CHR ''/'' \<notin> set c"

definition placed :: "assembly_env \<Rightarrow> assembly \<Rightarrow> bool" where
  "placed env s \<longleftrightarrow> list_all (\<lambda>p. list_all plain p \<and> (\<exists>rest. rest \<noteq> [] \<and> p = ae_contents env @ rest)) (as_queue s)"

lemma library_target_placed:
  assumes "list_all plain lib" "lib \<noteq> []" "lib \<noteq> ae_assets env" "list_all plain (ae_contents env)"
  shows "list_all plain (library_target env lib) \<and> (\<exists>rest. rest \<noteq> [] \<and> library_target env lib = ae_contents env @ rest)"
proof -
  have "list_all plain (drop n lib)" for n using assms(1) by (meson in_set_dropD list_all_iff)
  moreover have "plain (last lib)" using assms(1,2) by (simp add: list_all_iff)
  moreover have "plain ''Frameworks''" by (simp add: plain_def)
  ultimately show ?thesis using assms(3,4) unfolding library_target_def is_relative_to_iff by auto
qed

text \<open>A property of the queue and the origins is kept by the whole collection when a new copy keeps it.\<close>

lemma link_bundle_keeps:
  assumes fresh: "\<And>g lib. ae_strict env g = Ret lib \<Longrightarrow> list_ex (is_relative_to lib) (ae_allowed env) \<Longrightarrow> keeps P (copy_fresh env lib)"
    and u: "\<And>f. (\<And>s. as_queue (f s) = as_queue s \<and> as_origins (f s) = as_origins s) \<Longrightarrow> keeps P (updA f)"
  shows "keeps P (link_bundle fuel env)"
proof -
  have c: "keeps P (copy_library env g)" for g
    unfolding copy_library_def by (rule keeps_lift_bind) (auto intro!: keeps_intros fresh split: option.splits)
  have "keeps P (copy_dlopen env x)" for x unfolding copy_dlopen_def Let_def by (cases x) (auto intro!: keeps_intros c u)
  then have d: "keeps P (dlopen_libraries env)" unfolding dlopen_libraries_def by (auto intro!: keeps_intros)
  have k: "keeps P (link_deps env p source rpaths names)" for p source rpaths names
    by (induction names) (simp add: keeps_def retA_def, auto intro!: keeps_intros c)
  have "keeps P (record_binary env p source a ed)" for p source a ed unfolding record_binary_def by (auto intro!: keeps_intros u)
  then have "keeps P (link_commands env p source)" for p source unfolding link_commands_def by (auto intro!: keeps_intros k)
  then have "keeps P (link_binary env p)" for p unfolding link_binary_def by (auto intro!: keeps_intros split: option.splits)
  then have "keeps P (drain_queue fuel env i)" for i by (induction fuel arbitrary: i) (auto intro!: keeps_intros)
  then show ?thesis unfolding link_bundle_def by (intro keeps_then d)
qed

lemma copy_fresh_keeps:
  assumes "\<And>s. P s \<Longrightarrow> P (s\<lparr>as_exists := as_exists s @ [library_target env lib], as_origins := as_origins s @ [(library_target env lib, lib)],
                   as_copied := as_copied s @ [(lib, library_target env lib)], as_queue := as_queue s @ [library_target env lib]\<rparr>)"
  shows "keeps P (copy_fresh env lib)"
proof -
  have "keeps P (updA (\<lambda>s. s\<lparr>as_exists := as_exists s @ [library_target env lib], as_origins := as_origins s @ [(library_target env lib, lib)],
                   as_copied := as_copied s @ [(lib, library_target env lib)], as_queue := as_queue s @ [library_target env lib]\<rparr>))"
    using assms unfolding keeps_def by simp
  then show ?thesis unfolding copy_fresh_def Let_def by (auto intro!: keeps_intros)
qed

lemma placed_keeps:
  assumes "\<forall>g lib. ae_strict env g = Ret lib \<longrightarrow> list_all plain lib \<and> lib \<noteq> [] \<and> lib \<noteq> ae_assets env" "list_all plain (ae_contents env)"
  shows "keeps (placed env) (link_bundle fuel env)"
proof (rule link_bundle_keeps)
  fix g lib assume "ae_strict env g = Ret lib"
  then have "list_all plain (library_target env lib) \<and> (\<exists>rest. rest \<noteq> [] \<and> library_target env lib = ae_contents env @ rest)"
    using assms by (intro library_target_placed) blast+
  then show "keeps (placed env) (copy_fresh env lib)" by (intro copy_fresh_keeps) (simp add: placed_def)
qed (simp add: keeps_def placed_def)

definition declared :: "assembly_env \<Rightarrow> (path \<times> path) list \<Rightarrow> assembly \<Rightarrow> bool" where
  "declared env origins s \<longleftrightarrow> list_all (\<lambda>(p, lib). (p, lib) \<in> set origins \<or> list_ex (is_relative_to lib) (ae_allowed env)) (as_origins s)"

lemma declared_keeps: "keeps (declared env origins) (link_bundle fuel env)"
proof (rule link_bundle_keeps)
  fix g lib assume "list_ex (is_relative_to lib) (ae_allowed env)"
  then show "keeps (declared env origins) (copy_fresh env lib)" by (intro copy_fresh_keeps) (simp add: declared_def)
qed (simp add: keeps_def declared_def)

section \<open>The bundle passes its inspection\<close>

text \<open>What \<^verbatim>\<open>install_name_tool\<close> is asked to do, and what it does, as its manual says: every load command whose name is listed gets
  the name that is given for it, the others stay, and the listed run paths are gone.\<close>

fun given_changes :: "string list \<Rightarrow> (string \<times> string) list" where
  "given_changes (a # b # rest) =
     (if a = ''-change'' then (case rest of [] \<Rightarrow> [] | c # cs \<Rightarrow> (b, c) # given_changes cs) else given_changes rest)"
| "given_changes args = []"

fun given_deletions :: "string list \<Rightarrow> string list" where
  "given_deletions (a # b # rest) =
     (if a = ''-change'' then (case rest of [] \<Rightarrow> [] | c # cs \<Rightarrow> given_deletions cs)
      else if a = ''-delete_rpath'' then b # given_deletions rest else given_deletions rest)"
| "given_deletions args = []"

definition tool_effect :: "string list \<Rightarrow> string list \<times> string list \<times> string list \<Rightarrow> string list \<times> string list \<times> string list \<Rightarrow> bool" where
  "tool_effect args = (\<lambda>(deps, rpaths, ids) (deps', rpaths', ids').
     list_all (\<lambda>d'. list_ex (\<lambda>d. if d \<in> fst ` set (given_changes args) then (d, d') \<in> set (given_changes args) else d' = d) deps) deps' \<and>
     list_all (\<lambda>v. v \<in> set rpaths \<and> v \<notin> set (given_deletions args)) rpaths')"

definition loader_name :: "path \<Rightarrow> path \<Rightarrow> string" where
  "loader_name p target = ''@loader_path/'' @ join ''/'' (relpath target (butlast p))"

lemma link_args_given:
  "given_changes (link_args p pairs ids rpaths) = map (\<lambda>(n, q). (n, loader_name p q)) pairs"
  "given_deletions (link_args p pairs ids rpaths) = filter (\<lambda>v. \<not> system_path v) rpaths"
proof -
  have "given_changes (concat (map (\<lambda>v. if system_path v then [] else [''-delete_rpath'', v]) rpaths)) = []"
    "given_deletions (concat (map (\<lambda>v. if system_path v then [] else [''-delete_rpath'', v]) rpaths)) = filter (\<lambda>v. \<not> system_path v) rpaths"
    by (induction rpaths) auto
  then have "given_changes (final_args p ids rpaths) = []" "given_deletions (final_args p ids rpaths) = filter (\<lambda>v. \<not> system_path v) rpaths"
    by (auto simp: final_args_def)
  then show "given_changes (link_args p pairs ids rpaths) = map (\<lambda>(n, q). (n, loader_name p q)) pairs"
    "given_deletions (link_args p pairs ids rpaths) = filter (\<lambda>v. \<not> system_path v) rpaths"
    unfolding link_args_def by (induction pairs) (auto simp: change_args_def loader_name_def)
qed

lemma relpath_parts: "x \<in> set (relpath ts ss) \<Longrightarrow> x = ''..'' \<or> x \<in> set ts"
  by (induction ts ss rule: relpath.induct) (auto split: if_splits)

lemma loader_name_inspected:
  assumes "list_all plain p" "list_all plain q" "is_relative_to q contents"
    "strict (butlast p @ relpath q (butlast p)) = Ret (normal [] (butlast p @ relpath q (butlast p)))"
  shows "inspect_dep strict contents p (loader_name p q) = Ret ()"
proof -
  have pl: "plain x" if "x \<in> set p \<or> x \<in> set q" for x using that assms(1,2) unfolding list_all_iff by blast
  have "x \<noteq> [] \<and> x \<noteq> ''.'' \<and> CHR ''/'' \<notin> set x" if "x \<in> set (relpath q (butlast p))" for x
  proof (cases "x = ''..''")
    case False
    then have "plain x" using relpath_parts [OF that] pl by blast
    then show ?thesis unfolding plain_def by blast
  qed simp
  then have "path_of (join ''/'' (relpath q (butlast p))) = relpath q (butlast p)" by (intro path_of_join) (simp add: list_all_iff)
  moreover have "drop 13 (loader_name p q) = join ''/'' (relpath q (butlast p))" by (simp add: loader_name_def)
  ultimately have o: "path_of (drop 13 (loader_name p q)) = relpath q (butlast p)" by (simp only:)
  have "\<not> plain ''..''" by (simp add: plain_def)
  then have "''..'' \<notin> set q" "''..'' \<notin> set (butlast p)" using pl in_set_butlastD [of "''..''" p] by metis+
  then have "normal [] (butlast p @ relpath q (butlast p)) = q" using relpath_leads [of q "butlast p" "[]"] by simp
  moreover have "\<not> system_path (loader_name p q)" "starts_with ''@loader_path/'' (loader_name p q)" by (simp_all add: system_path_def loader_name_def)
  ultimately show ?thesis using assms(3,4) by (simp add: inspect_dep_def o)
qed


text \<open>The bundle's files after the changes, as the inspection finds them: \<open>after\<close> gives the load commands of a binary.\<close>

definition relinked :: "assembly_env \<Rightarrow> assembly \<Rightarrow> (path \<Rightarrow> (string list \<times> string list \<times> string list) outcome) \<Rightarrow> bool" where
  "relinked env s after \<longleftrightarrow> list_all (\<lambda>p. case ae_commands env p of
     Ret c \<Rightarrow> (case after p of Ret c' \<Rightarrow> tool_effect (args_of s p) c c' | r \<Rightarrow> False) | r \<Rightarrow> True) (as_queue s)"

definition resolves_inside :: "assembly \<Rightarrow> (path \<Rightarrow> path outcome) \<Rightarrow> bool" where
  "resolves_inside s strict \<longleftrightarrow> list_all (\<lambda>p. list_all (\<lambda>q.
     strict (butlast p @ relpath q (butlast p)) = Ret (normal [] (butlast p @ relpath q (butlast p)))) (as_queue s)) (as_queue s)"

definition bundled_entry :: "assembly \<Rightarrow> path \<Rightarrow> (path \<Rightarrow> (string list \<times> string list \<times> string list) outcome) \<Rightarrow> bundle_entry \<Rightarrow> bool" where
  "bundled_entry s contents after e \<longleftrightarrow>
     (case be_link e of None \<Rightarrow> True | Some (Ret q) \<Rightarrow> is_relative_to q contents | Some r \<Rightarrow> False) \<and>
     (case be_commands e of None \<Rightarrow> True | Some c \<Rightarrow> be_path e \<in> set (as_queue s) \<and> c = after (be_path e))"

lemma mapO_units: "list_all (\<lambda>x. f x = Ret ()) xs \<Longrightarrow> mapO f xs = Ret (map (\<lambda>_. ()) xs)"
  by (induction xs) auto

lemma linked_inspected:
  assumes l: "linked env s p" and inv: "as_inv s" "placed env s" and p: "p \<in> set (as_queue s)"
    and tool: "relinked env s after" and fs: "resolves_inside s strict"
  shows "\<exists>deps rpaths ids. after p = Ret (deps, rpaths, ids) \<and> list_all (\<lambda>n. inspect_dep strict (ae_contents env) p n = Ret ()) deps \<and> list_all system_path rpaths"
proof -
  obtain source deps rpaths ids pairs where l: "ae_commands env p = Ret (deps, rpaths, ids)"
    "map fst pairs = filter (\<lambda>n. \<not> system_path n) deps" "list_all (\<lambda>(n, q). dep_target env s source rpaths n q) pairs" "args_of s p = link_args p pairs ids rpaths"
    using l unfolding linked_def by blast
  obtain deps' rpaths' ids' where a: "after p = Ret (deps', rpaths', ids')" "tool_effect (args_of s p) (deps, rpaths, ids) (deps', rpaths', ids')"
    using tool p l(1) unfolding relinked_def by (cases "after p") (auto simp: list_all_iff)
  have "map fst (given_changes (args_of s p)) = map fst pairs" unfolding l(4) link_args_given by (simp add: case_prod_unfold)
  then have names: "fst ` set (given_changes (args_of s p)) = {n \<in> set deps. \<not> system_path n}" unfolding l(2) by (metis list.set_map set_filter)
  have "inspect_dep strict (ae_contents env) p d' = Ret ()" if "d' \<in> set deps'" for d'
  proof -
    have "list_ex (\<lambda>d. if d \<in> fst ` set (given_changes (args_of s p)) then (d, d') \<in> set (given_changes (args_of s p)) else d' = d) deps"
      using a(2) that unfolding tool_effect_def prod.case list_all_iff by (elim conjE) (rule bspec)
    then obtain d where d: "d \<in> set deps" "if d \<in> fst ` set (given_changes (args_of s p)) then (d, d') \<in> set (given_changes (args_of s p)) else d' = d"
      unfolding list_ex_iff by (rule bexE)
    show ?thesis
    proof (cases "system_path d")
      case True
      then have "d' = d" using d(2) unfolding names by simp
      then show ?thesis using True by (simp add: inspect_dep_def)
    next
      case False
      then have "(d, d') \<in> set (given_changes (args_of s p))" using d unfolding names by simp
      then have "(d, d') \<in> set (map (\<lambda>(n, q). (n, loader_name p q)) pairs)" unfolding l(4) link_args_given .
      then obtain q where q: "(d, q) \<in> set pairs" "d' = loader_name p q" by auto
      have "map_of (as_origins s) q \<noteq> None" using l(3) q(1) unfolding list_all_iff dep_target_def by auto
      then have m: "q \<in> set (as_queue s)" using inv(1) unfolding as_inv_def map_of_eq_None_iff by auto
      have "list_all plain q" "list_all plain p" "is_relative_to q (ae_contents env)"
        using inv(2) m p unfolding placed_def is_relative_to_iff list_all_iff by auto
      moreover have "strict (butlast p @ relpath q (butlast p)) = Ret (normal [] (butlast p @ relpath q (butlast p)))"
        using fs m p unfolding resolves_inside_def list_all_iff by blast
      ultimately show ?thesis unfolding q(2) by (intro loader_name_inspected)
    qed
  qed
  moreover have "system_path v" if "v \<in> set rpaths'" for v using a(2) that unfolding tool_effect_def prod.case l(4) link_args_given list_all_iff by simp
  ultimately show ?thesis using a(1) unfolding list_all_iff by blast
qed

lemma bundled_entry_inspected:
  assumes "bundled_entry s (ae_contents env) after e" "\<forall>p \<in> set (as_queue s). linked env s p" "as_inv s" "placed env s" "relinked env s after" "resolves_inside s strict"
  shows "inspect_entry strict (ae_contents env) e = Ret (if be_commands e = None then 0 else 1)"
proof (cases "be_commands e")
  case None
  then show ?thesis using assms(1) unfolding bundled_entry_def inspect_entry_def by (auto split: option.splits outcome.splits)
next
  case (Some c)
  then have c: "be_path e \<in> set (as_queue s)" "c = after (be_path e)" using assms(1) unfolding bundled_entry_def by auto
  obtain deps rpaths ids where d: "after (be_path e) = Ret (deps, rpaths, ids)"
    "list_all (\<lambda>n. inspect_dep strict (ae_contents env) (be_path e) n = Ret ()) deps" "list_all system_path rpaths"
    using linked_inspected [OF _ assms(3,4) c(1) assms(5,6)] assms(2) c(1) by blast
  show ?thesis using assms(1) Some c d(1,3) mapO_units [OF d(2)] unfolding bundled_entry_def inspect_entry_def
    by (auto simp: list_all_iff list_ex_iff split: option.splits outcome.splits)
qed

lemma bundle_inspected:
  assumes "list_all (bundled_entry s (ae_contents env) after) es" "\<forall>p \<in> set (as_queue s). linked env s p" "as_inv s" "placed env s" "relinked env s after" "resolves_inside s strict"
  shows "inspect_bundle strict (ae_contents env) es = Ret (length (filter (\<lambda>e. be_commands e \<noteq> None) es))"
  using assms(1) by (induction es) (simp_all add: bundled_entry_inspected [OF _ assms(2-6)])


section \<open>An example\<close>

definition sample_files :: "path list" where
  "sample_files = [[''b'', ''opt'', ''lz4'', ''lib'', ''liblz4.1.dylib''], [''b'', ''opt'', ''zstd'', ''lib'', ''libzstd.1.dylib''], [''b'', ''lib'', ''libx.dylib'']]"

definition sample_env :: assembly_env where
  "sample_env = \<lparr>ae_macos = [''a'', ''Contents'', ''MacOS''], ae_allowed = [[''b'']], ae_assets = [''u''], ae_contents = [''c''], ae_search = [[''b'', ''lib'']],
     ae_is_file = (\<lambda>s. path_of s \<in> set sample_files), ae_resolve = (\<lambda>s. s),
     ae_strict = (\<lambda>s. if path_of s \<in> set sample_files then Ret (path_of s) else Exc (OSError 2 [])),
     ae_archs = (\<lambda>_. Ret [''arm64'']), ae_thin = (\<lambda>_. Ret ()),
     ae_commands = (\<lambda>p. Ret (if last p = ''app'' then [''@rpath/libx.dylib'', ''/usr/lib/libc.dylib''] else [], if last p = ''app'' then [''/b/old''] else [], [])),
     ae_copy = (\<lambda>_ _. Ret ()), ae_tool = (\<lambda>_ _. Ret ()), ae_brew = [''b''], ae_symlink = (\<lambda>_ _. Ret ())\<rparr>"

definition sample_origins :: "(path \<times> path) list" where
  "sample_origins = [([''c'', ''MacOS'', ''app''], [''a'', ''app''])]"

definition sample_after :: "path \<Rightarrow> (string list \<times> string list \<times> string list) outcome" where
  "sample_after p = Ret (if last p = ''app'' then [''@loader_path/../Frameworks/libx.dylib'', ''/usr/lib/libc.dylib''] else [], [], [])"

definition sample_state :: assembly where
  "sample_state = fst (link_bundle 5 sample_env (assembly_start sample_origins (map fst sample_origins)))"

lemma sample_link: "link_bundle 5 sample_env (assembly_start sample_origins (map fst sample_origins)) = (sample_state, Ret ())"
  by code_simp


definition sample_entries :: "bundle_entry list" where
  "sample_entries = [\<lparr>be_path = [''c'', ''MacOS'', ''app''], be_link = None, be_commands = Some (sample_after [''c'', ''MacOS'', ''app''])\<rparr>,
     \<lparr>be_path = [''c'', ''Frameworks'', ''libx.dylib''], be_link = None, be_commands = Some (sample_after [''c'', ''Frameworks'', ''libx.dylib''])\<rparr>,
     \<lparr>be_path = [''c'', ''Frameworks'', ''libx.1.dylib''], be_link = Some (Ret [''c'', ''Frameworks'', ''libx.dylib'']), be_commands = None\<rparr>]"

lemma sample_checked:
  "relinked sample_env sample_state sample_after" "resolves_inside sample_state (\<lambda>q. Ret (normal [] q))"
  "list_all (bundled_entry sample_state (ae_contents sample_env) sample_after) sample_entries"
  by code_simp+

lemma sample_start: "distinct (map fst sample_origins)" "set (map fst sample_origins) \<subseteq> set (map fst sample_origins)"
  "placed sample_env (assembly_start sample_origins (map fst sample_origins))" "list_all plain (ae_contents sample_env)"
  by (simp_all add: sample_origins_def placed_def assembly_start_def plain_def sample_env_def)

lemma sample_resolved:
  "\<forall>g lib. ae_strict sample_env g = Ret lib \<longrightarrow> lib \<in> set sample_files"
  "\<forall>g lib. ae_strict sample_env g = Ret lib \<longrightarrow> list_all plain lib \<and> lib \<noteq> [] \<and> lib \<noteq> ae_assets sample_env"
proof -
  show f: "\<forall>g lib. ae_strict sample_env g = Ret lib \<longrightarrow> lib \<in> set sample_files" by (simp add: sample_env_def)
  have "list_all (\<lambda>lib. list_all plain lib \<and> lib \<noteq> [] \<and> lib \<noteq> ae_assets sample_env) sample_files" by code_simp
  then show "\<forall>g lib. ae_strict sample_env g = Ret lib \<longrightarrow> list_all plain lib \<and> lib \<noteq> [] \<and> lib \<noteq> ae_assets sample_env"
    using f unfolding list_all_iff by blast
qed

section \<open>Properties\<close>

text \<open>C37: when the collection of libraries ends, the bundle passes the inspection that the same script runs on it: every dependency of every
  binary that was found, with the libraries that were copied on the way, is a system library or leads, through the relative name that was
  given to \<^verbatim>\<open>install_name_tool\<close>, to a file inside the bundle, and no run path of the build is left. The binaries are counted.\<close>

theorem assembled_bundle_passes:
  assumes run: "link_bundle fuel env (assembly_start origins present) = (t, Ret ())"
    and start: "distinct (map fst origins)" "set (map fst origins) \<subseteq> set present" "placed env (assembly_start origins present)"
    and resolved: "\<forall>g lib. ae_strict env g = Ret lib \<longrightarrow> list_all plain lib \<and> lib \<noteq> [] \<and> lib \<noteq> ae_assets env" "list_all plain (ae_contents env)"
    and tool: "relinked env t after" and fs: "resolves_inside t strict"
    and entries: "list_all (bundled_entry t (ae_contents env) after) es"
  shows "inspect_bundle strict (ae_contents env) es = Ret (length (filter (\<lambda>e. be_commands e \<noteq> None) es))"
proof -
  have "placed env t" using placed_keeps [OF resolved, of fuel] start(3) run unfolding keeps_def by (metis fst_conv)
  then show ?thesis using link_bundle_result [OF run start(1,2)] by (intro bundle_inspected [OF entries _ _ _ tool fs]) blast+
qed

text \<open>C38: the collection of libraries ends, although its loop appends to the list that it runs over: with finitely many files to resolve to, a
  number of rounds that depends on nothing else is enough. When it returns, every file of the bundle's record has been linked, and what was
  not there at the beginning was copied from an allowed place.\<close>

theorem assembly_ends:
  assumes "env_ends env" "finite S" "\<forall>g lib. ae_strict env g = Ret lib \<longrightarrow> lib \<in> S" "distinct (map fst origins)" "set (map fst origins) \<subseteq> set present"
  shows "\<exists>t r. link_bundle (Suc (length origins + card S)) env (assembly_start origins present) = (t, r) \<and> ends r \<and> declared env origins t \<and>
    (r = Ret () \<longrightarrow> list_all (linked env t) (as_queue t))"
proof -
  let ?s = "assembly_start origins present" and ?f = "Suc (length origins + card S)"
  obtain t r where t: "link_bundle ?f env ?s = (t, r)" by fastforce
  have "ends r" using link_bundle_ends [OF assms(1-3), of origins ?f present] t by simp
  moreover have "declared env origins ?s" by (auto simp: declared_def assembly_start_def list_all_iff)
  then have "declared env origins t" using declared_keeps [of env origins ?f] t unfolding keeps_def by (metis fst_conv)
  moreover have "list_all (linked env t) (as_queue t)" if "r = Ret ()" using link_bundle_result [OF _ assms(4,5)] t that by (simp add: list_all_iff)
  ultimately show ?thesis using t by blast
qed

theorem assembled_bundle_passes_witness: "inspect_bundle (\<lambda>q. Ret (normal [] q)) (ae_contents sample_env) sample_entries = Ret 2"
proof -
  have "length (filter (\<lambda>e. be_commands e \<noteq> None) sample_entries) = 2" by (simp add: sample_entries_def)
  then show ?thesis
    using assembled_bundle_passes [OF sample_link sample_start(1-3) sample_resolved(2) sample_start(4) sample_checked] by (simp only:)
qed

theorem assembly_ends_witness:
  "\<exists>t r. link_bundle (Suc (length sample_origins + card (set sample_files))) sample_env (assembly_start sample_origins (map fst sample_origins)) = (t, r) \<and> ends r"
proof -
  have "env_ends sample_env" by (simp add: env_ends_def sample_env_def)
  from assembly_ends [OF this finite_set sample_resolved(1) sample_start(1,2)] show ?thesis by blast
qed

end
