(* ===== verification/Build_Sources.thy ===== *)
theory Build_Sources
  imports Paths
begin

text \<open>
  \<^verbatim>\<open>tools/sources.py\<close>: dependencies are built from submodules at the recorded commits without local changes, or from release archives with
  the recorded checksum, with the repository's patches and copies applied. A generated tree carries a receipt of its inputs.

  \<^verbatim>\<open>git\<close>, \<^verbatim>\<open>tar\<close>, \<^verbatim>\<open>patch\<close>, downloads and the checksum are inputs. The generated trees and the downloaded archives are the state. The contents of
  a directory are an arbitrary type, with what the programs do to it as inputs. The files of the checkout do not change while a source is prepared.
\<close>

section \<open>Inputs\<close>

text \<open>The entries of \<^verbatim>\<open>dependencies.json\<close> and \<^verbatim>\<open>upstream/archives.lock.json\<close>.\<close>

record recipe =
  rc_archive :: "string option"
  rc_submodule :: "string option"
  rc_patches :: "string list option"
  rc_copies :: "(string \<times> string) list option"

record archive_spec =
  sp_url :: string
  sp_sha256 :: string
  sp_omitted :: "(string \<times> string) list option"

record tar_member =
  tm_name :: string
  tm_symlink :: bool
  tm_target :: string

record 't source_io =
  si_root :: path
  si_recipes :: "(string \<times> recipe) list"
  si_archives :: "(string \<times> archive_spec) list"
  si_ls_files :: "path \<Rightarrow> string outcome"
  si_initialized :: "path \<Rightarrow> bool"
  si_head :: "path \<Rightarrow> string outcome"
  si_status :: "path \<Rightarrow> string outcome"
  si_file :: "path \<Rightarrow> bytes outcome"
  si_sha256 :: "bytes \<Rightarrow> string"
  si_fetch :: "string \<Rightarrow> bytes outcome"
  si_archive :: "path \<Rightarrow> string \<Rightarrow> bytes outcome"
  si_members :: "bytes \<Rightarrow> tar_member list outcome"
  si_data_filter :: "tar_member list \<Rightarrow> tar_member \<Rightarrow> tar_member option outcome"
  si_unpack :: "bytes \<Rightarrow> tar_member list \<Rightarrow> 't outcome"
  si_children :: "'t \<Rightarrow> (bool \<times> 't) list"
  si_overlay :: "'t \<Rightarrow> path \<Rightarrow> 't \<Rightarrow> 't outcome"
  si_patch :: "'t \<Rightarrow> bytes \<Rightarrow> (int \<times> 't) outcome"
  si_put :: "'t \<Rightarrow> path \<Rightarrow> bytes \<Rightarrow> 't outcome"

section \<open>Paths and pins\<close>

text \<open>\<^verbatim>\<open>path / text\<close>.\<close>

definition joined_path :: "path \<Rightarrow> string \<Rightarrow> path" where
  "joined_path p s = (if absolute s then path_of s else p @ path_of s)"

definition outside :: "string \<Rightarrow> bool" where
  "outside s \<longleftrightarrow> absolute s \<or> ''..'' \<in> set (path_of s)"

definition sources_path :: "'t source_io \<Rightarrow> string \<Rightarrow> path outcome" where
  "sources_path io relative =
     (if outside relative then Exc (ValueError ''Build inputs must use repository-relative paths'') else Ret (si_root io @ path_of relative))"

text \<open>\<^verbatim>\<open>text.split()\<close> and \<^verbatim>\<open>text.split('\t', 1)\<close>.\<close>

fun words_of :: "string \<Rightarrow> string list" where
  "words_of [] = []"
| "words_of (c # s) =
     (if re_space c then words_of s
      else (case s of
          [] \<Rightarrow> [[c]]
        | d # _ \<Rightarrow> if re_space d then [c] # words_of s else (case words_of s of [] \<Rightarrow> [[c]] | w # ws \<Rightarrow> (c # w) # ws)))"

definition tab :: char where
  "tab = CHR 0x09"

fun split_tab :: "string \<Rightarrow> (string \<times> string) option" where
  "split_tab [] = None"
| "split_tab (c # s) = (if c = tab then Some ([], s) else map_option (\<lambda>(a, b). (c # a, b)) (split_tab s))"

definition read_link :: "string \<Rightarrow> (string \<times> string) list \<Rightarrow> (string \<times> string) list outcome" where
  "read_link entry links =
     (case split_tab entry of
        None \<Rightarrow> Exc (ValueError ''not enough values to unpack'')
      | Some (metadata, relative) \<Rightarrow>
          (case words_of metadata of
             [mode, revision, stage] \<Rightarrow>
               if mode = ''160000'' then
                 (if stage \<noteq> ''0'' then Exc (RuntimeError ''unresolved submodule merge'') else Ret (dset relative revision links))
               else Ret links
           | _ \<Rightarrow> Exc (ValueError ''values to unpack'')))"

fun read_links :: "string list \<Rightarrow> (string \<times> string) list \<Rightarrow> (string \<times> string) list outcome" where
  "read_links [] links = Ret links"
| "read_links (entry # entries) links =
     (if entry = [] then read_links entries links else bindO (read_link entry links) (read_links entries))"

definition gitlinks :: "'t source_io \<Rightarrow> path \<Rightarrow> (string \<times> string) list outcome" where
  "gitlinks io repository = bindO (si_ls_files io repository) (\<lambda>out. read_links (split_on (CHR 0x00) out) [])"

text \<open>The fuel is the depth of the interpreter's stack.\<close>

fun verify_checkout :: "nat \<Rightarrow> 't source_io \<Rightarrow> path \<Rightarrow> string \<Rightarrow> unit outcome"
  and verify_links :: "nat \<Rightarrow> 't source_io \<Rightarrow> path \<Rightarrow> (string \<times> string) list \<Rightarrow> unit outcome" where
  "verify_checkout 0 io p revision = Exc (RecursionError ''maximum recursion depth exceeded'')"
| "verify_checkout (Suc fuel) io p revision =
     (if \<not> si_initialized io p then Exc (RuntimeError ''initialize with git submodule update --init --recursive --depth 1'') else
      bindO (si_head io p) (\<lambda>actual.
      if strip_spaces actual \<noteq> revision then Exc (RuntimeError ''checkout does not match the recorded submodule pin'') else
      bindO (si_status io p) (\<lambda>dirty.
      if dirty \<noteq> [] then Exc (RuntimeError ''local changes found'') else
      bindO (gitlinks io p) (verify_links fuel io p))))"
| "verify_links fuel io p [] = Ret ()"
| "verify_links fuel io p ((child, pin) # links) =
     bindO (if absolute child \<or> ''..'' \<in> set (drop (length (si_root io)) p @ path_of child)
        then Exc (ValueError ''Build inputs must use repository-relative paths'') else Ret (p @ path_of child)) (\<lambda>q.
     bindO (verify_checkout fuel io q pin) (\<lambda>_. verify_links fuel io p links))"

definition submodule :: "nat \<Rightarrow> 't source_io \<Rightarrow> string \<Rightarrow> (path \<times> string) outcome" where
  "submodule fuel io relative =
     bindO (sources_path io relative) (\<lambda>p.
     bindO (gitlinks io (si_root io)) (\<lambda>links.
     case map_of links relative of
       None \<Rightarrow> Exc (RuntimeError ''expected one recorded submodule commit in the Git index'')
     | Some revision \<Rightarrow>
         if revision = [] then Exc (RuntimeError ''expected one recorded submodule commit in the Git index'') else
         bindO (verify_checkout fuel io p revision) (\<lambda>_. Ret (p, revision))))"

fun check_recipes :: "nat \<Rightarrow> 't source_io \<Rightarrow> recipe list \<Rightarrow> unit outcome" where
  "check_recipes fuel io [] = Ret ()"
| "check_recipes fuel io (r # rs) =
     bindO (case rc_submodule r of None \<Rightarrow> Ret () | Some m \<Rightarrow> bindO (submodule fuel io m) (\<lambda>_. Ret ())) (\<lambda>_. check_recipes fuel io rs)"

definition check_submodules :: "nat \<Rightarrow> 't source_io \<Rightarrow> unit outcome" where
  "check_submodules fuel io = check_recipes fuel io (map snd (si_recipes io))"

section \<open>The identity of the inputs\<close>

definition listed :: "'a list option \<Rightarrow> 'a list" where
  "listed xs = (case xs of None \<Rightarrow> [] | Some ys \<Rightarrow> ys)"

definition recipe_paths :: "recipe \<Rightarrow> string list" where
  "recipe_paths r = listed (rc_patches r) @ map fst (listed (rc_copies r))"

text \<open>The submodule that a path within \<^verbatim>\<open>third_party\<close> belongs to.\<close>

definition owning_module :: "string \<Rightarrow> string option" where
  "owning_module relative =
     (if \<not> absolute relative \<and> take 1 (path_of relative) = [''third_party''] then Some (join ''/'' (take 2 (path_of relative))) else None)"

definition pin_module :: "nat \<Rightarrow> 't source_io \<Rightarrow> string \<Rightarrow> (string \<times> string) list \<Rightarrow> (string \<times> string) list outcome" where
  "pin_module fuel io m pins = bindO (submodule fuel io m) (\<lambda>(_, revision). Ret (dset m revision pins))"

fun pin_paths :: "nat \<Rightarrow> 't source_io \<Rightarrow> string list \<Rightarrow> (string \<times> string) list \<Rightarrow> (string \<times> string) list outcome" where
  "pin_paths fuel io [] pins = Ret pins"
| "pin_paths fuel io (relative # rest) pins =
     bindO (case owning_module relative of
         None \<Rightarrow> Ret pins
       | Some m \<Rightarrow> if m \<in> fst ` set pins then Ret pins else pin_module fuel io m pins) (pin_paths fuel io rest)"

definition file_digest :: "'t source_io \<Rightarrow> string \<Rightarrow> string outcome" where
  "file_digest io relative = bindO (sources_path io relative) (\<lambda>p. bindO (si_file io p) (\<lambda>content. Ret (si_sha256 io content)))"

fun file_digests :: "'t source_io \<Rightarrow> string list \<Rightarrow> (string \<times> string) list \<Rightarrow> (string \<times> string) list outcome" where
  "file_digests io [] files = Ret files"
| "file_digests io (relative # rest) files = bindO (file_digest io relative) (\<lambda>h. file_digests io rest (dset relative h files))"

record source_identity =
  id_recipe :: recipe
  id_submodules :: "(string \<times> string) list"
  id_files :: "(string \<times> string) list"
  id_archive :: "archive_spec option"

definition inputs :: "nat \<Rightarrow> 't source_io \<Rightarrow> recipe \<Rightarrow> source_identity outcome" where
  "inputs fuel io r =
     bindO (case rc_submodule r of None \<Rightarrow> Ret [] | Some m \<Rightarrow> pin_module fuel io m []) (\<lambda>own.
     bindO (pin_paths fuel io (recipe_paths r) own) (\<lambda>pins.
     bindO (file_digests io (recipe_paths r) []) (\<lambda>files.
       Ret \<lparr>id_recipe = r, id_submodules = pins, id_files = files, id_archive = None\<rparr>)))"

text \<open>The identity as the receipt's JSON.\<close>

definition text_dict :: "(string \<times> string) list \<Rightarrow> json" where
  "text_dict d = JDict (map (\<lambda>(k, v). (k, JStr v)) d)"

definition present :: "string \<Rightarrow> ('a \<Rightarrow> json) \<Rightarrow> 'a option \<Rightarrow> dict" where
  "present key f v = (case v of None \<Rightarrow> [] | Some x \<Rightarrow> [(key, f x)])"

definition recipe_json :: "recipe \<Rightarrow> json" where
  "recipe_json r = JDict (present ''archive'' JStr (rc_archive r) @ present ''submodule'' JStr (rc_submodule r)
     @ present ''patches'' (\<lambda>xs. JList (map JStr xs)) (rc_patches r) @ present ''copies'' text_dict (rc_copies r))"

definition spec_json :: "archive_spec \<Rightarrow> json" where
  "spec_json sp = JDict ([(''url'', JStr (sp_url sp)), (''sha256'', JStr (sp_sha256 sp))] @ present ''omittedExternalLinks'' text_dict (sp_omitted sp))"

definition identity_json :: "source_identity \<Rightarrow> json" where
  "identity_json i = JDict ([(''recipe'', recipe_json (id_recipe i)), (''submodules'', text_dict (id_submodules i)), (''files'', text_dict (id_files i))]
     @ present ''archive'' spec_json (id_archive i))"

section \<open>Archives\<close>

text \<open>What is extracted of an archive: the filter of each member sees what has been extracted before. A dropped member is not extracted.\<close>

definition safe_filter :: "'t source_io \<Rightarrow> (string \<times> string) list \<Rightarrow> tar_member list \<Rightarrow> tar_member \<Rightarrow> tar_member option outcome" where
  "safe_filter io omitted before member =
     (case map_of omitted (tm_name member) of
        Some link \<Rightarrow> if \<not> tm_symlink member \<or> tm_target member \<noteq> link then Exc (RuntimeError ''Unexpected external-link metadata'') else Ret None
      | None \<Rightarrow> si_data_filter io before member)"

fun extract_members :: "'t source_io \<Rightarrow> (string \<times> string) list \<Rightarrow> tar_member list \<Rightarrow> tar_member list \<Rightarrow> tar_member list outcome" where
  "extract_members io omitted before [] = Ret before"
| "extract_members io omitted before (member # members) =
     bindO (safe_filter io omitted before member) (\<lambda>m.
       extract_members io omitted (case m of None \<Rightarrow> before | Some x \<Rightarrow> before @ [x]) members)"

definition extract_tar :: "'t source_io \<Rightarrow> bytes \<Rightarrow> (string \<times> string) list option \<Rightarrow> 't outcome" where
  "extract_tar io archive omitted =
     bindO (si_members io archive) (\<lambda>members.
     bindO (extract_members io (listed omitted) [] members) (si_unpack io archive))"

fun export :: "nat \<Rightarrow> 't source_io \<Rightarrow> path \<Rightarrow> string \<Rightarrow> 't outcome"
  and export_links :: "nat \<Rightarrow> 't source_io \<Rightarrow> path \<Rightarrow> 't \<Rightarrow> (string \<times> string) list \<Rightarrow> 't outcome" where
  "export 0 io md revision = Exc (RecursionError ''maximum recursion depth exceeded'')"
| "export (Suc fuel) io md revision =
     bindO (si_archive io md revision) (\<lambda>archive.
     bindO (extract_tar io archive None) (\<lambda>content.
     bindO (gitlinks io md) (export_links fuel io md content)))"
| "export_links fuel io md content [] = Ret content"
| "export_links fuel io md content ((relative, pin) # links) =
     bindO (export fuel io (joined_path md relative) pin) (\<lambda>child.
     bindO (si_overlay io content (path_of relative) child) (\<lambda>merged. export_links fuel io md merged links))"

section \<open>Preparation\<close>

text \<open>A generated tree: its receipt, when it can be read, and its contents.\<close>

record 't generated =
  ge_receipt :: "json outcome option"
  ge_content :: 't

record 't source_state =
  so_targets :: "(string \<times> 't generated) list"
  so_cache :: "(string \<times> bytes) list"

definition fetch_archive :: "'t source_io \<Rightarrow> string \<Rightarrow> archive_spec \<Rightarrow> ('t source_state, bytes) act" where
  "fetch_archive io name sp =
     bindA (getA so_cache) (\<lambda>cache.
     thenA (if name \<in> fst ` set cache then retA () else
         bindA (liftA (si_fetch io (sp_url sp))) (\<lambda>download.
           if si_sha256 io download \<noteq> sp_sha256 sp then excA (RuntimeError ''Downloaded archive checksum mismatch'')
           else updA (\<lambda>s. s\<lparr>so_cache := so_cache s @ [(name, download)]\<rparr>)))
     (bindA (getA (\<lambda>s. map_of (so_cache s) name)) (\<lambda>found.
       case found of
         None \<Rightarrow> excA (OSError 2 name)
       | Some archive \<Rightarrow> if si_sha256 io archive \<noteq> sp_sha256 sp then excA (RuntimeError ''Cached archive checksum mismatch'') else retA archive)))"

definition archive_source :: "'t source_io \<Rightarrow> archive_spec \<Rightarrow> bytes \<Rightarrow> 't outcome" where
  "archive_source io sp archive =
     bindO (extract_tar io archive (sp_omitted sp)) (\<lambda>extracted.
       case si_children io extracted of [(True, content)] \<Rightarrow> Ret content | _ \<Rightarrow> Exc (RuntimeError ''Expected one archive source directory''))"

fun apply_patches :: "'t source_io \<Rightarrow> string list \<Rightarrow> 't \<Rightarrow> 't outcome" where
  "apply_patches io [] content = Ret content"
| "apply_patches io (relative # rest) content =
     bindO (sources_path io relative) (\<lambda>p. bindO (si_file io p) (\<lambda>patch. bindO (si_patch io content patch) (\<lambda>(code, patched).
       if code \<noteq> 0 then Exc (RuntimeError ''patch failed'') else apply_patches io rest patched)))"

fun apply_copies :: "'t source_io \<Rightarrow> (string \<times> string) list \<Rightarrow> 't \<Rightarrow> 't outcome" where
  "apply_copies io [] content = Ret content"
| "apply_copies io ((original, destination) # rest) content =
     (if outside destination then Exc (ValueError ''Invalid generated source destination'') else
      bindO (sources_path io original) (\<lambda>p. bindO (si_file io p) (\<lambda>file. bindO (si_put io content (path_of destination) file) (apply_copies io rest))))"

definition base_source :: "nat \<Rightarrow> 't source_io \<Rightarrow> source_identity \<Rightarrow> ('t source_state, 't) act" where
  "base_source fuel io i =
     (case (rc_archive (id_recipe i), id_archive i) of
        (Some name, Some sp) \<Rightarrow> bindA (fetch_archive io name sp) (\<lambda>archive. liftA (archive_source io sp archive))
      | _ \<Rightarrow>
        (case rc_submodule (id_recipe i) of
           None \<Rightarrow> excA (KeyError ''submodule'')
         | Some m \<Rightarrow> liftA (bindO (sources_path io m) (\<lambda>p.
             case map_of (id_submodules i) m of None \<Rightarrow> Exc (KeyError m) | Some revision \<Rightarrow> export fuel io p revision))))"

definition generate :: "nat \<Rightarrow> 't source_io \<Rightarrow> string \<Rightarrow> source_identity \<Rightarrow> ('t source_state, unit) act" where
  "generate fuel io name i =
     bindA (base_source fuel io i) (\<lambda>base.
     bindA (liftA (apply_patches io (listed (rc_patches (id_recipe i))) base)) (\<lambda>patched.
     bindA (liftA (apply_copies io (listed (rc_copies (id_recipe i))) patched)) (\<lambda>content.
       updA (\<lambda>s. s\<lparr>so_targets := dset name \<lparr>ge_receipt = Some (Ret (identity_json i)), ge_content = content\<rparr> (so_targets s)\<rparr>))))"

definition same_receipt :: "'t generated \<Rightarrow> source_identity \<Rightarrow> bool outcome" where
  "same_receipt g i =
     (case ge_receipt g of None \<Rightarrow> Ret False | Some receipt \<Rightarrow> bindO receipt (\<lambda>v. Ret (py_eq v (identity_json i))))"

definition target_path :: "'t source_io \<Rightarrow> string \<Rightarrow> path" where
  "target_path io name = si_root io @ [''build'', ''sources'', name]"

definition prepare_target :: "nat \<Rightarrow> 't source_io \<Rightarrow> string \<Rightarrow> source_identity \<Rightarrow> ('t source_state, path) act" where
  "prepare_target fuel io name i =
     bindA (getA (\<lambda>s. map_of (so_targets s) name)) (\<lambda>target.
       case target of
         Some g \<Rightarrow> bindA (liftA (same_receipt g i)) (\<lambda>same. if same then retA (target_path io name) else excA (RuntimeError ''inputs changed''))
       | None \<Rightarrow> thenA (generate fuel io name i) (retA (target_path io name)))"

definition prepare :: "nat \<Rightarrow> 't source_io \<Rightarrow> string \<Rightarrow> ('t source_state, path) act" where
  "prepare fuel io name =
     (case map_of (si_recipes io) name of
        None \<Rightarrow> excA (KeyError name)
      | Some r \<Rightarrow>
          if CHR ''/'' \<in> set name \<or> name = ''.'' \<or> name = ''..'' then excA (ValueError ''Invalid component name'') else
          bindA (liftA (inputs fuel io r)) (\<lambda>i.
            if rc_archive r = None \<and> listed (rc_patches r) = [] \<and> listed (rc_copies r) = [] then
              liftA (case rc_submodule r of None \<Rightarrow> Exc (KeyError ''submodule'') | Some m \<Rightarrow> sources_path io m)
            else case rc_archive r of
              None \<Rightarrow> prepare_target fuel io name i
            | Some a \<Rightarrow> (case map_of (si_archives io) a of None \<Rightarrow> excA (KeyError a) | Some sp \<Rightarrow> prepare_target fuel io name (i\<lparr>id_archive := Some sp\<rparr>))))"

section \<open>Pristine checkouts\<close>

text \<open>A submodule at a commit, without changes, with all its submodules.\<close>

inductive pristine :: "'t source_io \<Rightarrow> path \<Rightarrow> string \<Rightarrow> bool" for io where
  pristine: "si_initialized io p \<Longrightarrow> si_head io p = Ret h \<Longrightarrow> strip_spaces h = revision \<Longrightarrow> si_status io p = Ret [] \<Longrightarrow> gitlinks io p = Ret links \<Longrightarrow>
    (\<forall>child pin. (child, pin) \<in> set links \<longrightarrow> \<not> absolute child \<and> ''..'' \<notin> set (drop (length (si_root io)) p @ path_of child) \<and>
      pristine io (p @ path_of child) pin) \<Longrightarrow> pristine io p revision"

inductive_cases pristineE: "pristine io p revision"

lemma verify_links_iff:
  "verify_links fuel io p links = Ret () \<longleftrightarrow>
     (\<forall>child pin. (child, pin) \<in> set links \<longrightarrow> \<not> absolute child \<and> ''..'' \<notin> set (drop (length (si_root io)) p @ path_of child) \<and>
       verify_checkout fuel io (p @ path_of child) pin = Ret ())"
  by (induction links) (auto simp: bindO_eq_Ret split: if_splits)

lemma verify_checkout_iff:
  "verify_checkout (Suc fuel) io p revision = Ret () \<longleftrightarrow>
     (\<exists>h links. si_initialized io p \<and> si_head io p = Ret h \<and> strip_spaces h = revision \<and> si_status io p = Ret [] \<and> gitlinks io p = Ret links \<and>
       verify_links fuel io p links = Ret ())"
  by (auto simp: bindO_eq_Ret split: if_splits)

lemma verify_checkout_mono: "verify_checkout fuel io p revision = Ret () \<Longrightarrow> fuel \<le> fuel' \<Longrightarrow> verify_checkout fuel' io p revision = Ret ()"
proof (induction fuel arbitrary: p revision fuel')
  case (Suc fuel)
  obtain k where k: "fuel' = Suc k" "fuel \<le> k" using Suc.prems(2) by (cases fuel') auto
  have "verify_links k io p links = Ret ()" if "verify_links fuel io p links = Ret ()" for links
    using that Suc.IH [OF _ k(2)] unfolding verify_links_iff by blast
  then show ?case using Suc.prems(1) unfolding k(1) verify_checkout_iff by blast
qed simp

lemma verified_pristine: "verify_checkout fuel io p revision = Ret () \<Longrightarrow> pristine io p revision"
proof (induction fuel arbitrary: p revision)
  case (Suc fuel)
  obtain h links where l: "si_initialized io p" "si_head io p = Ret h" "strip_spaces h = revision" "si_status io p = Ret []" "gitlinks io p = Ret links"
    "verify_links fuel io p links = Ret ()" using Suc.prems unfolding verify_checkout_iff by blast
  show ?case using l(6) Suc.IH unfolding verify_links_iff by (intro pristine [OF l(1-5)]) blast
qed simp

lemma pristine_verified: "pristine io p revision \<Longrightarrow> \<exists>fuel. verify_checkout fuel io p revision = Ret ()"
proof (induction rule: pristine.induct)
  case (pristine p h revision links)
  have "\<exists>n. \<forall>x \<in> set links. verify_checkout n io (p @ path_of (fst x)) (snd x) = Ret ()"
  proof (rule exI [of _ "Max ((\<lambda>x. LEAST n. verify_checkout n io (p @ path_of (fst x)) (snd x) = Ret ()) ` set links)"], intro ballI)
    fix x assume x: "x \<in> set links"
    let ?f = "\<lambda>x. LEAST n. verify_checkout n io (p @ path_of (fst x)) (snd x) = Ret ()"
    have "\<exists>n. verify_checkout n io (p @ path_of (fst x)) (snd x) = Ret ()" using pristine(6) x by (metis prod.collapse)
    then have "verify_checkout (?f x) io (p @ path_of (fst x)) (snd x) = Ret ()" by (rule LeastI_ex)
    then show "verify_checkout (Max (?f ` set links)) io (p @ path_of (fst x)) (snd x) = Ret ()"
      by (rule verify_checkout_mono) (simp add: x)
  qed
  then obtain n where "\<forall>x \<in> set links. verify_checkout n io (p @ path_of (fst x)) (snd x) = Ret ()" by blast
  then have "verify_links n io p links = Ret ()" unfolding verify_links_iff using pristine(6) by fastforce
  then have "verify_checkout (Suc n) io p revision = Ret ()" unfolding verify_checkout_iff using pristine(1-5) by blast
  then show ?case by blast
qed

section \<open>The pinned inputs\<close>

definition recorded :: "'t source_io \<Rightarrow> string \<Rightarrow> string \<Rightarrow> bool" where
  "recorded io m revision \<longleftrightarrow> \<not> outside m \<and> (\<exists>links. gitlinks io (si_root io) = Ret links \<and> map_of links m = Some revision) \<and>
     pristine io (si_root io @ path_of m) revision"

lemma submodule_recorded: "submodule fuel io m = Ret (p, revision) \<Longrightarrow> p = si_root io @ path_of m \<and> recorded io m revision"
  unfolding submodule_def sources_path_def recorded_def
  by (auto simp: bindO_eq_Ret intro: verified_pristine split: option.splits if_splits)

definition pinned :: "'t source_io \<Rightarrow> (string \<times> string) list \<Rightarrow> bool" where
  "pinned io pins \<longleftrightarrow> distinct (map fst pins) \<and> (\<forall>(m, revision) \<in> set pins. recorded io m revision)"

lemma set_dset_new: "k \<notin> fst ` set d \<Longrightarrow> dset k v d = d @ [(k, v)]"
  by (induction d) auto

lemma pin_module_pinned:
  assumes "pin_module fuel io m pins = Ret pins'" "pinned io pins" "m \<notin> fst ` set pins"
  shows "pinned io pins' \<and> fst ` set pins' = insert m (fst ` set pins)"
  using assms submodule_recorded [of fuel io m] unfolding pin_module_def pinned_def by (auto simp: bindO_eq_Ret set_dset_new)

lemma pin_paths_pinned:
  "pin_paths fuel io paths pins = Ret pins' \<Longrightarrow> pinned io pins \<Longrightarrow>
     pinned io pins' \<and> fst ` set pins \<subseteq> fst ` set pins' \<and> (\<forall>relative \<in> set paths. \<forall>m. owning_module relative = Some m \<longrightarrow> m \<in> fst ` set pins')"
proof (induction paths arbitrary: pins)
  case (Cons relative paths)
  obtain mid where m: "(case owning_module relative of None \<Rightarrow> Ret pins | Some m \<Rightarrow> if m \<in> fst ` set pins then Ret pins else pin_module fuel io m pins) = Ret mid"
    "pin_paths fuel io paths mid = Ret pins'" using Cons.prems(1) by (auto simp: bindO_eq_Ret)
  have "pinned io mid \<and> fst ` set pins \<subseteq> fst ` set mid \<and> (\<forall>m. owning_module relative = Some m \<longrightarrow> m \<in> fst ` set mid)"
    using m(1) Cons.prems(2) pin_module_pinned [of fuel io _ pins mid] by (auto split: option.splits if_splits)
  then show ?case using Cons.IH [OF m(2)] by (metis set_ConsD subset_iff)
qed simp

lemma file_digests_right:
  "file_digests io paths files = Ret files' \<Longrightarrow> distinct (map fst files) \<Longrightarrow>
     distinct (map fst files') \<and> (\<forall>relative. relative \<notin> set paths \<longrightarrow> map_of files' relative = map_of files relative) \<and>
     (\<forall>relative \<in> set paths. \<exists>h. file_digest io relative = Ret h \<and> map_of files' relative = Some h)"
proof (induction paths arbitrary: files)
  case (Cons relative paths)
  obtain h where h: "file_digest io relative = Ret h" "file_digests io paths (dset relative h files) = Ret files'" using Cons.prems(1) by (auto simp: bindO_eq_Ret)
  have "distinct (map fst (dset relative h files))" using Cons.prems(2) wf_dict_dset by (auto simp: wf_dict_def)
  note r = Cons.IH [OF h(2) this]
  have "map_of files' relative = Some h" using r h(1) by (cases "relative \<in> set paths") auto
  then show ?case using r h(1) by (auto simp del: map_of_eq_Some_iff)
qed simp

lemma inputs_pinned:
  assumes "inputs fuel io r = Ret i"
  shows "id_recipe i = r \<and> id_archive i = None \<and> pinned io (id_submodules i) \<and> distinct (map fst (id_files i)) \<and>
    (\<forall>m. rc_submodule r = Some m \<longrightarrow> m \<in> fst ` set (id_submodules i)) \<and>
    (\<forall>relative \<in> set (recipe_paths r). (\<forall>m. owning_module relative = Some m \<longrightarrow> m \<in> fst ` set (id_submodules i)) \<and>
      (\<exists>h. file_digest io relative = Ret h \<and> map_of (id_files i) relative = Some h))"
proof -
  obtain own pins files where l: "(case rc_submodule r of None \<Rightarrow> Ret [] | Some m \<Rightarrow> pin_module fuel io m []) = Ret own"
    "pin_paths fuel io (recipe_paths r) own = Ret pins" "file_digests io (recipe_paths r) [] = Ret files"
    "i = \<lparr>id_recipe = r, id_submodules = pins, id_files = files, id_archive = None\<rparr>"
    using assms unfolding inputs_def by (auto simp: bindO_eq_Ret)
  have n: "pinned io []" by (simp add: pinned_def)
  have o: "pinned io own \<and> (\<forall>m. rc_submodule r = Some m \<longrightarrow> m \<in> fst ` set own)"
    using l(1) pin_module_pinned [OF _ n] n by (auto split: option.splits)
  show ?thesis using pin_paths_pinned [OF l(2)] file_digests_right [OF l(3)] o unfolding l(4) by auto
qed

section \<open>Generated trees\<close>

text \<open>Where the contents come from: an archive with the recorded checksum, or the recorded commit.\<close>

definition source_of :: "'t source_io \<Rightarrow> source_identity \<Rightarrow> 't \<Rightarrow> bool" where
  "source_of io i base \<longleftrightarrow>
     (case (rc_archive (id_recipe i), id_archive i) of
        (Some _, Some sp) \<Rightarrow> \<exists>archive. si_sha256 io archive = sp_sha256 sp \<and> archive_source io sp archive = Ret base
      | _ \<Rightarrow> \<exists>m revision fuel. rc_submodule (id_recipe i) = Some m \<and> map_of (id_submodules i) m = Some revision \<and>
          export fuel io (si_root io @ path_of m) revision = Ret base)"

definition built_from :: "'t source_io \<Rightarrow> source_identity \<Rightarrow> 't \<Rightarrow> bool" where
  "built_from io i content \<longleftrightarrow> (\<exists>base patched. source_of io i base \<and>
     apply_patches io (listed (rc_patches (id_recipe i))) base = Ret patched \<and> apply_copies io (listed (rc_copies (id_recipe i))) patched = Ret content)"

definition cache_right :: "'t source_io \<Rightarrow> 't source_state \<Rightarrow> 't source_state \<Rightarrow> bool" where
  "cache_right io s t \<longleftrightarrow> so_cache t = so_cache s \<or>
     (\<exists>a sp b. map_of (si_archives io) a = Some sp \<and> a \<notin> fst ` set (so_cache s) \<and> si_sha256 io b = sp_sha256 sp \<and> so_cache t = so_cache s @ [(a, b)])"

lemma fetch_archive_result:
  assumes "fetch_archive io a sp s = (t, r)" "map_of (si_archives io) a = Some sp"
  shows "so_targets t = so_targets s \<and> cache_right io s t \<and> (\<forall>b. r = Ret b \<longrightarrow> si_sha256 io b = sp_sha256 sp)"
proof (cases "a \<in> fst ` set (so_cache s)")
  case True
  then obtain b where b: "map_of (so_cache s) a = Some b" by (metis map_of_eq_None_iff option.exhaust)
  have "t = s \<and> (\<forall>b. r = Ret b \<longrightarrow> si_sha256 io b = sp_sha256 sp)"
    using assms(1) True b unfolding fetch_archive_def by (auto split: if_splits)
  then show ?thesis by (simp add: cache_right_def)
next
  case False
  then have n: "map_of (so_cache s) a = None" by (simp add: map_of_eq_None_iff)
  show ?thesis
  proof (cases "si_fetch io (sp_url sp)")
    case (Ret d)
    show ?thesis
    proof (cases "si_sha256 io d = sp_sha256 sp")
      case True
      then have "t = s\<lparr>so_cache := so_cache s @ [(a, d)]\<rparr> \<and> r = Ret d"
        using assms(1) False Ret n unfolding fetch_archive_def by (auto simp: act_defs map_add_def)
      then show ?thesis using True False assms(2) by (auto simp: cache_right_def)
    next
      case False
      then have "t = s \<and> (\<forall>b. r \<noteq> Ret b)" using assms(1) Ret \<open>a \<notin> _\<close> unfolding fetch_archive_def by (auto simp: act_defs)
      then show ?thesis by (simp add: cache_right_def)
    qed
  qed (use assms(1) False in \<open>auto simp: fetch_archive_def act_defs cache_right_def\<close>)
qed

definition archive_given :: "'t source_io \<Rightarrow> source_identity \<Rightarrow> bool" where
  "archive_given io i \<longleftrightarrow> (case rc_archive (id_recipe i) of None \<Rightarrow> id_archive i = None | Some a \<Rightarrow> id_archive i \<noteq> None \<and> map_of (si_archives io) a = id_archive i)"

lemma base_source_result:
  assumes "base_source fuel io i s = (t, r)" "archive_given io i"
  shows "so_targets t = so_targets s \<and> cache_right io s t \<and> (\<forall>base. r = Ret base \<longrightarrow> source_of io i base)"
proof (cases "rc_archive (id_recipe i)")
  case None
  then have "t = s \<and> (\<forall>base. r = Ret base \<longrightarrow> source_of io i base)"
    using assms unfolding base_source_def source_of_def archive_given_def
    by (auto simp: liftA_def bindO_eq_Ret sources_path_def split: option.splits if_splits)
  then show ?thesis by (simp add: cache_right_def)
next
  case (Some a)
  then obtain sp where sp: "id_archive i = Some sp" "map_of (si_archives io) a = Some sp" using assms(2) unfolding archive_given_def by auto
  obtain u q where u: "fetch_archive io a sp s = (u, q)" by fastforce
  note f = fetch_archive_result [OF u sp(2)]
  have t: "t = u" and r: "r = Ret base \<Longrightarrow> \<exists>b. q = Ret b \<and> archive_source io sp b = Ret base" for base
    using assms(1) Some sp(1) u unfolding base_source_def by (auto simp: bindA_def liftA_def split: outcome.splits)
  have "source_of io i base" if rb: "r = Ret base" for base
  proof -
    obtain b where "q = Ret b" "archive_source io sp b = Ret base" using r [OF rb] by blast
    then have "si_sha256 io b = sp_sha256 sp \<and> archive_source io sp b = Ret base" using f by simp
    then show ?thesis unfolding source_of_def Some sp(1) by (simp only: prod.case option.case) (rule exI)
  qed
  then show ?thesis using f t by simp
qed

lemma generate_result:
  assumes "generate fuel io name i s = (t, r)" "archive_given io i"
  shows "cache_right io s t \<and> ((\<exists>content. r = Ret () \<and> built_from io i content \<and>
      so_targets t = dset name \<lparr>ge_receipt = Some (Ret (identity_json i)), ge_content = content\<rparr> (so_targets s)) \<or>
    (\<forall>x. r \<noteq> Ret x) \<and> so_targets t = so_targets s)"
proof -
  obtain u q where u: "base_source fuel io i s = (u, q)" by fastforce
  note b = base_source_result [OF u assms(2)]
  show ?thesis
  proof (cases q)
    case (Ret base)
    show ?thesis
    proof (cases "bindO (apply_patches io (listed (rc_patches (id_recipe i))) base) (apply_copies io (listed (rc_copies (id_recipe i))))")
      case r: (Ret content)
      then have "built_from io i content" using b Ret unfolding built_from_def by (auto simp: bindO_eq_Ret)
      moreover have "r = Ret () \<and> t = u\<lparr>so_targets := dset name \<lparr>ge_receipt = Some (Ret (identity_json i)), ge_content = content\<rparr> (so_targets u)\<rparr>"
        using assms(1) u Ret r unfolding generate_def by (auto simp: act_defs bindO_eq_Ret)
      ultimately show ?thesis using b by (auto simp: cache_right_def)
    next
      case (Exc e)
      then have "t = u \<and> (\<forall>x. r \<noteq> Ret x)" using assms(1) u Ret unfolding generate_def by (auto simp: act_defs bindO_eq_Exc)
      then show ?thesis using b by simp
    next
      case NoRet
      then have "t = u \<and> (\<forall>x. r \<noteq> Ret x)" using assms(1) u Ret unfolding generate_def by (auto simp: act_defs bindO_eq_NoRet)
      then show ?thesis using b by simp
    qed
  qed (use assms(1) u b in \<open>auto simp: generate_def act_defs\<close>)
qed


lemma prepare_target_result:
  assumes "prepare_target fuel io name i s = (t, r)" "archive_given io i"
  shows "cache_right io s t \<and> ((\<forall>p. r \<noteq> Ret p) \<and> so_targets t = so_targets s \<or>
    r = Ret (target_path io name) \<and> (t = s \<and> (\<exists>g v. map_of (so_targets s) name = Some g \<and> ge_receipt g = Some (Ret v) \<and> py_eq v (identity_json i)) \<or>
      name \<notin> fst ` set (so_targets s) \<and> (\<exists>content. built_from io i content \<and>
        so_targets t = dset name \<lparr>ge_receipt = Some (Ret (identity_json i)), ge_content = content\<rparr> (so_targets s))))"
proof (cases "map_of (so_targets s) name")
  case (Some g)
  then show ?thesis
    using assms(1) unfolding prepare_target_def same_receipt_def cache_right_def
    by (cases "ge_receipt g"; cases "the (ge_receipt g)") (auto simp: excA_def retA_def split: if_splits)
next
  case None
  obtain u q where u: "generate fuel io name i s = (u, q)" by fastforce
  have "t = u" "r = (case q of Ret _ \<Rightarrow> Ret (target_path io name) | Exc e \<Rightarrow> Exc e | NoRet \<Rightarrow> NoRet)"
    using assms(1) None u unfolding prepare_target_def by (auto simp: act_defs split: outcome.splits)
  then show ?thesis using generate_result [OF u assms(2)] None by (auto simp: map_of_eq_None_iff split: outcome.splits)
qed

text \<open>What a prepared source is: its inputs are pinned, and it is the submodule itself, an earlier tree with a receipt of these inputs, or a
  new tree that was made from them.\<close>

definition inputs_known :: "'t source_io \<Rightarrow> recipe \<Rightarrow> source_identity \<Rightarrow> bool" where
  "inputs_known io r i \<longleftrightarrow> id_recipe i = r \<and> (\<forall>(m, revision) \<in> set (id_submodules i). recorded io m revision) \<and>
     (\<forall>m. rc_submodule r = Some m \<longrightarrow> m \<in> fst ` set (id_submodules i)) \<and>
     (\<forall>relative \<in> set (recipe_paths r). (\<forall>m. owning_module relative = Some m \<longrightarrow> m \<in> fst ` set (id_submodules i)) \<and>
       (\<exists>h. file_digest io relative = Ret h \<and> map_of (id_files i) relative = Some h))"

definition prepared :: "'t source_io \<Rightarrow> string \<Rightarrow> 't source_state \<Rightarrow> 't source_state \<Rightarrow> path \<Rightarrow> bool" where
  "prepared io name s t p \<longleftrightarrow> (\<exists>r i. map_of (si_recipes io) name = Some r \<and> inputs_known io r i \<and>
     ((\<exists>m. rc_submodule r = Some m \<and> recipe_paths r = [] \<and> p = si_root io @ path_of m \<and> t = s) \<or>
      p = target_path io name \<and>
        (t = s \<and> (\<exists>g v. map_of (so_targets s) name = Some g \<and> ge_receipt g = Some (Ret v) \<and> py_eq v (identity_json i)) \<or>
         name \<notin> fst ` set (so_targets s) \<and> (\<exists>content. built_from io i content \<and>
           so_targets t = dset name \<lparr>ge_receipt = Some (Ret (identity_json i)), ge_content = content\<rparr> (so_targets s)))))"

lemma prepare_cases:
  assumes "prepare fuel io name s = (t, r)"
  obtains "t = s" "\<forall>p. r \<noteq> Ret p"
    | rc i m where "map_of (si_recipes io) name = Some rc" "inputs fuel io rc = Ret i" "rc_archive rc = None" "recipe_paths rc = []" "rc_submodule rc = Some m"
        "t = s" "r = sources_path io m"
    | rc i where "map_of (si_recipes io) name = Some rc" "inputs fuel io rc = Ret i" "rc_archive rc = None" "prepare_target fuel io name i s = (t, r)"
    | rc i a sp where "map_of (si_recipes io) name = Some rc" "inputs fuel io rc = Ret i" "rc_archive rc = Some a" "map_of (si_archives io) a = Some sp"
        "prepare_target fuel io name (i\<lparr>id_archive := Some sp\<rparr>) s = (t, r)"
proof -
  have l: "liftA x s = (s, x)" for x by (simp add: liftA_def)
  show ?thesis using assms that unfolding prepare_def recipe_paths_def by (auto simp: excA_def l split: option.splits if_splits outcome.splits)
qed

section \<open>A receipt is recognized\<close>

lemma py_eq_items_all: "\<forall>(k, v) \<in> set d. \<exists>w. map_of e k = Some w \<and> py_eq v w \<Longrightarrow> py_eq_items d e"
  by (induction d) auto

lemma py_eq_dict_refl: "distinct (map fst d) \<Longrightarrow> \<forall>(k, v) \<in> set d. py_eq v v \<Longrightarrow> py_eq (JDict d) (JDict d)"
  by (auto intro!: py_eq_items_all)

lemma py_eq_texts: "py_eq_list (map JStr xs) (map JStr xs)"
  by (induction xs) auto

lemma py_eq_text_dict: "distinct (map fst d) \<Longrightarrow> py_eq (text_dict d) (text_dict d)"
  unfolding text_dict_def by (intro py_eq_dict_refl) (auto simp: case_prod_unfold comp_def)

definition wf_recipe :: "recipe \<Rightarrow> bool" where
  "wf_recipe r \<longleftrightarrow> distinct (map fst (listed (rc_copies r)))"

definition wf_spec :: "archive_spec \<Rightarrow> bool" where
  "wf_spec sp \<longleftrightarrow> distinct (map fst (listed (sp_omitted sp)))"

lemma py_eq_recipe: "wf_recipe r \<Longrightarrow> py_eq (recipe_json r) (recipe_json r)"
  unfolding recipe_json_def wf_recipe_def listed_def present_def
  by (intro py_eq_dict_refl) (auto simp: py_eq_texts py_eq_text_dict split: option.splits)

lemma py_eq_spec: "wf_spec sp \<Longrightarrow> py_eq (spec_json sp) (spec_json sp)"
  unfolding spec_json_def wf_spec_def listed_def present_def
  by (intro py_eq_dict_refl) (auto simp: py_eq_text_dict split: option.splits)

lemma py_eq_identity:
  assumes "wf_recipe (id_recipe i)" "distinct (map fst (id_submodules i))" "distinct (map fst (id_files i))" "\<forall>sp. id_archive i = Some sp \<longrightarrow> wf_spec sp"
  shows "py_eq (identity_json i) (identity_json i)"
  unfolding identity_json_def present_def
  by (intro py_eq_dict_refl) (use assms in \<open>auto simp: py_eq_text_dict py_eq_recipe py_eq_spec split: option.splits\<close>)

lemma prepare_target_again:
  assumes "prepare_target fuel io name i s = (t, Ret p)" "archive_given io i" "py_eq (identity_json i) (identity_json i)"
  shows "prepare_target fuel io name i t = (t, Ret p)"
proof -
  have p: "p = target_path io name" and "\<exists>g v. map_of (so_targets t) name = Some g \<and> ge_receipt g = Some (Ret v) \<and> py_eq v (identity_json i)"
    using prepare_target_result [OF assms(1,2)] assms(3) by auto
  then obtain g v where "map_of (so_targets t) name = Some g" "ge_receipt g = Some (Ret v)" "py_eq v (identity_json i)" by blast
  then show ?thesis using p by (simp add: prepare_target_def same_receipt_def)
qed

section \<open>Properties\<close>


text \<open>Preparing a source again while its inputs stay the same gives the same path and changes nothing.\<close>

theorem prepare_again:
  assumes run: "prepare fuel io name s = (t, Ret p)" and wf: "list_all (wf_recipe \<circ> snd) (si_recipes io)" "list_all (wf_spec \<circ> snd) (si_archives io)"
  shows "prepare fuel io name t = (t, Ret p)"
proof -
  have w: "map_of (si_recipes io) n = Some rc \<Longrightarrow> wf_recipe rc" "map_of (si_archives io) a = Some sp \<Longrightarrow> wf_spec sp" for n rc a sp
    using wf unfolding list_all_iff by (force dest: map_of_SomeD)+
  show ?thesis using run
  proof (cases rule: prepare_cases)
    case (2 rc i m)
    then show ?thesis using run by simp
  next
    case (3 rc i)
    note i = inputs_pinned [OF 3(2)]
    have "archive_given io i" "py_eq (identity_json i) (identity_json i)"
      using 3(1,3) i w(1) by (auto simp: archive_given_def pinned_def intro!: py_eq_identity)
    then have "prepare_target fuel io name i t = (t, Ret p)" by (rule prepare_target_again [OF 3(4)])
    then show ?thesis using run 3(1-3) unfolding prepare_def by (auto split: if_splits)
  next
    case (4 rc i a sp)
    note i = inputs_pinned [OF 4(2)]
    have "archive_given io (i\<lparr>id_archive := Some sp\<rparr>)" "py_eq (identity_json (i\<lparr>id_archive := Some sp\<rparr>)) (identity_json (i\<lparr>id_archive := Some sp\<rparr>))"
      using 4(1,3,4) i w by (auto simp: archive_given_def pinned_def intro!: py_eq_identity)
    then have "prepare_target fuel io name (i\<lparr>id_archive := Some sp\<rparr>) t = (t, Ret p)" by (rule prepare_target_again [OF 4(5)])
    then show ?thesis using run 4(1-4) unfolding prepare_def by (auto split: if_splits)
  qed simp
qed

text \<open>A recipe with a submodule and a patch; contents are lists of what was done.\<close>

definition demo_io :: "string list source_io" where
  "demo_io = \<lparr>si_root = [''r''], si_recipes = [(''demo'', \<lparr>rc_archive = None, rc_submodule = Some ''third_party/demo'', rc_patches = Some [''patches/demo.patch''], rc_copies = None\<rparr>)],
     si_archives = [], si_ls_files = (\<lambda>p. Ret (if p = [''r''] then ''160000 abc 0'' @ [tab] @ ''third_party/demo'' @ [CHR 0x00] @ ''100644 def 0'' @ [tab] @ ''README.md'' @ [CHR 0x00] else [])),
     si_initialized = (\<lambda>_. True), si_head = (\<lambda>_. Ret (''abc'' @ [CHR 0x0a])), si_status = (\<lambda>_. Ret []), si_file = (\<lambda>_. Ret [1]), si_sha256 = (\<lambda>_. ''77''),
     si_fetch = (\<lambda>_. Exc (OSError 101 [])), si_archive = (\<lambda>_ _. Ret []), si_members = (\<lambda>_. Ret []), si_data_filter = (\<lambda>_ m. Ret (Some m)),
     si_unpack = (\<lambda>_ _. Ret [''base'']), si_children = (\<lambda>_. []), si_overlay = (\<lambda>c _ _. Ret c), si_patch = (\<lambda>c _. Ret (0, c @ [''patched''])), si_put = (\<lambda>c _ _. Ret c)\<rparr>"

definition demo_start :: "string list source_state" where
  "demo_start = \<lparr>so_targets = [], so_cache = []\<rparr>"

definition demo_state :: "string list source_state" where
  "demo_state = fst (prepare 3 demo_io ''demo'' demo_start)"

lemma demo_prepared: "prepare 3 demo_io ''demo'' demo_start = (demo_state, Ret [''r'', ''build'', ''sources'', ''demo''])"
  "map (ge_content \<circ> snd) (so_targets demo_state) = [[''base'', ''patched'']]"
  by code_simp+


theorem prepare_again_witness: "prepare 3 demo_io ''demo'' demo_state = (demo_state, Ret [''r'', ''build'', ''sources'', ''demo''])"
proof -
  have "list_all (wf_recipe \<circ> snd) (si_recipes demo_io)" "list_all (wf_spec \<circ> snd) (si_archives demo_io)"
    by (simp_all add: demo_io_def wf_recipe_def listed_def)
  then show ?thesis by (rule prepare_again [OF demo_prepared(1)])
qed

end
