(* ===== verification/Utm_Assets.thy ===== *)
theory Utm_Assets
  imports Paths "HOL-Library.List_Lexorder" "HOL-Library.Char_ord"
begin

unbundle bit_operations_syntax

text \<open>
  \<^verbatim>\<open>tools/utm_assets.py\<close>: the graphics libraries and shaders of a UTM release are taken from its disk image and kept when every component has
  the recorded digest of its whole tree.

  The disk image, the download, the copies, what is found where a directory was moved, and SHA-256 are inputs. A directory is the list of what is below it, in any order. The prepared
  directory, the downloaded image, the mounted image and the temporary directory are the state. Names are ASCII.
\<close>

section \<open>The digest of a tree\<close>

definition relative_path :: "string \<Rightarrow> path outcome" where
  "relative_path value =
     (if value = [] \<or> absolute value \<or> ''..'' \<in> set (path_of value) \<or> path_of value = [] then Exc (ValueError ''Expected a nonempty relative asset path'')
      else Ret (path_of value))"

text \<open>A file with its mode and contents, a link with its text and where it leads, a directory with its mode, or something else.\<close>

datatype asset_node = RegularFile nat bytes | Symlink string "path outcome" | Folder nat | Special nat

record asset_tree =
  at_symlink :: bool
  at_is_dir :: bool
  at_resolved :: "path outcome"
  at_below :: "(path \<times> asset_node) list"

datatype tree_entry = LinkEntry string string | FileEntry string bool string | DirectoryEntry string

definition executable :: "nat \<Rightarrow> bool" where
  "executable mode \<longleftrightarrow> mode AND 73 \<noteq> 0"

definition tree_entry_of :: "(bytes \<Rightarrow> string) \<Rightarrow> path \<Rightarrow> path \<times> asset_node \<Rightarrow> tree_entry outcome" where
  "tree_entry_of sha256 directory = (\<lambda>(p, node).
     let name = join ''/'' p in
     case node of
       Symlink target resolved \<Rightarrow>
         if absolute target then Exc (ValueError ''Asset symlink escapes its component'') else
         bindO resolved (\<lambda>q. if \<not> is_relative_to q directory then Exc (ValueError ''Asset symlink escapes its component'') else Ret (LinkEntry name target))
     | RegularFile mode content \<Rightarrow> Ret (FileEntry name (executable mode) (sha256 content))
     | Folder _ \<Rightarrow> Ret (DirectoryEntry name)
     | Special _ \<Rightarrow> Exc (ValueError ''Unsupported asset entry''))"

text \<open>The entries as compact JSON.\<close>

fun entry_text :: "tree_entry \<Rightarrow> string" where
  "entry_text (LinkEntry name target) = ''['' @ json_str name @ '','' @ json_str ''link'' @ '','' @ json_str target @ '']''"
| "entry_text (FileEntry name x h) = ''['' @ json_str name @ '','' @ json_str ''file'' @ '','' @ (if x then ''true'' else ''false'') @ '','' @ json_str h @ '']''"
| "entry_text (DirectoryEntry name) = ''['' @ json_str name @ '','' @ json_str ''directory'' @ '']''"

definition entries_text :: "tree_entry list \<Rightarrow> string" where
  "entries_text es = ''['' @ join '','' (map entry_text es) @ '']''"

text \<open>\<^verbatim>\<open>sorted(directory.rglob('*'))\<close> orders paths by their components.\<close>

definition tree_digest :: "(bytes \<Rightarrow> string) \<Rightarrow> asset_tree \<Rightarrow> string outcome" where
  "tree_digest sha256 t =
     bindO (at_resolved t) (\<lambda>directory.
     bindO (mapO (tree_entry_of sha256 directory) (sort_key fst (at_below t))) (\<lambda>es. Ret (sha256 (ascii_bytes (entries_text es)))))"

section \<open>Verification and download\<close>

record asset_lock =
  al_url :: string
  al_size :: nat
  al_sha256 :: string
  al_components :: "(string \<times> string) list"
  al_shader_sources :: "(string \<times> string) list"
  al_json :: json

record asset_io =
  ai_lock :: asset_lock
  ai_darwin :: bool
  ai_sha256 :: "bytes \<Rightarrow> string"
  ai_fetch :: "string \<Rightarrow> bytes outcome"
  ai_attach :: "bytes \<Rightarrow> unit outcome"
  ai_image :: "bytes \<Rightarrow> path outcome \<times> (path \<Rightarrow> asset_tree)"
  ai_copytree :: "asset_tree \<Rightarrow> path \<Rightarrow> asset_tree outcome"
  ai_output :: path
  ai_rename :: "(path \<Rightarrow> asset_tree) \<Rightarrow> (path outcome \<times> (path \<Rightarrow> asset_tree)) outcome"
  ai_detach :: "unit outcome"
  ai_rmtree :: "unit outcome"

text \<open>A directory with components: where it leads and what is at a path below it.\<close>

definition verify_component :: "asset_io \<Rightarrow> path \<Rightarrow> (path \<Rightarrow> asset_tree) \<Rightarrow> string \<times> string \<Rightarrow> unit outcome" where
  "verify_component io directory here = (\<lambda>(p, expected).
     bindO (relative_path p) (\<lambda>relative.
     let t = here relative in
     if at_symlink t \<or> \<not> at_is_dir t then Exc (RuntimeError ''UTM asset does not match its pin'') else
     bindO (at_resolved t) (\<lambda>q. if \<not> is_relative_to q directory then Exc (RuntimeError ''UTM asset does not match its pin'') else
     bindO (tree_digest (ai_sha256 io) t) (\<lambda>h. if h \<noteq> expected then Exc (RuntimeError ''UTM asset does not match its pin'') else Ret ()))))"

fun verify_components :: "asset_io \<Rightarrow> path \<Rightarrow> (path \<Rightarrow> asset_tree) \<Rightarrow> (string \<times> string) list \<Rightarrow> unit outcome" where
  "verify_components io directory here [] = Ret ()"
| "verify_components io directory here (c # cs) = bindO (verify_component io directory here c) (\<lambda>_. verify_components io directory here cs)"

definition verify_assets :: "asset_io \<Rightarrow> path outcome \<times> (path \<Rightarrow> asset_tree) \<Rightarrow> unit outcome" where
  "verify_assets io d = bindO (fst d) (\<lambda>directory. verify_components io directory (snd d) (al_components (ai_lock io)))"

fun verify_shaders :: "(bytes \<Rightarrow> string) \<Rightarrow> (path \<Rightarrow> bytes outcome) \<Rightarrow> (string \<times> string) list \<Rightarrow> unit outcome" where
  "verify_shaders sha256 sources [] = Ret ()"
| "verify_shaders sha256 sources ((relative, expected) # rest) =
     bindO (relative_path relative) (\<lambda>p. bindO (sources p) (\<lambda>content.
       if sha256 content \<noteq> expected then Exc (RuntimeError ''CocoaSpice shader sources changed'') else verify_shaders sha256 sources rest))"

definition verify_shader_sources :: "asset_io \<Rightarrow> (path \<Rightarrow> bytes outcome) \<Rightarrow> unit outcome" where
  "verify_shader_sources io sources = verify_shaders (ai_sha256 io) sources (al_shader_sources (ai_lock io))"

record prepared_assets =
  pa_receipt :: "json outcome option"
  pa_place :: "path outcome"
  pa_components :: "path \<Rightarrow> asset_tree"

record asset_state =
  us_target :: "prepared_assets option"
  us_cache :: "bytes option"
  us_mounted :: bool
  us_temporary :: bool

definition image_right :: "asset_io \<Rightarrow> bytes \<Rightarrow> bool" where
  "image_right io b \<longleftrightarrow> length b = al_size (ai_lock io) \<and> ai_sha256 io b = al_sha256 (ai_lock io)"

definition download_image :: "asset_io \<Rightarrow> (asset_state, bytes) act" where
  "download_image io =
     bindA (getA us_cache) (\<lambda>cache.
     thenA (case cache of
         Some _ \<Rightarrow> retA ()
       | None \<Rightarrow> bindA (liftA (ai_fetch io (al_url (ai_lock io)))) (\<lambda>part.
           if \<not> image_right io part then excA (RuntimeError ''UTM download checksum/size mismatch'') else updA (\<lambda>s. s\<lparr>us_cache := Some part\<rparr>)))
     (bindA (getA us_cache) (\<lambda>found. case found of
         None \<Rightarrow> excA (OSError 2 ''UTM.dmg'')
       | Some b \<Rightarrow> if \<not> image_right io b then excA (RuntimeError ''Cached UTM.dmg differs from its pin'') else retA b)))"

section \<open>Preparation\<close>

text \<open>Directories become 0755, and files 0755 or 0644 depending on whether they could be executed.\<close>

fun opened_node :: "asset_node \<Rightarrow> asset_node" where
  "opened_node (RegularFile mode content) = RegularFile (if executable mode then 493 else 420) content"
| "opened_node (Symlink target resolved) = Symlink target resolved"
| "opened_node (Folder mode) = Folder 493"
| "opened_node (Special mode) = Special (if executable mode then 493 else 420)"

definition opened :: "asset_tree \<Rightarrow> asset_tree" where
  "opened t = t\<lparr>at_below := map (\<lambda>(p, n). (p, opened_node n)) (at_below t)\<rparr>"

fun copy_components :: "asset_io \<Rightarrow> (path \<Rightarrow> asset_tree) \<Rightarrow> (string \<times> string) list \<Rightarrow> (path \<Rightarrow> asset_tree) \<Rightarrow> (path \<Rightarrow> asset_tree) outcome" where
  "copy_components io contents [] output = Ret output"
| "copy_components io contents ((p, _) # cs) output =
     bindO (relative_path p) (\<lambda>relative. bindO (ai_copytree io (contents relative) (ai_output io @ relative)) (\<lambda>t.
       copy_components io contents cs (output(relative := opened t))))"

definition absent :: asset_tree where
  "absent = \<lparr>at_symlink = False, at_is_dir = False, at_resolved = Exc (OSError 2 []), at_below = []\<rparr>"

definition extract_assets :: "asset_io \<Rightarrow> bytes \<Rightarrow> (asset_state, unit) act" where
  "extract_assets io archive =
     thenA (liftA (ai_attach io archive))
     (thenA (updA (\<lambda>s. s\<lparr>us_mounted := True\<rparr>))
     (thenA (liftA (verify_assets io (ai_image io archive)))
     (bindA (liftA (copy_components io (snd (ai_image io archive)) (al_components (ai_lock io)) (\<lambda>_. absent))) (\<lambda>output.
      thenA (liftA (verify_assets io (Ret (ai_output io), output)))
      (bindA (liftA (ai_rename io output)) (\<lambda>(place, moved).
        updA (\<lambda>s. s\<lparr>us_target := Some \<lparr>pa_receipt = Some (Ret (al_json (ai_lock io))), pa_place = place, pa_components = moved\<rparr>\<rparr>)))))))"

text \<open>The \<^verbatim>\<open>finally\<close> clause.\<close>

definition release_image :: "asset_io \<Rightarrow> (asset_state, unit) act" where
  "release_image io =
     bindA (getA us_mounted) (\<lambda>attached.
     thenA (if attached then thenA (liftA (ai_detach io)) (updA (\<lambda>s. s\<lparr>us_mounted := False\<rparr>)) else retA ())
     (thenA (liftA (ai_rmtree io)) (updA (\<lambda>s. s\<lparr>us_temporary := False\<rparr>))))"

definition prepare_assets :: "asset_io \<Rightarrow> (asset_state, unit) act" where
  "prepare_assets io =
     (if \<not> ai_darwin io then excA (RuntimeError ''UTM disk-image extraction runs on macOS with hdiutil'') else
      bindA (getA us_target) (\<lambda>target. case target of
        Some a \<Rightarrow>
          bindA (liftA (case pa_receipt a of None \<Rightarrow> Ret False | Some r \<Rightarrow> bindO r (\<lambda>v. Ret (py_eq v (al_json (ai_lock io)))))) (\<lambda>same.
            if \<not> same then excA (RuntimeError ''UTM asset inputs changed'') else liftA (verify_assets io (pa_place a, pa_components a)))
      | None \<Rightarrow>
          bindA (download_image io) (\<lambda>archive.
          thenA (updA (\<lambda>s. s\<lparr>us_temporary := True\<rparr>)) (finallyA (extract_assets io archive) (release_image io)))))"

section \<open>The text of the entries\<close>

text \<open>The first character of a JSON string's text.\<close>

definition json_uncons :: "string \<Rightarrow> (char \<times> string) option" where
  "json_uncons s = (case s of
     [] \<Rightarrow> None
   | c # cs \<Rightarrow> if c \<noteq> CHR 0x5C then Some (c, cs) else
       (case cs of
          [] \<Rightarrow> None
        | d # ds \<Rightarrow>
            if d = CHR ''n'' then Some (CHR 0x0A, ds) else if d = CHR ''r'' then Some (CHR 0x0D, ds)
            else if d = CHR ''t'' then Some (CHR 0x09, ds) else if d = CHR ''b'' then Some (CHR 0x08, ds)
            else if d = CHR ''f'' then Some (CHR 0x0C, ds)
            else if d = CHR ''u'' then Some (char_of (16 * the (hex_digit (ds ! 2)) + the (hex_digit (ds ! 3))), drop 4 ds)
            else Some (d, ds)))"

lemma char_numbers:
  "char_of (34 :: nat) = CHR 0x22" "char_of (92 :: nat) = CHR 0x5C" "char_of (10 :: nat) = CHR 0x0A" "char_of (13 :: nat) = CHR 0x0D"
  "char_of (9 :: nat) = CHR 0x09" "char_of (8 :: nat) = CHR 0x08" "char_of (12 :: nat) = CHR 0x0C"
  by code_simp+

lemma json_uncons_char: "json_uncons (json_char c @ u) = Some (c, u)"
proof -
  define n where "n = (of_char c :: nat)"
  have c: "c = char_of n" by (simp add: n_def)
  consider "n = 34" | "n = 92" | "n = 10" | "n = 13" | "n = 9" | "n = 8" | "n = 12" | "n < 32" "n \<notin> {10, 13, 9, 8, 12}" | "n \<ge> 32" "n \<noteq> 34" "n \<noteq> 92"
    by fastforce
  then show ?thesis
  proof cases
    case 8
    have "json_char c = [CHR 0x5C] @ ''u00'' @ [hex_char (n div 16), hex_char n]" using 8 by (simp add: json_char_def n_def [symmetric])
    moreover have "hex_digit (hex_char (n div 16)) = Some (n div 16)" "hex_digit (hex_char n) = Some (n mod 16)" using 8(1) by (simp_all add: hex_digit_hex_char)
    ultimately show ?thesis unfolding json_uncons_def by (simp add: c)
  next
    case 9
    then have "json_char c = [c]" "c \<noteq> CHR 0x5C" by (auto simp: json_char_def n_def)
    then show ?thesis by (simp add: json_uncons_def)
  qed (simp_all add: json_char_def json_uncons_def c char_numbers)
qed

lemma json_char_prefix: "json_char c @ u = json_char d @ v \<Longrightarrow> c = d \<and> u = v"
  by (metis json_uncons_char option.inject prod.inject)

lemma json_char_quote: "json_char c @ u \<noteq> CHR 0x22 # v"
proof
  assume e: "json_char c @ u = CHR 0x22 # v"
  then have "c = CHR 0x22" using json_uncons_char [of c u] by (simp add: json_uncons_def)
  then show False using e by (simp add: json_char_def)
qed

lemma json_body_prefix: "concat (map json_char s) @ CHR 0x22 # u = concat (map json_char t) @ CHR 0x22 # v \<Longrightarrow> s = t \<and> u = v"
proof (induction s arbitrary: t)
  case Nil
  then show ?case using json_char_quote [of _ _ u] by (cases t) (auto simp: eq_commute)
next
  case (Cons c s)
  show ?case
  proof (cases t)
    case Nil
    then show ?thesis using Cons.prems json_char_quote [of c "concat (map json_char s) @ CHR 0x22 # u" v] by simp
  next
    case t: (Cons d t')
    then show ?thesis using Cons.IH [of t'] Cons.prems json_char_prefix [of c "concat (map json_char s) @ CHR 0x22 # u" d "concat (map json_char t') @ CHR 0x22 # v"] by simp
  qed
qed

lemma json_str_prefix: "json_str s @ u = json_str t @ v \<Longrightarrow> s = t \<and> u = v"
  unfolding json_str_def using json_body_prefix [of s u t v] by simp

lemma entry_text_prefix:
  assumes "entry_text e @ u = entry_text f @ v"
  shows "e = f \<and> u = v"
proof (cases e)
  case (LinkEntry n a)
  then show ?thesis using assms by (cases f) (auto dest!: json_str_prefix)
next
  case (FileEntry n x h)
  then show ?thesis using assms by (cases f) (auto dest!: json_str_prefix split: if_splits)
next
  case (DirectoryEntry n)
  then show ?thesis using assms by (cases f) (auto dest!: json_str_prefix)
qed

lemma entry_text_open: "\<exists>s. entry_text e = CHR ''['' # s"
  by (cases e) auto

lemma entries_prefix:
  "join '','' (map entry_text es) @ CHR '']'' # u = join '','' (map entry_text fs) @ CHR '']'' # v \<Longrightarrow> es = fs"
proof (induction es arbitrary: fs)
  case Nil
  show ?case
  proof (cases fs)
    case (Cons f fs')
    obtain s where "entry_text f = CHR ''['' # s" using entry_text_open by blast
    then show ?thesis using Nil Cons by (cases fs') auto
  qed simp
next
  case (Cons e es)
  obtain s where s: "entry_text e = CHR ''['' # s" using entry_text_open by blast
  show ?case
  proof (cases fs)
    case Nil
    then show ?thesis using Cons.prems s by (cases es) auto
  next
    case f: (Cons f fs')
    define x y where x: "x = (if es = [] then CHR '']'' # u else '','' @ join '','' (map entry_text es) @ CHR '']'' # u)"
      and y: "y = (if fs' = [] then CHR '']'' # v else '','' @ join '','' (map entry_text fs') @ CHR '']'' # v)"
    have "entry_text e @ x = entry_text f @ y" using Cons.prems f by (cases es; cases fs') (simp_all add: x y)
    from entry_text_prefix [OF this] have "e = f" "x = y" by simp_all
    then show ?thesis using Cons.IH [of fs'] f unfolding x y by (auto split: if_splits)
  qed
qed

lemma entries_text_inj: "entries_text es = entries_text fs \<Longrightarrow> es = fs"
  unfolding entries_text_def using entries_prefix [of es "[]" fs "[]"] by simp

lemma ascii_bytes_inj: "ascii_bytes s = ascii_bytes t \<Longrightarrow> s = t"
proof -
  have "c = d" if "word_of_nat (of_char c) = (word_of_nat (of_char d) :: 8 word)" for c d :: char
    using that by (simp add: word_of_nat_eq_iff take_bit_nat_eq_self of_char_eq_iff)
  then have "inj (\<lambda>c :: char. word_of_nat (of_char c) :: 8 word)" by (intro injI)
  then show "ascii_bytes s = ascii_bytes t \<Longrightarrow> s = t" unfolding ascii_bytes_def by (simp add: inj_map_eq_map)
qed

section \<open>Equal digests mean equal trees\<close>

text \<open>What a tree consists of: names, kinds, executability, contents and the texts of links.\<close>

datatype node_shape = LinkShape string | FileShape bool bytes | FolderShape | OtherShape

fun shape_of :: "asset_node \<Rightarrow> node_shape" where
  "shape_of (Symlink target _) = LinkShape target"
| "shape_of (RegularFile mode content) = FileShape (executable mode) content"
| "shape_of (Folder _) = FolderShape"
| "shape_of (Special _) = OtherShape"

definition shapes :: "asset_tree \<Rightarrow> (path \<times> node_shape) set" where
  "shapes t = (\<lambda>(p, n). (p, shape_of n)) ` set (at_below t)"

definition listing :: "asset_tree \<Rightarrow> (path \<times> node_shape) list" where
  "listing t = map (\<lambda>(p, n). (p, shape_of n)) (sort_key fst (at_below t))"

definition wf_tree :: "asset_tree \<Rightarrow> bool" where
  "wf_tree t \<longleftrightarrow> distinct (map fst (at_below t)) \<and> list_all (\<lambda>(p, n). p \<noteq> [] \<and> list_all (\<lambda>c. CHR ''/'' \<notin> set c) p) (at_below t)"

fun shape_entry :: "(bytes \<Rightarrow> string) \<Rightarrow> path \<times> node_shape \<Rightarrow> tree_entry" where
  "shape_entry sha256 (p, LinkShape target) = LinkEntry (join ''/'' p) target"
| "shape_entry sha256 (p, FileShape x content) = FileEntry (join ''/'' p) x (sha256 content)"
| "shape_entry sha256 (p, s) = DirectoryEntry (join ''/'' p)"

text \<open>What is hashed for the digest of a tree.\<close>

definition tree_text :: "(bytes \<Rightarrow> string) \<Rightarrow> asset_tree \<Rightarrow> bytes" where
  "tree_text sha256 t = ascii_bytes (entries_text (map (shape_entry sha256) (listing t)))"

definition hashed :: "(bytes \<Rightarrow> string) \<Rightarrow> asset_tree \<Rightarrow> bytes set" where
  "hashed sha256 t = insert (tree_text sha256 t) {content. \<exists>p mode. (p, RegularFile mode content) \<in> set (at_below t)}"

lemma set_listing: "set (listing t) = shapes t"
  by (simp add: listing_def shapes_def)

lemma listing_sorted: "wf_tree t \<Longrightarrow> sorted (map fst (listing t)) \<and> distinct (map fst (listing t))"
proof -
  assume "wf_tree t"
  moreover have f: "map fst (listing t) = map fst (sort_key fst (at_below t))" by (simp add: listing_def case_prod_unfold comp_def)
  moreover have "distinct (map fst (sort_key fst xs)) \<longleftrightarrow> distinct (map fst xs)" for xs :: "(path \<times> asset_node) list"
    by (simp add: distinct_map)
  ultimately show ?thesis by (simp add: wf_tree_def)
qed

lemma keyed_lists_eq:
  fixes xs ys :: "('a :: linorder \<times> 'b) list"
  assumes "set xs = set ys" "sorted (map fst xs)" "distinct (map fst xs)" "sorted (map fst ys)" "distinct (map fst ys)"
  shows "xs = ys"
proof -
  have k: "map fst xs = map fst ys" using assms by (intro sorted_distinct_set_unique) (simp_all)
  have m: "map_of xs = map_of ys" using assms(1,3,5) by (metis map_of_inject_set)
  have r: "map (\<lambda>k. (k, the (map_of zs k))) (map fst zs) = zs" if "distinct (map fst zs)" for zs :: "('a \<times> 'b) list"
    using that by (auto intro!: map_idI)
  show ?thesis using r [OF assms(3)] r [OF assms(5)] unfolding k m by simp
qed

lemma listing_eq_iff: "wf_tree a \<Longrightarrow> wf_tree b \<Longrightarrow> listing a = listing b \<longleftrightarrow> shapes a = shapes b"
  using keyed_lists_eq [of "listing a" "listing b"] listing_sorted set_listing by metis

lemma tree_entry_shape: "tree_entry_of sha256 d (p, n) = Ret e \<Longrightarrow> shape_of n \<noteq> OtherShape \<and> e = shape_entry sha256 (p, shape_of n)"
  unfolding tree_entry_of_def by (cases n) (auto simp: Let_def bindO_eq_Ret split: if_splits)

lemma mapO_entries:
  "mapO (tree_entry_of sha256 d) xs = Ret es \<Longrightarrow>
     (\<forall>(p, n) \<in> set xs. shape_of n \<noteq> OtherShape) \<and> es = map (shape_entry sha256) (map (\<lambda>(p, n). (p, shape_of n)) xs)"
proof (induction xs arbitrary: es)
  case (Cons x xs)
  obtain p n where x: "x = (p, n)" by (cases x)
  obtain e fs where l: "tree_entry_of sha256 d (p, n) = Ret e" "mapO (tree_entry_of sha256 d) xs = Ret fs" "es = e # fs"
    using Cons.prems unfolding x by (auto simp: bindO_eq_Ret)
  then show ?case using Cons.IH [OF l(2)] tree_entry_shape [OF l(1)] x by auto
qed simp

lemma tree_digest_text:
  assumes "tree_digest sha256 t = Ret h"
  shows "h = sha256 (tree_text sha256 t) \<and> (\<forall>x \<in> shapes t. snd x \<noteq> OtherShape)"
proof -
  obtain d es where "mapO (tree_entry_of sha256 d) (sort_key fst (at_below t)) = Ret es" "h = sha256 (ascii_bytes (entries_text es))"
    using assms unfolding tree_digest_def by (auto simp: bindO_eq_Ret)
  then show ?thesis using mapO_entries [of sha256 d "sort_key fst (at_below t)" es] unfolding tree_text_def listing_def shapes_def by auto
qed

lemma join_inj:
  assumes "join ''/'' p = join ''/'' q" "p \<noteq> []" "q \<noteq> []" "list_all (\<lambda>c. CHR ''/'' \<notin> set c) p" "list_all (\<lambda>c. CHR ''/'' \<notin> set c) q"
  shows "p = q"
  using split_on_join [OF assms(2,4)] split_on_join [OF assms(3,5)] assms(1) by metis

lemma shapes_paths: "wf_tree t \<Longrightarrow> (p, s) \<in> shapes t \<Longrightarrow> p \<noteq> [] \<and> list_all (\<lambda>c. CHR ''/'' \<notin> set c) p"
  unfolding wf_tree_def shapes_def by (auto simp: list_all_iff)

lemma shapes_contents: "(p, FileShape x content) \<in> shapes t \<Longrightarrow> content \<in> hashed sha256 t"
proof -
  assume "(p, FileShape x content) \<in> shapes t"
  then obtain n where "(p, n) \<in> set (at_below t)" "shape_of n = FileShape x content" unfolding shapes_def by auto
  then show ?thesis unfolding hashed_def by (cases n) auto
qed

lemma shape_entry_inj:
  assumes "wf_tree a" "wf_tree b" "\<forall>x \<in> shapes a \<union> shapes b. snd x \<noteq> OtherShape" "inj_on sha256 (hashed sha256 a \<union> hashed sha256 b)"
  shows "inj_on (shape_entry sha256) (shapes a \<union> shapes b)"
proof (rule inj_onI)
  fix x y assume x: "x \<in> shapes a \<union> shapes b" and y: "y \<in> shapes a \<union> shapes b" and e: "shape_entry sha256 x = shape_entry sha256 y"
  obtain p s q r where xy: "x = (p, s)" "y = (q, r)" by (cases x; cases y)
  have "join ''/'' p = join ''/'' q" using e unfolding xy by (cases s; cases r) auto
  moreover have "p \<noteq> [] \<and> list_all (\<lambda>c. CHR ''/'' \<notin> set c) p" "q \<noteq> [] \<and> list_all (\<lambda>c. CHR ''/'' \<notin> set c) q"
    using x y shapes_paths [OF assms(1)] shapes_paths [OF assms(2)] unfolding xy by blast+
  ultimately have p: "p = q" by (intro join_inj) simp_all
  have c: "content \<in> hashed sha256 a \<union> hashed sha256 b" if "(k, FileShape z content) \<in> shapes a \<union> shapes b" for k z content
    using that shapes_contents by blast
  have "s = r"
  proof (cases s)
    case (FileShape z content)
    then obtain content' where r: "r = FileShape z content'" "sha256 content = sha256 content'" using e unfolding xy by (cases r) auto
    then show ?thesis using assms(4) c x y FileShape unfolding xy by (auto dest: inj_onD)
  qed (use e x y assms(3) xy in \<open>cases r; force\<close>)+
  then show "x = y" using p xy by simp
qed

section \<open>Copies\<close>

lemma executable_modes: "executable 493" "\<not> executable 420"
  unfolding executable_def by code_simp+

lemma sort_key_map: "sort_key fst (map (\<lambda>(p, n). (p, f n)) xs) = map (\<lambda>(p, n). (p, f n)) (sort_key fst xs)"
proof -
  have i: "insort_key fst (p, f n) (map (\<lambda>(p, n). (p, f n)) ys) = map (\<lambda>(p, n). (p, f n)) (insort_key fst (p, n) ys)" for p n ys
    by (induction ys) auto
  show ?thesis by (induction xs) (auto simp: i)
qed

lemma mapO_map: "mapO f (map g xs) = mapO (f \<circ> g) xs"
  by (induction xs) auto

text \<open>The permissions that the copies get do not change their digest.\<close>

lemma opened_digest: "tree_digest sha256 (opened t) = tree_digest sha256 t"
proof -
  have "tree_entry_of sha256 d (p, opened_node n) = tree_entry_of sha256 d (p, n)" for d p n
    by (cases n) (simp_all add: tree_entry_of_def Let_def executable_modes)
  then have "tree_entry_of sha256 d \<circ> (\<lambda>(p, n). (p, opened_node n)) = tree_entry_of sha256 d" for d by (auto simp: fun_eq_iff)
  then show ?thesis unfolding tree_digest_def opened_def by (simp add: sort_key_map mapO_map)
qed

section \<open>Verified components\<close>

definition component_right :: "asset_io \<Rightarrow> (path \<Rightarrow> asset_tree) \<Rightarrow> string \<times> string \<Rightarrow> bool" where
  "component_right io here c \<longleftrightarrow> (\<exists>relative. relative_path (fst c) = Ret relative \<and> \<not> at_symlink (here relative) \<and> at_is_dir (here relative) \<and>
     (\<forall>known. wf_tree known \<and> wf_tree (here relative) \<and> tree_digest (ai_sha256 io) known = Ret (snd c) \<and>
        inj_on (ai_sha256 io) (hashed (ai_sha256 io) known \<union> hashed (ai_sha256 io) (here relative)) \<longrightarrow> shapes (here relative) = shapes known))"

lemma tree_digest_iff:
  assumes "wf_tree a" "wf_tree b" "tree_digest sha256 a = Ret h" "tree_digest sha256 b = Ret k" "inj_on sha256 (hashed sha256 a \<union> hashed sha256 b)"
  shows "h = k \<longleftrightarrow> shapes a = shapes b"
proof
  note a = tree_digest_text [OF assms(3)] and b = tree_digest_text [OF assms(4)]
  assume "h = k"
  then have "tree_text sha256 a = tree_text sha256 b" using a b by (intro inj_onD [OF assms(5)]) (simp_all add: hashed_def)
  then have "map (shape_entry sha256) (listing a) = map (shape_entry sha256) (listing b)"
    unfolding tree_text_def by (intro entries_text_inj ascii_bytes_inj)
  moreover have "inj_on (shape_entry sha256) (set (listing a) \<union> set (listing b))"
    unfolding set_listing using a b by (intro shape_entry_inj assms) auto
  ultimately have "listing a = listing b" by (rule map_inj_on)
  then show "shapes a = shapes b" using listing_eq_iff [OF assms(1,2)] by simp
next
  assume "shapes a = shapes b"
  then have "listing a = listing b" using listing_eq_iff [OF assms(1,2)] by simp
  then show "h = k" using tree_digest_text [OF assms(3)] tree_digest_text [OF assms(4)] by (simp add: tree_text_def)
qed

lemma verify_components_right:
  "verify_components io directory here cs = Ret () \<Longrightarrow> c \<in> set cs \<Longrightarrow> component_right io here c"
proof (induction cs)
  case (Cons d cs)
  show ?case
  proof (cases "c = d")
    case True
    obtain p expected where c: "c = (p, expected)" by (cases c)
    obtain relative where r: "relative_path p = Ret relative" "\<not> at_symlink (here relative)" "at_is_dir (here relative)" "tree_digest (ai_sha256 io) (here relative) = Ret expected"
      using Cons.prems(1) True c by (auto simp: verify_component_def Let_def bindO_eq_Ret split: if_splits)
    then show ?thesis unfolding component_right_def c using tree_digest_iff [OF _ _ r(4)] by (auto simp: Un_commute)
  next
    case False
    then show ?thesis using Cons by (auto simp: bindO_eq_Ret)
  qed
qed simp

section \<open>Preparation\<close>

definition verified :: "asset_io \<Rightarrow> (path \<Rightarrow> asset_tree) \<Rightarrow> bool" where
  "verified io here \<longleftrightarrow> list_all (component_right io here) (al_components (ai_lock io))"

lemma verify_assets_verified: "verify_assets io d = Ret () \<Longrightarrow> verified io (snd d)"
  unfolding verify_assets_def verified_def list_all_iff by (auto simp: bindO_eq_Ret intro: verify_components_right)

text \<open>A directory that was made from the recorded image: its components were verified before it was moved to its place.\<close>

definition made_from_image :: "asset_io \<Rightarrow> prepared_assets \<Rightarrow> bool" where
  "made_from_image io a \<longleftrightarrow> (\<exists>b output. image_right io b \<and> verified io (snd (ai_image io b)) \<and> verified io output \<and>
     ai_rename io output = Ret (pa_place a, pa_components a) \<and> pa_receipt a = Some (Ret (al_json (ai_lock io))))"

definition releases :: "asset_io \<Rightarrow> bool" where
  "releases io \<longleftrightarrow> ai_detach io = Ret () \<and> ai_rmtree io = Ret ()"

lemma release_image_result:
  assumes "release_image io s = (t, r)"
  shows "us_target t = us_target s \<and> us_cache t = us_cache s \<and> (r = Ret () \<longrightarrow> \<not> us_mounted t \<and> \<not> us_temporary t) \<and> (releases io \<longrightarrow> r = Ret ())"
  using assms unfolding release_image_def releases_def
  by (cases "us_mounted s"; cases "ai_detach io"; cases "ai_rmtree io") (auto simp: act_defs)

lemma extract_assets_result:
  assumes "extract_assets io b s = (t, r)" "image_right io b"
  shows "us_cache t = us_cache s \<and> us_temporary t = us_temporary s \<and>
    ((\<forall>x. r \<noteq> Ret x) \<and> us_target t = us_target s \<or> r = Ret () \<and> (\<exists>a. us_target t = Some a \<and> made_from_image io a))"
proof (cases "ai_attach io b")
  case (Ret x)
  let ?s = "s\<lparr>us_mounted := True\<rparr>" and ?cs = "al_components (ai_lock io)"
  define steps where "steps = bindO (verify_assets io (ai_image io b)) (\<lambda>_. bindO (copy_components io (snd (ai_image io b)) ?cs (\<lambda>_. absent)) (\<lambda>output.
    bindO (verify_assets io (Ret (ai_output io), output)) (\<lambda>_. ai_rename io output)))"
  have e: "extract_assets io b s = (case steps of
      Ret (place, moved) \<Rightarrow> (?s\<lparr>us_target := Some \<lparr>pa_receipt = Some (Ret (al_json (ai_lock io))), pa_place = place, pa_components = moved\<rparr>\<rparr>, Ret ())
    | Exc e \<Rightarrow> (?s, Exc e) | NoRet \<Rightarrow> (?s, NoRet))"
    unfolding extract_assets_def steps_def using Ret by (auto simp: act_defs bindO_eq_Ret bindO_eq_Exc bindO_eq_NoRet split: outcome.splits)
  show ?thesis
  proof (cases steps)
    case m: (Ret y)
    obtain place moved where y: "y = (place, moved)" by (cases y)
    obtain outp where o: "verify_assets io (ai_image io b) = Ret ()" "verify_assets io (Ret (ai_output io), outp) = Ret ()" "ai_rename io outp = Ret (place, moved)"
      using m unfolding steps_def y by (auto simp: bindO_eq_Ret)
    have "made_from_image io \<lparr>pa_receipt = Some (Ret (al_json (ai_lock io))), pa_place = place, pa_components = moved\<rparr>"
      unfolding made_from_image_def using verify_assets_verified [OF o(1)] verify_assets_verified [OF o(2)] o(3) assms(2) by auto
    then show ?thesis using assms(1) e m y by auto
  qed (use assms(1) e in auto)
qed (use assms(1) in \<open>auto simp: extract_assets_def act_defs\<close>)

lemma download_image_result:
  assumes "download_image io s = (t, r)"
  shows "us_target t = us_target s \<and> us_mounted t = us_mounted s \<and> us_temporary t = us_temporary s \<and>
    (us_cache t = us_cache s \<or> (\<exists>b. us_cache t = Some b \<and> image_right io b)) \<and> (\<forall>b. r = Ret b \<longrightarrow> image_right io b)"
proof (cases "us_cache s")
  case None
  then show ?thesis using assms unfolding download_image_def by (cases "ai_fetch io (al_url (ai_lock io))") (auto simp: act_defs split: if_splits)
next
  case (Some b)
  then show ?thesis using assms unfolding download_image_def by (auto split: if_splits)
qed

section \<open>Properties\<close>

text \<open>Two trees have the same digest exactly when they have the same names, kinds, executability, contents and link texts, as long as
  SHA-256 has no collision among what was hashed for them: neither the order in which the file system lists them nor the way in which the entries
  are written down can confuse two trees.\<close>

theorem tree_digest_exact:
  assumes "wf_tree a" "wf_tree b" "tree_digest sha256 a = Ret h" "tree_digest sha256 b = Ret k" "inj_on sha256 (hashed sha256 a \<union> hashed sha256 b)"
  shows "h = k \<longleftrightarrow> shapes a = shapes b"
  using assms by (rule tree_digest_iff)

text \<open>C40: the prepared assets are those of the recorded release: they were there with a receipt of the present lock and were verified again, or
  they come from an image with the recorded size and checksum and every component was verified in the image and after it was copied. Without
  success the target is not replaced, only images with the recorded checksum stay in the cache, and in the end nothing is mounted and no
  temporary directory is left unless the system refuses to release them.\<close>

theorem assets_pinned:
  assumes run: "prepare_assets io s = (t, r)" and start: "\<not> us_mounted s" "\<not> us_temporary s"
  shows "(r = Ret () \<longrightarrow> (\<exists>a. us_target t = Some a \<and>
      (t = s \<and> (\<exists>v. pa_receipt a = Some (Ret v) \<and> py_eq v (al_json (ai_lock io))) \<and> verified io (pa_components a) \<or>
       us_target s = None \<and> made_from_image io a))) \<and>
    (us_target t = us_target s \<or> us_target s = None \<and> (\<exists>a. us_target t = Some a \<and> made_from_image io a)) \<and>
    (us_cache t = us_cache s \<or> (\<exists>b. us_cache t = Some b \<and> image_right io b)) \<and>
    (r = Ret () \<or> releases io \<longrightarrow> \<not> us_mounted t \<and> \<not> us_temporary t)"
proof (cases "ai_darwin io")
  case False
  then show ?thesis using run start by (auto simp: prepare_assets_def)
next
  case darwin: True
  show ?thesis
  proof (cases "us_target s")
    case (Some a)
    have l: "liftA x s = (s, x)" for x by (simp add: liftA_def)
    have t: "t = s" using run darwin Some by (auto simp: prepare_assets_def l split: outcome.splits if_splits)
    have "(\<exists>v. pa_receipt a = Some (Ret v) \<and> py_eq v (al_json (ai_lock io))) \<and> verified io (pa_components a)" if "r = Ret ()"
      using run darwin Some that verify_assets_verified [of io "(pa_place a, pa_components a)"]
      by (auto simp: prepare_assets_def l bindO_eq_Ret split: outcome.splits if_splits option.splits)
    then show ?thesis using Some start t by auto
  next
    case None
    obtain u q where u: "download_image io s = (u, q)" by fastforce
    note d = download_image_result [OF u]
    show ?thesis
    proof (cases q)
      case (Ret b)
      let ?u = "u\<lparr>us_temporary := True\<rparr>"
      obtain v x where v: "extract_assets io b ?u = (v, x)" by fastforce
      obtain w y where w: "release_image io v = (w, y)" by fastforce
      have "t = w" "r = (case y of Ret _ \<Rightarrow> x | Exc e \<Rightarrow> Exc e | NoRet \<Rightarrow> NoRet)"
        using run darwin None u Ret v w by (auto simp: prepare_assets_def bindA_def getA_def finallyA_def split: outcome.splits)
      then show ?thesis
        using d Ret extract_assets_result [OF v] release_image_result [OF w] None by (cases y) (auto split: outcome.splits)
    qed (use run darwin None u d start in \<open>auto simp: prepare_assets_def bindA_def getA_def\<close>)
  qed
qed

text \<open>A component with a file in a directory.\<close>

definition plain_sha :: "bytes \<Rightarrow> string" where
  "plain_sha b = map (\<lambda>w. char_of (unat w)) b"

definition demo_tree :: "path \<Rightarrow> asset_tree" where
  "demo_tree p = \<lparr>at_symlink = False, at_is_dir = True, at_resolved = Ret p,
     at_below = [([''lib'', ''x''], RegularFile 493 [1]), ([''lib''], Folder 493), ([''x''], Symlink ''lib/x'' (Ret (p @ [''lib'', ''x''])))]\<rparr>"

definition other_tree :: asset_tree where
  "other_tree = (demo_tree [''o''])\<lparr>at_below := rev (at_below (demo_tree [''o'']))\<rparr>"

definition demo_digest :: string where
  "demo_digest = plain_sha (ascii_bytes (entries_text
     [DirectoryEntry ''lib'', FileEntry ''lib/x'' True (plain_sha [1]), LinkEntry ''x'' ''lib/x'']))"

lemma plain_sha_inj: "inj plain_sha"
proof -
  have "u = v" if "(char_of (unat u) :: char) = char_of (unat v)" for u v :: "8 word"
  proof -
    have "unat u mod 256 = unat v mod 256" using that by (metis of_char_of)
    then have "unat u = unat v" using unat_byte_lt [of u] unat_byte_lt [of v] by simp
    then show ?thesis by (rule unsigned_word_eqI)
  qed
  then have "inj (\<lambda>w :: 8 word. char_of (unat w) :: char)" by (intro injI)
  then show ?thesis by (auto simp: plain_sha_def inj_def inj_map_eq_map)
qed

lemma demo_sorted:
  "sort_key fst (at_below (demo_tree p)) = [([''lib''], Folder 493), ([''lib'', ''x''], RegularFile 493 [1]), ([''x''], Symlink ''lib/x'' (Ret (p @ [''lib'', ''x''])))]"
  "sort_key fst (at_below other_tree) = sort_key fst (at_below (demo_tree [''o'']))"
  by code_simp+

lemma demo_digests: "tree_digest plain_sha (demo_tree p) = Ret demo_digest" "tree_digest plain_sha other_tree = Ret demo_digest"
proof -
  have r: "at_resolved (demo_tree p) = Ret p" "at_resolved other_tree = at_resolved (demo_tree [''o''])" for p by (simp_all add: demo_tree_def other_tree_def)
  show d: "tree_digest plain_sha (demo_tree p) = Ret demo_digest" for p
    unfolding tree_digest_def demo_sorted r(1)
    by (simp add: tree_entry_of_def executable_modes absolute_def is_relative_to_iff demo_digest_def)
  then show "tree_digest plain_sha other_tree = Ret demo_digest" unfolding tree_digest_def r(2) demo_sorted(2) .
qed

lemma demo_wf: "wf_tree (demo_tree [''o''])" "wf_tree other_tree"
  by (simp_all add: wf_tree_def demo_tree_def other_tree_def)

theorem tree_digest_exact_witness: "shapes (demo_tree [''o'']) = shapes other_tree"
  using tree_digest_exact [OF demo_wf demo_digests inj_on_subset [OF plain_sha_inj subset_UNIV]] by simp

definition demo_image :: bytes where
  "demo_image = [7, 7]"

definition demo_assets :: asset_io where
  "demo_assets = \<lparr>ai_lock = \<lparr>al_url = ''u'', al_size = 2, al_sha256 = plain_sha demo_image, al_components = [(''F/x'', demo_digest)], al_shader_sources = [], al_json = JStr ''lock''\<rparr>,
     ai_darwin = True, ai_sha256 = plain_sha, ai_fetch = (\<lambda>_. Ret demo_image), ai_attach = (\<lambda>_. Ret ()), ai_image = (\<lambda>_. (Ret [''m''], \<lambda>p. demo_tree (''m'' # p))),
     ai_copytree = (\<lambda>t p. Ret (demo_tree p)), ai_output = [''o''], ai_rename = (\<lambda>here. Ret (Ret [''t''], \<lambda>p. demo_tree (''t'' # p))), ai_detach = Ret (), ai_rmtree = Ret ()\<rparr>"

definition demo_before :: asset_state where
  "demo_before = \<lparr>us_target = None, us_cache = None, us_mounted = False, us_temporary = False\<rparr>"

lemma demo_assets_prepared: "snd (prepare_assets demo_assets demo_before) = Ret ()"
proof -
  have p: "relative_path ''F/x'' = Ret [''F'', ''x'']" by code_simp
  have t: "\<not> at_symlink (demo_tree p)" "at_is_dir (demo_tree p)" "at_resolved (demo_tree p) = Ret p" for p by (simp_all add: demo_tree_def)
  have o: "at_symlink (opened x) = at_symlink x" "at_is_dir (opened x) = at_is_dir x" "at_resolved (opened x) = at_resolved x" for x by (simp_all add: opened_def)
  have i: "image_right demo_assets demo_image" by (simp add: image_right_def demo_assets_def demo_image_def)
  have v: "verify_assets demo_assets (Ret [d], here) = Ret ()" if "here [''F'', ''x''] = demo_tree [d, ''F'', ''x''] \<or> here [''F'', ''x''] = opened (demo_tree [d, ''F'', ''x''])" for d here
    using that by (auto simp: verify_assets_def demo_assets_def verify_component_def p t o opened_digest demo_digests)
  show ?thesis
    using i v by (simp add: prepare_assets_def demo_before_def download_image_def extract_assets_def release_image_def finallyA_def p
      demo_assets_def [THEN arg_cong, of ai_darwin] act_defs) (simp add: demo_assets_def p act_defs)
qed

theorem assets_pinned_witness: "\<exists>t a. prepare_assets demo_assets demo_before = (t, Ret ()) \<and> us_target t = Some a \<and> made_from_image demo_assets a"
proof -
  obtain t where t: "prepare_assets demo_assets demo_before = (t, Ret ())" using demo_assets_prepared by (cases "prepare_assets demo_assets demo_before") simp
  have s: "\<not> us_mounted demo_before" "\<not> us_temporary demo_before" "us_target demo_before = None" by (simp_all add: demo_before_def)
  show ?thesis using assets_pinned [OF t s(1,2)] s(3) t by auto
qed

end
