(* ===== verification/Spec2Isabelle.thy ===== *)
theory Spec2Isabelle
  imports Prelude Pyvalue Ctaphid Fido_Relay Wifi_Scan Timers Host_Events Wifi_Link Wifi_Bridge Bt_Management Wifi_Power Bt_Bluez Audio_Pipewire Camera_Demand Device_Service Trackpad Battery Session Qemu_Args Repo_Check Assemble Build_Sources Utm_Assets
begin

text \<open>
  \<^bold>\<open>Ashacky\<close> runs one Linux VM per macOS login and lets the guest use the host's devices: security keys, Wi-Fi, Bluetooth, audio,
  camera, trackpad, battery and power. This development models the Python programs of the repository (under \<^verbatim>\<open>src/\<close>), and the
  battery driver they feed, as Isabelle definitions and proves what makes each of them correct.

  \<^bold>\<open>The program.\<close> On the host, \<^verbatim>\<open>host/session\<close> starts and supervises QEMU and its helpers, \<^verbatim>\<open>host/transport\<close> finds the VM and opens a
  shell in it, and a Swift application answers control requests, one JSON line each, over a socket that is forwarded into the guest. In
  the guest, one service per device turns these answers into the interface the desktop expects (a UHID security key, a cfg80211
  driver's requests, BlueZ objects on D-Bus, PipeWire nodes, a V4L2 camera, an evdev touchpad, a power-supply driver).
  \<^verbatim>\<open>tools/plan-installation.py\<close> generates the configuration that the host and the guest programs read; \<^verbatim>\<open>tools/sources.py\<close>,
  \<^verbatim>\<open>utm_assets.py\<close> and \<^verbatim>\<open>assemble-runtime.py\<close> prepare and collect what the host application is built from.

  \<^bold>\<open>How code is modelled.\<close> A Python call is a value of \<open>outcome\<close> (it returns, raises an exception of \<open>exn\<close>, or does not return) or, when
  it changes an object, a state transformer \<open>act\<close> on a record of the object's attributes; both are in \<open>Prelude\<close>, with the exception
  hierarchy, byte strings, big- and little-endian integers and the rules for invariants (\<open>keeps\<close>), for calls that always end (\<open>ends\<close>) and
  for step systems (the locale \<open>service\<close>: initial states, steps, an invariant that the steps keep, and what follows for every
  reachable state). JSON values, dicts in insertion order, UUIDs, base64 and text are in \<open>Pyvalue\<close>, the JSON decoder and the incremental
  UTF-8 decoder in \<open>Json_Text\<close>, IPv4 addresses and networks in \<open>Ipv4\<close>, \<^verbatim>\<open>pathlib\<close> in \<open>Paths\<close>. What the code reads from outside (clocks,
  system calls, sockets, files, random values, child processes, D-Bus and GLib, host replies) is an argument of the definitions; what
  it does to the outside is an ordered log in the state. Concurrency is explicit: threads, signal handlers, GLib callbacks and other
  writers are interleaved steps. Machine integers are words where the code packs or masks them.

  \<^bold>\<open>Theories and sources.\<close>
  \<^item> \<open>Ctaphid\<close> and \<open>Fido_Relay\<close>: \<^verbatim>\<open>guest/auth/fido2.py\<close>. The CTAPHID transaction layer (\<^verbatim>\<open>packets\<close>, \<^verbatim>\<open>HID\<close>), the UHID device and the
    relay's event loop. Messages survive fragmentation, channels stay within bounds, every request is answered or cancelled exactly
    once, every host failure is answered with an error.
  \<^item> \<open>Wifi_Scan\<close>, \<open>Wifi_Link\<close>, \<open>Wifi_Bridge\<close>, \<open>Wifi_Power\<close>: \<^verbatim>\<open>guest/devices/wifi_scan.py\<close>, \<^verbatim>\<open>wifi_link.py\<close>, \<^verbatim>\<open>wifi_bridge.py\<close>,
    \<^verbatim>\<open>wifi_power.py\<close>. Scan pages and their validation, the security check and the link follower, the driver's requests, the radio
    switch. Scans are complete, a connection is confirmed only when the host is associated with the network asked for, reports are
    justified, choices of the user are never submitted twice.
  \<^item> \<open>Timers\<close>, \<open>Host_Events\<close>: the named timers of the event objects and \<^verbatim>\<open>wifi_events.py\<close>, \<^verbatim>\<open>bluetooth_events.py\<close>; the locale
    \<open>event_object\<close> is the contract of such an object (it always has its next read or poll pending).
  \<^item> \<open>Bt_Management\<close>, \<open>Bt_Bluez\<close>: \<^verbatim>\<open>bluetooth_management.py\<close>, \<^verbatim>\<open>bluetooth_bluez.py\<close>. Supervised device operations and the BlueZ
    objects. D-Bus clients that follow the signals see exactly the bridge's objects; pairing needs a confirming agent.
  \<^item> \<open>Audio_Events\<close>, \<open>Audio_Volume\<close>, \<open>Audio_Pipewire\<close>: \<^verbatim>\<open>audio_events.py\<close>, \<^verbatim>\<open>audio_volume.py\<close>, \<^verbatim>\<open>audio_pipewire.py\<close>. The PipeWire
    change stream and graph, the volume proxy and the bridge; the locales \<open>audio_client\<close>, \<open>bridge_frame\<close> and \<open>bridge_invariant\<close> state what
    the event source promises its client and what the bridge's calls keep.
  \<^item> \<open>Camera_Shared\<close>, \<open>Camera_Demand\<close>: \<^verbatim>\<open>camera_shared.py\<close>, \<^verbatim>\<open>camera_demand.py\<close>. The stream and the three threads that serve it; no
    wake-up is lost and no frame of the camera is shown outside a stream.
  \<^item> \<open>Device_Service\<close>: \<^verbatim>\<open>device_service.py\<close>, the desktop's socket; only well-formed requests of the owner reach the host.
  \<^item> \<open>Trackpad\<close>, \<open>Battery\<close>: \<^verbatim>\<open>guest/input/trackpad.py\<close>, \<^verbatim>\<open>guest/drivers/battery\<close>. What a reader of the devices sees, also when input
    stalls or ends.
  \<^item> \<open>User_Services\<close>, \<open>Session\<close>, \<open>Qemu_Args\<close>: \<^verbatim>\<open>host/session\<close>. Restarts are bounded, the guest is started once and only when
    everything is ready, a stop is reported only when the guest confirmed it, nothing is left behind; the command line of the VM.
  \<^item> \<open>Vm_Session\<close>, \<open>Device_Probe\<close>: \<^verbatim>\<open>host/transport\<close>, \<^verbatim>\<open>guest/devices/probe-devices.py\<close>. Identity checks before a shell is opened and
    before modules are loaded.
  \<^item> \<open>Install_Plan\<close>: \<^verbatim>\<open>tools/plan-installation.py\<close>, with the composition: the files it generates are accepted by the programs above.
  \<^item> \<open>Repo_Check\<close>: \<^verbatim>\<open>tools/ashacky.py\<close>. The icon check accepts exactly plain icons, a passed repository check means no private data, and
    the constants of the privileged helpers are the planned ones.
  \<^item> \<open>Assemble\<close>: \<^verbatim>\<open>tools/assemble-runtime.py\<close>, the collection of the libraries of the host application. The loop over a queue that
    it extends itself ends, every binary is linked to copies inside the bundle, and the bundle passes the inspection of the same script.
  \<^item> \<open>Build_Sources\<close>: \<^verbatim>\<open>tools/sources.py\<close>. A prepared source is made of submodules at their recorded commits without changes and of archives
    with the recorded checksum; a failed preparation changes no generated tree, and a repeated one changes nothing.
  \<^item> \<open>Utm_Assets\<close>: \<^verbatim>\<open>tools/utm_assets.py\<close>. The digest of a tree identifies it, the prepared assets are the recorded ones, and the disk image is
    released however the preparation ends.

  \<^bold>\<open>Bounds and fuel.\<close> Loops over data are recursions with termination proofs. Loops that wait (for a socket, a process, a random value)
  take the list of the attempts' results and do not return when it ends; where the code promises to return, the theorem says which
  inputs make it. \<open>remove_substring\<close> has as fuel one more than the text's length, which each step shortens. The queue
  of \<open>Assemble\<close> takes one round for each binary, and its theorem says how many rounds are enough; the fuel of \<open>Build_Sources\<close> is the depth of the
  interpreter's stack, at whose end \<^verbatim>\<open>RecursionError\<close> is raised. Times are exact numbers;
  volume levels are reals; the rounding of the trackpad's and battery's products is a parameter with the laws of rounding.

  \<^bold>\<open>Not modelled.\<close> The Swift and Objective-C host application, the privileged helpers, the C drivers other than the battery's, the
  PAM module, the VA-API driver and the GNOME extension (other languages against large frameworks; their replies are inputs here);
  the build drivers and the integration checks under \<^verbatim>\<open>tools/\<close> that only run other programs; argument parsing, printed diagnostics,
  the environment of child processes and process set-up in \<^verbatim>\<open>__main__\<close> blocks; the patches to QEMU and other upstream projects, the
  service units and the tests. Text outside ASCII is kept as UTF-8, and white space, case and patterns are the ASCII ones.
\<close>

end
